(* ===== verification/Prelude.thy ===== *)
theory Prelude
  imports Main "HOL-Library.Word" "HOL-Library.Monad_Syntax"
begin

text \<open>
  Shared vocabulary of the development: the machine types of the C code, the return codes
  of \<open>include/capnp-janet/capnp_kinds.h\<close>, byte memory with checked reads and writes, the
  C allocator, and the interface \<open>le_codec\<close> that the little-endian loads and stores of
  \<open>capnp_pointer.h\<close> provide and every reader and writer relies on.

  Conventions. \<open>size_t\<close> values and 32-bit counters are \<open>nat\<close>; where the C arithmetic can
  wrap, the wrap is written with \<open>sz\<close> / \<open>size_t\<close> (modulo \<open>2 ^ 64\<close>). A function that
  dereferences memory returns an \<open>option\<close>: \<open>None\<close> means that the C code would read or
  write outside the object a pointer refers to (undefined behaviour), never a return code.
\<close>

unbundle bit_operations_syntax

section \<open>Machine types and constants\<close>

type_synonym byte = "8 word"
type_synonym u16 = "16 word"
type_synonym u32 = "32 word"
type_synonym u64 = "64 word"

datatype rc =
    CAPNP_OK | CAPNP_ERR_BOUNDS | CAPNP_ERR_KIND | CAPNP_ERR_DEPTH | CAPNP_ERR_TRAVERSAL
  | CAPNP_ERR_ALLOC | CAPNP_ERR_FRAMING | CAPNP_ERR_PACKED | CAPNP_ERR_ARG
  | CAPNP_ERR_SEGMENT | CAPNP_ERR_IO

text \<open>Wire pointer kinds (bits 0-1) and list element size codes, as the header numbers them.\<close>

definition CAPNP_WK_STRUCT :: nat where "CAPNP_WK_STRUCT = 0"
definition CAPNP_WK_LIST :: nat where "CAPNP_WK_LIST = 1"
definition CAPNP_WK_FAR :: nat where "CAPNP_WK_FAR = 2"
definition CAPNP_WK_CAP :: nat where "CAPNP_WK_CAP = 3"

datatype pkind = PK_NULL | PK_STRUCT | PK_LIST | PK_CAP

definition SZ_VOID :: nat where "SZ_VOID = 0"
definition SZ_BIT :: nat where "SZ_BIT = 1"
definition SZ_BYTE :: nat where "SZ_BYTE = 2"
definition SZ_TWO :: nat where "SZ_TWO = 3"
definition SZ_FOUR :: nat where "SZ_FOUR = 4"
definition SZ_EIGHT :: nat where "SZ_EIGHT = 5"
definition SZ_PTR :: nat where "SZ_PTR = 6"
definition SZ_COMPOSITE :: nat where "SZ_COMPOSITE = 7"

named_theorems kind_defs "the numeric values of the wire kinds and element size codes"

declare CAPNP_WK_STRUCT_def [kind_defs] CAPNP_WK_LIST_def [kind_defs]
  CAPNP_WK_FAR_def [kind_defs] CAPNP_WK_CAP_def [kind_defs]
  SZ_VOID_def [kind_defs] SZ_BIT_def [kind_defs] SZ_BYTE_def [kind_defs] SZ_TWO_def [kind_defs]
  SZ_FOUR_def [kind_defs] SZ_EIGHT_def [kind_defs] SZ_PTR_def [kind_defs]
  SZ_COMPOSITE_def [kind_defs]

definition WORD_BYTES :: nat where "WORD_BYTES = 8"
definition DEFAULT_TRAVERSAL_WORDS :: nat where "DEFAULT_TRAVERSAL_WORDS = 8388608"
definition DEFAULT_DEPTH_LIMIT :: int where "DEFAULT_DEPTH_LIMIT = 64"
definition MAX_SEGMENTS :: nat where "MAX_SEGMENTS = 16"

section \<open>Conversions to \<open>size_t\<close>\<close>

definition size_t :: "int \<Rightarrow> nat" where
  "size_t i = nat (i mod 2 ^ 64)"

definition sz :: "nat \<Rightarrow> nat" where
  "sz n = n mod 2 ^ 64"

lemma sz_id [simp]: "n < 2 ^ 64 \<Longrightarrow> sz n = n"
  by (simp add: sz_def)

lemma sz_less [simp]: "sz n < 2 ^ 64"
  by (simp add: sz_def)

lemma size_t_nonneg: "0 \<le> i \<Longrightarrow> i < 2 ^ 64 \<Longrightarrow> size_t i = nat i"
  by (simp add: size_t_def)

lemma size_t_less: "size_t i < 2 ^ 64"
proof -
  have "i mod 2 ^ 64 < 2 ^ 64" by simp
  then show ?thesis unfolding size_t_def by (simp add: nat_less_iff)
qed

lemma size_t_neg: "- (2 ^ 64) \<le> i \<Longrightarrow> i < 0 \<Longrightarrow> size_t i = nat (i + 2 ^ 64)"
proof -
  assume a: "- (2 ^ 64) \<le> i" "i < 0"
  have "i mod 2 ^ 64 = (i + 2 ^ 64) mod 2 ^ 64" by simp
  also have "\<dots> = i + 2 ^ 64" using a by (intro mod_pos_pos_trivial) auto
  finally show ?thesis by (simp add: size_t_def)
qed

section \<open>Byte memory\<close>

text \<open>
  An object is the list of its bytes. \<open>rd\<close> and \<open>wr\<close> are the only accesses; an access
  that is not inside the object is \<open>None\<close>.
\<close>

definition rd :: "byte list \<Rightarrow> nat \<Rightarrow> nat \<Rightarrow> byte list option" where
  "rd mem a n = (if a + n \<le> length mem then Some (take n (drop a mem)) else None)"

definition wr :: "byte list \<Rightarrow> nat \<Rightarrow> byte list \<Rightarrow> byte list option" where
  "wr mem a bs =
     (if a + length bs \<le> length mem
      then Some (take a mem @ bs @ drop (a + length bs) mem) else None)"

lemma rd_eq_Some_iff: "rd mem a n = Some p \<longleftrightarrow> a + n \<le> length mem \<and> p = take n (drop a mem)"
  by (auto simp: rd_def)

lemma rd_eq_None_iff: "rd mem a n = None \<longleftrightarrow> length mem < a + n"
  by (auto simp: rd_def)

lemma rd_Some_length: "rd mem a n = Some p \<Longrightarrow> length p = n"
  by (auto simp: rd_def split: if_splits)

lemma wr_eq_Some_iff:
  "wr mem a bs = Some mem' \<longleftrightarrow>
     a + length bs \<le> length mem \<and> mem' = take a mem @ bs @ drop (a + length bs) mem"
  by (auto simp: wr_def)

lemma wr_Some_length: "wr mem a bs = Some mem' \<Longrightarrow> length mem' = length mem"
  by (auto simp: wr_def split: if_splits)

lemma wr_total: "a + length bs \<le> length mem \<Longrightarrow> \<exists>mem'. wr mem a bs = Some mem'"
  by (simp add: wr_def)

lemma nth_wr:
  assumes "wr mem a bs = Some mem'" and "i < length mem"
  shows "mem' ! i = (if a \<le> i \<and> i < a + length bs then bs ! (i - a) else mem ! i)"
  using assms by (auto simp: wr_eq_Some_iff nth_append min_def)

lemma rd_wr_inside:
  assumes "wr mem a bs = Some mem'" and "a \<le> c" and "c + n \<le> a + length bs"
  shows "rd mem' c n = Some (take n (drop (c - a) bs))"
  using assms by (auto simp: wr_eq_Some_iff rd_def min_def)

lemma rd_wr_same: "wr mem a bs = Some mem' \<Longrightarrow> rd mem' a (length bs) = Some bs"
  by (simp add: rd_wr_inside)

lemma rd_wr_disjoint:
  assumes "wr mem a bs = Some mem'" and "c + n \<le> a \<or> a + length bs \<le> c"
  shows "rd mem' c n = rd mem c n"
proof -
  note len = wr_Some_length [OF assms(1)]
  show ?thesis
  proof (cases "c + n \<le> length mem")
    case True
    have "take n (drop c mem') = take n (drop c mem)"
      using assms True len
      by (intro nth_equalityI) (auto simp: nth_wr [OF assms(1)])
    then show ?thesis using len by (simp add: rd_def)
  next
    case False
    then show ?thesis using len by (simp add: rd_def)
  qed
qed

lemma wr_at_length:
  "length bs = length mid \<Longrightarrow>
   wr (pre @ mid @ post) (length pre) bs = Some (pre @ bs @ post)"
  by (simp add: wr_def)

lemma wr_append:
  assumes "a + length bs \<le> length mem"
  obtains mem' where "wr mem a bs = Some mem'" "length mem' = length mem"
    "take (a + length bs) mem' = take a mem @ bs"
  using assms by (simp add: wr_def)

section \<open>The C allocator\<close>

text \<open>
  \<open>mem_ok A n\<close> says whether a request for \<open>n\<close> bytes succeeds, \<open>mem_junk A\<close> is the
  unspecified content of fresh memory. Every operation that allocates takes an allocator,
  so its out-of-memory branch is part of the model and no result can depend on what fresh
  memory happens to hold.
\<close>

record allocator =
  mem_ok :: "nat \<Rightarrow> bool"
  mem_junk :: "nat \<Rightarrow> byte"

definition c_malloc :: "allocator \<Rightarrow> nat \<Rightarrow> byte list option" where
  "c_malloc A n = (if mem_ok A n then Some (map (mem_junk A) [0..<n]) else None)"

definition c_realloc :: "allocator \<Rightarrow> byte list \<Rightarrow> nat \<Rightarrow> byte list option" where
  "c_realloc A old n =
     (if mem_ok A n then Some (take n old @ map (mem_junk A) [length old..<n]) else None)"

definition c_calloc :: "allocator \<Rightarrow> nat \<Rightarrow> byte list option" where
  "c_calloc A n = (if mem_ok A n then Some (replicate n 0) else None)"

lemma c_malloc_length: "c_malloc A n = Some p \<Longrightarrow> length p = n"
  by (auto simp: c_malloc_def split: if_splits)

lemma c_realloc_length: "c_realloc A old n = Some p \<Longrightarrow> length old \<le> n \<Longrightarrow> length p = n"
  by (auto simp: c_realloc_def split: if_splits)

lemma c_calloc_eq_Some: "c_calloc A n = Some p \<longleftrightarrow> mem_ok A n \<and> p = replicate n 0"
  by (auto simp: c_calloc_def)

definition no_oom :: "allocator \<Rightarrow> bool" where
  "no_oom A \<longleftrightarrow> (\<forall>n. mem_ok A n)"

text \<open>An allocator that never fails, for witnesses and examples.\<close>

definition plentiful :: allocator where
  "plentiful = \<lparr>mem_ok = (\<lambda>_. True), mem_junk = (\<lambda>_. 0xCD)\<rparr>"

lemma plentiful_ok [simp]: "mem_ok plentiful n"
  by (simp add: plentiful_def)

section \<open>Word arithmetic helpers\<close>

lemma ucast_byte_take_bit: "(ucast (ucast (v::'a::len word) :: byte) :: 'a word) = take_bit 8 v"
  by (rule bit_word_eqI) (auto simp: bit_simps)

lemma take_bit_or_push_bit:
  "(take_bit n v :: 'a::len word) OR push_bit n (take_bit m (drop_bit n v)) = take_bit (n + m) v"
  by (rule bit_word_eqI) (auto simp: bit_simps)

lemma not_bit_byte: "8 \<le> n \<Longrightarrow> \<not> bit (b::byte) n"
  using bit_imp_le_length [of b n] by auto

lemma unat_u32_less: "unat (v :: u32) < 2 ^ 32"
  using unsigned_less [of v] by simp

lemma list_of_length_8:
  "length p = 8 \<Longrightarrow> p = [p!0, p!1, p!2, p!3, p!4, p!5, p!6, p!7]"
  by (simp add: list_eq_iff_nth_eq numeral_eq_Suc All_less_Suc)

section \<open>Interface: fixed-width little-endian codecs\<close>

text \<open>
  What a client of \<open>capnp_load_le\<close>\<open>N\<close> / \<open>capnp_store_le\<close>\<open>N\<close> relies on: a store writes
  exactly \<open>width\<close> bytes, and load and store are inverse to each other. The consequences for
  values kept in memory are proved once here and reach the readers and the builder through
  the three interpretations in theory \<open>Pointer\<close>.
\<close>

locale le_codec =
  fixes width :: nat
    and load :: "byte list \<Rightarrow> 'v"
    and store :: "'v \<Rightarrow> byte list"
  assumes length_store: "length (store v) = width"
    and load_store: "load (store v) = v"
    and store_load: "length p = width \<Longrightarrow> store (load p) = p"
begin

lemma store_inj: "store v = store w \<longleftrightarrow> v = w"
  by (metis load_store)

lemma load_inj: "length p = width \<Longrightarrow> length q = width \<Longrightarrow> load p = load q \<longleftrightarrow> p = q"
  by (metis store_load)

text \<open>A stored value is read back, and a store leaves every disjoint value alone.\<close>

lemma read_back:
  assumes "wr mem a (store v) = Some mem'"
  shows "map_option load (rd mem' a width) = Some v"
  using rd_wr_same [OF assms] by (simp add: length_store load_store)

lemma read_other:
  assumes "wr mem a (store v) = Some mem'" and "c + n \<le> a \<or> a + width \<le> c"
  shows "rd mem' c n = rd mem c n"
  using assms by (intro rd_wr_disjoint) (auto simp: length_store)

lemma store_total: "a + width \<le> length mem \<Longrightarrow> \<exists>mem'. wr mem a (store v) = Some mem'"
  by (simp add: wr_total length_store)

lemma store_None_iff: "wr mem a (store v) = None \<longleftrightarrow> length mem < a + width"
  by (auto simp: wr_def length_store)

end

end
