(* ===== verification/Pointer.thy ===== *)
theory Pointer
  imports Prelude
begin

text \<open>
  The inline functions of \<open>include/capnp-janet/capnp_pointer.h\<close>: little-endian loads and
  stores, and the fields of the 64-bit wire pointer words. The lemmas show that loads and
  stores are inverse (the three interpretations of \<open>le_codec\<close>), that every field of every
  word is inside its width, and that each \<open>make\<close> function is undone by the accessors.
\<close>

section \<open>Little-endian loads and stores\<close>

definition capnp_load_le64 :: "byte list \<Rightarrow> u64" where
  "capnp_load_le64 p =
     ucast (p ! 0) OR push_bit 8 (ucast (p ! 1)) OR push_bit 16 (ucast (p ! 2)) OR
     push_bit 24 (ucast (p ! 3)) OR push_bit 32 (ucast (p ! 4)) OR
     push_bit 40 (ucast (p ! 5)) OR push_bit 48 (ucast (p ! 6)) OR
     push_bit 56 (ucast (p ! 7))"

definition capnp_load_le32 :: "byte list \<Rightarrow> u32" where
  "capnp_load_le32 p =
     ucast (p ! 0) OR push_bit 8 (ucast (p ! 1)) OR push_bit 16 (ucast (p ! 2)) OR
     push_bit 24 (ucast (p ! 3))"

definition capnp_load_le16 :: "byte list \<Rightarrow> u16" where
  "capnp_load_le16 p = ucast (p ! 0) OR push_bit 8 (ucast (p ! 1))"

definition capnp_store_le16 :: "u16 \<Rightarrow> byte list" where
  "capnp_store_le16 v = [ucast v, ucast (drop_bit 8 v)]"

definition capnp_store_le64 :: "u64 \<Rightarrow> byte list" where
  "capnp_store_le64 v =
     [ucast v, ucast (drop_bit 8 v), ucast (drop_bit 16 v), ucast (drop_bit 24 v),
      ucast (drop_bit 32 v), ucast (drop_bit 40 v), ucast (drop_bit 48 v),
      ucast (drop_bit 56 v)]"

definition capnp_store_le32 :: "u32 \<Rightarrow> byte list" where
  "capnp_store_le32 v =
     [ucast v, ucast (drop_bit 8 v), ucast (drop_bit 16 v), ucast (drop_bit 24 v)]"

lemma length_store_le [simp]:
  "length (capnp_store_le64 v) = 8" "length (capnp_store_le32 w) = 4"
  "length (capnp_store_le16 x) = 2"
  by (simp_all add: capnp_store_le64_def capnp_store_le32_def capnp_store_le16_def)

lemma load_store_le64: "capnp_load_le64 (capnp_store_le64 v) = v"
  using take_bit_or_push_bit [of 8 v 8] take_bit_or_push_bit [of 16 v 8]
    take_bit_or_push_bit [of 24 v 8] take_bit_or_push_bit [of 32 v 8]
    take_bit_or_push_bit [of 40 v 8] take_bit_or_push_bit [of 48 v 8]
    take_bit_or_push_bit [of 56 v 8]
  by (simp add: capnp_load_le64_def capnp_store_le64_def ucast_byte_take_bit
      or.assoc [symmetric] take_bit_word_eq_self del: push_bit_take_bit flip: take_bit_drop_bit)

lemma load_store_le32: "capnp_load_le32 (capnp_store_le32 v) = v"
  using take_bit_or_push_bit [of 8 v 8] take_bit_or_push_bit [of 16 v 8]
    take_bit_or_push_bit [of 24 v 8]
  by (simp add: capnp_load_le32_def capnp_store_le32_def ucast_byte_take_bit
      or.assoc [symmetric] take_bit_word_eq_self del: push_bit_take_bit flip: take_bit_drop_bit)

lemma load_store_le16: "capnp_load_le16 (capnp_store_le16 v) = v"
  using take_bit_or_push_bit [of 8 v 8]
  by (simp add: capnp_load_le16_def capnp_store_le16_def ucast_byte_take_bit
      take_bit_word_eq_self del: push_bit_take_bit flip: take_bit_drop_bit)

lemma store_load_le64_bytes:
  "capnp_store_le64 (capnp_load_le64 [a, b, c, d, e, f, g, h]) = [a, b, c, d, e, f, g, h]"
proof -
  let ?v = "capnp_load_le64 [a, b, c, d, e, f, g, h]"
  note s = capnp_load_le64_def bit_simps not_bit_byte
  have "ucast ?v = a" by (rule bit_word_eqI) (simp add: s)
  moreover have "ucast (drop_bit 8 ?v) = b" by (rule bit_word_eqI) (simp add: s)
  moreover have "ucast (drop_bit 16 ?v) = c" by (rule bit_word_eqI) (simp add: s)
  moreover have "ucast (drop_bit 24 ?v) = d" by (rule bit_word_eqI) (simp add: s)
  moreover have "ucast (drop_bit 32 ?v) = e" by (rule bit_word_eqI) (simp add: s)
  moreover have "ucast (drop_bit 40 ?v) = f" by (rule bit_word_eqI) (simp add: s)
  moreover have "ucast (drop_bit 48 ?v) = g" by (rule bit_word_eqI) (simp add: s)
  moreover have "ucast (drop_bit 56 ?v) = h" by (rule bit_word_eqI) (simp add: s)
  ultimately show ?thesis unfolding capnp_store_le64_def by simp
qed

lemma store_load_le64: "length p = 8 \<Longrightarrow> capnp_store_le64 (capnp_load_le64 p) = p"
  by (metis list_of_length_8 store_load_le64_bytes)

lemma store_load_le32_bytes: "capnp_store_le32 (capnp_load_le32 [a, b, c, d]) = [a, b, c, d]"
proof -
  let ?v = "capnp_load_le32 [a, b, c, d]"
  note s = capnp_load_le32_def bit_simps not_bit_byte
  have "ucast ?v = a" by (rule bit_word_eqI) (simp add: s)
  moreover have "ucast (drop_bit 8 ?v) = b" by (rule bit_word_eqI) (simp add: s)
  moreover have "ucast (drop_bit 16 ?v) = c" by (rule bit_word_eqI) (simp add: s)
  moreover have "ucast (drop_bit 24 ?v) = d" by (rule bit_word_eqI) (simp add: s)
  ultimately show ?thesis unfolding capnp_store_le32_def by simp
qed

lemma store_load_le32: "length p = 4 \<Longrightarrow> capnp_store_le32 (capnp_load_le32 p) = p"
proof -
  assume "length p = 4"
  then have "p = [p!0, p!1, p!2, p!3]"
    by (simp add: list_eq_iff_nth_eq numeral_eq_Suc All_less_Suc)
  then show ?thesis by (metis store_load_le32_bytes)
qed

lemma store_load_le16: "length p = 2 \<Longrightarrow> capnp_store_le16 (capnp_load_le16 p) = p"
proof -
  assume "length p = 2"
  then have p: "p = [p!0, p!1]"
    by (simp add: list_eq_iff_nth_eq numeral_eq_Suc All_less_Suc)
  have "ucast (capnp_load_le16 [p!0, p!1]) = p!0"
    by (rule bit_word_eqI) (simp add: capnp_load_le16_def bit_simps not_bit_byte)
  moreover have "ucast (drop_bit 8 (capnp_load_le16 [p!0, p!1])) = p!1"
    by (rule bit_word_eqI) (simp add: capnp_load_le16_def bit_simps not_bit_byte)
  ultimately show ?thesis using p unfolding capnp_store_le16_def by simp
qed

interpretation le64: le_codec 8 capnp_load_le64 capnp_store_le64
  by unfold_locales (simp_all add: load_store_le64 store_load_le64)

interpretation le32: le_codec 4 capnp_load_le32 capnp_store_le32
  by unfold_locales (simp_all add: load_store_le32 store_load_le32)

interpretation le16: le_codec 2 capnp_load_le16 capnp_store_le16
  by unfold_locales (simp_all add: load_store_le16 store_load_le16)

section \<open>Fields of a wire pointer word\<close>

definition capnp_wp_kind :: "u64 \<Rightarrow> nat" where
  "capnp_wp_kind w = unat (w AND 3)"

text \<open>Signed 30-bit word offset: subtracted in 64 bits, then read as \<open>int32_t\<close>.\<close>

definition capnp_wp_offset :: "u64 \<Rightarrow> int" where
  "capnp_wp_offset w =
     (let u = (drop_bit 2 w) AND 0x3fffffff;
          u = (if u \<ge> 0x20000000 then u - 0x40000000 else u)
      in sint (ucast u :: u32))"

definition capnp_wp_struct_dwords :: "u64 \<Rightarrow> nat" where
  "capnp_wp_struct_dwords w = unat (ucast (drop_bit 32 w AND 0xffff) :: u16)"

definition capnp_wp_struct_pwords :: "u64 \<Rightarrow> nat" where
  "capnp_wp_struct_pwords w = unat (ucast (drop_bit 48 w AND 0xffff) :: u16)"

definition capnp_wp_list_esize :: "u64 \<Rightarrow> nat" where
  "capnp_wp_list_esize w = unat (drop_bit 32 w AND 7)"

definition capnp_wp_list_count :: "u64 \<Rightarrow> nat" where
  "capnp_wp_list_count w = unat (ucast (drop_bit 35 w AND 0x1fffffff) :: u32)"

definition capnp_wp_far_two :: "u64 \<Rightarrow> bool" where
  "capnp_wp_far_two w \<longleftrightarrow> drop_bit 2 w AND 1 \<noteq> 0"

definition capnp_wp_far_off :: "u64 \<Rightarrow> nat" where
  "capnp_wp_far_off w = unat (ucast (drop_bit 3 w AND 0x1fffffff) :: u32)"

definition capnp_wp_far_seg :: "u64 \<Rightarrow> nat" where
  "capnp_wp_far_seg w = unat (ucast (drop_bit 32 w AND 0xffffffff) :: u32)"

text \<open>Capability-table index, read inline by \<open>resolve_word\<close>.\<close>

definition wp_cap_index :: "u64 \<Rightarrow> nat" where
  "wp_cap_index w = unat (ucast (drop_bit 32 w AND 0xffffffff) :: u32)"

section \<open>Making wire pointer words\<close>

definition capnp_wp_make_struct :: "int \<Rightarrow> nat \<Rightarrow> nat \<Rightarrow> u64" where
  "capnp_wp_make_struct off dwords pwords =
     (let w = push_bit 2 (ucast ((word_of_int off :: u32) AND 0x3fffffff));
          w = w OR push_bit 32 (ucast (word_of_nat dwords :: u16));
          w = w OR push_bit 48 (ucast (word_of_nat pwords :: u16))
      in w)"

definition capnp_wp_make_list :: "int \<Rightarrow> nat \<Rightarrow> nat \<Rightarrow> u64" where
  "capnp_wp_make_list off esize count =
     (let w = 1 OR push_bit 2 (ucast ((word_of_int off :: u32) AND 0x3fffffff));
          w = w OR push_bit 32 (word_of_nat esize AND 7);
          w = w OR push_bit 35 (ucast ((word_of_nat count :: u32) AND 0x1fffffff))
      in w)"

definition capnp_wp_make_cap :: "nat \<Rightarrow> u64" where
  "capnp_wp_make_cap cap_index = 3 OR push_bit 32 (ucast (word_of_nat cap_index :: u32))"

definition capnp_wp_make_far :: "bool \<Rightarrow> nat \<Rightarrow> nat \<Rightarrow> u64" where
  "capnp_wp_make_far two_word_pad word_off seg_id =
     (let w = 2;
          w = (if two_word_pad then w OR 4 else w);
          w = w OR push_bit 3 (ucast ((word_of_nat word_off :: u32) AND 0x1fffffff));
          w = w OR push_bit 32 (ucast (word_of_nat seg_id :: u32))
      in w)"

section \<open>The fields as bit fields\<close>

lemma and_masks64:
  "(w::u64) AND 3 = take_bit 2 w" "w AND 0x3fffffff = take_bit 30 w" "w AND 0xffff = take_bit 16 w"
  "w AND 7 = take_bit 3 w" "w AND 0x1fffffff = take_bit 29 w" "w AND 0xffffffff = take_bit 32 w"
  by (simp_all add: take_bit_eq_mask mask_eq_exp_minus_1)
lemma and_masks32:
  "(v::u32) AND 0x3fffffff = take_bit 30 v" "v AND 0x1fffffff = take_bit 29 v"
  by (simp_all add: take_bit_eq_mask mask_eq_exp_minus_1)

lemma wp_offset_let:
  fixes u :: u64
  assumes "uint u < 2 ^ 30"
  shows "sint (ucast (if u \<ge> 0x20000000 then u - 0x40000000 else u) :: u32) =
     (if uint u < 2 ^ 29 then uint u else uint u - 2 ^ 30)"
proof -
  define n where "n = uint u"
  have u: "u = word_of_int n" by (simp add: n_def)
  have n: "0 \<le> n" "n < 2 ^ 30" using assms by (simp_all add: n_def)
  have cmp: "u \<ge> 0x20000000 \<longleftrightarrow> \<not> n < 2 ^ 29"
    by (simp add: word_le_def n_def not_less)
  have down: "(ucast (word_of_int k :: u64) :: u32) = word_of_int k" for k
    by (rule bit_word_eqI) (simp add: bit_simps)
  have s: "sint (word_of_int k :: u32) = k" if "- (2 ^ 31) \<le> k" "k < 2 ^ 31" for k
    using that by (simp add: signed_of_int signed_take_bit_int_eq_self)
  have sub: "u - 0x40000000 = word_of_int (n - 2 ^ 30)" by (simp add: u)
  show ?thesis
  proof (cases "n < 2 ^ 29")
    case True
    have "sint (ucast (word_of_int n :: u64) :: u32) = n"
      unfolding down using n by (intro s) auto
    then have "sint (ucast u :: u32) = n" by (simp only: u [symmetric])
    with True cmp show ?thesis by (simp add: n_def)
  next
    case False
    with cmp have ge: "u \<ge> 0x20000000" by simp
    have "sint (ucast (u - 0x40000000) :: u32) = n - 2 ^ 30"
      unfolding sub down using n False by (intro s) auto
    with ge False show ?thesis by (simp add: n_def)
  qed
qed

lemma uint_take_bit_less: "uint (take_bit n (w::'a::len word)) < 2 ^ n"
  by (simp add: unsigned_take_bit_eq)

lemma capnp_wp_offset_eq:
  "capnp_wp_offset w =
     (let u = uint (take_bit 30 (drop_bit 2 w)) in if u < 2 ^ 29 then u else u - 2 ^ 30)"
  using wp_offset_let [OF uint_take_bit_less] by (simp add: capnp_wp_offset_def Let_def and_masks64)

lemma bit_small_consts:
  "bit (2 :: u64) n \<longleftrightarrow> n = 1" "bit (3 :: u64) n \<longleftrightarrow> n < 2" "bit (6 :: int) n \<longleftrightarrow> n = 1 \<or> n = 2"
proof -
  have "(2 :: u64) = push_bit 1 1" "(3 :: u64) = mask 2" "(6 :: int) = push_bit 1 1 OR push_bit 2 1"
    by (simp_all add: mask_eq_exp_minus_1)
  then show "bit (2 :: u64) n \<longleftrightarrow> n = 1" "bit (3 :: u64) n \<longleftrightarrow> n < 2"
    "bit (6 :: int) n \<longleftrightarrow> n = 1 \<or> n = 2"
    by (auto simp only: bit_simps) auto
qed

lemma wp_offset_bounds: "- (2 ^ 29) \<le> capnp_wp_offset w" "capnp_wp_offset w < 2 ^ 29"
proof -
  define u where "u = uint (take_bit 30 (drop_bit 2 w))"
  have "0 \<le> u" unfolding u_def by (rule uint_ge_0)
  moreover have "u < 2 ^ 30" unfolding u_def by (rule uint_take_bit_less)
  ultimately show "- (2 ^ 29) \<le> capnp_wp_offset w" "capnp_wp_offset w < 2 ^ 29"
    by (auto simp: capnp_wp_offset_eq Let_def simp flip: u_def)
qed

lemma unat_take_bit_less: "unat (take_bit n (w::'a::len word)) < 2 ^ n"
  by (simp add: unsigned_take_bit_eq)

lemma unat_ucast_take_bit_less:
  assumes "n \<le> LENGTH('b)"
  shows "unat (ucast (take_bit n (w::'a::len word)) :: 'b::len word) < 2 ^ n"
proof -
  have "(ucast (take_bit n w) :: 'b word) = take_bit n (ucast w)"
    using assms by (intro bit_word_eqI) (auto simp: bit_simps)
  then show ?thesis using unat_take_bit_less by metis
qed

lemma wp_field_bounds:
  "capnp_wp_kind w < 4" "capnp_wp_struct_dwords w < 2 ^ 16" "capnp_wp_struct_pwords w < 2 ^ 16"
  "capnp_wp_list_esize w < 8" "capnp_wp_list_count w < 2 ^ 29" "capnp_wp_far_off w < 2 ^ 29"
  "capnp_wp_far_seg w < 2 ^ 32" "wp_cap_index w < 2 ^ 32"
  using unat_take_bit_less [of 2 w] unat_take_bit_less [of 3 "drop_bit 32 w"]
    unat_ucast_take_bit_less [where 'b = 16, of 16 "drop_bit 32 w"]
    unat_ucast_take_bit_less [where 'b = 16, of 16 "drop_bit 48 w"]
    unat_ucast_take_bit_less [where 'b = 32, of 29 "drop_bit 35 w"]
    unat_ucast_take_bit_less [where 'b = 32, of 29 "drop_bit 3 w"]
    unat_ucast_take_bit_less [where 'b = 32, of 32 "drop_bit 32 w"]
  by (simp_all add: capnp_wp_kind_def capnp_wp_struct_dwords_def capnp_wp_struct_pwords_def
      capnp_wp_list_esize_def capnp_wp_list_count_def capnp_wp_far_off_def capnp_wp_far_seg_def
      wp_cap_index_def and_masks64)

lemma wp_kind_cases:
  "capnp_wp_kind w = CAPNP_WK_STRUCT \<or> capnp_wp_kind w = CAPNP_WK_LIST \<or>
   capnp_wp_kind w = CAPNP_WK_FAR \<or> capnp_wp_kind w = CAPNP_WK_CAP"
  using wp_field_bounds(1) [of w] unfolding kind_defs by arith

lemma wp_offset_of_field:
  assumes "take_bit 30 (drop_bit 2 w) = take_bit 30 (word_of_int off)"
    and "- (2 ^ 29) \<le> off" and "off < 2 ^ 29"
  shows "capnp_wp_offset w = off"
proof -
  have "uint (take_bit 30 (drop_bit 2 w)) = take_bit 30 off"
    unfolding assms(1) by (simp add: unsigned_take_bit_eq unsigned_of_int)
  then have u: "uint (take_bit 30 (drop_bit 2 w)) = off mod 2 ^ 30"
    by (simp only: take_bit_int_def)
  show ?thesis
  proof (cases "0 \<le> off")
    case True
    with assms(3) have "off mod 2 ^ 30 = off" by (intro mod_pos_pos_trivial) auto
    with u True assms(3) show ?thesis by (simp add: capnp_wp_offset_eq Let_def)
  next
    case False
    with assms(2) have "(off + 2 ^ 30) mod 2 ^ 30 = off + 2 ^ 30" by (intro mod_pos_pos_trivial) auto
    then have "off mod 2 ^ 30 = off + 2 ^ 30" by simp
    with u False assms(2) show ?thesis by (simp add: capnp_wp_offset_eq Let_def)
  qed
qed

lemma make_struct_fields [simp]:
  "capnp_wp_kind (capnp_wp_make_struct off dwords pwords) = CAPNP_WK_STRUCT"
  "dwords < 2 ^ 16 \<Longrightarrow> capnp_wp_struct_dwords (capnp_wp_make_struct off dwords pwords) = dwords"
  "pwords < 2 ^ 16 \<Longrightarrow> capnp_wp_struct_pwords (capnp_wp_make_struct off dwords pwords) = pwords"
  "- (2 ^ 29) \<le> off \<Longrightarrow> off < 2 ^ 29 \<Longrightarrow>
     capnp_wp_offset (capnp_wp_make_struct off dwords pwords) = off"
proof -
  let ?w = "capnp_wp_make_struct off dwords pwords"
  note d = capnp_wp_make_struct_def and_masks64 and_masks32 bit_simps
  note u = unsigned_of_nat take_bit_nat_eq_self
  have "take_bit 2 ?w = 0" by (rule bit_word_eqI) (simp add: d)
  then show "capnp_wp_kind ?w = CAPNP_WK_STRUCT"
    by (simp add: capnp_wp_kind_def and_masks64 kind_defs)
  have "(ucast (take_bit 16 (drop_bit 32 ?w)) :: u16) = word_of_nat dwords"
    by (rule bit_word_eqI) (simp add: d)
  then show "dwords < 2 ^ 16 \<Longrightarrow> capnp_wp_struct_dwords ?w = dwords"
    by (simp add: capnp_wp_struct_dwords_def and_masks64 u)
  have "(ucast (take_bit 16 (drop_bit 48 ?w)) :: u16) = word_of_nat pwords"
    by (rule bit_word_eqI) (simp add: d)
  then show "pwords < 2 ^ 16 \<Longrightarrow> capnp_wp_struct_pwords ?w = pwords"
    by (simp add: capnp_wp_struct_pwords_def and_masks64 u)
  have "take_bit 30 (drop_bit 2 ?w) = take_bit 30 (word_of_int off)"
    by (rule bit_word_eqI) (auto simp: d)
  then show "- (2 ^ 29) \<le> off \<Longrightarrow> off < 2 ^ 29 \<Longrightarrow> capnp_wp_offset ?w = off"
    by (rule wp_offset_of_field)
qed

lemma make_list_fields [simp]:
  "capnp_wp_kind (capnp_wp_make_list off esize count) = CAPNP_WK_LIST"
  "esize < 8 \<Longrightarrow> capnp_wp_list_esize (capnp_wp_make_list off esize count) = esize"
  "capnp_wp_list_count (capnp_wp_make_list off esize count) = count mod 2 ^ 29"
  "- (2 ^ 29) \<le> off \<Longrightarrow> off < 2 ^ 29 \<Longrightarrow>
     capnp_wp_offset (capnp_wp_make_list off esize count) = off"
proof -
  let ?w = "capnp_wp_make_list off esize count"
  note d = capnp_wp_make_list_def and_masks64 and_masks32 bit_simps
  have "take_bit 2 ?w = 1" by (rule bit_word_eqI) (auto simp: d)
  then show "capnp_wp_kind ?w = CAPNP_WK_LIST"
    by (simp add: capnp_wp_kind_def and_masks64 kind_defs)
  have "take_bit 3 (drop_bit 32 ?w) = take_bit 3 (word_of_nat esize)"
    by (rule bit_word_eqI) (auto simp: d)
  then show "esize < 8 \<Longrightarrow> capnp_wp_list_esize ?w = esize"
    by (simp add: capnp_wp_list_esize_def and_masks64 unsigned_take_bit_eq unsigned_of_nat
        take_bit_nat_eq_self)
  have "(ucast (take_bit 29 (drop_bit 35 ?w)) :: u32) = take_bit 29 (word_of_nat count)"
    by (rule bit_word_eqI) (auto simp: d)
  then have "capnp_wp_list_count ?w = take_bit 29 count"
    by (simp add: capnp_wp_list_count_def and_masks64 unsigned_take_bit_eq unsigned_of_nat)
  then show "capnp_wp_list_count ?w = count mod 2 ^ 29" by (simp only: take_bit_nat_def)
  have "take_bit 30 (drop_bit 2 ?w) = take_bit 30 (word_of_int off)"
    by (rule bit_word_eqI) (auto simp: d)
  then show "- (2 ^ 29) \<le> off \<Longrightarrow> off < 2 ^ 29 \<Longrightarrow> capnp_wp_offset ?w = off"
    by (rule wp_offset_of_field)
qed

lemma capnp_wp_far_two_iff: "capnp_wp_far_two w \<longleftrightarrow> bit w 2"
  by (simp add: capnp_wp_far_two_def and_one_eq bit_iff_odd_drop_bit mod_2_eq_odd)

lemma make_far_fields [simp]:
  "capnp_wp_kind (capnp_wp_make_far two off seg) = CAPNP_WK_FAR"
  "capnp_wp_far_two (capnp_wp_make_far two off seg) = two"
  "capnp_wp_far_off (capnp_wp_make_far two off seg) = off mod 2 ^ 29"
  "capnp_wp_far_seg (capnp_wp_make_far two off seg) = seg mod 2 ^ 32"
proof -
  let ?w = "capnp_wp_make_far two off seg"
  note d = capnp_wp_make_far_def and_masks64 and_masks32 bit_simps bit_small_consts
  have "take_bit 2 ?w = 2" by (rule bit_word_eqI) (auto simp: d)
  then show "capnp_wp_kind ?w = CAPNP_WK_FAR"
    by (simp add: capnp_wp_kind_def and_masks64 kind_defs)
  show "capnp_wp_far_two ?w = two"
    unfolding capnp_wp_far_two_iff by (cases two) (simp_all add: d)
  have "(ucast (take_bit 29 (drop_bit 3 ?w)) :: u32) = take_bit 29 (word_of_nat off)"
    by (rule bit_word_eqI) (auto simp: d)
  then have "capnp_wp_far_off ?w = take_bit 29 off"
    by (simp add: capnp_wp_far_off_def and_masks64 unsigned_take_bit_eq unsigned_of_nat)
  then show "capnp_wp_far_off ?w = off mod 2 ^ 29" by (simp only: take_bit_nat_def)
  have "(ucast (take_bit 32 (drop_bit 32 ?w)) :: u32) = word_of_nat seg"
    by (rule bit_word_eqI) (auto simp: d)
  then have "capnp_wp_far_seg ?w = take_bit 32 seg"
    by (simp add: capnp_wp_far_seg_def and_masks64 unsigned_of_nat)
  then show "capnp_wp_far_seg ?w = seg mod 2 ^ 32" by (simp only: take_bit_nat_def)
qed

lemma make_cap_fields [simp]:
  "capnp_wp_kind (capnp_wp_make_cap i) = CAPNP_WK_CAP"
  "wp_cap_index (capnp_wp_make_cap i) = i mod 2 ^ 32"
proof -
  let ?w = "capnp_wp_make_cap i"
  note d = capnp_wp_make_cap_def and_masks64 bit_simps bit_small_consts
  have "take_bit 2 ?w = 3"
    by (rule bit_word_eqI) (auto simp: d)
  then show "capnp_wp_kind ?w = CAPNP_WK_CAP"
    by (simp add: capnp_wp_kind_def and_masks64 kind_defs)
  have "(ucast (take_bit 32 (drop_bit 32 ?w)) :: u32) = word_of_nat i"
    by (rule bit_word_eqI) (auto simp: d)
  then have "wp_cap_index ?w = take_bit 32 i"
    by (simp add: wp_cap_index_def and_masks64 unsigned_of_nat)
  then show "wp_cap_index ?w = i mod 2 ^ 32" by (simp only: take_bit_nat_def)
qed

end
