(* ===== verification/Packed.thy ===== *)
theory Packed
  imports Pointer
begin

text \<open>
  \<open>src/capnp_packed.c\<close>: the packed encoding of streams of words. \<open>capnp_pack\<close> and
  \<open>capnp_unpack\<close> are modelled with their growing output buffer (every store is a checked
  write into the \<open>malloc\<close>ed object, every growth an allocator request); one loop iteration is
  one definition. \<open>pack_spec\<close> and \<open>unpack_spec\<close> are what the two routines compute, as functions
  of the input alone; the lemmas show that the buffer always suffices, that the routines
  compute the specifications, and that unpacking inverts packing.
\<close>

section \<open>\<open>capnp_pack\<close>\<close>

definition word_all_zero :: "byte list \<Rightarrow> bool" where
  "word_all_zero w \<longleftrightarrow>
     w ! 0 = 0 \<and> w ! 1 = 0 \<and> w ! 2 = 0 \<and> w ! 3 = 0 \<and> w ! 4 = 0 \<and> w ! 5 = 0 \<and> w ! 6 = 0 \<and> w ! 7 = 0"

text \<open>The loop of \<open>word_fewer_than_two_zeros\<close>; \<open>z\<close> counts the zero bytes seen.\<close>

fun count_zeros :: "nat \<Rightarrow> byte list \<Rightarrow> bool" where
  "count_zeros z [] = True"
| "count_zeros z (b # bs) =
     (if b = 0 then (if z + 1 \<ge> 2 then False else count_zeros (z + 1) bs) else count_zeros z bs)"

definition word_fewer_than_two_zeros :: "byte list \<Rightarrow> bool" where
  "word_fewer_than_two_zeros w = count_zeros 0 (take 8 w)"

text \<open>The tag byte and the number of non-zero bytes of a word.\<close>

fun tag_loop :: "byte list \<Rightarrow> nat \<Rightarrow> byte \<Rightarrow> nat \<Rightarrow> byte \<times> nat" where
  "tag_loop [] k tag nz = (tag, nz)"
| "tag_loop (b # bs) k tag nz =
     (if b \<noteq> 0 then tag_loop bs (k + 1) (tag OR push_bit k 1) (nz + 1)
      else tag_loop bs (k + 1) tag nz)"

fun emit_bytes :: "byte list \<Rightarrow> nat \<Rightarrow> byte \<Rightarrow> nat \<Rightarrow> byte list \<Rightarrow> (byte list \<times> nat) option" where
  "emit_bytes buf opos tag k [] = Some (buf, opos)"
| "emit_bytes buf opos tag k (b # bs) =
     (if tag AND push_bit k 1 \<noteq> 0
      then do { buf \<leftarrow> wr buf opos [b]; emit_bytes buf (opos + 1) tag (k + 1) bs }
      else emit_bytes buf opos tag (k + 1) bs)"

text \<open>Number of words from \<open>w\<close> on that satisfy the test, at most 255.\<close>

function run_scan :: "(byte list \<Rightarrow> bool) \<Rightarrow> byte list \<Rightarrow> nat \<Rightarrow> nat \<Rightarrow> nat \<Rightarrow> nat option" where
  "run_scan P inp nwords w run =
     (if w + run < nwords \<and> run < 255
      then do { x \<leftarrow> rd inp ((w + run) * 8) 8;
                if P x then run_scan P inp nwords w (run + 1) else Some run }
      else Some run)"
  by pat_completeness auto
termination
  by (relation "measure (\<lambda>(P, inp, nwords, w, run). 255 - run)") auto

declare run_scan.simps [simp del]

text \<open>The part of an iteration after the tagged word: the run that follows a zero word or a full
  word. The result is the buffer, its capacity, the output position and the next word.\<close>

definition pack_runs ::
    "byte list \<Rightarrow> nat \<Rightarrow> byte list \<Rightarrow> nat \<Rightarrow> nat \<Rightarrow> nat \<Rightarrow> byte \<Rightarrow> nat \<Rightarrow>
     (byte list \<times> nat \<times> nat \<times> nat) option" where
  "pack_runs inp nwords buf cap opos w tag nz =
     (if tag = 0 then do {
        run \<leftarrow> run_scan word_all_zero inp nwords w 0;
        buf \<leftarrow> wr buf opos [word_of_nat run];
        Some (buf, cap, opos + 1, w + run) }
      else if nz = 8 then do {
        run \<leftarrow> run_scan word_fewer_than_two_zeros inp nwords w 0;
        buf \<leftarrow> wr buf opos [word_of_nat run];
        let opos = opos + 1;
        if run \<noteq> 0 then do {
          src \<leftarrow> rd inp (w * 8) (run * 8);
          buf \<leftarrow> wr buf opos src;
          Some (buf, cap, opos + run * 8, w + run) }
        else Some (buf, cap, opos, w) }
      else Some (buf, cap, opos, w))"

text \<open>One iteration of the loop: \<open>Inl\<close> is a return, \<open>Inr\<close> the state after it.\<close>

definition pack_step ::
    "allocator \<Rightarrow> byte list \<Rightarrow> nat \<Rightarrow> byte list \<Rightarrow> nat \<Rightarrow> nat \<Rightarrow> nat \<Rightarrow>
     (rc + byte list \<times> nat \<times> nat \<times> nat) option" where
  "pack_step A inp nwords buf cap opos w =
     do {
       word \<leftarrow> rd inp (w * 8) 8;
       let ncap = sz (cap * 2 + 8 * 256);
       case (if opos + 10 + 8 * 255 > cap
             then map_option (\<lambda>nb. (nb, ncap)) (c_realloc A buf ncap) else Some (buf, cap)) of
         None \<Rightarrow> Some (Inl CAPNP_ERR_ALLOC)
       | Some (buf, cap) \<Rightarrow>
           (case tag_loop word 0 0 0 of (tag, nz) \<Rightarrow>
             do {
               buf \<leftarrow> wr buf opos [tag];
               (buf, opos) \<leftarrow> emit_bytes buf (opos + 1) tag 0 word;
               st \<leftarrow> pack_runs inp nwords buf cap opos (w + 1) tag nz;
               Some (Inr st) }) }"

lemma pack_runs_progress: "pack_runs inp nwords buf cap opos w tag nz = Some (b, c, p, w') \<Longrightarrow> w \<le> w'"
  by (auto simp: pack_runs_def Let_def split: bind_splits if_splits)

lemma pack_step_progress: "pack_step A inp nwords buf cap opos w = Some (Inr (b, c, p, w')) \<Longrightarrow> w < w'"
  by (auto simp: pack_step_def Let_def Suc_le_eq dest!: pack_runs_progress
      split: bind_splits option.splits prod.splits if_splits)

function pack_loop ::
    "allocator \<Rightarrow> byte list \<Rightarrow> nat \<Rightarrow> byte list \<Rightarrow> nat \<Rightarrow> nat \<Rightarrow> nat \<Rightarrow> (rc \<times> byte list) option" where
  "pack_loop A inp nwords buf cap opos w =
     (if w < nwords
      then (case pack_step A inp nwords buf cap opos w of
              None \<Rightarrow> None
            | Some (Inl r) \<Rightarrow> Some (r, [])
            | Some (Inr (buf, cap, opos, w)) \<Rightarrow> pack_loop A inp nwords buf cap opos w)
      else Some (CAPNP_OK, take opos buf))"
  by pat_completeness auto
termination
  by (relation "measure (\<lambda>(A, inp, nwords, buf, cap, opos, w). nwords - w)")
    (auto dest: pack_step_progress intro: diff_less_mono2)

declare pack_loop.simps [simp del]

text \<open>The returned bytes are \<open>*out\<close> up to \<open>*out_len\<close> (\<open>NULL\<close> and 0 on an error).\<close>

definition capnp_pack :: "allocator \<Rightarrow> byte list \<Rightarrow> (rc \<times> byte list) option" where
  "capnp_pack A inp =
     (if length inp mod 8 \<noteq> 0 then Some (CAPNP_ERR_ARG, [])
      else let nwords = length inp div 8;
               cap = (if nwords \<noteq> 0 then sz (nwords * 10) else 1)
           in case c_malloc A cap of
                None \<Rightarrow> Some (CAPNP_ERR_ALLOC, [])
              | Some buf \<Rightarrow> pack_loop A inp nwords buf cap 0 0)"

section \<open>\<open>capnp_unpack\<close>\<close>

text \<open>\<open>realloc\<close> to \<open>ncap\<close> bytes, the new part zeroed with \<open>memset(nb + cap, 0, ncap - cap)\<close>;
  \<open>None\<close> inside is a refused request.\<close>

definition grow_zeroed ::
    "allocator \<Rightarrow> byte list \<Rightarrow> nat \<Rightarrow> nat \<Rightarrow> (byte list \<times> nat) option option" where
  "grow_zeroed A buf cap ncap =
     (case c_realloc A buf ncap of
        None \<Rightarrow> Some None
      | Some nb \<Rightarrow>
          do { nb \<leftarrow> wr nb cap (replicate (size_t (int ncap - int cap)) 0); Some (Some (nb, ncap)) })"

text \<open>The eight positions of a word: \<open>n\<close> of them are left, the next is \<open>k\<close>.\<close>

fun unpack_bytes ::
    "byte list \<Rightarrow> byte list \<Rightarrow> nat \<Rightarrow> nat \<Rightarrow> byte \<Rightarrow> nat \<Rightarrow> nat \<Rightarrow> (rc + byte list \<times> nat) option" where
  "unpack_bytes inp buf ipos opos tag k 0 = Some (Inr (buf, ipos))"
| "unpack_bytes inp buf ipos opos tag k (Suc n) =
     (if tag AND push_bit k 1 \<noteq> 0
      then (if ipos \<ge> length inp then Some (Inl CAPNP_ERR_PACKED)
            else do { b \<leftarrow> rd inp ipos 1;
                      buf \<leftarrow> wr buf (opos + k) b;
                      unpack_bytes inp buf (ipos + 1) opos tag (k + 1) n })
      else do { buf \<leftarrow> wr buf (opos + k) [0];
                unpack_bytes inp buf ipos opos tag (k + 1) n })"

text \<open>The two runs after a tag: zero words, and words copied verbatim.\<close>

definition unpack_zeros ::
    "allocator \<Rightarrow> byte list \<Rightarrow> byte list \<Rightarrow> nat \<Rightarrow> nat \<Rightarrow> nat \<Rightarrow>
     (rc + byte list \<times> nat \<times> nat \<times> nat) option" where
  "unpack_zeros A inp buf cap ipos opos =
     (if ipos \<ge> length inp then Some (Inl CAPNP_ERR_PACKED)
      else do {
        c \<leftarrow> rd inp ipos 1;
        let cnt = unat (hd c);
        grown \<leftarrow> (if opos + cnt * 8 > cap then grow_zeroed A buf cap (opos + cnt * 8 + 64)
                  else Some (Some (buf, cap)));
        case grown of
          None \<Rightarrow> Some (Inl CAPNP_ERR_PACKED)
        | Some (buf, cap) \<Rightarrow> do {
            buf \<leftarrow> wr buf opos (replicate (cnt * 8) 0);
            Some (Inr (buf, cap, ipos + 1, opos + cnt * 8)) } })"

definition unpack_verbatim ::
    "allocator \<Rightarrow> byte list \<Rightarrow> byte list \<Rightarrow> nat \<Rightarrow> nat \<Rightarrow> nat \<Rightarrow>
     (rc + byte list \<times> nat \<times> nat \<times> nat) option" where
  "unpack_verbatim A inp buf cap ipos opos =
     (if ipos \<ge> length inp then Some (Inl CAPNP_ERR_PACKED)
      else do {
        c \<leftarrow> rd inp ipos 1;
        let cnt = unat (hd c);
        let ipos = ipos + 1;
        if ipos + cnt * 8 > length inp then Some (Inl CAPNP_ERR_PACKED)
        else do {
          grown \<leftarrow> (if opos + cnt * 8 > cap then grow_zeroed A buf cap (opos + cnt * 8 + 64)
                    else Some (Some (buf, cap)));
          case grown of
            None \<Rightarrow> Some (Inl CAPNP_ERR_PACKED)
          | Some (buf, cap) \<Rightarrow>
              if cnt \<noteq> 0 then do {
                src \<leftarrow> rd inp ipos (cnt * 8);
                buf \<leftarrow> wr buf opos src;
                Some (Inr (buf, cap, ipos + cnt * 8, opos + cnt * 8)) }
              else Some (Inr (buf, cap, ipos, opos)) } })"

definition unpack_runs ::
    "allocator \<Rightarrow> byte list \<Rightarrow> byte list \<Rightarrow> nat \<Rightarrow> nat \<Rightarrow> nat \<Rightarrow> byte \<Rightarrow>
     (rc + byte list \<times> nat \<times> nat \<times> nat) option" where
  "unpack_runs A inp buf cap ipos opos tag =
     (if tag = 0 then unpack_zeros A inp buf cap ipos opos
      else if tag = 0xff then unpack_verbatim A inp buf cap ipos opos
      else Some (Inr (buf, cap, ipos, opos)))"

definition unpack_step ::
    "allocator \<Rightarrow> byte list \<Rightarrow> byte list \<Rightarrow> nat \<Rightarrow> nat \<Rightarrow> nat \<Rightarrow>
     (rc + byte list \<times> nat \<times> nat \<times> nat) option" where
  "unpack_step A inp buf cap ipos opos =
     do {
       grown \<leftarrow> (if opos + 8 + 255 * 8 > cap then grow_zeroed A buf cap (sz (cap * 2 + 8 * 256))
                 else Some (Some (buf, cap)));
       case grown of
         None \<Rightarrow> Some (Inl CAPNP_ERR_ALLOC)
       | Some (buf, cap) \<Rightarrow> do {
           t \<leftarrow> rd inp ipos 1;
           let tag = hd t;
           word \<leftarrow> unpack_bytes inp buf (ipos + 1) opos tag 0 8;
           case word of
             Inl r \<Rightarrow> Some (Inl r)
           | Inr (buf, ipos) \<Rightarrow>
               let opos = opos + 8 in
               unpack_runs A inp buf cap ipos opos tag } }"

lemma unpack_bytes_mono:
  "unpack_bytes inp buf ipos opos tag k n = Some (Inr (buf', ipos')) \<Longrightarrow> ipos \<le> ipos'"
  by (induction inp buf ipos opos tag k n rule: unpack_bytes.induct)
    (fastforce split: if_splits bind_splits)+

lemma unpack_step_progress:
  "unpack_step A inp buf cap ipos opos = Some (Inr (b, c, i, p)) \<Longrightarrow> ipos < i"
  by (auto simp: unpack_step_def unpack_runs_def unpack_zeros_def unpack_verbatim_def Let_def
      dest!: unpack_bytes_mono split: bind_splits option.splits prod.splits sum.splits if_splits)

function unpack_loop ::
    "allocator \<Rightarrow> byte list \<Rightarrow> byte list \<Rightarrow> nat \<Rightarrow> nat \<Rightarrow> nat \<Rightarrow> (rc \<times> byte list) option" where
  "unpack_loop A inp buf cap ipos opos =
     (if ipos < length inp
      then (case unpack_step A inp buf cap ipos opos of
              None \<Rightarrow> None
            | Some (Inl r) \<Rightarrow> Some (r, [])
            | Some (Inr (buf, cap, ipos, opos)) \<Rightarrow> unpack_loop A inp buf cap ipos opos)
      else if opos mod 8 \<noteq> 0 then Some (CAPNP_ERR_PACKED, [])
      else Some (CAPNP_OK, take opos buf))"
  by pat_completeness auto
termination
  by (relation "measure (\<lambda>(A, inp, buf, cap, ipos, opos). length inp - ipos)")
    (auto dest: unpack_step_progress intro: diff_less_mono2)

declare unpack_loop.simps [simp del]

definition capnp_unpack :: "allocator \<Rightarrow> byte list \<Rightarrow> (rc \<times> byte list) option" where
  "capnp_unpack A inp =
     (let cap = sz (length inp * 4 + 64);
          cap = (if cap < 64 then 64 else cap)
      in case c_malloc A cap of
           None \<Rightarrow> Some (CAPNP_ERR_ALLOC, [])
         | Some buf \<Rightarrow> do {
             buf \<leftarrow> wr buf 0 (replicate cap 0);
             unpack_loop A inp buf cap 0 0 })"


section \<open>What the two routines compute\<close>

text \<open>Words from the start of \<open>xs\<close> that satisfy the test, at most \<open>n\<close>.\<close>

fun words_while :: "(byte list \<Rightarrow> bool) \<Rightarrow> nat \<Rightarrow> byte list \<Rightarrow> nat" where
  "words_while P 0 xs = 0"
| "words_while P (Suc n) xs =
     (if 8 \<le> length xs \<and> P (take 8 xs) then Suc (words_while P n (drop 8 xs)) else 0)"

definition tag_of :: "byte list \<Rightarrow> byte" where
  "tag_of w = fst (tag_loop w 0 0 0)"

lemma words_while_le: "words_while P n xs \<le> n" "words_while P n xs * 8 \<le> length xs"
proof (induction n arbitrary: xs)
  case (Suc n)
  { case 1 then show ?case using Suc.IH(1) by simp }
  { case 2 then show ?case using Suc.IH(2) [of "drop 8 xs"] by auto }
qed simp_all

function pack_spec :: "byte list \<Rightarrow> byte list" where
  "pack_spec xs =
     (if xs = [] then []
      else let w = take 8 xs; nz = filter (\<lambda>b. b \<noteq> 0) w; rest = drop 8 xs in
        if tag_of w = 0 then
          (let run = words_while word_all_zero 255 rest
           in [0, word_of_nat run] @ pack_spec (drop (run * 8) rest))
        else if length nz = 8 then
          (let run = words_while word_fewer_than_two_zeros 255 rest
           in [tag_of w] @ nz @ [word_of_nat run] @ take (run * 8) rest @
              pack_spec (drop (run * 8) rest))
        else [tag_of w] @ nz @ pack_spec rest)"
  by pat_completeness auto
termination
  by (relation "measure length") auto

declare pack_spec.simps [simp del]

fun expand_tag :: "byte \<Rightarrow> nat \<Rightarrow> nat \<Rightarrow> byte list \<Rightarrow> (byte list \<times> byte list) option" where
  "expand_tag t k 0 xs = Some ([], xs)"
| "expand_tag t k (Suc n) xs =
     (if bit t k
      then (case xs of
              [] \<Rightarrow> None
            | b # bs \<Rightarrow> map_option (apfst ((#) b)) (expand_tag t (k + 1) n bs))
      else map_option (apfst ((#) 0)) (expand_tag t (k + 1) n xs))"

lemma expand_tag_length:
  "expand_tag t k n xs = Some (w, r) \<Longrightarrow> length w = n \<and> length r \<le> length xs"
  by (induction t k n xs arbitrary: w r rule: expand_tag.induct)
    (fastforce split: if_splits list.splits)+

text \<open>The run after a tag: its bytes and the rest of the input.\<close>

definition run_spec :: "byte \<Rightarrow> byte list \<Rightarrow> (byte list \<times> byte list) option" where
  "run_spec t r =
     (if t = 0 then (case r of [] \<Rightarrow> None | c # r \<Rightarrow> Some (replicate (unat c * 8) 0, r))
      else if t = 0xff then
        (case r of
           [] \<Rightarrow> None
         | c # r \<Rightarrow> if length r < unat c * 8 then None
                    else Some (take (unat c * 8) r, drop (unat c * 8) r))
      else Some ([], r))"

lemma run_spec_length: "run_spec t r = Some (run, r') \<Longrightarrow> length r' \<le> length r"
  by (auto simp: run_spec_def split: if_splits list.splits)

function unpack_spec :: "byte list \<Rightarrow> byte list option" where
  "unpack_spec [] = Some []"
| "unpack_spec (t # xs) =
     (case expand_tag t 0 8 xs of
        None \<Rightarrow> None
      | Some (w, r) \<Rightarrow>
          (case run_spec t r of
             None \<Rightarrow> None
           | Some (run, r') \<Rightarrow> map_option (\<lambda>ys. w @ run @ ys) (unpack_spec r')))"
  by pat_completeness auto
termination
  by (relation "measure length") (auto dest!: expand_tag_length run_spec_length)

declare unpack_spec.simps [simp del]

section \<open>Tags\<close>

lemma and_push_bit_iff: "(t :: byte) AND push_bit k 1 \<noteq> 0 \<longleftrightarrow> bit t k"
  "(t :: byte) AND 2 ^ k = 0 \<longleftrightarrow> \<not> bit t k"
  by (simp_all add: bit_iff_and_push_bit_not_eq_0)

lemma tag_loop_bit:
  "bit (fst (tag_loop bs k t n)) j \<longleftrightarrow>
     bit t j \<or> (j < 8 \<and> k \<le> j \<and> j < k + length bs \<and> bs ! (j - k) \<noteq> 0)"
proof (induction bs arbitrary: k t n)
  case (Cons b bs)
  have "(b # bs) ! (j - k) = (if j = k then b else bs ! (j - Suc k))" if "k \<le> j"
    using that by (simp add: nth_Cons')
  then show ?case
    by (auto simp: Cons.IH bit_simps not_bit_byte le_Suc_eq dest: le_neq_implies_less)
qed auto

lemma bit_tag_of: "length w = 8 \<Longrightarrow> bit (tag_of w) j \<longleftrightarrow> j < 8 \<and> w ! j \<noteq> 0"
  by (auto simp: tag_of_def tag_loop_bit)

lemma tag_loop_count: "snd (tag_loop bs k t n) = n + length (filter (\<lambda>b. b \<noteq> 0) bs)"
  by (induction bs k t n rule: tag_loop.induct) auto

lemma word_all_zero_iff: "length w = 8 \<Longrightarrow> word_all_zero w \<longleftrightarrow> w = replicate 8 0"
  by (auto simp: word_all_zero_def list_eq_iff_nth_eq numeral_eq_Suc All_less_Suc nth_Cons')

lemma tag_of_0_iff: "length w = 8 \<Longrightarrow> tag_of w = 0 \<longleftrightarrow> w = replicate 8 0"
proof -
  assume w: "length w = 8"
  have "tag_of w = 0 \<longleftrightarrow> (\<forall>j < 8. w ! j = 0)"
  proof
    assume "tag_of w = 0"
    then show "\<forall>j < 8. w ! j = 0" using bit_tag_of [OF w] by (metis bit_0_eq bot_apply bot_bool_def)
  next
    assume "\<forall>j < 8. w ! j = 0"
    then show "tag_of w = 0" by (intro bit_word_eqI) (simp add: bit_tag_of [OF w])
  qed
  also have "\<dots> \<longleftrightarrow> w = replicate 8 0" using w by (simp add: list_eq_iff_nth_eq)
  finally show ?thesis .
qed

lemma length_filter_full: "length (filter P w) = length w \<longleftrightarrow> (\<forall>x \<in> set w. P x)"
proof (induction w)
  case (Cons b bs)
  have "length (filter P bs) \<noteq> Suc (length bs)" using length_filter_le [of P bs] by linarith
  with Cons show ?case by auto
qed simp

lemma tag_of_full_iff:
  "length w = 8 \<Longrightarrow> length (filter (\<lambda>b. b \<noteq> 0) w) = 8 \<longleftrightarrow> tag_of w = 0xff"
proof -
  assume w: "length w = 8"
  have "(0xff :: byte) = mask 8" by (simp add: mask_eq_exp_minus_1)
  then have m: "bit (0xff :: byte) j \<longleftrightarrow> j < 8" for j by (simp only: bit_simps) simp
  have "length (filter (\<lambda>b. b \<noteq> 0) w) = 8 \<longleftrightarrow> (\<forall>b \<in> set w. b \<noteq> 0)"
    using w length_filter_full [of "\<lambda>b. b \<noteq> 0" w] by simp
  also have "\<dots> \<longleftrightarrow> tag_of w = 0xff"
  proof
    assume "\<forall>b \<in> set w. b \<noteq> 0"
    then have "w ! j \<noteq> 0" if "j < 8" for j using w that by simp
    then show "tag_of w = 0xff" by (intro bit_word_eqI) (auto simp only: bit_tag_of [OF w] m)
  next
    assume "tag_of w = 0xff"
    then have "w ! j \<noteq> 0" if "j < 8" for j using bit_tag_of [OF w] m that by metis
    then show "\<forall>b \<in> set w. b \<noteq> 0" using w by (auto simp: in_set_conv_nth)
  qed
  finally show ?thesis .
qed

lemma filter_full: "length w = 8 \<Longrightarrow> length (filter P w) = 8 \<Longrightarrow> filter P w = w"
  using length_filter_full [of P w] by simp

text \<open>Expanding a tag inverts dropping the zero bytes.\<close>

lemma expand_tag_inverse:
  "(\<And>j. j < length w \<Longrightarrow> bit t (k + j) \<longleftrightarrow> w ! j \<noteq> 0) \<Longrightarrow>
   expand_tag t k (length w) (filter (\<lambda>b. b \<noteq> 0) w @ rest) = Some (w, rest)"
proof (induction w arbitrary: k)
  case (Cons b bs)
  have "bit t k \<longleftrightarrow> b \<noteq> 0" using Cons.prems [of 0] by simp
  moreover have "expand_tag t (k + 1) (length bs) (filter (\<lambda>b. b \<noteq> 0) bs @ rest) = Some (bs, rest)"
    using Cons.prems [of "Suc _"] by (intro Cons.IH) auto
  ultimately show ?case by auto
qed simp

lemma expand_tag_of:
  assumes "length w = 8"
  shows "expand_tag (tag_of w) 0 8 (filter (\<lambda>b. b \<noteq> 0) w @ rest) = Some (w, rest)"
  using expand_tag_inverse [of w "tag_of w" 0 rest] assms by (simp add: bit_tag_of)

section \<open>The specifications are inverse, and the encoding is small\<close>

lemma words_while_zero:
  "length xs mod 8 = 0 \<Longrightarrow> take (words_while word_all_zero n xs * 8) xs =
     replicate (words_while word_all_zero n xs * 8) 0"
proof (induction n arbitrary: xs)
  case (Suc n)
  show ?case
  proof (cases "8 \<le> length xs \<and> word_all_zero (take 8 xs)")
    case True
    then have "take 8 xs = replicate 8 0" using word_all_zero_iff [of "take 8 xs"] by auto
    moreover have "take (8 + k) xs = take 8 xs @ take k (drop 8 xs)" for k by (rule take_add)
    moreover have "length (drop 8 xs) mod 8 = 0" using Suc.prems True by (simp add: le_mod_geq)
    ultimately show ?thesis using True Suc.IH [of "drop 8 xs"] by (simp add: replicate_add)
  qed auto
qed simp

lemma unat_run: "run \<le> 255 \<Longrightarrow> unat (word_of_nat run :: byte) = run"
  by (simp add: unsigned_of_nat take_bit_nat_eq_self)

lemma length_filter_take_8: "length (filter P (take 8 xs)) \<le> 8"
  using length_filter_le [of P "take 8 xs"] by simp

lemma pack_spec_step:
  assumes "xs \<noteq> []" "w = take 8 xs" "rest = drop 8 xs" "nz = filter (\<lambda>b. b \<noteq> 0) w"
  shows "pack_spec xs = (
     if tag_of w = 0 then
       (let run = words_while word_all_zero 255 rest
        in [0, word_of_nat run] @ pack_spec (drop (run * 8) rest))
     else if length nz = 8 then
       (let run = words_while word_fewer_than_two_zeros 255 rest
        in [tag_of w] @ nz @ [word_of_nat run] @ take (run * 8) rest @
           pack_spec (drop (run * 8) rest))
     else [tag_of w] @ nz @ pack_spec rest)"
  using assms by (simp add: pack_spec.simps [of xs] Let_def)

lemma unpack_pack_spec: "length xs mod 8 = 0 \<Longrightarrow> unpack_spec (pack_spec xs) = Some xs"
proof (induction xs rule: pack_spec.induct)
  case (1 xs)
  show ?case
  proof (cases "xs = []")
    case False
    define w where "w = take 8 xs"
    define rest where "rest = drop 8 xs"
    define nz where "nz = filter (\<lambda>b. b \<noteq> 0) w"
    have "8 \<le> length xs" using False "1.prems" by (cases "length xs < 8") auto
    then have w: "length w = 8" and xs: "xs = w @ rest" and r8: "length rest mod 8 = 0"
      using "1.prems" by (simp_all add: w_def rest_def le_mod_geq)
    have drop8: "length (drop (k * 8) rest) mod 8 = 0" if "k * 8 \<le> length rest" for k
      using r8 that by (simp add: mod_eq_0_iff_dvd dvd_diff_nat)
    note p = pack_spec_step [OF False w_def rest_def nz_def]
    note IH = "1.IH" [OF False w_def nz_def rest_def]
    consider "tag_of w = 0" | "tag_of w \<noteq> 0" "length nz = 8" | "tag_of w \<noteq> 0" "length nz \<noteq> 8" by blast
    then show ?thesis
    proof cases
      case 1
      define run where "run = words_while word_all_zero 255 rest"
      have run: "run \<le> 255" "run * 8 \<le> length rest" unfolding run_def by (rule words_while_le)+
      have "take (run * 8) rest = replicate (run * 8) 0"
        unfolding run_def by (rule words_while_zero [OF r8])
      then have "replicate (run * 8) 0 @ drop (run * 8) rest = rest" by (metis append_take_drop_id)
      moreover have "w = replicate 8 0" using 1 w by (simp add: tag_of_0_iff)
      moreover have "expand_tag 0 0 8 ys = Some (replicate 8 0, ys)" for ys
        by (simp add: numeral_eq_Suc)
      ultimately have "unpack_spec (pack_spec xs) = Some (w @ rest)"
        using 1 IH(1) [OF 1 run_def] drop8 [OF run(2)] unat_run [OF run(1)]
        by (simp add: p Let_def unpack_spec.simps run_spec_def flip: run_def)
      then show ?thesis by (simp only: xs)
    next
      case 2
      define run where "run = words_while word_fewer_than_two_zeros 255 rest"
      have run: "run \<le> 255" "run * 8 \<le> length rest" unfolding run_def by (rule words_while_le)+
      have "tag_of w = 0xff" using 2 w by (simp add: nz_def tag_of_full_iff)
      moreover have "expand_tag (tag_of w) 0 8 (nz @ ys) = Some (w, ys)" for ys
        unfolding nz_def by (rule expand_tag_of [OF w])
      ultimately have "unpack_spec (pack_spec xs) = Some (w @ rest)"
        using 2 IH(2) [OF 2 run_def] drop8 [OF run(2)] run(2) unat_run [OF run(1)]
        by (simp add: p Let_def unpack_spec.simps run_spec_def flip: run_def)
      then show ?thesis by (simp only: xs)
    next
      case 3
      have "tag_of w \<noteq> 0xff" using 3 w by (simp add: nz_def flip: tag_of_full_iff)
      moreover have "expand_tag (tag_of w) 0 8 (nz @ ys) = Some (w, ys)" for ys
        unfolding nz_def by (rule expand_tag_of [OF w])
      ultimately have "unpack_spec (pack_spec xs) = Some (w @ rest)"
        using 3 IH(3) [OF 3 r8] by (simp add: p unpack_spec.simps run_spec_def)
      then show ?thesis by (simp only: xs)
    qed
  qed (simp add: pack_spec.simps unpack_spec.simps run_spec_def)
qed


text \<open>The comment "worst case 10 bytes per word" of \<open>capnp_pack\<close>.\<close>

lemma length_pack_spec: "length xs mod 8 = 0 \<Longrightarrow> length (pack_spec xs) * 8 \<le> 10 * length xs"
proof (induction xs rule: pack_spec.induct)
  case (1 xs)
  show ?case
  proof (cases "xs = []")
    case False
    define w where "w = take 8 xs"
    define rest where "rest = drop 8 xs"
    define nz where "nz = filter (\<lambda>b. b \<noteq> 0) w"
    have "8 \<le> length xs" using False "1.prems" by (cases "length xs < 8") auto
    then have len: "length xs = length rest + 8" and r8: "length rest mod 8 = 0"
      using "1.prems" by (simp_all add: rest_def le_mod_geq)
    have nz: "length nz \<le> 8" unfolding nz_def w_def by (rule length_filter_take_8)
    have drop8: "length (drop (k * 8) rest) mod 8 = 0" if "k * 8 \<le> length rest" for k
      using r8 that by (simp add: mod_eq_0_iff_dvd dvd_diff_nat)
    note IH = "1.IH" [OF False w_def nz_def rest_def]
    note p = pack_spec_step [OF False w_def rest_def nz_def]
    consider "tag_of w = 0" | "tag_of w \<noteq> 0" "length nz = 8" | "tag_of w \<noteq> 0" "length nz \<noteq> 8" by blast
    then show ?thesis
    proof cases
      case 1
      define run where "run = words_while word_all_zero 255 rest"
      have run: "run * 8 \<le> length rest" unfolding run_def by (rule words_while_le)
      show ?thesis
        using 1 False IH(1) [OF 1 run_def] drop8 [OF run] run len
        by (simp add: p Let_def flip: run_def)
    next
      case 2
      define run where "run = words_while word_fewer_than_two_zeros 255 rest"
      have run: "run * 8 \<le> length rest" unfolding run_def by (rule words_while_le)
      show ?thesis
        using 2 False IH(2) [OF 2 run_def] drop8 [OF run] run len
        by (simp add: p Let_def flip: run_def)
    next
      case 3
      then show ?thesis using False IH(3) [OF 3 r8] len nz by (simp add: p Let_def)
    qed
  qed (simp add: pack_spec.simps)
qed

section \<open>The buffer always suffices: the loops compute the specifications\<close>

lemma run_scan_eq:
  "\<lbrakk>length inp = nwords * 8; w + run \<le> nwords; run \<le> 255\<rbrakk> \<Longrightarrow>
   run_scan P inp nwords w run = Some (run + words_while P (255 - run) (drop ((w + run) * 8) inp))"
proof (induction P inp nwords w run rule: run_scan.induct)
  case (1 P inp nwords w run)
  show ?case
  proof (cases "w + run < nwords \<and> run < 255")
    case True
    then have n: "255 - run = Suc (255 - (run + 1))" by arith
    have "w + run < nwords" using True by simp
    then have "(w + run) * 8 + 8 \<le> length inp" using "1.prems"(1) by presburger
    then have l: "8 \<le> length (drop ((w + run) * 8) inp)" by simp
    then have r: "rd inp ((w + run) * 8) 8 = Some (take 8 (drop ((w + run) * 8) inp))"
      by (simp add: rd_def)
    have d: "drop 8 (drop ((w + run) * 8) inp) = drop ((w + (run + 1)) * 8) inp"
      by (simp add: add.commute)
    show ?thesis
      using True l "1.prems" "1.IH" [OF True]
      by (subst run_scan.simps) (simp only: n words_while.simps r d, simp)
  next
    case False
    then have "words_while P (255 - run) (drop ((w + run) * 8) inp) = 0"
      using "1.prems" by (cases "255 - run") auto
    with False show ?thesis by (subst run_scan.simps) auto
  qed
qed

lemma emit_bytes_eq:
  "\<lbrakk>opos + length bs \<le> length buf; \<And>j. j < length bs \<Longrightarrow> bit tag (k + j) \<longleftrightarrow> bs ! j \<noteq> 0\<rbrakk> \<Longrightarrow>
   \<exists>buf'. emit_bytes buf opos tag k bs = Some (buf', opos + length (filter (\<lambda>b. b \<noteq> 0) bs)) \<and>
     length buf' = length buf \<and>
     take (opos + length (filter (\<lambda>b. b \<noteq> 0) bs)) buf' = take opos buf @ filter (\<lambda>b. b \<noteq> 0) bs"
proof (induction bs arbitrary: buf opos k)
  case (Cons b bs)
  have t: "bit tag k \<longleftrightarrow> b \<noteq> 0" using Cons.prems(2) [of 0] by simp
  have h: "\<And>j. j < length bs \<Longrightarrow> bit tag (Suc k + j) \<longleftrightarrow> bs ! j \<noteq> 0"
    using Cons.prems(2) [of "Suc _"] by simp
  show ?case
  proof (cases "b = 0")
    case True
    then show ?thesis using Cons.IH [of opos buf "Suc k"] Cons.prems(1) h t
      by (simp add: and_push_bit_iff)
  next
    case False
    obtain buf1 where b1: "wr buf opos [b] = Some buf1" "length buf1 = length buf"
      "take (opos + 1) buf1 = take opos buf @ [b]"
      using wr_append [of opos "[b]" buf] Cons.prems(1) by auto
    then show ?thesis using False Cons.IH [of "Suc opos" buf1 "Suc k"] Cons.prems(1) h t
      by (auto simp: and_push_bit_iff)
  qed
qed simp


definition pack_inv :: "nat \<Rightarrow> byte list \<Rightarrow> nat \<Rightarrow> nat \<Rightarrow> nat \<Rightarrow> bool" where
  "pack_inv nwords buf cap opos w \<longleftrightarrow>
     length buf = cap \<and> 10 \<le> cap \<and> cap \<le> 20 * nwords + 8192 \<and> opos \<le> 10 * w \<and> opos \<le> cap \<and> w \<le> nwords"

text \<open>The growth at the head of an iteration leaves room for everything it can write.\<close>

lemma pack_grow:
  assumes inv: "pack_inv nwords buf cap opos w" and n: "nwords < 2 ^ 50"
  obtains (oom) "(if opos + 10 + 8 * 255 > cap
      then map_option (\<lambda>nb. (nb, sz (cap * 2 + 8 * 256))) (c_realloc A buf (sz (cap * 2 + 8 * 256)))
      else Some (buf, cap)) = None" "\<not> no_oom A"
  | (ok) buf' cap' where "(if opos + 10 + 8 * 255 > cap
      then map_option (\<lambda>nb. (nb, sz (cap * 2 + 8 * 256))) (c_realloc A buf (sz (cap * 2 + 8 * 256)))
      else Some (buf, cap)) = Some (buf', cap')"
      "pack_inv nwords buf' cap' opos w" "opos + 2050 \<le> cap'" "take opos buf' = take opos buf"
proof (cases "opos + 10 + 8 * 255 > cap")
  case True
  have s: "sz (cap * 2 + 8 * 256) = cap * 2 + 2048" using inv n by (simp add: pack_inv_def)
  show ?thesis
  proof (cases "mem_ok A (cap * 2 + 2048)")
    case ok': True
    define buf' where "buf' = buf @ map (mem_junk A) [cap..<cap * 2 + 2048]"
    have "c_realloc A buf (cap * 2 + 2048) = Some buf'"
      using inv ok' by (simp add: c_realloc_def buf'_def pack_inv_def)
    moreover have "pack_inv nwords buf' (cap * 2 + 2048) opos w" "opos + 2050 \<le> cap * 2 + 2048"
      "take opos buf' = take opos buf"
      using inv True by (simp_all add: pack_inv_def buf'_def)
    ultimately show ?thesis using True s by (intro ok [of buf' "cap * 2 + 2048"]) simp_all
  next
    case False
    then show ?thesis using True s by (intro oom) (auto simp: c_realloc_def no_oom_def)
  qed
qed (use inv in \<open>auto intro!: ok\<close>)

lemma drop_words: "drop (k * 8) (drop 8 (drop (w * 8) xs)) = drop ((w + 1 + k) * 8) xs"
  by (simp add: algebra_simps)

text \<open>The runs: what is written, and that the output position stays below ten bytes a word.\<close>

lemma pack_runs_eq:
  assumes len: "length inp = nwords * 8" and w: "w < nwords" and buf: "length buf = cap"
    and room: "o3 + 2041 \<le> cap" and o3: "o3 = opos + 1 + length nz" "opos \<le> 10 * w"
    and capb: "10 \<le> cap" "cap \<le> 20 * nwords + 8192"
    and word: "word = take 8 (drop (w * 8) inp)" and nz: "nz = filter (\<lambda>b. b \<noteq> 0) word"
    and out: "take o3 buf = pre @ tag_of word # nz"
  shows "\<exists>buf' o' w'. pack_runs inp nwords buf cap o3 (w + 1) (tag_of word) (length nz) =
      Some (buf', cap, o', w') \<and> pack_inv nwords buf' cap o' w' \<and>
      take o' buf' @ pack_spec (drop (w' * 8) inp) = pre @ pack_spec (drop (w * 8) inp)"
proof -
  define rest where "rest = drop 8 (drop (w * 8) inp)"
  have le: "w * 8 + 8 \<le> length inp" using w len by presburger
  have lw: "length word = 8" and ne: "drop (w * 8) inp \<noteq> []" using le by (auto simp: word)
  have nz8: "length nz \<le> 8" unfolding nz word by (rule length_filter_take_8)
  have scan: "run_scan P inp nwords (w + 1) 0 = Some (words_while P 255 rest)" for P
    using run_scan_eq [of inp nwords "w + 1" 0 P] w len by (simp add: rest_def add.commute)
  have run: "words_while P 255 rest \<le> 255" "(w + 1 + words_while P 255 rest) * 8 \<le> length inp" for P
    using words_while_le [where n = 255 and P = P and xs = rest] le by (simp_all add: rest_def)
  note drops = drop_words [of _ w inp, folded rest_def]
  note p = pack_spec_step [OF ne word rest_def nz]
  consider "tag_of word = 0" | (full) "tag_of word \<noteq> 0" "length nz = 8"
    | "tag_of word \<noteq> 0" "length nz \<noteq> 8" by blast
  then show ?thesis
  proof cases
    case 1
    define r where "r = words_while word_all_zero 255 rest"
    have nz0: "nz = []" using 1 lw by (simp add: nz tag_of_0_iff)
    obtain buf4 where b4: "wr buf o3 [word_of_nat r] = Some buf4" "length buf4 = cap"
      "take (o3 + 1) buf4 = take o3 buf @ [word_of_nat r]"
      using wr_append [of o3 "[word_of_nat r]" buf] room buf by auto
    have "pack_runs inp nwords buf cap o3 (w + 1) (tag_of word) (length nz) =
        Some (buf4, cap, o3 + 1, w + 1 + r)"
      using 1 b4(1) unfolding pack_runs_def scan by (simp flip: r_def)
    moreover have "pack_inv nwords buf4 cap (o3 + 1) (w + 1 + r)"
      using b4(2) room capb o3 run(2) [of word_all_zero] len nz0
      by (simp add: pack_inv_def flip: r_def)
    moreover have "take (o3 + 1) buf4 @ pack_spec (drop ((w + 1 + r) * 8) inp) =
        pre @ pack_spec (drop (w * 8) inp)"
      using 1 b4(3) out nz0 drops [of r] by (simp add: p Let_def flip: r_def)
    ultimately show ?thesis by blast
  next
    case full
    define r where "r = words_while word_fewer_than_two_zeros 255 rest"
    have r: "r \<le> 255" "(w + 1 + r) * 8 \<le> length inp" unfolding r_def by (rule run)+
    obtain buf4 where b4: "wr buf o3 [word_of_nat r] = Some buf4" "length buf4 = cap"
      "take (o3 + 1) buf4 = take o3 buf @ [word_of_nat r]"
      using wr_append [of o3 "[word_of_nat r]" buf] room buf by auto
    define src where "src = take (r * 8) rest"
    have src: "rd inp ((w + 1) * 8) (r * 8) = Some src" "length src = r * 8"
      using r(2) by (simp_all add: rd_def src_def rest_def add.commute)
    obtain buf5 where b5: "wr buf4 (o3 + 1) src = Some buf5" "length buf5 = cap"
      "take (o3 + 1 + r * 8) buf5 = take (o3 + 1) buf4 @ src"
      using wr_append [of "o3 + 1" src buf4] room b4(2) r(1) src(2) by auto
    have "src = []" "buf5 = buf4" if "r = 0"
      using that src(2) b5(1) by (auto simp: wr_def split: if_splits)
    then have "pack_runs inp nwords buf cap o3 (w + 1) (tag_of word) (length nz) =
        Some (buf5, cap, o3 + 1 + r * 8, w + 1 + r)"
      using full b4(1) b5(1) src(1) unfolding pack_runs_def scan r_def [symmetric]
      by (cases "r = 0") simp_all
    moreover have "pack_inv nwords buf5 cap (o3 + 1 + r * 8) (w + 1 + r)"
      using b5(2) room capb o3 r len full(2) by (simp add: pack_inv_def)
    moreover have "take (o3 + 1 + r * 8) buf5 @ pack_spec (drop ((w + 1 + r) * 8) inp) =
        pre @ pack_spec (drop (w * 8) inp)"
      using full b5(3) b4(3) out drops [of r] by (simp add: p Let_def src_def flip: r_def)
    ultimately show ?thesis by blast
  next
    case 3
    have "pack_runs inp nwords buf cap o3 (w + 1) (tag_of word) (length nz) = Some (buf, cap, o3, w + 1)"
      using 3 by (simp add: pack_runs_def)
    moreover have "pack_inv nwords buf cap o3 (w + 1)"
      using buf room capb o3 w nz8 by (simp add: pack_inv_def)
    moreover have "take o3 buf @ pack_spec (drop ((w + 1) * 8) inp) = pre @ pack_spec (drop (w * 8) inp)"
      using 3 out drops [of 0] by (simp add: p)
    ultimately show ?thesis by blast
  qed
qed

lemma pack_step_eq:
  assumes inv: "pack_inv nwords buf cap opos w" and n: "nwords < 2 ^ 50"
    and len: "length inp = nwords * 8" and w: "w < nwords"
  obtains (oom) "pack_step A inp nwords buf cap opos w = Some (Inl CAPNP_ERR_ALLOC)" "\<not> no_oom A"
  | (ok) buf' cap' opos' w' where
      "pack_step A inp nwords buf cap opos w = Some (Inr (buf', cap', opos', w'))"
      "pack_inv nwords buf' cap' opos' w'"
      "take opos' buf' @ pack_spec (drop (w' * 8) inp) = take opos buf @ pack_spec (drop (w * 8) inp)"
proof -
  define word where "word = take 8 (drop (w * 8) inp)"
  define nz where "nz = filter (\<lambda>b. b \<noteq> 0) word"
  have "w * 8 + 8 \<le> length inp" using w len by presburger
  then have rdw: "rd inp (w * 8) 8 = Some word" and lw: "length word = 8"
    by (simp_all add: rd_def word_def)
  have nz8: "length nz \<le> 8" unfolding nz_def word_def by (rule length_filter_take_8)
  have tl: "tag_loop word 0 0 0 = (tag_of word, length nz)"
    using tag_loop_count [of word 0 0 0] by (simp add: tag_of_def prod_eq_iff nz_def)
  show ?thesis
  proof (cases rule: pack_grow [OF inv n, of A])
    case 1
    have "pack_step A inp nwords buf cap opos w = Some (Inl CAPNP_ERR_ALLOC)"
      unfolding pack_step_def Let_def rdw bind.bind_lunit 1(1) by simp
    with 1(2) show ?thesis by (intro oom)
  next
    case (2 buf1 cap1)
    then have cap1: "length buf1 = cap1" "opos \<le> 10 * w" "10 \<le> cap1" "cap1 \<le> 20 * nwords + 8192"
      by (simp_all add: pack_inv_def)
    obtain buf2 where b2: "wr buf1 opos [tag_of word] = Some buf2" "length buf2 = cap1"
      "take (opos + 1) buf2 = take opos buf1 @ [tag_of word]"
      using wr_append [of opos "[tag_of word]" buf1] 2(3) cap1(1) by auto
    obtain buf3 where b3: "emit_bytes buf2 (opos + 1) (tag_of word) 0 word = Some (buf3, opos + 1 + length nz)"
      "length buf3 = cap1" "take (opos + 1 + length nz) buf3 = take opos buf @ tag_of word # nz"
      using emit_bytes_eq [of "opos + 1" word buf2 "tag_of word" 0] b2 2(3,4) lw
      by (auto simp: bit_tag_of nz_def)
    obtain buf' o' w' where
      r: "pack_runs inp nwords buf3 cap1 (opos + 1 + length nz) (w + 1) (tag_of word) (length nz) =
        Some (buf', cap1, o', w')" "pack_inv nwords buf' cap1 o' w'"
      "take o' buf' @ pack_spec (drop (w' * 8) inp) = take opos buf @ pack_spec (drop (w * 8) inp)"
      using pack_runs_eq [OF len w b3(2) _ refl cap1(2,3,4) word_def nz_def b3(3)] 2(3) nz8 by auto
    have "pack_step A inp nwords buf cap opos w = Some (Inr (buf', cap1, o', w'))"
      unfolding pack_step_def Let_def rdw bind.bind_lunit 2(1) option.case prod.case tl b2(1) b3(1) r(1)
      by simp
    then show ?thesis using r(2,3) by (rule ok)
  qed
qed


lemma pack_loop_eq:
  "\<lbrakk>pack_inv nwords buf cap opos w; nwords < 2 ^ 50; length inp = nwords * 8\<rbrakk> \<Longrightarrow>
   pack_loop A inp nwords buf cap opos w = Some (CAPNP_ERR_ALLOC, []) \<and> \<not> no_oom A \<or>
   pack_loop A inp nwords buf cap opos w =
     Some (CAPNP_OK, take opos buf @ pack_spec (drop (w * 8) inp))"
proof (induction A inp nwords buf cap opos w rule: pack_loop.induct)
  case (1 A inp nwords buf cap opos w)
  show ?case
  proof (cases "w < nwords")
    case True
    note step = pack_step_eq [OF "1.prems" True, of A]
    show ?thesis
    proof (cases rule: step)
      case 1
      then show ?thesis using True by (subst (1 2) pack_loop.simps) simp
    next
      case ok: (2 buf' cap' opos' w')
      note IH = "1.IH" [OF True ok(1) refl refl refl refl ok(2) "1.prems"(2,3)]
      have "pack_loop A inp nwords buf cap opos w = pack_loop A inp nwords buf' cap' opos' w'"
        using True ok(1) by (subst pack_loop.simps) simp
      with IH ok(3) show ?thesis by simp
    qed
  next
    case False
    then have "drop (w * 8) inp = []" using "1.prems" by simp
    with False show ?thesis by (subst (1 2) pack_loop.simps) (simp add: pack_spec.simps)
  qed
qed

lemma capnp_pack_eq:
  assumes "length inp mod 8 = 0" "length inp < 2 ^ 50"
  shows "capnp_pack A inp = Some (CAPNP_ERR_ALLOC, []) \<and> \<not> no_oom A \<or>
    capnp_pack A inp = Some (CAPNP_OK, pack_spec inp)"
proof -
  define n where "n = length inp div 8"
  define cap where "cap = (if n \<noteq> 0 then sz (n * 10) else 1)"
  have len: "length inp = n * 8" using assms(1) by (auto simp: n_def)
  have n: "n < 2 ^ 50" using assms(2) len by simp
  have cap: "cap = (if n \<noteq> 0 then n * 10 else 1)" using n by (simp add: cap_def)
  show ?thesis
  proof (cases "mem_ok A cap")
    case True
    have p: "capnp_pack A inp = pack_loop A inp n (map (mem_junk A) [0..<cap]) cap 0 0"
      using True unfolding capnp_pack_def Let_def c_malloc_def n_def [symmetric] cap_def [symmetric]
      by (simp add: assms(1))
    show ?thesis
    proof (cases "n = 0")
      case True
      then show ?thesis using len unfolding p by (subst (1 2) pack_loop.simps) (simp add: pack_spec.simps)
    next
      case False
      then have "pack_inv n (map (mem_junk A) [0..<cap]) cap 0 0" by (simp add: pack_inv_def cap)
      from pack_loop_eq [OF this n len, of A] show ?thesis unfolding p by simp
    qed
  next
    case False
    then show ?thesis
      unfolding capnp_pack_def Let_def c_malloc_def n_def [symmetric] cap_def [symmetric]
      by (auto simp: assms(1) no_oom_def)
  qed
qed

section \<open>\<open>capnp_unpack\<close> computes \<open>unpack_spec\<close>\<close>

lemma unpack_bytes_eq:
  "\<lbrakk>opos + k + n \<le> length buf; ipos \<le> length inp\<rbrakk> \<Longrightarrow>
   (case expand_tag tag k n (drop ipos inp) of
      None \<Rightarrow> unpack_bytes inp buf ipos opos tag k n = Some (Inl CAPNP_ERR_PACKED)
    | Some (w, r) \<Rightarrow> \<exists>buf' ipos'. unpack_bytes inp buf ipos opos tag k n = Some (Inr (buf', ipos')) \<and>
        length buf' = length buf \<and> take (opos + k + n) buf' = take (opos + k) buf @ w \<and>
        drop ipos' inp = r \<and> ipos' \<le> length inp)"
proof (induction n arbitrary: buf ipos k)
  case (Suc n)
  show ?case
  proof (cases "bit tag k")
    case False
    obtain buf1 where b1: "wr buf (opos + k) [0] = Some buf1" "length buf1 = length buf"
      "take (opos + k + 1) buf1 = take (opos + k) buf @ [0]"
      using wr_append [of "opos + k" "[0]" buf] Suc.prems(1) by auto
    have "case expand_tag tag (k + 1) n (drop ipos inp) of
        None \<Rightarrow> unpack_bytes inp buf1 ipos opos tag (k + 1) n = Some (Inl CAPNP_ERR_PACKED)
      | Some (w, r) \<Rightarrow> \<exists>buf' ipos'. unpack_bytes inp buf1 ipos opos tag (k + 1) n = Some (Inr (buf', ipos')) \<and>
          length buf' = length buf1 \<and> take (opos + (k + 1) + n) buf' = take (opos + (k + 1)) buf1 @ w \<and>
          drop ipos' inp = r \<and> ipos' \<le> length inp"
      using Suc.prems b1(2) by (intro Suc.IH) auto
    then show ?thesis
      using False b1 by (auto simp: and_push_bit_iff split: option.splits)
  next
    case True
    show ?thesis
    proof (cases "ipos < length inp")
      case False
      then show ?thesis using True by (simp add: and_push_bit_iff)
    next
      case lt: True
      then have d: "drop ipos inp = inp ! ipos # drop (ipos + 1) inp" by (simp add: Cons_nth_drop_Suc)
      have r: "rd inp ipos (Suc 0) = Some [inp ! ipos]" using lt by (simp add: rd_def d)
      obtain buf1 where b1: "wr buf (opos + k) [inp ! ipos] = Some buf1" "length buf1 = length buf"
        "take (opos + k + 1) buf1 = take (opos + k) buf @ [inp ! ipos]"
        using wr_append [of "opos + k" "[inp ! ipos]" buf] Suc.prems(1) by auto
      have "case expand_tag tag (k + 1) n (drop (ipos + 1) inp) of
          None \<Rightarrow> unpack_bytes inp buf1 (ipos + 1) opos tag (k + 1) n = Some (Inl CAPNP_ERR_PACKED)
        | Some (w, r) \<Rightarrow> \<exists>buf' ipos'. unpack_bytes inp buf1 (ipos + 1) opos tag (k + 1) n = Some (Inr (buf', ipos')) \<and>
            length buf' = length buf1 \<and> take (opos + (k + 1) + n) buf' = take (opos + (k + 1)) buf1 @ w \<and>
            drop ipos' inp = r \<and> ipos' \<le> length inp"
        using Suc.prems b1(2) lt by (intro Suc.IH) auto
      then show ?thesis
        using True lt r b1 by (auto simp: and_push_bit_iff d split: option.splits)
    qed
  qed
qed simp

definition unpack_inv :: "byte list \<Rightarrow> byte list \<Rightarrow> nat \<Rightarrow> nat \<Rightarrow> nat \<Rightarrow> bool" where
  "unpack_inv inp buf cap ipos opos \<longleftrightarrow>
     length buf = cap \<and> opos \<le> cap \<and> cap \<le> 2048 * length inp + 8192 \<and>
     ipos \<le> length inp \<and> opos \<le> 1024 * ipos \<and> opos mod 8 = 0"

lemma unpack_grow:
  assumes inv: "unpack_inv inp buf cap ipos opos" and n: "length inp < 2 ^ 50"
  obtains (oom) "(if opos + 8 + 255 * 8 > cap then grow_zeroed A buf cap (sz (cap * 2 + 8 * 256))
      else Some (Some (buf, cap))) = Some None" "\<not> no_oom A"
  | (ok) buf' cap' where
      "(if opos + 8 + 255 * 8 > cap then grow_zeroed A buf cap (sz (cap * 2 + 8 * 256))
        else Some (Some (buf, cap))) = Some (Some (buf', cap'))"
      "unpack_inv inp buf' cap' ipos opos" "opos + 2048 \<le> cap'" "take opos buf' = take opos buf"
proof (cases "opos + 8 + 255 * 8 > cap")
  case True
  have s: "sz (cap * 2 + 8 * 256) = cap * 2 + 2048" using inv n by (simp add: unpack_inv_def)
  show ?thesis
  proof (cases "mem_ok A (cap * 2 + 2048)")
    case ok': True
    define k where "k = cap + 2048"
    define buf' where "buf' = buf @ replicate k 0"
    have "size_t (int (cap * 2 + 2048) - int cap) = k"
      using inv n by (simp add: k_def size_t_nonneg unpack_inv_def nat_add_distrib)
    then have "grow_zeroed A buf cap (cap * 2 + 2048) = Some (Some (buf', cap * 2 + 2048))"
      using inv ok' by (simp add: grow_zeroed_def c_realloc_def buf'_def unpack_inv_def wr_def k_def)
    moreover have "unpack_inv inp buf' (cap * 2 + 2048) ipos opos" "opos + 2048 \<le> cap * 2 + 2048"
      "take opos buf' = take opos buf"
      using inv True by (simp_all add: unpack_inv_def buf'_def k_def)
    ultimately show ?thesis using True s by (intro ok [of buf' "cap * 2 + 2048"]) simp_all
  next
    case False
    then show ?thesis using True s by (intro oom) (auto simp: grow_zeroed_def c_realloc_def no_oom_def)
  qed
qed (use inv in \<open>auto intro!: ok\<close>)


text \<open>The runs never take their own growth branch: the head of the iteration has made room.\<close>

lemma unpack_zeros_eq:
  assumes buf: "length buf = cap" and room: "opos + 2040 \<le> cap" and ip: "ipos \<le> length inp"
  shows "case drop ipos inp of
      [] \<Rightarrow> unpack_zeros A inp buf cap ipos opos = Some (Inl CAPNP_ERR_PACKED)
    | c # r \<Rightarrow> \<exists>buf'. unpack_zeros A inp buf cap ipos opos =
          Some (Inr (buf', cap, ipos + 1, opos + unat c * 8)) \<and> length buf' = cap \<and>
        take (opos + unat c * 8) buf' = take opos buf @ replicate (unat c * 8) 0"
proof (cases "ipos < length inp")
  case True
  then have d: "drop ipos inp = inp ! ipos # drop (ipos + 1) inp" by (simp add: Cons_nth_drop_Suc)
  have r: "rd inp ipos 1 = Some [inp ! ipos]" using True by (simp add: rd_def d)
  have c: "unat (inp ! ipos) < 2 ^ 8" using unsigned_less [of "inp ! ipos"] by simp
  obtain buf' where "wr buf opos (replicate (unat (inp ! ipos) * 8) 0) = Some buf'" "length buf' = cap"
    "take (opos + unat (inp ! ipos) * 8) buf' = take opos buf @ replicate (unat (inp ! ipos) * 8) 0"
    using wr_append [of opos "replicate (unat (inp ! ipos) * 8) 0" buf] c buf room by auto
  then show ?thesis
    unfolding d unpack_zeros_def r bind.bind_lunit Let_def using True c room by simp
qed (simp add: unpack_zeros_def)

lemma unpack_verbatim_eq:
  assumes buf: "length buf = cap" and room: "opos + 2040 \<le> cap" and ip: "ipos \<le> length inp"
  shows "case drop ipos inp of
      [] \<Rightarrow> unpack_verbatim A inp buf cap ipos opos = Some (Inl CAPNP_ERR_PACKED)
    | c # r \<Rightarrow>
        if length r < unat c * 8 then unpack_verbatim A inp buf cap ipos opos = Some (Inl CAPNP_ERR_PACKED)
        else \<exists>buf'. unpack_verbatim A inp buf cap ipos opos =
            Some (Inr (buf', cap, ipos + 1 + unat c * 8, opos + unat c * 8)) \<and> length buf' = cap \<and>
          take (opos + unat c * 8) buf' = take opos buf @ take (unat c * 8) r"
proof (cases "ipos < length inp")
  case True
  define n where "n = unat (inp ! ipos) * 8"
  have d: "drop ipos inp = inp ! ipos # drop (ipos + 1) inp" using True by (simp add: Cons_nth_drop_Suc)
  have r: "rd inp ipos 1 = Some [inp ! ipos]" using True by (simp add: rd_def d)
  have "unat (inp ! ipos) < 2 ^ 8" using unsigned_less [of "inp ! ipos"] by simp
  then have c: "n \<le> 2040" by (simp add: n_def)
  show ?thesis
  proof (cases "ipos + 1 + n \<le> length inp")
    case fits: True
    define src where "src = take n (drop (ipos + 1) inp)"
    have src: "rd inp (ipos + 1) n = Some src" "length src = n"
      using fits by (simp_all add: rd_def src_def)
    obtain buf' where b: "wr buf opos src = Some buf'" "length buf' = cap"
      "take (opos + n) buf' = take opos buf @ src"
      using wr_append [of opos src buf] src(2) c buf room by auto
    have "buf' = buf" if "n = 0" using that src(2) b(1) by (auto simp: wr_def split: if_splits)
    then have "unpack_verbatim A inp buf cap ipos opos = Some (Inr (buf', cap, ipos + 1 + n, opos + n))"
      unfolding unpack_verbatim_def r bind.bind_lunit Let_def list.sel n_def [symmetric]
      using True fits c room src(1) b(1) by (cases "n = 0") (auto simp: n_def)
    then show ?thesis using b fits unfolding d by (simp add: src_def flip: n_def)
  next
    case False
    then show ?thesis
      unfolding d unpack_verbatim_def r bind.bind_lunit Let_def list.sel using True
      by (simp flip: n_def)
  qed
qed (simp add: unpack_verbatim_def)

lemma unpack_runs_eq:
  assumes buf: "length buf = cap" and room: "opos + 2040 \<le> cap" and ip: "ipos \<le> length inp"
  shows "case run_spec tag (drop ipos inp) of
      None \<Rightarrow> unpack_runs A inp buf cap ipos opos tag = Some (Inl CAPNP_ERR_PACKED)
    | Some (run, r) \<Rightarrow> \<exists>buf' ipos'.
        unpack_runs A inp buf cap ipos opos tag = Some (Inr (buf', cap, ipos', opos + length run)) \<and>
        length buf' = cap \<and> take (opos + length run) buf' = take opos buf @ run \<and>
        drop ipos' inp = r \<and> ipos \<le> ipos' \<and> ipos' \<le> length inp \<and>
        8 + length run \<le> 1024 * (1 + (ipos' - ipos)) \<and> length run mod 8 = 0 \<and> length run \<le> 2040"
proof -
  have step: "drop (ipos + 1) inp = rs" "ipos < length inp" "unat c < 2 ^ 8" if "drop ipos inp = c # rs" for c rs
    using that unsigned_less [of c] drop_Suc [of ipos inp] by (auto simp: tl_drop [symmetric] drop_eq_Nil2 not_le [symmetric])
  consider "tag = 0" | "tag = 0xff" | "tag \<noteq> 0" "tag \<noteq> 0xff" by blast
  then show ?thesis
  proof cases
    case 1
    from unpack_zeros_eq [OF assms, of A] show ?thesis
    proof (cases "drop ipos inp")
      case (Cons c rs)
      with unpack_zeros_eq [OF assms, of A] step [OF Cons] 1 show ?thesis
        by (auto simp: run_spec_def unpack_runs_def)
    qed (simp add: 1 run_spec_def unpack_runs_def)
  next
    case 2
    then have t0: "tag \<noteq> 0" by simp
    from unpack_verbatim_eq [OF assms, of A] show ?thesis
    proof (cases "drop ipos inp")
      case (Cons c rs)
      have "drop (ipos + 1 + k) inp = drop k rs" for k
        using step(1) [OF Cons] by (metis drop_drop add.commute)
      moreover have "length rs = length inp - (ipos + 1)" using step(1) [OF Cons] by auto
      ultimately show ?thesis
        using unpack_verbatim_eq [OF assms, of A] step [OF Cons] 2 t0 Cons
        by (auto simp: run_spec_def unpack_runs_def)
    qed (simp add: 2 run_spec_def unpack_runs_def)
  next
    case 3
    then show ?thesis using assms by (auto simp: run_spec_def unpack_runs_def)
  qed
qed

lemma unpack_step_eq:
  assumes inv: "unpack_inv inp buf cap ipos opos" and n: "length inp < 2 ^ 50" and ip: "ipos < length inp"
  obtains (oom) "unpack_step A inp buf cap ipos opos = Some (Inl CAPNP_ERR_ALLOC)" "\<not> no_oom A"
  | (bad) "unpack_step A inp buf cap ipos opos = Some (Inl CAPNP_ERR_PACKED)"
      "unpack_spec (drop ipos inp) = None"
  | (ok) buf' cap' ipos' opos' where
      "unpack_step A inp buf cap ipos opos = Some (Inr (buf', cap', ipos', opos'))"
      "unpack_inv inp buf' cap' ipos' opos'"
      "map_option ((@) (take opos' buf')) (unpack_spec (drop ipos' inp)) =
       map_option ((@) (take opos buf)) (unpack_spec (drop ipos inp))"
proof (cases rule: unpack_grow [OF inv n, of A])
  case 1
  have "unpack_step A inp buf cap ipos opos = Some (Inl CAPNP_ERR_ALLOC)"
    unfolding unpack_step_def 1(1) by simp
  with 1(2) show ?thesis by (intro oom)
next
  case (2 buf1 cap1)
  define tag where "tag = inp ! ipos"
  define xs where "xs = drop (ipos + 1) inp"
  have d: "drop ipos inp = tag # xs" using ip by (simp add: Cons_nth_drop_Suc tag_def xs_def)
  have r: "rd inp ipos 1 = Some [tag]" using ip by (simp add: rd_def d)
  from 2 have cap1: "length buf1 = cap1" "cap1 \<le> 2048 * length inp + 8192" "opos \<le> 1024 * ipos"
    "opos mod 8 = 0"
    by (simp_all add: unpack_inv_def)
  have step: "unpack_step A inp buf cap ipos opos =
      do { word \<leftarrow> unpack_bytes inp buf1 (ipos + 1) opos tag 0 8;
           case word of
             Inl r \<Rightarrow> Some (Inl r)
           | Inr (buf, ipos) \<Rightarrow> unpack_runs A inp buf cap1 ipos (opos + 8) tag }"
    unfolding unpack_step_def 2(1) by (simp add: r [unfolded One_nat_def] Let_def)
  have "opos + 0 + 8 \<le> length buf1" "ipos + 1 \<le> length inp" using cap1 2(3) ip by auto
  note bytes = unpack_bytes_eq [OF this, of tag, folded xs_def]
  show ?thesis
  proof (cases "expand_tag tag 0 8 xs")
    case None
    then show ?thesis using bytes by (intro bad) (simp_all add: step d unpack_spec.simps)
  next
    case (Some p)
    then obtain w rest where e: "expand_tag tag 0 8 xs = Some (w, rest)" by (cases p) auto
    then obtain buf2 ip2 where b2: "unpack_bytes inp buf1 (ipos + 1) opos tag 0 8 = Some (Inr (buf2, ip2))"
      "length buf2 = cap1" "take (opos + 8) buf2 = take opos buf @ w" "drop ip2 inp = rest" "ip2 \<le> length inp"
      using bytes cap1(1) 2(4) by auto
    have ip2: "ipos + 1 \<le> ip2" using unpack_bytes_mono [OF b2(1)] .
    have "opos + 8 + 2040 \<le> cap1" using 2(3) by simp
    note run = unpack_runs_eq [OF b2(2) this b2(5), where tag = tag and A = A, unfolded b2(4)]
    show ?thesis
    proof (cases "run_spec tag rest")
      case None
      then show ?thesis using run e b2(1) by (intro bad) (simp_all add: step d unpack_spec.simps)
    next
      case (Some q)
      then obtain bytes r' where q: "run_spec tag rest = Some (bytes, r')" by (cases q) auto
      with run obtain buf3 ip3 where
        b3: "unpack_runs A inp buf2 cap1 ip2 (opos + 8) tag = Some (Inr (buf3, cap1, ip3, opos + 8 + length bytes))"
          "length buf3 = cap1" "take (opos + 8 + length bytes) buf3 = take (opos + 8) buf2 @ bytes"
          "drop ip3 inp = r'" "ip2 \<le> ip3" "ip3 \<le> length inp" "8 + length bytes \<le> 1024 * (1 + (ip3 - ip2))"
          "length bytes mod 8 = 0" "length bytes \<le> 2040"
        by auto
      show ?thesis
      proof (rule ok)
        show "unpack_step A inp buf cap ipos opos = Some (Inr (buf3, cap1, ip3, opos + 8 + length bytes))"
          unfolding step b2(1) bind.bind_lunit sum.case prod.case by (rule b3(1))
        have "(opos + 8 + length bytes) mod 8 = 0" using cap1(4) b3(8) by presburger
        then show "unpack_inv inp buf3 cap1 ip3 (opos + 8 + length bytes)"
          using b3 cap1 ip2 2(3) by (simp add: unpack_inv_def)
        show "map_option ((@) (take (opos + 8 + length bytes) buf3)) (unpack_spec (drop ip3 inp)) =
            map_option ((@) (take opos buf)) (unpack_spec (drop ipos inp))"
          by (cases "unpack_spec r'") (simp_all add: d unpack_spec.simps e q b3(3,4) b2(3))
      qed
    qed
  qed
qed

lemma unpack_loop_eq:
  "\<lbrakk>unpack_inv inp buf cap ipos opos; length inp < 2 ^ 50\<rbrakk> \<Longrightarrow>
   unpack_loop A inp buf cap ipos opos = Some (CAPNP_ERR_ALLOC, []) \<and> \<not> no_oom A \<or>
   unpack_loop A inp buf cap ipos opos =
     (case unpack_spec (drop ipos inp) of
        None \<Rightarrow> Some (CAPNP_ERR_PACKED, [])
      | Some ys \<Rightarrow> Some (CAPNP_OK, take opos buf @ ys))"
proof (induction A inp buf cap ipos opos rule: unpack_loop.induct)
  case (1 A inp buf cap ipos opos)
  show ?case
  proof (cases "ipos < length inp")
    case True
    show ?thesis
    proof (cases rule: unpack_step_eq [OF "1.prems" True, of A])
      case 1
      then show ?thesis using True by (subst (1 2) unpack_loop.simps) simp
    next
      case 2
      then show ?thesis using True by (subst (1 2) unpack_loop.simps) simp
    next
      case ok: (3 buf' cap' ipos' opos')
      note IH = "1.IH" [OF True ok(1) refl refl refl refl ok(2) "1.prems"(2)]
      have "unpack_loop A inp buf cap ipos opos = unpack_loop A inp buf' cap' ipos' opos'"
        using True ok(1) by (subst unpack_loop.simps) simp
      with IH ok(3) show ?thesis by (auto split: option.splits)
    qed
  next
    case False
    with "1.prems" show ?thesis
      by (subst (1 2) unpack_loop.simps) (simp add: unpack_inv_def unpack_spec.simps)
  qed
qed

lemma capnp_unpack_eq:
  assumes "length inp < 2 ^ 50"
  shows "capnp_unpack A inp = Some (CAPNP_ERR_ALLOC, []) \<and> \<not> no_oom A \<or>
    capnp_unpack A inp =
      (case unpack_spec inp of
         None \<Rightarrow> Some (CAPNP_ERR_PACKED, [])
       | Some ys \<Rightarrow> Some (CAPNP_OK, ys))"
proof -
  define cap where "cap = length inp * 4 + 64"
  have cap: "sz (length inp * 4 + 64) = cap" "\<not> cap < 64" using assms by (simp_all add: cap_def)
  have "unpack_inv inp (replicate cap 0) cap 0 0" by (simp add: unpack_inv_def cap_def)
  note loop = unpack_loop_eq [OF this assms, of A, unfolded drop0 take0 append_Nil]
  have "wr (map (mem_junk A) [0..<cap]) 0 (replicate cap 0) = Some (replicate cap 0)"
    by (simp add: wr_def)
  then have "capnp_unpack A inp = (if mem_ok A cap then unpack_loop A inp (replicate cap 0) cap 0 0
      else Some (CAPNP_ERR_ALLOC, []))"
    using cap(2) unfolding capnp_unpack_def Let_def cap(1) by (simp add: c_malloc_def)
  with loop show ?thesis by (auto simp: no_oom_def)
qed

text \<open>Shape and size of what \<open>unpack_spec\<close> returns.\<close>

lemma unpack_spec_length:
  "unpack_spec inp = Some ys \<Longrightarrow> length ys mod 8 = 0 \<and> length ys \<le> 1024 * length inp"
proof (induction inp arbitrary: ys rule: unpack_spec.induct)
  case (2 t xs)
  then obtain w r run r' zs where u: "expand_tag t 0 8 xs = Some (w, r)" "run_spec t r = Some (run, r')"
    "unpack_spec r' = Some zs" "ys = w @ run @ zs"
    by (auto simp: unpack_spec.simps split: option.splits)
  have IH: "length zs mod 8 = 0 \<and> length zs \<le> 1024 * length r'"
    using "2.IH" [OF u(1) refl u(2) refl u(3)] .
  have c: "unat (c :: byte) \<le> 255" for c using unsigned_less [of c, where 'a = nat] by simp
  have "length run mod 8 = 0 \<and> 8 + length run + 1024 * length r' \<le> 1024 * Suc (length r)"
    using u(2) c by (auto simp: run_spec_def split: if_splits list.splits)
  with IH u(4) expand_tag_length [OF u(1)] show ?case by (auto simp: mod_add_eq)
qed (simp add: unpack_spec.simps)


section \<open>Properties\<close>

text \<open>
  C5 Packing and unpacking are inverse. For a whole number of words (below a petabyte, so that no
  \<open>size_t\<close> computation wraps) and an allocator that does not fail, \<open>capnp_pack\<close> succeeds without
  writing outside its buffer, and \<open>capnp_unpack\<close> of its output returns the original bytes.
\<close>

theorem pack_unpack_roundtrip:
  assumes "no_oom A" "length inp mod 8 = 0" "length inp < 2 ^ 49"
  shows "\<exists>packed. capnp_pack A inp = Some (CAPNP_OK, packed) \<and>
    capnp_unpack A packed = Some (CAPNP_OK, inp)"
proof -
  have "length (pack_spec inp) < 2 ^ 50" using length_pack_spec [OF assms(2)] assms(3) by simp
  then show ?thesis
    using capnp_pack_eq [of inp A] capnp_unpack_eq [of "pack_spec inp" A] unpack_pack_spec [OF assms(2)] assms
    by simp
qed

theorem pack_unpack_roundtrip_witness:
  "\<exists>packed. capnp_pack plentiful [8, 0, 0, 0, 3, 0, 2, 0] = Some (CAPNP_OK, packed) \<and>
     capnp_unpack plentiful packed = Some (CAPNP_OK, [8, 0, 0, 0, 3, 0, 2, 0])"
  using pack_unpack_roundtrip [of plentiful "[8, 0, 0, 0, 3, 0, 2, 0]"] by (simp add: no_oom_def)

text \<open>
  C29 Unpacking untrusted input. On any input \<open>capnp_unpack\<close> stays inside its input and its
  buffer and returns one of three codes: success, \<open>CAPNP_ERR_PACKED\<close>, or (only when a memory
  request was refused) \<open>CAPNP_ERR_ALLOC\<close>; a success is a whole number of words and at most
  1024 times as long as the input.
\<close>

theorem unpack_total:
  assumes "length inp < 2 ^ 50"
  shows "\<exists>r out. capnp_unpack A inp = Some (r, out) \<and>
    (r = CAPNP_OK \<and> length out mod 8 = 0 \<and> length out \<le> 1024 * length inp \<or>
     r = CAPNP_ERR_PACKED \<and> out = [] \<or> r = CAPNP_ERR_ALLOC \<and> out = [] \<and> \<not> no_oom A)"
  using capnp_unpack_eq [OF assms, of A] unpack_spec_length [of inp]
  by (auto split: option.splits)

theorem unpack_total_witness:
  "\<exists>r out. capnp_unpack plentiful [0, 255] = Some (r, out) \<and>
     (r = CAPNP_OK \<and> length out mod 8 = 0 \<and> length out \<le> 2048 \<or> r = CAPNP_ERR_PACKED \<and> out = [])"
  using unpack_total [of "[0, 255]" plentiful] by (auto simp: no_oom_def)

text \<open>
  C28 The two routines compute the packing format. Their results do not depend on the contents of
  fresh memory: \<open>capnp_pack\<close> returns \<open>pack_spec\<close> of its input, at most ten bytes for every
  word, and \<open>capnp_unpack\<close> returns what \<open>unpack_spec\<close> says, \<open>CAPNP_ERR_PACKED\<close> where it
  says \<open>None\<close>.
\<close>

theorem packed_refines_spec:
  assumes "no_oom A" "length inp < 2 ^ 50"
  shows "(length inp mod 8 = 0 \<longrightarrow>
      capnp_pack A inp = Some (CAPNP_OK, pack_spec inp) \<and> length (pack_spec inp) * 8 \<le> 10 * length inp) \<and>
    (length inp mod 8 \<noteq> 0 \<longrightarrow> capnp_pack A inp = Some (CAPNP_ERR_ARG, [])) \<and>
    capnp_unpack A inp =
      (case unpack_spec inp of None \<Rightarrow> Some (CAPNP_ERR_PACKED, []) | Some ys \<Rightarrow> Some (CAPNP_OK, ys))"
  using capnp_pack_eq [of inp A] capnp_unpack_eq [of inp A] length_pack_spec [of inp] assms
  by (auto simp: capnp_pack_def)

lemma unpack_spec_demo: "unpack_spec [0x11, 5, 7] = Some [5, 0, 0, 0, 7, 0, 0, 0]"
  by code_simp

theorem packed_refines_spec_witness:
  "capnp_unpack plentiful [0x11, 5, 7] = Some (CAPNP_OK, [5, 0, 0, 0, 7, 0, 0, 0]) \<and>
   capnp_pack plentiful [1, 2, 3] = Some (CAPNP_ERR_ARG, [])"
  using packed_refines_spec [of plentiful "[0x11, 5, 7]"] packed_refines_spec [of plentiful "[1, 2, 3]"]
  by (simp add: no_oom_def unpack_spec_demo)

end
