(* ===== verification/Message.thy ===== *)
theory Message
  imports Pointer
begin

text \<open>
  The message state of \<open>capnp_message.h\<close> and the parts of \<open>src/capnp_message.c\<close> below the
  public accessors: initialisation, stream framing (\<open>parse_flat\<close>), the bounds check, the
  traversal budget, and pointer resolution (\<open>resolve_word\<close>, \<open>resolve_ptr\<close>).

  \<open>capnp_message_t\<close> is the record \<open>message\<close>; its segment array has
  \<open>CAPNP_MAX_SEGMENTS\<close> entries and a segment pointer that is \<open>NULL\<close> is \<open>None\<close>. The bytes
  of a segment are the object its pointer refers to, so a read outside them is \<open>None\<close> in
  the model even where the C pointer would still be inside a larger buffer.
  \<open>capnp_ptr_t\<close> is the record \<open>ptr\<close>; its \<open>msg\<close> field is the message passed along. Output
  parameters are returned, together with the return code and the message (whose traversal
  budget changes); on an error they hold what the C code has written by then.
\<close>

section \<open>State\<close>

record segment =
  seg_data :: "byte list option"
  seg_words :: nat

record message =
  msegs :: "segment list"
  nsegs :: nat
  owned :: "byte list option"
  owned_len :: nat
  traversal_left :: nat
  depth_limit :: int

record ptr =
  p_seg :: nat
  p_word :: nat
  p_kind :: pkind
  p_dwords :: nat
  p_pwords :: nat
  p_esize :: nat
  p_count :: nat
  p_step_words :: nat
  p_body_byte :: nat
  p_data_bits :: nat

definition null_segment :: segment where
  "null_segment = \<lparr>seg_data = None, seg_words = 0\<rparr>"

text \<open>A \<open>capnp_ptr_t\<close> after \<open>memset\<close> to zero; also stands for an uninitialised one.\<close>

definition ptr0 :: ptr where
  "ptr0 = \<lparr>p_seg = 0, p_word = 0, p_kind = PK_NULL, p_dwords = 0, p_pwords = 0, p_esize = 0,
     p_count = 0, p_step_words = 0, p_body_byte = 0, p_data_bits = 0\<rparr>"

definition capnp_message_init :: message where
  "capnp_message_init =
     \<lparr>msegs = replicate MAX_SEGMENTS null_segment, nsegs = 0, owned = None, owned_len = 0,
      traversal_left = DEFAULT_TRAVERSAL_WORDS, depth_limit = DEFAULT_DEPTH_LIMIT\<rparr>"

definition capnp_message_free :: "message \<Rightarrow> message" where
  "capnp_message_free m = m\<lparr>owned := None, owned_len := 0, nsegs := 0\<rparr>"

section \<open>Attaching segments\<close>

text \<open>The loop of \<open>attach_segments\<close>; \<open>i\<close> is the index of the next segment to attach.\<close>

fun attach_loop :: "message \<Rightarrow> nat \<Rightarrow> segment list \<Rightarrow> rc \<times> message" where
  "attach_loop m i [] = (CAPNP_OK, m)"
| "attach_loop m i (s # ss) =
     (if seg_data s = None \<or> (seg_words s = 0 \<and> i = 0) then (CAPNP_ERR_FRAMING, m)
      else attach_loop (m\<lparr>msegs := (msegs m)[i := s]\<rparr>) (i + 1) ss)"

definition attach_segments :: "message \<Rightarrow> segment list \<Rightarrow> rc \<times> message" where
  "attach_segments m ss =
     (if length ss = 0 \<or> length ss > MAX_SEGMENTS then (CAPNP_ERR_FRAMING, m)
      else case attach_loop m 0 ss of (r, m') \<Rightarrow>
        if r \<noteq> CAPNP_OK then (r, m') else (CAPNP_OK, m'\<lparr>nsegs := length ss\<rparr>))"

definition capnp_message_from_segments :: "segment list \<Rightarrow> rc \<times> message" where
  "capnp_message_from_segments ss = attach_segments capnp_message_init ss"

section \<open>Stream framing\<close>

text \<open>Size of the segment table, padded to a word: \<open>4 + 4 * nsegs\<close>, plus 4 if needed.\<close>

definition table_size :: "nat \<Rightarrow> nat" where
  "table_size n = (let t = 4 + 4 * n in if t mod 8 \<noteq> 0 then t + 4 else t)"

fun read_sizes :: "byte list \<Rightarrow> nat \<Rightarrow> nat \<Rightarrow> nat list option" where
  "read_sizes data i 0 = Some []"
| "read_sizes data i (Suc k) =
     do { p \<leftarrow> rd data (4 + 4 * i) 4;
          rest \<leftarrow> read_sizes data (i + 1) k;
          Some (unat (capnp_load_le32 p) # rest) }"

text \<open>The last loop of \<open>parse_flat\<close>: segment \<open>i\<close> starts at byte \<open>off\<close> of \<open>base\<close>.\<close>

fun attach_bodies :: "message \<Rightarrow> byte list \<Rightarrow> nat \<Rightarrow> nat \<Rightarrow> nat list \<Rightarrow> message" where
  "attach_bodies m base off i [] = m"
| "attach_bodies m base off i (w # ws) =
     attach_bodies
       (m\<lparr>msegs := (msegs m)
          [i := \<lparr>seg_data = Some (take (w * WORD_BYTES) (drop off base)), seg_words = w\<rparr>]\<rparr>)
       base (off + w * WORD_BYTES) (i + 1) ws"

definition parse_flat ::
    "allocator \<Rightarrow> message \<Rightarrow> byte list \<Rightarrow> bool \<Rightarrow> (rc \<times> message) option" where
  "parse_flat A m data copy =
     (if length data < 8 then Some (CAPNP_ERR_FRAMING, m)
      else do {
        p \<leftarrow> rd data 0 4;
        let n = unat (capnp_load_le32 p + 1);
        if n = 0 \<or> n > MAX_SEGMENTS then Some (CAPNP_ERR_FRAMING, m)
        else if length data < table_size n then Some (CAPNP_ERR_FRAMING, m)
        else do {
          sizes \<leftarrow> read_sizes data 0 n;
          let body = table_size n + sum_list sizes * WORD_BYTES;
          if body > length data then Some (CAPNP_ERR_FRAMING, m)
          else if copy then
            (case c_malloc A body of
               None \<Rightarrow> Some (CAPNP_ERR_ALLOC, m)
             | Some buf \<Rightarrow> do {
                 src \<leftarrow> rd data 0 body;
                 base \<leftarrow> wr buf 0 src;
                 let m = m\<lparr>owned := Some base, owned_len := body\<rparr>;
                 Some (CAPNP_OK, (attach_bodies m base (table_size n) 0 sizes)\<lparr>nsegs := n\<rparr>) })
          else Some (CAPNP_OK, (attach_bodies m data (table_size n) 0 sizes)\<lparr>nsegs := n\<rparr>) } })"

definition capnp_message_from_flat :: "allocator \<Rightarrow> byte list \<Rightarrow> (rc \<times> message) option" where
  "capnp_message_from_flat A data = parse_flat A capnp_message_init data True"

definition capnp_message_view_flat :: "allocator \<Rightarrow> byte list \<Rightarrow> (rc \<times> message) option" where
  "capnp_message_view_flat A data = parse_flat A capnp_message_init data False"

section \<open>Bounds, reads and the traversal budget\<close>

definition bounds_word :: "message \<Rightarrow> nat \<Rightarrow> nat \<Rightarrow> rc" where
  "bounds_word m seg word =
     (if seg \<ge> nsegs m then CAPNP_ERR_SEGMENT
      else if word \<ge> seg_words (msegs m ! seg) then CAPNP_ERR_BOUNDS
      else CAPNP_OK)"

text \<open>\<open>n\<close> bytes at byte address \<open>a\<close> of segment \<open>seg\<close>: the memory access behind every
  \<open>m->segs[seg].data + a\<close> that the code dereferences.\<close>

definition seg_read :: "message \<Rightarrow> nat \<Rightarrow> nat \<Rightarrow> nat \<Rightarrow> byte list option" where
  "seg_read m seg a n =
     (if seg < length (msegs m)
      then (case seg_data (msegs m ! seg) of None \<Rightarrow> None | Some d \<Rightarrow> rd d a n)
      else None)"

definition read_word :: "message \<Rightarrow> nat \<Rightarrow> nat \<Rightarrow> u64 option" where
  "read_word m seg word = map_option capnp_load_le64 (seg_read m seg (sz (word * WORD_BYTES)) 8)"

definition charge :: "message \<Rightarrow> nat \<Rightarrow> rc \<times> message" where
  "charge m words =
     (if words > traversal_left m then (CAPNP_ERR_TRAVERSAL, m)
      else (CAPNP_OK, m\<lparr>traversal_left := traversal_left m - words\<rparr>))"

section \<open>Pointer resolution\<close>

definition set_null :: "nat \<Rightarrow> nat \<Rightarrow> ptr \<Rightarrow> ptr" where
  "set_null seg word out =
     out\<lparr>p_seg := seg, p_word := word, p_kind := PK_NULL, p_dwords := 0, p_pwords := 0,
         p_esize := 0, p_count := 0, p_step_words := 0\<rparr>"

definition set_struct :: "nat \<Rightarrow> nat \<Rightarrow> nat \<Rightarrow> nat \<Rightarrow> ptr \<Rightarrow> ptr" where
  "set_struct seg word dw pw out =
     out\<lparr>p_seg := seg, p_word := word, p_kind := PK_STRUCT, p_dwords := dw, p_pwords := pw,
         p_esize := 0, p_count := 0, p_step_words := 0\<rparr>"

definition set_list :: "nat \<Rightarrow> nat \<Rightarrow> nat \<Rightarrow> nat \<Rightarrow> ptr \<Rightarrow> ptr" where
  "set_list seg word es cnt out =
     out\<lparr>p_seg := seg, p_word := word, p_kind := PK_LIST, p_dwords := 0, p_pwords := 0,
         p_esize := es, p_count := cnt, p_step_words := 0\<rparr>"

text \<open>The tag word of a composite list: element count in the offset field (cast to
  \<open>uint32_t\<close>), element sizes in the upper half; the elements start one word later.\<close>

definition set_composite :: "nat \<Rightarrow> u64 \<Rightarrow> ptr \<Rightarrow> ptr" where
  "set_composite start tag out =
     out\<lparr>p_count := nat (capnp_wp_offset tag mod 2 ^ 32),
         p_dwords := capnp_wp_struct_dwords tag, p_pwords := capnp_wp_struct_pwords tag,
         p_step_words := capnp_wp_struct_dwords tag + capnp_wp_struct_pwords tag,
         p_word := sz (start + 1)\<rparr>"

text \<open>\<open>return charge(m, n)\<close> with the output pointer filled in.\<close>

definition charge_out :: "message \<Rightarrow> nat \<Rightarrow> ptr \<Rightarrow> rc \<times> message \<times> ptr" where
  "charge_out m n out = (case charge m n of (r, m') \<Rightarrow> (r, m', out))"

text \<open>A landing pad of two words: a far pointer to the content and a tag word.\<close>

definition resolve_double_far ::
    "message \<Rightarrow> nat \<Rightarrow> nat \<Rightarrow> ptr \<Rightarrow> (rc \<times> message \<times> ptr) option" where
  "resolve_double_far m tseg toff out =
     (if bounds_word m tseg toff \<noteq> CAPNP_OK \<or> bounds_word m tseg (toff + 1) \<noteq> CAPNP_OK
      then Some (CAPNP_ERR_BOUNDS, m, out)
      else case charge m 2 of (r, m) \<Rightarrow>
        if r \<noteq> CAPNP_OK then Some (CAPNP_ERR_TRAVERSAL, m, out)
        else do {
          pad \<leftarrow> read_word m tseg toff;
          tag \<leftarrow> read_word m tseg (toff + 1);
          if capnp_wp_kind pad \<noteq> CAPNP_WK_FAR \<or> capnp_wp_far_two pad
          then Some (CAPNP_ERR_KIND, m, out)
          else let cseg = capnp_wp_far_seg pad; coff = capnp_wp_far_off pad in
            if capnp_wp_kind tag = CAPNP_WK_STRUCT then
              (let out = set_struct cseg coff (capnp_wp_struct_dwords tag)
                           (capnp_wp_struct_pwords tag) out
               in Some (charge_out m (p_dwords out + p_pwords out) out))
            else if capnp_wp_kind tag = CAPNP_WK_LIST then
              (let out = set_list cseg coff (capnp_wp_list_esize tag)
                           (capnp_wp_list_count tag) out
               in if p_esize out = SZ_COMPOSITE then
                    (if bounds_word m cseg coff \<noteq> CAPNP_OK
                     then Some (CAPNP_ERR_BOUNDS, m, out)
                     else do {
                       t \<leftarrow> read_word m cseg coff;
                       let out = set_composite coff t out;
                       Some (charge_out m (1 + p_count out * p_step_words out) out) })
                  else Some (CAPNP_OK, m, out))
            else Some (CAPNP_ERR_KIND, m, out) })"

text \<open>A struct pointer in place: the body starts at \<open>word + 1 + off\<close>, computed as a signed
  sum and converted to \<open>size_t\<close>.\<close>

definition resolve_struct ::
    "message \<Rightarrow> nat \<Rightarrow> nat \<Rightarrow> u64 \<Rightarrow> ptr \<Rightarrow> rc \<times> message \<times> ptr" where
  "resolve_struct m seg word w out =
     (let body = size_t (int word + 1 + capnp_wp_offset w);
          out = set_struct seg body (capnp_wp_struct_dwords w) (capnp_wp_struct_pwords w) out;
          fin = sz (body + p_dwords out + p_pwords out)
      in if (p_dwords out \<noteq> 0 \<or> p_pwords out \<noteq> 0) \<and>
            (bounds_word m seg body \<noteq> CAPNP_OK \<or>
             (fin > 0 \<and> bounds_word m seg (fin - 1) \<noteq> CAPNP_OK))
         then (CAPNP_ERR_BOUNDS, m, out)
         else charge_out m (p_dwords out + p_pwords out) out)"

text \<open>Size in bits of a primitive or pointer list, the \<open>switch\<close> of the list case.\<close>

definition list_bits :: "nat \<Rightarrow> nat \<Rightarrow> nat option" where
  "list_bits es cnt =
     (if es = SZ_VOID then Some 0
      else if es = SZ_BIT then Some cnt
      else if es = SZ_BYTE then Some (cnt * 8)
      else if es = SZ_TWO then Some (cnt * 16)
      else if es = SZ_FOUR then Some (cnt * 32)
      else if es = SZ_EIGHT \<or> es = SZ_PTR then Some (cnt * 64)
      else None)"

definition resolve_list ::
    "message \<Rightarrow> nat \<Rightarrow> nat \<Rightarrow> u64 \<Rightarrow> ptr \<Rightarrow> (rc \<times> message \<times> ptr) option" where
  "resolve_list m seg word w out =
     (let start = size_t (int word + 1 + capnp_wp_offset w);
          out = set_list seg start (capnp_wp_list_esize w) (capnp_wp_list_count w) out
      in if p_esize out = SZ_COMPOSITE then
           (if bounds_word m seg start \<noteq> CAPNP_OK then Some (CAPNP_ERR_BOUNDS, m, out)
            else case charge m 1 of (r, m) \<Rightarrow>
              if r \<noteq> CAPNP_OK then Some (CAPNP_ERR_TRAVERSAL, m, out)
              else do {
                tag \<leftarrow> read_word m seg start;
                let out = set_composite start tag out;
                let need = p_count out * p_step_words out;
                if need \<noteq> 0 \<and> bounds_word m seg (sz (p_word out + need - 1)) \<noteq> CAPNP_OK
                then Some (CAPNP_ERR_BOUNDS, m, out)
                else Some (charge_out m need out) })
         else (case list_bits (p_esize out) (p_count out) of
             None \<Rightarrow> Some (CAPNP_ERR_KIND, m, out)
           | Some bits \<Rightarrow>
               let words = (bits + 63) div 64 in
               if words \<noteq> 0 \<and> bounds_word m seg (sz (start + words - 1)) \<noteq> CAPNP_OK
               then Some (CAPNP_ERR_BOUNDS, m, out)
               else Some (charge_out m words out)))"

definition set_cap :: "nat \<Rightarrow> nat \<Rightarrow> u64 \<Rightarrow> ptr \<Rightarrow> ptr" where
  "set_cap seg word w out =
     out\<lparr>p_seg := seg, p_word := word, p_kind := PK_CAP, p_dwords := 0, p_pwords := 0,
         p_esize := 0, p_count := wp_cap_index w, p_step_words := 0\<rparr>"

text \<open>A single far pointer continues with the word it lands on, one level less deep.\<close>

function resolve_word ::
    "message \<Rightarrow> nat \<Rightarrow> nat \<Rightarrow> u64 \<Rightarrow> int \<Rightarrow> ptr \<Rightarrow> (rc \<times> message \<times> ptr) option" where
  "resolve_word m seg word w depth out =
     (let out = out\<lparr>p_body_byte := 0, p_data_bits := 0\<rparr> in
      if depth \<le> 0 then Some (CAPNP_ERR_DEPTH, m, out)
      else if w = 0 then Some (CAPNP_OK, m, set_null seg word out)
      else if capnp_wp_kind w = CAPNP_WK_FAR then
        (let tseg = capnp_wp_far_seg w; toff = capnp_wp_far_off w in
         if capnp_wp_far_two w then resolve_double_far m tseg toff out
         else if bounds_word m tseg toff \<noteq> CAPNP_OK then Some (CAPNP_ERR_BOUNDS, m, out)
         else case charge m 1 of (r, m) \<Rightarrow>
           if r \<noteq> CAPNP_OK then Some (CAPNP_ERR_TRAVERSAL, m, out)
           else (case read_word m tseg toff of
                   None \<Rightarrow> None
                 | Some land \<Rightarrow> resolve_word m tseg toff land (depth - 1) out))
      else if capnp_wp_kind w = CAPNP_WK_STRUCT then Some (resolve_struct m seg word w out)
      else if capnp_wp_kind w = CAPNP_WK_LIST then resolve_list m seg word w out
      else if capnp_wp_kind w = CAPNP_WK_CAP then Some (CAPNP_OK, m, set_cap seg word w out)
      else Some (CAPNP_ERR_KIND, m, out))"
  by pat_completeness auto
termination
  by (relation "measure (\<lambda>(m, seg, word, w, depth, out). nat depth)") auto

declare resolve_word.simps [simp del]

definition resolve_ptr ::
    "message \<Rightarrow> nat \<Rightarrow> nat \<Rightarrow> int \<Rightarrow> ptr \<Rightarrow> (rc \<times> message \<times> ptr) option" where
  "resolve_ptr m seg word depth out =
     (if bounds_word m seg word \<noteq> CAPNP_OK then Some (CAPNP_ERR_BOUNDS, m, out)
      else case charge m 1 of (r, m) \<Rightarrow>
        if r \<noteq> CAPNP_OK then Some (CAPNP_ERR_TRAVERSAL, m, out)
        else (case read_word m seg word of
                None \<Rightarrow> None
              | Some w \<Rightarrow> resolve_word m seg word w depth out))"

section \<open>Well-formed messages and what resolution may change\<close>

definition wf_segment :: "segment \<Rightarrow> bool" where
  "wf_segment s \<longleftrightarrow>
     (case seg_data s of
        None \<Rightarrow> False
      | Some d \<Rightarrow> length d = seg_words s * WORD_BYTES \<and> length d < 2 ^ 63)"

definition wf_message :: "message \<Rightarrow> bool" where
  "wf_message m \<longleftrightarrow>
     length (msegs m) = MAX_SEGMENTS \<and> nsegs m \<le> MAX_SEGMENTS \<and>
     list_all wf_segment (take (nsegs m) (msegs m))"

definition spends :: "message \<Rightarrow> nat \<Rightarrow> message \<Rightarrow> bool" where
  "spends m k m' \<longleftrightarrow>
     k \<le> traversal_left m \<and> m' = m\<lparr>traversal_left := traversal_left m - k\<rparr>"

lemma spends_0 [simp]: "spends m 0 m" and spends_zeroD: "spends m 0 m' \<Longrightarrow> m' = m"
  by (simp_all add: spends_def)

lemma spends_trans: "spends m i m1 \<Longrightarrow> spends m1 j m2 \<Longrightarrow> spends m (i + j) m2"
  by (auto simp: spends_def)

lemma charge_OK_iff: "charge m n = (CAPNP_OK, m') \<longleftrightarrow> spends m n m'"
  by (auto simp: charge_def spends_def)

lemma charge_OK_iff': "(CAPNP_OK, m') = charge m n \<longleftrightarrow> spends m n m'"
  by (metis charge_OK_iff)

lemma charge_cases:
  obtains (ok) m' where "charge m n = (CAPNP_OK, m')" "spends m n m'"
  | (fail) "charge m n = (CAPNP_ERR_TRAVERSAL, m)" "traversal_left m < n"
  by (cases "n \<le> traversal_left m") (auto simp: charge_def spends_def not_le)

lemma update_traversal [simp]:
  "bounds_word (m\<lparr>traversal_left := t\<rparr>) = bounds_word m"
  "seg_read (m\<lparr>traversal_left := t\<rparr>) = seg_read m"
  "read_word (m\<lparr>traversal_left := t\<rparr>) = read_word m"
  "wf_message (m\<lparr>traversal_left := t\<rparr>) = wf_message m"
  by (auto simp: fun_eq_iff bounds_word_def seg_read_def read_word_def wf_message_def)

lemma spends_same:
  assumes "spends m k m'"
  shows "bounds_word m' = bounds_word m" "seg_read m' = seg_read m" "read_word m' = read_word m"
    "wf_message m' = wf_message m" "nsegs m' = nsegs m" "msegs m' = msegs m"
    "depth_limit m' = depth_limit m" "traversal_left m' = traversal_left m - k"
  using assms by (simp_all add: spends_def)

lemma wf_messageD:
  assumes "wf_message m" and "s < nsegs m"
  shows "\<exists>d. seg_data (msegs m ! s) = Some d \<and> length d = seg_words (msegs m ! s) * 8 \<and>
    length d < 2 ^ 63" and "s < length (msegs m)"
proof -
  from assms have "wf_segment (take (nsegs m) (msegs m) ! s)"
    by (simp add: wf_message_def list_all_length)
  with assms(2) show "\<exists>d. seg_data (msegs m ! s) = Some d \<and>
      length d = seg_words (msegs m ! s) * 8 \<and> length d < 2 ^ 63"
    by (auto simp: wf_segment_def WORD_BYTES_def split: option.splits)
  from assms show "s < length (msegs m)" by (simp add: wf_message_def)
qed

lemma wf_seg_words: "wf_message m \<Longrightarrow> s < nsegs m \<Longrightarrow> seg_words (msegs m ! s) < 2 ^ 60"
  by (drule (1) wf_messageD(1)) auto

lemma bounds_word_OK_iff:
  "bounds_word m seg word = CAPNP_OK \<longleftrightarrow> seg < nsegs m \<and> word < seg_words (msegs m ! seg)"
  by (auto simp: bounds_word_def)

text \<open>Reads inside a segment succeed; the byte address does not wrap there.\<close>

lemma seg_read_in_bounds:
  assumes "wf_message m" "seg < nsegs m" "a + n \<le> seg_words (msegs m ! seg) * 8"
  shows "\<exists>p. seg_read m seg a n = Some p \<and> length p = n"
  using wf_messageD [OF assms(1,2)] assms(3) by (auto simp: seg_read_def rd_def)

lemma word_addr_no_wrap:
  "wf_message m \<Longrightarrow> seg < nsegs m \<Longrightarrow> word \<le> seg_words (msegs m ! seg) \<Longrightarrow>
   sz (word * WORD_BYTES) = word * 8"
  using wf_seg_words [of m seg] by (simp add: WORD_BYTES_def)

lemma read_word_in_bounds:
  assumes "wf_message m" "bounds_word m seg word = CAPNP_OK"
  shows "\<exists>w. read_word m seg word = Some w"
proof -
  from assms(2) have b: "seg < nsegs m" "word < seg_words (msegs m ! seg)"
    by (simp_all add: bounds_word_OK_iff)
  then have "\<exists>p. seg_read m seg (word * 8) 8 = Some p \<and> length p = 8"
    by (intro seg_read_in_bounds assms(1)) auto
  then show ?thesis
    using b word_addr_no_wrap [OF assms(1) b(1), of word] by (auto simp: read_word_def)
qed

section \<open>Resolution is memory safe and only spends budget\<close>

text \<open>\<open>pays m R\<close>: the step returned (no out-of-bounds access) and left the message as it was
  but for traversal budget it spent.\<close>

definition pays :: "message \<Rightarrow> ('r \<times> message \<times> 'p) option \<Rightarrow> bool" where
  "pays m R \<longleftrightarrow> (\<exists>r m' p k. R = Some (r, m', p) \<and> spends m k m')"

named_theorems pays_intros "introduction rules that follow the shape of a resolution step"

lemma pays_same [pays_intros]: "pays m (Some (r, m, p))"
  by (auto simp: pays_def intro: exI [of _ 0])

lemma pays_charge_out [pays_intros]: "pays m (Some (charge_out m n out))"
  by (cases rule: charge_cases [of m n])
    (auto simp: charge_out_def pays_def intro: exI [of _ 0])

lemma pays_trans: "spends m k m1 \<Longrightarrow> pays m1 R \<Longrightarrow> pays m R"
  by (auto simp: pays_def dest: spends_trans)

lemma pays_charge [pays_intros]:
  assumes "\<And>m1. charge m n = (CAPNP_OK, m1) \<Longrightarrow> spends m n m1 \<Longrightarrow> pays m1 (F m1)"
  shows "pays m (case charge m n of (r, m) \<Rightarrow> if r \<noteq> CAPNP_OK then Some (e, m, out) else F m)"
proof (cases rule: charge_cases [of m n])
  case (ok m1)
  with assms show ?thesis by (simp add: pays_trans)
next
  case fail
  then show ?thesis by (simp add: pays_same)
qed

lemma pays_read [pays_intros]:
  assumes "wf_message m" "bounds_word m s a = CAPNP_OK" "\<And>w. read_word m s a = Some w \<Longrightarrow> pays m (f w)"
  shows "pays m (read_word m s a \<bind> f)"
    and "pays m (case read_word m s a of None \<Rightarrow> None | Some w \<Rightarrow> f w)"
  using read_word_in_bounds [OF assms(1,2)] assms(3) by auto

lemma pays_if [pays_intros]:
  "(b \<Longrightarrow> pays m R) \<Longrightarrow> (\<not> b \<Longrightarrow> pays m S) \<Longrightarrow> pays m (if b then R else S)"
  by simp

lemma resolve_struct_pays: "pays m (Some (resolve_struct m seg word w out))"
  unfolding resolve_struct_def Let_def if_distrib [of Some] by (intro pays_intros)

lemma resolve_list_pays: "wf_message m \<Longrightarrow> pays m (resolve_list m seg word w out)"
  unfolding resolve_list_def Let_def
  by (intro pays_intros) (auto simp: spends_same split: option.split intro!: pays_intros)

lemma resolve_double_far_pays: "wf_message m \<Longrightarrow> pays m (resolve_double_far m tseg toff out)"
  unfolding resolve_double_far_def Let_def
  by (intro pays_intros) (auto simp: spends_same split: option.split intro!: pays_intros)

lemma resolve_word_pays: "wf_message m \<Longrightarrow> pays m (resolve_word m seg word w depth out)"
proof (induction m seg word w depth out rule: resolve_word.induct)
  case (1 m seg word w depth out)
  show ?case
    unfolding resolve_word.simps [of m] Let_def
    by (intro pays_intros resolve_struct_pays resolve_list_pays resolve_double_far_pays "1.prems")
      (use "1.prems" in \<open>auto simp: charge_OK_iff' spends_same intro!: "1.IH"\<close>)
qed

lemma resolve_ptr_pays: "wf_message m \<Longrightarrow> pays m (resolve_ptr m seg word depth out)"
  unfolding resolve_ptr_def
  by (intro pays_intros) (auto simp: spends_same intro!: resolve_word_pays)

section \<open>Where a resolved pointer points\<close>

text \<open>Size in words of the object a resolved pointer names, and whether it lies inside its
  segment. \<open>view_ok\<close> adds what the accessors rely on: the data section of a struct (also of
  an upgrade view, whose data starts inside a word) is inside its data words.\<close>

definition obj_words :: "ptr \<Rightarrow> nat" where
  "obj_words p =
     (case p_kind p of
        PK_STRUCT \<Rightarrow> p_dwords p + p_pwords p
      | PK_LIST \<Rightarrow>
          (if p_esize p = SZ_COMPOSITE then p_count p * p_step_words p
           else (case list_bits (p_esize p) (p_count p) of
                   None \<Rightarrow> 0 | Some bits \<Rightarrow> (bits + 63) div 64))
      | _ \<Rightarrow> 0)"

definition in_bounds :: "message \<Rightarrow> ptr \<Rightarrow> bool" where
  "in_bounds m p \<longleftrightarrow>
     obj_words p > 0 \<longrightarrow>
       p_seg p < nsegs m \<and> p_word p + obj_words p \<le> seg_words (msegs m ! p_seg p)"

text \<open>The pointer words whose target the bounds checks of \<open>resolve_word\<close> cover: no double-far
  landing pad on the way, and no primitive list that starts before its segment.\<close>

function plain_word :: "message \<Rightarrow> nat \<Rightarrow> u64 \<Rightarrow> int \<Rightarrow> bool" where
  "plain_word m word w depth =
     (if depth \<le> 0 \<or> w = 0 then True
      else if capnp_wp_kind w = CAPNP_WK_FAR then
        \<not> capnp_wp_far_two w \<and>
        (case read_word m (capnp_wp_far_seg w) (capnp_wp_far_off w) of
           None \<Rightarrow> True
         | Some land \<Rightarrow> plain_word m (capnp_wp_far_off w) land (depth - 1))
      else if capnp_wp_kind w = CAPNP_WK_LIST \<and> capnp_wp_list_esize w \<noteq> SZ_COMPOSITE
      then 0 \<le> int word + 1 + capnp_wp_offset w
      else True)"
  by pat_completeness auto
termination
  by (relation "measure (\<lambda>(m, word, w, depth). nat depth)") auto

declare plain_word.simps [simp del]

lemmas set_defs = set_null_def set_struct_def set_list_def set_composite_def set_cap_def

lemma set_list_sel [simp]:
  "p_seg (set_list s a es c out) = s" "p_word (set_list s a es c out) = a"
  "p_kind (set_list s a es c out) = PK_LIST" "p_esize (set_list s a es c out) = es"
  "p_count (set_list s a es c out) = c"
  "p_body_byte (set_list s a es c out) = p_body_byte out"
  "p_data_bits (set_list s a es c out) = p_data_bits out"
  by (simp_all add: set_list_def)

lemma set_struct_sel [simp]:
  "p_seg (set_struct s a dw pw out) = s" "p_word (set_struct s a dw pw out) = a"
  "p_kind (set_struct s a dw pw out) = PK_STRUCT" "p_dwords (set_struct s a dw pw out) = dw"
  "p_pwords (set_struct s a dw pw out) = pw"
  "p_body_byte (set_struct s a dw pw out) = p_body_byte out"
  "p_data_bits (set_struct s a dw pw out) = p_data_bits out"
  by (simp_all add: set_struct_def)

lemma set_null_sel [simp]:
  "p_seg (set_null s a out) = s" "p_kind (set_null s a out) = PK_NULL"
  by (simp_all add: set_null_def)

lemma set_composite_sel [simp]:
  "p_seg (set_composite a tag out) = p_seg out" "p_kind (set_composite a tag out) = p_kind out"
  "p_esize (set_composite a tag out) = p_esize out"
  "p_word (set_composite a tag out) = sz (a + 1)"
  "p_count (set_composite a tag out) = nat (capnp_wp_offset tag mod 2 ^ 32)"
  "p_dwords (set_composite a tag out) = capnp_wp_struct_dwords tag"
  "p_pwords (set_composite a tag out) = capnp_wp_struct_pwords tag"
  "p_step_words (set_composite a tag out) =
     capnp_wp_struct_dwords tag + capnp_wp_struct_pwords tag"
  by (simp_all add: set_composite_def)

lemma charge_out_OK:
  "charge_out m n out = (CAPNP_OK, m', p) \<longleftrightarrow> p = out \<and> spends m n m'"
  by (auto simp: charge_out_def split: prod.splits simp flip: charge_OK_iff)

lemma resolve_struct_in_bounds:
  assumes wf: "wf_message m" and res: "resolve_struct m seg word w out = (CAPNP_OK, m', p)"
  shows "in_bounds m p" "p_kind p = PK_STRUCT" "spends m (obj_words p) m'"
proof -
  let ?body = "size_t (int word + 1 + capnp_wp_offset w)"
  let ?dw = "capnp_wp_struct_dwords w" let ?pw = "capnp_wp_struct_pwords w"
  have ok: "?dw + ?pw = 0 \<or> bounds_word m seg ?body = CAPNP_OK \<and>
      (sz (?body + ?dw + ?pw) > 0 \<longrightarrow> bounds_word m seg (sz (?body + ?dw + ?pw) - 1) = CAPNP_OK)"
    and p: "p = set_struct seg ?body ?dw ?pw out" and sp: "spends m (?dw + ?pw) m'"
    using res by (auto simp: resolve_struct_def Let_def charge_out_OK split: if_splits)
  have ow: "obj_words p = ?dw + ?pw" by (simp add: p obj_words_def)
  show "spends m (obj_words p) m'" using sp ow by simp
  show "p_kind p = PK_STRUCT" by (simp add: p)
  show "in_bounds m p"
  proof (cases "?dw + ?pw = 0")
    case True
    then show ?thesis by (simp add: in_bounds_def ow)
  next
    case False
    with ok have b: "bounds_word m seg ?body = CAPNP_OK" by auto
    then have "?body < 2 ^ 60"
      using wf_seg_words [OF wf, of seg] by (simp add: bounds_word_OK_iff)
    moreover have "?dw < 2 ^ 16" "?pw < 2 ^ 16" by (rule wp_field_bounds)+
    ultimately have "sz (?body + ?dw + ?pw) = ?body + ?dw + ?pw" by (intro sz_id) simp
    with ok False have "bounds_word m seg (?body + ?dw + ?pw - 1) = CAPNP_OK" by auto
    with False show ?thesis
      unfolding in_bounds_def ow by (auto simp: bounds_word_OK_iff p)
  qed
qed


lemma size_t_plain:
  assumes "word < 2 ^ 60" "0 \<le> int word + 1 + capnp_wp_offset w"
  shows "size_t (int word + 1 + capnp_wp_offset w) < 2 ^ 61"
proof -
  have "int word < 2 ^ 60" using assms(1) by simp
  with wp_offset_bounds(2) [of w] have "int word + 1 + capnp_wp_offset w < 2 ^ 61" by simp
  with assms(2) show ?thesis by (simp add: size_t_nonneg nat_less_iff)
qed

lemma list_bits_bound: "list_bits es cnt = Some b \<Longrightarrow> b \<le> cnt * 64"
  by (auto simp: list_bits_def split: if_splits)

lemma resolve_list_prim_in_bounds:
  assumes wf: "wf_message m" and w60: "word < 2 ^ 60"
    and start0: "0 \<le> int word + 1 + capnp_wp_offset w"
    and prim: "capnp_wp_list_esize w \<noteq> SZ_COMPOSITE"
    and res: "resolve_list m seg word w out = Some (CAPNP_OK, m', p)"
  shows "in_bounds m p" "p_kind p = PK_LIST" "spends m (obj_words p) m'"
proof -
  let ?start = "size_t (int word + 1 + capnp_wp_offset w)"
  let ?es = "capnp_wp_list_esize w" let ?cnt = "capnp_wp_list_count w"
  obtain bits where bits: "list_bits ?es ?cnt = Some bits"
    and ok: "(bits + 63) div 64 = 0 \<or>
        bounds_word m seg (sz (?start + (bits + 63) div 64 - 1)) = CAPNP_OK"
    and p: "p = set_list seg ?start ?es ?cnt out" and sp: "spends m ((bits + 63) div 64) m'"
    using res prim
    by (auto simp: resolve_list_def Let_def charge_out_OK
        split: if_splits option.splits)
  have ow: "obj_words p = (bits + 63) div 64"
    using prim bits by (simp add: p obj_words_def)
  show "spends m (obj_words p) m'" using sp ow by simp
  show "p_kind p = PK_LIST" by (simp add: p)
  have "?cnt < 2 ^ 29" by (rule wp_field_bounds)
  with list_bits_bound [OF bits] have "(bits + 63) div 64 \<le> 2 ^ 29" by simp
  with size_t_plain [OF w60 start0] have "?start + (bits + 63) div 64 - 1 < 2 ^ 64" by simp
  then have "sz (?start + (bits + 63) div 64 - 1) = ?start + (bits + 63) div 64 - 1"
    by (rule sz_id)
  with ok show "in_bounds m p"
    unfolding in_bounds_def ow by (auto simp: bounds_word_OK_iff p)
qed

lemma mod_2_32_bound: "nat (i mod 2 ^ 32) < 2 ^ 32"
  by (simp add: nat_less_iff)

lemma resolve_list_composite_in_bounds:
  assumes wf: "wf_message m" and comp: "capnp_wp_list_esize w = SZ_COMPOSITE"
    and res: "resolve_list m seg word w out = Some (CAPNP_OK, m', p)"
  shows "in_bounds m p" "p_kind p = PK_LIST" "p_step_words p = p_dwords p + p_pwords p"
    "spends m (obj_words p + 1) m'"
proof -
  let ?start = "size_t (int word + 1 + capnp_wp_offset w)"
  let ?out = "set_list seg ?start SZ_COMPOSITE (capnp_wp_list_count w) out"
  have b: "bounds_word m seg ?start = CAPNP_OK"
    using res comp by (auto simp: resolve_list_def Let_def split: if_splits)
  obtain m1 where c: "charge m 1 = (CAPNP_OK, m1)" and sp1: "spends m 1 m1"
    using res comp b
    by (cases rule: charge_cases [of m 1]) (auto simp: resolve_list_def Let_def)
  obtain tag where tag: "read_word m seg ?start = Some tag"
    using read_word_in_bounds [OF wf b] by blast
  define q where "q = set_composite ?start tag ?out"
  have "resolve_list m seg word w out =
      (if p_count q * p_step_words q \<noteq> 0 \<and>
          bounds_word m seg (sz (p_word q + p_count q * p_step_words q - 1)) \<noteq> CAPNP_OK
       then Some (CAPNP_ERR_BOUNDS, m1, q)
       else Some (charge_out m1 (p_count q * p_step_words q) q))"
    using comp b c tag spends_same(1,3) [OF sp1]
    by (simp add: resolve_list_def Let_def q_def)
  with res have p: "p = q" and ok: "p_count p * p_step_words p = 0 \<or>
       bounds_word m seg (sz (p_word p + p_count p * p_step_words p - 1)) = CAPNP_OK"
    and sp: "spends m1 (p_count p * p_step_words p) m'"
    by (auto simp: charge_out_OK split: if_splits)
  note p = p [unfolded q_def]
  show "p_kind p = PK_LIST" "p_step_words p = p_dwords p + p_pwords p"
    by (simp_all add: p)
  have ow: "obj_words p = p_count p * p_step_words p"
    by (simp add: p obj_words_def)
  show "spends m (obj_words p + 1) m'" using spends_trans [OF sp1 sp] ow by (simp add: add.commute)
  have s60: "?start < 2 ^ 60" using b wf_seg_words [OF wf, of seg] by (simp add: bounds_word_OK_iff)
  then have pw: "p_word p = ?start + 1" by (simp add: p)
  have "p_count p \<le> 2 ^ 32" using mod_2_32_bound by (simp add: p less_imp_le)
  moreover have "p_step_words p \<le> 2 ^ 17"
    using wp_field_bounds(2,3) [of tag] by (simp add: p)
  ultimately have "p_count p * p_step_words p \<le> 2 ^ 32 * 2 ^ 17" by (rule mult_le_mono)
  with s60 pw have "p_word p + p_count p * p_step_words p - 1 < 2 ^ 64" by simp
  then have "sz (p_word p + p_count p * p_step_words p - 1) = p_word p + p_count p * p_step_words p - 1"
    by (rule sz_id)
  with ok show "in_bounds m p"
    using pw by (auto simp: in_bounds_def ow bounds_word_OK_iff) (simp_all add: p)
qed


text \<open>The main lemma: a successful resolution of a plain word is in bounds, and it has paid at
  least the size of the object it names.\<close>

definition well_placed :: "message \<Rightarrow> ptr \<Rightarrow> bool" where
  "well_placed m p \<longleftrightarrow>
     in_bounds m p \<and> p_body_byte p = 0 \<and> p_data_bits p = 0 \<and>
     (p_kind p = PK_LIST \<and> p_esize p = SZ_COMPOSITE \<longrightarrow> p_step_words p = p_dwords p + p_pwords p)"

lemma set_views [simp]:
  "p_body_byte (set_null s a out) = p_body_byte out" "p_data_bits (set_null s a out) = p_data_bits out"
  "p_body_byte (set_cap s a w out) = p_body_byte out" "p_data_bits (set_cap s a w out) = p_data_bits out"
  "p_body_byte (set_composite a t out) = p_body_byte out"
  "p_data_bits (set_composite a t out) = p_data_bits out"
  "p_kind (set_cap s a w out) = PK_CAP"
  by (simp_all add: set_defs)

lemma obj_words_other [simp]: "p_kind p = PK_NULL \<Longrightarrow> obj_words p = 0" "p_kind p = PK_CAP \<Longrightarrow> obj_words p = 0"
  by (simp_all add: obj_words_def)

lemma resolve_struct_well_placed:
  assumes "wf_message m" "p_body_byte out = 0" "p_data_bits out = 0"
    and "resolve_struct m seg word w out = (CAPNP_OK, m', p)"
  shows "well_placed m p" "spends m (obj_words p) m'"
proof -
  note r = resolve_struct_in_bounds [OF assms(1,4)]
  have "p_body_byte p = 0 \<and> p_data_bits p = 0"
    using assms(2-4) by (auto simp: resolve_struct_def Let_def charge_out_OK split: if_splits)
  with r show "well_placed m p" "spends m (obj_words p) m'" by (simp_all add: well_placed_def)
qed

lemma resolve_list_views:
  assumes "wf_message m" "resolve_list m seg word w out = Some (CAPNP_OK, m', p)"
  shows "p_body_byte p = p_body_byte out" "p_data_bits p = p_data_bits out"
  using assms(2)
  by (auto simp: resolve_list_def Let_def charge_out_OK
      split: if_splits prod.splits option.splits bind_splits)

lemma resolve_list_well_placed:
  assumes "wf_message m" "p_body_byte out = 0" "p_data_bits out = 0" "word < 2 ^ 60"
    and "capnp_wp_list_esize w \<noteq> SZ_COMPOSITE \<longrightarrow> 0 \<le> int word + 1 + capnp_wp_offset w"
    and "resolve_list m seg word w out = Some (CAPNP_OK, m', p)"
  shows "well_placed m p \<and> (\<exists>k. obj_words p \<le> k \<and> spends m k m')"
proof (cases "capnp_wp_list_esize w = SZ_COMPOSITE")
  case True
  note r = resolve_list_composite_in_bounds [OF assms(1) True assms(6)]
  have "well_placed m p"
    using r resolve_list_views [OF assms(1,6)] assms(2,3) by (simp add: well_placed_def)
  with r(4) show ?thesis by (intro conjI exI [of _ "obj_words p + 1"]) simp_all
next
  case False
  with assms(5) have "0 \<le> int word + 1 + capnp_wp_offset w" by simp
  note r = resolve_list_prim_in_bounds [OF assms(1,4) this False assms(6)]
  have "p_esize p \<noteq> SZ_COMPOSITE"
    using assms(6) False
    by (auto simp: resolve_list_def Let_def charge_out_OK split: if_splits option.splits)
  with r have "well_placed m p"
    using resolve_list_views [OF assms(1,6)] assms(2,3) by (simp add: well_placed_def)
  with r(3) show ?thesis by auto
qed

lemma update_traversal_in_bounds [simp]:
  "in_bounds (m\<lparr>traversal_left := t\<rparr>) p = in_bounds m p"
  "well_placed (m\<lparr>traversal_left := t\<rparr>) p = well_placed m p"
  by (simp_all add: in_bounds_def well_placed_def)

lemma update_traversal_plain_word [simp]:
  "plain_word (m\<lparr>traversal_left := t\<rparr>) word w depth = plain_word m word w depth"
proof (induction m word w depth rule: plain_word.induct)
  case (1 m word w depth)
  show ?case
  proof (cases "depth > 0 \<and> w \<noteq> 0 \<and> capnp_wp_kind w = CAPNP_WK_FAR")
    case True
    then show ?thesis
      by (subst (1 2) plain_word.simps) (auto simp: "1.IH" split: option.split)
  next
    case False
    then show ?thesis by (subst (1 2) plain_word.simps) auto
  qed
qed

lemma resolve_word_plain:
  "\<lbrakk>wf_message m; word < 2 ^ 60; plain_word m word w depth;
    resolve_word m seg word w depth out = Some (CAPNP_OK, m', p)\<rbrakk> \<Longrightarrow>
   well_placed m p \<and> (\<exists>k. obj_words p \<le> k \<and> spends m k m')"
proof (induction m seg word w depth out rule: resolve_word.induct)
  case (1 m seg word w depth out)
  note wf = "1.prems"(1) and w60 = "1.prems"(2) and plain = "1.prems"(3)
  define out' where "out' = out\<lparr>p_body_byte := 0, p_data_bits := 0\<rparr>"
  have o: "p_body_byte out' = 0" "p_data_bits out' = 0" by (simp_all add: out'_def)
  note res = "1.prems"(4) [unfolded resolve_word.simps [of m seg word w depth out] Let_def out'_def [symmetric]]
  note pl = plain [unfolded plain_word.simps [of m word w depth]]
  have d: "\<not> depth \<le> 0" using res by (auto split: if_splits)
  consider "w = 0" | "w \<noteq> 0" "capnp_wp_kind w = CAPNP_WK_FAR"
    | "w \<noteq> 0" "capnp_wp_kind w = CAPNP_WK_STRUCT" | "w \<noteq> 0" "capnp_wp_kind w = CAPNP_WK_LIST"
    | "w \<noteq> 0" "capnp_wp_kind w = CAPNP_WK_CAP"
    using wp_kind_cases [of w] by blast
  then show ?case
  proof cases
    case 2
    let ?s = "capnp_wp_far_seg w" and ?o = "capnp_wp_far_off w"
    have nt: "\<not> capnp_wp_far_two w" using pl d 2 by simp
    have b: "bounds_word m ?s ?o = CAPNP_OK" using res d 2 nt by (auto split: if_splits)
    obtain land where land: "read_word m ?s ?o = Some land"
      using read_word_in_bounds [OF wf b] by blast
    obtain m1 where c: "charge m 1 = (CAPNP_OK, m1)" and sp: "spends m 1 m1"
      using res d 2 nt b by (cases rule: charge_cases [of m 1]) auto
    have m1: "m1 = m\<lparr>traversal_left := traversal_left m - 1\<rparr>" using sp by (simp add: spends_def)
    have "resolve_word m1 ?s ?o land (depth - 1) out' = Some (CAPNP_OK, m', p)"
      using res d 2 nt b c land by (simp add: m1)
    moreover have "plain_word m1 ?o land (depth - 1)"
      using pl d 2 land by (simp add: m1)
    moreover have "?o < 2 ^ 60" using wp_field_bounds(6) [of w] by simp
    moreover have "wf_message m1" "read_word m1 ?s ?o = Some land"
      using wf land spends_same [OF sp] by simp_all
    ultimately have "well_placed m1 p \<and> (\<exists>k. obj_words p \<le> k \<and> spends m1 k m')"
      using d 2 nt b c by - (rule "1.IH" [OF out'_def], simp_all)
    then obtain k where "well_placed m p" "obj_words p \<le> k" "spends m1 k m'"
      by (auto simp: m1)
    then show ?thesis
      using spends_trans [OF sp, of k m'] by (intro conjI exI [of _ "1 + k"]) auto
  next
    case 3
    have "resolve_struct m seg word w out' = (CAPNP_OK, m', p)"
      using res d 3 by (simp add: kind_defs)
    from resolve_struct_well_placed [OF wf o this] show ?thesis by auto
  next
    case 4
    have "resolve_list m seg word w out' = Some (CAPNP_OK, m', p)"
      using res d 4 by (simp add: kind_defs)
    moreover have "capnp_wp_list_esize w \<noteq> SZ_COMPOSITE \<longrightarrow> 0 \<le> int word + 1 + capnp_wp_offset w"
      using pl d 4 by (auto simp: kind_defs)
    ultimately show ?thesis by (intro resolve_list_well_placed [OF wf o w60])
  qed (use res d o in \<open>auto simp: well_placed_def in_bounds_def kind_defs intro: exI [of _ 0]\<close>)
qed

end
