(* ===== verification/Reader.thy ===== *)
theory Reader
  imports Message
begin

text \<open>
  The public accessors of \<open>src/capnp_message.c\<close>: the root and pointer fields, the data
  section readers with their schema defaults, text and data, list elements with the
  schema-evolution upgrade and downgrade views, and the copy into a framed buffer.
  \<open>float\<close> and \<open>double\<close> values are their 32 and 64 bit patterns (the code moves them with
  \<open>memcpy\<close>), so the \<open>f32\<close> and \<open>f64\<close> readers are readers of bit patterns.
\<close>

section \<open>Root and pointer fields\<close>

definition capnp_root :: "message \<Rightarrow> ptr \<Rightarrow> (rc \<times> message \<times> ptr) option" where
  "capnp_root m out =
     (if nsegs m = 0 then Some (CAPNP_ERR_ARG, m, out)
      else resolve_ptr m 0 0 (depth_limit m) out)"

definition capnp_getp :: "message \<Rightarrow> ptr \<Rightarrow> nat \<Rightarrow> ptr \<Rightarrow> (rc \<times> message \<times> ptr) option" where
  "capnp_getp m s ptr_index out =
     (if p_kind s \<noteq> PK_STRUCT then Some (CAPNP_ERR_KIND, m, out)
      else if ptr_index \<ge> p_pwords s
      then Some (CAPNP_OK, m,
             (set_null (p_seg s) 0 out)\<lparr>p_body_byte := 0, p_data_bits := 0\<rparr>)
      else resolve_ptr m (p_seg s) (sz (p_word s + p_dwords s + ptr_index)) (depth_limit m) out)"

section \<open>Data section\<close>

definition data_bit_count :: "ptr \<Rightarrow> nat" where
  "data_bit_count s = (if p_data_bits s \<noteq> 0 then p_data_bits s else p_dwords s * 64)"

text \<open>Byte address of the data section inside segment \<open>p_seg s\<close>.\<close>

definition data_bytes :: "ptr \<Rightarrow> nat" where
  "data_bytes s = sz (p_word s * WORD_BYTES) + p_body_byte s"

definition data_has_bytes :: "ptr \<Rightarrow> nat \<Rightarrow> nat \<Rightarrow> bool" where
  "data_has_bytes s byte_offset width =
     (if p_kind s \<noteq> PK_STRUCT then False
      else let bytes = data_bit_count s div 8
           in byte_offset \<le> bytes \<and> width \<le> bytes - byte_offset)"

definition capnp_get_u8 :: "message \<Rightarrow> ptr \<Rightarrow> nat \<Rightarrow> byte \<Rightarrow> byte option" where
  "capnp_get_u8 m s byte_offset dflt =
     (if \<not> data_has_bytes s byte_offset 1 then Some dflt
      else map_option hd (seg_read m (p_seg s) (data_bytes s + byte_offset) 1))"

definition capnp_get_u16 :: "message \<Rightarrow> ptr \<Rightarrow> nat \<Rightarrow> u16 \<Rightarrow> u16 option" where
  "capnp_get_u16 m s byte_offset dflt =
     (if \<not> data_has_bytes s byte_offset 2 then Some dflt
      else map_option capnp_load_le16 (seg_read m (p_seg s) (data_bytes s + byte_offset) 2))"

definition capnp_get_u32 :: "message \<Rightarrow> ptr \<Rightarrow> nat \<Rightarrow> u32 \<Rightarrow> u32 option" where
  "capnp_get_u32 m s byte_offset dflt =
     (if \<not> data_has_bytes s byte_offset 4 then Some dflt
      else map_option capnp_load_le32 (seg_read m (p_seg s) (data_bytes s + byte_offset) 4))"

definition capnp_get_u64 :: "message \<Rightarrow> ptr \<Rightarrow> nat \<Rightarrow> u64 \<Rightarrow> u64 option" where
  "capnp_get_u64 m s byte_offset dflt =
     (if \<not> data_has_bytes s byte_offset 8 then Some dflt
      else map_option capnp_load_le64 (seg_read m (p_seg s) (data_bytes s + byte_offset) 8))"

definition capnp_get_f32 :: "message \<Rightarrow> ptr \<Rightarrow> nat \<Rightarrow> u32 \<Rightarrow> u32 option" where
  "capnp_get_f32 m s byte_offset dflt =
     (if \<not> data_has_bytes s byte_offset 4 then Some dflt
      else map_option capnp_load_le32 (seg_read m (p_seg s) (data_bytes s + byte_offset) 4))"

definition capnp_get_f64 :: "message \<Rightarrow> ptr \<Rightarrow> nat \<Rightarrow> u64 \<Rightarrow> u64 option" where
  "capnp_get_f64 m s byte_offset dflt =
     (if \<not> data_has_bytes s byte_offset 8 then Some dflt
      else map_option capnp_load_le64 (seg_read m (p_seg s) (data_bytes s + byte_offset) 8))"

text \<open>The mask \<open>(uint8_t)(1u << (i % 8))\<close> of bit \<open>i\<close> in its byte.\<close>

definition bit_mask :: "nat \<Rightarrow> byte" where
  "bit_mask i = push_bit (i mod 8) 1"

definition capnp_get_bool :: "message \<Rightarrow> ptr \<Rightarrow> nat \<Rightarrow> int \<Rightarrow> int option" where
  "capnp_get_bool m s bit_offset dflt =
     (if p_kind s \<noteq> PK_STRUCT then Some dflt
      else if bit_offset \<ge> data_bit_count s then Some dflt
      else map_option (\<lambda>p. of_bool (hd p AND bit_mask bit_offset \<noteq> 0))
             (seg_read m (p_seg s) (data_bytes s + bit_offset div 8) 1))"

section \<open>Text and data\<close>

text \<open>
  What the code stores through \<open>out\<close> and \<open>len\<close>: nothing on an error (\<open>Unset\<close>), the literal
  \<open>""\<close>, \<open>NULL\<close>, or \<open>len\<close> bytes at a byte address of a segment.
\<close>

datatype byte_ref = Unset | EmptyLit | NullRef | BytesAt nat nat nat

definition ref_bytes :: "message \<Rightarrow> byte_ref \<Rightarrow> byte list option" where
  "ref_bytes m r =
     (case r of BytesAt seg a n \<Rightarrow> seg_read m seg a n | _ \<Rightarrow> Some [])"

text \<open>\<open>p = data + word * 8; n = count; if (n > 0 && p[n - 1] == 0) n -= 1\<close>.\<close>

definition text_at :: "message \<Rightarrow> ptr \<Rightarrow> byte_ref option" where
  "text_at m list =
     (let a = sz (p_word list * WORD_BYTES); n = p_count list in
      if n > 0 then do {
        q \<leftarrow> seg_read m (p_seg list) (a + (n - 1)) 1;
        Some (BytesAt (p_seg list) a (if hd q = 0 then n - 1 else n)) }
      else Some (BytesAt (p_seg list) a n))"

definition capnp_get_text :: "message \<Rightarrow> ptr \<Rightarrow> nat \<Rightarrow> (rc \<times> message \<times> byte_ref) option" where
  "capnp_get_text m s ptr_index =
     do {
       (r, m, list) \<leftarrow> capnp_getp m s ptr_index ptr0;
       if r \<noteq> CAPNP_OK then Some (r, m, Unset)
       else if p_kind list = PK_NULL then Some (CAPNP_OK, m, EmptyLit)
       else if p_kind list \<noteq> PK_LIST \<or> p_esize list \<noteq> SZ_BYTE
       then Some (CAPNP_ERR_KIND, m, Unset)
       else if p_count list = 0 then Some (CAPNP_OK, m, EmptyLit)
       else do { t \<leftarrow> text_at m list; Some (CAPNP_OK, m, t) } }"

definition capnp_get_data :: "message \<Rightarrow> ptr \<Rightarrow> nat \<Rightarrow> (rc \<times> message \<times> byte_ref) option" where
  "capnp_get_data m s ptr_index =
     do {
       (r, m, list) \<leftarrow> capnp_getp m s ptr_index ptr0;
       if r \<noteq> CAPNP_OK then Some (r, m, Unset)
       else if p_kind list = PK_NULL then Some (CAPNP_OK, m, NullRef)
       else if p_kind list \<noteq> PK_LIST \<or> p_esize list \<noteq> SZ_BYTE
       then Some (CAPNP_ERR_KIND, m, Unset)
       else Some (CAPNP_OK, m,
              BytesAt (p_seg list) (sz (p_word list * WORD_BYTES)) (p_count list)) }"

section \<open>Lists\<close>

definition capnp_list_len :: "ptr \<Rightarrow> nat" where
  "capnp_list_len list = (if p_kind list \<noteq> PK_LIST then 0 else p_count list)"

definition capnp_list_getp ::
    "message \<Rightarrow> ptr \<Rightarrow> nat \<Rightarrow> ptr \<Rightarrow> (rc \<times> message \<times> ptr) option" where
  "capnp_list_getp m list index out =
     (if p_kind list \<noteq> PK_LIST then Some (CAPNP_ERR_KIND, m, out)
      else if index \<ge> p_count list then Some (CAPNP_ERR_BOUNDS, m, out)
      else if p_esize list = SZ_PTR
      then resolve_ptr m (p_seg list) (sz (p_word list + index)) (depth_limit m) out
      else if p_esize list = SZ_COMPOSITE
      then Some (CAPNP_OK, m,
             (set_struct (p_seg list) (sz (p_word list + index * p_step_words list))
                (p_dwords list) (p_pwords list) out)\<lparr>p_body_byte := 0, p_data_bits := 0\<rparr>)
      else Some (CAPNP_ERR_KIND, m, out))"

definition capnp_list_get_text ::
    "message \<Rightarrow> ptr \<Rightarrow> nat \<Rightarrow> (rc \<times> message \<times> byte_ref) option" where
  "capnp_list_get_text m list index =
     (if p_kind list \<noteq> PK_LIST then Some (CAPNP_ERR_KIND, m, Unset)
      else if p_esize list = SZ_PTR then do {
        (r, m, elem) \<leftarrow> capnp_list_getp m list index ptr0;
        if r \<noteq> CAPNP_OK then Some (r, m, Unset)
        else if p_kind elem = PK_NULL then Some (CAPNP_OK, m, EmptyLit)
        else if p_kind elem = PK_LIST \<and> p_esize elem = SZ_BYTE
        then do { t \<leftarrow> text_at m elem; Some (CAPNP_OK, m, t) }
        else Some (CAPNP_ERR_KIND, m, Unset) }
      else if p_esize list = SZ_COMPOSITE then do {
        (r, m, elem) \<leftarrow> capnp_list_getp m list index ptr0;
        if r \<noteq> CAPNP_OK then Some (r, m, Unset)
        else if p_kind elem \<noteq> PK_STRUCT then Some (CAPNP_ERR_KIND, m, Unset)
        else capnp_get_text m elem 0 }
      else Some (CAPNP_ERR_KIND, m, Unset))"

text \<open>Byte addresses of element \<open>index\<close> of a primitive list and of a composite list.\<close>

definition list_elem_bytes :: "ptr \<Rightarrow> nat \<Rightarrow> nat \<Rightarrow> nat" where
  "list_elem_bytes list index elem_bytes = sz (p_word list * WORD_BYTES) + index * elem_bytes"

definition composite_elem_data :: "ptr \<Rightarrow> nat \<Rightarrow> nat" where
  "composite_elem_data list index =
     sz ((p_word list + index * p_step_words list) * WORD_BYTES)"

text \<open>
  The common shape of the typed element readers: the default outside the list, the element
  of a primitive list of the right width, the first data word of a composite element
  (downgrade to field 0), the default otherwise.
\<close>

definition list_elem_addr :: "ptr \<Rightarrow> nat \<Rightarrow> nat \<Rightarrow> nat \<Rightarrow> nat option" where
  "list_elem_addr list index es width =
     (if p_kind list \<noteq> PK_LIST \<or> index \<ge> p_count list then None
      else if p_esize list = es then Some (list_elem_bytes list index width)
      else if p_esize list = SZ_COMPOSITE \<and> p_dwords list \<ge> 1
      then Some (composite_elem_data list index)
      else None)"

definition capnp_list_get_u8 :: "message \<Rightarrow> ptr \<Rightarrow> nat \<Rightarrow> byte \<Rightarrow> byte option" where
  "capnp_list_get_u8 m list index dflt =
     (case list_elem_addr list index SZ_BYTE 1 of
        None \<Rightarrow> Some dflt
      | Some a \<Rightarrow> map_option hd (seg_read m (p_seg list) a 1))"

definition capnp_list_get_u16 :: "message \<Rightarrow> ptr \<Rightarrow> nat \<Rightarrow> u16 \<Rightarrow> u16 option" where
  "capnp_list_get_u16 m list index dflt =
     (case list_elem_addr list index SZ_TWO 2 of
        None \<Rightarrow> Some dflt
      | Some a \<Rightarrow> map_option capnp_load_le16 (seg_read m (p_seg list) a 2))"

definition capnp_list_get_u32 :: "message \<Rightarrow> ptr \<Rightarrow> nat \<Rightarrow> u32 \<Rightarrow> u32 option" where
  "capnp_list_get_u32 m list index dflt =
     (case list_elem_addr list index SZ_FOUR 4 of
        None \<Rightarrow> Some dflt
      | Some a \<Rightarrow> map_option capnp_load_le32 (seg_read m (p_seg list) a 4))"

definition capnp_list_get_u64 :: "message \<Rightarrow> ptr \<Rightarrow> nat \<Rightarrow> u64 \<Rightarrow> u64 option" where
  "capnp_list_get_u64 m list index dflt =
     (case list_elem_addr list index SZ_EIGHT 8 of
        None \<Rightarrow> Some dflt
      | Some a \<Rightarrow> map_option capnp_load_le64 (seg_read m (p_seg list) a 8))"

definition capnp_list_get_f32 :: "message \<Rightarrow> ptr \<Rightarrow> nat \<Rightarrow> u32 \<Rightarrow> u32 option" where
  "capnp_list_get_f32 m list index dflt =
     (case list_elem_addr list index SZ_FOUR 4 of
        None \<Rightarrow> Some dflt
      | Some a \<Rightarrow> map_option capnp_load_le32 (seg_read m (p_seg list) a 4))"

definition capnp_list_get_f64 :: "message \<Rightarrow> ptr \<Rightarrow> nat \<Rightarrow> u64 \<Rightarrow> u64 option" where
  "capnp_list_get_f64 m list index dflt =
     (case list_elem_addr list index SZ_EIGHT 8 of
        None \<Rightarrow> Some dflt
      | Some a \<Rightarrow> map_option capnp_load_le64 (seg_read m (p_seg list) a 8))"

definition capnp_list_get_bool :: "message \<Rightarrow> ptr \<Rightarrow> nat \<Rightarrow> int \<Rightarrow> int option" where
  "capnp_list_get_bool m list index dflt =
     (if p_kind list \<noteq> PK_LIST \<or> p_esize list \<noteq> SZ_BIT \<or> index \<ge> p_count list then Some dflt
      else map_option (\<lambda>p. of_bool (hd p AND bit_mask index \<noteq> 0))
             (seg_read m (p_seg list) (sz (p_word list * WORD_BYTES) + index div 8) 1))"

text \<open>Width in bytes of a primitive element that can be upgraded to a struct.\<close>

definition prim_elem_bytes :: "nat \<Rightarrow> nat option" where
  "prim_elem_bytes es =
     (if es = SZ_BYTE then Some 1 else if es = SZ_TWO then Some 2
      else if es = SZ_FOUR then Some 4 else if es = SZ_EIGHT then Some 8 else None)"

definition capnp_list_get_struct :: "ptr \<Rightarrow> nat \<Rightarrow> ptr \<Rightarrow> rc \<times> ptr" where
  "capnp_list_get_struct list index out =
     (if p_kind list \<noteq> PK_LIST then (CAPNP_ERR_KIND, out)
      else if index \<ge> p_count list then (CAPNP_ERR_BOUNDS, out)
      else
        let out = out\<lparr>p_seg := p_seg list, p_esize := 0, p_count := 0, p_step_words := 0,
                      p_body_byte := 0, p_data_bits := 0\<rparr> in
        if p_esize list = SZ_COMPOSITE then
          (CAPNP_OK, out\<lparr>p_kind := PK_STRUCT,
             p_word := sz (p_word list + index * p_step_words list),
             p_dwords := p_dwords list, p_pwords := p_pwords list\<rparr>)
        else if p_esize list = SZ_PTR then
          (CAPNP_OK, out\<lparr>p_kind := PK_STRUCT, p_word := sz (p_word list + index),
             p_dwords := 0, p_pwords := 1\<rparr>)
        else (case prim_elem_bytes (p_esize list) of
            None \<Rightarrow> (CAPNP_ERR_KIND, out)
          | Some elem_bytes \<Rightarrow>
              let abs_byte = sz (p_word list * WORD_BYTES + index * elem_bytes) in
              (CAPNP_OK, out\<lparr>p_kind := PK_STRUCT, p_word := abs_byte div WORD_BYTES,
                 p_body_byte := abs_byte mod WORD_BYTES, p_dwords := 1, p_pwords := 0,
                 p_data_bits := elem_bytes * 8\<rparr>)))"

section \<open>Copy into one framed buffer\<close>

text \<open>The three loops of \<open>capnp_message_copy_flat\<close>, as writes into the \<open>malloc\<close>ed buffer.\<close>

fun write_sizes :: "byte list \<Rightarrow> nat \<Rightarrow> nat list \<Rightarrow> byte list option" where
  "write_sizes buf i [] = Some buf"
| "write_sizes buf i (w # ws) =
     do { buf \<leftarrow> wr buf (4 + 4 * i) (capnp_store_le32 (word_of_nat w));
          write_sizes buf (i + 1) ws }"

fun copy_bodies :: "byte list \<Rightarrow> nat \<Rightarrow> segment list \<Rightarrow> byte list option" where
  "copy_bodies buf off [] = Some buf"
| "copy_bodies buf off (s # ss) =
     (case seg_data s of
        None \<Rightarrow> None
      | Some d \<Rightarrow> do {
          src \<leftarrow> rd d 0 (seg_words s * WORD_BYTES);
          buf \<leftarrow> wr buf off src;
          copy_bodies buf (off + seg_words s * WORD_BYTES) ss })"

definition capnp_message_copy_flat :: "allocator \<Rightarrow> message \<Rightarrow> (rc \<times> byte list) option" where
  "capnp_message_copy_flat A m =
     (if nsegs m = 0 then Some (CAPNP_ERR_ARG, [])
      else
        let ss = take (nsegs m) (msegs m);
            table_bytes = table_size (nsegs m);
            total = table_bytes + sum_list (map seg_words ss) * WORD_BYTES
        in case c_malloc A total of
             None \<Rightarrow> Some (CAPNP_ERR_ALLOC, [])
           | Some buf \<Rightarrow> do {
               buf \<leftarrow> wr buf 0 (capnp_store_le32 (word_of_nat (nsegs m - 1)));
               buf \<leftarrow> write_sizes buf 0 (map seg_words ss);
               buf \<leftarrow> (if table_bytes > 4 + 4 * nsegs m
                       then wr buf (4 + 4 * nsegs m)
                              (replicate (table_bytes - (4 + 4 * nsegs m)) 0)
                       else Some buf);
               buf \<leftarrow> copy_bodies buf table_bytes ss;
               Some (CAPNP_OK, buf) })"

end
