(* ===== verification/Framing.thy ===== *)
theory Framing
  imports Reader
begin

text \<open>
  Correctness of stream framing. The abstract specification is \<open>frame\<close>: the bytes of a list
  of segment bodies in the stream format (count minus one, sizes in words, padding, bodies).
  \<open>parse_flat\<close> is memory safe on any input, accepts exactly the inputs whose table and
  bodies fit, and inverts \<open>frame\<close>; \<open>capnp_message_copy_flat\<close> computes \<open>frame\<close>.
\<close>

section \<open>The frame of a list of segment bodies\<close>

definition frame :: "byte list list \<Rightarrow> byte list" where
  "frame bodies =
     capnp_store_le32 (word_of_nat (length bodies - 1)) @
     concat (map (\<lambda>b. capnp_store_le32 (word_of_nat (length b div 8))) bodies) @
     replicate (table_size (length bodies) - (4 + 4 * length bodies)) 0 @
     concat bodies"

definition frame_bodies :: "byte list list \<Rightarrow> bool" where
  "frame_bodies bodies \<longleftrightarrow> 0 < length bodies \<and> length bodies \<le> MAX_SEGMENTS \<and>
     list_all (\<lambda>b. length b mod 8 = 0 \<and> length b div 8 < 2 ^ 32) bodies"

lemma table_size_bounds: "4 + 4 * n \<le> table_size n" "table_size n \<le> 8 + 4 * n" "8 \<le> table_size (Suc n)"
  by (auto simp: table_size_def Let_def)

lemma table_size_aligned: "table_size n mod 8 = 0"
  unfolding table_size_def Let_def by presburger

section \<open>The loops of \<open>parse_flat\<close>\<close>

lemma read_sizes_Some:
  "4 + 4 * (i + k) \<le> length data \<Longrightarrow>
   read_sizes data i k =
     Some (map (\<lambda>j. unat (capnp_load_le32 (take 4 (drop (4 + 4 * j) data)))) [i..<i + k])"
proof (induction k arbitrary: i)
  case (Suc k)
  then have "read_sizes data (i + 1) k =
      Some (map (\<lambda>j. unat (capnp_load_le32 (take 4 (drop (4 + 4 * j) data)))) [i + 1..<i + 1 + k])"
    by (intro Suc.IH) simp
  moreover have "[i..<i + Suc k] = i # [i + 1..<i + 1 + k]"
    by (simp add: upt_conv_Cons)
  ultimately show ?case using Suc.prems by (simp add: rd_def)
qed simp

lemma read_sizes_bound:
  "read_sizes data i k = Some ws \<Longrightarrow> length ws = k \<and> (\<forall>w \<in> set ws. w < 2 ^ 32)"
proof (induction k arbitrary: i ws)
  case (Suc k)
  then show ?case using unat_u32_less by (fastforce split: bind_splits)
qed simp

lemma attach_bodies_fields [simp]:
  "nsegs (attach_bodies m base off i ws) = nsegs m"
  "owned (attach_bodies m base off i ws) = owned m"
  "owned_len (attach_bodies m base off i ws) = owned_len m"
  "traversal_left (attach_bodies m base off i ws) = traversal_left m"
  "depth_limit (attach_bodies m base off i ws) = depth_limit m"
  "length (msegs (attach_bodies m base off i ws)) = length (msegs m)"
  by (induction m base off i ws rule: attach_bodies.induct) simp_all

lemma attach_bodies_nth:
  "i + length ws \<le> length (msegs m) \<Longrightarrow>
   msegs (attach_bodies m base off i ws) ! j =
     (if i \<le> j \<and> j < i + length ws
      then \<lparr>seg_data = Some (take (ws ! (j - i) * 8)
                (drop (off + sum_list (take (j - i) ws) * 8) base)),
            seg_words = ws ! (j - i)\<rparr>
      else msegs m ! j)"
proof (induction m base off i ws rule: attach_bodies.induct)
  case (2 m base off i w ws)
  show ?case
  proof (cases "i = j")
    case True
    with "2.prems" "2.IH" show ?thesis by (simp add: WORD_BYTES_def)
  next
    case False
    have "j - i = Suc (j - Suc i)" if "i < j" using that by simp
    with False "2.prems" "2.IH" show ?thesis
      by (auto simp: WORD_BYTES_def algebra_simps not_le less_Suc_eq_le)
  qed
qed auto


section \<open>\<open>parse_flat\<close>\<close>

text \<open>The values \<open>parse_flat\<close> reads from a table that fits.\<close>

definition stream_count :: "byte list \<Rightarrow> nat" where
  "stream_count data = unat (capnp_load_le32 (take 4 data) + 1)"

definition stream_sizes :: "byte list \<Rightarrow> nat list" where
  "stream_sizes data =
     map (\<lambda>j. unat (capnp_load_le32 (take 4 (drop (4 + 4 * j) data)))) [0..<stream_count data]"

definition stream_fits :: "byte list \<Rightarrow> bool" where
  "stream_fits data \<longleftrightarrow>
     8 \<le> length data \<and> 0 < stream_count data \<and> stream_count data \<le> MAX_SEGMENTS \<and>
     table_size (stream_count data) + sum_list (stream_sizes data) * 8 \<le> length data"

text \<open>The state of an accepted stream: segment \<open>i\<close> is the slice the table describes.\<close>

definition stream_segment :: "byte list \<Rightarrow> nat \<Rightarrow> segment" where
  "stream_segment data i =
     \<lparr>seg_data = Some (take (stream_sizes data ! i * 8)
        (drop (table_size (stream_count data) + sum_list (take i (stream_sizes data)) * 8) data)),
      seg_words = stream_sizes data ! i\<rparr>"

lemma length_stream_sizes [simp]: "length (stream_sizes data) = stream_count data"
  by (simp add: stream_sizes_def)

definition attached :: "message \<Rightarrow> byte list \<Rightarrow> message" where
  "attached m data =
     (attach_bodies m data (table_size (stream_count data)) 0 (stream_sizes data))
       \<lparr>nsegs := stream_count data\<rparr>"

lemma attached_take:
  assumes "stream_fits data"
  defines "body \<equiv> table_size (stream_count data) + sum_list (stream_sizes data) * 8"
  shows "attach_bodies m (take body data) (table_size (stream_count data)) 0 (stream_sizes data) =
    attach_bodies m data (table_size (stream_count data)) 0 (stream_sizes data)"
proof -
  have "attach_bodies m (take (off + sum_list ws * 8) d) off i ws = attach_bodies m d off i ws"
    for m and d :: "byte list" and off i ws
  proof (induction ws arbitrary: m off i)
    case (Cons w ws)
    have "take (w * 8) (drop off (take (off + sum_list (w # ws) * 8) d)) = take (w * 8) (drop off d)"
      by (simp add: drop_take min_def)
    moreover have "off + sum_list (w # ws) * 8 = (off + w * 8) + sum_list ws * 8" by simp
    ultimately show ?case
      using Cons.IH [of _ "off + w * 8"] by (simp add: WORD_BYTES_def add.assoc)
  qed simp
  then show ?thesis by (simp add: body_def)
qed

lemma parse_flat_accept:
  assumes "stream_fits data" and "copy \<longrightarrow> mem_ok A body"
    and "body = table_size (stream_count data) + sum_list (stream_sizes data) * 8"
  shows "parse_flat A m data copy =
    Some (CAPNP_OK,
      attached (if copy then m\<lparr>owned := Some (take body data), owned_len := body\<rparr> else m) data)"
proof -
  have t: "4 + 4 * stream_count data \<le> length data"
    using assms(1) table_size_bounds(1) [of "stream_count data"] by (auto simp: stream_fits_def)
  have "read_sizes data 0 (stream_count data) = Some (stream_sizes data)"
    using read_sizes_Some [of 0 "stream_count data" data] t by (simp add: stream_sizes_def)
  moreover have "rd data 0 4 = Some (take 4 data)" using t by (simp add: rd_def)
  moreover have "wr (map (mem_junk A) [0..<body]) 0 (take body data) = Some (take body data)"
    using assms(1,3) by (simp add: wr_def stream_fits_def)
  ultimately show ?thesis
    using assms
    by (auto simp: parse_flat_def Let_def stream_fits_def c_malloc_def attached_def rd_def
        attached_take WORD_BYTES_def simp flip: stream_count_def)
qed

lemma parse_flat_reject:
  assumes "\<not> stream_fits data"
  shows "parse_flat A m data copy = Some (CAPNP_ERR_FRAMING, m)"
proof (cases "8 \<le> length data \<and> 0 < stream_count data \<and> stream_count data \<le> MAX_SEGMENTS \<and>
    table_size (stream_count data) \<le> length data")
  case True
  then have t: "4 + 4 * stream_count data \<le> length data"
    using table_size_bounds(1) [of "stream_count data"] by simp
  then have "read_sizes data 0 (stream_count data) = Some (stream_sizes data)"
    using read_sizes_Some [of 0 "stream_count data" data] by (simp add: stream_sizes_def)
  with True assms show ?thesis
    by (auto simp: parse_flat_def Let_def stream_fits_def rd_def WORD_BYTES_def
        simp flip: stream_count_def)
next
  case False
  then show ?thesis
    by (auto simp: parse_flat_def Let_def rd_def simp flip: stream_count_def)
qed

lemma parse_flat_no_memory:
  assumes "stream_fits data"
    and "\<not> mem_ok A (table_size (stream_count data) + sum_list (stream_sizes data) * 8)"
  shows "parse_flat A m data True = Some (CAPNP_ERR_ALLOC, m)"
proof -
  have t: "4 + 4 * stream_count data \<le> length data"
    using assms(1) table_size_bounds(1) [of "stream_count data"] by (auto simp: stream_fits_def)
  then have "read_sizes data 0 (stream_count data) = Some (stream_sizes data)"
    using read_sizes_Some [of 0 "stream_count data" data] by (simp add: stream_sizes_def)
  with assms t show ?thesis
    by (auto simp: parse_flat_def Let_def stream_fits_def rd_def WORD_BYTES_def c_malloc_def
        simp flip: stream_count_def)
qed

lemma attached_msegs:
  assumes "stream_fits data" "length (msegs m) = MAX_SEGMENTS"
  shows "msegs (attached m data) ! j =
    (if j < stream_count data then stream_segment data j else msegs m ! j)"
  using assms by (simp add: attached_def attach_bodies_nth stream_fits_def stream_segment_def)

lemma sum_list_take_le: "i < length ws \<Longrightarrow> sum_list (take i ws) + ws ! i \<le> sum_list (ws :: nat list)"
proof -
  assume i: "i < length ws"
  have "sum_list ws = sum_list (take i ws) + sum_list (drop i ws)"
    by (metis append_take_drop_id sum_list_append)
  moreover have "sum_list (drop i ws) = ws ! i + sum_list (drop (Suc i) ws)"
    using i by (simp flip: Cons_nth_drop_Suc)
  ultimately show ?thesis by simp
qed

lemma attached_wf:
  assumes "stream_fits data" "length (msegs m) = MAX_SEGMENTS" "length data < 2 ^ 63"
  shows "wf_message (attached m data)"
proof -
  have "wf_segment (stream_segment data j)" if "j < stream_count data" for j
  proof -
    have "sum_list (take j (stream_sizes data)) + stream_sizes data ! j \<le> sum_list (stream_sizes data)"
      using that by (intro sum_list_take_le) simp
    with assms(1,3) show ?thesis
      by (auto simp: wf_segment_def stream_segment_def stream_fits_def WORD_BYTES_def)
  qed
  moreover have "nsegs (attached m data) = stream_count data" "length (msegs (attached m data)) = MAX_SEGMENTS"
    using assms(2) by (simp_all add: attached_def)
  moreover have "stream_count data \<le> MAX_SEGMENTS" using assms(1) by (simp add: stream_fits_def)
  ultimately show ?thesis
    using attached_msegs [OF assms(1,2)] by (auto simp: wf_message_def list_all_length)
qed


section \<open>Parsing inverts framing\<close>

lemma take_drop_concat_chunks:
  "\<lbrakk>\<forall>b \<in> set bs. length b = k; j < length bs\<rbrakk> \<Longrightarrow> take k (drop (k * j) (concat bs @ rest)) = bs ! j"
proof (induction bs arbitrary: j)
  case (Cons b bs)
  then show ?case by (cases j) auto
qed simp

lemma take_drop_concat:
  "j < length bs \<Longrightarrow>
   take (length (bs ! j)) (drop (sum_list (map length (take j bs))) (concat bs @ rest)) = bs ! j"
proof (induction bs arbitrary: j)
  case (Cons b bs)
  then show ?case by (cases j) auto
qed simp

lemma load_store_count: "n < 2 ^ 32 \<Longrightarrow> unat (capnp_load_le32 (capnp_store_le32 (word_of_nat n))) = n"
  by (simp add: load_store_le32 unsigned_of_nat take_bit_nat_eq_self)

lemma length_concat_chunks: "\<forall>b \<in> set bs. length b = k \<Longrightarrow> length (concat bs) = k * length bs"
  by (induction bs) auto

definition size_fields :: "byte list list \<Rightarrow> byte list list" where
  "size_fields bodies = map (\<lambda>b. capnp_store_le32 (word_of_nat (length b div 8))) bodies"

lemma size_fields_len: "\<forall>b \<in> set (size_fields bodies). length b = 4" "length (size_fields bodies) = length bodies"
  by (auto simp: size_fields_def)

lemma length_frame_head:
  "length (capnp_store_le32 (word_of_nat (length bodies - 1)) @ concat (size_fields bodies) @
     replicate (table_size (length bodies) - (4 + 4 * length bodies)) 0) = table_size (length bodies)"
  using table_size_bounds(1) [of "length bodies"]
  by (simp add: length_concat_chunks [OF size_fields_len(1)] size_fields_len(2))

lemma frame_alt:
  "frame bodies @ rest =
     capnp_store_le32 (word_of_nat (length bodies - 1)) @ concat (size_fields bodies) @
     (replicate (table_size (length bodies) - (4 + 4 * length bodies)) 0 @ concat bodies @ rest)"
  by (simp add: frame_def size_fields_def)

lemma length_frame: "length (frame bodies) = table_size (length bodies) + sum_list (map length bodies)"
  using length_frame_head [of bodies] frame_alt [of bodies "[]"] by (simp add: length_concat)

text \<open>The table and the slices of a framed stream are those of its bodies.\<close>

lemma frame_stream_count:
  assumes "frame_bodies bodies"
  shows "stream_count (frame bodies @ rest) = length bodies"
proof -
  have "(word_of_nat (length bodies - 1) :: u32) + 1 = word_of_nat (length bodies)"
    using assms by (cases "length bodies") (auto simp: frame_bodies_def add.commute)
  moreover have "unat (word_of_nat (length bodies) :: u32) = length bodies"
    using assms by (simp add: frame_bodies_def MAX_SEGMENTS_def unsigned_of_nat take_bit_nat_eq_self)
  ultimately show ?thesis by (simp add: stream_count_def frame_alt load_store_le32)
qed

lemma frame_stream_sizes:
  assumes "frame_bodies bodies"
  shows "stream_sizes (frame bodies @ rest) = map (\<lambda>b. length b div 8) bodies"
proof -
  have "take 4 (drop (4 + 4 * j) (frame bodies @ rest)) = size_fields bodies ! j" if "j < length bodies" for j
  proof -
    have "drop (4 + 4 * j) (frame bodies @ rest) = drop (4 * j) (concat (size_fields bodies) @
        (replicate (table_size (length bodies) - (4 + 4 * length bodies)) 0 @ concat bodies @ rest))"
      unfolding frame_alt by (simp only: drop_append) simp
    then show ?thesis
      using that by (simp only: take_drop_concat_chunks [OF size_fields_len(1)] size_fields_len(2))
  qed
  moreover have "unat (capnp_load_le32 (size_fields bodies ! j)) = length (bodies ! j) div 8"
    if "j < length bodies" for j
    using that assms by (simp add: size_fields_def load_store_count frame_bodies_def list_all_length)
  ultimately show ?thesis
    by (auto simp: stream_sizes_def frame_stream_count [OF assms] intro!: nth_equalityI)
qed

lemma frame_body_words:
  "frame_bodies bodies \<Longrightarrow> b \<in> set bodies \<Longrightarrow> length b div 8 * 8 = length b"
  by (auto simp: frame_bodies_def list_all_iff)

lemma frame_sum_words:
  assumes "frame_bodies bodies"
  shows "sum_list (map (\<lambda>b. length b div 8) (take i bodies)) * 8 = sum_list (map length (take i bodies))"
proof -
  have "map (\<lambda>b. length b div 8 * 8) (take i bodies) = map length (take i bodies)"
    using assms by (auto intro: frame_body_words dest: in_set_takeD)
  then show ?thesis unfolding sum_list_mult_const [symmetric] by (rule arg_cong)
qed

lemma frame_stream_fits:
  assumes "frame_bodies bodies"
  shows "stream_fits (frame bodies @ rest)"
  using assms table_size_bounds(3) [of "length bodies - 1"] frame_sum_words [OF assms, of "length bodies"]
  by (auto simp: stream_fits_def frame_stream_count frame_stream_sizes length_frame frame_bodies_def)

lemma drop_frame_table:
  "drop (table_size (length bodies) + k) (frame bodies @ rest) = drop k (concat bodies @ rest)"
proof -
  define head where "head = capnp_store_le32 (word_of_nat (length bodies - 1)) @ concat (size_fields bodies) @
     replicate (table_size (length bodies) - (4 + 4 * length bodies)) 0"
  have "length head = table_size (length bodies)" unfolding head_def by (rule length_frame_head)
  moreover have "frame bodies @ rest = head @ concat bodies @ rest"
    by (simp only: frame_alt head_def append_assoc)
  ultimately show ?thesis by (simp only: drop_append) simp
qed

lemma frame_stream_segment:
  assumes "frame_bodies bodies" "i < length bodies"
  shows "stream_segment (frame bodies @ rest) i =
     \<lparr>seg_data = Some (bodies ! i), seg_words = length (bodies ! i) div 8\<rparr>"
proof -
  have "length (bodies ! i) div 8 * 8 = length (bodies ! i)"
    using assms by (simp add: frame_body_words)
  moreover have "sum_list (take i (map (\<lambda>b. length b div 8) bodies)) * 8 = sum_list (map length (take i bodies))"
    using frame_sum_words [OF assms(1), of i] by (simp only: take_map)
  ultimately show ?thesis
    unfolding stream_segment_def frame_stream_count [OF assms(1)] frame_stream_sizes [OF assms(1)]
    by (simp only: nth_map [OF assms(2)] drop_frame_table take_drop_concat [OF assms(2)])
qed

section \<open>\<open>capnp_message_copy_flat\<close> computes the frame\<close>

lemma write_sizes_eq:
  "4 + 4 * (i + length ws) \<le> length buf \<Longrightarrow>
   \<exists>buf'. write_sizes buf i ws = Some buf' \<and> length buf' = length buf \<and>
     take (4 + 4 * (i + length ws)) buf' =
       take (4 + 4 * i) buf @ concat (map (\<lambda>w. capnp_store_le32 (word_of_nat w)) ws)"
proof (induction ws arbitrary: buf i)
  case (Cons w ws)
  obtain buf1 where b: "wr buf (4 + 4 * i) (capnp_store_le32 (word_of_nat w)) = Some buf1"
    "length buf1 = length buf"
    "take (4 + 4 * (i + 1)) buf1 = take (4 + 4 * i) buf @ capnp_store_le32 (word_of_nat w)"
    using wr_append [of "4 + 4 * i" "capnp_store_le32 (word_of_nat w)" buf] Cons.prems
    by (auto simp: algebra_simps)
  with Cons.IH [of "i + 1" buf1] Cons.prems show ?case by auto
qed simp

definition seg_bytes :: "segment \<Rightarrow> byte list" where
  "seg_bytes s = the (seg_data s)"

lemma wf_segment_bytes:
  "wf_segment s \<Longrightarrow> seg_data s = Some (seg_bytes s) \<and> length (seg_bytes s) = seg_words s * 8"
  by (auto simp: wf_segment_def seg_bytes_def WORD_BYTES_def split: option.splits)

lemma copy_bodies_eq:
  "\<lbrakk>list_all wf_segment ss; off + sum_list (map seg_words ss) * 8 \<le> length buf\<rbrakk> \<Longrightarrow>
   \<exists>buf'. copy_bodies buf off ss = Some buf' \<and> length buf' = length buf \<and>
     take (off + sum_list (map seg_words ss) * 8) buf' = take off buf @ concat (map seg_bytes ss)"
proof (induction ss arbitrary: buf off)
  case (Cons s ss)
  note wf = wf_segment_bytes [of s]
  have len: "length (seg_bytes s) = seg_words s * 8" using wf Cons.prems by simp
  obtain buf1 where b: "wr buf off (seg_bytes s) = Some buf1" "length buf1 = length buf"
    "take (off + seg_words s * 8) buf1 = take off buf @ seg_bytes s"
    using wr_append [of off "seg_bytes s" buf] Cons.prems len by auto
  have "rd (seg_bytes s) 0 (seg_words s * 8) = Some (seg_bytes s)" using len by (simp add: rd_def)
  with b wf Cons.IH [of "off + seg_words s * 8" buf1] Cons.prems show ?case
    by (auto simp: WORD_BYTES_def algebra_simps)
qed simp

definition bodies_of :: "message \<Rightarrow> byte list list" where
  "bodies_of m = map seg_bytes (take (nsegs m) (msegs m))"

lemma wf_bodies:
  assumes "wf_message m" "0 < nsegs m" "list_all (\<lambda>s. seg_words s < 2 ^ 32) (take (nsegs m) (msegs m))"
  shows "frame_bodies (bodies_of m)" "length (bodies_of m) = nsegs m"
    "map (\<lambda>b. length b div 8) (bodies_of m) = map seg_words (take (nsegs m) (msegs m))"
proof -
  show l: "length (bodies_of m) = nsegs m" using assms(1) by (simp add: bodies_of_def wf_message_def)
  have w: "length (seg_bytes s) = seg_words s * 8" if "s \<in> set (take (nsegs m) (msegs m))" for s
    using assms(1) that wf_segment_bytes by (auto simp: wf_message_def list_all_iff)
  then show "map (\<lambda>b. length b div 8) (bodies_of m) = map seg_words (take (nsegs m) (msegs m))"
    by (simp add: bodies_of_def)
  show "frame_bodies (bodies_of m)"
    using assms l w by (auto simp: frame_bodies_def list_all_iff wf_message_def) (auto simp: bodies_of_def)
qed

lemma copy_flat_frame:
  assumes wf: "wf_message m" "0 < nsegs m"
    and w32: "list_all (\<lambda>s. seg_words s < 2 ^ 32) (take (nsegs m) (msegs m))"
    and mem: "no_oom A"
  shows "capnp_message_copy_flat A m = Some (CAPNP_OK, frame (bodies_of m))"
proof -
  define ss where "ss = take (nsegs m) (msegs m)"
  define n where "n = nsegs m"
  define total where "total = table_size n + sum_list (map seg_words ss) * 8"
  note b = wf_bodies [OF wf w32, folded ss_def n_def]
  have len: "length ss = n" using wf(1) by (simp add: ss_def wf_message_def n_def)
  note t = table_size_bounds(1) [of n]
  obtain b1 where b1: "wr (map (mem_junk A) [0..<total]) 0 (capnp_store_le32 (word_of_nat (n - 1))) = Some b1"
    "length b1 = total" "take 4 b1 = capnp_store_le32 (word_of_nat (n - 1))"
    using wr_append [of 0 "capnp_store_le32 (word_of_nat (n - 1))" "map (mem_junk A) [0..<total]"] t
    by (auto simp: total_def)
  obtain b2 where b2: "write_sizes b1 0 (map seg_words ss) = Some b2" "length b2 = total"
    "take (4 + 4 * n) b2 = capnp_store_le32 (word_of_nat (n - 1)) @
       concat (map (\<lambda>w. capnp_store_le32 (word_of_nat w)) (map seg_words ss))"
    using write_sizes_eq [of 0 "map seg_words ss" b1] b1(2,3) len t by (auto simp: total_def)
  define pad where "pad = replicate (table_size n - (4 + 4 * n)) (0 :: byte)"
  obtain b3 where b3: "wr b2 (4 + 4 * n) pad = Some b3" "length b3 = total"
    "take (table_size n) b3 = take (4 + 4 * n) b2 @ pad"
    using wr_append [of "4 + 4 * n" pad b2] b2(2) t by (auto simp: total_def pad_def)
  have pad: "(if table_size n > 4 + 4 * n then wr b2 (4 + 4 * n) pad else Some b2) = Some b3"
    using b3(1) b2(2) t by (auto simp: pad_def wr_def total_def)
  obtain b4 where b4: "copy_bodies b3 (table_size n) ss = Some b4" "length b4 = total"
    "take total b4 = take (table_size n) b3 @ concat (map seg_bytes ss)"
    using copy_bodies_eq [of ss "table_size n" b3] b3(2) wf(1)
    by (auto simp: total_def ss_def wf_message_def)
  have m: "c_malloc A total = Some (map (mem_junk A) [0..<total])" using mem by (simp add: c_malloc_def no_oom_def)
  have "capnp_message_copy_flat A m = Some (CAPNP_OK, b4)"
    unfolding capnp_message_copy_flat_def Let_def ss_def [symmetric] WORD_BYTES_def
    unfolding n_def [symmetric] total_def [symmetric] pad_def [symmetric] m option.case
      b1(1) b2(1) pad b4(1) bind.bind_lunit
    using wf(2) by (simp add: n_def)
  note copied = this
  have "map (\<lambda>b. capnp_store_le32 (word_of_nat (length b div 8))) (bodies_of m) =
      map (\<lambda>w. capnp_store_le32 (word_of_nat w)) (map seg_words ss)"
    unfolding b(3) [symmetric] by simp
  moreover have "concat (bodies_of m) = concat (map seg_bytes ss)" by (simp add: bodies_of_def ss_def)
  ultimately have "b4 = frame (bodies_of m)"
    using b4(2,3) b3(3) b2(3) unfolding frame_def b(2) pad_def by simp
  with copied show ?thesis by simp
qed


section \<open>What the two parsers return\<close>

definition body_size :: "byte list \<Rightarrow> nat" where
  "body_size data = table_size (stream_count data) + sum_list (stream_sizes data) * 8"

lemma init_segments: "length (msegs (capnp_message_init\<lparr>owned := x, owned_len := n\<rparr>)) = MAX_SEGMENTS"
  "length (msegs capnp_message_init) = MAX_SEGMENTS"
  by (simp_all add: capnp_message_init_def)

lemma attached_facts:
  assumes "stream_fits data" "length (msegs m) = MAX_SEGMENTS" "length data < 2 ^ 63"
  shows "wf_message (attached m data)" "nsegs (attached m data) = stream_count data"
    "i < stream_count data \<Longrightarrow> msegs (attached m data) ! i = stream_segment data i"
    "traversal_left (attached m data) = traversal_left m" "depth_limit (attached m data) = depth_limit m"
  using attached_wf [OF assms] attached_msegs [OF assms(1,2)] by (simp_all add: attached_def)

lemma from_flat_eq:
  "capnp_message_from_flat A data =
     (if \<not> stream_fits data then Some (CAPNP_ERR_FRAMING, capnp_message_init)
      else if \<not> mem_ok A (body_size data) then Some (CAPNP_ERR_ALLOC, capnp_message_init)
      else Some (CAPNP_OK, attached (capnp_message_init
        \<lparr>owned := Some (take (body_size data) data), owned_len := body_size data\<rparr>) data))"
  unfolding capnp_message_from_flat_def body_size_def
  by (simp add: parse_flat_reject parse_flat_no_memory parse_flat_accept)

lemma view_flat_eq:
  "capnp_message_view_flat A data =
     (if \<not> stream_fits data then Some (CAPNP_ERR_FRAMING, capnp_message_init)
      else Some (CAPNP_OK, attached capnp_message_init data))"
  unfolding capnp_message_view_flat_def by (simp add: parse_flat_reject parse_flat_accept)

lemma segments_eqI:
  assumes "wf_message m" "nsegs m = length bodies"
    and "\<And>i. i < length bodies \<Longrightarrow>
      msegs m ! i = \<lparr>seg_data = Some (bodies ! i), seg_words = length (bodies ! i) div 8\<rparr>"
  shows "bodies_of m = bodies"
  using assms by (auto simp: bodies_of_def seg_bytes_def wf_message_def intro!: nth_equalityI)

lemma attached_bodies:
  assumes "frame_bodies bodies" "length (frame bodies @ rest) < 2 ^ 63" "length (msegs m) = MAX_SEGMENTS"
  shows "bodies_of (attached m (frame bodies @ rest)) = bodies"
proof -
  note fits = frame_stream_fits [OF assms(1), of rest]
  note a = attached_facts [OF fits assms(3,2)]
  show ?thesis
    using a frame_stream_count [OF assms(1), of rest] frame_stream_segment [OF assms(1), of _ rest]
    by (intro segments_eqI) auto
qed

definition demo_bodies :: "byte list list" where
  "demo_bodies = [[1, 2, 3, 4, 5, 6, 7, 8], [9, 8, 7, 6, 5, 4, 3, 2]]"

lemma demo_bodies_ok: "frame_bodies demo_bodies" "length (frame demo_bodies) = 32"
  by (simp_all add: frame_bodies_def demo_bodies_def MAX_SEGMENTS_def length_frame table_size_def)

definition demo_two_segments :: message where
  "demo_two_segments = capnp_message_init
     \<lparr>msegs := map (\<lambda>b. \<lparr>seg_data = Some b, seg_words = 1\<rparr>) demo_bodies @ replicate 14 null_segment,
      nsegs := 2\<rparr>"

section \<open>Properties\<close>

text \<open>
  C26 Parsing a stream is safe and exact. On any buffer \<open>capnp_message_from_flat\<close> reads only
  inside the buffer and returns; it succeeds exactly when the segment table and the bodies fit
  and the copy could be allocated, and then the message is well formed and segment \<open>i\<close> is the
  slice the table describes. Otherwise it reports \<open>CAPNP_ERR_FRAMING\<close> or \<open>CAPNP_ERR_ALLOC\<close>.
  \<open>capnp_message_view_flat\<close> attaches the same segments without allocating.
\<close>

theorem from_flat_exact:
  assumes "length data < 2 ^ 63"
  shows "\<exists>r m. capnp_message_from_flat A data = Some (r, m) \<and>
    (r = CAPNP_OK \<longleftrightarrow> stream_fits data \<and> mem_ok A (body_size data)) \<and>
    (r = CAPNP_OK \<longrightarrow> wf_message m \<and> nsegs m = stream_count data \<and>
       (\<forall>i < stream_count data. msegs m ! i = stream_segment data i) \<and>
       (\<exists>v. capnp_message_view_flat A data = Some (CAPNP_OK, v) \<and> msegs v = msegs m \<and> nsegs v = nsegs m)) \<and>
    (r \<noteq> CAPNP_OK \<longrightarrow> r = (if stream_fits data then CAPNP_ERR_ALLOC else CAPNP_ERR_FRAMING))"
proof (cases "stream_fits data \<and> mem_ok A (body_size data)")
  case True
  then have fits: "stream_fits data" by simp
  let ?m = "capnp_message_init\<lparr>owned := Some (take (body_size data) data), owned_len := body_size data\<rparr>"
  note a = attached_facts [OF fits init_segments(1) assms]
  note b = attached_facts [OF fits init_segments(2) assms]
  have "msegs (attached capnp_message_init data) = msegs (attached ?m data)"
  proof (rule nth_equalityI)
    show "length (msegs (attached capnp_message_init data)) = length (msegs (attached ?m data))"
      by (simp add: attached_def)
  qed (use attached_msegs [OF fits init_segments(1)] attached_msegs [OF fits init_segments(2)] in simp)
  with True a b show ?thesis by (simp add: from_flat_eq view_flat_eq)
next
  case False
  then show ?thesis by (auto simp: from_flat_eq)
qed

theorem from_flat_exact_witness:
  "\<exists>m. capnp_message_from_flat plentiful (frame demo_bodies) = Some (CAPNP_OK, m) \<and> wf_message m"
  using from_flat_exact [of "frame demo_bodies" plentiful] demo_bodies_ok
    frame_stream_fits [OF demo_bodies_ok(1), of "[]"] by auto

lemma frame_body_size:
  assumes "frame_bodies bodies"
  shows "body_size (frame bodies @ rest) = length (frame bodies)"
  using frame_sum_words [OF assms, of "length bodies"]
  by (simp add: body_size_def frame_stream_count [OF assms] frame_stream_sizes [OF assms] length_frame)

lemma frame_parses:
  assumes "frame_bodies bodies" "length (frame bodies @ rest) < 2 ^ 63" "mem_ok A (length (frame bodies))"
  shows "\<exists>m. capnp_message_from_flat A (frame bodies @ rest) = Some (CAPNP_OK, m) \<and>
    wf_message m \<and> bodies_of m = bodies"
proof -
  note fits = frame_stream_fits [OF assms(1), of rest]
  show ?thesis
    using assms(3) fits attached_bodies [OF assms(1,2) init_segments(1)]
      attached_facts(1) [OF fits init_segments(1) assms(2)] frame_body_size [OF assms(1), of rest]
    by (simp add: from_flat_eq)
qed

text \<open>
  C27 Framing round trip. Parsing the framed stream of one to sixteen segment bodies, followed by
  any other bytes of the stream, gives back those bodies.
\<close>

theorem frame_roundtrip:
  assumes "frame_bodies bodies" "length (frame bodies @ rest) < 2 ^ 63" "mem_ok A (length (frame bodies))"
  shows "\<exists>m. capnp_message_from_flat A (frame bodies @ rest) = Some (CAPNP_OK, m) \<and>
    wf_message m \<and> bodies_of m = bodies"
  by (rule frame_parses [OF assms])

theorem frame_roundtrip_witness:
  "\<exists>m. capnp_message_from_flat plentiful (frame demo_bodies @ [0xff]) = Some (CAPNP_OK, m) \<and>
     bodies_of m = demo_bodies"
  using frame_roundtrip [OF demo_bodies_ok(1), of "[0xff]" plentiful] demo_bodies_ok(2) by (auto simp: no_oom_def)

text \<open>
  C32 Copying a message into a framed buffer loses nothing. \<open>capnp_message_copy_flat\<close> of a well
  formed message writes every byte of the buffer it allocates (nothing of the fresh memory
  shows) and the result parses back to a message with the same segments.
\<close>

theorem copy_flat_roundtrip:
  assumes "wf_message m" "0 < nsegs m" "no_oom A"
    and "list_all (\<lambda>s. seg_words s < 2 ^ 32) (take (nsegs m) (msegs m))"
  shows "\<exists>flat m'. capnp_message_copy_flat A m = Some (CAPNP_OK, flat) \<and>
    capnp_message_from_flat A flat = Some (CAPNP_OK, m') \<and> wf_message m' \<and> bodies_of m' = bodies_of m"
proof -
  note b = wf_bodies [OF assms(1,2,4)]
  have len: "nsegs m \<le> 16" "length (msegs m) = 16" using assms(1) by (auto simp: wf_message_def MAX_SEGMENTS_def)
  have "length x < 2 ^ 35" if "x \<in> set (bodies_of m)" for x
    using that b(1) by (auto simp: frame_bodies_def list_all_iff)
  then have "sum_list (map length (bodies_of m)) \<le> sum_list (map (\<lambda>_. 2 ^ 35) (bodies_of m))"
    by (intro sum_list_mono) (simp add: less_imp_le)
  also have "\<dots> = nsegs m * 2 ^ 35" by (simp add: map_replicate_const sum_list_replicate b(2))
  finally have "length (frame (bodies_of m) @ []) < 2 ^ 63"
    using len(1) table_size_bounds(2) [of "nsegs m"] by (simp add: length_frame b(2))
  from frame_parses [OF b(1) this] copy_flat_frame [OF assms(1,2,4,3)] assms(3)
  show ?thesis by (auto simp: no_oom_def)
qed

theorem copy_flat_roundtrip_witness:
  "\<exists>flat m'. capnp_message_copy_flat plentiful demo_two_segments = Some (CAPNP_OK, flat) \<and>
     capnp_message_from_flat plentiful flat = Some (CAPNP_OK, m') \<and> bodies_of m' = demo_bodies"
proof -
  have "wf_message demo_two_segments" "0 < nsegs demo_two_segments"
    "list_all (\<lambda>s. seg_words s < 2 ^ 32) (take (nsegs demo_two_segments) (msegs demo_two_segments))"
    "bodies_of demo_two_segments = demo_bodies"
    by (simp_all add: demo_two_segments_def demo_bodies_def capnp_message_init_def wf_message_def
        wf_segment_def MAX_SEGMENTS_def WORD_BYTES_def bodies_of_def seg_bytes_def)
  then show ?thesis using copy_flat_roundtrip [of demo_two_segments plentiful] by (auto simp: no_oom_def)
qed

end
