(* ===== verification/Views.thy ===== *)
theory Views
  imports Reader
begin

text \<open>
  Safety of the accessors of theory \<open>Reader\<close>: what a pointer returned by resolution allows
  the readers to dereference. \<open>view_ok\<close> is the condition the data section readers need; it
  follows from \<open>well_placed\<close> (what resolution gives) and from \<open>capnp_list_get_struct\<close> on a
  well placed list, including the upgrade views of primitive lists whose data section starts
  inside a word.
\<close>

section \<open>Rounding bits to bytes and words\<close>

lemma bit_byte_lt: "i < n \<Longrightarrow> i div 8 + 1 \<le> (n + 7) div (8 :: nat)"
proof -
  assume "i < n"
  then have "(i + 8) div 8 \<le> (n + 7) div 8" by (intro div_le_mono) simp
  then show ?thesis by simp
qed

lemma bits_round: "(b + 7) div 8 \<le> (b + 63) div 64 * (8 :: nat)"
proof -
  have "b \<le> (b + 63) div 64 * 64" using div_mult_mod_eq [of "b + 63" 64] mod_less_divisor [of 64 "b + 63"] by linarith
  then have "(b + 7) div 8 \<le> (7 + 8 * ((b + 63) div 64 * 8)) div 8" by (intro div_le_mono) simp
  then show ?thesis by simp
qed

section \<open>Data sections inside a segment\<close>

definition view_ok :: "message \<Rightarrow> ptr \<Rightarrow> bool" where
  "view_ok m s \<longleftrightarrow>
     (p_kind s = PK_STRUCT \<and> data_bit_count s > 0 \<longrightarrow>
        p_seg s < nsegs m \<and>
        data_bytes s + (data_bit_count s + 7) div 8 \<le> seg_words (msegs m ! p_seg s) * 8)"

lemma view_read:
  assumes "wf_message m" "view_ok m s" "data_has_bytes s off n" "0 < n"
  shows "\<exists>p. seg_read m (p_seg s) (data_bytes s + off) n = Some p \<and> length p = n"
proof -
  have "p_kind s = PK_STRUCT" "off + n \<le> data_bit_count s div 8"
    using assms(3,4) by (auto simp: data_has_bytes_def Let_def split: if_splits)
  moreover from this(2) assms(4) have "0 < data_bit_count s" by (cases "data_bit_count s") auto
  moreover have "data_bit_count s div 8 \<le> (data_bit_count s + 7) div 8" by (rule div_le_mono) simp
  ultimately show ?thesis using assms(1,2) by (intro seg_read_in_bounds) (auto simp: view_ok_def)
qed

lemma view_read_bit:
  assumes "wf_message m" "view_ok m s" "p_kind s = PK_STRUCT" "i < data_bit_count s"
  shows "\<exists>p. seg_read m (p_seg s) (data_bytes s + i div 8) 1 = Some p \<and> length p = 1"
proof -
  have "i div 8 + 1 \<le> (data_bit_count s + 7) div 8" using assms(4) by (rule bit_byte_lt)
  with assms show ?thesis by (intro seg_read_in_bounds) (auto simp: view_ok_def)
qed

lemma getters_total:
  assumes "wf_message m" "view_ok m s"
  shows "capnp_get_u8 m s off d8 \<noteq> None" "capnp_get_u16 m s off d16 \<noteq> None"
    "capnp_get_u32 m s off d32 \<noteq> None" "capnp_get_u64 m s off d64 \<noteq> None"
    "capnp_get_f32 m s off d32 \<noteq> None" "capnp_get_f64 m s off d64 \<noteq> None"
    "capnp_get_bool m s off b \<noteq> None"
proof -
  have r: "seg_read m (p_seg s) (data_bytes s + off) n \<noteq> None" if "data_has_bytes s off n" "0 < n" for n
    using view_read [OF assms that] by auto
  have b: "seg_read m (p_seg s) (data_bytes s + off div 8) 1 \<noteq> None"
    if "p_kind s = PK_STRUCT" "off < data_bit_count s"
    using view_read_bit [OF assms that] by auto
  show "capnp_get_u8 m s off d8 \<noteq> None" "capnp_get_u16 m s off d16 \<noteq> None"
    "capnp_get_u32 m s off d32 \<noteq> None" "capnp_get_u64 m s off d64 \<noteq> None"
    "capnp_get_f32 m s off d32 \<noteq> None" "capnp_get_f64 m s off d64 \<noteq> None"
    "capnp_get_bool m s off b \<noteq> None"
    using b
    by (simp_all add: capnp_get_u8_def capnp_get_u16_def capnp_get_u32_def capnp_get_u64_def
        capnp_get_f32_def capnp_get_f64_def capnp_get_bool_def r del: not_None_eq)
qed

lemma well_placed_view_ok:
  assumes "wf_message m" "well_placed m s"
  shows "view_ok m s"
proof -
  have "p_seg s < nsegs m" "sz (p_word s * WORD_BYTES) = p_word s * 8"
    "p_word s + p_dwords s \<le> seg_words (msegs m ! p_seg s)"
    if "p_kind s = PK_STRUCT" "0 < p_dwords s"
    using assms that word_addr_no_wrap [OF assms(1), of "p_seg s" "p_word s"]
    by (auto simp: well_placed_def in_bounds_def obj_words_def)
  then show ?thesis
    using assms(2) by (auto simp: view_ok_def well_placed_def data_bit_count_def data_bytes_def)
qed

section \<open>Elements of a well placed list\<close>

lemma composite_elem_fits:
  assumes "index < p_count l"
  shows "p_word l + index * p_step_words l + p_step_words l \<le> p_word l + p_count l * p_step_words l"
proof -
  have "(index + 1) * p_step_words l \<le> p_count l * p_step_words l" using assms by (intro mult_le_mono1) simp
  then show ?thesis by simp
qed

lemma composite_elem:
  assumes wf: "wf_message m" and pl: "well_placed m l" and k: "p_kind l = PK_LIST" "p_esize l = SZ_COMPOSITE"
    and i: "index < p_count l" and ne: "0 < p_step_words l"
  shows "p_seg l < nsegs m" "sz (p_word l + index * p_step_words l) = p_word l + index * p_step_words l"
    "p_word l + index * p_step_words l + p_step_words l \<le> seg_words (msegs m ! p_seg l)"
    "p_step_words l = p_dwords l + p_pwords l"
proof -
  have ow: "obj_words l = p_count l * p_step_words l" using k by (simp add: obj_words_def)
  moreover have "0 < p_count l" using i by simp
  ultimately have "0 < obj_words l" using ne by simp
  with pl have b: "p_seg l < nsegs m" "p_word l + p_count l * p_step_words l \<le> seg_words (msegs m ! p_seg l)"
    unfolding well_placed_def in_bounds_def ow by auto
  show "p_seg l < nsegs m" by (rule b(1))
  show le: "p_word l + index * p_step_words l + p_step_words l \<le> seg_words (msegs m ! p_seg l)"
    using composite_elem_fits [OF i] b(2) by (rule le_trans)
  show "sz (p_word l + index * p_step_words l) = p_word l + index * p_step_words l"
    using le wf_seg_words [OF wf b(1)] by (intro sz_id) simp
  show "p_step_words l = p_dwords l + p_pwords l" using pl k by (simp add: well_placed_def)
qed

lemma prim_elem:
  assumes wf: "wf_message m" and pl: "well_placed m l" and k: "p_kind l = PK_LIST"
    and es: "p_esize l \<noteq> SZ_COMPOSITE" and bits: "list_bits (p_esize l) (p_count l) = Some bits" "0 < bits"
  shows "p_seg l < nsegs m" "sz (p_word l * WORD_BYTES) = p_word l * 8"
    "p_word l * 8 + (bits + 7) div 8 \<le> seg_words (msegs m ! p_seg l) * 8"
proof -
  have ow: "obj_words l = (bits + 63) div 64" using k es bits(1) by (simp add: obj_words_def)
  have "0 < (bits + 63) div 64" using bits(2) by presburger
  with pl have b: "p_seg l < nsegs m" "p_word l + (bits + 63) div 64 \<le> seg_words (msegs m ! p_seg l)"
    unfolding well_placed_def in_bounds_def ow by auto
  show "p_seg l < nsegs m" by (rule b(1))
  show "sz (p_word l * WORD_BYTES) = p_word l * 8"
    using word_addr_no_wrap [OF wf b(1), of "p_word l"] b(2) by simp
  have "(bits + 7) div 8 \<le> (bits + 63) div 64 * 8" by (rule bits_round)
  then show "p_word l * 8 + (bits + 7) div 8 \<le> seg_words (msegs m ! p_seg l) * 8" using b(2) by linarith
qed

lemma bytes_of_bits: "(k * (n * 8) + 7) div 8 = k * (n :: nat)"
proof -
  have "k * (n * 8) + 7 = 7 + 8 * (k * n)" by simp
  then show ?thesis by simp
qed

text \<open>The width in bytes of the elements the typed readers accept.\<close>

lemma prim_bits:
  "list_bits SZ_BYTE n = Some (n * 8)" "list_bits SZ_TWO n = Some (n * 16)"
  "list_bits SZ_FOUR n = Some (n * 32)" "list_bits SZ_EIGHT n = Some (n * 64)"
  "list_bits SZ_BIT n = Some n" "list_bits SZ_PTR n = Some (n * 64)"
  by (simp_all add: list_bits_def kind_defs)

lemma elem_read:
  assumes wf: "wf_message m" and pl: "well_placed m l"
    and a: "list_elem_addr l index es w = Some a"
    and w: "(es, w) \<in> {(SZ_BYTE, 1), (SZ_TWO, 2), (SZ_FOUR, 4), (SZ_EIGHT, 8)}"
  shows "\<exists>p. seg_read m (p_seg l) a w = Some p \<and> length p = w"
proof -
  have l: "p_kind l = PK_LIST" "index < p_count l"
    using a by (auto simp: list_elem_addr_def split: if_splits)
  have ns: "es \<noteq> SZ_COMPOSITE" using w by (auto simp: kind_defs)
  show ?thesis
  proof (cases "p_esize l = es")
    case True
    have bits: "list_bits (p_esize l) (p_count l) = Some (p_count l * (w * 8))"
      using w True prim_bits by auto
    have "0 < w" using w by auto
    moreover have "0 < p_count l" using l(2) by simp
    ultimately have "0 < p_count l * (w * 8)" by simp
    note b = prim_elem [OF wf pl l(1) ns [folded True] bits this]
    note bytes_of_bits [of "p_count l" w]
    moreover have "index * w + w \<le> p_count l * w" using mult_le_mono1 [of "index + 1" "p_count l" w] l(2) by simp
    moreover have "a = p_word l * 8 + index * w"
      using a True l b(2) by (auto simp: list_elem_addr_def list_elem_bytes_def)
    ultimately show ?thesis using b by (intro seg_read_in_bounds [OF wf]) auto
  next
    case False
    then have c: "p_esize l = SZ_COMPOSITE" "1 \<le> p_dwords l" "a = composite_elem_data l index"
      using a by (auto simp: list_elem_addr_def split: if_splits)
    have "0 < p_step_words l" using pl l(1) c(1,2) by (auto simp: well_placed_def)
    note b = composite_elem [OF wf pl l(1) c(1) l(2) this]
    have "a = (p_word l + index * p_step_words l) * 8"
      using c(3) b word_addr_no_wrap [OF wf b(1), of "p_word l + index * p_step_words l"]
      by (simp add: composite_elem_data_def)
    moreover have "w \<le> 8" using w by auto
    ultimately show ?thesis using b c(2) by (intro seg_read_in_bounds [OF wf]) auto
  qed
qed

lemma list_getters_total:
  assumes "wf_message m" "well_placed m l"
  shows "capnp_list_get_u8 m l i d8 \<noteq> None" "capnp_list_get_u16 m l i d16 \<noteq> None"
    "capnp_list_get_u32 m l i d32 \<noteq> None" "capnp_list_get_u64 m l i d64 \<noteq> None"
    "capnp_list_get_f32 m l i d32 \<noteq> None" "capnp_list_get_f64 m l i d64 \<noteq> None"
    "capnp_list_get_bool m l i b \<noteq> None"
proof -
  have bit: "seg_read m (p_seg l) (sz (p_word l * WORD_BYTES) + i div 8) 1 \<noteq> None"
    if "p_kind l = PK_LIST" "p_esize l = SZ_BIT" "i < p_count l"
  proof -
    have "p_esize l \<noteq> SZ_COMPOSITE" using that(2) by (simp add: kind_defs)
    moreover have "list_bits (p_esize l) (p_count l) = Some (p_count l)" using that(2) prim_bits by simp
    ultimately have "p_seg l < nsegs m" "sz (p_word l * WORD_BYTES) = p_word l * 8"
      "p_word l * 8 + (p_count l + 7) div 8 \<le> seg_words (msegs m ! p_seg l) * 8"
      using prim_elem [OF assms that(1)] that(3) by auto
    moreover have "i div 8 + 1 \<le> (p_count l + 7) div 8" using that(3) by (rule bit_byte_lt)
    ultimately show ?thesis
      using seg_read_in_bounds [OF assms(1), of "p_seg l" "p_word l * 8 + i div 8" 1] by auto
  qed
  have r: "seg_read m (p_seg l) a w \<noteq> None"
    if "list_elem_addr l i es w = Some a" "(es, w) \<in> {(SZ_BYTE, 1), (SZ_TWO, 2), (SZ_FOUR, 4), (SZ_EIGHT, 8)}"
    for es w a
    using elem_read [OF assms that] by auto
  show "capnp_list_get_u8 m l i d8 \<noteq> None" "capnp_list_get_u16 m l i d16 \<noteq> None"
    "capnp_list_get_u32 m l i d32 \<noteq> None" "capnp_list_get_u64 m l i d64 \<noteq> None"
    "capnp_list_get_f32 m l i d32 \<noteq> None" "capnp_list_get_f64 m l i d64 \<noteq> None"
    "capnp_list_get_bool m l i b \<noteq> None"
    using bit
    by (simp_all add: capnp_list_get_u8_def capnp_list_get_u16_def capnp_list_get_u32_def
        capnp_list_get_u64_def capnp_list_get_f32_def capnp_list_get_f64_def capnp_list_get_bool_def
        r del: not_None_eq split: option.split)
qed

section \<open>Struct views of list elements\<close>

lemma list_get_struct_cases:
  assumes "capnp_list_get_struct l i out = (CAPNP_OK, v)"
  obtains (comp) "p_kind l = PK_LIST" "i < p_count l" "p_esize l = SZ_COMPOSITE"
      "p_word v = sz (p_word l + i * p_step_words l)" "p_dwords v = p_dwords l" "p_pwords v = p_pwords l"
      "p_body_byte v = 0" "p_data_bits v = 0" "p_kind v = PK_STRUCT" "p_seg v = p_seg l"
  | (ptr) "p_kind l = PK_LIST" "i < p_count l" "p_esize l = SZ_PTR"
      "p_word v = sz (p_word l + i)" "p_dwords v = 0" "p_pwords v = 1"
      "p_body_byte v = 0" "p_data_bits v = 0" "p_kind v = PK_STRUCT" "p_seg v = p_seg l"
  | (prim) n where "p_kind l = PK_LIST" "i < p_count l" "prim_elem_bytes (p_esize l) = Some n"
      "p_word v = sz (p_word l * WORD_BYTES + i * n) div WORD_BYTES" "p_dwords v = 1" "p_pwords v = 0"
      "p_body_byte v = sz (p_word l * WORD_BYTES + i * n) mod WORD_BYTES"
      "p_data_bits v = n * 8" "p_kind v = PK_STRUCT" "p_seg v = p_seg l"
proof -
  have k: "p_kind l = PK_LIST" "i < p_count l"
    using assms by (auto simp: capnp_list_get_struct_def split: if_splits)
  consider "p_esize l = SZ_COMPOSITE" | "p_esize l = SZ_PTR"
    | n where "prim_elem_bytes (p_esize l) = Some n" "p_esize l \<noteq> SZ_COMPOSITE" "p_esize l \<noteq> SZ_PTR"
    using assms k by (auto simp: capnp_list_get_struct_def Let_def split: if_splits option.splits)
  then show ?thesis
  proof cases
    case 1
    then show ?thesis using assms k by (intro comp) (auto simp: capnp_list_get_struct_def Let_def)
  next
    case 2
    then show ?thesis using assms k
      by (intro ptr) (auto simp: capnp_list_get_struct_def Let_def kind_defs)
  next
    case (3 n)
    then show ?thesis using assms k by (intro prim) (auto simp: capnp_list_get_struct_def Let_def)
  qed
qed

lemma prim_elem_bytes_bits:
  assumes "prim_elem_bytes es = Some n"
  shows "list_bits es cnt = Some (cnt * (n * 8))" "es \<noteq> SZ_COMPOSITE" "n \<in> {1, 2, 4, 8}"
  using assms prim_bits by (auto simp: prim_elem_bytes_def kind_defs split: if_splits)

text \<open>The address of a primitive element, as the upgrade view splits it.\<close>

lemma prim_view_addr:
  assumes wf: "wf_message m" and pl: "well_placed m l" and k: "p_kind l = PK_LIST" "i < p_count l"
    and n: "prim_elem_bytes (p_esize l) = Some n"
  shows "p_seg l < nsegs m" "sz (p_word l * WORD_BYTES + i * n) = p_word l * 8 + i * n"
    "p_word l * 8 + i * n + n \<le> seg_words (msegs m ! p_seg l) * 8"
    "sz (p_word l * WORD_BYTES) = p_word l * 8"
proof -
  note nb = prim_elem_bytes_bits [OF n]
  have "0 < n" using nb(3) by auto
  moreover have "0 < p_count l" using k(2) by simp
  ultimately have "0 < p_count l * (n * 8)" by simp
  note b = prim_elem [OF wf pl k(1) nb(2,1) this]
  note e = bytes_of_bits [of "p_count l" n]
  have "i * n + n \<le> p_count l * n" using mult_le_mono1 [of "i + 1" "p_count l" n] k(2) by simp
  with b(3) e show le: "p_word l * 8 + i * n + n \<le> seg_words (msegs m ! p_seg l) * 8" by linarith
  show "p_seg l < nsegs m" "sz (p_word l * WORD_BYTES) = p_word l * 8" by (rule b)+
  show "sz (p_word l * WORD_BYTES + i * n) = p_word l * 8 + i * n"
    using le wf_seg_words [OF wf b(1)] by (simp add: WORD_BYTES_def)
qed

lemma list_get_struct_view_ok:
  assumes wf: "wf_message m" and pl: "well_placed m l" and v: "capnp_list_get_struct l i out = (CAPNP_OK, v)"
  shows "view_ok m v"
  using v
proof (cases rule: list_get_struct_cases)
  case comp
  show ?thesis
  proof (cases "0 < p_dwords l")
    case True
    then have "0 < p_step_words l" using pl comp by (simp add: well_placed_def)
    note b = composite_elem [OF wf pl comp(1,3,2) this]
    have "sz (p_word v * WORD_BYTES) = p_word v * 8"
      using word_addr_no_wrap [OF wf b(1), of "p_word v"] b comp by simp
    then show ?thesis using b comp by (auto simp: view_ok_def data_bit_count_def data_bytes_def)
  qed (simp add: view_ok_def data_bit_count_def comp)
next
  case ptr
  then show ?thesis by (simp add: view_ok_def data_bit_count_def)
next
  case (prim n)
  note b = prim_view_addr [OF wf pl prim(1,2,3)]
  have n: "n \<in> {1, 2, 4, 8}" using prim_elem_bytes_bits [OF prim(3)] by simp
  have "sz (p_word v * WORD_BYTES) = p_word v * 8"
    using b prim(4) by (intro word_addr_no_wrap [OF wf b(1)]) (simp add: WORD_BYTES_def)
  then have "data_bytes v = p_word l * 8 + i * n"
    using b(2) prim(4,7) by (simp add: data_bytes_def WORD_BYTES_def)
  moreover have "data_bit_count v = n * 8" using n prim(8) by (auto simp: data_bit_count_def)
  moreover have "(n * 8 + 7) div 8 = n" by presburger
  ultimately show ?thesis using b prim by (simp add: view_ok_def)
qed


lemma list_get_struct_prim:
  assumes wf: "wf_message m" and pl: "well_placed m l" and v: "capnp_list_get_struct l i out = (CAPNP_OK, v)"
    and n: "prim_elem_bytes (p_esize l) = Some n"
  shows "p_kind v = PK_STRUCT" "p_seg v = p_seg l" "data_bytes v = p_word l * 8 + i * n"
    "data_bit_count v div 8 = n" "sz (p_word l * WORD_BYTES) = p_word l * 8" "p_kind l = PK_LIST" "i < p_count l"
proof -
  note ns = prim_elem_bytes_bits [OF n]
  have "p_esize l \<noteq> SZ_PTR" using n by (auto simp: prim_elem_bytes_def kind_defs split: if_splits)
  with v ns n show k: "p_kind v = PK_STRUCT" "p_seg v = p_seg l" "data_bit_count v div 8 = n"
    "p_kind l = PK_LIST" "i < p_count l"
    by (cases rule: list_get_struct_cases; auto simp: data_bit_count_def)+
  note b = prim_view_addr [OF wf pl k(4,5) n]
  show "sz (p_word l * WORD_BYTES) = p_word l * 8" by (rule b)
  have pv: "p_word v = sz (p_word l * WORD_BYTES + i * n) div WORD_BYTES"
    "p_body_byte v = sz (p_word l * WORD_BYTES + i * n) mod WORD_BYTES"
    using v ns n \<open>p_esize l \<noteq> SZ_PTR\<close> by (cases rule: list_get_struct_cases; auto)+
  have "sz (p_word v * WORD_BYTES) = p_word v * 8"
    using b pv by (intro word_addr_no_wrap [OF wf b(1)]) (simp add: WORD_BYTES_def)
  then show "data_bytes v = p_word l * 8 + i * n"
    using b(2) pv by (simp add: data_bytes_def WORD_BYTES_def)
qed

section \<open>Text\<close>

lemma text_at_eq:
  assumes wf: "wf_message m" and pl: "well_placed m l" and k: "p_kind l = PK_LIST" "p_esize l = SZ_BYTE"
    and ne: "0 < p_count l"
  shows "\<exists>raw r. seg_read m (p_seg l) (p_word l * 8) (p_count l) = Some raw \<and> text_at m l = Some r \<and>
    ref_bytes m r = Some (if last raw = 0 then butlast raw else raw)"
proof -
  define n where "n = p_count l"
  have "p_esize l \<noteq> SZ_COMPOSITE" "list_bits (p_esize l) n = Some (n * 8)" "0 < n * 8"
    using k(2) ne prim_bits by (simp_all add: kind_defs n_def)
  then have b: "p_seg l < nsegs m" "sz (p_word l * WORD_BYTES) = p_word l * 8"
    "p_word l * 8 + n \<le> seg_words (msegs m ! p_seg l) * 8"
    using prim_elem [OF wf pl k(1)] bytes_of_bits [of n 1] by (auto simp: n_def)
  from wf_messageD [OF wf b(1)] obtain d where d: "seg_data (msegs m ! p_seg l) = Some d"
    "length d = seg_words (msegs m ! p_seg l) * 8" and s: "p_seg l < length (msegs m)" by auto
  define raw where "raw = take n (drop (p_word l * 8) d)"
  have len: "length raw = n" using b(3) d(2) by (simp add: raw_def)
  have rd: "seg_read m (p_seg l) (p_word l * 8 + k) j = Some (take j (drop k raw))" if "k + j \<le> n" for k j
    using s d b(3) that by (simp add: seg_read_def rd_def raw_def drop_take min_def add.commute)
  have last: "take 1 (drop (n - 1) raw) = [last raw]"
  proof -
    have "raw \<noteq> []" using len ne by (auto simp: n_def)
    then show ?thesis using len ne
      by (auto simp: n_def last_conv_nth Cons_nth_drop_Suc [symmetric] take_Suc_conv_app_nth)
  qed
  have "text_at m l = Some (BytesAt (p_seg l) (p_word l * 8) (if last raw = 0 then n - 1 else n))"
    using ne rd [of "n - 1" 1] last b(2) by (simp add: text_at_def n_def)
  then show ?thesis
    using rd [of 0 n] rd [of 0 "n - 1"] len
    by (auto simp: n_def ref_bytes_def butlast_conv_take)
qed

section \<open>A message to evaluate on\<close>

text \<open>One segment: a root struct with one data word (42) and one pointer to the text "hi".\<close>

definition demo_message :: message where
  "demo_message = capnp_message_init
     \<lparr>msegs := \<lparr>seg_data = Some [0, 0, 0, 0, 1, 0, 1, 0, 42, 0, 0, 0, 0, 0, 0, 0,
                               1, 0, 0, 0, 0x1a, 0, 0, 0, 0x68, 0x69, 0, 0, 0, 0, 0, 0],
               seg_words = 4\<rparr> # replicate 15 null_segment, nsegs := 1\<rparr>"

definition demo_root :: ptr where
  "demo_root = ptr0\<lparr>p_word := 1, p_kind := PK_STRUCT, p_dwords := 1, p_pwords := 1\<rparr>"

definition demo_text :: ptr where
  "demo_text = ptr0\<lparr>p_word := 3, p_kind := PK_LIST, p_esize := SZ_BYTE, p_count := 3\<rparr>"

lemma demo_wf: "wf_message demo_message"
  by (simp add: demo_message_def capnp_message_init_def wf_message_def wf_segment_def MAX_SEGMENTS_def WORD_BYTES_def)

lemmas run = resolve_ptr_def bounds_word_def charge_def read_word_def seg_read_def rd_def resolve_word.simps
  resolve_struct_def resolve_list_def charge_out_def set_defs list_bits_def Let_def capnp_wp_kind_def
  capnp_wp_offset_eq capnp_wp_struct_dwords_def capnp_wp_struct_pwords_def capnp_wp_list_esize_def
  capnp_wp_list_count_def capnp_load_le64_def kind_defs sz_def size_t_def WORD_BYTES_def ptr0_def

lemma demo_root_eq:
  "capnp_root demo_message ptr0 = Some (CAPNP_OK, demo_message\<lparr>traversal_left := 8388605\<rparr>, demo_root)"
  by (simp add: capnp_root_def demo_message_def capnp_message_init_def demo_root_def
      DEFAULT_DEPTH_LIMIT_def DEFAULT_TRAVERSAL_WORDS_def run)

lemma demo_text_eq:
  "capnp_getp demo_message demo_root 0 ptr0 =
     Some (CAPNP_OK, demo_message\<lparr>traversal_left := 8388606\<rparr>, demo_text)"
  by (simp add: capnp_getp_def demo_message_def capnp_message_init_def demo_root_def demo_text_def
      DEFAULT_DEPTH_LIMIT_def DEFAULT_TRAVERSAL_WORDS_def run)

lemma demo_text_eq':
  "resolve_ptr demo_message 0 2 64 ptr0 =
     Some (CAPNP_OK, demo_message\<lparr>traversal_left := 8388606\<rparr>, demo_text)"
  by (simp add: demo_message_def capnp_message_init_def demo_text_def
      DEFAULT_DEPTH_LIMIT_def DEFAULT_TRAVERSAL_WORDS_def run)

lemma demo_placed: "well_placed demo_message demo_root" "well_placed demo_message demo_text"
  by (simp_all add: well_placed_def in_bounds_def obj_words_def demo_message_def capnp_message_init_def
      demo_root_def demo_text_def run)


lemma resolve_ptr_plain:
  assumes "wf_message m" "read_word m seg word = Some w" "plain_word m word w depth"
    and "resolve_ptr m seg word depth out = Some (CAPNP_OK, m', p)"
  shows "well_placed m p \<and> traversal_left m' + obj_words p + 1 \<le> traversal_left m"
proof -
  from assms(4) have b: "bounds_word m seg word = CAPNP_OK" by (auto simp: resolve_ptr_def split: if_splits)
  then have "word < 2 ^ 60" using wf_seg_words [OF assms(1), of seg] by (simp add: bounds_word_OK_iff)
  obtain m1 where c: "charge m 1 = (CAPNP_OK, m1)" and sp: "spends m 1 m1"
    using assms(4) b by (cases rule: charge_cases [of m 1]) (auto simp: resolve_ptr_def)
  have m1: "m1 = m\<lparr>traversal_left := traversal_left m - 1\<rparr>" "1 \<le> traversal_left m"
    using sp by (simp_all add: spends_def)
  have "resolve_word m1 seg word w depth out = Some (CAPNP_OK, m', p)"
    using assms(2,4) b c by (simp add: resolve_ptr_def m1)
  then have "well_placed m1 p \<and> (\<exists>k. obj_words p \<le> k \<and> spends m1 k m')"
    using assms(1,3) \<open>word < 2 ^ 60\<close> by (intro resolve_word_plain [of m1 word w depth seg out m' p]) (simp_all add: m1)
  then show ?thesis using m1 by (auto simp: spends_def)
qed

section \<open>Properties\<close>

text \<open>
  C1 Pointer resolution is memory safe. On any well formed message (each segment's byte count
  is its word count), for any position, word contents and depth, \<open>resolve_ptr\<close> performs no
  read outside a segment, always returns, and changes nothing but the traversal budget,
  which it only lowers.
\<close>

theorem resolve_ptr_memory_safe:
  "wf_message m \<Longrightarrow>
   \<exists>r m' p k. resolve_ptr m seg word depth out = Some (r, m', p) \<and>
     k \<le> traversal_left m \<and> m' = m\<lparr>traversal_left := traversal_left m - k\<rparr>"
  using resolve_ptr_pays [of m seg word depth out] by (auto simp: pays_def spends_def)

theorem resolve_ptr_memory_safe_witness:
  "\<exists>r m' p k. resolve_ptr demo_message 0 2 64 ptr0 = Some (r, m', p) \<and>
     k \<le> traversal_left demo_message \<and>
     m' = demo_message\<lparr>traversal_left := traversal_left demo_message - k\<rparr>"
  by (rule resolve_ptr_memory_safe [OF demo_wf])

text \<open>
  C2 Bounds and budget of a resolved pointer. If the word that is resolved reaches its object
  without a double-far landing pad and without a primitive list that starts before its
  segment (\<open>plain_word\<close>), a successful \<open>resolve_ptr\<close> gives a pointer whose whole object lies
  inside its segment, and the message has been charged one word for the pointer and at
  least the size of the object.
\<close>

theorem resolve_ptr_in_bounds:
  assumes "wf_message m" "read_word m seg word = Some w" "plain_word m word w depth"
    and "resolve_ptr m seg word depth out = Some (CAPNP_OK, m', p)"
  shows "well_placed m p \<and> traversal_left m' + obj_words p + 1 \<le> traversal_left m"
  by (rule resolve_ptr_plain [OF assms])

theorem resolve_ptr_in_bounds_witness:
  "well_placed demo_message demo_text \<and> 8388606 + obj_words demo_text + 1 \<le> traversal_left demo_message"
proof -
  have "read_word demo_message 0 2 = Some 0x1a00000001"
    by (simp add: demo_message_def capnp_message_init_def run)
  moreover have "plain_word demo_message 2 0x1a00000001 64"
    by (subst plain_word.simps) (simp add: run)
  moreover have "resolve_ptr demo_message 0 2 64 ptr0 =
      Some (CAPNP_OK, demo_message\<lparr>traversal_left := 8388606\<rparr>, demo_text)"
    by (rule demo_text_eq')
  ultimately show ?thesis using resolve_ptr_in_bounds [OF demo_wf] by fastforce
qed

text \<open>
  C25 The scalar readers are memory safe on what resolution returns. For a well placed pointer
  every data section reader and every typed list element reader returns a value (the field
  or the schema default) and never reads outside the segment, for every offset and index.
\<close>

theorem accessors_memory_safe:
  assumes "wf_message m" "well_placed m p"
  shows "capnp_get_u8 m p i d8 \<noteq> None \<and> capnp_get_u16 m p i d16 \<noteq> None \<and> capnp_get_u32 m p i d32 \<noteq> None \<and>
    capnp_get_u64 m p i d64 \<noteq> None \<and> capnp_get_f32 m p i d32 \<noteq> None \<and> capnp_get_f64 m p i d64 \<noteq> None \<and>
    capnp_get_bool m p i b \<noteq> None \<and>
    capnp_list_get_u8 m p i d8 \<noteq> None \<and> capnp_list_get_u16 m p i d16 \<noteq> None \<and>
    capnp_list_get_u32 m p i d32 \<noteq> None \<and> capnp_list_get_u64 m p i d64 \<noteq> None \<and>
    capnp_list_get_f32 m p i d32 \<noteq> None \<and> capnp_list_get_f64 m p i d64 \<noteq> None \<and>
    capnp_list_get_bool m p i b \<noteq> None"
  by (intro conjI getters_total list_getters_total well_placed_view_ok assms)

theorem accessors_memory_safe_witness:
  "capnp_get_u64 demo_message demo_root 0 7 \<noteq> None \<and> capnp_list_get_u8 demo_message demo_text 2 7 \<noteq> None"
  using accessors_memory_safe [OF demo_wf demo_placed(1)] accessors_memory_safe [OF demo_wf demo_placed(2)]
  by blast

text \<open>
  C33 Upgraded list elements. Reading element \<open>i\<close> of a list of 1, 2, 4 or 8 byte values through
  \<open>capnp_list_get_struct\<close> and the field at offset 0 gives the value the list reader gives,
  and a field that does not lie inside the element reads as its default: the view never
  spills into the neighbouring elements.
\<close>

theorem upgrade_view_agrees:
  assumes "wf_message m" "well_placed m l" "capnp_list_get_struct l i out = (CAPNP_OK, v)"
    and "prim_elem_bytes (p_esize l) = Some n"
  shows "(n = 1 \<longrightarrow> capnp_get_u8 m v 0 d8 = capnp_list_get_u8 m l i d8) \<and>
    (n = 2 \<longrightarrow> capnp_get_u16 m v 0 d16 = capnp_list_get_u16 m l i d16) \<and>
    (n = 4 \<longrightarrow> capnp_get_u32 m v 0 d32 = capnp_list_get_u32 m l i d32) \<and>
    (n = 8 \<longrightarrow> capnp_get_u64 m v 0 d64 = capnp_list_get_u64 m l i d64) \<and>
    (n < off + 1 \<longrightarrow> capnp_get_u8 m v off d8 = Some d8) \<and>
    (n < off + 2 \<longrightarrow> capnp_get_u16 m v off d16 = Some d16) \<and>
    (n < off + 4 \<longrightarrow> capnp_get_u32 m v off d32 = Some d32) \<and>
    (n < off + 8 \<longrightarrow> capnp_get_u64 m v off d64 = Some d64)"
  using list_get_struct_prim [OF assms] assms(4)
  by (auto simp: capnp_get_u8_def capnp_get_u16_def capnp_get_u32_def capnp_get_u64_def
      capnp_list_get_u8_def capnp_list_get_u16_def capnp_list_get_u32_def capnp_list_get_u64_def
      list_elem_addr_def list_elem_bytes_def data_has_bytes_def Let_def prim_elem_bytes_def kind_defs
      split: if_splits)

theorem upgrade_view_agrees_witness:
  "capnp_list_get_u8 demo_message demo_text 1 7 = Some 0x69 \<and>
   capnp_get_u8 demo_message (snd (capnp_list_get_struct demo_text 1 ptr0)) 0 7 = Some 0x69 \<and>
   capnp_get_u16 demo_message (snd (capnp_list_get_struct demo_text 1 ptr0)) 0 99 = Some 99"
proof -
  obtain v where v: "capnp_list_get_struct demo_text 1 ptr0 = (CAPNP_OK, v)"
    by (simp add: capnp_list_get_struct_def demo_text_def prim_elem_bytes_def run)
  have "prim_elem_bytes (p_esize demo_text) = Some 1"
    by (simp add: demo_text_def prim_elem_bytes_def kind_defs)
  note u = upgrade_view_agrees [OF demo_wf demo_placed(2) v this, where off = 0]
  have "capnp_list_get_u8 demo_message demo_text 1 7 = Some 0x69"
    by (simp add: capnp_list_get_u8_def list_elem_addr_def list_elem_bytes_def demo_text_def demo_message_def
        capnp_message_init_def run)
  with u v show ?thesis by simp
qed

text \<open>
  Text fields. When a pointer field resolves to a non-empty byte list inside its segment,
  \<open>capnp_get_text\<close> returns exactly the bytes of the list, without the last one if that is the
  NUL terminator.
\<close>

theorem get_text_bytes:
  assumes "wf_message m" "capnp_getp m s i ptr0 = Some (CAPNP_OK, m', l)" "wf_message m'" "well_placed m' l"
    and "p_kind l = PK_LIST" "p_esize l = SZ_BYTE" "0 < p_count l"
  shows "\<exists>raw r. seg_read m' (p_seg l) (p_word l * 8) (p_count l) = Some raw \<and>
    capnp_get_text m s i = Some (CAPNP_OK, m', r) \<and>
    ref_bytes m' r = Some (if last raw = 0 then butlast raw else raw)"
proof -
  obtain raw r where t: "seg_read m' (p_seg l) (p_word l * 8) (p_count l) = Some raw" "text_at m' l = Some r"
    "ref_bytes m' r = Some (if last raw = 0 then butlast raw else raw)"
    using text_at_eq [OF assms(3-7)] by blast
  have "capnp_get_text m s i = Some (CAPNP_OK, m', r)"
    using assms t(2) by (simp add: capnp_get_text_def)
  with t show ?thesis by blast
qed

theorem get_text_bytes_witness:
  "\<exists>m' r. capnp_get_text demo_message demo_root 0 = Some (CAPNP_OK, m', r) \<and> ref_bytes m' r = Some [0x68, 0x69]"
proof -
  let ?m = "demo_message\<lparr>traversal_left := 8388606\<rparr>"
  have "wf_message ?m" "well_placed ?m demo_text" by (simp_all add: demo_wf demo_placed)
  moreover have "p_kind demo_text = PK_LIST" "p_esize demo_text = SZ_BYTE" "0 < p_count demo_text"
    by (simp_all add: demo_text_def)
  ultimately obtain raw r where "seg_read ?m (p_seg demo_text) (p_word demo_text * 8) (p_count demo_text) = Some raw"
    "capnp_get_text demo_message demo_root 0 = Some (CAPNP_OK, ?m, r)"
    "ref_bytes ?m r = Some (if last raw = 0 then butlast raw else raw)"
    using get_text_bytes [OF demo_wf demo_text_eq] by blast
  then show ?thesis
    by (auto simp: demo_message_def capnp_message_init_def demo_text_def ptr0_def seg_read_def rd_def)
qed

end
