(* ===== verification/Limits.thy ===== *)
theory Limits
  imports Views
begin

text \<open>
  The limits of pointer resolution: the depth limit ends every chain of far pointers, cyclic
  ones included, and the two places where \<open>resolve_word\<close> accepts a pointer whose object is
  not inside a segment (so that \<open>plain_word\<close> in theory \<open>Message\<close> is needed).
\<close>

section \<open>Far pointers that land on themselves\<close>

definition self_far :: "message \<Rightarrow> nat \<Rightarrow> nat \<Rightarrow> u64 \<Rightarrow> bool" where
  "self_far m s a w \<longleftrightarrow>
     bounds_word m s a = CAPNP_OK \<and> read_word m s a = Some w \<and> capnp_wp_kind w = CAPNP_WK_FAR \<and>
     \<not> capnp_wp_far_two w \<and> capnp_wp_far_seg w = s \<and> capnp_wp_far_off w = a"

lemma self_far_nonzero: "self_far m s a w \<Longrightarrow> w \<noteq> 0"
  by (auto simp: self_far_def capnp_wp_kind_def kind_defs)

lemma self_far_depth:
  "\<lbrakk>self_far m s a w; n \<le> traversal_left m\<rbrakk> \<Longrightarrow>
   resolve_word m s a w (int n) out =
     Some (CAPNP_ERR_DEPTH, m\<lparr>traversal_left := traversal_left m - n\<rparr>,
           out\<lparr>p_body_byte := 0, p_data_bits := 0\<rparr>)"
proof (induction n arbitrary: m out)
  case 0
  then show ?case by (simp add: resolve_word.simps [of m s a w 0 out])
next
  case (Suc n)
  let ?m = "m\<lparr>traversal_left := traversal_left m - 1\<rparr>"
  have f: "self_far ?m s a w" using Suc.prems(1) by (simp add: self_far_def)
  have "charge m 1 = (CAPNP_OK, ?m)" using Suc.prems(2) by (simp add: charge_OK_iff spends_def)
  then have "resolve_word m s a w (int (Suc n)) out =
      resolve_word ?m s a w (int n) (out\<lparr>p_body_byte := 0, p_data_bits := 0\<rparr>)"
    using Suc.prems(1) self_far_nonzero [OF Suc.prems(1)]
    by (subst resolve_word.simps) (simp add: self_far_def)
  also have "\<dots> = Some (CAPNP_ERR_DEPTH, ?m\<lparr>traversal_left := traversal_left ?m - n\<rparr>,
      out\<lparr>p_body_byte := 0, p_data_bits := 0\<rparr>)"
    using Suc.IH [OF f] Suc.prems(2) by simp
  finally show ?case by simp
qed

text \<open>A message whose root word is a far pointer to itself.\<close>

definition cycle_message :: message where
  "cycle_message = capnp_message_init
     \<lparr>msegs := \<lparr>seg_data = Some [2, 0, 0, 0, 0, 0, 0, 0], seg_words = 1\<rparr> # replicate 15 null_segment,
      nsegs := 1\<rparr>"

section \<open>Objects outside their segment\<close>

text \<open>The root is a double-far pointer to the pad at word 1; the pad names word 1000 of
  segment 0, which has three words, and the tag says one data word.\<close>

definition double_far_message :: message where
  "double_far_message = capnp_message_init
     \<lparr>msegs := \<lparr>seg_data = Some [0x0e, 0, 0, 0, 0, 0, 0, 0, 0x42, 0x1f, 0, 0, 0, 0, 0, 0,
                               0, 0, 0, 0, 1, 0, 0, 0], seg_words = 3\<rparr> # replicate 15 null_segment,
      nsegs := 1\<rparr>"

text \<open>The root is a list of three 8-byte elements at word offset -3: it starts two words
  before the segment, and its last word is word 0.\<close>

definition negative_list_message :: message where
  "negative_list_message = capnp_message_init
     \<lparr>msegs := \<lparr>seg_data = Some [0xf5, 0xff, 0xff, 0xff, 0x1d, 0, 0, 0], seg_words = 1\<rparr> #
                replicate 15 null_segment,
      nsegs := 1\<rparr>"

lemmas run_far = resolve_double_far_def capnp_wp_far_two_def capnp_wp_far_off_def capnp_wp_far_seg_def

section \<open>Properties\<close>

text \<open>
  Termination on cyclic far pointers. A far pointer that lands on itself is followed
  exactly \<open>depth\<close> times, one word of budget each, and then reported as \<open>CAPNP_ERR_DEPTH\<close>
  (when the budget lasts that long), so a hostile message cannot make the reader loop.
\<close>

theorem far_cycle_depth:
  assumes "self_far m s a w" "n < traversal_left m"
  shows "resolve_ptr m s a (int n) out =
    Some (CAPNP_ERR_DEPTH, m\<lparr>traversal_left := traversal_left m - 1 - n\<rparr>,
          out\<lparr>p_body_byte := 0, p_data_bits := 0\<rparr>)"
proof -
  let ?m = "m\<lparr>traversal_left := traversal_left m - 1\<rparr>"
  have "charge m 1 = (CAPNP_OK, ?m)" using assms(2) by (simp add: charge_OK_iff spends_def)
  moreover have "self_far ?m s a w" using assms(1) by (simp add: self_far_def)
  ultimately show ?thesis
    using assms self_far_depth [of ?m s a w n out] by (simp add: resolve_ptr_def self_far_def)
qed

theorem far_cycle_depth_witness:
  "resolve_ptr cycle_message 0 0 64 ptr0 =
     Some (CAPNP_ERR_DEPTH, cycle_message\<lparr>traversal_left := 8388543\<rparr>, ptr0)"
proof -
  have "self_far cycle_message 0 0 2"
    by (simp add: self_far_def cycle_message_def capnp_message_init_def run run_far)
  moreover have "traversal_left cycle_message = 8388608"
    by (simp add: cycle_message_def capnp_message_init_def DEFAULT_TRAVERSAL_WORDS_def)
  ultimately show ?thesis
    using far_cycle_depth [of cycle_message 0 0 2 64 ptr0] by (simp add: ptr0_def)
qed

text \<open>
  Double-far struct pointers are not bounds checked. On a well formed three-word message
  \<open>capnp_root\<close> succeeds with a struct whose body is at word 1000, and reading its first field
  with \<open>capnp_get_u64\<close> reads outside the segment.
\<close>

theorem double_far_reads_outside:
  "wf_message double_far_message \<and>
   (case capnp_root double_far_message ptr0 of
      Some (CAPNP_OK, m, s) \<Rightarrow>
        p_kind s = PK_STRUCT \<and> p_word s = 1000 \<and> \<not> in_bounds m s \<and> capnp_get_u64 m s 0 0 = None
    | _ \<Rightarrow> False)"
proof
  show "wf_message double_far_message"
    by (simp add: double_far_message_def capnp_message_init_def wf_message_def wf_segment_def
        MAX_SEGMENTS_def WORD_BYTES_def)
  have "capnp_root double_far_message ptr0 =
      Some (CAPNP_OK, double_far_message\<lparr>traversal_left := 8388604\<rparr>,
            ptr0\<lparr>p_word := 1000, p_kind := PK_STRUCT, p_dwords := 1\<rparr>)"
    by (simp add: capnp_root_def double_far_message_def capnp_message_init_def
        DEFAULT_DEPTH_LIMIT_def DEFAULT_TRAVERSAL_WORDS_def run run_far)
  then show "case capnp_root double_far_message ptr0 of
      Some (CAPNP_OK, m, s) \<Rightarrow>
        p_kind s = PK_STRUCT \<and> p_word s = 1000 \<and> \<not> in_bounds m s \<and> capnp_get_u64 m s 0 0 = None
    | _ \<Rightarrow> False"
    by (simp add: in_bounds_def obj_words_def double_far_message_def capnp_message_init_def
        capnp_get_u64_def data_has_bytes_def data_bytes_def data_bit_count_def run)
qed

text \<open>
  Primitive lists that start before their segment are accepted. The check of
  \<open>resolve_word\<close> looks at the last word of the list only, so on a well formed one-word message
  \<open>capnp_root\<close> succeeds with a list that starts two words before the segment, and
  \<open>capnp_list_get_u64\<close> of element 0 reads outside the segment.
\<close>

theorem negative_list_reads_outside:
  "wf_message negative_list_message \<and>
   (case capnp_root negative_list_message ptr0 of
      Some (CAPNP_OK, m, l) \<Rightarrow>
        p_kind l = PK_LIST \<and> p_count l = 3 \<and> \<not> in_bounds m l \<and> capnp_list_get_u64 m l 0 0 = None
    | _ \<Rightarrow> False)"
proof
  show "wf_message negative_list_message"
    by (simp add: negative_list_message_def capnp_message_init_def wf_message_def wf_segment_def
        MAX_SEGMENTS_def WORD_BYTES_def)
  have "capnp_root negative_list_message ptr0 =
      Some (CAPNP_OK, negative_list_message\<lparr>traversal_left := 8388604\<rparr>,
            ptr0\<lparr>p_word := 2 ^ 64 - 2, p_kind := PK_LIST, p_esize := 5, p_count := 3\<rparr>)"
    by (simp add: capnp_root_def negative_list_message_def capnp_message_init_def
        DEFAULT_DEPTH_LIMIT_def DEFAULT_TRAVERSAL_WORDS_def run)
  then show "case capnp_root negative_list_message ptr0 of
      Some (CAPNP_OK, m, l) \<Rightarrow>
        p_kind l = PK_LIST \<and> p_count l = 3 \<and> \<not> in_bounds m l \<and> capnp_list_get_u64 m l 0 0 = None
    | _ \<Rightarrow> False"
    by (simp add: in_bounds_def obj_words_def negative_list_message_def capnp_message_init_def
        capnp_list_get_u64_def list_elem_addr_def list_elem_bytes_def run)
qed

end
