(* ===== verification/Arena.thy ===== *)
theory Arena
  imports Framing
begin

text \<open>
  The lower half of \<open>src/capnp_builder.c\<close>: the segment arena (\<open>alloc_words\<close>, \<open>alloc_in\<close>,
  \<open>alloc_pad_segment\<close> and what they call), \<open>store_w\<close>, the two pointer writers with their far
  and double-far forms, and the life cycle of a builder; also \<open>alloc_local\<close>, the allocator of
  \<open>src/capnp_canonical.c\<close>, which shares the arena.

  \<open>capnp_builder_t\<close> is the record \<open>builder\<close>: the segments are a list whose length is
  \<open>nsegs\<close>, \<open>segs_cap\<close> is kept. The data of a segment is the whole allocated object (its
  capacity). \<open>segs_of\<close> is the abstract state: the used bytes of every segment. Allocations
  are described by what they do to \<open>segs_of\<close>; the interface \<open>arena\<close> states that contract once
  for the three allocators.

  Requests to the C allocator are computed without wrap-around: one beyond the address space
  is one that \<open>mem_ok\<close> refuses (\<open>address_space\<close>).
\<close>

section \<open>State\<close>

record bseg =
  b_data :: "byte list"
  b_words :: nat
  b_cap :: nat

record builder =
  bsegs :: "bseg list"
  segs_cap :: nat
  max_seg_words :: nat
  force_single :: bool

record bptr =
  bp_seg :: nat
  bp_word :: nat

definition BUILDER_DEFAULT_FIRST_WORDS :: nat where "BUILDER_DEFAULT_FIRST_WORDS = 1024"
definition BUILDER_MAX_SEGMENT_WORDS :: nat where "BUILDER_MAX_SEGMENT_WORDS = 2 ^ 29"

text \<open>\<open>sizeof(capnp_bseg_t)\<close> on a 64-bit target.\<close>

definition BSEG_SIZE :: nat where "BSEG_SIZE = 24"

definition builder0 :: builder where
  "builder0 = \<lparr>bsegs = [], segs_cap = 0, max_seg_words = 0, force_single = False\<rparr>"

section \<open>Growing\<close>

definition lim_words :: "builder \<Rightarrow> nat" where
  "lim_words b = (if max_seg_words b \<noteq> 0 then max_seg_words b else BUILDER_MAX_SEGMENT_WORDS)"

text \<open>\<open>while (ncap < need) ncap *= 2\<close>; the code starts it with a positive value.\<close>

function double_until :: "nat \<Rightarrow> nat \<Rightarrow> nat" where
  "double_until ncap need =
     (if 0 < ncap \<and> ncap < need then double_until (ncap * 2) need else ncap)"
  by pat_completeness auto
termination
  by (relation "measure (\<lambda>(ncap, need). need - ncap)") auto

declare double_until.simps [simp del]

definition ensure_segs_cap :: "allocator \<Rightarrow> builder \<Rightarrow> nat \<Rightarrow> rc \<times> builder" where
  "ensure_segs_cap A b need =
     (if need \<le> segs_cap b then (CAPNP_OK, b)
      else let ncap = double_until (if segs_cap b \<noteq> 0 then segs_cap b * 2 else 4) need in
        if mem_ok A (ncap * BSEG_SIZE) then (CAPNP_OK, b\<lparr>segs_cap := ncap\<rparr>)
        else (CAPNP_ERR_ALLOC, b))"

definition seg_ensure :: "allocator \<Rightarrow> builder \<Rightarrow> nat \<Rightarrow> nat \<Rightarrow> (rc \<times> builder) option" where
  "seg_ensure A b seg need_words =
     (if seg \<ge> length (bsegs b) then Some (CAPNP_ERR_SEGMENT, b)
      else let s = bsegs b ! seg; lim = lim_words b in
        if need_words \<le> b_cap s then Some (CAPNP_OK, b)
        else if need_words > lim then Some (CAPNP_ERR_ALLOC, b)
        else let ncap = double_until (if b_cap s \<noteq> 0 then b_cap s * 2 else 16) need_words;
                 ncap = (if ncap > lim then lim else ncap)
          in if ncap < need_words then Some (CAPNP_ERR_ALLOC, b)
             else (case c_realloc A (b_data s) (ncap * WORD_BYTES) of
                 None \<Rightarrow> Some (CAPNP_ERR_ALLOC, b)
               | Some p \<Rightarrow> do {
                   p \<leftarrow> (if ncap > b_cap s
                         then wr p (b_cap s * WORD_BYTES) (replicate ((ncap - b_cap s) * WORD_BYTES) 0)
                         else Some p);
                   Some (CAPNP_OK,
                     b\<lparr>bsegs := (bsegs b)[seg := s\<lparr>b_data := p, b_cap := ncap\<rparr>]\<rparr>) }))"

definition append_segment :: "allocator \<Rightarrow> builder \<Rightarrow> nat \<Rightarrow> rc \<times> builder" where
  "append_segment A b cap_words =
     (let lim = lim_words b;
          cap_words = (if cap_words < 1 then 1 else cap_words);
          cap_words = (if cap_words > lim then lim else cap_words)
      in case ensure_segs_cap A b (length (bsegs b) + 1) of (r, b) \<Rightarrow>
           if r \<noteq> CAPNP_OK then (CAPNP_ERR_ALLOC, b)
           else (case c_calloc A (cap_words * WORD_BYTES) of
               None \<Rightarrow> (CAPNP_ERR_ALLOC, b)
             | Some d \<Rightarrow>
                 (CAPNP_OK,
                  b\<lparr>bsegs := bsegs b @ [\<lparr>b_data = d, b_words = 0, b_cap = cap_words\<rparr>]\<rparr>)))"

section \<open>Allocation\<close>

text \<open>Results: return code, builder, \<open>*out_seg\<close>, \<open>*out_word\<close> (0 where the code leaves them).\<close>

definition use_words :: "builder \<Rightarrow> nat \<Rightarrow> nat \<Rightarrow> builder" where
  "use_words b seg w = b\<lparr>bsegs := (bsegs b)[seg := (bsegs b ! seg)\<lparr>b_words := w\<rparr>]\<rparr>"

definition alloc_words ::
    "allocator \<Rightarrow> builder \<Rightarrow> nat \<Rightarrow> (rc \<times> builder \<times> nat \<times> nat) option" where
  "alloc_words A b n =
     (let lim = lim_words b; i = length (bsegs b) - 1; last = bsegs b ! i in
      if length (bsegs b) = 0 then Some (CAPNP_ERR_ARG, b, 0, 0)
      else if n > lim then Some (CAPNP_ERR_ALLOC, b, 0, 0)
      else if b_words last + n \<le> b_cap last \<and> b_words last + n \<le> lim
      then Some (CAPNP_OK, use_words b i (b_words last + n), i, b_words last)
      else if force_single b then
        (case seg_ensure A b i (b_words last + n) of
           None \<Rightarrow> None
         | Some (r, b) \<Rightarrow>
             if r \<noteq> CAPNP_OK then Some (CAPNP_ERR_ALLOC, b, 0, 0)
             else let last = bsegs b ! i in
               Some (CAPNP_OK, use_words b i (b_words last + n), i, b_words last))
      else
        let ncap = (if b_cap last \<noteq> 0 then b_cap last * 2 else 16);
            ncap = (if ncap < n then n else ncap);
            ncap = (if ncap > lim then lim else ncap)
        in if ncap < n then Some (CAPNP_ERR_ALLOC, b, 0, 0)
           else (case append_segment A b ncap of (r, b) \<Rightarrow>
             if r \<noteq> CAPNP_OK then Some (CAPNP_ERR_ALLOC, b, 0, 0)
             else let i = length (bsegs b) - 1 in
               Some (CAPNP_OK, use_words b i n, i, 0)))"

definition alloc_in ::
    "allocator \<Rightarrow> nat \<Rightarrow> builder \<Rightarrow> nat \<Rightarrow> (rc \<times> builder \<times> nat \<times> nat) option" where
  "alloc_in A seg b n =
     (if seg \<ge> length (bsegs b) then Some (CAPNP_ERR_ARG, b, seg, 0)
      else let s = bsegs b ! seg in
        if b_words s + n > lim_words b then Some (CAPNP_ERR_ALLOC, b, seg, 0)
        else (case seg_ensure A b seg (b_words s + n) of
            None \<Rightarrow> None
          | Some (r, b) \<Rightarrow>
              if r \<noteq> CAPNP_OK then Some (CAPNP_ERR_ALLOC, b, seg, 0)
              else let s = bsegs b ! seg in
                Some (CAPNP_OK, use_words b seg (b_words s + n), seg, b_words s)))"

definition alloc_pad_segment ::
    "allocator \<Rightarrow> builder \<Rightarrow> nat \<Rightarrow> rc \<times> builder \<times> nat \<times> nat" where
  "alloc_pad_segment A b n =
     (let saved = max_seg_words b;
          need = (if n < 1 then 1 else n);
          b = (if saved \<noteq> 0 \<and> saved < need then b\<lparr>max_seg_words := need\<rparr> else b)
      in case append_segment A b need of (r, b) \<Rightarrow>
           let b = b\<lparr>max_seg_words := saved\<rparr> in
           if r \<noteq> CAPNP_OK then (CAPNP_ERR_ALLOC, b, 0, 0)
           else let i = length (bsegs b) - 1 in (CAPNP_OK, use_words b i need, i, 0))"

text \<open>\<open>alloc_local\<close> of the canonicalizer: always the last segment, whatever its limit. With
  \<open>n == 0\<close> it reads \<open>segs[nsegs - 1]\<close> before any check.\<close>

definition alloc_local ::
    "allocator \<Rightarrow> builder \<Rightarrow> nat \<Rightarrow> (rc \<times> builder \<times> nat \<times> nat) option" where
  "alloc_local A b n =
     (let i = length (bsegs b) - 1; last = bsegs b ! i in
      if n = 0 then
        (if length (bsegs b) = 0 then None else Some (CAPNP_OK, b, i, b_words last))
      else if length (bsegs b) = 0 then Some (CAPNP_ERR_ARG, b, 0, 0)
      else if b_words last + n > b_cap last then
        (let ncap = double_until (if b_cap last \<noteq> 0 then b_cap last * 2 else 16) (b_words last + n) in
         case c_realloc A (b_data last) (ncap * WORD_BYTES) of
           None \<Rightarrow> Some (CAPNP_ERR_ALLOC, b, 0, 0)
         | Some p \<Rightarrow> do {
             p \<leftarrow> (if ncap > b_cap last
                   then wr p (b_cap last * WORD_BYTES) (replicate ((ncap - b_cap last) * WORD_BYTES) 0)
                   else Some p);
             let b = b\<lparr>bsegs := (bsegs b)[i := last\<lparr>b_data := p, b_cap := ncap\<rparr>]\<rparr>;
             Some (CAPNP_OK, use_words b i (b_words last + n), i, b_words last) })
      else Some (CAPNP_OK, use_words b i (b_words last + n), i, b_words last))"

section \<open>Stores and pointer words\<close>

text \<open>A store of \<open>bs\<close> at byte address \<open>a\<close> of segment \<open>seg\<close>'s object.\<close>

definition seg_store :: "builder \<Rightarrow> nat \<Rightarrow> nat \<Rightarrow> byte list \<Rightarrow> builder option" where
  "seg_store b seg a bs =
     (if seg < length (bsegs b)
      then do { d \<leftarrow> wr (b_data (bsegs b ! seg)) a bs;
                Some (b\<lparr>bsegs := (bsegs b)[seg := (bsegs b ! seg)\<lparr>b_data := d\<rparr>]\<rparr>) }
      else None)"

definition store_w :: "builder \<Rightarrow> nat \<Rightarrow> nat \<Rightarrow> u64 \<Rightarrow> builder option" where
  "store_w b seg word w = seg_store b seg (sz (word * WORD_BYTES)) (capnp_store_le64 w)"

text \<open>\<open>write_struct_ptr\<close> and \<open>write_list_ptr\<close> differ only in the pointer word they make for an
  offset; \<open>mk\<close> is that word. \<open>(int32_t)\<close> of an offset is left to \<open>mk\<close>, which keeps 30 bits.\<close>

definition write_ptr ::
    "allocator \<Rightarrow> builder \<Rightarrow> nat \<Rightarrow> nat \<Rightarrow> nat \<Rightarrow> nat \<Rightarrow> (int \<Rightarrow> u64) \<Rightarrow> (rc \<times> builder) option" where
  "write_ptr A b slot_seg slot_word body_seg body_word mk =
     (if slot_seg = body_seg then do {
        b \<leftarrow> store_w b slot_seg slot_word (mk (int body_word - int slot_word - 1));
        Some (CAPNP_OK, b) }
      else do {
        (r, b, _, pad) \<leftarrow> alloc_in A body_seg b 1;
        if r = CAPNP_OK then do {
          b \<leftarrow> store_w b body_seg pad (mk (int body_word - int pad - 1));
          b \<leftarrow> store_w b slot_seg slot_word (capnp_wp_make_far False pad body_seg);
          Some (CAPNP_OK, b) }
        else case alloc_pad_segment A b 2 of (r, b, pad_seg, pad_word) \<Rightarrow>
          if r \<noteq> CAPNP_OK then Some (CAPNP_ERR_ALLOC, b)
          else do {
            b \<leftarrow> store_w b pad_seg pad_word (capnp_wp_make_far False body_word body_seg);
            b \<leftarrow> store_w b pad_seg (pad_word + 1) (mk 0);
            b \<leftarrow> store_w b slot_seg slot_word (capnp_wp_make_far True pad_word pad_seg);
            Some (CAPNP_OK, b) } })"

definition write_struct_ptr ::
    "allocator \<Rightarrow> builder \<Rightarrow> nat \<Rightarrow> nat \<Rightarrow> nat \<Rightarrow> nat \<Rightarrow> nat \<Rightarrow> nat \<Rightarrow> (rc \<times> builder) option" where
  "write_struct_ptr A b slot_seg slot_word body_seg body_word dwords pwords =
     write_ptr A b slot_seg slot_word body_seg body_word
       (\<lambda>off. capnp_wp_make_struct off dwords pwords)"

definition write_list_ptr ::
    "allocator \<Rightarrow> builder \<Rightarrow> nat \<Rightarrow> nat \<Rightarrow> nat \<Rightarrow> nat \<Rightarrow> nat \<Rightarrow> nat \<Rightarrow> (rc \<times> builder) option" where
  "write_list_ptr A b slot_seg slot_word content_seg content_word esize count =
     write_ptr A b slot_seg slot_word content_seg content_word
       (\<lambda>off. capnp_wp_make_list off esize count)"

section \<open>Life cycle\<close>

definition capnp_builder_init_sized :: "allocator \<Rightarrow> nat \<Rightarrow> builder" where
  "capnp_builder_init_sized A first_words =
     (let first_words = (if first_words < 1 then 1 else first_words);
          first_words = (if first_words > BUILDER_MAX_SEGMENT_WORDS
                         then BUILDER_MAX_SEGMENT_WORDS else first_words)
      in case append_segment A builder0 first_words of (r, b) \<Rightarrow>
           if r \<noteq> CAPNP_OK then builder0 else b)"

definition capnp_builder_init :: "allocator \<Rightarrow> builder" where
  "capnp_builder_init A = capnp_builder_init_sized A BUILDER_DEFAULT_FIRST_WORDS"

definition capnp_builder_set_max_seg_words :: "builder \<Rightarrow> nat \<Rightarrow> builder" where
  "capnp_builder_set_max_seg_words b max_words = b\<lparr>max_seg_words := max_words\<rparr>"

definition capnp_builder_free :: "builder \<Rightarrow> builder" where
  "capnp_builder_free b = builder0"

definition capnp_builder_nsegs :: "builder \<Rightarrow> nat" where
  "capnp_builder_nsegs b = length (bsegs b)"

definition capnp_builder_seg_words :: "builder \<Rightarrow> nat \<Rightarrow> nat" where
  "capnp_builder_seg_words b seg =
     (if seg \<ge> length (bsegs b) then 0 else b_words (bsegs b ! seg))"

definition capnp_builder_seg_data :: "builder \<Rightarrow> nat \<Rightarrow> byte list option" where
  "capnp_builder_seg_data b seg =
     (if seg \<ge> length (bsegs b) then None else Some (b_data (bsegs b ! seg)))"

end
