(* ===== verification/ArenaSpec.thy ===== *)
theory ArenaSpec
  imports Arena "HOL-Library.Sublist"
begin

text \<open>
  What the arena of theory \<open>Arena\<close> promises. \<open>segs_of\<close> abstracts a builder to the used bytes of
  its segments; \<open>builder_inv\<close> says that every segment object has its capacity, and that the
  unused part is zero. The locale \<open>arena\<close> is the contract of an allocator over that state
  (fresh zeroed words at the end of one segment, nothing else changed) with its
  consequences; \<open>alloc_words\<close>, \<open>alloc_in\<close> and \<open>alloc_local\<close> are its three interpretations.
\<close>

section \<open>Abstract state and invariant\<close>

definition seg_used :: "bseg \<Rightarrow> byte list" where
  "seg_used s = take (b_words s * 8) (b_data s)"

definition segs_of :: "builder \<Rightarrow> byte list list" where
  "segs_of b = map seg_used (bsegs b)"

definition bseg_ok :: "bseg \<Rightarrow> bool" where
  "bseg_ok s \<longleftrightarrow>
     length (b_data s) = b_cap s * 8 \<and> b_words s \<le> b_cap s \<and> b_cap s < 2 ^ 60 \<and>
     drop (b_words s * 8) (b_data s) = replicate ((b_cap s - b_words s) * 8) 0"

definition builder_inv :: "builder \<Rightarrow> bool" where
  "builder_inv b \<longleftrightarrow> list_all bseg_ok (bsegs b)"

text \<open>Documented behaviour of \<open>malloc\<close>: no object is larger than half the address space.\<close>

definition address_space :: "allocator \<Rightarrow> bool" where
  "address_space A \<longleftrightarrow> (\<forall>n. mem_ok A n \<longrightarrow> n < 2 ^ 63)"

lemma length_segs_of [simp]: "length (segs_of b) = length (bsegs b)"
  by (simp add: segs_of_def)

lemma nth_segs_of: "i < length (bsegs b) \<Longrightarrow> segs_of b ! i = seg_used (bsegs b ! i)"
  by (simp add: segs_of_def)

lemma builder_invD: "builder_inv b \<Longrightarrow> i < length (bsegs b) \<Longrightarrow> bseg_ok (bsegs b ! i)"
  by (simp add: builder_inv_def list_all_length)

lemma length_seg_used: "bseg_ok s \<Longrightarrow> length (seg_used s) = b_words s * 8"
  by (simp add: bseg_ok_def seg_used_def)

lemma length_nth_segs:
  "builder_inv b \<Longrightarrow> i < length (bsegs b) \<Longrightarrow> length (segs_of b ! i) = b_words (bsegs b ! i) * 8"
  by (simp add: nth_segs_of length_seg_used builder_invD)

lemma builder_inv_update:
  "builder_inv b \<Longrightarrow> bseg_ok s \<Longrightarrow> builder_inv (b\<lparr>bsegs := (bsegs b)[i := s]\<rparr>)"
  unfolding builder_inv_def list_all_iff using set_update_subset_insert by fastforce

lemma builder_inv_append: "builder_inv b \<Longrightarrow> bseg_ok s \<Longrightarrow> builder_inv (b\<lparr>bsegs := bsegs b @ [s]\<rparr>)"
  by (simp add: builder_inv_def)

lemma segs_of_update: "segs_of (b\<lparr>bsegs := (bsegs b)[i := s]\<rparr>) = (segs_of b)[i := seg_used s]"
  by (simp add: segs_of_def map_update)

lemma builder_fields [simp]:
  "segs_of (b\<lparr>max_seg_words := n\<rparr>) = segs_of b" "builder_inv (b\<lparr>max_seg_words := n\<rparr>) = builder_inv b"
  "segs_of (b\<lparr>segs_cap := n\<rparr>) = segs_of b" "builder_inv (b\<lparr>segs_cap := n\<rparr>) = builder_inv b"
  by (simp_all add: segs_of_def builder_inv_def)

section \<open>Growing keeps the used bytes\<close>

lemma double_until_ge: "0 < ncap \<Longrightarrow> need \<le> double_until ncap need"
  by (induction ncap need rule: double_until.induct) (subst double_until.simps, auto)

lemma grow_data:
  assumes "bseg_ok s" "b_cap s < ncap" "mem_ok A (ncap * 8)"
  shows "\<exists>p0 p. c_realloc A (b_data s) (ncap * WORD_BYTES) = Some p0 \<and>
    wr p0 (b_cap s * WORD_BYTES) (replicate ((ncap - b_cap s) * WORD_BYTES) 0) = Some p \<and>
    p = b_data s @ replicate ((ncap - b_cap s) * 8) 0"
  using assms by (simp add: c_realloc_def WORD_BYTES_def bseg_ok_def wr_def)

lemma grown_seg_ok:
  assumes "bseg_ok s" "b_cap s < ncap" "ncap < 2 ^ 60"
    "p = b_data s @ replicate ((ncap - b_cap s) * 8) 0"
  shows "bseg_ok (s\<lparr>b_data := p, b_cap := ncap\<rparr>)" "seg_used (s\<lparr>b_data := p, b_cap := ncap\<rparr>) = seg_used s"
proof -
  have "(ncap - b_words s) * 8 = (b_cap s - b_words s) * 8 + (ncap - b_cap s) * 8"
    using assms by (simp add: bseg_ok_def flip: add_mult_distrib)
  then show "bseg_ok (s\<lparr>b_data := p, b_cap := ncap\<rparr>)"
    using assms by (simp add: bseg_ok_def replicate_add)
  show "seg_used (s\<lparr>b_data := p, b_cap := ncap\<rparr>) = seg_used s"
    using assms by (simp add: seg_used_def bseg_ok_def)
qed

lemma segs_of_same: "i < length (bsegs b) \<Longrightarrow> seg_used s = seg_used (bsegs b ! i) \<Longrightarrow>
   segs_of (b\<lparr>bsegs := (bsegs b)[i := s]\<rparr>) = segs_of b"
  by (simp add: segs_of_update) (metis list_update_id nth_segs_of)

lemma seg_ensure_cases:
  assumes inv: "builder_inv b" and as: "address_space A" and i: "i < length (bsegs b)"
  obtains (same) "seg_ensure A b i need = Some (CAPNP_OK, b)" "need \<le> b_cap (bsegs b ! i)"
  | (fail) "seg_ensure A b i need = Some (CAPNP_ERR_ALLOC, b)"
  | (grown) s where "seg_ensure A b i need = Some (CAPNP_OK, b\<lparr>bsegs := (bsegs b)[i := s]\<rparr>)"
      "bseg_ok s" "need \<le> b_cap s" "b_words s = b_words (bsegs b ! i)" "seg_used s = seg_used (bsegs b ! i)"
proof -
  define s where "s = bsegs b ! i"
  define nc where "nc = double_until (if b_cap s \<noteq> 0 then b_cap s * 2 else 16) need"
  define ncap where "ncap = (if nc > lim_words b then lim_words b else nc)"
  have ok: "bseg_ok s" unfolding s_def by (rule builder_invD [OF inv i])
  have e: "seg_ensure A b i need =
     (if need \<le> b_cap s then Some (CAPNP_OK, b)
      else if need > lim_words b then Some (CAPNP_ERR_ALLOC, b)
      else if ncap < need then Some (CAPNP_ERR_ALLOC, b)
      else case c_realloc A (b_data s) (ncap * WORD_BYTES) of
          None \<Rightarrow> Some (CAPNP_ERR_ALLOC, b)
        | Some p \<Rightarrow> do {
            p \<leftarrow> (if ncap > b_cap s
                  then wr p (b_cap s * WORD_BYTES) (replicate ((ncap - b_cap s) * WORD_BYTES) 0)
                  else Some p);
            Some (CAPNP_OK, b\<lparr>bsegs := (bsegs b)[i := s\<lparr>b_data := p, b_cap := ncap\<rparr>]\<rparr>) })"
    unfolding seg_ensure_def Let_def
    unfolding s_def [symmetric] nc_def [symmetric]
    unfolding ncap_def [symmetric]
    using i by simp
  show ?thesis
  proof (cases "need \<le> b_cap s \<or> need > lim_words b \<or> ncap < need \<or> \<not> mem_ok A (ncap * 8)")
    case True
    then have "seg_ensure A b i need = Some (CAPNP_OK, b) \<and> need \<le> b_cap s \<or>
        seg_ensure A b i need = Some (CAPNP_ERR_ALLOC, b)"
      unfolding e by (auto simp: c_realloc_def WORD_BYTES_def)
    then show ?thesis using same fail by (auto simp: s_def)
  next
    case False
    then have lt: "b_cap s < ncap" and m: "mem_ok A (ncap * 8)" by auto
    have n60: "ncap < 2 ^ 60" using m as by (auto simp: address_space_def)
    obtain p0 p where p: "c_realloc A (b_data s) (ncap * WORD_BYTES) = Some p0"
      "wr p0 (b_cap s * WORD_BYTES) (replicate ((ncap - b_cap s) * WORD_BYTES) 0) = Some p"
      "p = b_data s @ replicate ((ncap - b_cap s) * 8) 0"
      using grow_data [OF ok lt m] by blast
    show ?thesis
    proof (rule grown)
      show "seg_ensure A b i need = Some (CAPNP_OK, b\<lparr>bsegs := (bsegs b)[i := s\<lparr>b_data := p, b_cap := ncap\<rparr>]\<rparr>)"
        unfolding e p(1) option.case using False lt p(2) by simp
    qed (use grown_seg_ok [OF ok lt n60 p(3)] False in \<open>simp_all add: s_def\<close>)
  qed
qed

lemma append_segment_cases:
  assumes inv: "builder_inv b" and as: "address_space A"
  obtains (fail) b' where "append_segment A b n = (CAPNP_ERR_ALLOC, b')" "builder_inv b'" "segs_of b' = segs_of b"
      "max_seg_words b' = max_seg_words b"
  | (ok) b' cap where "append_segment A b n = (CAPNP_OK, b')" "builder_inv b'"
      "bsegs b' = bsegs b @ [\<lparr>b_data = replicate (cap * 8) 0, b_words = 0, b_cap = cap\<rparr>]"
      "max_seg_words b' = max_seg_words b" "min (max n 1) (lim_words b) = cap" "cap < 2 ^ 60"
proof -
  define cap where "cap = min (max n 1) (lim_words b)"
  have cap': "(if (if n < 1 then 1 else n) > lim_words b then lim_words b else if n < 1 then 1 else n) = cap"
    by (auto simp: cap_def min_def max_def)
  obtain b1 r where e: "ensure_segs_cap A b (length (bsegs b) + 1) = (r, b1)" by (cases "ensure_segs_cap A b (length (bsegs b) + 1)") auto
  then have b1: "bsegs b1 = bsegs b" "max_seg_words b1 = max_seg_words b" "builder_inv b1" "segs_of b1 = segs_of b"
    using inv by (auto simp: ensure_segs_cap_def Let_def split: if_splits)
  have a: "append_segment A b n =
      (if r \<noteq> CAPNP_OK then (CAPNP_ERR_ALLOC, b1)
       else if mem_ok A (cap * 8) then (CAPNP_OK, b1\<lparr>bsegs := bsegs b1 @ [\<lparr>b_data = replicate (cap * 8) 0, b_words = 0, b_cap = cap\<rparr>]\<rparr>)
       else (CAPNP_ERR_ALLOC, b1))"
    unfolding append_segment_def Let_def cap' e by (simp add: c_calloc_def WORD_BYTES_def)
  show ?thesis
  proof (cases "r = CAPNP_OK \<and> mem_ok A (cap * 8)")
    case True
    then have c60: "cap < 2 ^ 60" using as by (auto simp: address_space_def)
    have "builder_inv (b1\<lparr>bsegs := bsegs b1 @ [\<lparr>b_data = replicate (cap * 8) 0, b_words = 0, b_cap = cap\<rparr>]\<rparr>)"
      using b1(3) c60 by (intro builder_inv_append) (simp_all add: bseg_ok_def)
    with True b1 c60 show ?thesis
      by (intro ok [of "b1\<lparr>bsegs := bsegs b1 @ [\<lparr>b_data = replicate (cap * 8) 0, b_words = 0, b_cap = cap\<rparr>]\<rparr>" cap])
        (simp_all add: a cap_def)
  next
    case False
    then show ?thesis using b1 by (intro fail [of b1]) (auto simp: a)
  qed
qed

section \<open>The contract of an allocator\<close>

text \<open>\<open>n\<close> fresh zeroed words at \<open>word\<close> of segment \<open>seg\<close>: the end of an old segment, or a new
  segment; every other byte stays.\<close>

definition fresh :: "byte list list \<Rightarrow> nat \<Rightarrow> byte list list \<Rightarrow> nat \<Rightarrow> nat \<Rightarrow> bool" where
  "fresh segs n segs' seg word \<longleftrightarrow>
     (seg < length segs \<and> segs' = segs[seg := segs ! seg @ replicate (n * 8) 0] \<and>
        length (segs ! seg) = word * 8) \<or>
     (seg = length segs \<and> segs' = segs @ [replicate (n * 8) 0] \<and> word = 0)"

text \<open>Segments only grow at their end, and new segments come last.\<close>

definition segs_le :: "byte list list \<Rightarrow> byte list list \<Rightarrow> bool" where
  "segs_le segs segs' \<longleftrightarrow>
     length segs \<le> length segs' \<and> (\<forall>i < length segs. prefix (segs ! i) (segs' ! i))"

lemma segs_le_refl: "segs_le segs segs" and segs_le_trans: "segs_le a b \<Longrightarrow> segs_le b c \<Longrightarrow> segs_le a c"
  by (auto simp: segs_le_def) (meson less_le_trans prefix_order.trans)

lemma fresh_le: "fresh segs n segs' seg word \<Longrightarrow> segs_le segs segs'"
  by (auto simp: fresh_def segs_le_def nth_list_update nth_append)

lemma fresh_zero:
  assumes "fresh segs n segs' seg word"
  shows "seg < length segs'" "length (segs' ! seg) = (word + n) * 8"
    "drop (word * 8) (segs' ! seg) = replicate (n * 8) 0"
  using assms by (auto simp: fresh_def nth_append)

locale arena =
  fixes alloc :: "allocator \<Rightarrow> builder \<Rightarrow> nat \<Rightarrow> (rc \<times> builder \<times> nat \<times> nat) option"
  assumes alloc_total: "\<lbrakk>address_space A; builder_inv b; bsegs b \<noteq> []\<rbrakk> \<Longrightarrow> alloc A b n \<noteq> None"
    and alloc_ok: "\<lbrakk>address_space A; builder_inv b; alloc A b n = Some (CAPNP_OK, b', seg, word)\<rbrakk> \<Longrightarrow>
      builder_inv b' \<and> fresh (segs_of b) n (segs_of b') seg word"
    and alloc_fail: "\<lbrakk>address_space A; builder_inv b; alloc A b n = Some (r, b', seg, word); r \<noteq> CAPNP_OK\<rbrakk> \<Longrightarrow>
      builder_inv b' \<and> segs_of b' = segs_of b"
begin

lemma alloc_inv: "\<lbrakk>address_space A; builder_inv b; alloc A b n = Some (r, b', seg, word)\<rbrakk> \<Longrightarrow> builder_inv b'"
  using alloc_ok alloc_fail by (cases "r = CAPNP_OK") blast+

lemma alloc_le: "\<lbrakk>address_space A; builder_inv b; alloc A b n = Some (r, b', seg, word)\<rbrakk> \<Longrightarrow>
   segs_le (segs_of b) (segs_of b')"
  using alloc_ok [of A b n b' seg word] alloc_fail [of A b n r b' seg word]
    fresh_le [of "segs_of b" n "segs_of b'" seg word] segs_le_refl [of "segs_of b"]
  by (cases "r = CAPNP_OK") auto

lemma alloc_nonempty: "\<lbrakk>address_space A; builder_inv b; alloc A b n = Some (r, b', seg, word); bsegs b \<noteq> []\<rbrakk> \<Longrightarrow>
   bsegs b' \<noteq> []"
  using alloc_le [of A b n r b' seg word] by (auto simp: segs_le_def)

end

lemma use_words_fresh:
  assumes inv: "builder_inv b" and i: "i < length (bsegs b)" and w: "w = b_words (bsegs b ! i)"
    and fits: "w + n \<le> b_cap (bsegs b ! i)"
  shows "builder_inv (use_words b i (w + n)) \<and> fresh (segs_of b) n (segs_of (use_words b i (w + n))) i w"
proof -
  let ?s = "bsegs b ! i"
  have ok: "bseg_ok ?s" by (rule builder_invD [OF inv i])
  have z: "drop (w * 8) (b_data ?s) = replicate ((b_cap ?s - w) * 8) 0" using ok w by (simp add: bseg_ok_def)
  have u: "take ((w + n) * 8) (b_data ?s) = take (w * 8) (b_data ?s) @ replicate (n * 8) 0"
    using z fits by (simp add: add_mult_distrib take_add min_def)
  have d: "drop ((w + n) * 8) (b_data ?s) = replicate ((b_cap ?s - (w + n)) * 8) 0"
  proof -
    have "drop ((w + n) * 8) (b_data ?s) = drop (n * 8) (drop (w * 8) (b_data ?s))"
      by (simp add: add_mult_distrib add.commute)
    then show ?thesis unfolding z by (simp add: diff_mult_distrib)
  qed
  have "bseg_ok (?s\<lparr>b_words := w + n\<rparr>)" using ok d fits by (simp add: bseg_ok_def)
  moreover have "seg_used (?s\<lparr>b_words := w + n\<rparr>) = seg_used ?s @ replicate (n * 8) 0"
    using u w by (simp add: seg_used_def)
  ultimately have "builder_inv (use_words b i (w + n))"
    "segs_of (use_words b i (w + n)) = (segs_of b)[i := segs_of b ! i @ replicate (n * 8) 0]"
    unfolding use_words_def using builder_inv_update [OF inv] i by (simp_all add: segs_of_update nth_segs_of)
  then show ?thesis using i length_nth_segs [OF inv i] w by (simp add: fresh_def)
qed

lemma use_words_new:
  assumes "builder_inv b'" "bsegs b' = bsegs b @ [\<lparr>b_data = replicate (cap * 8) 0, b_words = 0, b_cap = cap\<rparr>]"
    and "n \<le> cap"
  shows "builder_inv (use_words b' (length (bsegs b)) n) \<and>
    fresh (segs_of b) n (segs_of (use_words b' (length (bsegs b)) n)) (length (bsegs b)) 0"
proof -
  have i: "length (bsegs b) < length (bsegs b')" by (simp add: assms(2))
  have "builder_inv (use_words b' (length (bsegs b)) (0 + n))"
    using use_words_fresh [OF assms(1) i, of 0 n] assms by simp
  moreover have "segs_of (use_words b' (length (bsegs b)) n) = segs_of b @ [replicate (n * 8) 0]"
    using assms(2,3) by (simp add: use_words_def segs_of_def seg_used_def min_def)
  ultimately show ?thesis by (simp add: fresh_def)
qed

lemma seg_ensure_use:
  assumes inv: "builder_inv b" and as: "address_space A" and i: "i < length (bsegs b)"
    and e: "seg_ensure A b i (b_words (bsegs b ! i) + n) = Some (CAPNP_OK, b')"
  defines "w \<equiv> b_words (bsegs b' ! i)"
  shows "builder_inv (use_words b' i (w + n)) \<and> fresh (segs_of b) n (segs_of (use_words b' i (w + n))) i w"
proof (cases rule: seg_ensure_cases [OF inv as i, of "b_words (bsegs b ! i) + n"])
  case 1
  with e have "b' = b" by simp
  then show ?thesis using use_words_fresh [OF inv i, of w n] 1 by (simp add: w_def)
next
  case 2
  with e show ?thesis by simp
next
  case (3 s)
  with e have b': "b' = b\<lparr>bsegs := (bsegs b)[i := s]\<rparr>" by simp
  have "builder_inv b'" unfolding b' using builder_inv_update [OF inv 3(2)] .
  moreover have "segs_of b' = segs_of b" unfolding b' using segs_of_same [OF i 3(5)] .
  ultimately show ?thesis using use_words_fresh [of b' i w n] i 3 by (simp add: b' w_def)
qed

definition alloc_good :: "builder \<Rightarrow> nat \<Rightarrow> (rc \<times> builder \<times> nat \<times> nat) option \<Rightarrow> bool" where
  "alloc_good b n R \<longleftrightarrow>
     (case R of
        None \<Rightarrow> False
      | Some (r, b', seg, word) \<Rightarrow>
          builder_inv b' \<and>
          (if r = CAPNP_OK then fresh (segs_of b) n (segs_of b') seg word else segs_of b' = segs_of b))"

lemma alloc_goodI:
  "builder_inv b' \<Longrightarrow> fresh (segs_of b) n (segs_of b') seg word \<Longrightarrow> alloc_good b n (Some (CAPNP_OK, b', seg, word))"
  "builder_inv b' \<Longrightarrow> segs_of b' = segs_of b \<Longrightarrow> r \<noteq> CAPNP_OK \<Longrightarrow> alloc_good b n (Some (r, b', seg, word))"
  by (simp_all add: alloc_good_def)

lemma alloc_good_seg_ensure:
  assumes inv: "builder_inv b" and as: "address_space A" and i: "i < length (bsegs b)"
  shows "alloc_good b n (case seg_ensure A b i (b_words (bsegs b ! i) + n) of
      None \<Rightarrow> None
    | Some (r, b) \<Rightarrow>
        if r \<noteq> CAPNP_OK then Some (CAPNP_ERR_ALLOC, b, s0, w0)
        else Some (CAPNP_OK, use_words b i (b_words (bsegs b ! i) + n), i, b_words (bsegs b ! i)))"
proof (cases "seg_ensure A b i (b_words (bsegs b ! i) + n)")
  case None
  then show ?thesis by (cases rule: seg_ensure_cases [OF inv as i, of "b_words (bsegs b ! i) + n"]) auto
next
  case (Some p)
  then obtain r b' where e: "seg_ensure A b i (b_words (bsegs b ! i) + n) = Some (r, b')" by (cases p) auto
  show ?thesis
  proof (cases "r = CAPNP_OK")
    case True
    with seg_ensure_use [OF inv as i, of n b'] e show ?thesis by (simp add: alloc_goodI)
  next
    case False
    then have "b' = b" using e
      by (cases rule: seg_ensure_cases [OF inv as i, of "b_words (bsegs b ! i) + n"]) auto
    with False e inv show ?thesis by (simp add: alloc_goodI)
  qed
qed

lemma alloc_good_append:
  assumes inv: "builder_inv b" and as: "address_space A" and n: "n \<le> min (max nc 1) (lim_words b)"
  shows "alloc_good b n (case append_segment A b nc of (r, b) \<Rightarrow>
      if r \<noteq> CAPNP_OK then Some (CAPNP_ERR_ALLOC, b, 0, 0)
      else Some (CAPNP_OK, use_words b (length (bsegs b) - 1) n, length (bsegs b) - 1, 0))"
proof (cases rule: append_segment_cases [OF inv as, of nc])
  case 1
  then show ?thesis by (simp add: alloc_goodI)
next
  case (2 b' cap)
  have "builder_inv (use_words b' (length (bsegs b)) n) \<and>
      fresh (segs_of b) n (segs_of (use_words b' (length (bsegs b)) n)) (length (bsegs b)) 0"
    using use_words_new [OF 2(2,3)] n unfolding 2(5) by simp
  then show ?thesis using 2 by (simp add: alloc_goodI)
qed

lemma alloc_words_good:
  assumes as: "address_space A" and inv: "builder_inv b" and ne: "bsegs b \<noteq> []"
  shows "alloc_good b n (alloc_words A b n)"
proof -
  define i where "i = length (bsegs b) - 1"
  define last where "last = bsegs b ! i"
  define nc where "nc = (if b_cap last \<noteq> 0 then b_cap last * 2 else 16)"
  define nc1 where "nc1 = (if nc < n then n else nc)"
  define nc2 where "nc2 = (if nc1 > lim_words b then lim_words b else nc1)"
  have i: "i < length (bsegs b)" using ne by (simp add: i_def)
  have e: "alloc_words A b n =
     (if n > lim_words b then Some (CAPNP_ERR_ALLOC, b, 0, 0)
      else if b_words last + n \<le> b_cap last \<and> b_words last + n \<le> lim_words b
      then Some (CAPNP_OK, use_words b i (b_words last + n), i, b_words last)
      else if force_single b then
        (case seg_ensure A b i (b_words last + n) of
           None \<Rightarrow> None
         | Some (r, b) \<Rightarrow>
             if r \<noteq> CAPNP_OK then Some (CAPNP_ERR_ALLOC, b, 0, 0)
             else Some (CAPNP_OK, use_words b i (b_words (bsegs b ! i) + n), i, b_words (bsegs b ! i)))
      else if nc2 < n then Some (CAPNP_ERR_ALLOC, b, 0, 0)
      else (case append_segment A b nc2 of (r, b) \<Rightarrow>
             if r \<noteq> CAPNP_OK then Some (CAPNP_ERR_ALLOC, b, 0, 0)
             else Some (CAPNP_OK, use_words b (length (bsegs b) - 1) n, length (bsegs b) - 1, 0)))"
    unfolding alloc_words_def Let_def
    unfolding i_def [symmetric]
    unfolding last_def [symmetric]
    unfolding nc_def [symmetric]
    unfolding nc1_def [symmetric]
    unfolding nc2_def [symmetric]
    using ne by simp
  have "alloc_good b n (case append_segment A b nc2 of (r, b) \<Rightarrow>
             if r \<noteq> CAPNP_OK then Some (CAPNP_ERR_ALLOC, b, 0, 0)
             else Some (CAPNP_OK, use_words b (length (bsegs b) - 1) n, length (bsegs b) - 1, 0))"
    if "\<not> n > lim_words b" "\<not> nc2 < n"
    using that by (intro alloc_good_append [OF inv as]) simp
  moreover have "alloc_good b n (case seg_ensure A b i (b_words last + n) of
           None \<Rightarrow> None
         | Some (r, b) \<Rightarrow>
             if r \<noteq> CAPNP_OK then Some (CAPNP_ERR_ALLOC, b, 0, 0)
             else Some (CAPNP_OK, use_words b i (b_words (bsegs b ! i) + n), i, b_words (bsegs b ! i)))"
    unfolding last_def by (rule alloc_good_seg_ensure [OF inv as i])
  moreover have "alloc_good b n (Some (CAPNP_OK, use_words b i (b_words last + n), i, b_words last))"
    if "b_words last + n \<le> b_cap last"
    using use_words_fresh [OF inv i] that by (simp add: alloc_goodI last_def)
  moreover have "alloc_good b n (Some (CAPNP_ERR_ALLOC, b, 0, 0))" using inv by (simp add: alloc_goodI)
  ultimately show ?thesis unfolding e by simp
qed

lemma alloc_in_good:
  assumes as: "address_space A" and inv: "builder_inv b"
  shows "alloc_good b n (alloc_in A seg b n)"
proof (cases "seg < length (bsegs b)")
  case True
  have "alloc_good b n (Some (CAPNP_ERR_ALLOC, b, seg, 0))" using inv by (simp add: alloc_goodI)
  with alloc_good_seg_ensure [OF inv as True] show ?thesis
    unfolding alloc_in_def Let_def using True by simp
qed (use inv in \<open>simp add: alloc_in_def alloc_goodI\<close>)

lemma alloc_local_good:
  assumes as: "address_space A" and inv: "builder_inv b" and ne: "bsegs b \<noteq> []"
  shows "alloc_good b n (alloc_local A b n)"
proof -
  define i where "i = length (bsegs b) - 1"
  define last where "last = bsegs b ! i"
  define ncap where "ncap = double_until (if b_cap last \<noteq> 0 then b_cap last * 2 else 16) (b_words last + n)"
  have i: "i < length (bsegs b)" using ne by (simp add: i_def)
  have ok: "bseg_ok last" unfolding last_def by (rule builder_invD [OF inv i])
  note lenw = length_nth_segs [OF inv i, folded last_def]
  show ?thesis
  proof (cases "n = 0")
    case True
    have "fresh (segs_of b) 0 (segs_of b) i (b_words last)" using i lenw by (simp add: fresh_def)
    then have "alloc_good b 0 (Some (CAPNP_OK, b, i, b_words last))" using inv by (intro alloc_goodI)
    then show ?thesis
      unfolding alloc_local_def Let_def
      unfolding i_def [symmetric]
      unfolding last_def [symmetric]
      using True ne by simp
  next
    case n: False
    have e: "alloc_local A b n =
       (if b_words last + n > b_cap last then
          (case c_realloc A (b_data last) (ncap * WORD_BYTES) of
             None \<Rightarrow> Some (CAPNP_ERR_ALLOC, b, 0, 0)
           | Some p \<Rightarrow> do {
               p \<leftarrow> (if ncap > b_cap last
                     then wr p (b_cap last * WORD_BYTES) (replicate ((ncap - b_cap last) * WORD_BYTES) 0)
                     else Some p);
               Some (CAPNP_OK, use_words (b\<lparr>bsegs := (bsegs b)[i := last\<lparr>b_data := p, b_cap := ncap\<rparr>]\<rparr>) i
                 (b_words last + n), i, b_words last) })
        else Some (CAPNP_OK, use_words b i (b_words last + n), i, b_words last))"
      unfolding alloc_local_def Let_def
      unfolding i_def [symmetric]
      unfolding last_def [symmetric]
      unfolding ncap_def [symmetric]
      using ne n by simp
    show ?thesis
    proof (cases "b_words last + n > b_cap last")
      case False
      then show ?thesis unfolding e using use_words_fresh [OF inv i, of "b_words last" n]
        by (simp add: alloc_goodI flip: last_def)
    next
      case True
      have ge: "b_words last + n \<le> ncap" unfolding ncap_def by (intro double_until_ge) simp
      with True have lt: "b_cap last < ncap" by simp
      show ?thesis
      proof (cases "mem_ok A (ncap * 8)")
        case False
        then show ?thesis unfolding e using True inv by (simp add: c_realloc_def WORD_BYTES_def alloc_goodI)
      next
        case m: True
        then have n60: "ncap < 2 ^ 60" using as by (auto simp: address_space_def)
        obtain p0 p where p: "c_realloc A (b_data last) (ncap * WORD_BYTES) = Some p0"
          "wr p0 (b_cap last * WORD_BYTES) (replicate ((ncap - b_cap last) * WORD_BYTES) 0) = Some p"
          "p = b_data last @ replicate ((ncap - b_cap last) * 8) 0"
          using grow_data [OF ok lt m] by blast
        define s where "s = last\<lparr>b_data := p, b_cap := ncap\<rparr>"
        note g = grown_seg_ok [OF ok lt n60 p(3), folded s_def]
        define b1 where "b1 = b\<lparr>bsegs := (bsegs b)[i := s]\<rparr>"
        have "builder_inv b1" unfolding b1_def by (rule builder_inv_update [OF inv g(1)])
        moreover have "segs_of b1 = segs_of b" unfolding b1_def using segs_of_same [OF i] g(2) by (simp add: last_def)
        ultimately have "builder_inv (use_words b1 i (b_words last + n)) \<and>
            fresh (segs_of b) n (segs_of (use_words b1 i (b_words last + n))) i (b_words last)"
          using use_words_fresh [of b1 i "b_words last" n] i ge by (simp add: b1_def s_def)
        then show ?thesis
          unfolding e p(1) option.case using True lt p(2) by (simp add: alloc_goodI flip: s_def b1_def)
      qed
    qed
  qed
qed

lemma alloc_good_arena:
  assumes "\<And>A b n. \<lbrakk>address_space A; builder_inv b; bsegs b \<noteq> []\<rbrakk> \<Longrightarrow> alloc_good b n (alloc A b n)"
    and "\<And>A b n r b' seg word. bsegs b = [] \<Longrightarrow> alloc A b n = Some (r, b', seg, word) \<Longrightarrow> r \<noteq> CAPNP_OK \<and> b' = b"
  shows "arena alloc"
proof
  fix A :: allocator and b n
  assume h: "address_space A" "builder_inv b"
  show "alloc A b n \<noteq> None" if "bsegs b \<noteq> []"
    using assms(1) [OF h that, of n] by (auto simp: alloc_good_def split: option.splits)
  fix r b' seg word
  show "builder_inv b' \<and> fresh (segs_of b) n (segs_of b') seg word"
    if "alloc A b n = Some (CAPNP_OK, b', seg, word)"
    using assms(1) [OF h, of n] assms(2) [OF _ that] that by (cases "bsegs b = []") (auto simp: alloc_good_def)
  show "builder_inv b' \<and> segs_of b' = segs_of b"
    if "alloc A b n = Some (r, b', seg, word)" "r \<noteq> CAPNP_OK"
    using assms(1) [OF h, of n] assms(2) [OF _ that(1)] that h(2)
    by (cases "bsegs b = []") (auto simp: alloc_good_def)
qed

interpretation words: arena alloc_words
  by (rule alloc_good_arena, erule (2) alloc_words_good, simp add: alloc_words_def Let_def)

interpretation inseg: arena "\<lambda>A. alloc_in A seg" for seg
  by (rule alloc_good_arena, erule (1) alloc_in_good, simp add: alloc_in_def)

interpretation local: arena alloc_local
  by (rule alloc_good_arena, erule (2) alloc_local_good, simp add: alloc_local_def Let_def split: if_splits)

end
