(* ===== verification/Linking.thy ===== *)
theory Linking
  imports ArenaSpec
begin

text \<open>
  The pointer writers of the builder against the resolver of the reader: what \<open>store_w\<close> and
  \<open>write_ptr\<close> do to the abstract segments (\<open>linked\<close>: a near pointer, a far pointer with its
  landing pad, or a double-far pointer with its two-word pad), and that \<open>resolve_ptr\<close> on any
  message with those segments finds the object again.
\<close>

section \<open>Bytes and words of the abstract segments\<close>

definition in_range :: "byte list list \<Rightarrow> nat \<Rightarrow> nat \<Rightarrow> nat \<Rightarrow> bool" where
  "in_range segs s a n \<longleftrightarrow> s < length segs \<and> a + n \<le> length (segs ! s)"

definition bytes_at :: "byte list list \<Rightarrow> nat \<Rightarrow> nat \<Rightarrow> nat \<Rightarrow> byte list" where
  "bytes_at segs s a n = take n (drop a (segs ! s))"

definition put :: "byte list list \<Rightarrow> nat \<Rightarrow> nat \<Rightarrow> byte list \<Rightarrow> byte list list" where
  "put segs s a bs = segs[s := take a (segs ! s) @ bs @ drop (a + length bs) (segs ! s)]"

definition put_word :: "byte list list \<Rightarrow> nat \<Rightarrow> nat \<Rightarrow> u64 \<Rightarrow> byte list list" where
  "put_word segs s word w = put segs s (word * 8) (capnp_store_le64 w)"

definition has_word :: "byte list list \<Rightarrow> nat \<Rightarrow> nat \<Rightarrow> bool" where
  "has_word segs s word \<longleftrightarrow> in_range segs s (word * 8) 8"

definition word_at :: "byte list list \<Rightarrow> nat \<Rightarrow> nat \<Rightarrow> u64" where
  "word_at segs s word = capnp_load_le64 (bytes_at segs s (word * 8) 8)"

lemma length_bytes_at: "in_range segs s a n \<Longrightarrow> length (bytes_at segs s a n) = n"
  by (auto simp: in_range_def bytes_at_def)

lemma length_put [simp]: "length (put segs s a bs) = length segs"
  "length (put_word segs s word w) = length segs"
  by (simp_all add: put_def put_word_def)

lemma length_put_nth:
  "in_range segs s a (length bs) \<Longrightarrow> length (put segs s a bs ! i) = length (segs ! i)"
  by (cases "i = s") (auto simp: put_def in_range_def nth_list_update)

lemma in_range_put [simp]:
  "in_range segs s a (length bs) \<Longrightarrow> in_range (put segs s a bs) i c n = in_range segs i c n"
  by (simp add: length_put_nth in_range_def [of "put segs s a bs"] in_range_def [of segs i])

lemma bytes_at_put_same:
  "in_range segs s a (length bs) \<Longrightarrow> bytes_at (put segs s a bs) s a (length bs) = bs"
  by (simp add: put_def bytes_at_def in_range_def)

lemma bytes_at_put_inside:
  "in_range segs s a (length bs) \<Longrightarrow> k + n \<le> length bs \<Longrightarrow>
   bytes_at (put segs s a bs) s (a + k) n = take n (drop k bs)"
  by (simp add: put_def bytes_at_def in_range_def)

lemma bytes_at_put_other:
  assumes "in_range segs s a (length bs)" "i \<noteq> s \<or> c + n \<le> a \<or> a + length bs \<le> c" "in_range segs i c n"
  shows "bytes_at (put segs s a bs) i c n = bytes_at segs i c n"
proof (cases "i = s")
  case True
  let ?m = "segs ! s"
  have "wr ?m a bs = Some (put segs s a bs ! s)"
    using assms(1) by (simp add: put_def wr_def in_range_def)
  from rd_wr_disjoint [OF this, of c n] assms True show ?thesis
    using length_put_nth [OF assms(1), of s] by (simp add: rd_def bytes_at_def in_range_def)
next
  case False
  then show ?thesis by (simp add: put_def bytes_at_def)
qed

lemma has_word_put_word: "has_word segs s word \<Longrightarrow> has_word (put_word segs s word w) i c = has_word segs i c"
  by (simp add: has_word_def put_word_def)

lemma word_at_put_word:
  assumes "has_word segs s word" "has_word segs i c"
  shows "word_at (put_word segs s word w) i c = (if i = s \<and> c = word then w else word_at segs i c)"
proof (cases "i = s \<and> c = word")
  case True
  then show ?thesis
    using assms bytes_at_put_same [of segs s "word * 8" "capnp_store_le64 w"]
    by (simp add: word_at_def put_word_def has_word_def load_store_le64)
next
  case False
  then have "i \<noteq> s \<or> c * 8 + 8 \<le> word * 8 \<or> word * 8 + 8 \<le> c * 8" by auto
  then have "bytes_at (put_word segs s word w) i (c * 8) 8 = bytes_at segs i (c * 8) 8"
    using assms bytes_at_put_other [of segs s "word * 8" "capnp_store_le64 w" i "c * 8" 8]
    by (simp add: put_word_def has_word_def)
  then show ?thesis using False by (auto simp: word_at_def)
qed

text \<open>Growth keeps words and bytes.\<close>

lemma segs_le_range: "segs_le segs segs' \<Longrightarrow> in_range segs s a n \<Longrightarrow> in_range segs' s a n"
  by (fastforce simp: segs_le_def in_range_def dest: prefix_length_le)

lemma segs_le_bytes: "segs_le segs segs' \<Longrightarrow> in_range segs s a n \<Longrightarrow> bytes_at segs' s a n = bytes_at segs s a n"
  by (auto simp: segs_le_def in_range_def bytes_at_def prefix_def)

lemma segs_le_word:
  "segs_le segs segs' \<Longrightarrow> has_word segs s w \<Longrightarrow> has_word segs' s w"
  "segs_le segs segs' \<Longrightarrow> has_word segs s w \<Longrightarrow> word_at segs' s w = word_at segs s w"
  by (simp_all add: has_word_def word_at_def segs_le_range segs_le_bytes)

lemma put_segs_le:
  assumes "segs_le segs segs'" "in_range segs s a (length bs)"
  shows "segs_le (put segs s a bs) (put segs' s a bs)"
proof -
  have "prefix (put segs s a bs ! i) (put segs' s a bs ! i)" if "i < length segs" for i
  proof -
    have "prefix (segs ! i) (segs' ! i)" and l: "length segs \<le> length segs'"
      using assms(1) that by (simp_all add: segs_le_def)
    then obtain zs where z: "segs' ! i = segs ! i @ zs" by (auto simp: prefix_def)
    with assms(2) that show ?thesis
      using l by (cases "i = s") (auto simp: put_def in_range_def)
  qed
  with assms(1) show ?thesis by (simp add: segs_le_def)
qed

section \<open>Stores on the builder\<close>

text \<open>A store inside the used part of a segment.\<close>

lemma seg_store_ok:
  assumes inv: "builder_inv b" and r: "in_range (segs_of b) s a (length bs)"
  shows "\<exists>b'. seg_store b s a bs = Some b' \<and> builder_inv b' \<and> segs_of b' = put (segs_of b) s a bs"
proof -
  let ?s = "bsegs b ! s"
  have s: "s < length (bsegs b)" using r by (simp add: in_range_def)
  have ok: "bseg_ok ?s" by (rule builder_invD [OF inv s])
  have fits: "a + length bs \<le> b_words ?s * 8"
    using r length_nth_segs [OF inv s] by (simp add: in_range_def)
  then have cap: "a + length bs \<le> length (b_data ?s)" using ok by (simp add: bseg_ok_def)
  define d where "d = take a (b_data ?s) @ bs @ drop (a + length bs) (b_data ?s)"
  have w: "wr (b_data ?s) a bs = Some d" using cap by (simp add: wr_def d_def)
  have dd: "drop (b_words ?s * 8) d = drop (b_words ?s * 8) (b_data ?s)"
    using fits cap by (simp add: d_def)
  have "bseg_ok (?s\<lparr>b_data := d\<rparr>)" using ok dd wr_Some_length [OF w] by (simp add: bseg_ok_def)
  moreover have "seg_used (?s\<lparr>b_data := d\<rparr>) = take a (seg_used ?s) @ bs @ drop (a + length bs) (seg_used ?s)"
  proof -
    have "a \<le> b_words ?s * 8" "a \<le> length (b_data ?s)" using fits cap by simp_all
    then show ?thesis using fits by (simp add: seg_used_def d_def min_absorb1 min_absorb2 drop_take)
  qed
  ultimately show ?thesis
    using builder_inv_update [OF inv] s w
    by (simp add: seg_store_def segs_of_update put_def nth_segs_of)
qed

lemma builder_word_bound:
  assumes "builder_inv b" "has_word (segs_of b) s word"
  shows "word < 2 ^ 60"
proof -
  have s: "s < length (bsegs b)" using assms(2) by (simp add: has_word_def in_range_def)
  have "word * 8 + 8 \<le> b_words (bsegs b ! s) * 8"
    using assms length_nth_segs [OF assms(1) s] by (simp add: has_word_def in_range_def)
  then show ?thesis using builder_invD [OF assms(1) s] by (simp add: bseg_ok_def)
qed

lemma store_w_ok:
  assumes "builder_inv b" "has_word (segs_of b) s word"
  shows "\<exists>b'. store_w b s word w = Some b' \<and> builder_inv b' \<and> segs_of b' = put_word (segs_of b) s word w"
  using seg_store_ok [OF assms(1), of s "word * 8" "capnp_store_le64 w"] builder_word_bound [OF assms] assms(2)
  by (simp add: store_w_def put_word_def has_word_def WORD_BYTES_def)

section \<open>What the pointer writers leave behind\<close>

definition near_segs :: "(int \<Rightarrow> u64) \<Rightarrow> byte list list \<Rightarrow> nat \<Rightarrow> nat \<Rightarrow> nat \<Rightarrow> byte list list" where
  "near_segs mk segs ss sw bw = put_word segs ss sw (mk (int bw - int sw - 1))"

definition far_segs :: "(int \<Rightarrow> u64) \<Rightarrow> byte list list \<Rightarrow> nat \<Rightarrow> nat \<Rightarrow> nat \<Rightarrow> nat \<Rightarrow> nat \<Rightarrow> byte list list" where
  "far_segs mk segs ss sw bs bw pad =
     put_word (segs[bs := segs ! bs @ capnp_store_le64 (mk (int bw - int pad - 1))]) ss sw
       (capnp_wp_make_far False pad bs)"

definition double_segs :: "(int \<Rightarrow> u64) \<Rightarrow> byte list list \<Rightarrow> nat \<Rightarrow> nat \<Rightarrow> nat \<Rightarrow> nat \<Rightarrow> byte list list" where
  "double_segs mk segs ss sw bs bw =
     put_word (segs @ [capnp_store_le64 (capnp_wp_make_far False bw bs) @ capnp_store_le64 (mk 0)]) ss sw
       (capnp_wp_make_far True 0 (length segs))"

definition linked :: "(int \<Rightarrow> u64) \<Rightarrow> byte list list \<Rightarrow> nat \<Rightarrow> nat \<Rightarrow> nat \<Rightarrow> nat \<Rightarrow> byte list list \<Rightarrow> bool" where
  "linked mk segs ss sw bs bw segs' \<longleftrightarrow>
     (ss = bs \<and> segs' = near_segs mk segs ss sw bw) \<or>
     (ss \<noteq> bs \<and> (\<exists>pad. length (segs ! bs) = pad * 8 \<and> segs' = far_segs mk segs ss sw bs bw pad)) \<or>
     (ss \<noteq> bs \<and> segs' = double_segs mk segs ss sw bs bw)"

lemma alloc_pad_good:
  assumes "builder_inv b" "address_space A"
  shows "alloc_good b 2 (Some (alloc_pad_segment A b 2))"
    and "alloc_pad_segment A b 2 = (CAPNP_OK, b', ps, pw) \<Longrightarrow> segs_of b' = segs_of b @ [replicate 16 0] \<and> ps = length (bsegs b) \<and> pw = 0"
proof -
  define b0 where "b0 = (if max_seg_words b \<noteq> 0 \<and> max_seg_words b < 2 then b\<lparr>max_seg_words := 2\<rparr> else b)"
  have inv0: "builder_inv b0" and s0: "segs_of b0 = segs_of b" and n0: "bsegs b0 = bsegs b" and l: "2 \<le> lim_words b0"
    using assms(1) by (auto simp: b0_def lim_words_def BUILDER_MAX_SEGMENT_WORDS_def)
  have e: "alloc_pad_segment A b 2 = (case append_segment A b0 2 of (r, b1) \<Rightarrow>
      if r \<noteq> CAPNP_OK then (CAPNP_ERR_ALLOC, b1\<lparr>max_seg_words := max_seg_words b\<rparr>, 0, 0)
      else (CAPNP_OK, use_words (b1\<lparr>max_seg_words := max_seg_words b\<rparr>) (length (bsegs b1) - 1) 2, length (bsegs b1) - 1, 0))"
    unfolding alloc_pad_segment_def Let_def b0_def by (simp split: prod.split)
  have "alloc_good b 2 (Some (alloc_pad_segment A b 2)) \<and>
      (\<forall>b' ps pw. alloc_pad_segment A b 2 = (CAPNP_OK, b', ps, pw) \<longrightarrow>
         segs_of b' = segs_of b @ [replicate 16 0] \<and> ps = length (bsegs b) \<and> pw = 0)"
  proof (cases rule: append_segment_cases [OF inv0 assms(2), of 2])
    case (1 b1)
    then show ?thesis by (simp add: e alloc_good_def s0)
  next
    case (2 b1 cap)
    let ?b1 = "b1\<lparr>max_seg_words := max_seg_words b\<rparr>"
    have c: "2 \<le> cap" using 2(5) l by simp
    have "builder_inv ?b1" "bsegs ?b1 = bsegs b @ [\<lparr>b_data = replicate (cap * 8) 0, b_words = 0, b_cap = cap\<rparr>]"
      using 2 n0 by simp_all
    note u = use_words_new [OF this c]
    then have "fresh (segs_of b) 2 (segs_of (use_words ?b1 (length (bsegs b)) 2)) (length (bsegs b)) 0" by simp
    then have "segs_of (use_words ?b1 (length (bsegs b)) 2) = segs_of b @ [replicate 16 0]"
      by (simp add: fresh_def)
    with u 2 n0 show ?thesis by (simp add: e alloc_good_def)
  qed
  then show "alloc_good b 2 (Some (alloc_pad_segment A b 2))"
    "alloc_pad_segment A b 2 = (CAPNP_OK, b', ps, pw) \<Longrightarrow> segs_of b' = segs_of b @ [replicate 16 0] \<and> ps = length (bsegs b) \<and> pw = 0"
    by auto
qed

lemma put_word_end:
  "length (segs ! s) = pad * 8 \<Longrightarrow> s < length segs \<Longrightarrow>
   put_word (segs[s := segs ! s @ replicate 8 0]) s pad w = segs[s := segs ! s @ capnp_store_le64 w]"
  by (simp add: put_word_def put_def)

lemma put_word_new:
  "n = length segs \<Longrightarrow>
   put_word (segs @ [x]) n k w = segs @ [take (k * 8) x @ capnp_store_le64 w @ drop (k * 8 + 8) x]"
  by (simp add: put_word_def put_def nth_append)

text \<open>The pointer writers return, keep the invariant, and on success the slot is linked to the
  object; on failure the abstract state is unchanged.\<close>

lemma write_ptr_ok:
  assumes as: "address_space A" and inv: "builder_inv b" and slot: "has_word (segs_of b) ss sw"
    and bs: "bs < length (bsegs b)"
  shows "\<exists>r b'. write_ptr A b ss sw bs bw mk = Some (r, b') \<and> builder_inv b' \<and>
    (if r = CAPNP_OK then linked mk (segs_of b) ss sw bs bw (segs_of b')
     else r = CAPNP_ERR_ALLOC \<and> ss \<noteq> bs \<and> segs_of b' = segs_of b)"
proof (cases "ss = bs")
  case True
  from store_w_ok [OF inv slot] True show ?thesis
    by (force simp: write_ptr_def linked_def near_segs_def)
next
  case ne: False
  have nonempty: "bsegs b \<noteq> []" using bs by auto
  obtain r b1 pad sg where a: "alloc_in A bs b 1 = Some (r, b1, sg, pad)"
    using inseg.alloc_total [OF as inv nonempty, of bs 1] by auto
  show ?thesis
  proof (cases "r = CAPNP_OK")
    case True
    have sg: "sg = bs" using a True by (auto simp: alloc_in_def Let_def split: if_splits option.splits prod.splits)
    note f = inseg.alloc_ok [OF as inv a [unfolded True]]
    then have f: "builder_inv b1" "segs_of b1 = (segs_of b)[bs := segs_of b ! bs @ replicate 8 0]"
      "length (segs_of b ! bs) = pad * 8"
      using bs sg by (auto simp: fresh_def)
    have "has_word (segs_of b1) bs pad" using bs f(3) by (simp add: f(2) has_word_def in_range_def)
    from store_w_ok [OF f(1) this] obtain b2 where
      b2: "store_w b1 bs pad (mk (int bw - int pad - 1)) = Some b2" "builder_inv b2"
        "segs_of b2 = (segs_of b)[bs := segs_of b ! bs @ capnp_store_le64 (mk (int bw - int pad - 1))]"
      using put_word_end [OF f(3)] bs by (auto simp: f(2))
    have "has_word (segs_of b2) ss sw" using slot ne by (simp add: b2(3) has_word_def in_range_def)
    from store_w_ok [OF b2(2) this] obtain b3 where
      "store_w b2 ss sw (capnp_wp_make_far False pad bs) = Some b3" "builder_inv b3"
      "segs_of b3 = far_segs mk (segs_of b) ss sw bs bw pad"
      by (auto simp: far_segs_def b2(3))
    then show ?thesis using ne a True b2(1) f(3) by (auto simp: write_ptr_def linked_def)
  next
    case False
    note f = inseg.alloc_fail [OF as inv a False]
    then have inv1: "builder_inv b1" and s1: "segs_of b1 = segs_of b" by auto
    have l1: "length (bsegs b1) = length (bsegs b)" using s1 by (metis length_segs_of)
    obtain r2 b2 ps pw where p: "alloc_pad_segment A b1 2 = (r2, b2, ps, pw)" by (cases "alloc_pad_segment A b1 2") auto
    note pg = alloc_pad_good [OF inv1 as]
    show ?thesis
    proof (cases "r2 = CAPNP_OK")
      case False
      then have "builder_inv b2" "segs_of b2 = segs_of b" using pg(1) p s1 by (auto simp: alloc_good_def)
      with False ne a p \<open>r \<noteq> CAPNP_OK\<close> show ?thesis by (auto simp: write_ptr_def)
    next
      case True
      have inv2: "builder_inv b2" using pg(1) p by (simp add: alloc_good_def True)
      have s2: "segs_of b2 = segs_of b @ [replicate 16 0]" "ps = length (segs_of b)" "pw = 0"
        using pg(2) [OF p [unfolded True]] s1 l1 by auto
      have "has_word (segs_of b2) ps 0" by (simp add: s2 has_word_def in_range_def nth_append)
      from store_w_ok [OF inv2 this] obtain b3 where
        b3: "store_w b2 ps 0 (capnp_wp_make_far False bw bs) = Some b3" "builder_inv b3"
          "segs_of b3 = segs_of b @ [capnp_store_le64 (capnp_wp_make_far False bw bs) @ replicate 8 0]"
        by (auto simp: s2 put_word_new)
      have "has_word (segs_of b3) ps 1" by (simp add: b3(3) s2(2) has_word_def in_range_def nth_append)
      from store_w_ok [OF b3(2) this] obtain b4 where
        b4: "store_w b3 ps 1 (mk 0) = Some b4" "builder_inv b4"
          "segs_of b4 = segs_of b @ [capnp_store_le64 (capnp_wp_make_far False bw bs) @ capnp_store_le64 (mk 0)]"
        by (auto simp: b3(3) s2(2) put_word_new)
      have "has_word (segs_of b4) ss sw" using slot by (auto simp: b4(3) has_word_def in_range_def nth_append)
      from store_w_ok [OF b4(2) this] obtain b5 where
        "store_w b4 ss sw (capnp_wp_make_far True 0 ps) = Some b5" "builder_inv b5"
        "segs_of b5 = double_segs mk (segs_of b) ss sw bs bw"
        by (auto simp: double_segs_def b4(3) s2(2))
      then show ?thesis using ne a p True \<open>r \<noteq> CAPNP_OK\<close> b3(1) b4(1) s2(3)
        by (auto simp: write_ptr_def linked_def)
    qed
  qed
qed


section \<open>Messages with given segments\<close>

definition holds :: "message \<Rightarrow> byte list list \<Rightarrow> bool" where
  "holds m segs \<longleftrightarrow> wf_message m \<and> bodies_of m = segs"

lemma holds_facts:
  assumes "holds m segs" "s < length segs"
  shows "nsegs m = length segs" "seg_data (msegs m ! s) = Some (segs ! s)"
    "seg_words (msegs m ! s) * 8 = length (segs ! s)" "s < length (msegs m)"
proof -
  have wf: "wf_message m" and b: "bodies_of m = segs" using assms(1) by (simp_all add: holds_def)
  have "length (bodies_of m) = nsegs m" using wf by (simp add: wf_message_def bodies_of_def)
  then show n: "nsegs m = length segs" using b by simp
  note d = wf_messageD [OF wf, of s]
  show "s < length (msegs m)" using d assms(2) n by simp
  have "bodies_of m ! s = seg_bytes (msegs m ! s)"
    using assms(2) n wf by (simp add: bodies_of_def wf_message_def)
  then have "segs ! s = seg_bytes (msegs m ! s)" using b by simp
  then show "seg_data (msegs m ! s) = Some (segs ! s)" "seg_words (msegs m ! s) * 8 = length (segs ! s)"
    using d assms(2) n by (auto simp: seg_bytes_def)
qed

lemma holds_seg_read:
  assumes "holds m segs" "in_range segs s a n"
  shows "seg_read m s a n = Some (bytes_at segs s a n)"
  using holds_facts [OF assms(1), of s] assms(2)
  by (simp add: in_range_def seg_read_def rd_def bytes_at_def)

lemma holds_word:
  assumes "holds m segs" "has_word segs s word"
  shows "bounds_word m s word = CAPNP_OK" "read_word m s word = Some (word_at segs s word)"
    "word < 2 ^ 60"
proof -
  have s: "s < length segs" and r: "word * 8 + 8 \<le> length (segs ! s)"
    using assms(2) by (simp_all add: has_word_def in_range_def)
  note h = holds_facts [OF assms(1) s]
  have wf: "wf_message m" using assms(1) by (simp add: holds_def)
  show b: "bounds_word m s word = CAPNP_OK" using h s r by (simp add: bounds_word_OK_iff)
  show w: "word < 2 ^ 60" using wf_seg_words [OF wf, of s] h s r by simp
  have "seg_read m s (word * 8) 8 = Some (bytes_at segs s (word * 8) 8)"
    using holds_seg_read [OF assms(1)] assms(2) by (simp add: has_word_def)
  then show "read_word m s word = Some (word_at segs s word)"
    using w by (simp add: read_word_def word_at_def WORD_BYTES_def)
qed

lemma holds_traversal [simp]: "holds (m\<lparr>traversal_left := t\<rparr>) segs = holds m segs"
  by (simp add: holds_def bodies_of_def)

section \<open>Resolving what was linked\<close>

definition spend :: "nat \<Rightarrow> message \<Rightarrow> message" where
  "spend k m = m\<lparr>traversal_left := traversal_left m - k\<rparr>"

definition clear_view :: "ptr \<Rightarrow> ptr" where
  "clear_view out = out\<lparr>p_body_byte := 0, p_data_bits := 0\<rparr>"

lemma charge_spend: "k \<le> traversal_left m \<Longrightarrow> charge m k = (CAPNP_OK, spend k m)"
  by (simp add: charge_def spend_def)

lemma spend_spend: "spend i (spend j m) = spend (j + i) m"
  by (simp add: spend_def)

lemma spend_simps [simp]:
  "traversal_left (spend k m) = traversal_left m - k" "holds (spend k m) segs = holds m segs"
  "bounds_word (spend k m) = bounds_word m" "read_word (spend k m) = read_word m"
  "depth_limit (spend k m) = depth_limit m" "wf_message (spend k m) = wf_message m"
  "seg_read (spend k m) = seg_read m"
  by (simp_all add: spend_def)

text \<open>A tag for an object: the pointer word \<open>mk off\<close> is not null and not far, and resolving it in
  place or as the tag of a landing pad gives \<open>P\<close> of the output pointer at a cost of at most \<open>c\<close>.\<close>

definition good_tag :: "message \<Rightarrow> nat \<Rightarrow> nat \<Rightarrow> (int \<Rightarrow> u64) \<Rightarrow> nat \<Rightarrow> (ptr \<Rightarrow> ptr) \<Rightarrow> bool" where
  "good_tag m bs bw mk c P \<longleftrightarrow>
     (\<forall>k word d out. c + k \<le> traversal_left m \<and> word < 2 ^ 29 \<and> 0 < d \<longrightarrow>
        (\<exists>j \<le> c. resolve_word (spend k m) bs word (mk (int bw - int word - 1)) d out =
           Some (CAPNP_OK, spend (k + j) m, P (clear_view out)))) \<and>
     (\<forall>k ps out. c + k + 2 \<le> traversal_left m \<and> bounds_word m ps 0 = CAPNP_OK \<and> bounds_word m ps 1 = CAPNP_OK \<and>
          read_word m ps 0 = Some (capnp_wp_make_far False bw bs) \<and> read_word m ps 1 = Some (mk 0) \<longrightarrow>
        (\<exists>j \<le> c + 2. resolve_double_far (spend k m) ps 0 out = Some (CAPNP_OK, spend (k + j) m, P out)))"

lemma resolve_word_far:
  assumes "0 < d" "0 < traversal_left m" "pad < 2 ^ 29" "bs < 2 ^ 32"
    and "bounds_word m bs pad = CAPNP_OK" "read_word m bs pad = Some w"
  shows "resolve_word m s a (capnp_wp_make_far False pad bs) d out =
    resolve_word (spend 1 m) bs pad w (d - 1) (clear_view out)"
proof -
  have "capnp_wp_make_far False pad bs \<noteq> 0"
    using make_far_fields(1) [of False pad bs] by (auto simp: capnp_wp_kind_def kind_defs)
  then show ?thesis
    using assms charge_spend [of 1 m]
    by (subst resolve_word.simps) (simp add: Let_def clear_view_def)
qed

lemma resolve_word_double:
  assumes "0 < d" "pad < 2 ^ 29" "ps < 2 ^ 32"
  shows "resolve_word m s a (capnp_wp_make_far True pad ps) d out =
    resolve_double_far m ps pad (clear_view out)"
proof -
  have "capnp_wp_make_far True pad ps \<noteq> 0"
    using make_far_fields(1) [of True pad ps] by (auto simp: capnp_wp_kind_def kind_defs)
  then show ?thesis
    using assms by (subst resolve_word.simps) (simp add: Let_def clear_view_def)
qed

text \<open>The bound under which every offset fits the 29 or 30 bits of a pointer word: segments
  below the builder's hard ceiling of \<open>2 ^ 29\<close> words.\<close>

definition small_segs :: "byte list list \<Rightarrow> bool" where
  "small_segs segs \<longleftrightarrow> length segs \<le> MAX_SEGMENTS \<and> (\<forall>s \<in> set segs. length s < 2 ^ 29 * 8)"

lemma small_word: "small_segs segs \<Longrightarrow> has_word segs s w \<Longrightarrow> w < 2 ^ 29 \<and> s < 16"
  by (fastforce simp: small_segs_def has_word_def in_range_def MAX_SEGMENTS_def dest: nth_mem)

lemma linked_words:
  assumes l: "linked mk segs ss sw bs bw segs'" and slot: "has_word segs ss sw" and bs: "bs < length segs"
  obtains (near) "ss = bs" "word_at segs' ss sw = mk (int bw - int sw - 1)"
  | (far) pad where "word_at segs' ss sw = capnp_wp_make_far False pad bs" "has_word segs' bs pad"
      "word_at segs' bs pad = mk (int bw - int pad - 1)"
  | (double) ps where "word_at segs' ss sw = capnp_wp_make_far True 0 ps" "has_word segs' ps 0" "has_word segs' ps 1"
      "word_at segs' ps 0 = capnp_wp_make_far False bw bs" "word_at segs' ps 1 = mk 0"
  using l unfolding linked_def
proof (elim disjE conjE exE)
  assume "ss = bs" "segs' = near_segs mk segs ss sw bw"
  then show thesis using slot near by (simp add: near_segs_def word_at_put_word)
next
  fix pad assume ne: "ss \<noteq> bs" and len: "length (segs ! bs) = pad * 8" and e: "segs' = far_segs mk segs ss sw bs bw pad"
  let ?s1 = "segs[bs := segs ! bs @ capnp_store_le64 (mk (int bw - int pad - 1))]"
  have h: "has_word ?s1 ss sw" "has_word ?s1 bs pad"
    using slot ne bs len by (simp_all add: has_word_def in_range_def)
  have w: "word_at ?s1 bs pad = mk (int bw - int pad - 1)"
    using bs len by (simp add: word_at_def bytes_at_def load_store_le64)
  show thesis
    by (rule far [of pad]) (use h w ne in \<open>simp_all add: e far_segs_def word_at_put_word has_word_put_word\<close>)
next
  assume ne: "ss \<noteq> bs" and e: "segs' = double_segs mk segs ss sw bs bw"
  let ?s1 = "segs @ [capnp_store_le64 (capnp_wp_make_far False bw bs) @ capnp_store_le64 (mk 0)]"
  have h: "has_word ?s1 ss sw" "has_word ?s1 (length segs) 0" "has_word ?s1 (length segs) 1"
    using slot by (auto simp: has_word_def in_range_def nth_append)
  have w: "word_at ?s1 (length segs) 0 = capnp_wp_make_far False bw bs" "word_at ?s1 (length segs) 1 = mk 0"
    by (simp_all add: word_at_def bytes_at_def load_store_le64 nth_append)
  have "ss \<noteq> length segs" using slot by (auto simp: has_word_def in_range_def)
  then show thesis
    by (intro double [of "length segs"])
      (use h w in \<open>simp_all add: e double_segs_def word_at_put_word has_word_put_word\<close>)
qed

lemma linked_has_slot:
  assumes "linked mk segs ss sw bs bw segs'" "has_word segs ss sw" "bs < length segs"
  shows "has_word segs' ss sw"
  using assms unfolding linked_def
  by (auto simp: near_segs_def far_segs_def double_segs_def has_word_put_word)
    (auto simp: has_word_def in_range_def put_word_def put_def nth_append nth_list_update)

lemma linked_resolves:
  assumes l: "linked mk segs ss sw bs bw segs'" and slot: "has_word segs ss sw" and bs: "bs < length segs"
    and m: "holds m segs'" and small: "small_segs segs'" and tag: "good_tag m bs bw mk c P"
    and budget: "c + 3 \<le> traversal_left m" and d: "2 \<le> d"
  shows "\<exists>j \<le> c + 3. resolve_ptr m ss sw d out = Some (CAPNP_OK, spend j m, P (clear_view out))"
proof -
  have h: "has_word segs' ss sw" by (rule linked_has_slot [OF l slot bs])
  note r = holds_word [OF m h] small_word [OF small h]
  have lenle: "length segs \<le> length segs'"
    using l by (auto simp: linked_def near_segs_def far_segs_def double_segs_def)
  then have bs16: "bs < 2 ^ 32" using bs small by (simp add: small_segs_def MAX_SEGMENTS_def)
  have rp: "resolve_ptr m ss sw d out = resolve_word (spend 1 m) ss sw (word_at segs' ss sw) d out"
    using r budget charge_spend [of 1 m] by (simp add: resolve_ptr_def)
  note t1 = tag [unfolded good_tag_def, THEN conjunct1, rule_format]
  note t2 = tag [unfolded good_tag_def, THEN conjunct2, rule_format]
  show ?thesis
  proof (cases rule: linked_words [OF l slot bs])
    case 1
    obtain j where "j \<le> c" "resolve_word (spend 1 m) bs sw (mk (int bw - int sw - 1)) d out =
        Some (CAPNP_OK, spend (1 + j) m, P (clear_view out))"
      using t1 [of 1 sw d out] budget d r by auto
    then show ?thesis using 1 rp by (intro exI [of _ "1 + j"]) auto
  next
    case (2 pad)
    note p = holds_word [OF m 2(2)] small_word [OF small 2(2)]
    have "resolve_word (spend 1 m) ss sw (capnp_wp_make_far False pad bs) d out =
        resolve_word (spend 2 m) bs pad (mk (int bw - int pad - 1)) (d - 1) (clear_view out)"
      using resolve_word_far [of d "spend 1 m" pad bs "mk (int bw - int pad - 1)" ss sw out] p 2(3) d budget bs16
      by (simp add: spend_spend numeral_2_eq_2)
    moreover obtain j where "j \<le> c" "resolve_word (spend 2 m) bs pad (mk (int bw - int pad - 1)) (d - 1) (clear_view out) =
        Some (CAPNP_OK, spend (2 + j) m, P (clear_view (clear_view out)))"
      using t1 [of 2 pad "d - 1" "clear_view out"] budget d p by auto
    ultimately show ?thesis using 2(1) rp
      by (intro exI [of _ "2 + j"]) (auto simp: clear_view_def)
  next
    case (3 ps)
    note p = holds_word [OF m 3(2)] holds_word [OF m 3(3)] small_word [OF small 3(2)]
    obtain j where "j \<le> c + 2" "resolve_double_far (spend 1 m) ps 0 (clear_view out) =
        Some (CAPNP_OK, spend (1 + j) m, P (clear_view out))"
      using t2 [of 1 ps "clear_view out"] budget p 3(4,5) by auto
    moreover have "resolve_word (spend 1 m) ss sw (capnp_wp_make_far True 0 ps) d out =
        resolve_double_far (spend 1 m) ps 0 (clear_view out)"
      using p d by (intro resolve_word_double) auto
    ultimately show ?thesis using 3(1) rp by (intro exI [of _ "1 + j"]) auto
  qed
qed


section \<open>The objects the builder links\<close>

lemma offset_back: "size_t (int word + 1 + (int bw - int word - 1)) = bw" if "bw < 2 ^ 29"
  using that by (simp add: size_t_nonneg)

lemma offset_range:
  assumes "word < 2 ^ 29" "bw < 2 ^ 29"
  shows "- (2 ^ 29) \<le> int bw - int word - 1" "int bw - int word - 1 < 2 ^ 29"
proof -
  have "int word < 2 ^ 29" "int bw < 2 ^ 29" using assms by simp_all
  then show "- (2 ^ 29) \<le> int bw - int word - 1" "int bw - int word - 1 < 2 ^ 29" by linarith+
qed

lemma make_struct_nonzero:
  assumes "dw < 2 ^ 16" "pw < 2 ^ 16" "0 < dw + pw"
  shows "capnp_wp_make_struct off dw pw \<noteq> 0"
proof
  assume "capnp_wp_make_struct off dw pw = 0"
  then have "capnp_wp_struct_dwords 0 = dw" "capnp_wp_struct_pwords 0 = pw"
    using make_struct_fields(2) [OF assms(1), of off pw] make_struct_fields(3) [OF assms(2), of off dw] by simp_all
  with assms(3) show False by (simp add: capnp_wp_struct_dwords_def capnp_wp_struct_pwords_def)
qed

lemma make_list_nonzero: "capnp_wp_make_list off es cnt \<noteq> 0"
  using make_list_fields(1) [of off es cnt] by (auto simp: capnp_wp_kind_def kind_defs)

lemma holds_end_word:
  assumes "holds m segs" "in_range segs s (bw * 8) (n * 8)" "0 < n"
  shows "bounds_word m s bw = CAPNP_OK" "bounds_word m s (bw + n - 1) = CAPNP_OK"
proof -
  have "has_word segs s bw" "has_word segs s (bw + n - 1)"
    using assms(2,3) by (auto simp: has_word_def in_range_def)
  then show "bounds_word m s bw = CAPNP_OK" "bounds_word m s (bw + n - 1) = CAPNP_OK"
    using holds_word(1) [OF assms(1)] by blast+
qed

lemma small_start:
  assumes "small_segs segs" "in_range segs s (bw * 8) (n * 8)"
  shows "bw + n < 2 ^ 29" "s < 16"
proof -
  have "length (segs ! s) < 2 ^ 29 * 8" using assms by (simp add: small_segs_def in_range_def)
  then show "bw + n < 2 ^ 29" using assms(2) by (simp add: in_range_def)
  show "s < 16" using assms by (simp add: small_segs_def in_range_def MAX_SEGMENTS_def)
qed

text \<open>What \<open>resolve_double_far\<close> does on a pad at word 0 that names word \<open>bw\<close> of segment \<open>bs\<close>.\<close>

lemma double_far_pad:
  assumes "k + 2 \<le> traversal_left m" "bounds_word m ps 0 = CAPNP_OK" "bounds_word m ps 1 = CAPNP_OK"
    and "read_word m ps 0 = Some (capnp_wp_make_far False bw bs)" "read_word m ps 1 = Some tag"
    and "bw < 2 ^ 29" "bs < 2 ^ 32"
  shows "resolve_double_far (spend k m) ps 0 out =
    (if capnp_wp_kind tag = CAPNP_WK_STRUCT then
       (let out = set_struct bs bw (capnp_wp_struct_dwords tag) (capnp_wp_struct_pwords tag) out
        in Some (charge_out (spend (k + 2) m) (p_dwords out + p_pwords out) out))
     else if capnp_wp_kind tag = CAPNP_WK_LIST then
       (let out = set_list bs bw (capnp_wp_list_esize tag) (capnp_wp_list_count tag) out
        in if p_esize out = SZ_COMPOSITE then
             (if bounds_word (spend (k + 2) m) bs bw \<noteq> CAPNP_OK
              then Some (CAPNP_ERR_BOUNDS, spend (k + 2) m, out)
              else do {
                t \<leftarrow> read_word (spend (k + 2) m) bs bw;
                let out = set_composite bw t out;
                Some (charge_out (spend (k + 2) m) (1 + p_count out * p_step_words out) out) })
           else Some (CAPNP_OK, spend (k + 2) m, out))
     else Some (CAPNP_ERR_KIND, spend (k + 2) m, out))"
  unfolding resolve_double_far_def
  using assms charge_spend [of 2 "spend k m"] by (simp add: spend_spend Let_def)

lemma charge_out_spend:
  "k + n \<le> traversal_left m \<Longrightarrow> charge_out (spend k m) n out = (CAPNP_OK, spend (k + n) m, out)"
  using charge_spend [of n "spend k m"] by (simp add: charge_out_def spend_spend)

lemma good_tag_struct:
  assumes m: "holds m segs" and small: "small_segs segs" and r: "in_range segs bs (bw * 8) ((dw + pw) * 8)"
    and dw: "dw < 2 ^ 16" "pw < 2 ^ 16" "0 < dw + pw"
  shows "good_tag m bs bw (\<lambda>off. capnp_wp_make_struct off dw pw) (dw + pw) (set_struct bs bw dw pw)"
proof -
  note b = holds_end_word [OF m r dw(3)]
  note s = small_start [OF small r]
  have near: "resolve_word (spend k m) bs word (capnp_wp_make_struct (int bw - int word - 1) dw pw) d out =
      Some (CAPNP_OK, spend (k + (dw + pw)) m, set_struct bs bw dw pw (clear_view out))"
    if "dw + pw + k \<le> traversal_left m" "word < 2 ^ 29" "0 < d" for k word d out
  proof -
    let ?w = "capnp_wp_make_struct (int bw - int word - 1) dw pw"
    have "capnp_wp_offset ?w = int bw - int word - 1" using that s by (intro make_struct_fields offset_range) simp_all
    then have body: "size_t (int word + 1 + capnp_wp_offset ?w) = bw" using offset_back [of bw word] s by simp
    have "sz (bw + dw + pw) = bw + dw + pw" using s by simp
    then have "resolve_struct (spend k m) bs word ?w out' = charge_out (spend k m) (dw + pw) (set_struct bs bw dw pw out')" for out'
      using b dw unfolding resolve_struct_def Let_def body by (simp add: add.assoc)
    then show ?thesis
      using that make_struct_nonzero [OF dw] dw
      by (subst resolve_word.simps) (simp add: Let_def kind_defs charge_out_spend clear_view_def)
  qed
  have "resolve_double_far (spend k m) ps 0 out = Some (CAPNP_OK, spend (k + (2 + (dw + pw))) m, set_struct bs bw dw pw out)"
    if "dw + pw + k + 2 \<le> traversal_left m" "bounds_word m ps 0 = CAPNP_OK" "bounds_word m ps 1 = CAPNP_OK"
      "read_word m ps 0 = Some (capnp_wp_make_far False bw bs)" "read_word m ps 1 = Some (capnp_wp_make_struct 0 dw pw)"
    for k ps out
    using that dw s double_far_pad [of k m ps bw bs "capnp_wp_make_struct 0 dw pw" out]
    by (simp add: Let_def charge_out_spend kind_defs add.assoc)
  with near show ?thesis unfolding good_tag_def
    by (intro conjI allI impI) (fastforce intro: exI [of _ "dw + pw"] exI [of _ "2 + (dw + pw)"])+
qed

lemma good_tag_list:
  assumes m: "holds m segs" and small: "small_segs segs"
    and es: "es < 8" "es \<noteq> SZ_COMPOSITE" and bits: "list_bits es cnt = Some bits" and cnt: "cnt < 2 ^ 29"
    and r: "bits = 0 \<or> in_range segs bs (bw * 8) ((bits + 63) div 64 * 8)" and bw: "bw < 2 ^ 29" "bs < 16"
  shows "good_tag m bs bw (\<lambda>off. capnp_wp_make_list off es cnt) ((bits + 63) div 64) (set_list bs bw es cnt)"
proof -
  let ?n = "(bits + 63) div 64"
  have near: "resolve_word (spend k m) bs word (capnp_wp_make_list (int bw - int word - 1) es cnt) d out =
      Some (CAPNP_OK, spend (k + ?n) m, set_list bs bw es cnt (clear_view out))"
    if "?n + k \<le> traversal_left m" "word < 2 ^ 29" "0 < d" for k word d out
  proof -
    let ?w = "capnp_wp_make_list (int bw - int word - 1) es cnt"
    have "capnp_wp_offset ?w = int bw - int word - 1" using that bw by (intro make_list_fields offset_range) simp_all
    then have start: "size_t (int word + 1 + capnp_wp_offset ?w) = bw" using offset_back [of bw word] bw by simp
    have fld: "capnp_wp_list_esize ?w = es" "capnp_wp_list_count ?w = cnt" using es cnt by simp_all
    have "bounds_word m bs (sz (bw + ?n - 1)) = CAPNP_OK" if n: "0 < ?n"
    proof -
      have r: "in_range segs bs (bw * 8) (?n * 8)" using r n by auto
      have "bw + ?n - 1 < 2 ^ 64" using small_start [OF small r] by simp
      with holds_end_word(2) [OF m r n] show ?thesis by simp
    qed
    then have "resolve_list (spend k m) bs word ?w out' = Some (charge_out (spend k m) ?n (set_list bs bw es cnt out'))" for out'
      using es bits unfolding resolve_list_def Let_def start fld by auto
    then show ?thesis
      using that make_list_nonzero
      by (subst resolve_word.simps) (simp add: Let_def kind_defs charge_out_spend clear_view_def)
  qed
  have "resolve_double_far (spend k m) ps 0 out = Some (CAPNP_OK, spend (k + 2) m, set_list bs bw es cnt out)"
    if "?n + k + 2 \<le> traversal_left m" "bounds_word m ps 0 = CAPNP_OK" "bounds_word m ps 1 = CAPNP_OK"
      "read_word m ps 0 = Some (capnp_wp_make_far False bw bs)" "read_word m ps 1 = Some (capnp_wp_make_list 0 es cnt)"
    for k ps out
    using that es cnt bw double_far_pad [of k m ps bw bs "capnp_wp_make_list 0 es cnt" out]
    by (simp add: Let_def kind_defs)
  with near show ?thesis unfolding good_tag_def
    by (intro conjI allI impI) (fastforce intro: exI [of _ ?n] exI [of _ 2])+
qed

lemma good_tag_composite:
  assumes m: "holds m segs" and small: "small_segs segs"
    and dw: "dw < 2 ^ 16" "pw < 2 ^ 16" and cnt: "cnt < 2 ^ 29"
    and r: "in_range segs bs (bw * 8) ((1 + cnt * (dw + pw)) * 8)"
    and tag: "word_at segs bs bw = capnp_wp_make_struct (int cnt) dw pw"
  defines "P \<equiv> \<lambda>out. set_composite bw (capnp_wp_make_struct (int cnt) dw pw)
    (set_list bs bw SZ_COMPOSITE (cnt * (dw + pw)) out)"
  shows "good_tag m bs bw (\<lambda>off. capnp_wp_make_list off SZ_COMPOSITE (cnt * (dw + pw))) (1 + cnt * (dw + pw)) P"
proof -
  let ?n = "cnt * (dw + pw)" and ?t = "capnp_wp_make_struct (int cnt) dw pw"
  note b = holds_end_word [OF m r]
  note s = small_start [OF small r]
  have n29: "?n < 2 ^ 29" using s by simp
  have hw: "has_word segs bs bw" using r by (simp add: has_word_def in_range_def)
  note w = holds_word [OF m hw]
  have P: "p_count (P out) = cnt" "p_step_words (P out) = dw + pw" "p_word (P out) = bw + 1" for out
    using dw cnt s by (simp_all add: P_def)
  have near: "resolve_word (spend k m) bs word (capnp_wp_make_list (int bw - int word - 1) SZ_COMPOSITE ?n) d out =
      Some (CAPNP_OK, spend (k + (1 + ?n)) m, P (clear_view out))"
    if "1 + ?n + k \<le> traversal_left m" "word < 2 ^ 29" "0 < d" for k word d out
  proof -
    let ?w = "capnp_wp_make_list (int bw - int word - 1) SZ_COMPOSITE ?n"
    have "capnp_wp_offset ?w = int bw - int word - 1" using that s by (intro make_list_fields offset_range) simp_all
    then have start: "size_t (int word + 1 + capnp_wp_offset ?w) = bw" using offset_back [of bw word] s by simp
    have fld: "capnp_wp_list_esize ?w = SZ_COMPOSITE" "capnp_wp_list_count ?w = ?n"
      using n29 by (simp_all add: kind_defs)
    have fin: "bounds_word m bs (sz (bw + 1 + ?n - 1)) = CAPNP_OK" using b s by simp
    have c1: "charge (spend k m) 1 = (CAPNP_OK, spend (k + 1) m)"
      using charge_spend [of 1 "spend k m"] that by (simp add: spend_spend)
    have "resolve_list (spend k m) bs word ?w out' = Some (charge_out (spend (k + 1) m) ?n (P out'))" for out'
      using w tag c1 P [of out'] fin unfolding resolve_list_def Let_def start fld P_def by simp
    then show ?thesis
      using that make_list_nonzero charge_out_spend [of "k + 1" ?n m]
      by (subst resolve_word.simps) (simp add: Let_def kind_defs clear_view_def)
  qed
  have "resolve_double_far (spend k m) ps 0 out = Some (CAPNP_OK, spend (k + (2 + (1 + ?n))) m, P out)"
    if "1 + ?n + k + 2 \<le> traversal_left m" "bounds_word m ps 0 = CAPNP_OK" "bounds_word m ps 1 = CAPNP_OK"
      "read_word m ps 0 = Some (capnp_wp_make_far False bw bs)"
      "read_word m ps 1 = Some (capnp_wp_make_list 0 SZ_COMPOSITE ?n)"
    for k ps out
  proof -
    have "capnp_wp_list_esize (capnp_wp_make_list 0 SZ_COMPOSITE ?n) = SZ_COMPOSITE"
      "capnp_wp_list_count (capnp_wp_make_list 0 SZ_COMPOSITE ?n) = ?n"
      using n29 by (simp_all add: kind_defs)
    then show ?thesis
      using that s w tag P [of out] double_far_pad [of k m ps bw bs "capnp_wp_make_list 0 SZ_COMPOSITE ?n" out]
        charge_out_spend [of "k + 2" "1 + ?n" m "P out"]
      by (simp add: Let_def kind_defs P_def)
  qed
  with near show ?thesis unfolding good_tag_def
    by (intro conjI allI impI) (fastforce intro: exI [of _ "1 + ?n"] exI [of _ "2 + (1 + ?n)"])+
qed

end
