(* ===== verification/Builder.thy ===== *)
theory Builder
  imports Linking
begin

text \<open>
  The public operations of \<open>src/capnp_builder.c\<close> on the arena of theory \<open>Arena\<close>: root and
  struct allocation, the data section setters, pointer slots, text, data, the list setters, and
  serialization into the stream format.

  A \<open>capnp_bptr_t\<close> is a \<open>bptr\<close> (its builder is passed along). Arrays come with their length,
  \<open>float\<close> and \<open>double\<close> as bit patterns. Results are the return code, the builder and the output
  pointer; \<open>None\<close> is an access outside an object, such as a \<open>capnp_bptr_t\<close> whose segment does
  not exist, which several setters do not check.
\<close>

section \<open>Root and structs\<close>

definition bptr0 :: bptr where "bptr0 = \<lparr>bp_seg = 0, bp_word = 0\<rparr>"

definition capnp_bptr_add :: "bptr \<Rightarrow> nat \<Rightarrow> bptr" where
  "capnp_bptr_add base word_delta = base\<lparr>bp_word := sz (bp_word base + word_delta)\<rparr>"

definition capnp_builder_root :: "allocator \<Rightarrow> builder \<Rightarrow> (rc \<times> builder \<times> bptr) option" where
  "capnp_builder_root A b =
     (if length (bsegs b) = 0 \<or> b_words (bsegs b ! 0) \<noteq> 0 then Some (CAPNP_ERR_ARG, b, bptr0)
      else do {
        (r, b, seg, w) \<leftarrow> alloc_words A b 1;
        if r \<noteq> CAPNP_OK \<or> seg \<noteq> 0 \<or> w \<noteq> 0 then Some (CAPNP_ERR_ALLOC, b, bptr0)
        else Some (CAPNP_OK, b, bptr0) })"

definition capnp_builder_struct ::
    "allocator \<Rightarrow> builder \<Rightarrow> bptr \<Rightarrow> nat \<Rightarrow> nat \<Rightarrow> (rc \<times> builder \<times> bptr) option" where
  "capnp_builder_struct A b ptr dwords pwords =
     (let n = dwords + pwords in
      if n = 0 then do {
        b \<leftarrow> store_w b (bp_seg ptr) (bp_word ptr) (capnp_wp_make_struct (-1) 0 0);
        Some (CAPNP_OK, b, ptr) }
      else do {
        (r, b, body_seg, body_word) \<leftarrow> alloc_words A b n;
        if r \<noteq> CAPNP_OK then Some (CAPNP_ERR_ALLOC, b, ptr)
        else do {
          (r, b) \<leftarrow> write_struct_ptr A b (bp_seg ptr) (bp_word ptr) body_seg body_word dwords pwords;
          if r \<noteq> CAPNP_OK then Some (r, b, ptr)
          else Some (CAPNP_OK, b, \<lparr>bp_seg = body_seg, bp_word = body_word\<rparr>) } })"

definition seg_load :: "builder \<Rightarrow> nat \<Rightarrow> nat \<Rightarrow> nat \<Rightarrow> byte list option" where
  "seg_load b seg a n = (if seg < length (bsegs b) then rd (b_data (bsegs b ! seg)) a n else None)"

definition capnp_builder_struct_body :: "builder \<Rightarrow> bptr \<Rightarrow> nat option" where
  "capnp_builder_struct_body b struct_ptr =
     (if bp_seg struct_ptr \<ge> length (bsegs b) then Some 0
      else do {
        p \<leftarrow> seg_load b (bp_seg struct_ptr) (sz (bp_word struct_ptr * WORD_BYTES)) 8;
        let w = capnp_load_le64 p;
        if capnp_wp_kind w = CAPNP_WK_FAR then Some 0
        else Some (size_t (int (bp_word struct_ptr) + 1 + capnp_wp_offset w)) })"

section \<open>Data section\<close>

definition body_ok :: "builder \<Rightarrow> bptr \<Rightarrow> nat \<Rightarrow> rc" where
  "body_ok b body abs_end =
     (if bp_seg body \<ge> length (bsegs b) then CAPNP_ERR_ARG
      else if abs_end > sz (b_words (bsegs b ! bp_seg body) * WORD_BYTES) then CAPNP_ERR_BOUNDS
      else CAPNP_OK)"

text \<open>The setters of 1, 2, 4 and 8 bytes differ in the bytes they store.\<close>

definition set_bytes :: "builder \<Rightarrow> bptr \<Rightarrow> nat \<Rightarrow> byte list \<Rightarrow> (rc \<times> builder) option" where
  "set_bytes b body byte_offset bs =
     (let a = sz (bp_word body * WORD_BYTES + byte_offset) in
      if body_ok b body (sz (a + length bs)) \<noteq> CAPNP_OK then Some (CAPNP_ERR_BOUNDS, b)
      else do { b \<leftarrow> seg_store b (bp_seg body) a bs; Some (CAPNP_OK, b) })"

definition capnp_builder_set_u8 :: "builder \<Rightarrow> bptr \<Rightarrow> nat \<Rightarrow> byte \<Rightarrow> (rc \<times> builder) option" where
  "capnp_builder_set_u8 b body byte_offset v = set_bytes b body byte_offset [v]"

definition capnp_builder_set_u16 :: "builder \<Rightarrow> bptr \<Rightarrow> nat \<Rightarrow> u16 \<Rightarrow> (rc \<times> builder) option" where
  "capnp_builder_set_u16 b body byte_offset v =
     set_bytes b body byte_offset [ucast v, ucast (drop_bit 8 v)]"

definition capnp_builder_set_u32 :: "builder \<Rightarrow> bptr \<Rightarrow> nat \<Rightarrow> u32 \<Rightarrow> (rc \<times> builder) option" where
  "capnp_builder_set_u32 b body byte_offset v = set_bytes b body byte_offset (capnp_store_le32 v)"

definition capnp_builder_set_u64 :: "builder \<Rightarrow> bptr \<Rightarrow> nat \<Rightarrow> u64 \<Rightarrow> (rc \<times> builder) option" where
  "capnp_builder_set_u64 b body byte_offset v = set_bytes b body byte_offset (capnp_store_le64 v)"

definition capnp_builder_set_f32 :: "builder \<Rightarrow> bptr \<Rightarrow> nat \<Rightarrow> u32 \<Rightarrow> (rc \<times> builder) option" where
  "capnp_builder_set_f32 b body byte_offset bits = capnp_builder_set_u32 b body byte_offset bits"

definition capnp_builder_set_f64 :: "builder \<Rightarrow> bptr \<Rightarrow> nat \<Rightarrow> u64 \<Rightarrow> (rc \<times> builder) option" where
  "capnp_builder_set_f64 b body byte_offset bits = capnp_builder_set_u64 b body byte_offset bits"

definition capnp_builder_set_bool :: "builder \<Rightarrow> bptr \<Rightarrow> nat \<Rightarrow> bool \<Rightarrow> (rc \<times> builder) option" where
  "capnp_builder_set_bool b body bit_offset v =
     (let a = sz (bp_word body * WORD_BYTES + bit_offset div 8); bit = bit_mask bit_offset in
      if body_ok b body (sz (a + 1)) \<noteq> CAPNP_OK then Some (CAPNP_ERR_BOUNDS, b)
      else do {
        p \<leftarrow> seg_load b (bp_seg body) a 1;
        b \<leftarrow> seg_store b (bp_seg body) a [if v then hd p OR bit else hd p AND NOT bit];
        Some (CAPNP_OK, b) })"

section \<open>Pointer slots\<close>

text \<open>\<open>body->word + dwords + ptr_index\<close>, with the bounds check the pointer setters share.\<close>

definition ptr_slot :: "builder \<Rightarrow> bptr \<Rightarrow> nat \<Rightarrow> nat \<Rightarrow> nat option option" where
  "ptr_slot b body dwords ptr_index =
     (let pw = sz (bp_word body + dwords + ptr_index) in
      if bp_seg body \<ge> length (bsegs b) then None
      else if pw \<ge> b_words (bsegs b ! bp_seg body) then Some None
      else Some (Some pw))"

definition capnp_builder_slot :: "builder \<Rightarrow> bptr \<Rightarrow> nat \<Rightarrow> nat \<Rightarrow> (rc \<times> bptr) option" where
  "capnp_builder_slot b body dwords ptr_index =
     (case ptr_slot b body dwords ptr_index of
        None \<Rightarrow> None
      | Some None \<Rightarrow> Some (CAPNP_ERR_BOUNDS, bptr0)
      | Some (Some pw) \<Rightarrow> Some (CAPNP_OK, \<lparr>bp_seg = bp_seg body, bp_word = pw\<rparr>))"

definition capnp_builder_clear_ptr :: "builder \<Rightarrow> bptr \<Rightarrow> nat \<Rightarrow> nat \<Rightarrow> (rc \<times> builder) option" where
  "capnp_builder_clear_ptr b body dwords ptr_index =
     do {
       (r, slot) \<leftarrow> capnp_builder_slot b body dwords ptr_index;
       if r \<noteq> CAPNP_OK then Some (r, b)
       else do { b \<leftarrow> store_w b (bp_seg slot) (bp_word slot) 0; Some (CAPNP_OK, b) } }"

definition capnp_builder_set_cap :: "builder \<Rightarrow> bptr \<Rightarrow> nat \<Rightarrow> nat \<Rightarrow> nat \<Rightarrow> (rc \<times> builder) option" where
  "capnp_builder_set_cap b body dwords ptr_index cap_index =
     (case ptr_slot b body dwords ptr_index of
        None \<Rightarrow> None
      | Some None \<Rightarrow> Some (CAPNP_ERR_BOUNDS, b)
      | Some (Some pw) \<Rightarrow>
          do { b \<leftarrow> store_w b (bp_seg body) pw (capnp_wp_make_cap cap_index); Some (CAPNP_OK, b) })"

definition capnp_builder_ptr_word :: "nat \<Rightarrow> nat \<Rightarrow> nat \<Rightarrow> nat" where
  "capnp_builder_ptr_word body_word dwords ptr_index = sz (body_word + dwords + ptr_index)"

section \<open>Text and data\<close>

text \<open>\<open>memset\<close> of \<open>nwords\<close> words and \<open>memcpy\<close> of \<open>bs\<close> at the start of a fresh run.\<close>

definition fill_run :: "builder \<Rightarrow> nat \<Rightarrow> nat \<Rightarrow> nat \<Rightarrow> byte list \<Rightarrow> builder option" where
  "fill_run b seg word nwords bs =
     do { b \<leftarrow> seg_store b seg (sz (word * WORD_BYTES)) (replicate (nwords * WORD_BYTES) 0);
          seg_store b seg (sz (word * WORD_BYTES)) bs }"

definition write_text_at ::
    "allocator \<Rightarrow> builder \<Rightarrow> nat \<Rightarrow> nat \<Rightarrow> byte list \<Rightarrow> (rc \<times> builder) option" where
  "write_text_at A b slot_seg slot_word text =
     (let nbytes = length text + 1; nwords = (nbytes + 7) div 8 in
      do {
        (r, b, start_seg, start_word) \<leftarrow> alloc_words A b nwords;
        if r \<noteq> CAPNP_OK then Some (CAPNP_ERR_ALLOC, b)
        else do {
          b \<leftarrow> fill_run b start_seg start_word nwords text;
          write_list_ptr A b slot_seg slot_word start_seg start_word SZ_BYTE (nbytes mod 2 ^ 32) } })"

definition capnp_builder_set_text ::
    "allocator \<Rightarrow> builder \<Rightarrow> bptr \<Rightarrow> nat \<Rightarrow> nat \<Rightarrow> byte list \<Rightarrow> (rc \<times> builder) option" where
  "capnp_builder_set_text A b body dwords ptr_index text =
     (case ptr_slot b body dwords ptr_index of
        None \<Rightarrow> None
      | Some None \<Rightarrow> Some (CAPNP_ERR_BOUNDS, b)
      | Some (Some pw) \<Rightarrow> write_text_at A b (bp_seg body) pw text)"

text \<open>A run for \<open>nwords\<close> words of content, or the word after the slot when there is none.\<close>

definition alloc_content ::
    "allocator \<Rightarrow> builder \<Rightarrow> bptr \<Rightarrow> nat \<Rightarrow> nat \<Rightarrow> (rc \<times> builder \<times> nat \<times> nat) option" where
  "alloc_content A b body ptr_word nwords =
     (if nwords \<noteq> 0 then alloc_words A b nwords
      else Some (CAPNP_OK, b, bp_seg body, sz (ptr_word + 1)))"

definition capnp_builder_set_data ::
    "allocator \<Rightarrow> builder \<Rightarrow> bptr \<Rightarrow> nat \<Rightarrow> nat \<Rightarrow> byte list \<Rightarrow> (rc \<times> builder) option" where
  "capnp_builder_set_data A b body dwords ptr_index data =
     (case ptr_slot b body dwords ptr_index of
        None \<Rightarrow> None
      | Some None \<Rightarrow> Some (CAPNP_ERR_BOUNDS, b)
      | Some (Some pw) \<Rightarrow>
          (let nwords = (length data + 7) div 8 in
           do {
             (r, b, start_seg, start_word) \<leftarrow> alloc_content A b body pw nwords;
             if r \<noteq> CAPNP_OK then Some (CAPNP_ERR_ALLOC, b)
             else do {
               b \<leftarrow> (if nwords \<noteq> 0 then fill_run b start_seg start_word nwords data else Some b);
               write_list_ptr A b (bp_seg body) pw start_seg start_word SZ_BYTE
                 (length data mod 2 ^ 32) } }))"

section \<open>Primitive lists\<close>

text \<open>The element loops of \<open>set_list_prim\<close>: element \<open>i\<close>, already in wire order, goes to
  \<open>dst + i * elem_bytes\<close>.\<close>

fun store_items :: "builder \<Rightarrow> nat \<Rightarrow> nat \<Rightarrow> nat \<Rightarrow> byte list list \<Rightarrow> builder option" where
  "store_items b seg dst elem_bytes [] = Some b"
| "store_items b seg dst elem_bytes (x # xs) =
     do { b \<leftarrow> seg_store b seg dst x; store_items b seg (dst + elem_bytes) elem_bytes xs }"

text \<open>\<open>items\<close> are the little-endian images of the array elements (\<open>None\<close> for \<open>NULL\<close>).\<close>

definition set_list_prim ::
    "allocator \<Rightarrow> builder \<Rightarrow> bptr \<Rightarrow> nat \<Rightarrow> nat \<Rightarrow> nat \<Rightarrow> nat \<Rightarrow> nat \<Rightarrow> byte list list option \<Rightarrow>
     (rc \<times> builder) option" where
  "set_list_prim A b body dwords ptr_index esize nitems elem_bytes items =
     (case ptr_slot b body dwords ptr_index of
        None \<Rightarrow> None
      | Some None \<Rightarrow> Some (CAPNP_ERR_BOUNDS, b)
      | Some (Some pw) \<Rightarrow>
          (let nbytes = nitems * elem_bytes; nwords = (nbytes + 7) div 8 in
           do {
             (r, b, start_seg, start_word) \<leftarrow> alloc_content A b body pw nwords;
             if r \<noteq> CAPNP_OK then Some (CAPNP_ERR_ALLOC, b)
             else do {
               b \<leftarrow> (if nwords \<noteq> 0
                     then seg_store b start_seg (sz (start_word * WORD_BYTES))
                            (replicate (nwords * WORD_BYTES) 0)
                     else Some b);
               if nwords \<noteq> 0 \<and> items \<noteq> None \<and> nbytes \<noteq> 0 \<and> elem_bytes \<notin> {1, 2, 4, 8}
               then Some (CAPNP_ERR_ARG, b)
               else do {
                 b \<leftarrow> (if nwords \<noteq> 0 \<and> items \<noteq> None \<and> nbytes \<noteq> 0
                       then (if elem_bytes = 1
                             then seg_store b start_seg (sz (start_word * WORD_BYTES)) (concat (the items))
                             else store_items b start_seg (sz (start_word * WORD_BYTES)) elem_bytes
                                    (the items))
                       else Some b);
                 write_list_ptr A b (bp_seg body) pw start_seg start_word esize nitems } } }))"

definition capnp_builder_set_list_u8 ::
    "allocator \<Rightarrow> builder \<Rightarrow> bptr \<Rightarrow> nat \<Rightarrow> nat \<Rightarrow> byte list \<Rightarrow> (rc \<times> builder) option" where
  "capnp_builder_set_list_u8 A b body dwords ptr_index items =
     set_list_prim A b body dwords ptr_index SZ_BYTE (length items) 1 (Some (map (\<lambda>x. [x]) items))"

definition capnp_builder_set_list_u16 ::
    "allocator \<Rightarrow> builder \<Rightarrow> bptr \<Rightarrow> nat \<Rightarrow> nat \<Rightarrow> u16 list \<Rightarrow> (rc \<times> builder) option" where
  "capnp_builder_set_list_u16 A b body dwords ptr_index items =
     set_list_prim A b body dwords ptr_index SZ_TWO (length items) 2 (Some (map capnp_store_le16 items))"

definition capnp_builder_set_list_u32 ::
    "allocator \<Rightarrow> builder \<Rightarrow> bptr \<Rightarrow> nat \<Rightarrow> nat \<Rightarrow> u32 list \<Rightarrow> (rc \<times> builder) option" where
  "capnp_builder_set_list_u32 A b body dwords ptr_index items =
     set_list_prim A b body dwords ptr_index SZ_FOUR (length items) 4 (Some (map capnp_store_le32 items))"

definition capnp_builder_set_list_u64 ::
    "allocator \<Rightarrow> builder \<Rightarrow> bptr \<Rightarrow> nat \<Rightarrow> nat \<Rightarrow> u64 list \<Rightarrow> (rc \<times> builder) option" where
  "capnp_builder_set_list_u64 A b body dwords ptr_index items =
     set_list_prim A b body dwords ptr_index SZ_EIGHT (length items) 8 (Some (map capnp_store_le64 items))"

definition capnp_builder_set_list_f32 ::
    "allocator \<Rightarrow> builder \<Rightarrow> bptr \<Rightarrow> nat \<Rightarrow> nat \<Rightarrow> u32 list \<Rightarrow> (rc \<times> builder) option" where
  "capnp_builder_set_list_f32 A b body dwords ptr_index items =
     set_list_prim A b body dwords ptr_index SZ_FOUR (length items) 4 (Some (map capnp_store_le32 items))"

definition capnp_builder_set_list_f64 ::
    "allocator \<Rightarrow> builder \<Rightarrow> bptr \<Rightarrow> nat \<Rightarrow> nat \<Rightarrow> u64 list \<Rightarrow> (rc \<times> builder) option" where
  "capnp_builder_set_list_f64 A b body dwords ptr_index items =
     set_list_prim A b body dwords ptr_index SZ_EIGHT (length items) 8 (Some (map capnp_store_le64 items))"

definition capnp_builder_set_list_void ::
    "allocator \<Rightarrow> builder \<Rightarrow> bptr \<Rightarrow> nat \<Rightarrow> nat \<Rightarrow> nat \<Rightarrow> (rc \<times> builder) option" where
  "capnp_builder_set_list_void A b body dwords ptr_index nitems =
     set_list_prim A b body dwords ptr_index SZ_VOID nitems 0 None"

fun set_bits :: "builder \<Rightarrow> nat \<Rightarrow> nat \<Rightarrow> nat \<Rightarrow> byte list \<Rightarrow> builder option" where
  "set_bits b seg start_word i [] = Some b"
| "set_bits b seg start_word i (x # xs) =
     (if x \<noteq> 0 then do {
        p \<leftarrow> seg_load b seg (sz (start_word * WORD_BYTES + i div 8)) 1;
        b \<leftarrow> seg_store b seg (sz (start_word * WORD_BYTES + i div 8)) [hd p OR bit_mask i];
        set_bits b seg start_word (i + 1) xs }
      else set_bits b seg start_word (i + 1) xs)"

definition capnp_builder_set_list_bool ::
    "allocator \<Rightarrow> builder \<Rightarrow> bptr \<Rightarrow> nat \<Rightarrow> nat \<Rightarrow> byte list \<Rightarrow> (rc \<times> builder) option" where
  "capnp_builder_set_list_bool A b body dwords ptr_index items =
     (case ptr_slot b body dwords ptr_index of
        None \<Rightarrow> None
      | Some None \<Rightarrow> Some (CAPNP_ERR_BOUNDS, b)
      | Some (Some pw) \<Rightarrow>
          (let nbytes = (length items + 7) div 8; nwords = (nbytes + 7) div 8 in
           do {
             (r, b, start_seg, start_word) \<leftarrow> alloc_content A b body pw nwords;
             if r \<noteq> CAPNP_OK then Some (CAPNP_ERR_ALLOC, b)
             else do {
               b \<leftarrow> (if nwords \<noteq> 0 then do {
                       b \<leftarrow> seg_store b start_seg (sz (start_word * WORD_BYTES))
                             (replicate (nwords * WORD_BYTES) 0);
                       set_bits b start_seg start_word 0 items }
                     else Some b);
               write_list_ptr A b (bp_seg body) pw start_seg start_word SZ_BIT (length items) } }))"

section \<open>Lists of text and of structs\<close>

fun write_texts :: "allocator \<Rightarrow> builder \<Rightarrow> nat \<Rightarrow> nat \<Rightarrow> byte list list \<Rightarrow> (rc \<times> builder) option" where
  "write_texts A b list_seg slot [] = Some (CAPNP_OK, b)"
| "write_texts A b list_seg slot (t # ts) =
     do { (r, b) \<leftarrow> write_text_at A b list_seg slot t;
          if r \<noteq> CAPNP_OK then Some (CAPNP_ERR_ALLOC, b)
          else write_texts A b list_seg (slot + 1) ts }"

definition capnp_builder_set_list_text_n ::
    "allocator \<Rightarrow> builder \<Rightarrow> bptr \<Rightarrow> nat \<Rightarrow> nat \<Rightarrow> byte list list \<Rightarrow> (rc \<times> builder) option" where
  "capnp_builder_set_list_text_n A b body dwords ptr_index items =
     (case ptr_slot b body dwords ptr_index of
        None \<Rightarrow> None
      | Some None \<Rightarrow> Some (CAPNP_ERR_BOUNDS, b)
      | Some (Some pw) \<Rightarrow>
          do {
            (r, b, list_seg, list_start) \<leftarrow> alloc_content A b body pw (length items);
            if r \<noteq> CAPNP_OK then Some (CAPNP_ERR_ALLOC, b)
            else do {
              (r, b) \<leftarrow> write_list_ptr A b (bp_seg body) pw list_seg list_start SZ_PTR (length items);
              if r \<noteq> CAPNP_OK then Some (CAPNP_ERR_ALLOC, b)
              else write_texts A b list_seg list_start items } })"

text \<open>Without lengths, \<open>strlen\<close>: each string ends at its first NUL.\<close>

definition capnp_builder_set_list_text ::
    "allocator \<Rightarrow> builder \<Rightarrow> bptr \<Rightarrow> nat \<Rightarrow> nat \<Rightarrow> byte list list \<Rightarrow> (rc \<times> builder) option" where
  "capnp_builder_set_list_text A b body dwords ptr_index items =
     capnp_builder_set_list_text_n A b body dwords ptr_index (map (takeWhile (\<lambda>c. c \<noteq> 0)) items)"

definition capnp_builder_set_list_struct ::
    "allocator \<Rightarrow> builder \<Rightarrow> bptr \<Rightarrow> nat \<Rightarrow> nat \<Rightarrow> nat \<Rightarrow> nat \<Rightarrow> nat \<Rightarrow> (rc \<times> builder \<times> bptr) option" where
  "capnp_builder_set_list_struct A b body dwords ptr_index nitems elem_dwords elem_pwords =
     (case ptr_slot b body dwords ptr_index of
        None \<Rightarrow> None
      | Some None \<Rightarrow> Some (CAPNP_ERR_BOUNDS, b, bptr0)
      | Some (Some pw) \<Rightarrow>
          (let step = elem_dwords + elem_pwords; content_words = nitems * step in
           do {
             (r, b, tag_seg, tag_word) \<leftarrow> alloc_words A b (1 + content_words);
             if r \<noteq> CAPNP_OK then Some (CAPNP_ERR_ALLOC, b, bptr0)
             else do {
               b \<leftarrow> store_w b tag_seg tag_word
                     (capnp_wp_make_struct (int nitems) elem_dwords elem_pwords);
               (r, b) \<leftarrow> write_list_ptr A b (bp_seg body) pw tag_seg tag_word SZ_COMPOSITE
                          (content_words mod 2 ^ 32);
               if r \<noteq> CAPNP_OK then Some (CAPNP_ERR_ALLOC, b, bptr0)
               else Some (CAPNP_OK, b, \<lparr>bp_seg = tag_seg, bp_word = tag_word + 1\<rparr>) } }))"

section \<open>Serialization\<close>

fun copy_segs :: "byte list \<Rightarrow> nat \<Rightarrow> bseg list \<Rightarrow> byte list option" where
  "copy_segs buf off [] = Some buf"
| "copy_segs buf off (s # ss) =
     (let nbytes = b_words s * WORD_BYTES in
      do {
        buf \<leftarrow> (if nbytes \<noteq> 0 then do { src \<leftarrow> rd (b_data s) 0 nbytes; wr buf off src }
                else Some buf);
        copy_segs buf (off + nbytes) ss })"

definition capnp_builder_serialize :: "allocator \<Rightarrow> builder \<Rightarrow> (rc \<times> byte list) option" where
  "capnp_builder_serialize A b =
     (let nsegs = length (bsegs b) in
      if nsegs = 0 \<or> b_words (bsegs b ! 0) = 0 then Some (CAPNP_ERR_ARG, [])
      else
        let body_words = sum_list (map b_words (bsegs b));
            table_bytes = table_size nsegs;
            total = table_bytes + body_words * WORD_BYTES
        in case c_malloc A total of
             None \<Rightarrow> Some (CAPNP_ERR_ALLOC, [])
           | Some buf \<Rightarrow> do {
               buf \<leftarrow> wr buf 0 (capnp_store_le32 (word_of_nat (nsegs - 1)));
               buf \<leftarrow> write_sizes buf 0 (map b_words (bsegs b));
               buf \<leftarrow> (if table_bytes > 4 + 4 * nsegs
                       then wr buf (4 + 4 * nsegs) (replicate (table_bytes - (4 + 4 * nsegs)) 0)
                       else Some buf);
               buf \<leftarrow> copy_segs buf table_bytes (bsegs b);
               Some (CAPNP_OK, buf) })"

end
