(* ===== verification/BuilderSpec.thy ===== *)
theory BuilderSpec
  imports Builder Views
begin

text \<open>
  What the builder operations of theory \<open>Builder\<close> do to the abstract segments, and that the
  readers of theory \<open>Reader\<close> find again what was set. Every operation keeps \<open>builder_inv\<close>, only
  overwrites the slot or field it names (\<open>only_slot\<close>), and appends fresh content.
\<close>

section \<open>What changes\<close>

text \<open>Everything used before is still there, except for \<open>n\<close> bytes at \<open>a\<close> of segment \<open>s\<close>.\<close>

definition only_range :: "byte list list \<Rightarrow> nat \<Rightarrow> nat \<Rightarrow> nat \<Rightarrow> byte list list \<Rightarrow> bool" where
  "only_range segs s a n segs' \<longleftrightarrow>
     (\<forall>i c k. in_range segs i c k \<longrightarrow> in_range segs' i c k \<and>
        (i \<noteq> s \<or> c + k \<le> a \<or> a + n \<le> c \<longrightarrow> bytes_at segs' i c k = bytes_at segs i c k))"

lemma only_rangeD:
  assumes "only_range segs s a n segs'" "in_range segs i c k"
  shows "in_range segs' i c k"
    and "i \<noteq> s \<or> c + k \<le> a \<or> a + n \<le> c \<Longrightarrow> bytes_at segs' i c k = bytes_at segs i c k"
  using assms by (auto simp: only_range_def)

lemma only_range_trans: "only_range s1 s a n s2 \<Longrightarrow> only_range s2 s a n s3 \<Longrightarrow> only_range s1 s a n s3"
  unfolding only_range_def by metis

lemma only_range_le: "segs_le segs segs' \<Longrightarrow> only_range segs s a n segs'"
  by (auto simp: only_range_def segs_le_range segs_le_bytes)

lemma only_range_refl: "only_range segs s a n segs"
  by (simp add: only_range_def)

lemma only_range_put:
  "in_range segs s a (length bs) \<Longrightarrow> only_range segs s a (length bs) (put segs s a bs)"
  by (auto simp: only_range_def intro!: bytes_at_put_other)

lemma only_range_put_word: "has_word segs s w \<Longrightarrow> only_range segs s (w * 8) 8 (put_word segs s w v)"
  using only_range_put [of segs s "w * 8" "capnp_store_le64 v"] by (simp add: has_word_def put_word_def)

text \<open>Content written into a fresh run does not count as a change.\<close>

lemma only_range_put_fresh:
  assumes "fresh segs n segs1 seg word" "in_range segs1 seg c (length bs)" "word * 8 \<le> c"
  shows "only_range segs s a k (put segs1 seg c bs)"
  unfolding only_range_def
proof (intro allI impI)
  fix i c' k'
  assume r: "in_range segs i c' k'"
  note le = fresh_le [OF assms(1)]
  have r1: "in_range segs1 i c' k'" by (rule segs_le_range [OF le r])
  have "i \<noteq> seg \<or> c' + k' \<le> c"
    using r assms(1,3) by (auto simp: in_range_def fresh_def)
  then have "bytes_at (put segs1 seg c bs) i c' k' = bytes_at segs i c' k'"
    using bytes_at_put_other [OF assms(2) _ r1] segs_le_bytes [OF le r] by auto
  then show "in_range (put segs1 seg c bs) i c' k' \<and>
      (i \<noteq> s \<or> c' + k' \<le> a \<or> a + k \<le> c' \<longrightarrow> bytes_at (put segs1 seg c bs) i c' k' = bytes_at segs i c' k')"
    using r1 assms(2) by simp
qed

lemma linked_only_slot:
  assumes "linked mk segs ss sw bs bw segs'" "has_word segs ss sw" "bs < length segs"
  shows "only_range segs ss (sw * 8) 8 segs'"
  using assms(1) unfolding linked_def
proof (elim disjE conjE exE)
  assume "segs' = near_segs mk segs ss sw bw"
  then show ?thesis using only_range_put_word [OF assms(2)] by (simp add: near_segs_def)
next
  fix pad assume e: "segs' = far_segs mk segs ss sw bs bw pad"
  let ?s = "segs[bs := segs ! bs @ capnp_store_le64 (mk (int bw - int pad - 1))]"
  have le: "segs_le segs ?s" using assms(3) by (auto simp: segs_le_def nth_list_update)
  have "has_word ?s ss sw" by (rule segs_le_word [OF le assms(2)])
  from only_range_put_word [OF this] show ?thesis
    unfolding e far_segs_def by (rule only_range_trans [OF only_range_le [OF le]])
next
  assume e: "segs' = double_segs mk segs ss sw bs bw"
  let ?s = "segs @ [capnp_store_le64 (capnp_wp_make_far False bw bs) @ capnp_store_le64 (mk 0)]"
  have le: "segs_le segs ?s" by (auto simp: segs_le_def nth_append)
  have "has_word ?s ss sw" by (rule segs_le_word [OF le assms(2)])
  from only_range_put_word [OF this] show ?thesis
    unfolding e double_segs_def by (rule only_range_trans [OF only_range_le [OF le]])
qed

lemma fresh_not_slot:
  assumes "fresh segs n segs1 seg word" "has_word segs ss sw"
  shows "seg \<noteq> ss \<or> sw * 8 + 8 \<le> word * 8"
  using assms by (auto simp: fresh_def has_word_def in_range_def)

lemma fresh_range: "fresh segs n segs1 seg word \<Longrightarrow> in_range segs1 seg (word * 8) (n * 8)"
  using fresh_zero [of segs n segs1 seg word] by (simp add: in_range_def)

lemma fresh_zeros: "fresh segs n segs1 seg word \<Longrightarrow> bytes_at segs1 seg (word * 8) (n * 8) = replicate (n * 8) 0"
  using fresh_zero [of segs n segs1 seg word] by (simp add: bytes_at_def)

section \<open>Slots and fields\<close>

lemma ptr_slot_cases:
  assumes "builder_inv b" "bp_seg body < length (bsegs b)"
  obtains (out) "ptr_slot b body dw i = Some None"
  | (slot) pw where "ptr_slot b body dw i = Some (Some pw)" "pw = sz (bp_word body + dw + i)"
      "has_word (segs_of b) (bp_seg body) pw"
  using assms length_nth_segs [OF assms]
  by (cases "sz (bp_word body + dw + i) \<ge> b_words (bsegs b ! bp_seg body)")
    (auto simp: ptr_slot_def Let_def has_word_def in_range_def)

lemma seg_words_sz:
  assumes "builder_inv b" "s < length (bsegs b)"
  shows "sz (b_words (bsegs b ! s) * WORD_BYTES) = length (segs_of b ! s)"
  using builder_invD [OF assms] length_nth_segs [OF assms]
  by (simp add: bseg_ok_def WORD_BYTES_def)

lemma set_bytes_cases:
  assumes "builder_inv b" "length bs < 2 ^ 60"
  obtains (out) "set_bytes b body off bs = Some (CAPNP_ERR_BOUNDS, b)"
  | (put) b' a where "set_bytes b body off bs = Some (CAPNP_OK, b')" "builder_inv b'"
      "a = sz (bp_word body * WORD_BYTES + off)" "in_range (segs_of b) (bp_seg body) a (length bs)"
      "segs_of b' = put (segs_of b) (bp_seg body) a bs"
  | (wrap) "2 ^ 64 \<le> sz (bp_word body * WORD_BYTES + off) + length bs"
proof (cases "body_ok b body (sz (sz (bp_word body * WORD_BYTES + off) + length bs)) = CAPNP_OK")
  case False
  then show ?thesis by (intro out) (simp add: set_bytes_def Let_def)
next
  case True
  define a where "a = sz (bp_word body * WORD_BYTES + off)"
  have s: "bp_seg body < length (bsegs b)" and e: "sz (a + length bs) \<le> length (segs_of b ! bp_seg body)"
    using True seg_words_sz [OF assms(1)] by (auto simp: body_ok_def a_def split: if_splits)
  show ?thesis
  proof (cases "a + length bs < 2 ^ 64")
    case False
    then show ?thesis by (intro wrap) (simp add: a_def)
  next
    case nw: True
    then have r: "in_range (segs_of b) (bp_seg body) a (length bs)" using e s by (simp add: in_range_def)
    from seg_store_ok [OF assms(1) this] obtain b' where
      "seg_store b (bp_seg body) a bs = Some b'" "builder_inv b'" "segs_of b' = put (segs_of b) (bp_seg body) a bs"
      by blast
    then show ?thesis using True r by (intro put [of b' a]) (simp_all add: set_bytes_def Let_def a_def)
  qed
qed

section \<open>Runs of content\<close>

definition fresh_run :: "byte list list \<Rightarrow> nat \<Rightarrow> nat \<Rightarrow> nat \<Rightarrow> bool" where
  "fresh_run segs n seg word \<longleftrightarrow> in_range segs seg (word * 8) (n * 8)"

lemma fresh_fill:
  assumes inv: "builder_inv b1" and f: "fresh_run (segs_of b1) n seg word" and bs: "length bs \<le> n * 8"
  shows "\<exists>b2. fill_run b1 seg word n bs = Some b2 \<and> builder_inv b2 \<and>
    segs_of b2 = put (segs_of b1) seg (word * 8) (bs @ replicate (n * 8 - length bs) 0)"
proof -
  let ?z = "replicate (n * 8) (0 :: byte)"
  note r = f [unfolded fresh_run_def]
  have "word < 2 ^ 60"
  proof (cases "n = 0")
    case True
    then show ?thesis
      using r builder_invD [OF inv, of seg] length_nth_segs [OF inv, of seg]
      by (cases "word = 0") (auto simp: in_range_def bseg_ok_def)
  next
    case False
    then have "has_word (segs_of b1) seg word" using r by (simp add: has_word_def in_range_def)
    then show ?thesis by (rule builder_word_bound [OF inv])
  qed
  then have a: "sz (word * WORD_BYTES) = word * 8" by (simp add: WORD_BYTES_def)
  have rz: "in_range (segs_of b1) seg (word * 8) (length ?z)" using r by simp
  from seg_store_ok [OF inv rz] obtain b' where
    b': "seg_store b1 seg (word * 8) ?z = Some b'" "builder_inv b'" "segs_of b' = put (segs_of b1) seg (word * 8) ?z"
    by blast
  have rb: "in_range (segs_of b') seg (word * 8) (length bs)" using r bs by (simp add: b'(3) in_range_def [of "segs_of b1"])
  from seg_store_ok [OF b'(2) rb] obtain b2 where
    b2: "seg_store b' seg (word * 8) bs = Some b2" "builder_inv b2" "segs_of b2 = put (segs_of b') seg (word * 8) bs"
    by blast
  have "put (put (segs_of b1) seg (word * 8) ?z) seg (word * 8) bs =
      put (segs_of b1) seg (word * 8) (bs @ replicate (n * 8 - length bs) 0)"
    using r bs by (simp add: put_def in_range_def)
  then show ?thesis using b'(1) b2 by (simp add: fill_run_def a [unfolded WORD_BYTES_def] WORD_BYTES_def b'(3))
qed

text \<open>The shape shared by all content setters: a run was allocated (or is empty), filled with
  \<open>content\<close>, and linked from the slot.\<close>

definition wrote :: "(int \<Rightarrow> u64) \<Rightarrow> byte list list \<Rightarrow> nat \<Rightarrow> nat \<Rightarrow> byte list \<Rightarrow> nat \<Rightarrow> nat \<Rightarrow> byte list list \<Rightarrow> bool" where
  "wrote mk segs ss sw content seg word segs' \<longleftrightarrow>
     (\<exists>n segs1. (if n = 0 then segs1 = segs \<and> seg = ss \<and> word = sw + 1 \<and> content = []
                 else fresh segs n segs1 seg word) \<and>
        length content = n * 8 \<and>
        linked mk (if n = 0 then segs else put segs1 seg (word * 8) content) ss sw seg word segs')"

lemma wrote_facts:
  assumes w: "wrote mk segs ss sw content seg word segs'" and slot: "has_word segs ss sw"
  shows "only_range segs ss (sw * 8) 8 segs'"
    and "content \<noteq> [] \<Longrightarrow> in_range segs' seg (word * 8) (length content)"
    and "content \<noteq> [] \<Longrightarrow> bytes_at segs' seg (word * 8) (length content) = content"
    and "content = [] \<Longrightarrow> seg = ss \<and> word = sw + 1"
    and "\<exists>segs2. linked mk segs2 ss sw seg word segs' \<and> has_word segs2 ss sw \<and> seg < length segs2"
proof -
  obtain n segs1 where f: "if n = 0 then segs1 = segs \<and> seg = ss \<and> word = sw + 1 \<and> content = []
      else fresh segs n segs1 seg word" and len: "length content = n * 8"
    and l: "linked mk (if n = 0 then segs else put segs1 seg (word * 8) content) ss sw seg word segs'"
    using w by (auto simp: wrote_def)
  show "content = [] \<Longrightarrow> seg = ss \<and> word = sw + 1" using f len by (cases "n = 0") auto
  have "only_range segs ss (sw * 8) 8 segs' \<and>
    (content \<noteq> [] \<longrightarrow> in_range segs' seg (word * 8) (length content) \<and>
       bytes_at segs' seg (word * 8) (length content) = content) \<and>
    (\<exists>segs2. linked mk segs2 ss sw seg word segs' \<and> has_word segs2 ss sw \<and> seg < length segs2)"
  proof (cases "n = 0")
    case True
    then have "linked mk segs ss sw ss (sw + 1) segs'" "seg = ss" "word = sw + 1" "content = []"
      using f l len by auto
    moreover have "ss < length segs" using slot by (simp add: has_word_def in_range_def)
    ultimately show ?thesis using linked_only_slot slot by auto
  next
    case False
    let ?s2 = "put segs1 seg (word * 8) content"
    have fr: "fresh segs n segs1 seg word" using f False by simp
    have l: "linked mk ?s2 ss sw seg word segs'" using l False by simp
    have r: "in_range segs1 seg (word * 8) (length content)" using fresh_range [OF fr] len by simp
    have r2: "in_range ?s2 seg (word * 8) (length content)" using r by simp
    have only: "only_range segs ss (sw * 8) 8 ?s2" by (rule only_range_put_fresh [OF fr r]) simp
    have slot2: "has_word ?s2 ss sw" using only_rangeD(1) [OF only] slot by (simp add: has_word_def)
    have seg: "seg < length ?s2" using r2 by (simp add: in_range_def)
    note ls = linked_only_slot [OF l slot2 seg]
    have "bytes_at ?s2 seg (word * 8) (length content) = content" by (rule bytes_at_put_same [OF r])
    then show ?thesis
      using only_range_trans [OF only ls] only_rangeD [OF ls r2] fresh_not_slot [OF fr slot] l slot2 seg by auto
  qed
  then show "only_range segs ss (sw * 8) 8 segs'"
    "content \<noteq> [] \<Longrightarrow> in_range segs' seg (word * 8) (length content)"
    "content \<noteq> [] \<Longrightarrow> bytes_at segs' seg (word * 8) (length content) = content"
    "\<exists>segs2. linked mk segs2 ss sw seg word segs' \<and> has_word segs2 ss sw \<and> seg < length segs2"
    by auto
qed

lemma fresh_again: "fresh segs n segs1 seg word \<Longrightarrow> fresh_run segs1 n seg word"
  by (simp add: fresh_run_def fresh_range)

text \<open>What a setter may return.\<close>

definition set_result :: "builder \<Rightarrow> nat \<Rightarrow> nat \<Rightarrow> (int \<Rightarrow> u64) \<Rightarrow> byte list \<Rightarrow> (rc \<times> builder) option \<Rightarrow> bool" where
  "set_result b ss sw mk content R \<longleftrightarrow>
     (\<exists>r b'. R = Some (r, b') \<and> builder_inv b' \<and> only_range (segs_of b) ss (sw * 8) 8 (segs_of b') \<and>
        (r = CAPNP_OK \<longrightarrow> (\<exists>seg word. wrote mk (segs_of b) ss sw content seg word (segs_of b'))) \<and>
        r \<in> {CAPNP_OK, CAPNP_ERR_ALLOC})"

lemma set_result_fresh:
  assumes as: "address_space A" and inv: "builder_inv b2" and slot: "has_word (segs_of b) ss sw"
    and f: "fresh (segs_of b) n segs1 seg word" "n \<noteq> 0" "length content = n * 8"
    and s2: "segs_of b2 = put segs1 seg (word * 8) content"
  shows "set_result b ss sw mk content (write_ptr A b2 ss sw seg word mk)"
proof -
  have r: "in_range segs1 seg (word * 8) (length content)" using fresh_range [OF f(1)] f(3) by simp
  have only: "only_range (segs_of b) ss (sw * 8) 8 (segs_of b2)"
    unfolding s2 by (rule only_range_put_fresh [OF f(1) r]) simp
  have slot2: "has_word (segs_of b2) ss sw" using only_rangeD(1) [OF only] slot by (simp add: has_word_def)
  have seg: "seg < length (bsegs b2)" using r s2 by (metis in_range_def length_put(1) length_segs_of)
  obtain rr b' where w: "write_ptr A b2 ss sw seg word mk = Some (rr, b')" "builder_inv b'"
    "if rr = CAPNP_OK then linked mk (segs_of b2) ss sw seg word (segs_of b')
     else rr = CAPNP_ERR_ALLOC \<and> ss \<noteq> seg \<and> segs_of b' = segs_of b2"
    using write_ptr_ok [OF as inv slot2 seg, of word mk] by blast
  show ?thesis
  proof (cases "rr = CAPNP_OK")
    case True
    then have l: "linked mk (segs_of b2) ss sw seg word (segs_of b')" using w(3) by simp
    have "wrote mk (segs_of b) ss sw content seg word (segs_of b')"
      unfolding wrote_def using f l by (intro exI [of _ n] exI [of _ segs1]) (simp add: s2)
    moreover have "only_range (segs_of b) ss (sw * 8) 8 (segs_of b')"
      using only_range_trans [OF only linked_only_slot [OF l slot2]] seg by simp
    ultimately show ?thesis using True w by (auto simp: set_result_def)
  next
    case False
    then show ?thesis using w only by (auto simp: set_result_def)
  qed
qed

lemma set_result_empty:
  assumes as: "address_space A" and inv: "builder_inv b" and slot: "has_word (segs_of b) ss sw"
  shows "set_result b ss sw mk [] (write_ptr A b ss sw ss (sw + 1) mk)"
proof -
  have ss: "ss < length (bsegs b)" using slot by (simp add: has_word_def in_range_def)
  obtain rr b' where w: "write_ptr A b ss sw ss (sw + 1) mk = Some (rr, b')" "builder_inv b'"
    "if rr = CAPNP_OK then linked mk (segs_of b) ss sw ss (sw + 1) (segs_of b') else ss \<noteq> ss"
    using write_ptr_ok [OF as inv slot ss, of "sw + 1" mk] by (metis (full_types))
  then have l: "rr = CAPNP_OK" "linked mk (segs_of b) ss sw ss (sw + 1) (segs_of b')" by (auto split: if_splits)
  have "wrote mk (segs_of b) ss sw [] ss (sw + 1) (segs_of b')"
    unfolding wrote_def using l by (intro exI [of _ 0] exI [of _ "segs_of b"]) simp
  then show ?thesis using w(1,2) l linked_only_slot [OF l(2) slot] ss by (auto simp: set_result_def)
qed

lemma set_result_alloc_fail:
  "\<lbrakk>builder_inv b'; segs_of b' = segs_of b\<rbrakk> \<Longrightarrow> set_result b ss sw mk content (Some (CAPNP_ERR_ALLOC, b'))"
  by (simp add: set_result_def only_range_refl)


section \<open>The content setters\<close>

text \<open>Bytes padded with zeros to whole words.\<close>

definition pad_words :: "nat \<Rightarrow> byte list \<Rightarrow> byte list" where
  "pad_words n bs = bs @ replicate (n * 8 - length bs) 0"

lemma length_pad_words [simp]: "length bs \<le> n * 8 \<Longrightarrow> length (pad_words n bs) = n * 8"
  by (simp add: pad_words_def)

lemma words_for: "length bs \<le> (length bs + 7) div 8 * 8"
  by presburger

lemma alloc_words_cases:
  assumes "address_space A" "builder_inv b" "bsegs b \<noteq> []"
  obtains (fail) r b1 s w where "alloc_words A b n = Some (r, b1, s, w)" "r \<noteq> CAPNP_OK" "builder_inv b1"
      "segs_of b1 = segs_of b"
  | (ok) b1 seg word where "alloc_words A b n = Some (CAPNP_OK, b1, seg, word)" "builder_inv b1"
      "fresh (segs_of b) n (segs_of b1) seg word"
proof -
  obtain r b1 seg word where a: "alloc_words A b n = Some (r, b1, seg, word)"
    using words.alloc_total [OF assms, of n] by auto
  show ?thesis
  proof (cases "r = CAPNP_OK")
    case True
    then show ?thesis using words.alloc_ok [OF assms(1,2)] a ok by blast
  next
    case False
    then show ?thesis using words.alloc_fail [OF assms(1,2) a] a fail by blast
  qed
qed

lemma has_word_nonempty: "has_word (segs_of b) s w \<Longrightarrow> bsegs b \<noteq> []"
  by (auto simp: has_word_def in_range_def)

definition text_words :: "byte list \<Rightarrow> nat" where
  "text_words text = (length text + 1 + 7) div 8"

lemma write_text_result:
  assumes as: "address_space A" and inv: "builder_inv b" and slot: "has_word (segs_of b) ss sw"
  shows "set_result b ss sw (\<lambda>off. capnp_wp_make_list off SZ_BYTE ((length text + 1) mod 2 ^ 32))
    (pad_words (text_words text) text) (write_text_at A b ss sw text)"
proof (cases rule: alloc_words_cases [OF as inv has_word_nonempty [OF slot], of "text_words text"])
  case (1 r b1 s w)
  then show ?thesis unfolding write_text_at_def Let_def text_words_def [symmetric]
    by (simp add: set_result_alloc_fail)
next
  case (2 b1 seg word)
  have len: "length text \<le> text_words text * 8" "text_words text \<noteq> 0"
    unfolding text_words_def by presburger+
  obtain b2 where b2: "fill_run b1 seg word (text_words text) text = Some b2" "builder_inv b2"
    "segs_of b2 = put (segs_of b1) seg (word * 8) (pad_words (text_words text) text)"
    using fresh_fill [OF 2(2) fresh_again [OF 2(3)] len(1)] by (auto simp: pad_words_def)
  have "set_result b ss sw (\<lambda>off. capnp_wp_make_list off SZ_BYTE ((length text + 1) mod 2 ^ 32))
      (pad_words (text_words text) text)
      (write_ptr A b2 ss sw seg word (\<lambda>off. capnp_wp_make_list off SZ_BYTE ((length text + 1) mod 2 ^ 32)))"
    using len by (intro set_result_fresh [OF as b2(2) slot 2(3) _ _ b2(3)]) simp_all
  then show ?thesis using 2(1) b2(1)
    unfolding write_text_at_def Let_def text_words_def [symmetric] write_list_ptr_def by simp
qed

text \<open>\<open>set_data\<close> and the primitive lists, after the slot check.\<close>

lemma alloc_content_cases:
  assumes as: "address_space A" and inv: "builder_inv b" and slot: "has_word (segs_of b) (bp_seg body) sw"
  obtains (none) "n = 0" "alloc_content A b body sw n = Some (CAPNP_OK, b, bp_seg body, sw + 1)"
  | (fail) r b1 s w where "n \<noteq> 0" "alloc_content A b body sw n = Some (r, b1, s, w)" "r \<noteq> CAPNP_OK" "builder_inv b1"
      "segs_of b1 = segs_of b"
  | (ok) b1 seg word where "n \<noteq> 0" "alloc_content A b body sw n = Some (CAPNP_OK, b1, seg, word)" "builder_inv b1"
      "fresh (segs_of b) n (segs_of b1) seg word"
proof (cases "n = 0")
  case True
  then show ?thesis using builder_word_bound [OF inv slot] none by (simp add: alloc_content_def)
next
  case False
  then show ?thesis
    by (cases rule: alloc_words_cases [OF as inv has_word_nonempty [OF slot], of n])
      (use fail ok in \<open>auto simp: alloc_content_def\<close>)
qed

lemma set_data_result:
  assumes as: "address_space A" and inv: "builder_inv b"
    and ps: "ptr_slot b body dw i = Some (Some sw)" and slot: "has_word (segs_of b) (bp_seg body) sw"
  shows "set_result b (bp_seg body) sw (\<lambda>off. capnp_wp_make_list off SZ_BYTE (length data mod 2 ^ 32))
    (pad_words ((length data + 7) div 8) data) (capnp_builder_set_data A b body dw i data)"
proof (cases rule: alloc_content_cases [OF as inv slot, of "(length data + 7) div 8"])
  case 1
  then have "data = []" by (cases data) auto
  then show ?thesis
    using set_result_empty [OF as inv slot] 1
    by (simp add: capnp_builder_set_data_def ps Let_def write_list_ptr_def pad_words_def)
next
  case (2 r b1 s w)
  then show ?thesis by (simp add: capnp_builder_set_data_def ps Let_def set_result_alloc_fail)
next
  case (3 b1 seg word)
  note len = words_for [of data]
  obtain b2 where b2: "fill_run b1 seg word ((length data + 7) div 8) data = Some b2" "builder_inv b2"
    "segs_of b2 = put (segs_of b1) seg (word * 8) (pad_words ((length data + 7) div 8) data)"
    using fresh_fill [OF 3(3) fresh_again [OF 3(4)] len] by (auto simp: pad_words_def)
  have "set_result b (bp_seg body) sw (\<lambda>off. capnp_wp_make_list off SZ_BYTE (length data mod 2 ^ 32))
      (pad_words ((length data + 7) div 8) data)
      (write_ptr A b2 (bp_seg body) sw seg word (\<lambda>off. capnp_wp_make_list off SZ_BYTE (length data mod 2 ^ 32)))"
    using len by (intro set_result_fresh [OF as b2(2) slot 3(4,1) _ b2(3)]) simp
  then show ?thesis using 3 b2(1)
    by (simp add: capnp_builder_set_data_def ps Let_def write_list_ptr_def)
qed

lemma store_items_ok:
  "\<lbrakk>builder_inv b; in_range (segs_of b) seg dst (length (concat xs)); \<forall>x \<in> set xs. length x = eb\<rbrakk> \<Longrightarrow>
   \<exists>b'. store_items b seg dst eb xs = Some b' \<and> builder_inv b' \<and>
     segs_of b' = put (segs_of b) seg dst (concat xs)"
proof (induction xs arbitrary: b dst)
  case Nil
  then show ?case by (simp add: put_def)
next
  case (Cons x xs)
  have r: "in_range (segs_of b) seg dst (length x)" using Cons.prems(2) by (simp add: in_range_def)
  from seg_store_ok [OF Cons.prems(1) r] obtain b1 where
    b1: "seg_store b seg dst x = Some b1" "builder_inv b1" "segs_of b1 = put (segs_of b) seg dst x"
    by blast
  have "in_range (segs_of b1) seg (dst + eb) (length (concat xs))"
    using Cons.prems(2,3) r by (simp add: b1(3)) (simp add: in_range_def)
  then obtain b2 where b2: "store_items b1 seg (dst + eb) eb xs = Some b2" "builder_inv b2"
    "segs_of b2 = put (segs_of b1) seg (dst + eb) (concat xs)"
    using Cons.IH [OF b1(2)] Cons.prems(3) by auto
  have "put (put (segs_of b) seg dst x) seg (dst + eb) (concat xs) = put (segs_of b) seg dst (concat (x # xs))"
    using Cons.prems(2,3) by (simp add: put_def in_range_def add.assoc add.commute add.left_commute)
  then show ?case using b1(1) b2 by (simp add: b1(3))
qed

lemma put_put_prefix:
  "\<lbrakk>in_range segs s a (length zs); length bs \<le> length zs\<rbrakk> \<Longrightarrow>
   put (put segs s a zs) s a bs = put segs s a (bs @ drop (length bs) zs)"
  by (simp add: put_def in_range_def)

lemma set_list_prim_result:
  assumes as: "address_space A" and inv: "builder_inv b"
    and ps: "ptr_slot b body dw i = Some (Some sw)" and slot: "has_word (segs_of b) (bp_seg body) sw"
    and eb: "eb \<in> {1, 2, 4, 8}" and len: "\<forall>x \<in> set xs. length x = eb"
  shows "set_result b (bp_seg body) sw (\<lambda>off. capnp_wp_make_list off es (length xs))
    (pad_words ((length xs * eb + 7) div 8) (concat xs))
    (set_list_prim A b body dw i es (length xs) eb (Some xs))"
proof -
  have lc: "length (concat xs) = length xs * eb" using len length_concat_chunks by (simp add: mult.commute)
  let ?n = "(length xs * eb + 7) div 8"
  show ?thesis
  proof (cases rule: alloc_content_cases [OF as inv slot, of ?n])
    case 1
    then have "length xs * eb = 0" by (cases "length xs * eb") auto
    then have "xs = []" using eb by auto
    then show ?thesis
      using set_result_empty [OF as inv slot] 1
      by (simp add: set_list_prim_def ps Let_def write_list_ptr_def pad_words_def)
  next
    case (2 r b1 s w)
    then show ?thesis by (simp add: set_list_prim_def ps Let_def set_result_alloc_fail)
  next
    case (3 b1 seg word)
    have fit: "length (concat xs) \<le> ?n * 8" unfolding lc by presburger
    have nz: "length xs * eb \<noteq> 0" using 3(1) by (cases "length xs * eb") auto
    obtain b2 where b2: "fill_run b1 seg word ?n [] = Some b2" "builder_inv b2"
      "segs_of b2 = put (segs_of b1) seg (word * 8) (replicate (?n * 8) 0)"
      using fresh_fill [OF 3(3) fresh_again [OF 3(4)], of "[]"] by auto
    have w60: "word < 2 ^ 60"
    proof (rule builder_word_bound [OF 3(3)])
      show "has_word (segs_of b1) seg word" using fresh_range [OF 3(4)] 3(1) by (simp add: has_word_def in_range_def)
    qed
    then have a: "sz (word * WORD_BYTES) = word * 8" by (simp add: WORD_BYTES_def)
    have "in_range (segs_of b1) seg (word * 8) (length (replicate (?n * 8) (0 :: byte)))"
      using fresh_range [OF 3(4)] by simp
    then have r1: "in_range (segs_of b2) seg (word * 8) (length (concat xs))"
      using fit by (simp add: b2(3) in_range_def [of "segs_of b1"])
    have zs: "seg_store b1 seg (word * 8) (replicate (?n * WORD_BYTES) 0) = Some b2"
    proof -
      obtain b' where b': "seg_store b1 seg (word * 8) (replicate (?n * WORD_BYTES) 0) = Some b'"
        "seg_store b' seg (word * 8) [] = Some b2"
        using b2(1) by (auto simp: fill_run_def a split: bind_splits)
      then have "b' = b2" by (auto simp: seg_store_def wr_def split: if_splits)
      with b' show ?thesis by simp
    qed
    have "\<exists>b3. (if eb = 1 then seg_store b2 seg (word * 8) (concat xs) else store_items b2 seg (word * 8) eb xs) = Some b3 \<and>
        builder_inv b3 \<and> segs_of b3 = put (segs_of b2) seg (word * 8) (concat xs)"
      using seg_store_ok [OF b2(2) r1] store_items_ok [OF b2(2) r1 len] by simp
    then obtain b3 where b3: "(if eb = 1 then seg_store b2 seg (word * 8) (concat xs)
        else store_items b2 seg (word * 8) eb xs) = Some b3" "builder_inv b3"
        "segs_of b3 = put (segs_of b2) seg (word * 8) (concat xs)" by blast
    have "segs_of b3 = put (segs_of b1) seg (word * 8) (pad_words ?n (concat xs))"
      unfolding b3(3) b2(3) using fit fresh_range [OF 3(4)]
      by (subst put_put_prefix) (simp_all add: pad_words_def)
    note res = set_result_fresh [OF as b3(2) slot 3(4,1) _ this, of "\<lambda>off. capnp_wp_make_list off es (length xs)"]
    have "set_list_prim A b body dw i es (length xs) eb (Some xs) =
        write_list_ptr A b3 (bp_seg body) sw seg word es (length xs)"
      using ps 3(1,2) eb nz zs b3(1) unfolding set_list_prim_def Let_def
      by (cases "eb = 1") (simp_all add: a)
    then show ?thesis using res fit by (simp add: write_list_ptr_def)
  qed
qed


section \<open>Reading back what was written\<close>

lemma bytes_at_sub:
  "k + n \<le> len \<Longrightarrow> bytes_at segs s (a + k) n = take n (drop k (bytes_at segs s a len))"
  by (simp add: bytes_at_def drop_take min_absorb1 min_absorb2 add.commute)

lemma wrote_list_resolves:
  assumes w: "wrote (\<lambda>off. capnp_wp_make_list off es cnt) segs ss sw content seg word segs'"
    and slot: "has_word segs ss sw" and m: "holds m segs'" and small: "small_segs segs'"
    and es: "es < 8" "es \<noteq> SZ_COMPOSITE" and bits: "list_bits es cnt = Some bits" and cnt: "cnt < 2 ^ 29"
    and fit: "(bits + 63) div 64 * 8 = length content"
    and budget: "(bits + 63) div 64 + 3 \<le> traversal_left m" and d: "2 \<le> d"
  shows "\<exists>j. resolve_ptr m ss sw d out = Some (CAPNP_OK, spend j m, set_list seg word es cnt (clear_view out))"
    and "well_placed m (set_list seg word es cnt (clear_view out))"
proof -
  note f = wrote_facts [OF w slot]
  have h: "has_word segs' ss sw" using only_rangeD(1) [OF f(1)] slot by (simp add: has_word_def)
  have in_r: "bits = 0 \<or> in_range segs' seg (word * 8) ((bits + 63) div 64 * 8)"
  proof (cases "content = []")
    case True
    then have "(bits + 63) div 64 = 0" using fit by simp
    then have "bits + 63 < 64" by (simp add: div_eq_0_iff)
    then show ?thesis by simp
  next
    case False
    then show ?thesis using f(2) fit by simp
  qed
  have w29: "word < 2 ^ 29" "seg < 16"
  proof -
    have "word < 2 ^ 29 \<and> seg < 16"
    proof (cases "content = []")
      case True
      have "in_range segs' ss (sw * 8) (1 * 8)" using h by (simp add: has_word_def)
      from small_start [OF small this] f(4) [OF True] show ?thesis by simp
    next
      case False
      have "in_range segs' seg (word * 8) ((bits + 63) div 64 * 8)" using f(2) [OF False] fit by simp
      from small_start [OF small this] show ?thesis by simp
    qed
    then show "word < 2 ^ 29" "seg < 16" by auto
  qed
  note tag = good_tag_list [OF m small es bits cnt in_r w29]
  from f(5) obtain segs2 where l: "linked (\<lambda>off. capnp_wp_make_list off es cnt) segs2 ss sw seg word segs'"
    "has_word segs2 ss sw" "seg < length segs2" by blast
  show "\<exists>j. resolve_ptr m ss sw d out = Some (CAPNP_OK, spend j m, set_list seg word es cnt (clear_view out))"
    using linked_resolves [OF l m small tag budget d, of out] by blast
  have "seg < nsegs m \<and> word + (bits + 63) div 64 \<le> seg_words (msegs m ! seg)" if "0 < (bits + 63) div 64"
  proof -
    have r: "in_range segs' seg (word * 8) ((bits + 63) div 64 * 8)"
      using in_r that by auto
    then have "seg < length segs'" by (simp add: in_range_def)
    with holds_facts [OF m this] r show ?thesis by (simp add: in_range_def)
  qed
  then show "well_placed m (set_list seg word es cnt (clear_view out))"
    using es bits by (auto simp: well_placed_def in_bounds_def obj_words_def clear_view_def)
qed

text \<open>The reader's view of the struct body a \<open>bptr\<close> names.\<close>

definition struct_view :: "ptr \<Rightarrow> bptr \<Rightarrow> nat \<Rightarrow> nat \<Rightarrow> bool" where
  "struct_view s body dw pw \<longleftrightarrow>
     p_kind s = PK_STRUCT \<and> p_seg s = bp_seg body \<and> p_word s = bp_word body \<and>
     p_dwords s = dw \<and> p_pwords s = pw \<and> p_body_byte s = 0 \<and> p_data_bits s = 0"

lemma getp_slot:
  "struct_view s body dw pw \<Longrightarrow> i < pw \<Longrightarrow>
   capnp_getp m s i out = resolve_ptr m (bp_seg body) (sz (bp_word body + dw + i)) (depth_limit m) out"
  by (simp add: struct_view_def capnp_getp_def)

lemma set_result_OK:
  assumes "set_result b ss sw mk content (Some (CAPNP_OK, b'))"
  obtains seg word where "wrote mk (segs_of b) ss sw content seg word (segs_of b')"
  using assms by (auto simp: set_result_def)

lemma text_words_bits: "((length text + 1) * 8 + 63) div 64 = text_words text"
proof -
  have "(length text + 1) * 8 + 63 = (length text + 1 + 7) * 8 + 7" by simp
  then have "((length text + 1) * 8 + 63) div 64 = ((length text + 1 + 7) * 8 + 7) div 8 div 8"
    by (simp add: div_mult2_eq [symmetric])
  also have "((length text + 1 + 7) * 8 + 7) div 8 = length text + 1 + 7" by simp
  finally show ?thesis by (simp add: text_words_def)
qed

lemma set_text_read_back:
  assumes as: "address_space A" and inv: "builder_inv b"
    and ps: "ptr_slot b body dw i = Some (Some sw)" and slot: "has_word (segs_of b) (bp_seg body) sw"
    and sw: "sw = sz (bp_word body + dw + i)"
    and set: "capnp_builder_set_text A b body dw i text = Some (CAPNP_OK, b')"
    and m: "holds m (segs_of b')" and small: "small_segs (segs_of b')"
    and s: "struct_view s body dw pw" "i < pw" and len: "length text + 1 < 2 ^ 29"
    and budget: "text_words text + 3 \<le> traversal_left m" "2 \<le> depth_limit m"
  shows "\<exists>m' r. capnp_get_text m s i = Some (CAPNP_OK, m', r) \<and> ref_bytes m' r = Some text"
proof -
  let ?n = "length text + 1" and ?c = "pad_words (text_words text) text"
  have "write_text_at A b (bp_seg body) sw text = Some (CAPNP_OK, b')"
    using set ps by (simp add: capnp_builder_set_text_def)
  then have "set_result b (bp_seg body) sw (\<lambda>off. capnp_wp_make_list off SZ_BYTE ?n) ?c (Some (CAPNP_OK, b'))"
    using write_text_result [OF as inv slot, of "text"] len by simp
  then obtain seg word where w: "wrote (\<lambda>off. capnp_wp_make_list off SZ_BYTE ?n) (segs_of b) (bp_seg body) sw ?c seg word (segs_of b')"
    by (rule set_result_OK)
  have tw: "length text \<le> text_words text * 8" "0 < text_words text" "?n \<le> text_words text * 8"
    unfolding text_words_def by presburger+
  have lc: "length ?c = text_words text * 8" using tw by simp
  have bits: "list_bits SZ_BYTE ?n = Some (?n * 8)" by (rule prim_bits)
  note nw = text_words_bits [of "text"]
  define l where "l = set_list seg word SZ_BYTE ?n (clear_view ptr0)"
  have res: "\<exists>j. resolve_ptr m (bp_seg body) sw (depth_limit m) ptr0 = Some (CAPNP_OK, spend j m, l)"
    and wp: "well_placed m l"
    using wrote_list_resolves [OF w slot m small _ _ bits len, of "depth_limit m" ptr0] budget lc nw
    by (simp_all add: l_def kind_defs)
  from res obtain j where g: "capnp_getp m s i ptr0 = Some (CAPNP_OK, spend j m, l)"
    using getp_slot [OF s] sw by auto
  have wf: "wf_message (spend j m)" using m by (simp add: holds_def)
  have "well_placed (spend j m) l" using wp by (simp add: spend_def)
  from text_at_eq [OF wf this] obtain raw r where t:
    "seg_read (spend j m) seg (word * 8) ?n = Some raw" "text_at (spend j m) l = Some r"
    "ref_bytes (spend j m) r = Some (if last raw = 0 then butlast raw else raw)"
    by (auto simp: l_def)
  have "?c \<noteq> []" using tw(2) unfolding length_0_conv [symmetric] lc by simp
  note f = wrote_facts(2,3) [OF w slot this, unfolded lc]
  have "in_range (segs_of b') seg (word * 8) ?n" using f(1) tw(3) by (simp add: in_range_def)
  then have "raw = bytes_at (segs_of b') seg (word * 8) ?n" using t(1) holds_seg_read [OF m] by simp
  also have "\<dots> = take ?n ?c"
    using bytes_at_sub [of 0 ?n "text_words text * 8" "segs_of b'" seg "word * 8"] f(2) tw(3) by simp
  also have "\<dots> = text @ [0]" using tw(3) by (simp add: pad_words_def take_Cons')
  finally have "raw = text @ [0]" .
  moreover have "capnp_get_text m s i = Some (CAPNP_OK, spend j m, r)"
    using g t(2) by (simp add: capnp_get_text_def l_def)
  ultimately show ?thesis using t(3) by auto
qed

end
