(* ===== verification/BuilderProps.thy ===== *)
theory BuilderProps
  imports BuilderSpec
begin

text \<open>
  Properties of the builder: every setter is memory safe on a valid body, keeps the arena
  invariant and overwrites nothing but its slot; what is set is what the readers return
  (scalars, text, primitive lists, structs, lists of structs); and a serialized builder parses
  back to its segments.
\<close>

section \<open>Scalars\<close>

lemma set_bytes_read:
  assumes inv: "builder_inv b" and set: "set_bytes b body off bs = Some (CAPNP_OK, b')"
    and m: "holds m (segs_of b')" and s: "struct_view s body dw pw"
    and w: "bp_word body < 2 ^ 60" "off < 2 ^ 32" "length bs < 2 ^ 32"
  shows "seg_read m (p_seg s) (data_bytes s + off) (length bs) = Some bs"
proof -
  let ?a = "sz (bp_word body * WORD_BYTES + off)"
  have a: "?a = bp_word body * 8 + off" using w by (simp add: WORD_BYTES_def)
  have d: "data_bytes s + off = ?a" using w s by (simp add: struct_view_def data_bytes_def WORD_BYTES_def)
  have l: "length bs < 2 ^ 60" using w(3) by simp
  show ?thesis
  proof (cases rule: set_bytes_cases [OF inv l, of body off])
    case 1
    then show ?thesis using set by simp
  next
    case (2 b2 a2)
    then have "segs_of b' = put (segs_of b) (bp_seg body) ?a bs" "in_range (segs_of b) (bp_seg body) ?a (length bs)"
      using set by simp_all
    then show ?thesis
      using holds_seg_read [OF m, of "bp_seg body" ?a "length bs"] bytes_at_put_same s
      by (simp add: d struct_view_def)
  next
    case 3
    then show ?thesis using a w by simp
  qed
qed

lemma view_has_bytes: "struct_view s body dw pw \<Longrightarrow> off + n \<le> dw * 8 \<Longrightarrow> data_has_bytes s off n"
  by (simp add: struct_view_def data_has_bytes_def data_bit_count_def Let_def)

section \<open>Primitive lists\<close>

lemma bits_words: "((k :: nat) * (n * 8) + 63) div 64 = (k * n + 7) div 8"
proof -
  have "k * (n * 8) + 63 = (k * n + 7) * 8 + 7" by simp
  then have "(k * (n * 8) + 63) div 64 = ((k * n + 7) * 8 + 7) div 8 div 8" by (simp add: div_mult2_eq [symmetric])
  then show ?thesis by simp
qed

lemma prim_list_read_back:
  assumes as: "address_space A" and inv: "builder_inv b" and bs: "bp_seg body < length (bsegs b)"
    and set: "set_list_prim A b body dw i es (length xs) eb (Some xs) = Some (CAPNP_OK, b')"
    and es: "(es, eb) \<in> {(SZ_BYTE, 1), (SZ_TWO, 2), (SZ_FOUR, 4), (SZ_EIGHT, 8)}"
    and el: "\<forall>x \<in> set xs. length x = eb" and cnt: "length xs < 2 ^ 29"
    and m: "holds m (segs_of b')" and small: "small_segs (segs_of b')"
    and s: "struct_view s body dw pw" "i < pw"
    and budget: "length xs + 3 \<le> traversal_left m" "2 \<le> depth_limit m"
  shows "\<exists>m' l. capnp_getp m s i ptr0 = Some (CAPNP_OK, m', l) \<and> capnp_list_len l = length xs \<and>
    (\<forall>k < length xs. list_elem_addr l k es eb \<noteq> None \<and>
       seg_read m' (p_seg l) (the (list_elem_addr l k es eb)) eb = Some (xs ! k))"
proof (cases rule: ptr_slot_cases [OF inv bs, of dw i])
  case 1
  then show ?thesis using set by (simp add: set_list_prim_def)
next
  case (2 sw)
  let ?n = "(length xs * eb + 7) div 8" and ?c = "pad_words ((length xs * eb + 7) div 8) (concat xs)"
  have eb: "eb \<in> {1, 2, 4, 8}" using es by auto
  have lc: "length (concat xs) = length xs * eb" using el length_concat_chunks by (simp add: mult.commute)
  have fit: "length xs * eb \<le> ?n * 8" by presburger
  obtain seg word where w: "wrote (\<lambda>off. capnp_wp_make_list off es (length xs)) (segs_of b) (bp_seg body) sw ?c seg word (segs_of b')"
    using set_list_prim_result [OF as inv 2(1,3) eb el, of es] unfolding set by (rule set_result_OK)
  have es': "es < 8" "es \<noteq> SZ_COMPOSITE" "list_bits es (length xs) = Some (length xs * (eb * 8))"
    using es prim_bits by (auto simp: kind_defs)
  have len: "length ?c = ?n * 8" using fit lc by simp
  have "?n \<le> length xs" using eb by auto
  then have bud: "(length xs * (eb * 8) + 63) div 64 + 3 \<le> traversal_left m" using budget(1) by (simp add: bits_words)
  define l where "l = set_list seg word es (length xs) (clear_view ptr0)"
  obtain j where g: "capnp_getp m s i ptr0 = Some (CAPNP_OK, spend j m, l)" and wp: "well_placed m l"
    using wrote_list_resolves [OF w 2(3) m small es'(1,2,3) cnt _ bud budget(2), of ptr0] getp_slot [OF s] 2(2) len
    by (auto simp: l_def bits_words)
  have "seg_read m seg (word * 8 + k * eb) eb = Some (xs ! k) \<and> list_elem_addr l k es eb = Some (word * 8 + k * eb)"
    if k: "k < length xs" for k
  proof -
    have e0: "0 < eb" using eb by auto
    have "k * eb + eb \<le> length xs * eb" using mult_le_mono1 [of "k + 1" "length xs" eb] k by simp
    then have ke: "k * eb + eb \<le> ?n * 8" using fit by simp
    then have "?c \<noteq> []" using e0 unfolding length_0_conv [symmetric] len by simp
    then have f: "in_range (segs_of b') seg (word * 8) (?n * 8)" "bytes_at (segs_of b') seg (word * 8) (?n * 8) = ?c"
      using wrote_facts(2,3) [OF w 2(3)] len by simp_all
    have "in_range (segs_of b') seg (word * 8 + k * eb) eb" using f(1) ke by (simp add: in_range_def)
    then have "seg_read m seg (word * 8 + k * eb) eb = Some (take eb (drop (k * eb) ?c))"
      using holds_seg_read [OF m] bytes_at_sub [OF ke, of "segs_of b'" seg "word * 8"] f(2) by simp
    also have "take eb (drop (k * eb) ?c) = xs ! k"
      unfolding pad_words_def mult.commute [of k eb] by (rule take_drop_concat_chunks [OF el k])
    finally have r: "seg_read m seg (word * 8 + k * eb) eb = Some (xs ! k)" .
    have "word + ?n < 2 ^ 29" using small_start [OF small f(1)] by simp
    then have "list_elem_addr l k es eb = Some (word * 8 + k * eb)"
      using k by (simp add: l_def list_elem_addr_def list_elem_bytes_def WORD_BYTES_def)
    with r show ?thesis by simp
  qed
  then show ?thesis using g by (intro exI [of _ "spend j m"] exI [of _ l]) (simp add: l_def capnp_list_len_def)
qed

section \<open>Structs and lists of structs\<close>

lemma struct_read_back:
  assumes as: "address_space A" and inv: "builder_inv b" and slot: "has_word (segs_of b) (bp_seg p) (bp_word p)"
    and new: "capnp_builder_struct A b p dw pw = Some (CAPNP_OK, b', body)" and n: "0 < dw + pw" "dw < 2 ^ 16" "pw < 2 ^ 16"
    and m: "holds m (segs_of b')" and small: "small_segs (segs_of b')"
    and budget: "dw + pw + 3 \<le> traversal_left m" and d: "2 \<le> d"
  shows "\<exists>j. resolve_ptr m (bp_seg p) (bp_word p) d out =
      Some (CAPNP_OK, spend j m, set_struct (bp_seg body) (bp_word body) dw pw (clear_view out))"
    and "in_range (segs_of b') (bp_seg body) (bp_word body * 8) ((dw + pw) * 8)"
    and "bytes_at (segs_of b') (bp_seg body) (bp_word body * 8) ((dw + pw) * 8) = replicate ((dw + pw) * 8) 0"
    and "builder_inv b'" and "only_range (segs_of b) (bp_seg p) (bp_word p * 8) 8 (segs_of b')"
proof -
  have ne: "bsegs b \<noteq> []" by (rule has_word_nonempty [OF slot])
  obtain b1 where a: "alloc_words A b (dw + pw) = Some (CAPNP_OK, b1, bp_seg body, bp_word body)"
    and wp: "write_struct_ptr A b1 (bp_seg p) (bp_word p) (bp_seg body) (bp_word body) dw pw = Some (CAPNP_OK, b')"
    using new n by (auto simp: capnp_builder_struct_def Let_def split: bind_splits if_splits)
  note f = words.alloc_ok [OF as inv a, THEN conjunct1] words.alloc_ok [OF as inv a, THEN conjunct2]
  note le = fresh_le [OF f(2)]
  have slot1: "has_word (segs_of b1) (bp_seg p) (bp_word p)" by (rule segs_le_word [OF le slot])
  have seg: "bp_seg body < length (bsegs b1)" using fresh_zero(1) [OF f(2)] by simp
  have l: "linked (\<lambda>off. capnp_wp_make_struct off dw pw) (segs_of b1) (bp_seg p) (bp_word p) (bp_seg body) (bp_word body) (segs_of b')"
    and inv': "builder_inv b'"
    using write_ptr_ok [OF as f(1) slot1 seg, of "bp_word body" "\<lambda>off. capnp_wp_make_struct off dw pw"] wp
    by (auto simp: write_struct_ptr_def)
  show "builder_inv b'" by (rule inv')
  have ls: "only_range (segs_of b1) (bp_seg p) (bp_word p * 8) 8 (segs_of b')"
    using linked_only_slot [OF l slot1] seg by simp
  show "only_range (segs_of b) (bp_seg p) (bp_word p * 8) 8 (segs_of b')"
    by (rule only_range_trans [OF only_range_le [OF le] ls])
  note r1 = fresh_range [OF f(2)]
  show r: "in_range (segs_of b') (bp_seg body) (bp_word body * 8) ((dw + pw) * 8)"
    by (rule only_rangeD(1) [OF ls r1])
  show "bytes_at (segs_of b') (bp_seg body) (bp_word body * 8) ((dw + pw) * 8) = replicate ((dw + pw) * 8) 0"
    using only_rangeD(2) [OF ls r1] fresh_not_slot [OF f(2) slot] fresh_zeros [OF f(2)] by auto
  note tag = good_tag_struct [OF m small r n(2,3,1)]
  have "bp_seg body < length (segs_of b1)" using seg by simp
  from linked_resolves [OF l slot1 this m small tag budget d, of out]
  show "\<exists>j. resolve_ptr m (bp_seg p) (bp_word p) d out =
      Some (CAPNP_OK, spend j m, set_struct (bp_seg body) (bp_word body) dw pw (clear_view out))" by blast
qed

lemma list_struct_read_back:
  assumes as: "address_space A" and inv: "builder_inv b" and bs: "bp_seg body < length (bsegs b)"
    and new: "capnp_builder_set_list_struct A b body dw i n edw epw = Some (CAPNP_OK, b', first)"
    and n: "edw < 2 ^ 16" "epw < 2 ^ 16" "n < 2 ^ 29"
    and m: "holds m (segs_of b')" and small: "small_segs (segs_of b')" and s: "struct_view s body dw pw" "i < pw"
    and budget: "n * (edw + epw) + 4 \<le> traversal_left m" "2 \<le> depth_limit m"
  shows "\<exists>m' l. capnp_getp m s i ptr0 = Some (CAPNP_OK, m', l) \<and> capnp_list_len l = n \<and>
    (\<forall>k < n. \<exists>v. capnp_list_get_struct l k ptr0 = (CAPNP_OK, v) \<and>
       struct_view v \<lparr>bp_seg = bp_seg first, bp_word = bp_word first + k * (edw + epw)\<rparr> edw epw)"
proof (cases rule: ptr_slot_cases [OF inv bs, of dw i])
  case 1
  then show ?thesis using new by (simp add: capnp_builder_set_list_struct_def)
next
  case (2 sw)
  let ?cw = "n * (edw + epw)" and ?t = "capnp_wp_make_struct (int n) edw epw"
  obtain b1 b2 seg word where a: "alloc_words A b (1 + ?cw) = Some (CAPNP_OK, b1, seg, word)"
    and st: "store_w b1 seg word ?t = Some b2"
    and wp: "write_list_ptr A b2 (bp_seg body) sw seg word SZ_COMPOSITE (?cw mod 2 ^ 32) = Some (CAPNP_OK, b')"
    and first: "first = \<lparr>bp_seg = seg, bp_word = word + 1\<rparr>"
    using new 2(1) by (auto simp: capnp_builder_set_list_struct_def Let_def split: bind_splits if_splits)
  note f = words.alloc_ok [OF as inv a, THEN conjunct1] words.alloc_ok [OF as inv a, THEN conjunct2]
  note r1 = fresh_range [OF f(2)]
  have hw: "has_word (segs_of b1) seg word" using r1 by (simp add: has_word_def in_range_def)
  from store_w_ok [OF f(1) hw, of ?t] st have b2: "builder_inv b2" "segs_of b2 = put_word (segs_of b1) seg word ?t" by auto
  have slot1: "has_word (segs_of b1) (bp_seg body) sw" by (rule segs_le_word [OF fresh_le [OF f(2)] 2(3)])
  have slot2: "has_word (segs_of b2) (bp_seg body) sw" using slot1 hw by (simp add: b2(2) has_word_put_word)
  have seg: "seg < length (bsegs b2)"
    using fresh_zero(1) [OF f(2)] b2(2) by (metis length_put(2) length_segs_of)
  have l: "linked (\<lambda>off. capnp_wp_make_list off SZ_COMPOSITE (?cw mod 2 ^ 32)) (segs_of b2) (bp_seg body) sw seg word (segs_of b')"
    using write_ptr_ok [OF as b2(1) slot2 seg, of word "\<lambda>off. capnp_wp_make_list off SZ_COMPOSITE (?cw mod 2 ^ 32)"] wp
    by (auto simp: write_list_ptr_def)
  have ls: "only_range (segs_of b2) (bp_seg body) (sw * 8) 8 (segs_of b')"
    using linked_only_slot [OF l slot2] seg by simp
  have r2: "in_range (segs_of b2) seg (word * 8) ((1 + ?cw) * 8)"
    using r1 hw by (simp add: b2(2) put_word_def has_word_def)
  have hw2: "has_word (segs_of b2) seg word" using hw by (simp add: b2(2) has_word_put_word)
  have ns: "seg \<noteq> bp_seg body \<or> sw * 8 + 8 \<le> word * 8" by (rule fresh_not_slot [OF f(2) 2(3)])
  have r: "in_range (segs_of b') seg (word * 8) ((1 + ?cw) * 8)" by (rule only_rangeD(1) [OF ls r2])
  have "word_at (segs_of b') seg word = word_at (segs_of b2) seg word"
    using only_rangeD(2) [OF ls, of seg "word * 8" 8] hw2 ns by (auto simp: word_at_def has_word_def)
  then have tag_word: "word_at (segs_of b') seg word = ?t" using hw by (simp add: b2(2) word_at_put_word)
  have cw: "?cw mod 2 ^ 32 = ?cw" using small_start [OF small r] by simp
  define lst where "lst = set_composite word ?t (set_list seg word SZ_COMPOSITE ?cw (clear_view ptr0))"
  note tag = good_tag_composite [OF m small n r tag_word]
  have budget': "1 + ?cw + 3 \<le> traversal_left m" using budget(1) by simp
  have seg': "seg < length (segs_of b2)" using seg by simp
  obtain j where g: "capnp_getp m s i ptr0 = Some (CAPNP_OK, spend j m, lst)"
    using linked_resolves [OF l [unfolded cw] slot2 seg' m small tag budget' budget(2), of ptr0]
      getp_slot [OF s, of m ptr0] 2(2)
    by (auto simp: lst_def)
  have small29: "word + (1 + ?cw) < 2 ^ 29" using small_start [OF small r] by simp
  have lf: "p_kind lst = PK_LIST" "p_count lst = n" "p_esize lst = SZ_COMPOSITE" "p_word lst = word + 1"
    "p_step_words lst = edw + epw" "p_dwords lst = edw" "p_pwords lst = epw" "p_seg lst = seg"
    using n small29 by (simp_all add: lst_def)
  have "\<exists>v. capnp_list_get_struct lst k ptr0 = (CAPNP_OK, v) \<and>
      struct_view v \<lparr>bp_seg = bp_seg first, bp_word = bp_word first + k * (edw + epw)\<rparr> edw epw" if "k < n" for k
  proof -
    have "k * (edw + epw) \<le> ?cw" using that by (intro mult_le_mono1) simp
    with small29 have "word + 1 + k * (edw + epw) < 2 ^ 29" by linarith
    then have "sz (word + 1 + k * (edw + epw)) = word + 1 + k * (edw + epw)" by (intro sz_id) simp
    then show ?thesis using that lf
      by (simp add: capnp_list_get_struct_def Let_def struct_view_def first)
  qed
  then show ?thesis using g lf by (auto simp: capnp_list_len_def)
qed

section \<open>Serialization\<close>

lemma copy_segs_eq:
  "\<lbrakk>list_all bseg_ok ss; off + sum_list (map b_words ss) * 8 \<le> length buf\<rbrakk> \<Longrightarrow>
   \<exists>buf'. copy_segs buf off ss = Some buf' \<and> length buf' = length buf \<and>
     take (off + sum_list (map b_words ss) * 8) buf' = take off buf @ concat (map seg_used ss)"
proof (induction ss arbitrary: buf off)
  case (Cons s ss)
  have ok: "bseg_ok s" and len: "length (seg_used s) = b_words s * 8" using Cons.prems length_seg_used by auto
  obtain buf1 where b: "wr buf off (seg_used s) = Some buf1" "length buf1 = length buf"
    "take (off + b_words s * 8) buf1 = take off buf @ seg_used s"
    using wr_append [of off "seg_used s" buf] Cons.prems len by auto
  have "rd (b_data s) 0 (b_words s * 8) = Some (seg_used s)" using ok by (simp add: rd_def bseg_ok_def seg_used_def)
  moreover have "buf1 = buf" if "b_words s = 0" using b(1) len that by (auto simp: wr_def split: if_splits)
  ultimately have "(if b_words s * 8 \<noteq> 0 then do { src \<leftarrow> rd (b_data s) 0 (b_words s * 8); wr buf off src } else Some buf) = Some buf1"
    using b(1) by auto
  then show ?case
    using Cons.IH [of "off + b_words s * 8" buf1] Cons.prems b
    by (auto simp: WORD_BYTES_def Let_def algebra_simps)
qed simp

lemma serialize_eq:
  assumes inv: "builder_inv b" and ne: "bsegs b \<noteq> []" "b_words (bsegs b ! 0) \<noteq> 0"
    and mem: "mem_ok A (length (frame (segs_of b)))"
  shows "capnp_builder_serialize A b = Some (CAPNP_OK, frame (segs_of b))"
proof -
  define ss where "ss = bsegs b"
  define n where "n = length ss"
  define total where "total = table_size n + sum_list (map b_words ss) * 8"
  have ok: "list_all bseg_ok ss" using inv by (simp add: builder_inv_def ss_def)
  have lens: "map length (segs_of b) = map (\<lambda>s. b_words s * 8) ss"
    using ok by (auto simp: segs_of_def ss_def list_all_iff length_seg_used)
  have total: "length (frame (segs_of b)) = total"
    by (simp add: length_frame lens total_def n_def ss_def sum_list_mult_const)
  note t = table_size_bounds(1) [of n]
  obtain b1 where b1: "wr (map (mem_junk A) [0..<total]) 0 (capnp_store_le32 (word_of_nat (n - 1))) = Some b1"
    "length b1 = total" "take 4 b1 = capnp_store_le32 (word_of_nat (n - 1))"
    using wr_append [of 0 "capnp_store_le32 (word_of_nat (n - 1))" "map (mem_junk A) [0..<total]"] t
    by (auto simp: total_def)
  obtain b2 where b2: "write_sizes b1 0 (map b_words ss) = Some b2" "length b2 = total"
    "take (4 + 4 * n) b2 = capnp_store_le32 (word_of_nat (n - 1)) @
       concat (map (\<lambda>w. capnp_store_le32 (word_of_nat w)) (map b_words ss))"
    using write_sizes_eq [of 0 "map b_words ss" b1] b1(2,3) t by (auto simp: total_def n_def)
  define pad where "pad = replicate (table_size n - (4 + 4 * n)) (0 :: byte)"
  obtain b3 where b3: "wr b2 (4 + 4 * n) pad = Some b3" "length b3 = total"
    "take (table_size n) b3 = take (4 + 4 * n) b2 @ pad"
    using wr_append [of "4 + 4 * n" pad b2] b2(2) t by (auto simp: total_def pad_def)
  have pad: "(if table_size n > 4 + 4 * n then wr b2 (4 + 4 * n) pad else Some b2) = Some b3"
    using b3(1) b2(2) t by (auto simp: pad_def wr_def total_def)
  obtain b4 where b4: "copy_segs b3 (table_size n) ss = Some b4" "length b4 = total"
    "take total b4 = take (table_size n) b3 @ concat (map seg_used ss)"
    using copy_segs_eq [OF ok, of "table_size n" b3] b3(2) by (auto simp: total_def)
  have m: "c_malloc A total = Some (map (mem_junk A) [0..<total])" using mem by (simp add: c_malloc_def total)
  have "capnp_builder_serialize A b = Some (CAPNP_OK, b4)"
    unfolding capnp_builder_serialize_def Let_def ss_def [symmetric] WORD_BYTES_def
    unfolding n_def [symmetric] total_def [symmetric] pad_def [symmetric] m option.case
      b1(1) b2(1) pad b4(1) bind.bind_lunit
    using ne by (simp add: ss_def n_def)
  note serialized = this
  have "map (\<lambda>s. capnp_store_le32 (word_of_nat (length s div 8))) (segs_of b) =
      map (\<lambda>w. capnp_store_le32 (word_of_nat w)) (map b_words ss)"
    using ok by (auto simp: segs_of_def ss_def list_all_iff length_seg_used)
  moreover have "concat (segs_of b) = concat (map seg_used ss)" "length (segs_of b) = n"
    by (simp_all add: segs_of_def ss_def n_def)
  ultimately have "b4 = frame (segs_of b)"
    using b4(2,3) b3(3) b2(3) unfolding frame_def pad_def by simp
  with serialized show ?thesis by simp
qed

end
