(* ===== verification/BuilderClaims.thy ===== *)
theory BuilderClaims
  imports BuilderProps
begin

text \<open>
  The properties of the builder. \<open>setter_safe\<close> is what every pointer setter promises; the
  round trips below compose the lemmas of theory \<open>BuilderProps\<close> with the readers.
\<close>

section \<open>What every setter promises\<close>

definition setter_safe :: "builder \<Rightarrow> bptr \<Rightarrow> nat \<Rightarrow> nat \<Rightarrow> (rc \<times> builder) option \<Rightarrow> bool" where
  "setter_safe b body dw i R \<longleftrightarrow>
     (\<exists>r b'. R = Some (r, b') \<and> r \<in> {CAPNP_OK, CAPNP_ERR_ALLOC, CAPNP_ERR_BOUNDS} \<and> builder_inv b' \<and>
        only_range (segs_of b) (bp_seg body) (sz (bp_word body + dw + i) * 8) 8 (segs_of b') \<and>
        (r = CAPNP_ERR_BOUNDS \<longrightarrow> b' = b))"

lemma setter_safe_slot:
  assumes inv: "builder_inv b" and bs: "bp_seg body < length (bsegs b)"
    and out: "ptr_slot b body dw i = Some None \<Longrightarrow> R = Some (CAPNP_ERR_BOUNDS, b)"
    and slot: "\<And>sw. \<lbrakk>ptr_slot b body dw i = Some (Some sw); has_word (segs_of b) (bp_seg body) sw\<rbrakk> \<Longrightarrow>
      \<exists>mk content. set_result b (bp_seg body) sw mk content R"
  shows "setter_safe b body dw i R"
proof (cases rule: ptr_slot_cases [OF inv bs, of dw i])
  case 1
  then show ?thesis using out inv by (simp add: setter_safe_def only_range_refl)
next
  case (2 sw)
  obtain mk content where "set_result b (bp_seg body) sw mk content R" using slot [OF 2(1,3)] by blast
  then show ?thesis using 2(2) by (auto simp: setter_safe_def set_result_def)
qed

text \<open>A setter that only stores a pointer word.\<close>

lemma store_slot_safe:
  assumes inv: "builder_inv b" and slot: "has_word (segs_of b) s w"
  obtains b' where "store_w b s w v = Some b'" "builder_inv b'" "segs_of b' = put_word (segs_of b) s w v"
    "only_range (segs_of b) s (w * 8) 8 (segs_of b')"
  using store_w_ok [OF inv slot, of v] only_range_put_word [OF slot, of v] by metis

lemma set_cap_safe:
  assumes inv: "builder_inv b" and bs: "bp_seg body < length (bsegs b)"
  shows "setter_safe b body dw i (capnp_builder_set_cap b body dw i cap)"
    and "setter_safe b body dw i (capnp_builder_clear_ptr b body dw i)"
proof -
  have "setter_safe b body dw i (capnp_builder_set_cap b body dw i cap) \<and>
    setter_safe b body dw i (capnp_builder_clear_ptr b body dw i)"
  proof (cases rule: ptr_slot_cases [OF inv bs, of dw i])
    case 1
    then show ?thesis using inv
      by (simp add: setter_safe_def only_range_refl capnp_builder_set_cap_def capnp_builder_clear_ptr_def capnp_builder_slot_def)
  next
    case (2 sw)
    obtain b1 where b1: "store_w b (bp_seg body) sw (capnp_wp_make_cap cap) = Some b1" "builder_inv b1"
      "only_range (segs_of b) (bp_seg body) (sw * 8) 8 (segs_of b1)" by (rule store_slot_safe [OF inv 2(3)])
    obtain b2 where b2: "store_w b (bp_seg body) sw 0 = Some b2" "builder_inv b2"
      "only_range (segs_of b) (bp_seg body) (sw * 8) 8 (segs_of b2)" by (rule store_slot_safe [OF inv 2(3)])
    show ?thesis using 2 b1 b2
      by (simp add: setter_safe_def capnp_builder_set_cap_def capnp_builder_clear_ptr_def capnp_builder_slot_def)
  qed
  then show "setter_safe b body dw i (capnp_builder_set_cap b body dw i cap)"
    "setter_safe b body dw i (capnp_builder_clear_ptr b body dw i)" by auto
qed

section \<open>Bit lists\<close>

lemma put_bytes_at: "in_range segs s a n \<Longrightarrow> put segs s a (bytes_at segs s a n) = segs"
proof -
  assume r: "in_range segs s a n"
  have "take a m @ take n (drop a m) @ drop (a + n) m = m" for m :: "byte list"
  proof -
    have "take n (drop a m) @ drop (a + n) m = drop a m"
      using append_take_drop_id [of n "drop a m"] by (simp only: drop_drop add.commute)
    then show ?thesis by simp
  qed
  then show ?thesis using r length_bytes_at [OF r]
    by (simp add: put_def) (simp add: bytes_at_def)
qed

lemma put_put_inside:
  assumes r: "in_range segs s a (length bs)" and c: "in_range segs s c (length cs)"
    and sub: "c \<le> a" "a + length bs \<le> c + length cs"
  shows "put (put segs s a bs) s c cs = put segs s c cs"
proof -
  let ?m = "segs ! s"
  have s: "s < length segs" and l: "a + length bs \<le> length ?m" using r by (simp_all add: in_range_def)
  have "take c (take a ?m @ bs @ drop (a + length bs) ?m) = take c ?m" using sub l by (simp add: min_absorb1)
  moreover have "drop (c + length cs) (take a ?m @ bs @ drop (a + length bs) ?m) = drop (c + length cs) ?m"
    using sub l by (simp add: min_absorb2)
  ultimately show ?thesis using s by (simp add: put_def)
qed

lemma set_bits_ok:
  "\<lbrakk>builder_inv b; in_range (segs_of b) seg (word * 8) len; word < 2 ^ 60; i + length xs \<le> len * 8; len < 2 ^ 62\<rbrakk> \<Longrightarrow>
   \<exists>b'. set_bits b seg word i xs = Some b' \<and> builder_inv b' \<and>
     (\<exists>c. length c = len \<and> segs_of b' = put (segs_of b) seg (word * 8) c)"
proof (induction xs arbitrary: b i)
  case Nil
  show ?case
    using Nil.prems(1) length_bytes_at [OF Nil.prems(2)] put_bytes_at [OF Nil.prems(2)]
    by (intro exI [of _ b]) (auto intro!: exI [of _ "bytes_at (segs_of b) seg (word * 8) len"])
next
  case (Cons x xs)
  show ?case
  proof (cases "x = 0")
    case True
    then show ?thesis using Cons.IH [of b "i + 1"] Cons.prems by simp
  next
    case False
    have i: "i div 8 < len" using Cons.prems(4) by simp
    have a: "sz (word * WORD_BYTES + i div 8) = word * 8 + i div 8" using Cons.prems(3,5) i by (simp add: WORD_BYTES_def)
    have s: "seg < length (bsegs b)" and fits: "word * 8 + len \<le> b_words (bsegs b ! seg) * 8"
      using Cons.prems(2) length_nth_segs [OF Cons.prems(1), of seg] by (auto simp: in_range_def)
    obtain p where p: "seg_load b seg (word * 8 + i div 8) 1 = Some p"
      using s fits i builder_invD [OF Cons.prems(1) s] by (auto simp: seg_load_def rd_def bseg_ok_def)
    let ?v = "[hd p OR bit_mask i]"
    have r: "in_range (segs_of b) seg (word * 8 + i div 8) (length ?v)"
      using Cons.prems(2) i by (simp add: in_range_def)
    obtain b1 where b1: "seg_store b seg (word * 8 + i div 8) ?v = Some b1" "builder_inv b1"
      "segs_of b1 = put (segs_of b) seg (word * 8 + i div 8) ?v"
      using seg_store_ok [OF Cons.prems(1) r] by blast
    have "in_range (segs_of b1) seg (word * 8) len" using Cons.prems(2) by (simp only: b1(3) in_range_put [OF r])
    then obtain b' c where b': "set_bits b1 seg word (i + 1) xs = Some b'" "builder_inv b'" "length c = len"
      "segs_of b' = put (segs_of b1) seg (word * 8) c"
      using Cons.IH [OF b1(2), of "i + 1"] Cons.prems(3,4,5) by auto
    have "put (segs_of b1) seg (word * 8) c = put (segs_of b) seg (word * 8) c"
      unfolding b1(3) using r i Cons.prems(2) b'(3) by (intro put_put_inside) simp_all
    then show ?thesis using False a p b1(1) b' by auto
  qed
qed

lemma set_list_bool_result:
  assumes as: "address_space A" and inv: "builder_inv b"
    and ps: "ptr_slot b body dw i = Some (Some sw)" and slot: "has_word (segs_of b) (bp_seg body) sw"
    and cnt: "length items < 2 ^ 32"
  shows "\<exists>content. set_result b (bp_seg body) sw (\<lambda>off. capnp_wp_make_list off SZ_BIT (length items)) content
    (capnp_builder_set_list_bool A b body dw i items)"
proof -
  define n where "n = ((length items + 7) div 8 + 7) div 8"
  have n: "length items \<le> n * 8 * 8" "n < 2 ^ 32" using cnt by (simp_all add: n_def)
  show ?thesis
  proof (cases rule: alloc_content_cases [OF as inv slot, of n])
    case 1
    then show ?thesis using set_result_empty [OF as inv slot]
      by (intro exI [of _ "[]"]) (simp add: capnp_builder_set_list_bool_def ps Let_def n_def [symmetric] write_list_ptr_def)
  next
    case (2 r b1 s w)
    then show ?thesis
      by (simp add: capnp_builder_set_list_bool_def ps Let_def n_def [symmetric] set_result_alloc_fail)
  next
    case (3 b1 seg word)
    let ?z = "replicate (n * 8) (0 :: byte)"
    have "has_word (segs_of b1) seg word" using fresh_range [OF 3(4)] 3(1) by (simp add: has_word_def in_range_def)
    then have w60: "word < 2 ^ 60" by (rule builder_word_bound [OF 3(3)])
    then have a: "sz (word * WORD_BYTES) = word * 8" by (simp add: WORD_BYTES_def)
    have rz: "in_range (segs_of b1) seg (word * 8) (length ?z)" using fresh_range [OF 3(4)] by simp
    obtain b2 where b2: "seg_store b1 seg (word * 8) ?z = Some b2" "builder_inv b2"
      "segs_of b2 = put (segs_of b1) seg (word * 8) ?z" using seg_store_ok [OF 3(3) rz] by blast
    have r2: "in_range (segs_of b2) seg (word * 8) (n * 8)" using rz by (simp add: b2(3) in_range_put)
    obtain b3 c where b3: "set_bits b2 seg word 0 items = Some b3" "builder_inv b3" "length c = n * 8"
      "segs_of b3 = put (segs_of b2) seg (word * 8) c"
      using set_bits_ok [OF b2(2) r2 w60, of 0 items] n by auto
    have "segs_of b3 = put (segs_of b1) seg (word * 8) c"
      unfolding b3(4) b2(3) using rz b3(3) by (intro put_put_inside) simp_all
    note res = set_result_fresh [OF as b3(2) slot 3(4,1) b3(3) this]
    then show ?thesis using 3(1,2) b2(1) b3(1)
      by (intro exI [of _ c])
        (simp add: capnp_builder_set_list_bool_def ps Let_def n_def [symmetric] write_list_ptr_def a [unfolded WORD_BYTES_def] WORD_BYTES_def)
  qed
qed

section \<open>Lists of text\<close>

text \<open>Changes beyond the old end of a segment do not count.\<close>

lemma only_range_step:
  assumes "only_range segs s a n s1" "only_range s1 t c k s2" "t < length segs \<Longrightarrow> length (segs ! t) \<le> c"
  shows "only_range segs s a n s2"
  unfolding only_range_def
proof (intro allI impI)
  fix i c' k' assume r: "in_range segs i c' k'"
  note r1 = only_rangeD(1) [OF assms(1) r]
  have "i \<noteq> t \<or> c' + k' \<le> c" using r assms(3) by (auto simp: in_range_def)
  then have "bytes_at s2 i c' k' = bytes_at s1 i c' k'" using only_rangeD(2) [OF assms(2) r1] by auto
  then show "in_range s2 i c' k' \<and>
      (i \<noteq> s \<or> c' + k' \<le> a \<or> a + n \<le> c' \<longrightarrow> bytes_at s2 i c' k' = bytes_at segs i c' k')"
    using only_rangeD(1) [OF assms(2) r1] only_rangeD(2) [OF assms(1) r] by auto
qed

lemma write_texts_safe:
  assumes as: "address_space A" and old: "seg < length segs \<Longrightarrow> length (segs ! seg) \<le> first * 8"
  shows "\<lbrakk>builder_inv b; only_range segs s a n (segs_of b); first \<le> slot;
      in_range (segs_of b) seg (slot * 8) (length ts * 8)\<rbrakk> \<Longrightarrow>
    \<exists>r b'. write_texts A b seg slot ts = Some (r, b') \<and> r \<in> {CAPNP_OK, CAPNP_ERR_ALLOC} \<and> builder_inv b' \<and>
      only_range segs s a n (segs_of b')"
proof (induction ts arbitrary: b slot)
  case (Cons t ts)
  have slot: "has_word (segs_of b) seg slot" using Cons.prems(4) by (simp add: has_word_def in_range_def)
  obtain r b1 where w: "write_text_at A b seg slot t = Some (r, b1)" "builder_inv b1"
    "only_range (segs_of b) seg (slot * 8) 8 (segs_of b1)" "r \<in> {CAPNP_OK, CAPNP_ERR_ALLOC}"
    using write_text_result [OF as Cons.prems(1) slot, of t] by (auto simp: set_result_def)
  have o: "only_range segs s a n (segs_of b1)"
    using old Cons.prems(3) by (intro only_range_step [OF Cons.prems(2) w(3)]) simp
  show ?case
  proof (cases "r = CAPNP_OK")
    case False
    then show ?thesis using w o by auto
  next
    case True
    have "in_range (segs_of b) seg ((slot + 1) * 8) (length ts * 8)" using Cons.prems(4) by (simp add: in_range_def)
    then have "in_range (segs_of b1) seg ((slot + 1) * 8) (length ts * 8)" by (rule only_rangeD(1) [OF w(3)])
    then show ?thesis using Cons.IH [OF w(2) o, of "slot + 1"] Cons.prems(3) True w(1) by simp
  qed
qed simp

lemma fresh_old_end: "fresh segs n segs1 seg word \<Longrightarrow> seg < length segs \<Longrightarrow> length (segs ! seg) \<le> word * 8"
  by (auto simp: fresh_def)

lemma set_list_text_safe:
  assumes as: "address_space A" and inv: "builder_inv b" and bs: "bp_seg body < length (bsegs b)"
  shows "setter_safe b body dw i (capnp_builder_set_list_text_n A b body dw i items)"
proof (cases rule: ptr_slot_cases [OF inv bs, of dw i])
  case 1
  then show ?thesis using inv
    by (simp add: setter_safe_def only_range_refl capnp_builder_set_list_text_n_def)
next
  case slot: (2 sw)
  show ?thesis
  proof (cases rule: alloc_content_cases [OF as inv slot(3), of "length items"])
    case 1
    have "set_result b (bp_seg body) sw (\<lambda>off. capnp_wp_make_list off SZ_PTR 0) []
        (write_list_ptr A b (bp_seg body) sw (bp_seg body) (sw + 1) SZ_PTR 0)"
      using set_result_empty [OF as inv slot(3)] by (simp add: write_list_ptr_def)
    then show ?thesis using 1 slot(1,2)
      by (auto simp: setter_safe_def capnp_builder_set_list_text_n_def set_result_def)
  next
    case (2 r b1 s w)
    then show ?thesis using slot
      by (simp add: setter_safe_def capnp_builder_set_list_text_n_def only_range_refl)
  next
    case (3 b1 seg word)
    let ?mk = "\<lambda>off. capnp_wp_make_list off SZ_PTR (length items)"
    note o1 = only_range_le [OF fresh_le [OF 3(4)], of "bp_seg body" "sw * 8" 8]
    have slot1: "has_word (segs_of b1) (bp_seg body) sw" using only_rangeD(1) [OF o1] slot(3) by (simp add: has_word_def)
    have seg: "seg < length (bsegs b1)" using fresh_zero(1) [OF 3(4)] by simp
    obtain r b2 where w: "write_ptr A b1 (bp_seg body) sw seg word ?mk = Some (r, b2)" "builder_inv b2"
      "if r = CAPNP_OK then linked ?mk (segs_of b1) (bp_seg body) sw seg word (segs_of b2)
       else r = CAPNP_ERR_ALLOC \<and> bp_seg body \<noteq> seg \<and> segs_of b2 = segs_of b1"
      using write_ptr_ok [OF as 3(3) slot1 seg, of word ?mk] by blast
    show ?thesis
    proof (cases "r = CAPNP_OK")
      case False
      then show ?thesis using 3(2) w o1 slot
        by (simp add: setter_safe_def capnp_builder_set_list_text_n_def write_list_ptr_def)
    next
      case True
      then have l: "linked ?mk (segs_of b1) (bp_seg body) sw seg word (segs_of b2)" using w(3) by simp
      have o2: "only_range (segs_of b1) (bp_seg body) (sw * 8) 8 (segs_of b2)"
        using linked_only_slot [OF l slot1] seg by simp
      have "in_range (segs_of b2) seg (word * 8) (length items * 8)"
        by (rule only_rangeD(1) [OF o2 fresh_range [OF 3(4)]])
      from write_texts_safe [OF as fresh_old_end [OF 3(4)] w(2) only_range_trans [OF o1 o2] order_refl this]
      show ?thesis using 3(2) w(1) True slot(1,2)
        by (auto simp: setter_safe_def capnp_builder_set_list_text_n_def write_list_ptr_def)
    qed
  qed
qed

section \<open>Every setter on an existing body\<close>

lemma set_list_prim_safe:
  assumes "address_space A" "builder_inv b" "bp_seg body < length (bsegs b)" "eb \<in> {1, 2, 4, 8}" "\<forall>x \<in> set xs. length x = eb"
  shows "setter_safe b body dw i (set_list_prim A b body dw i es (length xs) eb (Some xs))"
  by (rule setter_safe_slot [OF assms(2,3)])
    (simp add: set_list_prim_def, use set_list_prim_result [OF assms(1,2) _ _ assms(4,5)] in blast)

lemma set_text_safe:
  assumes "address_space A" "builder_inv b" "bp_seg body < length (bsegs b)"
  shows "setter_safe b body dw i (capnp_builder_set_text A b body dw i txt)"
  by (rule setter_safe_slot [OF assms(2,3)]) (simp add: capnp_builder_set_text_def,
      use write_text_result [OF assms(1,2)] in \<open>fastforce simp: capnp_builder_set_text_def\<close>)

lemma set_data_safe:
  assumes "address_space A" "builder_inv b" "bp_seg body < length (bsegs b)"
  shows "setter_safe b body dw i (capnp_builder_set_data A b body dw i data)"
  by (rule setter_safe_slot [OF assms(2,3)]) (simp add: capnp_builder_set_data_def, use set_data_result [OF assms(1,2)] in blast)

lemma set_list_bool_safe:
  assumes "address_space A" "builder_inv b" "bp_seg body < length (bsegs b)"
  shows "length bits < 2 ^ 32 \<longrightarrow> setter_safe b body dw i (capnp_builder_set_list_bool A b body dw i bits)"
  by (intro impI setter_safe_slot [OF assms(2,3)])
    (simp add: capnp_builder_set_list_bool_def, use set_list_bool_result [OF assms(1,2)] in blast)

lemma set_list_void_safe:
  assumes "address_space A" "builder_inv b" "bp_seg body < length (bsegs b)"
  shows "setter_safe b body dw i (capnp_builder_set_list_void A b body dw i n)"
proof (rule setter_safe_slot [OF assms(2,3)])
  fix sw assume sw: "ptr_slot b body dw i = Some (Some sw)" "has_word (segs_of b) (bp_seg body) sw"
  then show "\<exists>mk content. set_result b (bp_seg body) sw mk content (capnp_builder_set_list_void A b body dw i n)"
    using set_result_empty [OF assms(1,2) sw(2)] builder_word_bound [OF assms(2) sw(2)]
    by (auto simp: capnp_builder_set_list_void_def set_list_prim_def alloc_content_def write_list_ptr_def)
qed (simp add: capnp_builder_set_list_void_def set_list_prim_def)

section \<open>A builder and a message to evaluate on\<close>

text \<open>\<open>machine\<close> is an allocator that satisfies \<open>address_space\<close>; \<open>demo_builder\<close> holds a root
  struct with one data word and two pointers.\<close>

definition machine :: allocator where
  "machine = \<lparr>mem_ok = (\<lambda>n. n < 2 ^ 63), mem_junk = (\<lambda>_. 0xCD)\<rparr>"

lemma machine: "address_space machine" "mem_ok machine n \<longleftrightarrow> n < 2 ^ 63"
  by (simp_all add: machine_def address_space_def)

definition demo_builder :: builder where
  "demo_builder = \<lparr>bsegs = [\<lparr>b_data = [0, 0, 0, 0, 1, 0, 2, 0] @ replicate 120 0, b_words = 4, b_cap = 16\<rparr>],
     segs_cap = 4, max_seg_words = 0, force_single = False\<rparr>"

definition demo_body :: bptr where "demo_body = \<lparr>bp_seg = 0, bp_word = 1\<rparr>"

definition demo_view :: ptr where
  "demo_view = ptr0\<lparr>p_kind := PK_STRUCT, p_word := 1, p_dwords := 1, p_pwords := 2\<rparr>"

lemma demo_inv: "builder_inv demo_builder" "bp_seg demo_body < length (bsegs demo_builder)"
  by (simp_all add: demo_builder_def demo_body_def builder_inv_def bseg_ok_def)

lemma demo_struct_view: "struct_view demo_view demo_body 1 2"
  by (simp add: demo_view_def demo_body_def struct_view_def ptr0_def)

text \<open>The message made of given segments.\<close>

definition msg_of :: "byte list list \<Rightarrow> message" where
  "msg_of segs = capnp_message_init
     \<lparr>msegs := map (\<lambda>d. \<lparr>seg_data = Some d, seg_words = length d div 8\<rparr>) segs @
        replicate (MAX_SEGMENTS - length segs) null_segment, nsegs := length segs\<rparr>"

lemma holds_msg_of:
  "\<lbrakk>length segs \<le> MAX_SEGMENTS; \<forall>d \<in> set segs. length d mod 8 = 0 \<and> length d < 2 ^ 63\<rbrakk> \<Longrightarrow> holds (msg_of segs) segs"
  by (auto simp: holds_def msg_of_def wf_message_def capnp_message_init_def bodies_of_def wf_segment_def
      seg_bytes_def WORD_BYTES_def list_all_iff intro!: map_idI)

lemma msg_of_limits: "traversal_left (msg_of segs) = 8388608" "depth_limit (msg_of segs) = 64"
  by (simp_all add: msg_of_def capnp_message_init_def DEFAULT_TRAVERSAL_WORDS_def DEFAULT_DEPTH_LIMIT_def)

lemmas build = Let_def capnp_builder_set_text_def ptr_slot_def demo_builder_def demo_body_def sz_def write_text_at_def
  alloc_words_def lim_words_def BUILDER_MAX_SEGMENT_WORDS_def use_words_def fill_run_def seg_store_def wr_def
  WORD_BYTES_def write_list_ptr_def write_struct_ptr_def write_ptr_def store_w_def capnp_store_le64_def

section \<open>What is set is what is read\<close>

text \<open>
  Scalars read back. After a setter of 1, 2, 4 or 8 bytes returned OK, the reader of the same
  width on any message with the builder's segments returns the stored value, whatever its default.
\<close>

theorem scalars_read_back:
  assumes inv: "builder_inv b" and s: "struct_view s body dw pw"
    and w: "bp_word body < 2 ^ 60" "off < 2 ^ 32" and m: "holds m (segs_of b')"
  shows "(capnp_builder_set_u8 b body off v8 = Some (CAPNP_OK, b') \<and> off + 1 \<le> dw * 8 \<longrightarrow> capnp_get_u8 m s off d8 = Some v8) \<and>
    (capnp_builder_set_u16 b body off v16 = Some (CAPNP_OK, b') \<and> off + 2 \<le> dw * 8 \<longrightarrow> capnp_get_u16 m s off d16 = Some v16) \<and>
    (capnp_builder_set_u32 b body off v32 = Some (CAPNP_OK, b') \<and> off + 4 \<le> dw * 8 \<longrightarrow> capnp_get_u32 m s off d32 = Some v32) \<and>
    (capnp_builder_set_u64 b body off v64 = Some (CAPNP_OK, b') \<and> off + 8 \<le> dw * 8 \<longrightarrow> capnp_get_u64 m s off d64 = Some v64)"
proof -
  have "[ucast v16, ucast (drop_bit 8 v16)] = capnp_store_le16 v16" by (simp add: capnp_store_le16_def)
  then show ?thesis
    using set_bytes_read [OF inv _ m s w, of "[v8]"] set_bytes_read [OF inv _ m s w, of "capnp_store_le16 v16"]
      set_bytes_read [OF inv _ m s w, of "capnp_store_le32 v32"] set_bytes_read [OF inv _ m s w, of "capnp_store_le64 v64"]
    by (auto simp: capnp_builder_set_u8_def capnp_get_u8_def capnp_builder_set_u16_def capnp_get_u16_def
        capnp_builder_set_u32_def capnp_get_u32_def capnp_builder_set_u64_def capnp_get_u64_def
        view_has_bytes [OF s] load_store_le16 load_store_le32 load_store_le64)
qed

theorem scalars_read_back_witness:
  "\<exists>b'. capnp_builder_set_u16 demo_builder demo_body 2 0xBEEF = Some (CAPNP_OK, b') \<and>
     capnp_get_u16 (msg_of (segs_of b')) demo_view 2 7 = Some 0xBEEF"
proof -
  define segs where "segs = [[0, 0, 0, 0, 1, 0, 2, 0, 0, 0, 0xEF, 0xBE] @ replicate 20 0 :: byte list]"
  have "\<exists>b'. capnp_builder_set_u16 demo_builder demo_body 2 0xBEEF = Some (CAPNP_OK, b') \<and> segs_of b' = segs"
    by (simp add: capnp_builder_set_u16_def set_bytes_def body_ok_def build segs_of_def seg_used_def segs_def)
      (simp add: numeral_2_eq_2)
  then obtain b' where b': "capnp_builder_set_u16 demo_builder demo_body 2 0xBEEF = Some (CAPNP_OK, b')" "segs_of b' = segs"
    by blast
  have "holds (msg_of segs) (segs_of b')" unfolding b'(2) by (rule holds_msg_of) (simp_all add: segs_def MAX_SEGMENTS_def)
  then show ?thesis
    using scalars_read_back [OF demo_inv(1) demo_struct_view, where off = 2 and m = "msg_of segs" and b' = b'
      and ?v16.0 = "0xBEEF" and ?d16.0 = 7] b'
    by (auto simp: demo_body_def)
qed

text \<open>
  C22 Text reads back. After \<open>capnp_builder_set_text\<close> returned OK (whether the text went next to
  its slot, behind a far pointer or behind a double-far pointer), \<open>capnp_get_text\<close> on any message
  with the builder's segments returns exactly the bytes of the text.
\<close>

theorem set_text_get_text:
  assumes "address_space A" "builder_inv b" "bp_seg body < length (bsegs b)"
    and "capnp_builder_set_text A b body dw i txt = Some (CAPNP_OK, b')"
    and "holds m (segs_of b')" "small_segs (segs_of b')" "struct_view s body dw pw" "i < pw"
    and "length txt + 1 < 2 ^ 29" "text_words txt + 3 \<le> traversal_left m" "2 \<le> depth_limit m"
  shows "\<exists>m' r. capnp_get_text m s i = Some (CAPNP_OK, m', r) \<and> ref_bytes m' r = Some txt"
proof (cases rule: ptr_slot_cases [OF assms(2,3), of dw i])
  case 1
  then show ?thesis using assms(4) by (simp add: capnp_builder_set_text_def)
next
  case (2 sw)
  from set_text_read_back [OF assms(1,2) 2(1,3,2) assms(4-)] show ?thesis .
qed

theorem set_text_get_text_witness:
  "\<exists>b' m' r. capnp_builder_set_text machine demo_builder demo_body 1 0 [104, 105] = Some (CAPNP_OK, b') \<and>
     capnp_get_text (msg_of (segs_of b')) demo_view 0 = Some (CAPNP_OK, m', r) \<and> ref_bytes m' r = Some [104, 105]"
proof -
  define segs where "segs = [[0, 0, 0, 0, 1, 0, 2, 0] @ replicate 8 0 @ [5, 0, 0, 0, 0x1A, 0, 0, 0] @
    replicate 8 0 @ [104, 105] @ replicate 6 0 :: byte list]"
  have "\<exists>b'. capnp_builder_set_text machine demo_builder demo_body 1 0 [104, 105] = Some (CAPNP_OK, b') \<and> segs_of b' = segs"
    by (simp add: build segs_of_def seg_used_def segs_def capnp_wp_make_list_def kind_defs)
  then obtain b' where b': "capnp_builder_set_text machine demo_builder demo_body 1 0 [104, 105] = Some (CAPNP_OK, b')"
    "segs_of b' = segs" by blast
  have "holds (msg_of segs) (segs_of b')" unfolding b'(2) by (rule holds_msg_of) (simp_all add: segs_def MAX_SEGMENTS_def)
  moreover have "small_segs (segs_of b')" by (simp add: b'(2) segs_def small_segs_def MAX_SEGMENTS_def)
  ultimately show ?thesis
    using set_text_get_text [OF machine(1) demo_inv b'(1), of "msg_of segs" demo_view 2] demo_struct_view b'
    by (auto simp: text_words_def msg_of_limits)
qed

text \<open>
  C23 Primitive lists read back. After a list setter of 8, 16, 32 or 64 bit elements returned OK,
  \<open>capnp_getp\<close> on any message with the builder's segments yields a list of the same length and the
  list reader of that width returns every element.
\<close>

theorem set_list_get_list:
  assumes as: "address_space A" and inv: "builder_inv b" and bs: "bp_seg body < length (bsegs b)"
    and m: "holds m (segs_of b')" "small_segs (segs_of b')" and s: "struct_view s body dw pw" "i < pw"
    and budget: "n < 2 ^ 29" "n + 3 \<le> traversal_left m" "2 \<le> depth_limit m"
  shows "(capnp_builder_set_list_u8 A b body dw i l8 = Some (CAPNP_OK, b') \<and> length l8 = n \<longrightarrow>
      (\<exists>m' l. capnp_getp m s i ptr0 = Some (CAPNP_OK, m', l) \<and> capnp_list_len l = n \<and>
        (\<forall>k < n. capnp_list_get_u8 m' l k d8 = Some (l8 ! k)))) \<and>
    (capnp_builder_set_list_u16 A b body dw i l16 = Some (CAPNP_OK, b') \<and> length l16 = n \<longrightarrow>
      (\<exists>m' l. capnp_getp m s i ptr0 = Some (CAPNP_OK, m', l) \<and> capnp_list_len l = n \<and>
        (\<forall>k < n. capnp_list_get_u16 m' l k d16 = Some (l16 ! k)))) \<and>
    (capnp_builder_set_list_u32 A b body dw i l32 = Some (CAPNP_OK, b') \<and> length l32 = n \<longrightarrow>
      (\<exists>m' l. capnp_getp m s i ptr0 = Some (CAPNP_OK, m', l) \<and> capnp_list_len l = n \<and>
        (\<forall>k < n. capnp_list_get_u32 m' l k d32 = Some (l32 ! k)))) \<and>
    (capnp_builder_set_list_u64 A b body dw i l64 = Some (CAPNP_OK, b') \<and> length l64 = n \<longrightarrow>
      (\<exists>m' l. capnp_getp m s i ptr0 = Some (CAPNP_OK, m', l) \<and> capnp_list_len l = n \<and>
        (\<forall>k < n. capnp_list_get_u64 m' l k d64 = Some (l64 ! k))))"
proof -
  have rb: "\<exists>m' l. capnp_getp m s i ptr0 = Some (CAPNP_OK, m', l) \<and> capnp_list_len l = n \<and> (\<forall>k < n. P m' l k)"
    if "set_list_prim A b body dw i es (length xs) eb (Some xs) = Some (CAPNP_OK, b') \<and> length xs = n"
      and "(es, eb) \<in> {(SZ_BYTE, 1), (SZ_TWO, 2), (SZ_FOUR, 4), (SZ_EIGHT, 8)}" "\<forall>x \<in> set xs. length x = eb"
      and P: "\<And>m' l k a. k < n \<Longrightarrow> list_elem_addr l k es eb = Some a \<Longrightarrow> seg_read m' (p_seg l) a eb = Some (xs ! k) \<Longrightarrow> P m' l k"
    for es eb xs P
  proof -
    note set = that(1) and es = that(2) and el = that(3)
    obtain m' l where g: "capnp_getp m s i ptr0 = Some (CAPNP_OK, m', l)" "capnp_list_len l = n"
      "\<forall>k < n. list_elem_addr l k es eb \<noteq> None \<and> seg_read m' (p_seg l) (the (list_elem_addr l k es eb)) eb = Some (xs ! k)"
      using prim_list_read_back [OF as inv bs _ es el _ m s] set budget by auto
    have "P m' l k" if k: "k < n" for k
    proof -
      obtain a where a: "list_elem_addr l k es eb = Some a" using g(3) k by blast
      show ?thesis by (rule P [OF k a]) (use g(3) k a in auto)
    qed
    then show ?thesis using g(1,2) by blast
  qed
  show ?thesis
  proof (intro conjI impI)
    assume "capnp_builder_set_list_u8 A b body dw i l8 = Some (CAPNP_OK, b') \<and> length l8 = n"
    then show "\<exists>m' l. capnp_getp m s i ptr0 = Some (CAPNP_OK, m', l) \<and> capnp_list_len l = n \<and>
        (\<forall>k < n. capnp_list_get_u8 m' l k d8 = Some (l8 ! k))"
      by (intro rb [of SZ_BYTE "map (\<lambda>x. [x]) l8" 1])
        (auto simp: capnp_builder_set_list_u8_def capnp_list_get_u8_def)
  next
    assume "capnp_builder_set_list_u16 A b body dw i l16 = Some (CAPNP_OK, b') \<and> length l16 = n"
    then show "\<exists>m' l. capnp_getp m s i ptr0 = Some (CAPNP_OK, m', l) \<and> capnp_list_len l = n \<and>
        (\<forall>k < n. capnp_list_get_u16 m' l k d16 = Some (l16 ! k))"
      by (intro rb [of SZ_TWO "map capnp_store_le16 l16" 2])
        (auto simp: capnp_builder_set_list_u16_def capnp_list_get_u16_def load_store_le16)
  next
    assume "capnp_builder_set_list_u32 A b body dw i l32 = Some (CAPNP_OK, b') \<and> length l32 = n"
    then show "\<exists>m' l. capnp_getp m s i ptr0 = Some (CAPNP_OK, m', l) \<and> capnp_list_len l = n \<and>
        (\<forall>k < n. capnp_list_get_u32 m' l k d32 = Some (l32 ! k))"
      by (intro rb [of SZ_FOUR "map capnp_store_le32 l32" 4])
        (auto simp: capnp_builder_set_list_u32_def capnp_list_get_u32_def load_store_le32)
  next
    assume "capnp_builder_set_list_u64 A b body dw i l64 = Some (CAPNP_OK, b') \<and> length l64 = n"
    then show "\<exists>m' l. capnp_getp m s i ptr0 = Some (CAPNP_OK, m', l) \<and> capnp_list_len l = n \<and>
        (\<forall>k < n. capnp_list_get_u64 m' l k d64 = Some (l64 ! k))"
      by (intro rb [of SZ_EIGHT "map capnp_store_le64 l64" 8])
        (auto simp: capnp_builder_set_list_u64_def capnp_list_get_u64_def load_store_le64)
  qed
qed

theorem set_list_get_list_witness:
  "\<exists>b' m' l. capnp_builder_set_list_u16 machine demo_builder demo_body 1 1 [3, 0xBEEF] = Some (CAPNP_OK, b') \<and>
     capnp_getp (msg_of (segs_of b')) demo_view 1 ptr0 = Some (CAPNP_OK, m', l) \<and>
     capnp_list_get_u16 m' l 1 0 = Some 0xBEEF"
proof -
  define segs where "segs = [[0, 0, 0, 0, 1, 0, 2, 0] @ replicate 16 0 @ [1, 0, 0, 0, 0x13, 0, 0, 0,
    3, 0, 0xEF, 0xBE] @ replicate 4 0 :: byte list]"
  have "\<exists>b'. capnp_builder_set_list_u16 machine demo_builder demo_body 1 1 [3, 0xBEEF] = Some (CAPNP_OK, b') \<and> segs_of b' = segs"
    by (simp add: capnp_builder_set_list_u16_def set_list_prim_def alloc_content_def build segs_of_def seg_used_def
        segs_def capnp_wp_make_list_def kind_defs capnp_store_le16_def)
  then obtain b' where b': "capnp_builder_set_list_u16 machine demo_builder demo_body 1 1 [3, 0xBEEF] = Some (CAPNP_OK, b')"
    "segs_of b' = segs" by blast
  have h: "holds (msg_of segs) (segs_of b')" unfolding b'(2) by (rule holds_msg_of) (simp_all add: segs_def MAX_SEGMENTS_def)
  have "small_segs (segs_of b')" by (simp add: b'(2) segs_def small_segs_def MAX_SEGMENTS_def)
  from set_list_get_list [OF machine(1) demo_inv h this demo_struct_view, of 1 2 _ _ "[3, 0xBEEF]" 0]
  show ?thesis using b' by (fastforce simp: msg_of_limits)
qed

text \<open>
  Structs resolve. After \<open>capnp_builder_struct\<close> returned OK the slot resolves, on any message
  with the builder's segments, to a struct view of exactly the allocated body with the requested
  section sizes; the body is zeroed, lies inside its segment, and nothing used before has changed
  except the slot.
\<close>

theorem struct_resolves:
  assumes "address_space A" "builder_inv b" "has_word (segs_of b) (bp_seg p) (bp_word p)"
    and "capnp_builder_struct A b p dw pw = Some (CAPNP_OK, b', body)" "0 < dw + pw" "dw < 2 ^ 16" "pw < 2 ^ 16"
    and "holds m (segs_of b')" "small_segs (segs_of b')" "dw + pw + 3 \<le> traversal_left m" "2 \<le> d"
  shows "(\<exists>j s. resolve_ptr m (bp_seg p) (bp_word p) d out = Some (CAPNP_OK, spend j m, s) \<and> struct_view s body dw pw) \<and>
    bytes_at (segs_of b') (bp_seg body) (bp_word body * 8) ((dw + pw) * 8) = replicate ((dw + pw) * 8) 0 \<and>
    in_range (segs_of b') (bp_seg body) (bp_word body * 8) ((dw + pw) * 8) \<and> builder_inv b' \<and>
    only_range (segs_of b) (bp_seg p) (bp_word p * 8) 8 (segs_of b')"
proof -
  note r = struct_read_back [OF assms]
  obtain j where "resolve_ptr m (bp_seg p) (bp_word p) d out =
      Some (CAPNP_OK, spend j m, set_struct (bp_seg body) (bp_word body) dw pw (clear_view out))" using r(1) by blast
  moreover have "struct_view (set_struct (bp_seg body) (bp_word body) dw pw (clear_view out)) body dw pw"
    by (simp add: struct_view_def clear_view_def)
  ultimately show ?thesis using r(2-) by blast
qed

theorem struct_resolves_witness:
  "\<exists>b' body j s. capnp_builder_struct machine demo_builder \<lparr>bp_seg = 0, bp_word = 2\<rparr> 1 1 = Some (CAPNP_OK, b', body) \<and>
     resolve_ptr (msg_of (segs_of b')) 0 2 64 ptr0 = Some (CAPNP_OK, spend j (msg_of (segs_of b')), s) \<and> struct_view s body 1 1"
proof -
  define segs where "segs = [[0, 0, 0, 0, 1, 0, 2, 0] @ replicate 8 0 @ [4, 0, 0, 0, 1, 0, 1, 0] @ replicate 24 0 :: byte list]"
  have "\<exists>b' body. capnp_builder_struct machine demo_builder \<lparr>bp_seg = 0, bp_word = 2\<rparr> 1 1 = Some (CAPNP_OK, b', body) \<and> segs_of b' = segs"
    by (simp add: capnp_builder_struct_def build segs_of_def seg_used_def segs_def capnp_wp_make_struct_def kind_defs)
  then obtain b' body where b': "capnp_builder_struct machine demo_builder \<lparr>bp_seg = 0, bp_word = 2\<rparr> 1 1 = Some (CAPNP_OK, b', body)"
    "segs_of b' = segs" by blast
  have h: "holds (msg_of segs) (segs_of b')" unfolding b'(2) by (rule holds_msg_of) (simp_all add: segs_def MAX_SEGMENTS_def)
  have sm: "small_segs (segs_of b')" by (simp add: b'(2) segs_def small_segs_def MAX_SEGMENTS_def)
  have "has_word (segs_of demo_builder) 0 2"
    by (simp add: has_word_def in_range_def demo_builder_def segs_of_def seg_used_def)
  then show ?thesis
    using struct_resolves [OF machine(1) demo_inv(1) _ b'(1) _ _ _ h sm, of 64 ptr0] b' by (fastforce simp: msg_of_limits)
qed

text \<open>
  Lists of structs read back. After \<open>capnp_builder_set_list_struct\<close> returned OK, \<open>capnp_getp\<close>
  yields a list of the requested length whose element \<open>k\<close> is the struct view of the body \<open>k\<close> steps
  after the returned first element.
\<close>

theorem list_struct_resolves:
  assumes "address_space A" "builder_inv b" "bp_seg body < length (bsegs b)"
    and "capnp_builder_set_list_struct A b body dw i n edw epw = Some (CAPNP_OK, b', first)"
    and "edw < 2 ^ 16" "epw < 2 ^ 16" "n < 2 ^ 29" "holds m (segs_of b')" "small_segs (segs_of b')"
    and "struct_view s body dw pw" "i < pw" "n * (edw + epw) + 4 \<le> traversal_left m" "2 \<le> depth_limit m"
  shows "\<exists>m' l. capnp_getp m s i ptr0 = Some (CAPNP_OK, m', l) \<and> capnp_list_len l = n \<and>
    (\<forall>k < n. \<exists>v. capnp_list_get_struct l k ptr0 = (CAPNP_OK, v) \<and>
       struct_view v (first\<lparr>bp_word := bp_word first + k * (edw + epw)\<rparr>) edw epw)"
  using list_struct_read_back [OF assms] by (cases first) simp

theorem list_struct_resolves_witness:
  "\<exists>b' first m' l v. capnp_builder_set_list_struct machine demo_builder demo_body 1 0 2 1 0 = Some (CAPNP_OK, b', first) \<and>
     capnp_getp (msg_of (segs_of b')) demo_view 0 ptr0 = Some (CAPNP_OK, m', l) \<and>
     capnp_list_get_struct l 1 ptr0 = (CAPNP_OK, v) \<and> struct_view v (first\<lparr>bp_word := bp_word first + 1\<rparr>) 1 0"
proof -
  define segs where "segs = [[0, 0, 0, 0, 1, 0, 2, 0] @ replicate 8 0 @ [5, 0, 0, 0, 0x17, 0, 0, 0] @ replicate 8 0 @
    [8, 0, 0, 0, 1] @ replicate 19 0 :: byte list]"
  have "\<exists>b' first. capnp_builder_set_list_struct machine demo_builder demo_body 1 0 2 1 0 = Some (CAPNP_OK, b', first) \<and> segs_of b' = segs"
    by (simp add: capnp_builder_set_list_struct_def build segs_of_def seg_used_def segs_def capnp_wp_make_struct_def
        capnp_wp_make_list_def kind_defs) (simp add: numeral_eq_Suc)
  then obtain b' first where b': "capnp_builder_set_list_struct machine demo_builder demo_body 1 0 2 1 0 = Some (CAPNP_OK, b', first)"
    "segs_of b' = segs" by blast
  have h: "holds (msg_of segs) (segs_of b')" unfolding b'(2) by (rule holds_msg_of) (simp_all add: segs_def MAX_SEGMENTS_def)
  have sm: "small_segs (segs_of b')" by (simp add: b'(2) segs_def small_segs_def MAX_SEGMENTS_def)
  have "(1 :: nat) < 2" by simp
  then show ?thesis
    using list_struct_resolves [OF machine(1) demo_inv b'(1) _ _ _ h sm demo_struct_view] b' by (fastforce simp: msg_of_limits)
qed

text \<open>
  C21 Serialize and parse. \<open>capnp_builder_serialize\<close> of a builder with one to sixteen segments and a
  root writes every byte of its buffer, and \<open>capnp_message_from_flat\<close> of the result (also followed
  by other bytes) gives a well formed message with exactly the builder's segments.
\<close>

theorem serialize_from_flat:
  assumes "builder_inv b" "bsegs b \<noteq> []" "b_words (bsegs b ! 0) \<noteq> 0" "length (bsegs b) \<le> MAX_SEGMENTS"
    and "\<forall>s \<in> set (bsegs b). b_words s < 2 ^ 32"
    and "length (frame (segs_of b) @ rest) < 2 ^ 63" "mem_ok A (length (frame (segs_of b)))"
  shows "\<exists>buf m. capnp_builder_serialize A b = Some (CAPNP_OK, buf) \<and>
    capnp_message_from_flat A (buf @ rest) = Some (CAPNP_OK, m) \<and> holds m (segs_of b)"
proof -
  have "length (seg_used s) = b_words s * 8" if "s \<in> set (bsegs b)" for s
    using that assms(1) by (simp add: builder_inv_def list_all_iff length_seg_used)
  then have "frame_bodies (segs_of b)"
    using assms(2,4,5) by (auto simp: frame_bodies_def list_all_iff segs_of_def)
  from frame_parses [OF this assms(6,7)] serialize_eq [OF assms(1-3,7)] show ?thesis
    by (auto simp: holds_def)
qed

theorem serialize_from_flat_witness:
  "\<exists>buf m. capnp_builder_serialize machine demo_builder = Some (CAPNP_OK, buf) \<and>
     capnp_message_from_flat machine buf = Some (CAPNP_OK, m) \<and> holds m (segs_of demo_builder)"
proof -
  have "length (frame (segs_of demo_builder)) = 40"
    by (simp add: length_frame segs_of_def seg_used_def demo_builder_def table_size_def)
  then show ?thesis
    using serialize_from_flat [OF demo_inv(1), of "[]" machine]
    by (simp add: demo_builder_def machine(2) MAX_SEGMENTS_def)
qed

text \<open>
  Allocation. On a valid builder with a segment, each of the three allocators either fails and
  leaves every used byte alone, or returns a run of zeroed words that lies after everything used
  before, in a new segment or at the end of an old one; the invariant is kept either way.
\<close>

theorem allocators_fresh:
  assumes "address_space A" "builder_inv b" "bsegs b \<noteq> []"
  shows "alloc_good b n (alloc_words A b n) \<and> alloc_good b n (alloc_in A seg b n) \<and> alloc_good b n (alloc_local A b n)"
  using alloc_words_good [OF assms] alloc_in_good [OF assms(1,2)] alloc_local_good [OF assms] by simp

theorem allocators_fresh_witness:
  "alloc_good demo_builder 20 (alloc_words machine demo_builder 20) \<and>
   (\<exists>b' seg word. alloc_words machine demo_builder 20 = Some (CAPNP_OK, b', seg, word) \<and> seg = 1 \<and> word = 0)"
proof -
  have "bsegs demo_builder \<noteq> []" by (simp add: demo_builder_def)
  note allocators_fresh [OF machine(1) demo_inv(1) this, of 20]
  moreover have "\<exists>b' seg word. alloc_words machine demo_builder 20 = Some (CAPNP_OK, b', seg, word) \<and> seg = 1 \<and> word = 0"
    by (simp add: build append_segment_def ensure_segs_cap_def c_calloc_def machine(2))
  ultimately show ?thesis by blast
qed

end
