(* ===== verification/Canonical.thy ===== *)
theory Canonical
  imports BuilderClaims
begin

text \<open>
  \<open>src/capnp_canonical.c\<close>: the trimming of structs, the deep copy \<open>capnp_copy_ptr_to_word\<close> (also
  \<open>capnp_builder_copy_ptr\<close> of \<open>src/capnp_builder.c\<close>), and the two canonicalizers.

  A \<open>capnp_ptr_t\<close> points to its message, and reading a pointer spends that message's traversal
  budget, so the message is threaded through next to the builder. The recursion of the code is
  bounded by its own test \<open>depth > 64\<close>: \<open>copy_ptr\<close> takes the number of levels left, 0 when the
  test fires. The bodies of the functions take the recursive call as their first argument.
\<close>

section \<open>Trimming\<close>

text \<open>\<open>while (nd > 0) { if (get_u64(p, (nd - 1) * 8, 0) != 0) break; nd--; }\<close>\<close>

fun trim_data :: "message \<Rightarrow> ptr \<Rightarrow> nat \<Rightarrow> nat option" where
  "trim_data m p 0 = Some 0"
| "trim_data m p (Suc n) =
     do { v \<leftarrow> capnp_get_u64 m p (n * 8) 0; if v \<noteq> 0 then Some (Suc n) else trim_data m p n }"

definition trimmed_dwords :: "message \<Rightarrow> ptr \<Rightarrow> nat option" where
  "trimmed_dwords m p = trim_data m p (p_dwords p)"

fun trim_ptrs :: "message \<Rightarrow> ptr \<Rightarrow> nat \<Rightarrow> (message \<times> nat) option" where
  "trim_ptrs m p 0 = Some (m, 0)"
| "trim_ptrs m p (Suc n) =
     do { (r, m, q) \<leftarrow> capnp_getp m p n ptr0;
          if r \<noteq> CAPNP_OK \<or> p_kind q \<noteq> PK_NULL then Some (m, Suc n) else trim_ptrs m p n }"

definition trimmed_pwords :: "message \<Rightarrow> ptr \<Rightarrow> (message \<times> nat) option" where
  "trimmed_pwords m p = trim_ptrs m p (p_pwords p)"

fun trim_elems :: "message \<Rightarrow> ptr \<Rightarrow> nat \<Rightarrow> nat \<Rightarrow> nat list \<Rightarrow> (message \<times> nat \<times> nat) option" where
  "trim_elems m list nd np [] = Some (m, nd, np)"
| "trim_elems m list nd np (i # is) =
     do { (r, m, el) \<leftarrow> capnp_list_getp m list i ptr0;
          if r \<noteq> CAPNP_OK then trim_elems m list nd np is
          else do {
            td \<leftarrow> trimmed_dwords m el;
            (m, tp) \<leftarrow> trimmed_pwords m el;
            trim_elems m list (max nd td) (max np tp) is } }"

definition composite_trim :: "message \<Rightarrow> ptr \<Rightarrow> (message \<times> nat \<times> nat) option" where
  "composite_trim m list = trim_elems m list 0 0 [0..<p_count list]"

section \<open>Copying\<close>

type_synonym copier = "message \<Rightarrow> builder \<Rightarrow> nat \<Rightarrow> nat \<Rightarrow> ptr \<Rightarrow> (rc \<times> message \<times> builder) option"

fun write_data_words :: "message \<Rightarrow> builder \<Rightarrow> nat \<Rightarrow> nat \<Rightarrow> ptr \<Rightarrow> nat list \<Rightarrow> builder option" where
  "write_data_words m b seg body src [] = Some b"
| "write_data_words m b seg body src (i # is) =
     do { w \<leftarrow> (if i < p_dwords src then capnp_get_u64 m src (i * 8) 0 else Some 0);
          b \<leftarrow> store_w b seg (body + i) w;
          write_data_words m b seg body src is }"

definition write_struct_body_data :: "message \<Rightarrow> builder \<Rightarrow> nat \<Rightarrow> nat \<Rightarrow> nat \<Rightarrow> ptr \<Rightarrow> builder option" where
  "write_struct_body_data m b seg body nd src = write_data_words m b seg body src [0..<nd]"

text \<open>The loop over the pointer slots of a struct body, the same in a struct and in an element.\<close>

fun copy_children :: "copier \<Rightarrow> message \<Rightarrow> builder \<Rightarrow> nat \<Rightarrow> nat \<Rightarrow> ptr \<Rightarrow> nat list \<Rightarrow> (rc \<times> message \<times> builder) option" where
  "copy_children rec m b seg slots src [] = Some (CAPNP_OK, m, b)"
| "copy_children rec m b seg slots src (k # ks) =
     (if k < p_pwords src then do {
        (r, m, child) \<leftarrow> capnp_getp m src k ptr0;
        if r \<noteq> CAPNP_OK then Some (CAPNP_ERR_KIND, m, b)
        else do {
          (r, m, b) \<leftarrow> rec m b seg (slots + k) child;
          if r \<noteq> CAPNP_OK then Some (CAPNP_ERR_ALLOC, m, b)
          else copy_children rec m b seg slots src ks } }
      else do {
        b \<leftarrow> store_w b seg (slots + k) 0;
        copy_children rec m b seg slots src ks })"

fun copy_elems :: "copier \<Rightarrow> message \<Rightarrow> builder \<Rightarrow> nat \<Rightarrow> nat \<Rightarrow> nat \<Rightarrow> nat \<Rightarrow> ptr \<Rightarrow> nat list \<Rightarrow>
    (rc \<times> message \<times> builder) option" where
  "copy_elems rec m b seg first nd np list [] = Some (CAPNP_OK, m, b)"
| "copy_elems rec m b seg first nd np list (i # is) =
     do {
       (r, m, el) \<leftarrow> capnp_list_getp m list i ptr0;
       if r \<noteq> CAPNP_OK then Some (CAPNP_ERR_KIND, m, b)
       else do {
         b \<leftarrow> write_struct_body_data m b seg (first + i * (nd + np)) nd el;
         (r, m, b) \<leftarrow> copy_children rec m b seg (first + i * (nd + np) + nd) el [0..<np];
         if r \<noteq> CAPNP_OK then Some (r, m, b)
         else copy_elems rec m b seg first nd np list is } }"

fun copy_refs :: "copier \<Rightarrow> message \<Rightarrow> builder \<Rightarrow> nat \<Rightarrow> nat \<Rightarrow> ptr \<Rightarrow> nat list \<Rightarrow> (rc \<times> message \<times> builder) option" where
  "copy_refs rec m b seg start list [] = Some (CAPNP_OK, m, b)"
| "copy_refs rec m b seg start list (i # is) =
     do {
       (r, m, el) \<leftarrow> capnp_list_getp m list i ptr0;
       if r \<noteq> CAPNP_OK then Some (CAPNP_ERR_KIND, m, b)
       else do {
         (r, m, b) \<leftarrow> rec m b seg (start + i) el;
         if r \<noteq> CAPNP_OK then Some (CAPNP_ERR_ALLOC, m, b)
         else copy_refs rec m b seg start list is } }"

definition near_off :: "nat \<Rightarrow> nat \<Rightarrow> int" where
  "near_off target slot_word = int target - int slot_word - 1"

definition copy_composite :: "allocator \<Rightarrow> copier \<Rightarrow> copier" where
  "copy_composite A rec m b slot_seg slot_word list =
     do {
       (m, nd, np) \<leftarrow> composite_trim m list;
       let n = p_count list;
       let content = n * (nd + np);
       (r, b, tag_seg, tag_word) \<leftarrow> alloc_local A b (1 + content);
       if r \<noteq> CAPNP_OK then Some (CAPNP_ERR_ALLOC, m, b)
       else do {
         b \<leftarrow> store_w b tag_seg tag_word (capnp_wp_make_struct (int n) nd np);
         b \<leftarrow> store_w b slot_seg slot_word
           (capnp_wp_make_list (near_off tag_word slot_word) SZ_COMPOSITE (content mod 2 ^ 32));
         copy_elems rec m b tag_seg (tag_word + 1) nd np list [0..<n] } }"

definition copy_ptr_list :: "allocator \<Rightarrow> copier \<Rightarrow> copier" where
  "copy_ptr_list A rec m b slot_seg slot_word list =
     do {
       let n = p_count list;
       (r, b, list_seg, list_start) \<leftarrow>
         (if n \<noteq> 0 then alloc_local A b n else Some (CAPNP_OK, b, slot_seg, slot_word + 1));
       if r \<noteq> CAPNP_OK then Some (CAPNP_ERR_ALLOC, m, b)
       else do {
         b \<leftarrow> store_w b slot_seg slot_word (capnp_wp_make_list (near_off list_start slot_word) SZ_PTR n);
         copy_refs rec m b list_seg list_start list [0..<n] } }"

definition copy_prim_list :: "allocator \<Rightarrow> copier" where
  "copy_prim_list A m b slot_seg slot_word list =
     (case list_bits (p_esize list) (p_count list) of
        None \<Rightarrow> Some (CAPNP_ERR_KIND, m, b)
      | Some bits \<Rightarrow> do {
          let nbytes = (bits + 7) div 8;
          let nwords = (nbytes + 7) div 8;
          (r, b, start_seg, start) \<leftarrow>
            (if nwords \<noteq> 0 then alloc_local A b nwords else Some (CAPNP_OK, b, slot_seg, slot_word + 1));
          if r \<noteq> CAPNP_OK then Some (CAPNP_ERR_ALLOC, m, b)
          else do {
            b \<leftarrow> (if nwords \<noteq> 0 then do {
                    src \<leftarrow> seg_read m (p_seg list) (sz (p_word list * WORD_BYTES)) nbytes;
                    fill_run b start_seg start nwords src }
                  else Some b);
            b \<leftarrow> store_w b slot_seg slot_word
              (capnp_wp_make_list (near_off start slot_word) (p_esize list) (p_count list));
            Some (CAPNP_OK, m, b) } })"

definition write_list_to_slot :: "allocator \<Rightarrow> copier \<Rightarrow> copier" where
  "write_list_to_slot A rec m b slot_seg slot_word list =
     (if p_esize list = SZ_COMPOSITE then copy_composite A rec m b slot_seg slot_word list
      else if p_esize list = SZ_PTR then copy_ptr_list A rec m b slot_seg slot_word list
      else copy_prim_list A m b slot_seg slot_word list)"

definition copy_struct :: "allocator \<Rightarrow> copier \<Rightarrow> copier" where
  "copy_struct A rec m b slot_seg slot_word src =
     do {
       nd \<leftarrow> trimmed_dwords m src;
       (m, np) \<leftarrow> trimmed_pwords m src;
       if nd = 0 \<and> np = 0 then do {
         b \<leftarrow> store_w b slot_seg slot_word (capnp_wp_make_struct (-1) 0 0);
         Some (CAPNP_OK, m, b) }
       else do {
         (r, b, body_seg, body) \<leftarrow> alloc_local A b (nd + np);
         if r \<noteq> CAPNP_OK then Some (CAPNP_ERR_ALLOC, m, b)
         else do {
           b \<leftarrow> store_w b slot_seg slot_word (capnp_wp_make_struct (near_off body slot_word) nd np);
           b \<leftarrow> write_struct_body_data m b body_seg body nd src;
           copy_children rec m b body_seg (body + nd) src [0..<np] } } }"

definition copy_step :: "allocator \<Rightarrow> copier \<Rightarrow> copier" where
  "copy_step A rec m b slot_seg slot_word src =
     (case p_kind src of
        PK_NULL \<Rightarrow> do { b \<leftarrow> store_w b slot_seg slot_word 0; Some (CAPNP_OK, m, b) }
      | PK_CAP \<Rightarrow> Some (CAPNP_ERR_KIND, m, b)
      | PK_LIST \<Rightarrow> write_list_to_slot A rec m b slot_seg slot_word src
      | PK_STRUCT \<Rightarrow> copy_struct A rec m b slot_seg slot_word src)"

fun copy_ptr :: "allocator \<Rightarrow> nat \<Rightarrow> copier" where
  "copy_ptr A 0 m b slot_seg slot_word src = Some (CAPNP_ERR_DEPTH, m, b)"
| "copy_ptr A (Suc left) m b slot_seg slot_word src = copy_step A (copy_ptr A left) m b slot_seg slot_word src"

definition capnp_copy_ptr_to_word :: "allocator \<Rightarrow> nat \<Rightarrow> copier" where
  "capnp_copy_ptr_to_word A depth = copy_ptr A (65 - depth)"

definition capnp_builder_copy_ptr :: "allocator \<Rightarrow> message \<Rightarrow> builder \<Rightarrow> bptr \<Rightarrow> ptr \<Rightarrow> (rc \<times> message \<times> builder) option" where
  "capnp_builder_copy_ptr A m b slot src = capnp_copy_ptr_to_word A 0 m b (bp_seg slot) (bp_word slot) src"

section \<open>Canonical form\<close>

text \<open>The output is the return code and the buffer (empty on an error). The message the code
  traverses is a copy of \<open>m\<close> with fresh limits, so \<open>m\<close> itself is unchanged.\<close>

definition capnp_canonicalize :: "allocator \<Rightarrow> message \<Rightarrow> (rc \<times> byte list) option" where
  "capnp_canonicalize A m =
     do {
       let mut = m\<lparr>owned := None, traversal_left := DEFAULT_TRAVERSAL_WORDS, depth_limit := DEFAULT_DEPTH_LIMIT\<rparr>;
       (r, mut, root) \<leftarrow> capnp_root mut ptr0;
       if r \<noteq> CAPNP_OK then Some (CAPNP_ERR_KIND, [])
       else do {
         let b = (capnp_builder_init_sized A BUILDER_DEFAULT_FIRST_WORDS)\<lparr>force_single := True\<rparr>;
         (r, b, root_seg, root_word) \<leftarrow> alloc_local A b 1;
         if r \<noteq> CAPNP_OK then Some (CAPNP_ERR_ALLOC, [])
         else do {
           (r, mut, b) \<leftarrow> capnp_copy_ptr_to_word A 0 mut b root_seg root_word root;
           if r \<noteq> CAPNP_OK then Some (CAPNP_ERR_ALLOC, [])
           else do {
             let nbytes = b_words (bsegs b ! 0) * WORD_BYTES;
             case c_malloc A (if nbytes \<noteq> 0 then nbytes else 1) of
               None \<Rightarrow> Some (CAPNP_ERR_ALLOC, [])
             | Some buf \<Rightarrow> do {
                 src \<leftarrow> rd (b_data (bsegs b ! 0)) 0 nbytes;
                 Some (CAPNP_OK, src) } } } } }"

definition capnp_canonicalize_framed :: "allocator \<Rightarrow> message \<Rightarrow> (rc \<times> byte list) option" where
  "capnp_canonicalize_framed A m =
     do {
       (r, raw) \<leftarrow> capnp_canonicalize A m;
       if r \<noteq> CAPNP_OK then Some (r, [])
       else case c_malloc A (8 + length raw) of
         None \<Rightarrow> Some (CAPNP_ERR_ALLOC, [])
       | Some buf \<Rightarrow> do {
           buf \<leftarrow> wr buf 0 (capnp_store_le32 0);
           buf \<leftarrow> wr buf 4 (capnp_store_le32 (word_of_nat (length raw div WORD_BYTES)));
           buf \<leftarrow> (if raw \<noteq> [] then wr buf 8 raw else Some buf);
           Some (CAPNP_OK, buf) } }"

end
