(* ===== verification/Covered.thy ===== *)
theory Covered
  imports Views
begin

text \<open>
  The messages that can be read at any budget without leaving their segments. \<open>resolve_word\<close> leaves
  two pointer forms unchecked (theory \<open>Limits\<close>); \<open>covered_word\<close> says of a pointer word that following
  it ends inside a segment, and \<open>sound_word\<close> that this holds of the pointer at a position and of every
  pointer in the object it names, and so on. Only pointers are constrained, not the data and text.
\<close>

section \<open>Pointer words whose target is inside a segment\<close>

definition inside :: "message \<Rightarrow> nat \<Rightarrow> nat \<Rightarrow> nat \<Rightarrow> bool" where
  "inside m seg word n \<longleftrightarrow> (0 < n \<longrightarrow> seg < nsegs m \<and> word + n \<le> seg_words (msegs m ! seg))"

text \<open>A landing pad of two words: the object its tag describes is inside the segment it names.\<close>

definition pad_covered :: "message \<Rightarrow> nat \<Rightarrow> nat \<Rightarrow> bool" where
  "pad_covered m tseg toff =
     (case (read_word m tseg toff, read_word m tseg (toff + 1)) of
        (Some pad, Some tag) \<Rightarrow>
          (let cseg = capnp_wp_far_seg pad; coff = capnp_wp_far_off pad in
           if capnp_wp_kind tag = CAPNP_WK_STRUCT
           then inside m cseg coff (capnp_wp_struct_dwords tag + capnp_wp_struct_pwords tag)
           else if capnp_wp_kind tag = CAPNP_WK_LIST then
             (if capnp_wp_list_esize tag = SZ_COMPOSITE then
                (case read_word m cseg coff of None \<Rightarrow> True
                 | Some t \<Rightarrow> inside m cseg (coff + 1) (nat (capnp_wp_offset t mod 2 ^ 32) *
                     (capnp_wp_struct_dwords t + capnp_wp_struct_pwords t)))
              else (case list_bits (capnp_wp_list_esize tag) (capnp_wp_list_count tag) of None \<Rightarrow> True
                 | Some bits \<Rightarrow> inside m cseg coff ((bits + 63) div 64)))
           else True)
      | _ \<Rightarrow> True)"

text \<open>No primitive list that starts before its segment, no landing pad that leads out of one.\<close>

function covered_word :: "message \<Rightarrow> nat \<Rightarrow> u64 \<Rightarrow> int \<Rightarrow> bool" where
  "covered_word m word w depth =
     (if depth \<le> 0 \<or> w = 0 then True
      else if capnp_wp_kind w = CAPNP_WK_FAR then
        (if capnp_wp_far_two w then pad_covered m (capnp_wp_far_seg w) (capnp_wp_far_off w)
         else (case read_word m (capnp_wp_far_seg w) (capnp_wp_far_off w) of None \<Rightarrow> True
           | Some land \<Rightarrow> covered_word m (capnp_wp_far_off w) land (depth - 1)))
      else if capnp_wp_kind w = CAPNP_WK_LIST \<and> capnp_wp_list_esize w \<noteq> SZ_COMPOSITE
      then 0 \<le> int word + 1 + capnp_wp_offset w
      else True)"
  by pat_completeness auto
termination
  by (relation "measure (\<lambda>(m, word, w, depth). nat depth)") auto

declare covered_word.simps [simp del]

abbreviation at :: "message \<Rightarrow> nat \<Rightarrow> message" where
  "at m t \<equiv> m\<lparr>traversal_left := t\<rparr>"

lemma at_exists [simp]: "\<exists>t'. at m t = at m t'"
  by blast

lemma pad_covered_at [simp]: "pad_covered (at m t) = pad_covered m"
  by (simp add: fun_eq_iff pad_covered_def inside_def Let_def split: option.split)

lemma covered_word_at [simp]: "covered_word (at m t) word w depth = covered_word m word w depth"
proof (induction m word w depth rule: covered_word.induct)
  case (1 m word w depth)
  show ?case
  proof (cases "depth > 0 \<and> w \<noteq> 0 \<and> capnp_wp_kind w = CAPNP_WK_FAR \<and> \<not> capnp_wp_far_two w")
    case True
    then show ?thesis by (subst (1 2) covered_word.simps) (auto simp: "1.IH" split: option.split)
  next
    case False
    then show ?thesis by (subst (1 2) covered_word.simps) auto
  qed
qed

lemma spends_at: "spends m k m1 \<Longrightarrow> m1 = at m (traversal_left m - k)"
  by (simp add: spends_def)

lemma inside_bounds: "inside m (p_seg p) (p_word p) (obj_words p) \<longleftrightarrow> in_bounds m p"
  by (simp add: inside_def in_bounds_def)

lemma double_far_covered:
  assumes "p_body_byte out = 0" "p_data_bits out = 0" "pad_covered m tseg toff"
    and res: "resolve_double_far m tseg toff out = Some (CAPNP_OK, m', p)"
  shows "well_placed m p"
proof -
  have b: "bounds_word m tseg toff = CAPNP_OK" "bounds_word m tseg (toff + 1) = CAPNP_OK"
    using res by (auto simp: resolve_double_far_def split: if_splits)
  obtain m1 where c: "charge m 2 = (CAPNP_OK, m1)" and sp: "spends m 2 m1"
    using res b by (cases rule: charge_cases [of m 2]) (auto simp: resolve_double_far_def)
  note res = res [unfolded resolve_double_far_def]
  obtain pad tag where r: "read_word m tseg toff = Some pad" "read_word m tseg (toff + 1) = Some tag"
    using res b c by (auto simp: spends_at [OF sp] split: bind_splits)
  define cseg coff where "cseg = capnp_wp_far_seg pad" and "coff = capnp_wp_far_off pad"
  have k: "\<not> (capnp_wp_kind pad \<noteq> CAPNP_WK_FAR \<or> capnp_wp_far_two pad)"
    using res b c r by (auto simp: spends_at [OF sp] split: if_splits)
  note cov = assms(3) [unfolded pad_covered_def r option.case prod.case Let_def, folded cseg_def coff_def]
  note res = res [unfolded b c prod.case spends_at [OF sp] update_traversal r Let_def, simplified, unfolded Let_def, folded cseg_def coff_def]
  have sz1: "sz (coff + 1) = coff + 1" using wp_field_bounds(6) [of pad] by (intro sz_id) (simp add: coff_def)
  consider "capnp_wp_kind tag = CAPNP_WK_STRUCT" | "capnp_wp_kind tag = CAPNP_WK_LIST"
    using res k by (auto split: if_splits)
  then show ?thesis
  proof cases
    case 1
    then have "p = set_struct cseg coff (capnp_wp_struct_dwords tag) (capnp_wp_struct_pwords tag) out"
      using res k by (auto simp: charge_out_OK)
    then show ?thesis using cov 1 assms(1,2)
      by (simp add: well_placed_def inside_bounds [symmetric] obj_words_def)
  next
    case 2
    have lk: "CAPNP_WK_LIST \<noteq> CAPNP_WK_STRUCT" by (simp add: kind_defs)
    show ?thesis
    proof (cases "capnp_wp_list_esize tag = SZ_COMPOSITE")
      case False
      then have "p = set_list cseg coff (capnp_wp_list_esize tag) (capnp_wp_list_count tag) out"
        using res k 2 lk by auto
      then show ?thesis using cov 2 lk False assms(1,2)
        by (simp add: well_placed_def inside_bounds [symmetric] obj_words_def split: option.splits)
          (simp add: inside_def)
    next
      case True
      then obtain t where t: "read_word m cseg coff = Some t"
        "p = set_composite coff t (set_list cseg coff SZ_COMPOSITE (capnp_wp_list_count tag) out)"
        using res k 2 lk by (auto simp: charge_out_OK split: if_splits bind_splits)
      then show ?thesis using cov 2 lk True assms(1,2) sz1
        by (simp add: well_placed_def inside_bounds [symmetric] obj_words_def)
    qed
  qed
qed

lemma resolve_word_covered:
  "\<lbrakk>wf_message m; word < 2 ^ 60; covered_word m word w depth;
    resolve_word m seg word w depth out = Some (CAPNP_OK, m', p)\<rbrakk> \<Longrightarrow> well_placed m p"
proof (induction m seg word w depth out rule: resolve_word.induct)
  case (1 m seg word w depth out)
  note wf = "1.prems"(1) and w60 = "1.prems"(2) and cov = "1.prems"(3)
  define out' where "out' = out\<lparr>p_body_byte := 0, p_data_bits := 0\<rparr>"
  have o: "p_body_byte out' = 0" "p_data_bits out' = 0" by (simp_all add: out'_def)
  note res = "1.prems"(4) [unfolded resolve_word.simps [of m seg word w depth out] Let_def out'_def [symmetric]]
  note pl = cov [unfolded covered_word.simps [of m word w depth]]
  have d: "\<not> depth \<le> 0" using res by (auto split: if_splits)
  consider "w = 0" | "w \<noteq> 0" "capnp_wp_kind w = CAPNP_WK_FAR" "capnp_wp_far_two w"
    | "w \<noteq> 0" "capnp_wp_kind w = CAPNP_WK_FAR" "\<not> capnp_wp_far_two w"
    | "w \<noteq> 0" "capnp_wp_kind w = CAPNP_WK_STRUCT" | "w \<noteq> 0" "capnp_wp_kind w = CAPNP_WK_LIST"
    | "w \<noteq> 0" "capnp_wp_kind w = CAPNP_WK_CAP"
    using wp_kind_cases [of w] by blast
  then show ?case
  proof cases
    case 2
    then show ?thesis using res pl d by (auto intro: double_far_covered [OF o])
  next
    case 3
    let ?s = "capnp_wp_far_seg w" and ?o = "capnp_wp_far_off w"
    have b: "bounds_word m ?s ?o = CAPNP_OK" using res d 3 by (auto split: if_splits)
    obtain land where land: "read_word m ?s ?o = Some land" using read_word_in_bounds [OF wf b] by blast
    obtain m1 where c: "charge m 1 = (CAPNP_OK, m1)" and sp: "spends m 1 m1"
      using res d 3 b by (cases rule: charge_cases [of m 1]) auto
    have m1: "m1 = at m (traversal_left m - 1)" by (rule spends_at [OF sp])
    have r: "resolve_word m1 ?s ?o land (depth - 1) out' = Some (CAPNP_OK, m', p)"
      using res d 3 b c land by (simp add: m1)
    have "covered_word m1 ?o land (depth - 1)" using pl d 3 land by (simp add: m1)
    moreover have "?o < 2 ^ 60" using wp_field_bounds(6) [of w] by simp
    ultimately have "well_placed m1 p"
      using d 3 b c wf land r by - (rule "1.IH" [OF out'_def], simp_all add: m1)
    then show ?thesis by (simp add: m1)
  next
    case 4
    have "resolve_struct m seg word w out' = (CAPNP_OK, m', p)" using res d 4 by (simp add: kind_defs)
    from resolve_struct_well_placed [OF wf o this] show ?thesis by auto
  next
    case 5
    have "resolve_list m seg word w out' = Some (CAPNP_OK, m', p)" using res d 5 by (simp add: kind_defs)
    moreover have "capnp_wp_list_esize w \<noteq> SZ_COMPOSITE \<longrightarrow> 0 \<le> int word + 1 + capnp_wp_offset w"
      using pl d 5 by (auto simp: kind_defs)
    ultimately show ?thesis using resolve_list_well_placed [OF wf o w60] by blast
  qed (use res d o in \<open>auto simp: well_placed_def in_bounds_def kind_defs\<close>)
qed

lemma resolve_ptr_covered:
  assumes "wf_message m" "\<And>w. read_word m seg word = Some w \<Longrightarrow> covered_word m word w depth"
    and "resolve_ptr m seg word depth out = Some (CAPNP_OK, m', p)"
  shows "well_placed m p"
proof -
  have b: "bounds_word m seg word = CAPNP_OK" using assms(3) by (auto simp: resolve_ptr_def split: if_splits)
  then have w60: "word < 2 ^ 60" using wf_seg_words [OF assms(1), of seg] by (simp add: bounds_word_OK_iff)
  obtain w where w: "read_word m seg word = Some w" using read_word_in_bounds [OF assms(1) b] by blast
  obtain m1 where c: "charge m 1 = (CAPNP_OK, m1)" and sp: "spends m 1 m1"
    using assms(3) b by (cases rule: charge_cases [of m 1]) (auto simp: resolve_ptr_def)
  have m1: "m1 = at m (traversal_left m - 1)" by (rule spends_at [OF sp])
  have "resolve_word m1 seg word w depth out = Some (CAPNP_OK, m', p)"
    using assms(3) b c w by (simp add: resolve_ptr_def m1)
  then have "well_placed m1 p"
    using assms(1,2) w w60 by (intro resolve_word_covered [of m1 word w depth seg out m' p]) (simp_all add: m1)
  then show ?thesis by (simp add: m1)
qed

section \<open>Everything below a pointer\<close>

text \<open>The positions of the pointers an object holds.\<close>

definition slots_at :: "nat \<Rightarrow> nat \<Rightarrow> nat \<Rightarrow> (nat \<times> nat) set" where
  "slots_at seg word n = (\<lambda>k. (seg, sz (word + k))) ` {..<n}"

definition ptr_slots :: "ptr \<Rightarrow> (nat \<times> nat) set" where
  "ptr_slots p =
     (if p_kind p = PK_STRUCT then slots_at (p_seg p) (p_word p + p_dwords p) (p_pwords p)
      else if p_kind p = PK_LIST \<and> p_esize p = SZ_PTR then slots_at (p_seg p) (p_word p) (p_count p)
      else if p_kind p = PK_LIST \<and> p_esize p = SZ_COMPOSITE
      then (\<Union>i < p_count p. slots_at (p_seg p) (sz (p_word p + i * p_step_words p) + p_dwords p) (p_pwords p))
      else {})"

coinductive sound_word :: "message \<Rightarrow> nat \<times> nat \<Rightarrow> bool" for m :: message where
  "\<lbrakk>\<And>w. read_word m seg word = Some w \<Longrightarrow> covered_word m word w (depth_limit m);
    \<And>t m' p s. \<lbrakk>resolve_ptr (at m t) seg word (depth_limit m) ptr0 = Some (CAPNP_OK, m', p); s \<in> ptr_slots p\<rbrakk> \<Longrightarrow> sound_word m s\<rbrakk> \<Longrightarrow>
   sound_word m (seg, word)"

text \<open>A set of positions that is closed under following pointers, all of them covered.\<close>

lemma sound_wordI:
  assumes "s0 \<in> P"
    and "\<And>seg word w. \<lbrakk>(seg, word) \<in> P; read_word m seg word = Some w\<rbrakk> \<Longrightarrow> covered_word m word w (depth_limit m)"
    and "\<And>seg word t m' p. \<lbrakk>(seg, word) \<in> P; resolve_ptr (at m t) seg word (depth_limit m) ptr0 = Some (CAPNP_OK, m', p)\<rbrakk> \<Longrightarrow>
      ptr_slots p \<subseteq> P"
  shows "sound_word m s0"
  using assms(1)
proof (coinduction arbitrary: s0)
  case (sound_word s0)
  obtain seg word where "s0 = (seg, word)" by (cases s0)
  then show ?case using sound_word assms(2,3) by blast
qed

definition placed :: "message \<Rightarrow> bool" where
  "placed m \<longleftrightarrow> wf_message m \<and> sound_word m (0, 0)"

text \<open>A pointer whose object is inside its segment, and everything below it.\<close>

definition tracked :: "message \<Rightarrow> ptr \<Rightarrow> bool" where
  "tracked m p \<longleftrightarrow> well_placed m p \<and> (\<forall>s \<in> ptr_slots p. sound_word m s)"

lemma placed_wf: "placed m \<Longrightarrow> wf_message m"
  by (simp add: placed_def)

lemma trackedD: "tracked m p \<Longrightarrow> well_placed m p" "tracked m p \<Longrightarrow> s \<in> ptr_slots p \<Longrightarrow> sound_word m s"
  by (auto simp: tracked_def)

lemma sound_word_at [simp]: "sound_word (at m t) = sound_word m"
proof -
  have "sound_word (at m t') s" if "sound_word (at m t) s" for s m t t'
    using that
  proof (coinduction arbitrary: s)
    case (sound_word s)
    then show ?case by (cases rule: sound_word.cases) force
  qed
  note move = this
  show ?thesis
    using move [where m = m and t = t and t' = "traversal_left m"] move [where m = m and t = "traversal_left m" and t' = t]
    by (auto simp: fun_eq_iff)
qed

lemma update_traversal_views [simp]:
  "well_placed (at m t) p = well_placed m p" "capnp_get_u64 (at m t) = capnp_get_u64 m"
  "tracked (at m t) p = tracked m p" "placed (at m t) = placed m"
  by (simp_all add: well_placed_def tracked_def placed_def fun_eq_iff capnp_get_u64_def)

lemma resolve_at:
  assumes wf: "wf_message m" and s: "sound_word m (seg, word)"
  shows "\<exists>r t' q. resolve_ptr (at m t) seg word (depth_limit m) ptr0 = Some (r, at m t', q) \<and>
    (r = CAPNP_OK \<longrightarrow> tracked m q)"
proof -
  have wt: "wf_message (at m t)" using wf by simp
  obtain r m' q where r: "resolve_ptr (at m t) seg word (depth_limit m) ptr0 = Some (r, m', q)" "\<exists>k. spends (at m t) k m'"
    using resolve_ptr_pays [OF wt, of seg word "depth_limit m" ptr0] by (auto simp: pays_def)
  then obtain t' where t: "m' = at m t'" by (auto simp: spends_def)
  have "tracked m q" if ok: "r = CAPNP_OK"
    using s
  proof (cases rule: sound_word.cases)
    case 1
    have "well_placed (at m t) q"
      by (rule resolve_ptr_covered [OF wt _ r(1) [unfolded ok]]) (use 1(1) in simp)
    then show ?thesis using 1(2) [OF r(1) [unfolded ok]] by (simp add: tracked_def)
  qed
  then show ?thesis using r(1) t by auto
qed

lemma null_tracked: "p_kind p = PK_NULL \<Longrightarrow> p_body_byte p = 0 \<Longrightarrow> p_data_bits p = 0 \<Longrightarrow> tracked m p"
  by (simp add: tracked_def well_placed_def in_bounds_def ptr_slots_def)

lemma root_at:
  assumes "placed m"
  shows "\<exists>r t' q. capnp_root (at m t) ptr0 = Some (r, at m t', q) \<and> (r = CAPNP_OK \<longrightarrow> tracked m q)"
  using resolve_at [OF placed_wf [OF assms], of 0 0 t] assms by (auto simp: capnp_root_def placed_def)

lemma slots_at_I: "k < n \<Longrightarrow> (seg, sz (word + k)) \<in> slots_at seg word n"
  by (auto simp: slots_at_def)

lemma getp_at:
  assumes wf: "wf_message m" and s: "tracked m s"
  shows "\<exists>r t' q. capnp_getp (at m t) s k ptr0 = Some (r, at m t', q) \<and> (r = CAPNP_OK \<longrightarrow> tracked m q)"
proof (cases "p_kind s = PK_STRUCT \<and> k < p_pwords s")
  case True
  then have "(p_seg s, sz (p_word s + p_dwords s + k)) \<in> ptr_slots s" by (simp add: ptr_slots_def slots_at_I)
  from resolve_at [OF wf trackedD(2) [OF s this], of t] True show ?thesis by (simp add: capnp_getp_def)
next
  case False
  then show ?thesis by (auto simp: capnp_getp_def ptr0_def intro!: null_tracked)
qed

lemma list_getp_at:
  assumes wf: "wf_message m" and l: "tracked m l"
  shows "\<exists>r t' q. capnp_list_getp (at m t) l k ptr0 = Some (r, at m t', q) \<and> (r = CAPNP_OK \<longrightarrow> tracked m q)"
proof (cases "p_kind l = PK_LIST \<and> k < p_count l \<and> p_esize l = SZ_COMPOSITE")
  case True
  let ?q = "(set_struct (p_seg l) (sz (p_word l + k * p_step_words l)) (p_dwords l) (p_pwords l) ptr0)
    \<lparr>p_body_byte := 0, p_data_bits := 0\<rparr>"
  note lw = trackedD(1) [OF l]
  have "well_placed m ?q"
  proof (cases "p_step_words l = 0")
    case True
    then show ?thesis using lw \<open>_ \<and> _\<close> by (simp add: well_placed_def in_bounds_def obj_words_def)
  next
    case False
    then have b: "p_seg l < nsegs m" "sz (p_word l + k * p_step_words l) = p_word l + k * p_step_words l"
      "p_word l + k * p_step_words l + p_step_words l \<le> seg_words (msegs m ! p_seg l)"
      "p_step_words l = p_dwords l + p_pwords l"
      using composite_elem [OF wf lw, of k] True by simp_all
    then show ?thesis by (auto simp: well_placed_def in_bounds_def obj_words_def)
  qed
  moreover have "ptr_slots ?q \<subseteq> ptr_slots l"
    using True by (auto simp: ptr_slots_def kind_defs)
  ultimately have "tracked m ?q" using l by (auto simp: tracked_def)
  then show ?thesis using True by (simp add: capnp_list_getp_def kind_defs)
next
  case False
  show ?thesis
  proof (cases "p_kind l = PK_LIST \<and> k < p_count l \<and> p_esize l = SZ_PTR")
    case True
    then have "(p_seg l, sz (p_word l + k)) \<in> ptr_slots l" by (simp add: ptr_slots_def slots_at_I)
    from resolve_at [OF wf trackedD(2) [OF l this], of t] True show ?thesis by (simp add: capnp_list_getp_def)
  next
    case no: False
    then show ?thesis using False by (auto simp: capnp_list_getp_def kind_defs)
  qed
qed

end
