(* ===== verification/Budget.thy ===== *)
theory Budget
  imports Covered
begin

text \<open>
  The traversal budget of a message: resolving a pointer never gains any (\<open>within\<close>), following a
  pointer to a list spends some, and a pointer that resolves at one budget resolves to the same object
  at every larger one (\<open>getp_more\<close>).
\<close>

section \<open>Budgets\<close>

lemma charge_at:
  "charge (at m t) k = (if t < k then (CAPNP_ERR_TRAVERSAL, at m t) else (CAPNP_OK, at m (t - k)))"
  by (simp add: charge_def)

lemma at_self: "at m (traversal_left m) = m"
  by simp

text \<open>The result, if there is one, leaves the message as it is but for a budget of at most \<open>n\<close> words.\<close>

definition stays :: "message \<Rightarrow> nat \<Rightarrow> (rc \<times> message \<times> 'a) option \<Rightarrow> bool" where
  "stays m n R \<longleftrightarrow> (\<forall>r m' x. R = Some (r, m', x) \<longrightarrow> (\<exists>t \<le> n. m' = at m t))"

lemma stays_None [simp]: "stays m n None"
  and stays_Some [simp]: "t \<le> n \<Longrightarrow> stays m n (Some (r, at m t, x))"
  by (auto simp: stays_def)

lemma staysE:
  assumes "stays m n R" "R = Some (r, m', x)"
  obtains t where "t \<le> n" "m' = at m t"
  using assms by (auto simp: stays_def)

lemma stays_mono: "stays m k R \<Longrightarrow> k \<le> n \<Longrightarrow> stays m n R"
  unfolding stays_def by (blast intro: order_trans)

lemma stays_value: "(\<And>x. v = Some x \<Longrightarrow> stays m n (f x)) \<Longrightarrow> stays m n (v \<bind> f)"
  by (cases v) simp_all

lemma stays_bind:
  "stays m n R \<Longrightarrow> (\<And>r t x. R = Some (r, at m t, x) \<Longrightarrow> t \<le> n \<Longrightarrow> stays m n (F (r, at m t, x))) \<Longrightarrow> stays m n (R \<bind> F)"
  by (cases R) (auto elim!: staysE)

lemma stays_charge_out [simp]: "t \<le> n \<Longrightarrow> stays m n (Some (charge_out (at m t) k out))"
  by (simp add: charge_out_def charge_at)

lemma stays_struct: "t \<le> n \<Longrightarrow> stays m n (Some (resolve_struct (at m t) seg word w out))"
  by (simp add: resolve_struct_def Let_def)

lemma stays_list: "t \<le> n \<Longrightarrow> stays m n (resolve_list (at m t) seg word w out)"
  unfolding resolve_list_def Let_def by (auto simp: charge_at intro!: stays_value split: option.splits)

lemma stays_double_far: "t \<le> n \<Longrightarrow> stays m n (resolve_double_far (at m t) tseg toff out)"
  unfolding resolve_double_far_def Let_def by (auto simp: charge_at intro!: stays_value)

lemma stays_word: "t \<le> n \<Longrightarrow> stays m n (resolve_word (at m t) seg word w depth out)"
proof (induction "nat depth" arbitrary: t seg word w depth out)
  case 0
  then show ?case by (subst resolve_word.simps) simp
next
  case (Suc k)
  have IH: "stays m n (resolve_word (at m a) s v x (depth - 1) q)" if "a \<le> n" for a s v x q
    using Suc that by simp
  show ?case using Suc.prems
    by (subst resolve_word.simps)
      (auto simp: Let_def charge_at stays_struct stays_list stays_double_far split: option.splits intro!: IH)
qed

lemma stays_ptr: "t \<le> n \<Longrightarrow> stays m n (resolve_ptr (at m t) seg word depth out)"
  unfolding resolve_ptr_def by (auto simp: charge_at intro!: stays_word split: option.splits)

lemma stays_root: "t \<le> n \<Longrightarrow> stays m n (capnp_root (at m t) out)"
  by (simp add: capnp_root_def stays_ptr)

lemma stays_getp: "t \<le> n \<Longrightarrow> stays m n (capnp_getp (at m t) s i out)"
  by (simp add: capnp_getp_def stays_ptr)

lemma stays_list_getp: "t \<le> n \<Longrightarrow> stays m n (capnp_list_getp (at m t) list i out)"
  by (simp add: capnp_list_getp_def stays_ptr)

definition within :: "nat \<Rightarrow> (rc \<times> message \<times> 'a) option \<Rightarrow> bool" where
  "within n R \<longleftrightarrow> (\<forall>r m x. R = Some (r, m, x) \<longrightarrow> traversal_left m \<le> n)"

lemma within_simps [simp]: "within n None" "within n (Some (r, m, x)) = (traversal_left m \<le> n)"
  by (simp_all add: within_def)

lemma within_mono: "within k R \<Longrightarrow> k \<le> n \<Longrightarrow> within n R"
  by (force simp: within_def)

lemma stays_within: "stays m n R \<Longrightarrow> within n R"
  by (force simp: stays_def within_def)

lemma within_getp: "within (traversal_left m) (capnp_getp m s i out)"
  and within_list_getp: "within (traversal_left m) (capnp_list_getp m list i out)"
  and within_word: "within (traversal_left m) (resolve_word m seg word w depth out)"
  by (rule stays_within [where m = m]; use stays_getp stays_list_getp stays_word at_self order_refl in metis)+

text \<open>A pointer that resolves to a list was paid for.\<close>

lemma getp_list_spends:
  assumes "capnp_getp m s i ptr0 = Some (CAPNP_OK, m', q)" "p_kind q = PK_LIST"
  shows "traversal_left m' < traversal_left m"
proof -
  have "p_kind s = PK_STRUCT" "i < p_pwords s" using assms by (auto simp: capnp_getp_def set_null_def split: if_splits)
  then obtain seg w where r: "resolve_ptr m seg w (depth_limit m) ptr0 = Some (CAPNP_OK, m', q)"
    using assms(1) by (auto simp: capnp_getp_def split: if_splits)
  show ?thesis
  proof (cases rule: charge_cases [of m 1])
    case (ok m1)
    then obtain x where x: "resolve_word m1 seg w x (depth_limit m) ptr0 = Some (CAPNP_OK, m', q)"
      using r by (auto simp: resolve_ptr_def split: if_splits option.splits)
    show ?thesis using within_word [of m1 seg w x "depth_limit m" ptr0] ok(2) unfolding x by (auto simp: spends_def)
  qed (use r in \<open>auto simp: resolve_ptr_def split: if_splits\<close>)
qed

section \<open>More budget\<close>

text \<open>What succeeds at a budget succeeds at a larger one, with the same pointer.\<close>

definition more :: "(rc \<times> message \<times> ptr) option \<Rightarrow> (rc \<times> message \<times> ptr) option \<Rightarrow> bool" where
  "more R R' \<longleftrightarrow> (\<forall>m1 p. R = Some (CAPNP_OK, m1, p) \<longrightarrow> (\<exists>m2. R' = Some (CAPNP_OK, m2, p)))"

lemma more_refl [simp]: "more None R" "more (Some (r, m1, p)) (Some (r', m2, p')) \<longleftrightarrow> (r = CAPNP_OK \<longrightarrow> r' = CAPNP_OK \<and> p' = p)"
  "r \<noteq> CAPNP_OK \<Longrightarrow> more (Some (r, m1, p)) R"
  by (auto simp: more_def)

lemma more_charge_out [simp]: "t \<le> t' \<Longrightarrow> more (Some (charge_out (at m t) k p)) (Some (charge_out (at m t') k p))"
  by (simp add: charge_out_def charge_at)

lemma more_bind: "(\<And>x. v = Some x \<Longrightarrow> more (f x) (g x)) \<Longrightarrow> more (v \<bind> f) (v \<bind> g)"
  by (cases v) simp_all

lemma more_struct:
  "t \<le> t' \<Longrightarrow> more (Some (resolve_struct (at m t) seg word w out)) (Some (resolve_struct (at m t') seg word w out))"
  by (simp add: resolve_struct_def Let_def)

lemma more_list: "t \<le> t' \<Longrightarrow> more (resolve_list (at m t) seg word w out) (resolve_list (at m t') seg word w out)"
  unfolding resolve_list_def Let_def by (auto simp: charge_at intro!: more_bind split: option.splits)

lemma more_double_far:
  "t \<le> t' \<Longrightarrow> more (resolve_double_far (at m t) tseg toff out) (resolve_double_far (at m t') tseg toff out)"
  unfolding resolve_double_far_def Let_def by (auto simp: charge_at intro!: more_bind)

lemma more_word:
  "t \<le> t' \<Longrightarrow> more (resolve_word (at m t) seg word w depth out) (resolve_word (at m t') seg word w depth out)"
proof (induction "nat depth" arbitrary: t t' seg word w depth out)
  case 0
  then show ?case by (subst (1 2) resolve_word.simps) simp
next
  case (Suc n)
  have IH: "more (resolve_word (at m a) s v x (depth - 1) q) (resolve_word (at m a') s v x (depth - 1) q)"
    if "a \<le> a'" for a a' s v x q
    using Suc that by simp
  show ?case using Suc.prems
    by (subst (1 2) resolve_word.simps)
      (auto simp: Let_def charge_at more_struct more_list more_double_far split: option.splits intro!: IH)
qed

lemma more_ptr: "t \<le> t' \<Longrightarrow> more (resolve_ptr (at m t) seg word depth out) (resolve_ptr (at m t') seg word depth out)"
  unfolding resolve_ptr_def by (auto simp: charge_at more_word split: option.splits)

lemma resolve_same:
  "\<lbrakk>resolve_ptr (at m t) seg word depth out = Some (CAPNP_OK, m1, p);
    resolve_ptr (at m t') seg word depth out = Some (CAPNP_OK, m2, q)\<rbrakk> \<Longrightarrow> q = p"
  using more_ptr [of t t' m seg word depth out] more_ptr [of t' t m seg word depth out] by (cases "t \<le> t'") (auto simp: more_def)

lemma getp_more: "t \<le> t' \<Longrightarrow> more (capnp_getp (at m t) s k out) (capnp_getp (at m t') s k out)"
  by (simp add: capnp_getp_def more_ptr)

lemma list_getp_more: "t \<le> t' \<Longrightarrow> more (capnp_list_getp (at m t) l k out) (capnp_list_getp (at m t') l k out)"
  by (simp add: capnp_list_getp_def more_ptr)

lemma getp_same:
  "\<lbrakk>capnp_getp (at m t) s k out = Some (CAPNP_OK, m1, p); capnp_getp (at m t') s k out = Some (CAPNP_OK, m2, q)\<rbrakk> \<Longrightarrow> q = p"
  using getp_more [of t t' m s k out] getp_more [of t' t m s k out] by (cases "t \<le> t'") (auto simp: more_def)

lemma list_getp_same:
  "\<lbrakk>capnp_list_getp (at m t) l k out = Some (CAPNP_OK, m1, p); capnp_list_getp (at m t') l k out = Some (CAPNP_OK, m2, q)\<rbrakk> \<Longrightarrow> q = p"
  using list_getp_more [of t t' m l k out] list_getp_more [of t' t m l k out] by (cases "t \<le> t'") (auto simp: more_def)

end
