(* ===== verification/CanonSpec.thy ===== *)
theory CanonSpec
  imports Canonical Budget
begin

text \<open>
  The abstract specification of the deep copy: \<open>copied\<close> says which words of a segment are the
  canonical encoding of an object as the readers see it in its message, and \<open>result\<close> what a copy may
  change in the builder. The sizes of the encoded sections are stated over what the readers return, not
  over the trimming functions of the code (\<open>struct_size\<close>, \<open>elem_size\<close>).
\<close>

section \<open>What the readers return\<close>

text \<open>The pointer that the readers give, at some budget (the same at each, \<open>child_unique\<close>).\<close>

definition child :: "message \<Rightarrow> ptr \<Rightarrow> nat \<Rightarrow> ptr \<Rightarrow> bool" where
  "child m s k q \<longleftrightarrow> (\<exists>t m'. capnp_getp (at m t) s k ptr0 = Some (CAPNP_OK, m', q))"

definition elem :: "message \<Rightarrow> ptr \<Rightarrow> nat \<Rightarrow> ptr \<Rightarrow> bool" where
  "elem m l i q \<longleftrightarrow> (\<exists>t m'. capnp_list_getp (at m t) l i ptr0 = Some (CAPNP_OK, m', q))"

lemma child_unique: "child m s k p \<Longrightarrow> child m s k q \<Longrightarrow> q = p"
  and elem_unique: "elem m l i p \<Longrightarrow> elem m l i q \<Longrightarrow> q = p"
  by (auto simp: child_def elem_def dest: getp_same list_getp_same)

text \<open>
  A struct loses nothing in \<open>nd\<close> data and \<open>np\<close> pointer words, and the last data word and the last
  pointer are needed: the size of its canonical encoding.
\<close>

definition fits :: "message \<Rightarrow> ptr \<Rightarrow> nat \<Rightarrow> nat \<Rightarrow> bool" where
  "fits m s nd np \<longleftrightarrow>
     (\<forall>i. nd \<le> i \<and> i < p_dwords s \<longrightarrow> capnp_get_u64 m s (i * 8) 0 = Some 0) \<and>
     (\<forall>k. np \<le> k \<and> k < p_pwords s \<longrightarrow> (\<exists>q. child m s k q \<and> p_kind q = PK_NULL))"

definition data_at :: "message \<Rightarrow> ptr \<Rightarrow> nat \<Rightarrow> bool" where
  "data_at m s i \<longleftrightarrow> i < p_dwords s \<and> (\<exists>v. capnp_get_u64 m s (i * 8) 0 = Some v \<and> v \<noteq> 0)"

definition ptr_at :: "message \<Rightarrow> ptr \<Rightarrow> nat \<Rightarrow> bool" where
  "ptr_at m s k \<longleftrightarrow> k < p_pwords s \<and> (\<exists>q. child m s k q \<and> p_kind q \<noteq> PK_NULL)"

definition struct_size :: "message \<Rightarrow> ptr \<Rightarrow> nat \<Rightarrow> nat \<Rightarrow> bool" where
  "struct_size m s nd np \<longleftrightarrow>
     fits m s nd np \<and> (0 < nd \<longrightarrow> data_at m s (nd - 1)) \<and> (0 < np \<longrightarrow> ptr_at m s (np - 1))"

text \<open>The size of the elements of a list: every element fits, and some element needs the last words.\<close>

definition elem_size :: "message \<Rightarrow> ptr \<Rightarrow> nat \<Rightarrow> nat \<Rightarrow> bool" where
  "elem_size m l nd np \<longleftrightarrow>
     (\<forall>i el. elem m l i el \<longrightarrow> fits m el nd np) \<and>
     (0 < nd \<longrightarrow> (\<exists>i el. elem m l i el \<and> data_at m el (nd - 1))) \<and>
     (0 < np \<longrightarrow> (\<exists>i el. elem m l i el \<and> ptr_at m el (np - 1)))"

section \<open>Trimming\<close>

text \<open>\<open>nd\<close> is the shortest data section that loses nothing.\<close>

definition data_trim :: "message \<Rightarrow> ptr \<Rightarrow> nat \<Rightarrow> nat \<Rightarrow> bool" where
  "data_trim m p n nd \<longleftrightarrow> nd \<le> n \<and> (\<forall>i. nd \<le> i \<and> i < n \<longrightarrow> capnp_get_u64 m p (i * 8) 0 = Some 0) \<and>
     (0 < nd \<longrightarrow> capnp_get_u64 m p ((nd - 1) * 8) 0 \<noteq> Some 0)"

lemma trim_data_spec: "trim_data m p n = Some nd \<Longrightarrow> data_trim m p n nd"
proof (induction n)
  case (Suc n)
  show ?case
  proof (cases "capnp_get_u64 m p (n * 8) 0 = Some 0")
    case True
    then have t: "data_trim m p n nd" using Suc by auto
    then show ?thesis using True by (auto simp: data_trim_def less_Suc_eq)
  next
    case False
    then have "nd = Suc n" using Suc.prems by (auto split: bind_splits if_splits)
    then show ?thesis using False by (auto simp: data_trim_def)
  qed
qed (simp add: data_trim_def)

lemma trim_data_at [simp]: "trim_data (at m t) p n = trim_data m p n"
  by (induction n) (simp_all cong: if_cong)

lemma trimmed_dwords_total:
  assumes "wf_message m" "tracked m p"
  obtains nd where "trimmed_dwords m p = Some nd" "data_trim m p (p_dwords p) nd" "0 < nd \<longrightarrow> data_at m p (nd - 1)"
proof -
  have "capnp_get_u64 m p i 0 \<noteq> None" for i
    using getters_total(4) [OF assms(1) well_placed_view_ok [OF assms(1) trackedD(1) [OF assms(2)]]] by simp
  then have g: "trim_data m p n \<noteq> None" "\<exists>v. capnp_get_u64 m p i 0 = Some v" for n i
    by (induction n) (auto split: bind_splits)
  obtain nd where nd: "trimmed_dwords m p = Some nd" using g(1) by (auto simp: trimmed_dwords_def)
  have t: "data_trim m p (p_dwords p) nd" using trim_data_spec nd by (simp add: trimmed_dwords_def)
  have "0 < nd \<longrightarrow> data_at m p (nd - 1)" using t g(2) [of "(nd - 1) * 8"] by (auto simp: data_trim_def data_at_def)
  with nd t show ?thesis by (rule that)
qed

text \<open>Pointer \<open>k\<close> can still be read with a budget of at most \<open>t\<close>.\<close>

definition readable :: "message \<Rightarrow> nat \<Rightarrow> ptr \<Rightarrow> nat \<Rightarrow> bool" where
  "readable m t s k \<longleftrightarrow> (\<exists>t1 \<le> t. \<exists>m' q. capnp_getp (at m t1) s k ptr0 = Some (CAPNP_OK, m', q))"

text \<open>Why the loop over the pointers stopped at \<open>k\<close>, with \<open>t\<close> left.\<close>

definition stopped :: "message \<Rightarrow> nat \<Rightarrow> ptr \<Rightarrow> nat \<Rightarrow> bool" where
  "stopped m t s k \<longleftrightarrow> k < p_pwords s \<and>
     (\<exists>a \<ge> t. \<forall>m' q. capnp_getp (at m a) s k ptr0 = Some (CAPNP_OK, m', q) \<longrightarrow> p_kind q \<noteq> PK_NULL)"

lemma stopped_ptr:
  assumes "stopped m t s k" "readable m t s k"
  shows "ptr_at m s k"
proof -
  obtain a where a: "k < p_pwords s" "t \<le> a"
    "\<And>m' q. capnp_getp (at m a) s k ptr0 = Some (CAPNP_OK, m', q) \<Longrightarrow> p_kind q \<noteq> PK_NULL"
    using assms(1) by (auto simp: stopped_def)
  obtain t1 m' q where r: "t1 \<le> t" "capnp_getp (at m t1) s k ptr0 = Some (CAPNP_OK, m', q)"
    using assms(2) by (auto simp: readable_def)
  then obtain m2 where "capnp_getp (at m a) s k ptr0 = Some (CAPNP_OK, m2, q)"
    using getp_more [of t1 a m s k ptr0] a(2) by (auto simp: more_def)
  then show ?thesis using a(1,3) r(2) by (auto simp: ptr_at_def child_def)
qed

lemma stopped_mono: "stopped m t s k \<Longrightarrow> t' \<le> t \<Longrightarrow> stopped m t' s k"
  unfolding stopped_def by (meson order_trans)

definition null_beyond :: "message \<Rightarrow> ptr \<Rightarrow> nat \<Rightarrow> nat \<Rightarrow> bool" where
  "null_beyond m s np n \<longleftrightarrow> (\<forall>k. np \<le> k \<and> k < n \<longrightarrow> (\<exists>q. child m s k q \<and> p_kind q = PK_NULL))"

lemma trim_ptrs_at:
  assumes wf: "wf_message m" and p: "tracked m p"
  shows "n \<le> p_pwords p \<Longrightarrow> \<exists>t' \<le> t. \<exists>np. trim_ptrs (at m t) p n = Some (at m t', np) \<and> np \<le> n \<and>
    null_beyond m p np n \<and> (0 < np \<longrightarrow> stopped m t' p (np - 1))"
proof (induction n arbitrary: t)
  case (Suc n)
  obtain r t1 q where g: "capnp_getp (at m t) p n ptr0 = Some (r, at m t1, q)" using getp_at [OF wf p] by blast
  have t1: "t1 \<le> t"
    using stays_getp [of t t m p n ptr0] unfolding g stays_def by (auto dest: arg_cong [where f = traversal_left])
  show ?case
  proof (cases "r = CAPNP_OK \<and> p_kind q = PK_NULL")
    case True
    obtain t' np where t': "t' \<le> t1" "trim_ptrs (at m t1) p n = Some (at m t', np)" "np \<le> n"
      "null_beyond m p np n" "0 < np \<longrightarrow> stopped m t' p (np - 1)"
      using Suc.IH [of t1] Suc.prems by auto
    have "child m p n q" using g True by (auto simp: child_def)
    then have "null_beyond m p np (Suc n)" using t'(4) True by (auto simp: null_beyond_def less_Suc_eq)
    then show ?thesis using g True t' t1 by (intro exI [of _ t']) auto
  next
    case False
    then have "stopped m t1 p n" using g Suc.prems t1 by (auto simp: stopped_def)
    moreover have "trim_ptrs (at m t) p (Suc n) = Some (at m t1, Suc n)" using g False by auto
    ultimately show ?thesis using t1 by (intro exI [of _ t1]) (auto simp: null_beyond_def)
  qed
qed (auto simp: null_beyond_def)

lemma trimmed_pwords_at:
  assumes "wf_message m" "tracked m p"
  obtains t' np where "trimmed_pwords (at m t) p = Some (at m t', np)" "t' \<le> t" "np \<le> p_pwords p"
    "null_beyond m p np (p_pwords p)" "0 < np \<longrightarrow> stopped m t' p (np - 1)"
  using trim_ptrs_at [OF assms order_refl, of t] by (auto simp: trimmed_pwords_def)

text \<open>What the code computes is the size of the specification, once the last pointer was read again.\<close>

lemma trimmed_struct:
  assumes "wf_message m" "tracked m s"
  obtains t' nd np where "t' \<le> t" "trimmed_dwords (at m t) s = Some nd" "trimmed_pwords (at m t) s = Some (at m t', np)"
    "np \<le> p_pwords s" "\<forall>k < np. readable m t' s k \<Longrightarrow> struct_size m s nd np"
proof -
  obtain nd where nd: "trimmed_dwords m s = Some nd" "data_trim m s (p_dwords s) nd" "0 < nd \<longrightarrow> data_at m s (nd - 1)"
    by (rule trimmed_dwords_total [OF assms])
  obtain t' np where np: "trimmed_pwords (at m t) s = Some (at m t', np)" "t' \<le> t" "np \<le> p_pwords s"
    "null_beyond m s np (p_pwords s)" "0 < np \<longrightarrow> stopped m t' s (np - 1)"
    by (rule trimmed_pwords_at [OF assms])
  have "struct_size m s nd np" if "\<forall>k < np. readable m t' s k"
    using nd(2,3) np(4) np(5) stopped_ptr [of m t' s "np - 1"] that
    by (auto simp: struct_size_def fits_def data_trim_def null_beyond_def)
  then show ?thesis using nd(1) np by (intro that) (simp_all add: trimmed_dwords_def)
qed

lemma fits_mono: "fits m s nd np \<Longrightarrow> nd \<le> nd' \<Longrightarrow> np \<le> np' \<Longrightarrow> fits m s nd' np'"
  by (auto simp: fits_def)

text \<open>Every element that can still be read fits, and the last words are needed by some element.\<close>

definition elems_fit :: "message \<Rightarrow> nat \<Rightarrow> ptr \<Rightarrow> nat \<Rightarrow> nat \<Rightarrow> nat set \<Rightarrow> bool" where
  "elems_fit m t l nd np I \<longleftrightarrow> (\<forall>i \<in> I. \<forall>t1 \<le> t. \<forall>m' el.
     capnp_list_getp (at m t1) l i ptr0 = Some (CAPNP_OK, m', el) \<longrightarrow> fits m el nd np)"

lemma elems_fit_mono: "elems_fit m t l nd np I \<Longrightarrow> t' \<le> t \<Longrightarrow> nd \<le> nd' \<Longrightarrow> np \<le> np' \<Longrightarrow> elems_fit m t' l nd' np' I"
  unfolding elems_fit_def by (blast intro: fits_mono order_trans)

lemma trim_elems_at:
  assumes wf: "wf_message m" and l: "tracked m l"
  shows "\<exists>t' \<le> t. \<exists>nd' np'. trim_elems (at m t) l nd np is = Some (at m t', nd', np') \<and> nd \<le> nd' \<and> np \<le> np' \<and>
    elems_fit m t' l nd' np' (set is) \<and>
    (nd < nd' \<longrightarrow> (\<exists>i \<in> set is. \<exists>el. elem m l i el \<and> data_at m el (nd' - 1))) \<and>
    (np < np' \<longrightarrow> (\<exists>i \<in> set is. \<exists>el. elem m l i el \<and> stopped m t' el (np' - 1)))"
proof (induction "is" arbitrary: t nd np)
  case Nil
  then show ?case by (auto simp: elems_fit_def)
next
  case (Cons i "is")
  obtain r t1 q where g: "capnp_list_getp (at m t) l i ptr0 = Some (r, at m t1, q)" "r = CAPNP_OK \<longrightarrow> tracked m q"
    using list_getp_at [OF wf l] by blast
  have t1: "t1 \<le> t"
    using stays_list_getp [of t t m l i ptr0] unfolding g stays_def by (auto dest: arg_cong [where f = traversal_left])
  show ?case
  proof (cases "r = CAPNP_OK")
    case False
    have "elems_fit m t1 l nd' np' {i}" for nd' np'
      using False g(1) list_getp_more [of _ t m l i ptr0] t1 unfolding elems_fit_def more_def by fastforce
    then have *: "elems_fit m t' l nd' np' (insert i I)" if "elems_fit m t' l nd' np' I" "t' \<le> t1" for t' nd' np' I
      using that elems_fit_mono [of m t1 l nd' np' "{i}" t'] by (auto simp: elems_fit_def)
    obtain t' nd' np' where IH: "t' \<le> t1" "trim_elems (at m t1) l nd np is = Some (at m t', nd', np')" "nd \<le> nd'" "np \<le> np'"
      "elems_fit m t' l nd' np' (set is)" "nd < nd' \<longrightarrow> (\<exists>i \<in> set is. \<exists>el. elem m l i el \<and> data_at m el (nd' - 1))"
      "np < np' \<longrightarrow> (\<exists>i \<in> set is. \<exists>el. elem m l i el \<and> stopped m t' el (np' - 1))"
      using Cons.IH [of t1 nd np] by blast
    have "trim_elems (at m t) l nd np (i # is) = Some (at m t', nd', np')" using g(1) False IH(2) by simp
    then show ?thesis using IH(1,3-7) * [OF IH(5,1)] t1 by (intro exI [of _ t']) auto
  next
    case True
    then have q: "tracked m q" "elem m l i q" using g by (auto simp: elem_def)
    obtain td where td: "trimmed_dwords m q = Some td" "data_trim m q (p_dwords q) td" "0 < td \<longrightarrow> data_at m q (td - 1)"
      by (rule trimmed_dwords_total [OF wf q(1)])
    obtain t2 tp where tp: "trimmed_pwords (at m t1) q = Some (at m t2, tp)" "t2 \<le> t1" "tp \<le> p_pwords q"
      "null_beyond m q tp (p_pwords q)" "0 < tp \<longrightarrow> stopped m t2 q (tp - 1)"
      by (rule trimmed_pwords_at [OF wf q(1)])
    let ?nd = "max nd td" and ?np = "max np tp"
    obtain t' nd' np' where IH: "t' \<le> t2" "trim_elems (at m t2) l ?nd ?np is = Some (at m t', nd', np')" "?nd \<le> nd'" "?np \<le> np'"
      "elems_fit m t' l nd' np' (set is)" "?nd < nd' \<longrightarrow> (\<exists>i \<in> set is. \<exists>el. elem m l i el \<and> data_at m el (nd' - 1))"
      "?np < np' \<longrightarrow> (\<exists>i \<in> set is. \<exists>el. elem m l i el \<and> stopped m t' el (np' - 1))"
      using Cons.IH [of t2 ?nd ?np] by blast
    have "trim_elems (at m t) l nd np (i # is) = Some (at m t', nd', np')"
      using g(1) True td(1) tp(1) IH(2) by (simp add: trimmed_dwords_def)
    moreover have "elems_fit m t' l nd' np' (set (i # is))"
    proof -
      have "fits m q td tp" using td(2) tp(4) by (auto simp: fits_def data_trim_def null_beyond_def)
      then have "fits m el nd' np'" if "elem m l i el" for el
        using elem_unique [OF q(2) that] IH(3,4) by (auto intro: fits_mono)
      then show ?thesis using IH(5) by (auto simp: elems_fit_def elem_def)
    qed
    moreover have "\<exists>i \<in> set (i # is). \<exists>el. elem m l i el \<and> data_at m el (nd' - 1)" if "nd < nd'"
    proof (cases "?nd < nd'")
      case False
      then have "nd' = td" "0 < td" using IH(3) that by auto
      then show ?thesis using td(3) q(2) by auto
    qed (use IH(6) in auto)
    moreover have "\<exists>i \<in> set (i # is). \<exists>el. elem m l i el \<and> stopped m t' el (np' - 1)" if "np < np'"
    proof (cases "?np < np'")
      case False
      then have "np' = tp" "0 < tp" using IH(4) that by auto
      then show ?thesis using tp(5) q(2) stopped_mono [OF _ IH(1)] by auto
    qed (use IH(7) in auto)
    ultimately show ?thesis using IH(1,3,4) tp(2) t1 by (intro exI [of _ t']) auto
  qed
qed

lemma trimmed_list:
  assumes wf: "wf_message m" and l: "tracked m l"
  obtains t' nd np where "composite_trim (at m t) l = Some (at m t', nd, np)" "t' \<le> t"
    "(\<forall>i < p_count l. \<exists>t1 \<le> t'. \<exists>m' el. capnp_list_getp (at m t1) l i ptr0 = Some (CAPNP_OK, m', el) \<and>
      (\<forall>k < np. k < p_pwords el \<longrightarrow> readable m t' el k)) \<longrightarrow> elem_size m l nd np"
proof -
  obtain t' nd np where T: "t' \<le> t" "composite_trim (at m t) l = Some (at m t', nd, np)"
    "elems_fit m t' l nd np {0..<p_count l}"
    "0 < nd \<longrightarrow> (\<exists>i \<in> {0..<p_count l}. \<exists>el. elem m l i el \<and> data_at m el (nd - 1))"
    "0 < np \<longrightarrow> (\<exists>i \<in> {0..<p_count l}. \<exists>el. elem m l i el \<and> stopped m t' el (np - 1))"
    using trim_elems_at [OF wf l, of t 0 0 "[0..<p_count l]"] unfolding composite_trim_def set_upt by blast
  have "elem_size m l nd np"
    if r: "\<forall>i < p_count l. \<exists>t1 \<le> t'. \<exists>m' el. capnp_list_getp (at m t1) l i ptr0 = Some (CAPNP_OK, m', el) \<and>
      (\<forall>k < np. k < p_pwords el \<longrightarrow> readable m t' el k)"
  proof -
    have read: "\<exists>t1 \<le> t'. \<exists>m'. capnp_list_getp (at m t1) l i ptr0 = Some (CAPNP_OK, m', el)"
      "\<forall>k < np. k < p_pwords el \<longrightarrow> readable m t' el k" "i \<in> {0..<p_count l}" if e: "elem m l i el" for i el
    proof -
      have i: "i < p_count l" using e by (auto simp: elem_def capnp_list_getp_def split: if_splits)
      then obtain t1 m' el' where r': "t1 \<le> t'" "capnp_list_getp (at m t1) l i ptr0 = Some (CAPNP_OK, m', el')"
        "\<forall>k < np. k < p_pwords el' \<longrightarrow> readable m t' el' k"
        using r by blast
      then have "el' = el" using elem_unique [OF e, of el'] by (auto simp: elem_def)
      with r' i show "\<exists>t1 \<le> t'. \<exists>m'. capnp_list_getp (at m t1) l i ptr0 = Some (CAPNP_OK, m', el)"
        "\<forall>k < np. k < p_pwords el \<longrightarrow> readable m t' el k" "i \<in> {0..<p_count l}" by auto
    qed
    have "fits m el nd np" if "elem m l i el" for i el
      using read(1,3) [OF that] T(3) unfolding elems_fit_def by blast
    moreover have "\<exists>i el. elem m l i el \<and> ptr_at m el (np - 1)" if np: "0 < np"
    proof -
      obtain i el where i: "elem m l i el" "stopped m t' el (np - 1)" using T(5) np by blast
      then have "readable m t' el (np - 1)" using read(2) [OF i(1)] np by (simp add: stopped_def)
      then show ?thesis using i stopped_ptr by blast
    qed
    ultimately show ?thesis using T(4) by (auto simp: elem_size_def)
  qed
  with T(1,2) show ?thesis using that by blast
qed

section \<open>The canonical encoding\<close>

definition body_words :: "message \<Rightarrow> (nat \<Rightarrow> u64) \<Rightarrow> nat \<Rightarrow> nat \<Rightarrow> ptr \<Rightarrow> bool" where
  "body_words m W body nd src \<longleftrightarrow>
     (\<forall>j < nd. (if j < p_dwords src then capnp_get_u64 m src (j * 8) 0 else Some 0) = Some (W (body + j)))"

text \<open>Consecutive pieces: \<open>P k a b\<close> for each \<open>k\<close> of the list, each starting where the last ended.\<close>

fun chain :: "(nat \<Rightarrow> nat \<Rightarrow> nat \<Rightarrow> bool) \<Rightarrow> nat \<Rightarrow> nat \<Rightarrow> nat list \<Rightarrow> bool" where
  "chain P lo hi [] = (lo = hi)"
| "chain P lo hi (k # ks) = (\<exists>mid. P k lo mid \<and> chain P mid hi ks)"

lemma chain_mono [mono]:
  "(\<And>k a b. P k a b \<longrightarrow> Q k a b) \<Longrightarrow> chain P lo hi ks \<longrightarrow> chain Q lo hi ks"
  by (induction ks arbitrary: lo) (simp, metis chain.simps(2))

lemma chain_le: "(\<And>k a b. P k a b \<Longrightarrow> a \<le> b) \<Longrightarrow> chain P lo hi ks \<Longrightarrow> lo \<le> hi"
  by (induction ks arbitrary: lo) (auto, blast intro: order_trans)

text \<open>
  \<open>copied m W lo hi slot src\<close>: word \<open>slot\<close> of the segment with words \<open>W\<close> points to the canonical
  encoding of \<open>src\<close>, which takes exactly the words \<open>lo .. hi - 1\<close>: trimmed sections, near pointers
  only, preorder, no gap.
\<close>

inductive copied :: "message \<Rightarrow> (nat \<Rightarrow> u64) \<Rightarrow> nat \<Rightarrow> nat \<Rightarrow> nat \<Rightarrow> ptr \<Rightarrow> bool" for m W where
  copied_null: "\<lbrakk>p_kind src = PK_NULL; W slot = 0\<rbrakk> \<Longrightarrow> copied m W lo lo slot src"
| copied_empty: "\<lbrakk>p_kind src = PK_STRUCT; struct_size m src 0 0; W slot = capnp_wp_make_struct (-1) 0 0\<rbrakk> \<Longrightarrow>
    copied m W lo lo slot src"
| copied_struct: "\<lbrakk>p_kind src = PK_STRUCT; struct_size m src nd np; 0 < nd + np;
    W slot = capnp_wp_make_struct (near_off lo slot) nd np; body_words m W lo nd src;
    chain (\<lambda>k a b. (k < p_pwords src \<longrightarrow> (\<exists>q. child m src k q \<and> copied m W a b (lo + nd + k) q)) \<and>
        (\<not> k < p_pwords src \<longrightarrow> W (lo + nd + k) = 0 \<and> a = b)) (lo + nd + np) hi [0..<np]\<rbrakk> \<Longrightarrow>
    copied m W lo hi slot src"
| copied_prim: "\<lbrakk>p_kind src = PK_LIST; p_esize src \<noteq> SZ_COMPOSITE; p_esize src \<noteq> SZ_PTR;
    list_bits (p_esize src) (p_count src) = Some bits; n = ((bits + 7) div 8 + 7) div 8;
    W slot = capnp_wp_make_list (near_off (if n = 0 then slot + 1 else lo) slot) (p_esize src) (p_count src);
    n \<noteq> 0 \<longrightarrow> seg_read m (p_seg src) (sz (p_word src * WORD_BYTES)) ((bits + 7) div 8) = Some bytes;
    \<forall>j < n. W (lo + j) = capnp_load_le64 (take 8 (drop (j * 8) (pad_words n bytes)))\<rbrakk> \<Longrightarrow>
    copied m W lo (lo + n) slot src"
| copied_refs: "\<lbrakk>p_kind src = PK_LIST; p_esize src = SZ_PTR;
    W slot = capnp_wp_make_list (near_off (if p_count src = 0 then slot + 1 else lo) slot) SZ_PTR (p_count src);
    chain (\<lambda>i a b. \<exists>q. elem m src i q \<and> copied m W a b (lo + i) q) (lo + p_count src) hi [0..<p_count src]\<rbrakk> \<Longrightarrow>
    copied m W lo hi slot src"
| copied_elems: "\<lbrakk>p_kind src = PK_LIST; p_esize src = SZ_COMPOSITE; elem_size m src nd np;
    W slot = capnp_wp_make_list (near_off lo slot) SZ_COMPOSITE (p_count src * (nd + np) mod 2 ^ 32);
    W lo = capnp_wp_make_struct (int (p_count src)) nd np;
    chain (\<lambda>i a b. \<exists>el. elem m src i el \<and> body_words m W (lo + 1 + i * (nd + np)) nd el \<and>
        chain (\<lambda>k c d. (k < p_pwords el \<longrightarrow>
              (\<exists>q. child m el k q \<and> copied m W c d (lo + 1 + i * (nd + np) + nd + k) q)) \<and>
            (\<not> k < p_pwords el \<longrightarrow> W (lo + 1 + i * (nd + np) + nd + k) = 0 \<and> c = d)) a b [0..<np])
      (lo + 1 + p_count src * (nd + np)) hi [0..<p_count src]\<rbrakk> \<Longrightarrow>
    copied m W lo hi slot src"

lemma copied_le: "copied m W lo hi slot src \<Longrightarrow> lo \<le> hi"
proof (induction rule: copied.induct)
  case (copied_struct src nd np slot lo hi)
  then have "lo + nd + np \<le> hi" by (elim chain_le [rotated]) auto
  then show ?case by simp
next
  case (copied_refs src slot lo hi)
  then have "lo + p_count src \<le> hi" by (elim chain_le [rotated]) auto
  then show ?case by simp
next
  case (copied_elems src nd np slot lo hi)
  have "lo + 1 + p_count src * (nd + np) \<le> hi"
    by (rule chain_le [OF _ copied_elems(6)]) (auto elim!: chain_le [rotated])
  then show ?case by simp
qed simp_all

lemma chain_bounded:
  assumes "chain P lo hi ks" and le: "\<And>k a b. P k a b \<Longrightarrow> a \<le> b"
    and Q: "\<And>k a b. \<lbrakk>k \<in> set ks; lo \<le> a; b \<le> hi; P k a b\<rbrakk> \<Longrightarrow> Q k a b"
  shows "chain Q lo hi ks"
  using assms(1) Q
proof (induction ks arbitrary: lo)
  case (Cons k ks)
  then obtain mid where m: "P k lo mid" "chain P mid hi ks" by auto
  have "mid \<le> hi" "lo \<le> mid" using chain_le [OF le m(2)] le [OF m(1)] by auto
  then have "chain Q mid hi ks" "Q k lo mid" using Cons.IH [OF m(2)] Cons.prems(2) m(1) by auto
  then show ?case by auto
qed simp

text \<open>The encoding only depends on the slot and its own words.\<close>

lemma copied_agree:
  "\<lbrakk>copied m W lo hi slot src; W' slot = W slot; \<And>i. lo \<le> i \<Longrightarrow> i < hi \<Longrightarrow> W' i = W i\<rbrakk> \<Longrightarrow> copied m W' lo hi slot src"
proof (induction rule: copied.induct)
  case (copied_null src slot lo)
  then show ?case by (simp add: copied.copied_null)
next
  case (copied_empty src slot lo)
  then show ?case by (simp add: copied.copied_empty)
next
  case (copied_struct src nd np slot lo hi)
  note ch = copied_struct.IH(1)
  have le: "lo + nd + np \<le> hi" using ch by (elim chain_le [rotated]) (auto dest: copied_le)
  have W: "W' i = W i" if "lo \<le> i" "i < hi" for i using copied_struct.prems(2) that .
  show ?case
  proof (rule copied.copied_struct [OF copied_struct.hyps(1-3)])
    show "W' slot = capnp_wp_make_struct (near_off lo slot) nd np" using copied_struct.hyps(4) copied_struct.prems(1) by simp
    show "body_words m W' lo nd src" using copied_struct.hyps(5) W le by (simp add: body_words_def)
    show "chain (\<lambda>k a b. (k < p_pwords src \<longrightarrow> (\<exists>q. child m src k q \<and> copied m W' a b (lo + nd + k) q)) \<and>
        (\<not> k < p_pwords src \<longrightarrow> W' (lo + nd + k) = 0 \<and> a = b)) (lo + nd + np) hi [0..<np]"
    proof (rule chain_bounded [OF ch], goal_cases)
      case 1
      then show ?case by (auto dest: copied_le)
    next
      case (2 k a b)
      then have "W' (lo + nd + k) = W (lo + nd + k)" using le by (intro W) auto
      moreover have "W' i = W i" if "a \<le> i" "i < b" for i using 2 that by (intro W) auto
      ultimately show ?case using 2 by auto
    qed
  qed
next
  case (copied_prim src bits n slot lo bytes)
  then show ?case by (intro copied.copied_prim) auto
next
  case (copied_refs src slot lo hi)
  note ch = copied_refs.IH(1)
  have le: "lo + p_count src \<le> hi" using ch by (elim chain_le [rotated]) (auto dest: copied_le)
  have W: "W' i = W i" if "lo \<le> i" "i < hi" for i using copied_refs.prems(2) that .
  show ?case
  proof (rule copied.copied_refs [OF copied_refs.hyps(1,2)])
    show "W' slot = capnp_wp_make_list (near_off (if p_count src = 0 then slot + 1 else lo) slot) SZ_PTR (p_count src)"
      using copied_refs.hyps(3) copied_refs.prems(1) by simp
    show "chain (\<lambda>i a b. \<exists>q. elem m src i q \<and> copied m W' a b (lo + i) q) (lo + p_count src) hi [0..<p_count src]"
    proof (rule chain_bounded [OF ch], goal_cases)
      case 1
      then show ?case by (auto dest: copied_le)
    next
      case (2 k a b)
      then have "W' (lo + k) = W (lo + k)" using le by (intro W) auto
      moreover have "W' i = W i" if "a \<le> i" "i < b" for i using 2 that by (intro W) auto
      ultimately show ?case using 2 by auto
    qed
  qed
next
  case (copied_elems src nd np slot lo hi)
  note ch = copied_elems.IH(1)
  let ?s = "nd + np" and ?n = "p_count src"
  have le: "lo + 1 + ?n * ?s \<le> hi"
    by (rule chain_le [OF _ ch]) (auto elim!: chain_le [rotated] dest: copied_le)
  have W: "W' i = W i" if "lo \<le> i" "i < hi" for i using copied_elems.prems(2) that .
  show ?case
  proof (rule copied.copied_elems [OF copied_elems.hyps(1-3)])
    show "W' slot = capnp_wp_make_list (near_off lo slot) SZ_COMPOSITE (?n * ?s mod 2 ^ 32)"
      using copied_elems.hyps(4) copied_elems.prems(1) by simp
    show "W' lo = capnp_wp_make_struct (int ?n) nd np" using copied_elems.hyps(5) W [of lo] le by simp
    show "chain (\<lambda>i a b. \<exists>el. elem m src i el \<and> body_words m W' (lo + 1 + i * ?s) nd el \<and>
        chain (\<lambda>k c d. (k < p_pwords el \<longrightarrow> (\<exists>q. child m el k q \<and> copied m W' c d (lo + 1 + i * ?s + nd + k) q)) \<and>
            (\<not> k < p_pwords el \<longrightarrow> W' (lo + 1 + i * ?s + nd + k) = 0 \<and> c = d)) a b [0..<np])
      (lo + 1 + ?n * ?s) hi [0..<?n]"
    proof (rule chain_bounded [OF ch], goal_cases)
      case 1
      then show ?case by (auto elim!: chain_le [rotated] dest: copied_le)
    next
      case (2 i a b)
      then have "i * ?s + ?s \<le> ?n * ?s" using mult_le_mono1 [of "i + 1" ?n ?s] by simp
      then have e: "lo + 1 + i * ?s + ?s \<le> hi" using le by simp
      obtain el where el: "elem m src i el" "body_words m W (lo + 1 + i * ?s) nd el"
        "chain (\<lambda>k c d. (k < p_pwords el \<longrightarrow> (\<exists>q. child m el k q \<and> (copied m W c d (lo + 1 + i * ?s + nd + k) q \<and>
              (W' (lo + 1 + i * ?s + nd + k) = W (lo + 1 + i * ?s + nd + k) \<longrightarrow>
               (\<forall>x. c \<le> x \<longrightarrow> x < d \<longrightarrow> W' x = W x) \<longrightarrow> copied m W' c d (lo + 1 + i * ?s + nd + k) q)))) \<and>
            (\<not> k < p_pwords el \<longrightarrow> W (lo + 1 + i * ?s + nd + k) = 0 \<and> c = d)) a b [0..<np]"
        using 2(4) by blast
      have "body_words m W' (lo + 1 + i * ?s) nd el"
        using el(2) W e by (simp add: body_words_def)
      moreover have "chain (\<lambda>k c d. (k < p_pwords el \<longrightarrow> (\<exists>q. child m el k q \<and> copied m W' c d (lo + 1 + i * ?s + nd + k) q)) \<and>
            (\<not> k < p_pwords el \<longrightarrow> W' (lo + 1 + i * ?s + nd + k) = 0 \<and> c = d)) a b [0..<np]"
      proof (rule chain_bounded [OF el(3)], goal_cases)
        case 1
        then show ?case by (auto dest: copied_le)
      next
        case k: (2 k c d)
        then have "W' (lo + 1 + i * ?s + nd + k) = W (lo + 1 + i * ?s + nd + k)" using e by (intro W) auto
        moreover have "W' x = W x" if "c \<le> x" "x < d" for x using k 2 that by (intro W) auto
        ultimately show ?case using k by auto
      qed
      ultimately show ?case using el(1) by blast
    qed
  qed
qed

section \<open>What a copy does to the segments\<close>

text \<open>Every word stays, except those in \<open>S\<close> (pairs of segment and word).\<close>

definition keeps :: "byte list list \<Rightarrow> (nat \<times> nat) set \<Rightarrow> byte list list \<Rightarrow> bool" where
  "keeps segs S segs' \<longleftrightarrow>
     (\<forall>i w. has_word segs i w \<longrightarrow> has_word segs' i w \<and> ((i, w) \<notin> S \<longrightarrow> word_at segs' i w = word_at segs i w))"

definition used :: "byte list list \<Rightarrow> nat \<Rightarrow> nat" where
  "used segs seg = length (segs ! seg) div 8"

lemma keepsD:
  "keeps segs S segs' \<Longrightarrow> has_word segs i w \<Longrightarrow> has_word segs' i w"
  "keeps segs S segs' \<Longrightarrow> has_word segs i w \<Longrightarrow> (i, w) \<notin> S \<Longrightarrow> word_at segs' i w = word_at segs i w"
  by (auto simp: keeps_def)

lemma keeps_refl [simp]: "keeps segs S segs"
  by (simp add: keeps_def)

lemma keeps_trans:
  "\<lbrakk>keeps s0 S1 s1; keeps s1 S2 s2; S1 \<subseteq> S; \<And>i w. (i, w) \<in> S2 \<Longrightarrow> has_word s0 i w \<Longrightarrow> (i, w) \<in> S\<rbrakk> \<Longrightarrow> keeps s0 S s2"
  unfolding keeps_def by (metis subsetD)

lemma keeps_mono: "keeps s0 S s1 \<Longrightarrow> S \<subseteq> T \<Longrightarrow> keeps s0 T s1"
  by (auto simp: keeps_def)

lemma keeps_only_range: "only_range segs seg (w * 8) 8 segs' \<Longrightarrow> keeps segs {(seg, w)} segs'"
  unfolding keeps_def
proof (intro allI impI)
  fix i v assume o: "only_range segs seg (w * 8) 8 segs'" and h: "has_word segs i v"
  note r = h [unfolded has_word_def]
  show "has_word segs' i v \<and> ((i, v) \<notin> {(seg, w)} \<longrightarrow> word_at segs' i v = word_at segs i v)"
  proof (intro conjI impI)
    show "has_word segs' i v" using only_rangeD(1) [OF o r] by (simp add: has_word_def)
    assume "(i, v) \<notin> {(seg, w)}"
    then have "i \<noteq> seg \<or> v * 8 + 8 \<le> w * 8 \<or> w * 8 + 8 \<le> v * 8" by auto
    then show "word_at segs' i v = word_at segs i v" using only_rangeD(2) [OF o r] by (simp add: word_at_def)
  qed
qed

lemma keeps_fresh: "fresh segs n segs' seg word \<Longrightarrow> keeps segs S segs'"
  using segs_le_word [OF fresh_le] by (auto simp: keeps_def)

lemma has_word_used: "seg < length segs \<Longrightarrow> has_word segs seg w \<longleftrightarrow> w < used segs seg"
  by (auto simp: has_word_def in_range_def used_def less_eq_div_iff_mult_less_eq Suc_le_eq [symmetric])

lemma used_update: "map length segs' = map length segs \<Longrightarrow> used segs' seg = used segs seg"
  if "seg < length segs" by (metis length_map nth_map that used_def)

lemma same_lengths_word:
  "map length segs' = map length segs \<Longrightarrow> has_word segs' seg w \<longleftrightarrow> has_word segs seg w"
  unfolding has_word_def in_range_def by (metis length_map nth_map)

text \<open>A store of one word.\<close>

lemma store_keeps:
  assumes "builder_inv b" "has_word (segs_of b) seg w"
  obtains b' where "store_w b seg w v = Some b'" "builder_inv b'" "map length (segs_of b') = map length (segs_of b)"
    "keeps (segs_of b) {(seg, w)} (segs_of b')" "word_at (segs_of b') seg w = v"
proof -
  obtain b' where b': "store_w b seg w v = Some b'" "builder_inv b'" "segs_of b' = put_word (segs_of b) seg w v"
    using store_w_ok [OF assms, of v] by blast
  have "map length (segs_of b') = map length (segs_of b)"
    using assms(2) unfolding b'(3) put_word_def has_word_def
    by (intro nth_equalityI) (simp_all add: length_put_nth)
  moreover have "keeps (segs_of b) {(seg, w)} (segs_of b')"
    unfolding b'(3) by (rule keeps_only_range [OF only_range_put_word [OF assms(2)]])
  moreover have "word_at (segs_of b') seg w = v" unfolding b'(3) by (simp add: word_at_put_word [OF assms(2,2)])
  ultimately show ?thesis using that b'(1,2) by blast
qed

text \<open>\<open>alloc_local\<close> at the end of the last segment.\<close>

lemma alloc_local_shape:
  "alloc_local A b n = Some (r, b', seg, word) \<Longrightarrow>
   length (bsegs b') = length (bsegs b) \<and> (r = CAPNP_OK \<longrightarrow> seg = length (bsegs b) - 1) \<and>
   r \<in> {CAPNP_OK, CAPNP_ERR_ALLOC, CAPNP_ERR_ARG} \<and> (bsegs b \<noteq> [] \<longrightarrow> r \<noteq> CAPNP_ERR_ARG)"
  by (auto simp: alloc_local_def Let_def use_words_def split: if_splits option.splits bind_splits)

lemma alloc_local_cases:
  assumes as: "address_space A" and inv: "builder_inv b" and ne: "bsegs b \<noteq> []"
  obtains (fail) b' s w where "alloc_local A b n = Some (CAPNP_ERR_ALLOC, b', s, w)" "builder_inv b'"
      "length (bsegs b') = length (bsegs b)" "segs_of b' = segs_of b"
  | (ok) b' seg word where "alloc_local A b n = Some (CAPNP_OK, b', seg, word)" "builder_inv b'"
      "length (bsegs b') = length (bsegs b)" "seg = length (bsegs b) - 1" "word = used (segs_of b) seg"
      "used (segs_of b') seg = word + n" "fresh (segs_of b) n (segs_of b') seg word"
proof -
  obtain r b' seg word where a: "alloc_local A b n = Some (r, b', seg, word)"
    using local.alloc_total [OF as inv ne, of n] by auto
  note sh = alloc_local_shape [OF a]
  show ?thesis
  proof (cases "r = CAPNP_OK")
    case True
    then have f: "builder_inv b'" "fresh (segs_of b) n (segs_of b') seg word"
      using local.alloc_ok [OF as inv a [unfolded True]] by auto
    have "seg < length (bsegs b)" using sh True ne by (simp add: Suc_pred)
    then have "length (segs_of b ! seg) = word * 8" using f(2) by (auto simp: fresh_def)
    then have "word = used (segs_of b) seg" "used (segs_of b') seg = word + n"
      using fresh_zero(2) [OF f(2)] by (simp_all add: used_def)
    then show ?thesis using a True f sh by (intro ok [of b' seg word]) auto
  next
    case False
    then show ?thesis using local.alloc_fail [OF as inv a False] a sh ne by (intro fail [of b' seg word]) auto
  qed
qed

section \<open>The contract of a copy\<close>

definition result :: "message \<Rightarrow> builder \<Rightarrow> nat \<Rightarrow> (nat \<times> nat) set \<Rightarrow> ((nat \<Rightarrow> u64) \<Rightarrow> nat \<Rightarrow> bool) \<Rightarrow>
    (rc \<times> message \<times> builder) option \<Rightarrow> bool" where
  "result m b seg S Q R \<longleftrightarrow>
     (\<exists>r t b'. R = Some (r, at m t, b') \<and> r \<in> {CAPNP_OK, CAPNP_ERR_KIND, CAPNP_ERR_ALLOC, CAPNP_ERR_DEPTH} \<and>
        builder_inv b' \<and> length (bsegs b') = length (bsegs b) \<and> keeps (segs_of b) S (segs_of b') \<and>
        (r = CAPNP_OK \<and> seg = length (bsegs b) - 1 \<longrightarrow> Q (word_at (segs_of b') seg) (used (segs_of b') seg)))"

definition copies :: "message \<Rightarrow> builder \<Rightarrow> nat \<Rightarrow> nat \<Rightarrow> ptr \<Rightarrow> (rc \<times> message \<times> builder) option \<Rightarrow> bool" where
  "copies m b seg slot src R \<longleftrightarrow>
     result m b seg {(seg, slot)} (\<lambda>W hi. copied m W (used (segs_of b) seg) hi slot src) R"

lemma result_fail:
  "\<lbrakk>r \<in> {CAPNP_ERR_KIND, CAPNP_ERR_ALLOC, CAPNP_ERR_DEPTH}; builder_inv b'; length (bsegs b') = length (bsegs b);
    keeps (segs_of b) S (segs_of b')\<rbrakk> \<Longrightarrow> result m b seg S Q (Some (r, at m t, b'))"
  by (auto simp: result_def)

lemma result_OK:
  "\<lbrakk>builder_inv b'; length (bsegs b') = length (bsegs b); keeps (segs_of b) S (segs_of b');
    seg = length (bsegs b) - 1 \<Longrightarrow> Q (word_at (segs_of b') seg) (used (segs_of b') seg)\<rbrakk> \<Longrightarrow>
   result m b seg S Q (Some (CAPNP_OK, at m t, b'))"
  by (auto simp: result_def)

lemma resultE:
  assumes "result m b seg S Q R"
  obtains r t b' where "R = Some (r, at m t, b')" "builder_inv b'" "length (bsegs b') = length (bsegs b)"
    "keeps (segs_of b) S (segs_of b')" "r \<in> {CAPNP_OK, CAPNP_ERR_KIND, CAPNP_ERR_ALLOC, CAPNP_ERR_DEPTH}"
    "r = CAPNP_OK \<Longrightarrow> seg = length (bsegs b) - 1 \<Longrightarrow> Q (word_at (segs_of b') seg) (used (segs_of b') seg)"
  using assms by (auto simp: result_def)

text \<open>The rest of a copy, after its first part led from \<open>b\<close> to \<open>b1\<close>.\<close>

lemma result_after:
  assumes len: "length (bsegs b1) = length (bsegs b)" "seg < length (bsegs b)"
    and k1: "keeps (segs_of b) S1 (segs_of b1)" "S1 \<subseteq> S"
    and rest: "result m b1 seg' S2 Q2 R" "\<And>i w. (i, w) \<in> S2 \<Longrightarrow> has_word (segs_of b) i w \<Longrightarrow> (i, w) \<in> S"
    and seg: "seg = length (bsegs b) - 1 \<Longrightarrow> seg' = seg"
    and Q: "\<And>W hi. \<lbrakk>seg = length (bsegs b) - 1; Q2 W hi;
      \<And>w. w < used (segs_of b1) seg \<Longrightarrow> (seg, w) \<notin> S2 \<Longrightarrow> W w = word_at (segs_of b1) seg w\<rbrakk> \<Longrightarrow> Q W hi"
  shows "result m b seg S Q R"
proof -
  obtain r t b' where R: "R = Some (r, at m t, b')" "builder_inv b'" "length (bsegs b') = length (bsegs b1)"
    "keeps (segs_of b1) S2 (segs_of b')" "r \<in> {CAPNP_OK, CAPNP_ERR_KIND, CAPNP_ERR_ALLOC, CAPNP_ERR_DEPTH}"
    "r = CAPNP_OK \<Longrightarrow> seg' = length (bsegs b1) - 1 \<Longrightarrow> Q2 (word_at (segs_of b') seg') (used (segs_of b') seg')"
    using resultE [OF rest(1)] by metis
  have "Q (word_at (segs_of b') seg) (used (segs_of b') seg)" if "r = CAPNP_OK" "seg = length (bsegs b) - 1"
  proof (rule Q [OF that(2)])
    show "Q2 (word_at (segs_of b') seg) (used (segs_of b') seg)" using R(6) that seg len by simp
    show "word_at (segs_of b') seg w = word_at (segs_of b1) seg w"
      if "w < used (segs_of b1) seg" "(seg, w) \<notin> S2" for w
      using keepsD(2) [OF R(4)] that has_word_used [of seg "segs_of b1" w] len by simp
  qed
  moreover have "keeps (segs_of b) S (segs_of b')" by (rule keeps_trans [OF k1(1) R(4) k1(2) rest(2)])
  ultimately show ?thesis using R len by (auto simp: result_def)
qed

end
