(* ===== verification/CanonProps.thy ===== *)
theory CanonProps
  imports CanonSpec
begin

text \<open>
  The deep copy refines its specification. The locale \<open>deep_copy\<close> is the contract of a (recursive)
  copy; each function of theory \<open>Canonical\<close> keeps it (\<open>step_copies\<close>), so \<open>copy_ptr\<close> satisfies it at every
  depth, which is the interpretation at the end.
\<close>

section \<open>Data words\<close>

lemma data_words:
  assumes m: "wf_message m" and src: "tracked m src"
  shows "\<lbrakk>builder_inv b; \<forall>i \<in> set is. has_word (segs_of b) seg (body + i); distinct is\<rbrakk> \<Longrightarrow>
    \<exists>b'. write_data_words (at m t) b seg body src is = Some b' \<and> builder_inv b' \<and>
      map length (segs_of b') = map length (segs_of b) \<and> keeps (segs_of b) ((\<lambda>i. (seg, body + i)) ` set is) (segs_of b') \<and>
      (\<forall>j \<in> set is. (if j < p_dwords src then capnp_get_u64 m src (j * 8) 0 else Some 0) = Some (word_at (segs_of b') seg (body + j)))"
proof (induction "is" arbitrary: b)
  case (Cons i "is")
  have "capnp_get_u64 m src (i * 8) 0 \<noteq> None"
    using getters_total(4) [OF m well_placed_view_ok [OF m trackedD(1) [OF src]]] by simp
  then obtain v where v: "(if i < p_dwords src then capnp_get_u64 m src (i * 8) 0 else Some 0) = Some v"
    by (cases "i < p_dwords src") auto
  have h: "has_word (segs_of b) seg (body + i)" using Cons.prems(2) by simp
  obtain b1 where b1: "store_w b seg (body + i) v = Some b1" "builder_inv b1" "map length (segs_of b1) = map length (segs_of b)"
    "keeps (segs_of b) {(seg, body + i)} (segs_of b1)" "word_at (segs_of b1) seg (body + i) = v"
    by (rule store_keeps [OF Cons.prems(1) h])
  have h1: "\<forall>i \<in> set is. has_word (segs_of b1) seg (body + i)"
    using Cons.prems(2) same_lengths_word [OF b1(3)] by simp
  obtain b' where b': "write_data_words (at m t) b1 seg body src is = Some b'" "builder_inv b'"
    "map length (segs_of b') = map length (segs_of b1)" "keeps (segs_of b1) ((\<lambda>i. (seg, body + i)) ` set is) (segs_of b')"
    "\<forall>j \<in> set is. (if j < p_dwords src then capnp_get_u64 m src (j * 8) 0 else Some 0) = Some (word_at (segs_of b') seg (body + j))"
    using Cons.IH [OF b1(2) h1] Cons.prems(3) by auto
  have "(seg, body + i) \<notin> (\<lambda>i. (seg, body + i)) ` set is" using Cons.prems(3) by auto
  then have "word_at (segs_of b') seg (body + i) = v"
    using keepsD(2) [OF b'(4) keepsD(1) [OF b1(4) h]] b1(5) by simp
  moreover have "keeps (segs_of b) ((\<lambda>i. (seg, body + i)) ` set (i # is)) (segs_of b')"
    by (rule keeps_trans [OF b1(4) b'(4)]) auto
  moreover have "write_data_words (at m t) b seg body src (i # is) = Some b'"
    using v b1(1) b'(1) by (cases "i < p_dwords src") simp_all
  ultimately show ?case using b'(2,3,5) b1(3) v by auto
qed simp

lemma struct_body_data:
  assumes "wf_message m" "tracked m src" "builder_inv b" "\<forall>i < nd. has_word (segs_of b) seg (body + i)"
  obtains b' where "write_struct_body_data (at m t) b seg body nd src = Some b'" "builder_inv b'"
    "map length (segs_of b') = map length (segs_of b)" "keeps (segs_of b) ((\<lambda>i. (seg, body + i)) ` {..<nd}) (segs_of b')"
    "body_words m (word_at (segs_of b') seg) body nd src"
  using data_words [OF assms(1-3), of "[0..<nd]" seg body t] assms(4)
  by (auto simp: write_struct_body_data_def body_words_def lessThan_atLeast0)

section \<open>The recursive copy\<close>

abbreviation slot_copied :: "message \<Rightarrow> (nat \<Rightarrow> u64) \<Rightarrow> nat \<Rightarrow> ptr \<Rightarrow> nat \<Rightarrow> nat \<Rightarrow> nat \<Rightarrow> bool" where
  "slot_copied m W slots src \<equiv> (\<lambda>k a b. (k < p_pwords src \<longrightarrow> (\<exists>q. child m src k q \<and> copied m W a b (slots + k) q)) \<and>
     (\<not> k < p_pwords src \<longrightarrow> W (slots + k) = 0 \<and> a = b))"

lemma stays_store: "(\<And>x. v = Some x \<Longrightarrow> stays m n (f x)) \<Longrightarrow> stays m n (v \<bind> f)" for v :: "builder option"
  by (rule stays_value)

locale deep_copy =
  fixes rec :: "allocator \<Rightarrow> copier"
  assumes rec_copies: "\<lbrakk>address_space A; wf_message m; tracked m src; builder_inv b; has_word (segs_of b) seg slot\<rbrakk> \<Longrightarrow>
    copies m b seg slot src (rec A (at m t) b seg slot src)"
    and rec_stays: "t \<le> n \<Longrightarrow> stays m n (rec A (at m t) b seg slot src)"
begin

text \<open>A copy gains no budget, and a loop that succeeds has read every pointer.\<close>

lemma stays_rec_bind:
  "\<lbrakk>t \<le> n; \<And>r t x. t \<le> n \<Longrightarrow> stays m n (F (r, at m t, x))\<rbrakk> \<Longrightarrow> stays m n (rec A (at m t) b seg slot src \<bind> F)"
  by (rule stays_bind [OF rec_stays])

lemma stays_children: "t \<le> n \<Longrightarrow> stays m n (copy_children (rec A) (at m t) b seg slots src ks)"
proof (induction ks arbitrary: t b)
  case (Cons k ks)
  then show ?case
    by (auto intro!: stays_store stays_bind [OF stays_getp] stays_rec_bind)
qed simp

lemma stays_refs: "t \<le> n \<Longrightarrow> stays m n (copy_refs (rec A) (at m t) b seg start l is)"
proof (induction "is" arbitrary: t b)
  case (Cons i "is")
  then show ?case by (auto intro!: stays_bind [OF stays_list_getp] stays_rec_bind)
qed simp

lemma stays_elems: "t \<le> n \<Longrightarrow> stays m n (copy_elems (rec A) (at m t) b seg first nd np l is)"
proof (induction "is" arbitrary: t b)
  case (Cons i "is")
  then show ?case by (auto intro!: stays_bind [OF stays_list_getp] stays_store stays_bind [OF stays_children])
qed simp

lemma children_read:
  "\<lbrakk>copy_children (rec A) (at m t) b seg slots src ks = Some (CAPNP_OK, m', b'); t \<le> n\<rbrakk> \<Longrightarrow>
   \<forall>k \<in> set ks. k < p_pwords src \<longrightarrow> readable m n src k"
proof (induction ks arbitrary: t b)
  case (Cons k ks)
  show ?case
  proof (cases "k < p_pwords src")
    case False
    then obtain b1 where "copy_children (rec A) (at m t) b1 seg slots src ks = Some (CAPNP_OK, m', b')"
      using Cons.prems(1) by (auto split: bind_splits)
    from Cons.IH [OF this Cons.prems(2)] False show ?thesis by simp
  next
    case True
    obtain r t1 q where g: "capnp_getp (at m t) src k ptr0 = Some (r, at m t1, q)" "t1 \<le> t"
      using Cons.prems(1) True stays_getp [of t t m src k ptr0]
      by (cases "capnp_getp (at m t) src k ptr0") (auto elim!: staysE)
    have r: "r = CAPNP_OK" using Cons.prems(1) True g(1) by (auto split: if_splits)
    obtain r2 t2 b2 where c: "rec A (at m t1) b seg (slots + k) q = Some (r2, at m t2, b2)" "t2 \<le> t1"
      using Cons.prems(1) True g(1) r rec_stays [of t1 t1 m A b seg "slots + k" q]
      by (cases "rec A (at m t1) b seg (slots + k) q") (auto elim!: staysE)
    have "copy_children (rec A) (at m t2) b2 seg slots src ks = Some (CAPNP_OK, m', b')"
      using Cons.prems(1) True g(1) r c(1) by (auto split: if_splits)
    from Cons.IH [OF this] have "\<forall>k \<in> set ks. k < p_pwords src \<longrightarrow> readable m n src k"
      using Cons.prems(2) g(2) c(2) by simp
    moreover have "readable m n src k" using g r Cons.prems(2) by (auto simp: readable_def)
    ultimately show ?thesis by simp
  qed
qed simp

lemma elems_read:
  "\<lbrakk>copy_elems (rec A) (at m t) b seg first nd np l is = Some (CAPNP_OK, m', b'); t \<le> n\<rbrakk> \<Longrightarrow>
   \<forall>i \<in> set is. \<exists>t1 \<le> n. \<exists>m' el. capnp_list_getp (at m t1) l i ptr0 = Some (CAPNP_OK, m', el) \<and>
     (\<forall>k < np. k < p_pwords el \<longrightarrow> readable m n el k)"
proof (induction "is" arbitrary: t b)
  case (Cons i "is")
  let ?at = "first + i * (nd + np)"
  obtain r t1 el where g: "capnp_list_getp (at m t) l i ptr0 = Some (r, at m t1, el)" "t1 \<le> t"
    using Cons.prems(1) stays_list_getp [of t t m l i ptr0]
    by (cases "capnp_list_getp (at m t) l i ptr0") (auto elim!: staysE)
  have r: "r = CAPNP_OK" using Cons.prems(1) g(1) by (auto split: if_splits)
  obtain b1 where b1: "write_struct_body_data (at m t1) b seg ?at nd el = Some b1"
    using Cons.prems(1) g(1) r by (auto split: bind_splits)
  obtain r2 t2 b2 where c: "copy_children (rec A) (at m t1) b1 seg (?at + nd) el [0..<np] = Some (r2, at m t2, b2)" "t2 \<le> t1"
    using Cons.prems(1) g(1) r b1 stays_children [of t1 t1 m A b1 seg "?at + nd" el "[0..<np]"]
    by (cases "copy_children (rec A) (at m t1) b1 seg (?at + nd) el [0..<np]") (auto elim!: staysE)
  have r2: "r2 = CAPNP_OK" and rest: "copy_elems (rec A) (at m t2) b2 seg first nd np l is = Some (CAPNP_OK, m', b')"
    using Cons.prems(1) g(1) r b1 c(1) by (auto split: if_splits)
  have "\<forall>k \<in> set [0..<np]. k < p_pwords el \<longrightarrow> readable m n el k"
    using children_read [OF c(1) [unfolded r2], of n] g(2) Cons.prems(2) by simp
  then show ?case using g r Cons.IH [OF rest] c(2) Cons.prems(2) by force
qed simp


text \<open>One copy inside a loop: what the recursive call gives, and what survives the rest.\<close>

lemma rec_then:
  assumes as: "address_space A" and m: "wf_message m" and q: "tracked m q" and inv: "builder_inv b"
    and slot: "has_word (segs_of b) seg slot" and new: "\<And>w. (seg, w) \<in> S2 \<Longrightarrow> has_word (segs_of b) seg w \<and> w \<noteq> slot"
    and only: "\<And>i w. (i, w) \<in> S2 \<Longrightarrow> i = seg"
    and rest: "\<And>t b1. \<lbrakk>builder_inv b1; length (bsegs b1) = length (bsegs b); keeps (segs_of b) {(seg, slot)} (segs_of b1)\<rbrakk> \<Longrightarrow>
      result m b1 seg S2 (\<lambda>W hi. chain (P W) (used (segs_of b1) seg) hi ks) (F (at m t) b1)"
    and P: "\<And>W a c. seg = length (bsegs b) - 1 \<Longrightarrow> copied m W a c slot q \<Longrightarrow> P W k a c"
  shows "result m b seg (insert (seg, slot) S2) (\<lambda>W hi. chain (P W) (used (segs_of b) seg) hi (k # ks))
    (do { (r, m, b) \<leftarrow> rec A (at m t) b seg slot q; if r \<noteq> CAPNP_OK then Some (CAPNP_ERR_ALLOC, m, b) else F m b })"
proof -
  obtain r t1 b1 where r: "rec A (at m t) b seg slot q = Some (r, at m t1, b1)" "builder_inv b1"
    "length (bsegs b1) = length (bsegs b)" "keeps (segs_of b) {(seg, slot)} (segs_of b1)"
    "r = CAPNP_OK \<Longrightarrow> seg = length (bsegs b) - 1 \<Longrightarrow>
      copied m (word_at (segs_of b1) seg) (used (segs_of b) seg) (used (segs_of b1) seg) slot q"
    using resultE [OF rec_copies [OF as m q inv slot, of t, unfolded copies_def]] by metis
  have seg: "seg < length (bsegs b)" using slot by (simp add: has_word_def in_range_def)
  show ?thesis
  proof (cases "r = CAPNP_OK")
    case False
    then show ?thesis using r by (simp add: result_fail keeps_mono [OF r(4)])
  next
    case True
    have "result m b seg (insert (seg, slot) S2) (\<lambda>W hi. chain (P W) (used (segs_of b) seg) hi (k # ks)) (F (at m t1) b1)"
    proof (rule result_after [OF r(3) seg r(4) _ rest [OF r(2-4)]])
      fix W hi
      assume L: "seg = length (bsegs b) - 1" and c: "chain (P W) (used (segs_of b1) seg) hi ks"
        and W: "\<And>w. w < used (segs_of b1) seg \<Longrightarrow> (seg, w) \<notin> S2 \<Longrightarrow> W w = word_at (segs_of b1) seg w"
      have lt: "w < used (segs_of b1) seg" if "has_word (segs_of b) seg w" for w
        using keepsD(1) [OF r(4) that] has_word_used [of seg "segs_of b1" w] seg r(3) by simp
      have "copied m W (used (segs_of b) seg) (used (segs_of b1) seg) slot q"
      proof (rule copied_agree [OF r(5) [OF True L]])
        show "W slot = word_at (segs_of b1) seg slot" using new by (intro W lt slot) auto
        show "W i = word_at (segs_of b1) seg i" if "used (segs_of b) seg \<le> i" "i < used (segs_of b1) seg" for i
          using new [of i] that has_word_used [of seg "segs_of b" i] seg by (intro W) auto
      qed
      then show "chain (P W) (used (segs_of b) seg) hi (k # ks)" using P [OF L] c by auto
    qed auto
    then show ?thesis using r(1) True by simp
  qed
qed

lemma children:
  assumes as: "address_space A" and m: "wf_message m" and src: "tracked m src"
  shows "\<lbrakk>builder_inv b; \<forall>k \<in> set ks. has_word (segs_of b) seg (slots + k); distinct ks; seg < length (bsegs b)\<rbrakk> \<Longrightarrow>
    result m b seg ((\<lambda>k. (seg, slots + k)) ` set ks) (\<lambda>W hi. chain (slot_copied m W slots src) (used (segs_of b) seg) hi ks)
      (copy_children (rec A) (at m t) b seg slots src ks)"
proof (induction ks arbitrary: b t)
  case Nil
  then show ?case by (auto intro!: result_OK)
next
  case (Cons k ks)
  let ?S = "(\<lambda>k. (seg, slots + k)) ` set ks" and ?slot = "slots + k"
  have h: "has_word (segs_of b) seg ?slot" using Cons.prems(2) by simp
  have S: "(\<lambda>k. (seg, slots + k)) ` set (k # ks) = insert (seg, ?slot) ?S" by simp
  show ?case
  proof (cases "k < p_pwords src")
    case True
    obtain r t1 q where g: "capnp_getp (at m t) src k ptr0 = Some (r, at m t1, q)" "r = CAPNP_OK \<Longrightarrow> tracked m q"
      using getp_at [OF m src] by blast
    show ?thesis
    proof (cases "r = CAPNP_OK")
      case False
      then show ?thesis using True g Cons.prems by (simp add: result_fail)
    next
      case r: True
      have c: "child m src k q" using g(1) r by (auto simp: child_def)
      have "result m b seg (insert (seg, ?slot) ?S) (\<lambda>W hi. chain (slot_copied m W slots src) (used (segs_of b) seg) hi (k # ks))
        (do { (r, m, b) \<leftarrow> rec A (at m t1) b seg ?slot q;
              if r \<noteq> CAPNP_OK then Some (CAPNP_ERR_ALLOC, m, b) else copy_children (rec A) m b seg slots src ks })"
      proof (rule rec_then [OF as m g(2) [OF r] Cons.prems(1) h])
        fix t b1 assume b1: "builder_inv b1" "length (bsegs b1) = length (bsegs b)" "keeps (segs_of b) {(seg, ?slot)} (segs_of b1)"
        show "result m b1 seg ?S (\<lambda>W hi. chain (slot_copied m W slots src) (used (segs_of b1) seg) hi ks)
          (copy_children (rec A) (at m t) b1 seg slots src ks)"
          using Cons.prems keepsD(1) [OF b1(3)] b1(2) by (intro Cons.IH [OF b1(1)]) auto
      qed (use Cons.prems c True in auto)
      then show ?thesis unfolding S using True g(1) r by simp
    qed
  next
    case False
    obtain b1 where b1: "store_w b seg ?slot 0 = Some b1" "builder_inv b1" "map length (segs_of b1) = map length (segs_of b)"
      "keeps (segs_of b) {(seg, ?slot)} (segs_of b1)" "word_at (segs_of b1) seg ?slot = 0"
      by (rule store_keeps [OF Cons.prems(1) h])
    have len: "length (bsegs b1) = length (bsegs b)" using b1(3) by (metis length_map length_segs_of)
    have u: "used (segs_of b1) seg = used (segs_of b) seg" using used_update [OF _ b1(3)] Cons.prems(4) by simp
    have lt: "?slot < used (segs_of b) seg" using h has_word_used [of seg "segs_of b"] Cons.prems(4) by simp
    have rest: "result m b1 seg ?S (\<lambda>W hi. chain (slot_copied m W slots src) (used (segs_of b1) seg) hi ks)
        (copy_children (rec A) (at m t) b1 seg slots src ks)"
      using Cons.prems same_lengths_word [OF b1(3)] len by (intro Cons.IH [OF b1(2)]) auto
    have "result m b seg (insert (seg, ?slot) ?S) (\<lambda>W hi. chain (slot_copied m W slots src) (used (segs_of b) seg) hi (k # ks))
        (copy_children (rec A) (at m t) b1 seg slots src ks)"
    proof (rule result_after [OF len Cons.prems(4) b1(4) _ rest])
      fix W hi
      assume c: "chain (slot_copied m W slots src) (used (segs_of b1) seg) hi ks"
        and W: "\<And>w. w < used (segs_of b1) seg \<Longrightarrow> (seg, w) \<notin> ?S \<Longrightarrow> W w = word_at (segs_of b1) seg w"
      have "(seg, ?slot) \<notin> ?S" using Cons.prems(3) by auto
      then have "W ?slot = 0" using W [of ?slot] lt u b1(5) by simp
      then show "chain (slot_copied m W slots src) (used (segs_of b) seg) hi (k # ks)" using c False u by auto
    qed auto
    then show ?thesis unfolding S using False b1(1) by simp
  qed
qed

end

text \<open>What holds whenever the copy succeeds may be assumed of the encoding.\<close>

lemma result_when:
  "\<lbrakk>result m b seg S (\<lambda>W hi. P \<longrightarrow> Q W hi) R; \<And>m' b'. R = Some (CAPNP_OK, m', b') \<Longrightarrow> P\<rbrakk> \<Longrightarrow> result m b seg S Q R"
  by (auto simp: result_def)

text \<open>A copy followed by the rest of a loop.\<close>

lemma result_bind:
  assumes first: "result m b seg S1 Q1 R" and seg: "seg < length (bsegs b)"
    and rest: "\<And>t b1. \<lbrakk>builder_inv b1; length (bsegs b1) = length (bsegs b); keeps (segs_of b) S1 (segs_of b1)\<rbrakk> \<Longrightarrow>
      result m b1 seg S2 (Q2 b1) (F (at m t) b1)"
    and S: "S1 \<subseteq> S" "\<And>i w. (i, w) \<in> S2 \<Longrightarrow> has_word (segs_of b) i w \<Longrightarrow> (i, w) \<in> S"
    and Q: "\<And>b1 W hi. \<lbrakk>seg = length (bsegs b) - 1; keeps (segs_of b) S1 (segs_of b1); length (bsegs b1) = length (bsegs b);
      Q1 (word_at (segs_of b1) seg) (used (segs_of b1) seg); Q2 b1 W hi;
      \<And>w. w < used (segs_of b1) seg \<Longrightarrow> (seg, w) \<notin> S2 \<Longrightarrow> W w = word_at (segs_of b1) seg w\<rbrakk> \<Longrightarrow> Q W hi"
  shows "result m b seg S Q (do { (r, m, b) \<leftarrow> R; if r \<noteq> CAPNP_OK then Some (r, m, b) else F m b })"
proof -
  obtain r t1 b1 where r: "R = Some (r, at m t1, b1)" "builder_inv b1" "length (bsegs b1) = length (bsegs b)"
    "keeps (segs_of b) S1 (segs_of b1)" "r \<in> {CAPNP_OK, CAPNP_ERR_KIND, CAPNP_ERR_ALLOC, CAPNP_ERR_DEPTH}"
    "r = CAPNP_OK \<Longrightarrow> seg = length (bsegs b) - 1 \<Longrightarrow> Q1 (word_at (segs_of b1) seg) (used (segs_of b1) seg)"
    using resultE [OF first] by metis
  show ?thesis
  proof (cases "r = CAPNP_OK")
    case False
    then show ?thesis using r S(1) by (auto intro!: result_fail keeps_mono [OF r(4)])
  next
    case True
    have "result m b seg S Q (F (at m t1) b1)"
      by (rule result_after [OF r(3) seg r(4) S(1) rest [OF r(2-4)] S(2)])
        (use Q [OF _ r(4,3)] r(6) [OF True] in auto)
    then show ?thesis using r(1) True by simp
  qed
qed

lemma chain_slots_agree:
  assumes c: "chain (slot_copied m W slots src) lo hi [0..<np]"
    and slots: "\<And>k. k < np \<Longrightarrow> W' (slots + k) = W (slots + k)" and own: "\<And>i. lo \<le> i \<Longrightarrow> i < hi \<Longrightarrow> W' i = W i"
  shows "chain (slot_copied m W' slots src) lo hi [0..<np]"
proof (rule chain_bounded [OF c], goal_cases)
  case 1
  then show ?case by (auto dest: copied_le)
next
  case (2 k a b)
  have "copied m W' a b (slots + k) q" if "copied m W a b (slots + k) q" for q
    using 2 by (intro copied_agree [OF that] slots own) auto
  then show ?case using 2 slots [of k] by auto
qed

lemma elem_index: "i * s + j = i' * s + j' \<Longrightarrow> j < s \<Longrightarrow> j' < s \<Longrightarrow> i = (i' :: nat)"
  by (metis div_mult_self3 div_less add_0_right less_nat_zero_code)

context deep_copy
begin

lemma refs:
  assumes as: "address_space A" and m: "wf_message m" and l: "tracked m l"
  shows "\<lbrakk>builder_inv b; \<forall>i \<in> set is. has_word (segs_of b) seg (start + i); distinct is; seg < length (bsegs b)\<rbrakk> \<Longrightarrow>
    result m b seg ((\<lambda>i. (seg, start + i)) ` set is)
      (\<lambda>W hi. chain (\<lambda>i a b. \<exists>q. elem m l i q \<and> copied m W a b (start + i) q) (used (segs_of b) seg) hi is)
      (copy_refs (rec A) (at m t) b seg start l is)"
proof (induction "is" arbitrary: b t)
  case Nil
  then show ?case by (auto intro!: result_OK)
next
  case (Cons i "is")
  let ?S = "(\<lambda>i. (seg, start + i)) ` set is" and ?slot = "start + i"
  let ?Q = "\<lambda>W i a b. \<exists>q. elem m l i q \<and> copied m W a b (start + i) q"
  have h: "has_word (segs_of b) seg ?slot" using Cons.prems(2) by simp
  have S: "(\<lambda>i. (seg, start + i)) ` set (i # is) = insert (seg, ?slot) ?S" by simp
  obtain r t1 q where g: "capnp_list_getp (at m t) l i ptr0 = Some (r, at m t1, q)" "r = CAPNP_OK \<Longrightarrow> tracked m q"
    using list_getp_at [OF m l] by blast
  show ?case
  proof (cases "r = CAPNP_OK")
    case False
    then show ?thesis using g Cons.prems by (simp add: result_fail)
  next
    case r: True
    have c: "elem m l i q" using g(1) r by (auto simp: elem_def)
    have "result m b seg (insert (seg, ?slot) ?S) (\<lambda>W hi. chain (?Q W) (used (segs_of b) seg) hi (i # is))
      (do { (r, m, b) \<leftarrow> rec A (at m t1) b seg ?slot q;
            if r \<noteq> CAPNP_OK then Some (CAPNP_ERR_ALLOC, m, b) else copy_refs (rec A) m b seg start l is })"
    proof (rule rec_then [OF as m g(2) [OF r] Cons.prems(1) h])
      fix t b1 assume b1: "builder_inv b1" "length (bsegs b1) = length (bsegs b)" "keeps (segs_of b) {(seg, ?slot)} (segs_of b1)"
      show "result m b1 seg ?S (\<lambda>W hi. chain (?Q W) (used (segs_of b1) seg) hi is) (copy_refs (rec A) (at m t) b1 seg start l is)"
        using Cons.prems keepsD(1) [OF b1(3)] b1(2) by (intro Cons.IH [OF b1(1)]) auto
    qed (use Cons.prems c in auto)
    then show ?thesis unfolding S using g(1) r by simp
  qed
qed

lemma elems:
  assumes as: "address_space A" and m: "wf_message m" and l: "tracked m l"
  shows "\<lbrakk>builder_inv b; \<forall>i \<in> set is. \<forall>j < nd + np. has_word (segs_of b) seg (first + i * (nd + np) + j); distinct is;
      seg < length (bsegs b)\<rbrakk> \<Longrightarrow>
    result m b seg {(seg, first + i * (nd + np) + j) | i j. i \<in> set is \<and> j < nd + np}
      (\<lambda>W hi. chain (\<lambda>i a b. \<exists>el. elem m l i el \<and> body_words m W (first + i * (nd + np)) nd el \<and>
          chain (slot_copied m W (first + i * (nd + np) + nd) el) a b [0..<np]) (used (segs_of b) seg) hi is)
      (copy_elems (rec A) (at m t) b seg first nd np l is)"
proof (induction "is" arbitrary: b t)
  case Nil
  then show ?case by (auto intro!: result_OK)
next
  case (Cons i "is")
  let ?s = "nd + np"
  let ?S = "\<lambda>is. {(seg, first + i * ?s + j) | i j. i \<in> is \<and> j < ?s}" and ?at = "first + i * ?s"
  let ?Q = "\<lambda>W i a b. \<exists>el. elem m l i el \<and> body_words m W (first + i * ?s) nd el \<and>
      chain (slot_copied m W (first + i * ?s + nd) el) a b [0..<np]"
  have own: "(seg, ?at + j) \<notin> ?S (set is)" if "j < ?s" for j
    using elem_index [of i ?s j] that Cons.prems(3) by auto
  have h: "has_word (segs_of b) seg (?at + j)" if "j < ?s" for j using Cons.prems(2) that by simp
  obtain r t1 el where g: "capnp_list_getp (at m t) l i ptr0 = Some (r, at m t1, el)" "r = CAPNP_OK \<Longrightarrow> tracked m el"
    using list_getp_at [OF m l] by blast
  show ?case
  proof (cases "r = CAPNP_OK")
    case False
    then show ?thesis using g Cons.prems by (simp add: result_fail)
  next
    case r: True
    have e: "elem m l i el" using g(1) r by (auto simp: elem_def)
    obtain b1 where b1: "write_struct_body_data (at m t1) b seg ?at nd el = Some b1" "builder_inv b1"
      "map length (segs_of b1) = map length (segs_of b)" "keeps (segs_of b) ((\<lambda>i. (seg, ?at + i)) ` {..<nd}) (segs_of b1)"
      "body_words m (word_at (segs_of b1) seg) ?at nd el"
      by (rule struct_body_data [OF m g(2) [OF r] Cons.prems(1), of nd seg ?at t1]) (use h in auto)
    have len: "length (bsegs b1) = length (bsegs b)" using b1(3) by (metis length_map length_segs_of)
    have u: "used (segs_of b1) seg = used (segs_of b) seg" using used_update [OF _ b1(3)] Cons.prems(4) by simp
    have lt: "?at + j < used (segs_of b) seg" if "j < ?s" for j
      using h [OF that] has_word_used [of seg "segs_of b"] Cons.prems(4) by simp
    have kids: "result m b1 seg ((\<lambda>k. (seg, ?at + nd + k)) ` set [0..<np])
        (\<lambda>W hi. chain (slot_copied m W (?at + nd) el) (used (segs_of b1) seg) hi [0..<np])
        (copy_children (rec A) (at m t1) b1 seg (?at + nd) el [0..<np])"
      using h same_lengths_word [OF b1(3)] Cons.prems(4) len
      by (intro children [OF as m g(2) [OF r] b1(2)]) (auto simp: add.assoc)
    have rest: "result m b1 seg (?S (set (i # is))) (\<lambda>W hi. chain (?Q W) (used (segs_of b) seg) hi (i # is))
      (do { (r, m, b) \<leftarrow> copy_children (rec A) (at m t1) b1 seg (?at + nd) el [0..<np];
            if r \<noteq> CAPNP_OK then Some (r, m, b) else copy_elems (rec A) m b seg first nd np l is })"
    proof (rule result_bind [OF kids])
      fix t b2 assume b2: "builder_inv b2" "length (bsegs b2) = length (bsegs b1)"
        "keeps (segs_of b1) ((\<lambda>k. (seg, ?at + nd + k)) ` set [0..<np]) (segs_of b2)"
      show "result m b2 seg (?S (set is)) (\<lambda>W hi. chain (?Q W) (used (segs_of b2) seg) hi is)
          (copy_elems (rec A) (at m t) b2 seg first nd np l is)"
        using Cons.prems keepsD(1) [OF b2(3)] same_lengths_word [OF b1(3)] b2(2) len by (intro Cons.IH [OF b2(1)]) auto
    next
      fix b2 W hi
      assume k2: "keeps (segs_of b1) ((\<lambda>k. (seg, ?at + nd + k)) ` set [0..<np]) (segs_of b2)"
        and len2: "length (bsegs b2) = length (bsegs b1)"
        and c: "chain (slot_copied m (word_at (segs_of b2) seg) (?at + nd) el) (used (segs_of b1) seg) (used (segs_of b2) seg) [0..<np]"
        and ch: "chain (?Q W) (used (segs_of b2) seg) hi is"
        and W: "\<And>w. w < used (segs_of b2) seg \<Longrightarrow> (seg, w) \<notin> ?S (set is) \<Longrightarrow> W w = word_at (segs_of b2) seg w"
      have u2: "w < used (segs_of b2) seg" if "w < used (segs_of b) seg" for w
        using keepsD(1) [OF k2, of seg w] that has_word_used [of seg "segs_of b1" w] has_word_used [of seg "segs_of b2" w]
          u len len2 Cons.prems(4) by simp
      have d: "W (?at + j) = word_at (segs_of b1) seg (?at + j)" if "j < nd" for j
      proof -
        have "(seg, ?at + j) \<notin> (\<lambda>k. (seg, ?at + nd + k)) ` set [0..<np]" using that by auto
        then have "word_at (segs_of b2) seg (?at + j) = word_at (segs_of b1) seg (?at + j)"
          using keepsD(2) [OF k2, of seg "?at + j"] h [of j] same_lengths_word [OF b1(3)] that by simp
        then show ?thesis using W [OF u2 [OF lt] own, of j] that by simp
      qed
      then have bw: "body_words m W ?at nd el" using b1(5) by (simp add: body_words_def)
      have "chain (slot_copied m W (?at + nd) el) (used (segs_of b1) seg) (used (segs_of b2) seg) [0..<np]"
      proof (rule chain_slots_agree [OF c])
        show "W (?at + nd + k) = word_at (segs_of b2) seg (?at + nd + k)" if "k < np" for k
          using W [OF u2 [OF lt] own, of "nd + k"] that by (simp add: add.assoc)
        show "W x = word_at (segs_of b2) seg x" if "used (segs_of b1) seg \<le> x" "x < used (segs_of b2) seg" for x
        proof (rule W [OF that(2)])
          show "(seg, x) \<notin> ?S (set is)" using that(1) u has_word_used [of seg "segs_of b"] Cons.prems(2,4) by fastforce
        qed
      qed
      then show "chain (?Q W) (used (segs_of b) seg) hi (i # is)" using bw e ch u by auto
    next
      show "(\<lambda>k. (seg, ?at + nd + k)) ` set [0..<np] \<subseteq> ?S (set (i # is))"
      proof
        fix x assume "x \<in> (\<lambda>k. (seg, ?at + nd + k)) ` set [0..<np]"
        then obtain k where "x = (seg, ?at + (nd + k))" "nd + k < ?s" by (auto simp: add.assoc)
        then show "x \<in> ?S (set (i # is))" by (intro CollectI exI [of _ i] exI [of _ "nd + k"]) simp
      qed
    qed (use Cons.prems len in auto)
    have "result m b seg (?S (set (i # is))) (\<lambda>W hi. chain (?Q W) (used (segs_of b) seg) hi (i # is))
      (do { (r, m, b) \<leftarrow> copy_children (rec A) (at m t1) b1 seg (?at + nd) el [0..<np];
            if r \<noteq> CAPNP_OK then Some (r, m, b) else copy_elems (rec A) m b seg first nd np l is })"
    proof (rule result_after [OF len Cons.prems(4) b1(4) _ rest])
      show "(\<lambda>j. (seg, ?at + j)) ` {..<nd} \<subseteq> ?S (set (i # is))"
      proof
        fix x assume "x \<in> (\<lambda>j. (seg, ?at + j)) ` {..<nd}"
        then obtain j where "x = (seg, ?at + j)" "j < ?s" by auto
        then show "x \<in> ?S (set (i # is))" by (intro CollectI exI [of _ i] exI [of _ j]) simp
      qed
    qed auto
    then show ?thesis using g(1) r b1(1) by simp
  qed
qed

end

section \<open>The objects\<close>

text \<open>What an allocation for the object of a slot gives.\<close>

lemma alloc_end:
  assumes as: "address_space A" and inv: "builder_inv b" and slot: "has_word (segs_of b) seg slot"
  obtains (fail) b' s w where "alloc_local A b n = Some (CAPNP_ERR_ALLOC, b', s, w)" "builder_inv b'"
      "length (bsegs b') = length (bsegs b)" "keeps (segs_of b) S (segs_of b')"
  | (ok) b' s w where "alloc_local A b n = Some (CAPNP_OK, b', s, w)" "builder_inv b'"
      "length (bsegs b') = length (bsegs b)" "keeps (segs_of b) {} (segs_of b')" "has_word (segs_of b') seg slot"
      "s < length (bsegs b)" "s = length (bsegs b) - 1" "w = used (segs_of b) s" "used (segs_of b') s = w + n"
      "\<And>j. j < n \<Longrightarrow> has_word (segs_of b') s (w + j)" "\<And>j. \<not> has_word (segs_of b) s (w + j)"
proof (cases rule: alloc_local_cases [OF as inv has_word_nonempty [OF slot], of n])
  case (1 b' s w)
  then show ?thesis using fail [of b' s w] by simp
next
  case (2 b' s w)
  have s: "s < length (bsegs b)" using 2(4) has_word_nonempty [OF slot] by (cases "bsegs b") auto
  note k = keeps_fresh [OF 2(7), of "{}"]
  have "has_word (segs_of b') s (w + j)" if "j < n" for j
    using has_word_used [of s "segs_of b'"] s that 2(3,6) by simp
  moreover have "\<not> has_word (segs_of b) s (w + j)" for j using has_word_used [of s "segs_of b"] s 2(5) by simp
  ultimately show ?thesis using 2 k keepsD(1) [OF k slot] s by (intro ok [of b' s w]) auto
qed

lemma same_lengths_bsegs: "map length (segs_of b') = map length (segs_of b) \<Longrightarrow> length (bsegs b') = length (bsegs b)"
  by (metis length_map length_segs_of)

lemma slot_not_new: "has_word segs seg slot \<Longrightarrow> \<not> has_word segs s w \<Longrightarrow> (seg, slot) \<noteq> (s, w)"
  by auto

lemma keeps_put:
  assumes r: "in_range segs s (w * 8) (length bs)" and l: "length bs = n * 8"
  shows "keeps segs ((\<lambda>j. (s, w + j)) ` {..<n}) (put segs s (w * 8) bs)"
  unfolding keeps_def
proof (intro allI impI conjI)
  fix i v assume h: "has_word segs i v"
  then show "has_word (put segs s (w * 8) bs) i v" by (simp add: has_word_def r)
  assume "(i, v) \<notin> (\<lambda>j. (s, w + j)) ` {..<n}"
  then have "i \<noteq> s \<or> \<not> (w \<le> v \<and> v < w + n)"
    by (metis (no_types, lifting) image_eqI le_add_diff_inverse lessThan_iff less_diff_conv2 add.commute)
  then have "i \<noteq> s \<or> v * 8 + 8 \<le> w * 8 \<or> w * 8 + length bs \<le> v * 8" using l by auto
  then show "word_at (put segs s (w * 8) bs) i v = word_at segs i v"
    using bytes_at_put_other [OF r] h by (simp add: word_at_def has_word_def)
qed

text \<open>The content of a primitive list is inside its segment.\<close>

lemma prim_bytes:
  assumes wf: "wf_message m" and l: "well_placed m l" "p_kind l = PK_LIST"
    and bits: "list_bits (p_esize l) (p_count l) = Some bits" "p_esize l \<noteq> SZ_COMPOSITE" "0 < (bits + 7) div 8"
  shows "\<exists>bytes. seg_read m (p_seg l) (sz (p_word l * WORD_BYTES)) ((bits + 7) div 8) = Some bytes \<and> length bytes = (bits + 7) div 8"
proof -
  let ?n = "(bits + 63) div 64"
  have o: "obj_words l = ?n" using l bits by (simp add: obj_words_def)
  have "0 < ?n" using bits(3) by (simp add: div_greater_zero_iff)
  then have b: "p_seg l < nsegs m" "p_word l + ?n \<le> seg_words (msegs m ! p_seg l)"
    using l by (simp_all add: well_placed_def in_bounds_def o)
  then have "p_word l < 2 ^ 60" using wf_seg_words [OF wf b(1)] by simp
  then have a: "sz (p_word l * WORD_BYTES) = p_word l * 8" by (simp add: WORD_BYTES_def)
  have "(bits + 7) div 8 \<le> ?n * 8" by (rule bits_round)
  then show ?thesis
    using seg_read_in_bounds [OF wf b(1), of "p_word l * 8" "(bits + 7) div 8"] b(2) unfolding a by auto
qed

context deep_copy
begin

lemma struct_copies:
  assumes as: "address_space A" and m: "wf_message m" and src: "tracked m src" "p_kind src = PK_STRUCT"
    and inv: "builder_inv b" and slot: "has_word (segs_of b) seg slot"
  shows "copies m b seg slot src (copy_struct A (rec A) (at m t) b seg slot src)"
proof -
  have seg: "seg < length (bsegs b)" using slot by (simp add: has_word_def in_range_def)
  obtain t1 nd np where nd': "trimmed_dwords (at m t) src = Some nd" and np: "trimmed_pwords (at m t) src = Some (at m t1, np)"
    and le: "np \<le> p_pwords src" and size: "\<forall>k < np. readable m t1 src k \<Longrightarrow> struct_size m src nd np"
    by (rule trimmed_struct [OF m src(1), of t]) blast
  show ?thesis
  proof (cases "nd = 0 \<and> np = 0")
    case True
    obtain b1 where b1: "store_w b seg slot (capnp_wp_make_struct (-1) 0 0) = Some b1" "builder_inv b1"
      "map length (segs_of b1) = map length (segs_of b)" "keeps (segs_of b) {(seg, slot)} (segs_of b1)"
      "word_at (segs_of b1) seg slot = capnp_wp_make_struct (-1) 0 0"
      by (rule store_keeps [OF inv slot])
    have "used (segs_of b1) seg = used (segs_of b) seg" using used_update [OF _ b1(3)] seg by simp
    then have "copies m b seg slot src (Some (CAPNP_OK, at m t1, b1))"
      unfolding copies_def using b1 same_lengths_bsegs [OF b1(3)] size src(2) True
      by (intro result_OK) (auto intro: copied_empty)
    then show ?thesis using nd' np b1(1) True by (simp add: copy_struct_def)
  next
    case nz: False
    show ?thesis
    proof (cases rule: alloc_end [OF as inv slot, of "nd + np" "{(seg, slot)}"])
      case (1 b' s w)
      then have "copies m b seg slot src (Some (CAPNP_ERR_ALLOC, at m t1, b'))"
        unfolding copies_def by (intro result_fail) auto
      then show ?thesis using 1(1) nd' np nz by (auto simp: copy_struct_def)
    next
      case (2 b1 s w)
      obtain b2 where b2: "store_w b1 seg slot (capnp_wp_make_struct (near_off w slot) nd np) = Some b2" "builder_inv b2"
        "map length (segs_of b2) = map length (segs_of b1)" "keeps (segs_of b1) {(seg, slot)} (segs_of b2)"
        "word_at (segs_of b2) seg slot = capnp_wp_make_struct (near_off w slot) nd np"
        by (rule store_keeps [OF 2(2,5)])
      have h2: "has_word (segs_of b2) s (w + j)" if "j < nd + np" for j
        using 2(10) [OF that] same_lengths_word [OF b2(3)] by simp
      obtain b3 where b3: "write_struct_body_data (at m t1) b2 s w nd src = Some b3" "builder_inv b3"
        "map length (segs_of b3) = map length (segs_of b2)" "keeps (segs_of b2) ((\<lambda>i. (s, w + i)) ` {..<nd}) (segs_of b3)"
        "body_words m (word_at (segs_of b3) s) w nd src"
        by (rule struct_body_data [OF m src(1) b2(2), of nd s w t1]) (use h2 in auto)
      have len: "length (bsegs b3) = length (bsegs b)"
        using same_lengths_bsegs [OF b3(3)] same_lengths_bsegs [OF b2(3)] 2(3) by simp
      have lens: "map length (segs_of b3) = map length (segs_of b1)" using b2(3) b3(3) by simp
      have u: "used (segs_of b3) s = w + nd + np" using used_update [OF _ lens] 2(3,6,9) by simp
      have k: "keeps (segs_of b) {(seg, slot)} (segs_of b3)"
        by (rule keeps_trans [OF keeps_trans [OF 2(4) b2(4), of "{(seg, slot)}"] b3(4)]) (use 2(11) in auto)
      let ?run = "copy_children (rec A) (at m t1) b3 s (w + nd) src [0..<np]"
      have kids: "result m b3 s ((\<lambda>k. (s, w + nd + k)) ` set [0..<np])
          (\<lambda>W hi. chain (slot_copied m W (w + nd) src) (used (segs_of b3) s) hi [0..<np])
          ?run"
        using h2 same_lengths_word [OF b3(3)] len 2(6)
        by (intro children [OF as m src(1) b3(2)]) (auto simp: add.assoc)
      have "struct_size m src nd np" if "?run = Some (CAPNP_OK, m', b')" for m' b'
        using children_read [OF that order_refl] le by (intro size) auto
      moreover have "result m b seg {(seg, slot)} (\<lambda>W hi. struct_size m src nd np \<longrightarrow> copied m W (used (segs_of b) seg) hi slot src) ?run"
      proof (rule result_after [OF len seg k order_refl kids])
        fix W hi
        assume L: "seg = length (bsegs b) - 1" and c: "chain (slot_copied m W (w + nd) src) (used (segs_of b3) s) hi [0..<np]"
          and W: "\<And>v. v < used (segs_of b3) seg \<Longrightarrow> (seg, v) \<notin> (\<lambda>k. (s, w + nd + k)) ` set [0..<np] \<Longrightarrow>
            W v = word_at (segs_of b3) seg v"
        have s: "s = seg" using L 2(7) by simp
        have sl: "slot < w" using slot has_word_used [of seg "segs_of b"] seg 2(8) s by simp
        have "word_at (segs_of b3) seg slot = word_at (segs_of b2) seg slot"
          using keepsD(2) [OF b3(4) keepsD(1) [OF b2(4) 2(5)]] sl by auto
        moreover have "(seg, slot) \<notin> (\<lambda>k. (s, w + nd + k)) ` set [0..<np]" using sl by auto
        ultimately have slot': "W slot = capnp_wp_make_struct (near_off w slot) nd np"
          using W [of slot] sl u s b2(5) by simp
        have "W (w + j) = word_at (segs_of b3) seg (w + j)" if "j < nd" for j using that u s by (intro W) auto
        then have "body_words m W w nd src" using b3(5) s by (simp add: body_words_def)
        then show "struct_size m src nd np \<longrightarrow> copied m W (used (segs_of b) seg) hi slot src"
          using c u s 2(8) slot' nz copied_struct [OF src(2), of m nd np W slot w hi] by simp
      qed (use 2(7,11) in \<open>auto simp: add.assoc\<close>)
      ultimately have "copies m b seg slot src ?run" unfolding copies_def by (rule result_when [rotated])
      then show ?thesis using 2(1) nd' np nz b2(1) b3(1) by (auto simp: copy_struct_def)
    qed
  qed
qed

lemma prim_copies:
  assumes as: "address_space A" and m: "wf_message m"
    and src: "tracked m src" "p_kind src = PK_LIST" "p_esize src \<noteq> SZ_COMPOSITE" "p_esize src \<noteq> SZ_PTR"
    and inv: "builder_inv b" and slot: "has_word (segs_of b) seg slot"
  shows "copies m b seg slot src (copy_prim_list A (at m t) b seg slot src)"
proof (cases "list_bits (p_esize src) (p_count src)")
  case None
  then show ?thesis unfolding copies_def copy_prim_list_def using inv by (auto intro!: result_fail)
next
  case (Some bits)
  define nb where "nb = (bits + 7) div 8"
  define n where "n = (nb + 7) div 8"
  have seg: "seg < length (bsegs b)" using slot by (simp add: has_word_def in_range_def)
  show ?thesis
  proof (cases "n = 0")
    case True
    let ?v = "capnp_wp_make_list (near_off (slot + 1) slot) (p_esize src) (p_count src)"
    obtain b1 where b1: "store_w b seg slot ?v = Some b1" "builder_inv b1"
      "map length (segs_of b1) = map length (segs_of b)" "keeps (segs_of b) {(seg, slot)} (segs_of b1)"
      "word_at (segs_of b1) seg slot = ?v"
      by (rule store_keeps [OF inv slot])
    have u: "used (segs_of b1) seg = used (segs_of b) seg" using used_update [OF _ b1(3)] seg by simp
    have "copied m (word_at (segs_of b1) seg) (used (segs_of b) seg) (used (segs_of b) seg + 0) slot src"
      by (rule copied_prim [OF src(2-4) Some, where bytes = "[]"]) (use True b1(5) in \<open>simp_all add: n_def nb_def\<close>)
    then have "copies m b seg slot src (Some (CAPNP_OK, at m t, b1))"
      unfolding copies_def using b1 same_lengths_bsegs [OF b1(3)] u by (intro result_OK) auto
    then show ?thesis using Some True b1(1) by (simp add: copy_prim_list_def Let_def n_def [symmetric] nb_def [symmetric])
  next
    case nz: False
    show ?thesis
    proof (cases rule: alloc_end [OF as inv slot, of n "{(seg, slot)}"])
      case (1 b' s w)
      then have "copies m b seg slot src (Some (CAPNP_ERR_ALLOC, at m t, b'))"
        unfolding copies_def by (intro result_fail) auto
      then show ?thesis using 1(1) Some nz by (simp add: copy_prim_list_def Let_def n_def [symmetric] nb_def [symmetric])
    next
      case (2 b1 s w)
      obtain bytes where bytes: "seg_read m (p_seg src) (sz (p_word src * WORD_BYTES)) nb = Some bytes" "length bytes = nb"
        using prim_bytes [OF m trackedD(1) [OF src(1)] src(2) Some src(3)] nz unfolding n_def nb_def by (cases "(bits + 7) div 8") auto
      have fit: "length bytes \<le> n * 8" using bytes(2) unfolding n_def by presburger
      have run: "fresh_run (segs_of b1) n s w"
        using 2(3,6,9) length_nth_segs [OF 2(2), of s] by (simp add: fresh_run_def in_range_def used_def)
      obtain b2 where b2: "fill_run b1 s w n bytes = Some b2" "builder_inv b2"
        "segs_of b2 = put (segs_of b1) s (w * 8) (pad_words n bytes)"
        using fresh_fill [OF 2(2) run fit] by (auto simp: pad_words_def)
      have r: "in_range (segs_of b1) s (w * 8) (length (pad_words n bytes))" using run fit by (simp add: fresh_run_def)
      have l2: "map length (segs_of b2) = map length (segs_of b1)"
        unfolding b2(3) by (intro nth_equalityI) (simp_all add: length_put_nth [OF r])
      have k2: "keeps (segs_of b1) ((\<lambda>j. (s, w + j)) ` {..<n}) (segs_of b2)" unfolding b2(3) by (rule keeps_put [OF r]) (simp add: fit)
      have w2: "word_at (segs_of b2) s (w + j) = capnp_load_le64 (take 8 (drop (j * 8) (pad_words n bytes)))" if "j < n" for j
        using bytes_at_put_inside [OF r, of "j * 8" 8] that fit by (simp add: word_at_def b2(3) algebra_simps)
      let ?v = "capnp_wp_make_list (near_off w slot) (p_esize src) (p_count src)"
      have sl2: "has_word (segs_of b2) seg slot" by (rule keepsD(1) [OF k2 2(5)])
      obtain b3 where b3: "store_w b2 seg slot ?v = Some b3" "builder_inv b3"
        "map length (segs_of b3) = map length (segs_of b2)" "keeps (segs_of b2) {(seg, slot)} (segs_of b3)"
        "word_at (segs_of b3) seg slot = ?v"
        by (rule store_keeps [OF b2(2) sl2])
      have lens: "map length (segs_of b3) = map length (segs_of b1)" using l2 b3(3) by simp
      have u: "used (segs_of b3) s = w + n" using used_update [OF _ lens] 2(3,6,9) by simp
      have "keeps (segs_of b) {(seg, slot)} (segs_of b2)" by (rule keeps_trans [OF 2(4) k2]) (use 2(11) in auto)
      then have k: "keeps (segs_of b) {(seg, slot)} (segs_of b3)" by (rule keeps_trans [OF _ b3(4)]) auto
      have "copied m (word_at (segs_of b3) seg) (used (segs_of b) seg) (used (segs_of b3) seg) slot src"
        if L: "seg = length (bsegs b) - 1"
      proof -
        have s: "s = seg" using L 2(7) by simp
        have "word_at (segs_of b3) seg (w + j) = capnp_load_le64 (take 8 (drop (j * 8) (pad_words n bytes)))" if "j < n" for j
        proof -
          have "has_word (segs_of b2) seg (w + j)" using 2(10) [OF that] same_lengths_word [OF l2] s by simp
          moreover have "(seg, w + j) \<noteq> (seg, slot)" using 2(11) [of j] slot s by auto
          ultimately show ?thesis using keepsD(2) [OF b3(4)] w2 [OF that] s by simp
        qed
        then have "copied m (word_at (segs_of b3) seg) w (w + n) slot src"
          using nz b3(5) bytes(1) by (intro copied_prim [OF src(2-4) Some, where bytes = bytes]) (simp_all add: n_def nb_def)
        then show ?thesis using 2(8) u s by simp
      qed
      then have "copies m b seg slot src (Some (CAPNP_OK, at m t, b3))"
        unfolding copies_def using b3 same_lengths_bsegs [OF lens] 2(3) k by (intro result_OK) auto
      then show ?thesis using 2(1) Some nz b2(1) b3(1) bytes(1)
        by (simp add: copy_prim_list_def Let_def n_def [symmetric] nb_def [symmetric])
    qed
  qed
qed

lemma ptr_list_copies:
  assumes as: "address_space A" and m: "wf_message m"
    and src: "tracked m src" "p_kind src = PK_LIST" "p_esize src = SZ_PTR"
    and inv: "builder_inv b" and slot: "has_word (segs_of b) seg slot"
  shows "copies m b seg slot src (copy_ptr_list A (rec A) (at m t) b seg slot src)"
proof -
  let ?n = "p_count src"
  have seg: "seg < length (bsegs b)" using slot by (simp add: has_word_def in_range_def)
  show ?thesis
  proof (cases "?n = 0")
    case True
    let ?v = "capnp_wp_make_list (near_off (slot + 1) slot) SZ_PTR 0"
    obtain b1 where b1: "store_w b seg slot ?v = Some b1" "builder_inv b1"
      "map length (segs_of b1) = map length (segs_of b)" "keeps (segs_of b) {(seg, slot)} (segs_of b1)"
      "word_at (segs_of b1) seg slot = ?v"
      by (rule store_keeps [OF inv slot])
    have u: "used (segs_of b1) seg = used (segs_of b) seg" using used_update [OF _ b1(3)] seg by simp
    have "copied m (word_at (segs_of b1) seg) (used (segs_of b) seg) (used (segs_of b) seg) slot src"
      by (rule copied_refs [OF src(2,3)]) (use True b1(5) in simp_all)
    then have "copies m b seg slot src (Some (CAPNP_OK, at m t, b1))"
      unfolding copies_def using b1 same_lengths_bsegs [OF b1(3)] u by (intro result_OK) auto
    then show ?thesis using True b1(1) by (simp add: copy_ptr_list_def)
  next
    case nz: False
    show ?thesis
    proof (cases rule: alloc_end [OF as inv slot, of ?n "{(seg, slot)}"])
      case (1 b' s w)
      then have "copies m b seg slot src (Some (CAPNP_ERR_ALLOC, at m t, b'))"
        unfolding copies_def by (intro result_fail) auto
      then show ?thesis using 1(1) nz by (simp add: copy_ptr_list_def)
    next
      case (2 b1 s w)
      let ?v = "capnp_wp_make_list (near_off w slot) SZ_PTR ?n"
      obtain b2 where b2: "store_w b1 seg slot ?v = Some b2" "builder_inv b2"
        "map length (segs_of b2) = map length (segs_of b1)" "keeps (segs_of b1) {(seg, slot)} (segs_of b2)"
        "word_at (segs_of b2) seg slot = ?v"
        by (rule store_keeps [OF 2(2,5)])
      have len: "length (bsegs b2) = length (bsegs b)" using same_lengths_bsegs [OF b2(3)] 2(3) by simp
      have u: "used (segs_of b2) s = w + ?n" using used_update [OF _ b2(3)] 2(3,6,9) by simp
      have k: "keeps (segs_of b) {(seg, slot)} (segs_of b2)" by (rule keeps_trans [OF 2(4) b2(4)]) auto
      have rest: "result m b2 s ((\<lambda>i. (s, w + i)) ` set [0..<?n])
          (\<lambda>W hi. chain (\<lambda>i a b. \<exists>q. elem m src i q \<and> copied m W a b (w + i) q) (used (segs_of b2) s) hi [0..<?n])
          (copy_refs (rec A) (at m t) b2 s w src [0..<?n])"
        using 2(10) same_lengths_word [OF b2(3)] len 2(6) by (intro refs [OF as m src(1) b2(2)]) auto
      have "copies m b seg slot src (copy_refs (rec A) (at m t) b2 s w src [0..<?n])"
        unfolding copies_def
      proof (rule result_after [OF len seg k order_refl rest])
        fix W hi
        assume L: "seg = length (bsegs b) - 1"
          and c: "chain (\<lambda>i a b. \<exists>q. elem m src i q \<and> copied m W a b (w + i) q) (used (segs_of b2) s) hi [0..<?n]"
          and W: "\<And>v. v < used (segs_of b2) seg \<Longrightarrow> (seg, v) \<notin> (\<lambda>i. (s, w + i)) ` set [0..<?n] \<Longrightarrow>
            W v = word_at (segs_of b2) seg v"
        have s: "s = seg" using L 2(7) by simp
        have sl: "slot < w" using slot has_word_used [of seg "segs_of b"] seg 2(8) s by simp
        then have "(seg, slot) \<notin> (\<lambda>i. (s, w + i)) ` set [0..<?n]" by auto
        then have "W slot = ?v" using W [of slot] sl u s b2(5) by simp
        then show "copied m W (used (segs_of b) seg) hi slot src"
          using c u s 2(8) nz copied_refs [OF src(2,3), of W slot w m hi] by simp
      qed (use 2(7,11) in auto)
      then show ?thesis using 2(1) nz b2(1) by (simp add: copy_ptr_list_def)
    qed
  qed
qed

lemma composite_copies:
  assumes as: "address_space A" and m: "wf_message m"
    and src: "tracked m src" "p_kind src = PK_LIST" "p_esize src = SZ_COMPOSITE"
    and inv: "builder_inv b" and slot: "has_word (segs_of b) seg slot"
  shows "copies m b seg slot src (copy_composite A (rec A) (at m t) b seg slot src)"
proof -
  let ?n = "p_count src"
  have seg: "seg < length (bsegs b)" using slot by (simp add: has_word_def in_range_def)
  obtain t1 nd np where tr: "composite_trim (at m t) src = Some (at m t1, nd, np)" and
    size: "(\<forall>i < ?n. \<exists>t' \<le> t1. \<exists>m' el. capnp_list_getp (at m t') src i ptr0 = Some (CAPNP_OK, m', el) \<and>
      (\<forall>k < np. k < p_pwords el \<longrightarrow> readable m t1 el k)) \<longrightarrow> elem_size m src nd np"
    by (rule trimmed_list [OF m src(1), of t]) blast
  let ?s = "nd + np" and ?tag = "capnp_wp_make_struct (int ?n) nd np"
  show ?thesis
  proof (cases rule: alloc_end [OF as inv slot, of "1 + ?n * ?s" "{(seg, slot)}"])
    case (1 b' s w)
    then have "copies m b seg slot src (Some (CAPNP_ERR_ALLOC, at m t1, b'))"
      unfolding copies_def by (intro result_fail) auto
    then show ?thesis using 1(1) tr by (simp add: copy_composite_def)
  next
    case (2 b1 s w)
    let ?v = "capnp_wp_make_list (near_off w slot) SZ_COMPOSITE (?n * ?s mod 2 ^ 32)"
    have tw: "has_word (segs_of b1) s w" using 2(10) [of 0] by simp
    obtain b2 where b2: "store_w b1 s w ?tag = Some b2" "builder_inv b2"
      "map length (segs_of b2) = map length (segs_of b1)" "keeps (segs_of b1) {(s, w)} (segs_of b2)"
      "word_at (segs_of b2) s w = ?tag"
      by (rule store_keeps [OF 2(2) tw])
    have sl2: "has_word (segs_of b2) seg slot" by (rule keepsD(1) [OF b2(4) 2(5)])
    obtain b3 where b3: "store_w b2 seg slot ?v = Some b3" "builder_inv b3"
      "map length (segs_of b3) = map length (segs_of b2)" "keeps (segs_of b2) {(seg, slot)} (segs_of b3)"
      "word_at (segs_of b3) seg slot = ?v"
      by (rule store_keeps [OF b2(2) sl2])
    have lens: "map length (segs_of b3) = map length (segs_of b1)" using b2(3) b3(3) by simp
    have len: "length (bsegs b3) = length (bsegs b)" using same_lengths_bsegs [OF lens] 2(3) by simp
    have u: "used (segs_of b3) s = w + 1 + ?n * ?s" using used_update [OF _ lens] 2(3,6,9) by simp
    have "keeps (segs_of b) {(seg, slot)} (segs_of b2)" by (rule keeps_trans [OF 2(4) b2(4)]) (use 2(11) [of 0] in auto)
    then have k: "keeps (segs_of b) {(seg, slot)} (segs_of b3)" by (rule keeps_trans [OF _ b3(4)]) auto
    have inside: "1 + (i * ?s + j) < 1 + ?n * ?s" if "i < ?n" "j < ?s" for i j
    proof -
      have "i * ?s + ?s \<le> ?n * ?s" using mult_le_mono1 [of "i + 1" ?n ?s] that(1) by simp
      then show ?thesis using that(2) by linarith
    qed
    let ?run = "copy_elems (rec A) (at m t1) b3 s (w + 1) nd np src [0..<?n]"
    have rest: "result m b3 s {(s, w + 1 + i * ?s + j) | i j. i \<in> set [0..<?n] \<and> j < ?s}
        (\<lambda>W hi. chain (\<lambda>i a b. \<exists>el. elem m src i el \<and> body_words m W (w + 1 + i * ?s) nd el \<and>
          chain (slot_copied m W (w + 1 + i * ?s + nd) el) a b [0..<np]) (used (segs_of b3) s) hi [0..<?n])
        ?run"
    proof (rule elems [OF as m src(1) b3(2)])
      show "\<forall>i \<in> set [0..<?n]. \<forall>j < ?s. has_word (segs_of b3) s (w + 1 + i * ?s + j)"
        using 2(10) [OF inside] same_lengths_word [OF lens] by (simp add: add.assoc)
    qed (use len 2(6) in auto)
    have "elem_size m src nd np" if "?run = Some (CAPNP_OK, m', b')" for m' b'
      using elems_read [OF that order_refl] size by simp
    moreover have "result m b seg {(seg, slot)} (\<lambda>W hi. elem_size m src nd np \<longrightarrow> copied m W (used (segs_of b) seg) hi slot src) ?run"
    proof (rule result_after [OF len seg k order_refl rest])
      fix W hi
      let ?S = "{(s, w + 1 + i * ?s + j) | i j. i \<in> set [0..<?n] \<and> j < ?s}"
      assume L: "seg = length (bsegs b) - 1"
        and c: "chain (\<lambda>i a b. \<exists>el. elem m src i el \<and> body_words m W (w + 1 + i * ?s) nd el \<and>
          chain (slot_copied m W (w + 1 + i * ?s + nd) el) a b [0..<np]) (used (segs_of b3) s) hi [0..<?n]"
        and W: "\<And>v. v < used (segs_of b3) seg \<Longrightarrow> (seg, v) \<notin> ?S \<Longrightarrow> W v = word_at (segs_of b3) seg v"
      have s: "s = seg" using L 2(7) by simp
      have sl: "slot < w" using slot has_word_used [of seg "segs_of b"] seg 2(8) s by simp
      then have "W slot = ?v" using W [of slot] u s b3(5) by simp
      moreover have "W w = ?tag"
      proof -
        have "word_at (segs_of b3) s w = ?tag"
          using keepsD(2) [OF b3(4) keepsD(1) [OF b2(4) tw]] sl b2(5) by auto
        then show ?thesis using W [of w] u s by simp
      qed
      ultimately show "elem_size m src nd np \<longrightarrow> copied m W (used (segs_of b) seg) hi slot src"
        using c u s 2(8) copied_elems [OF src(2,3), of m nd np W slot w hi] by simp
    next
      fix i v assume "(i, v) \<in> {(s, w + 1 + i * ?s + j) | i j. i \<in> set [0..<?n] \<and> j < ?s}" "has_word (segs_of b) i v"
      then obtain i' j where "has_word (segs_of b) s (w + (1 + (i' * ?s + j)))" by (auto simp: add.assoc)
      then show "(i, v) \<in> {(seg, slot)}" using 2(11) by blast
    qed (use 2(7) in auto)
    ultimately have "copies m b seg slot src ?run" unfolding copies_def by (rule result_when [rotated])
    then show ?thesis using 2(1) tr b2(1) b3(1) by (simp add: copy_composite_def)
  qed
qed

text \<open>One level more keeps the contract.\<close>

lemma stays_trim_ptrs: "trim_ptrs (at m t) p n = Some (m', np) \<Longrightarrow> \<exists>t' \<le> t. m' = at m t'"
proof (induction n arbitrary: t)
  case (Suc n)
  obtain r t1 q where g: "capnp_getp (at m t) p n ptr0 = Some (r, at m t1, q)" "t1 \<le> t"
    using Suc.prems stays_getp [of t t m p n ptr0] by (cases "capnp_getp (at m t) p n ptr0") (auto elim!: staysE)
  then show ?case using Suc.prems Suc.IH [of t1] by (auto split: if_splits intro: order_trans)
qed auto

lemma stays_trim_elems: "trim_elems (at m t) l nd np is = Some (m', nd', np') \<Longrightarrow> \<exists>t' \<le> t. m' = at m t'"
proof (induction "is" arbitrary: t nd np)
  case (Cons i "is")
  obtain r t1 q where g: "capnp_list_getp (at m t) l i ptr0 = Some (r, at m t1, q)" "t1 \<le> t"
    using Cons.prems stays_list_getp [of t t m l i ptr0] by (cases "capnp_list_getp (at m t) l i ptr0") (auto elim!: staysE)
  show ?case
  proof (cases "r = CAPNP_OK")
    case False
    then have "trim_elems (at m t1) l nd np is = Some (m', nd', np')" using g Cons.prems by simp
    from Cons.IH [OF this] show ?thesis using g(2) by (blast intro: order_trans)
  next
    case True
    then obtain td m2 tp where tp: "trimmed_pwords (at m t1) q = Some (m2, tp)"
      "trim_elems m2 l (max nd td) (max np tp) is = Some (m', nd', np')"
      using Cons.prems g(1) by (auto split: bind_splits)
    obtain t2 where "t2 \<le> t1" "m2 = at m t2" using stays_trim_ptrs tp(1) unfolding trimmed_pwords_def by blast
    with tp(2) have "\<exists>t' \<le> t2. m' = at m t'" using Cons.IH by blast
    then show ?thesis using g(2) \<open>t2 \<le> t1\<close> by (blast intro: order_trans)
  qed
qed auto

lemma stays_step:
  assumes t: "t \<le> n"
  shows "stays m n (copy_step A (rec A) (at m t) b seg slot src)"
proof -
  have "stays m n (copy_struct A (rec A) (at m t) b seg slot src)"
    unfolding copy_struct_def using t
    by (auto dest!: stays_trim_ptrs simp: trimmed_pwords_def intro!: stays_value stays_children split: option.splits)
  moreover have "stays m n (copy_composite A (rec A) (at m t) b seg slot src)"
    unfolding copy_composite_def Let_def using t
    by (auto dest!: stays_trim_elems simp: composite_trim_def intro!: stays_value stays_elems)
  moreover have "stays m n (copy_ptr_list A (rec A) (at m t) b seg slot src)"
    unfolding copy_ptr_list_def Let_def using t by (auto intro!: stays_value stays_refs)
  moreover have "stays m n (copy_prim_list A (at m t) b seg slot src)"
    unfolding copy_prim_list_def Let_def using t by (auto intro!: stays_value split: option.splits)
  ultimately show ?thesis
    using t by (cases "p_kind src") (auto simp: copy_step_def write_list_to_slot_def intro!: stays_value)
qed

lemma step_copies:
  assumes as: "address_space A" and m: "wf_message m" and src: "tracked m src"
    and inv: "builder_inv b" and slot: "has_word (segs_of b) seg slot"
  shows "copies m b seg slot src (copy_step A (rec A) (at m t) b seg slot src)"
proof (cases "p_kind src")
  case PK_NULL
  have seg: "seg < length (bsegs b)" using slot by (simp add: has_word_def in_range_def)
  obtain b1 where b1: "store_w b seg slot 0 = Some b1" "builder_inv b1"
    "map length (segs_of b1) = map length (segs_of b)" "keeps (segs_of b) {(seg, slot)} (segs_of b1)"
    "word_at (segs_of b1) seg slot = 0"
    by (rule store_keeps [OF inv slot])
  have "used (segs_of b1) seg = used (segs_of b) seg" using used_update [OF _ b1(3)] seg by simp
  then have "copies m b seg slot src (Some (CAPNP_OK, at m t, b1))"
    unfolding copies_def using b1 same_lengths_bsegs [OF b1(3)] PK_NULL
    by (intro result_OK) (auto intro: copied_null)
  then show ?thesis using PK_NULL b1(1) by (simp add: copy_step_def)
next
  case PK_CAP
  then show ?thesis unfolding copies_def copy_step_def using inv by (auto intro!: result_fail)
next
  case PK_LIST
  then show ?thesis
    using composite_copies [OF assms(1-3) _ _ assms(4-5)] ptr_list_copies [OF assms(1-3) _ _ assms(4-5)]
      prim_copies [OF assms(1-3) _ _ _ assms(4-5)]
    by (simp add: copy_step_def write_list_to_slot_def)
next
  case PK_STRUCT
  then show ?thesis using struct_copies [OF assms(1-3) _ assms(4-5)] by (simp add: copy_step_def)
qed

end

lemma deep_copy_step: "deep_copy rec \<Longrightarrow> deep_copy (\<lambda>A. copy_step A (rec A))"
  by (rule deep_copy.intro) (rule deep_copy.step_copies deep_copy.stays_step; assumption)+

interpretation copy: deep_copy "\<lambda>A. copy_ptr A left" for left
proof (induction left)
  case 0
  show ?case by (rule deep_copy.intro) (auto simp: copies_def intro!: result_fail)
next
  case (Suc left)
  have "(\<lambda>A. copy_ptr A (Suc left)) = (\<lambda>A. copy_step A (copy_ptr A left))" by (simp add: fun_eq_iff)
  then show ?case using deep_copy_step [OF Suc] by simp
qed

end
