(* ===== verification/Rpc.thy ===== *)
theory Rpc
  imports Canonical "HOL-Library.State_Monad"
begin

text \<open>
  The state of \<open>src/capnp_rpc.c\<close> and its tables: exports, answers, questions, provisions,
  introductions and joins, with the searches and updates every handler shares.

  A table is a list of fixed length; the loops that search one return the first index
  (\<open>find_slot\<close>). A \<open>void *\<close> server is its address, 0 for \<open>NULL\<close>; a function pointer is an
  \<open>option\<close>, \<open>None\<close> for \<open>NULL\<close>. The callbacks belong to the application: \<open>dispatch\<close> and \<open>fill\<close>
  work on the message and the builder they are given, \<open>send\<close> returns a code that may depend on
  what was sent before. The field \<open>sent\<close> is the log of the frames given to \<open>send\<close>. An answer or
  question buffer is the stored prefix of its array, which is all the code reads.

  \<open>int\<close> results keep their C values. Reference counts are signed 32-bit integers; an overflow
  is undefined behaviour, \<open>None\<close>.
\<close>

section \<open>Constants\<close>

definition MAX_EXPORTS :: nat where "MAX_EXPORTS = 64"
definition MAX_ANSWERS :: nat where "MAX_ANSWERS = 64"
definition MAX_ANSWER_BYTES :: nat where "MAX_ANSWER_BYTES = 8192"
definition MAX_QUESTIONS :: nat where "MAX_QUESTIONS = 64"
definition MAX_PROVISIONS :: nat where "MAX_PROVISIONS = 32"
definition MAX_INTRODUCTIONS :: nat where "MAX_INTRODUCTIONS = 8"
definition MAX_HOST :: nat where "MAX_HOST = 64"
definition MAX_JOINS :: nat where "MAX_JOINS = 8"
definition STREAM_MAX_WINDOW :: nat where "STREAM_MAX_WINDOW = 64"
definition MAX_JOIN_PARTS :: nat where "MAX_JOIN_PARTS = 16"

text \<open>The tags of \<open>Message\<close> in \<open>capnp_rpc.h\<close>.\<close>

definition MSG_UNIMPLEMENTED :: u16 where "MSG_UNIMPLEMENTED = 0"
definition MSG_CALL :: u16 where "MSG_CALL = 2"
definition MSG_RETURN :: u16 where "MSG_RETURN = 3"
definition MSG_FINISH :: u16 where "MSG_FINISH = 4"
definition MSG_RESOLVE :: u16 where "MSG_RESOLVE = 5"
definition MSG_RELEASE :: u16 where "MSG_RELEASE = 6"
definition MSG_BOOTSTRAP :: u16 where "MSG_BOOTSTRAP = 8"
definition MSG_PROVIDE :: u16 where "MSG_PROVIDE = 10"
definition MSG_ACCEPT :: u16 where "MSG_ACCEPT = 11"
definition MSG_JOIN :: u16 where "MSG_JOIN = 12"
definition MSG_DISEMBARGO :: u16 where "MSG_DISEMBARGO = 13"

named_theorems rpc_consts "table sizes and message tags"

declare MAX_EXPORTS_def [rpc_consts] MAX_ANSWERS_def [rpc_consts] MAX_ANSWER_BYTES_def [rpc_consts]
  MAX_QUESTIONS_def [rpc_consts] MAX_PROVISIONS_def [rpc_consts] MAX_INTRODUCTIONS_def [rpc_consts]
  MAX_HOST_def [rpc_consts] MAX_JOINS_def [rpc_consts] STREAM_MAX_WINDOW_def [rpc_consts]
  MAX_JOIN_PARTS_def [rpc_consts]
  MSG_UNIMPLEMENTED_def [rpc_consts] MSG_CALL_def [rpc_consts] MSG_RETURN_def [rpc_consts]
  MSG_FINISH_def [rpc_consts] MSG_RESOLVE_def [rpc_consts] MSG_RELEASE_def [rpc_consts]
  MSG_BOOTSTRAP_def [rpc_consts] MSG_PROVIDE_def [rpc_consts] MSG_ACCEPT_def [rpc_consts]
  MSG_JOIN_def [rpc_consts] MSG_DISEMBARGO_def [rpc_consts]

text \<open>The values of the return codes in \<open>capnp_kinds.h\<close>.\<close>

fun code :: "rc \<Rightarrow> int" where
  "code CAPNP_OK = 0"
| "code CAPNP_ERR_BOUNDS = 1"
| "code CAPNP_ERR_KIND = 2"
| "code CAPNP_ERR_DEPTH = 3"
| "code CAPNP_ERR_TRAVERSAL = 4"
| "code CAPNP_ERR_ALLOC = 5"
| "code CAPNP_ERR_FRAMING = 6"
| "code CAPNP_ERR_PACKED = 7"
| "code CAPNP_ERR_ARG = 8"
| "code CAPNP_ERR_SEGMENT = 9"
| "code CAPNP_ERR_IO = 10"

section \<open>State\<close>

type_synonym object = nat

type_synonym dispatch_fn =
  "object \<Rightarrow> u64 \<Rightarrow> u16 \<Rightarrow> message \<Rightarrow> ptr \<Rightarrow> builder \<Rightarrow> bptr \<Rightarrow> (int \<times> message \<times> builder) option"

type_synonym fill_fn = "builder \<Rightarrow> bptr \<Rightarrow> builder option"

record export =
  ex_used :: bool
  ex_refcount :: int
  ex_server :: object
  ex_dispatch :: "dispatch_fn option"

record answer =
  an_used :: bool
  an_question_id :: u32
  an_frame :: "byte list"

record question =
  qu_used :: bool
  qu_question_id :: u32
  qu_answered :: bool
  qu_failed :: bool
  qu_reply :: "byte list"

record provision =
  pr_used :: bool
  pr_nonce :: u64
  pr_server :: object
  pr_dispatch :: "dispatch_fn option"
  pr_export_id :: int
  pr_question_id :: u32
  pr_embargoed :: bool
  pr_accept_question_id :: u32

record introduction =
  in_used :: bool
  in_nonce :: u64
  in_vine_id :: u32
  in_port :: u16
  in_host :: "byte list"

record stream =
  st_window :: nat
  st_qids :: "u32 list"
  st_failed :: bool
  st_first_failure :: u32
  st_have_failure :: bool

record joining =
  jo_used :: bool
  jo_join_id :: u32
  jo_part_count :: nat
  jo_nseen :: nat
  jo_seen :: "bool list"
  jo_qids :: "u32 list"
  jo_eids :: "int list"

type_synonym vat = "provision list"

text \<open>\<open>shared_vat\<close> is the vat \<open>c->vat\<close> points to when it is not \<open>&c->own_vat\<close>.\<close>

record conn =
  exports :: "export list"
  answers :: "answer list"
  questions :: "question list"
  shared_vat :: "vat option"
  own_vat :: vat
  introductions :: "introduction list"
  next_question_id :: u32
  joins :: "joining list"
  bootstrap :: object
  bootstrap_dispatch :: "dispatch_fn option"
  send :: "byte list list \<Rightarrow> byte list \<Rightarrow> int"
  sent :: "byte list list"

text \<open>The entries after \<open>memset\<close> to zero.\<close>

definition export0 :: export where
  "export0 = \<lparr>ex_used = False, ex_refcount = 0, ex_server = 0, ex_dispatch = None\<rparr>"

definition answer0 :: answer where
  "answer0 = \<lparr>an_used = False, an_question_id = 0, an_frame = []\<rparr>"

definition question0 :: question where
  "question0 = \<lparr>qu_used = False, qu_question_id = 0, qu_answered = False, qu_failed = False, qu_reply = []\<rparr>"

definition provision0 :: provision where
  "provision0 = \<lparr>pr_used = False, pr_nonce = 0, pr_server = 0, pr_dispatch = None, pr_export_id = 0,
     pr_question_id = 0, pr_embargoed = False, pr_accept_question_id = 0\<rparr>"

definition introduction0 :: introduction where
  "introduction0 = \<lparr>in_used = False, in_nonce = 0, in_vine_id = 0, in_port = 0,
     in_host = replicate MAX_HOST 0\<rparr>"

definition joining0 :: joining where
  "joining0 = \<lparr>jo_used = False, jo_join_id = 0, jo_part_count = 0, jo_nseen = 0,
     jo_seen = replicate MAX_JOIN_PARTS False, jo_qids = replicate MAX_JOIN_PARTS 0,
     jo_eids = replicate MAX_JOIN_PARTS 0\<rparr>"

definition vat0 :: vat where "vat0 = replicate MAX_PROVISIONS provision0"

section \<open>Setting up a connection\<close>

definition capnp_rpc_init :: "(byte list list \<Rightarrow> byte list \<Rightarrow> int) \<Rightarrow> conn" where
  "capnp_rpc_init send_fn =
     \<lparr>exports = replicate MAX_EXPORTS export0, answers = replicate MAX_ANSWERS answer0,
      questions = replicate MAX_QUESTIONS question0, shared_vat = None, own_vat = vat0,
      introductions = replicate MAX_INTRODUCTIONS introduction0, next_question_id = 0,
      joins = replicate MAX_JOINS joining0, bootstrap = 0, bootstrap_dispatch = None,
      send = send_fn, sent = []\<rparr>"

definition capnp_rpc_set_vat :: "conn \<Rightarrow> vat option \<Rightarrow> conn" where
  "capnp_rpc_set_vat c v = c\<lparr>shared_vat := v\<rparr>"

definition capnp_rpc_set_bootstrap :: "conn \<Rightarrow> object \<Rightarrow> dispatch_fn option \<Rightarrow> conn" where
  "capnp_rpc_set_bootstrap c server dispatch = c\<lparr>bootstrap := server, bootstrap_dispatch := dispatch\<rparr>"

text \<open>\<open>c->vat->provisions\<close>, read and written.\<close>

definition provisions :: "conn \<Rightarrow> vat" where
  "provisions c = (case shared_vat c of None \<Rightarrow> own_vat c | Some v \<Rightarrow> v)"

definition set_provisions :: "vat \<Rightarrow> conn \<Rightarrow> conn" where
  "set_provisions v c =
     (case shared_vat c of None \<Rightarrow> c\<lparr>own_vat := v\<rparr> | Some _ \<Rightarrow> c\<lparr>shared_vat := Some v\<rparr>)"

definition c_send :: "conn \<Rightarrow> byte list \<Rightarrow> int \<times> conn" where
  "c_send c flat = (send c (sent c) flat, c\<lparr>sent := sent c @ [flat]\<rparr>)"

section \<open>Tables\<close>

fun find_slot :: "('a \<Rightarrow> bool) \<Rightarrow> 'a list \<Rightarrow> nat option" where
  "find_slot P [] = None"
| "find_slot P (x # xs) = (if P x then Some 0 else map_option Suc (find_slot P xs))"

definition c_int :: "int \<Rightarrow> int option" where
  "c_int i = (if - (2 ^ 31) \<le> i \<and> i < 2 ^ 31 then Some i else None)"

definition set_export :: "nat \<Rightarrow> export \<Rightarrow> conn \<Rightarrow> conn" where
  "set_export i x c = c\<lparr>exports := (exports c)[i := x]\<rparr>"

text \<open>\<open>c->exports[i].refcount++\<close>.\<close>

definition export_ref :: "conn \<Rightarrow> nat \<Rightarrow> conn option" where
  "export_ref c i =
     (if i < length (exports c) then do {
        n \<leftarrow> c_int (ex_refcount (exports c ! i) + 1);
        Some (set_export i ((exports c ! i)\<lparr>ex_refcount := n\<rparr>) c) }
      else None)"

definition capnp_rpc_export :: "conn \<Rightarrow> object \<Rightarrow> dispatch_fn option \<Rightarrow> (int \<times> conn) option" where
  "capnp_rpc_export c server dispatch =
     (case find_slot (\<lambda>x. ex_used x \<and> ex_server x = server) (exports c) of
        Some i \<Rightarrow> do { c \<leftarrow> export_ref c i; Some (int i, c) }
      | None \<Rightarrow>
          (case find_slot (\<lambda>x. \<not> ex_used x) (exports c) of
             Some i \<Rightarrow>
               Some (int i, set_export i
                 \<lparr>ex_used = True, ex_refcount = 1, ex_server = server, ex_dispatch = dispatch\<rparr> c)
           | None \<Rightarrow> Some (- 1, c)))"

definition answer_find :: "conn \<Rightarrow> u32 \<Rightarrow> nat option" where
  "answer_find c qid = find_slot (\<lambda>a. an_used a \<and> an_question_id a = qid) (answers c)"

definition answer_drop :: "conn \<Rightarrow> u32 \<Rightarrow> conn" where
  "answer_drop c qid =
     (case answer_find c qid of
        None \<Rightarrow> c
      | Some i \<Rightarrow> c\<lparr>answers := (answers c)[i := (answers c ! i)\<lparr>an_used := False\<rparr>]\<rparr>)"

definition question_claim :: "conn \<Rightarrow> (u32 \<times> nat) option \<times> conn" where
  "question_claim c =
     (case find_slot (\<lambda>q. \<not> qu_used q) (questions c) of
        None \<Rightarrow> (None, c)
      | Some i \<Rightarrow>
          let qid = next_question_id c in
          (Some (qid, i),
           c\<lparr>questions := (questions c)[i := question0\<lparr>qu_used := True, qu_question_id := qid\<rparr>],
             next_question_id := qid + 1\<rparr>))"

definition question_find :: "conn \<Rightarrow> u32 \<Rightarrow> nat option" where
  "question_find c qid = find_slot (\<lambda>q. qu_used q \<and> qu_question_id q = qid) (questions c)"

text \<open>\<open>q->used = 0\<close> for the question in slot \<open>i\<close>.\<close>

definition question_free :: "nat \<Rightarrow> conn \<Rightarrow> conn" where
  "question_free i c = c\<lparr>questions := (questions c)[i := (questions c ! i)\<lparr>qu_used := False\<rparr>]\<rparr>"

definition capnp_rpc_is_answered :: "conn \<Rightarrow> u32 \<Rightarrow> bool" where
  "capnp_rpc_is_answered c question_id =
     (case question_find c question_id of
        None \<Rightarrow> False
      | Some i \<Rightarrow> qu_answered (questions c ! i))"

definition capnp_rpc_is_failed :: "conn \<Rightarrow> u32 \<Rightarrow> bool" where
  "capnp_rpc_is_failed c question_id =
     (case question_find c question_id of
        None \<Rightarrow> False
      | Some i \<Rightarrow> qu_answered (questions c ! i) \<and> qu_failed (questions c ! i))"

definition set_join :: "nat \<Rightarrow> joining \<Rightarrow> conn \<Rightarrow> conn" where
  "set_join i j c = c\<lparr>joins := (joins c)[i := j]\<rparr>"

definition join_slot_find :: "conn \<Rightarrow> u32 \<Rightarrow> nat \<Rightarrow> nat option \<times> conn" where
  "join_slot_find c jid pcount =
     (case find_slot (\<lambda>j. jo_used j \<and> jo_join_id j = jid) (joins c) of
        Some i \<Rightarrow> (if jo_part_count (joins c ! i) = pcount then Some i else None, c)
      | None \<Rightarrow>
          (case find_slot (\<lambda>j. \<not> jo_used j) (joins c) of
             Some i \<Rightarrow>
               (Some i, set_join i
                  (joining0\<lparr>jo_used := True, jo_join_id := jid, jo_part_count := pcount\<rparr>) c)
           | None \<Rightarrow> (None, c)))"

text \<open>The counting loops; \<open>out\<close> receives the first \<open>cap\<close> entries.\<close>

definition capnp_rpc_embargoed_accepts :: "conn \<Rightarrow> nat" where
  "capnp_rpc_embargoed_accepts c = length (filter (\<lambda>p. pr_used p \<and> pr_embargoed p) (provisions c))"

definition capnp_rpc_pending_provisions :: "conn \<Rightarrow> int \<Rightarrow> nat \<times> u64 list" where
  "capnp_rpc_pending_provisions c cap =
     (let held = filter pr_used (provisions c) in (length held, take (nat cap) (map pr_nonce held)))"

definition capnp_rpc_pending_introductions :: "conn \<Rightarrow> int \<Rightarrow> nat \<times> introduction list" where
  "capnp_rpc_pending_introductions c cap =
     (let held = filter in_used (introductions c) in (length held, take (nat cap) held))"

end
