(* ===== verification/RpcBuild.thy ===== *)
theory RpcBuild
  imports Rpc
begin

text \<open>
  The messages \<open>src/capnp_rpc.c\<close> builds and sends: \<open>begin_message\<close>, \<open>begin_return\<close>,
  \<open>write_cap_table\<close>, \<open>flush\<close>, \<open>flush_answer\<close> and the functions that send one message each,
  client and server side.

  The code builds a message with a status variable, \<open>if (rc == CAPNP_OK) rc = ...\<close>. That is the
  state monad \<open>'a bld\<close>: the state is the status and the builder, a step is skipped once the
  status is an error, and the state \<open>None\<close> is undefined behaviour in a builder call.
\<close>

section \<open>Building under a status\<close>

record build =
  bu_status :: rc
  bu_builder :: builder

type_synonym 'a bld = "(build option, 'a) state"

definition step :: "'a \<Rightarrow> (builder \<Rightarrow> (rc \<times> builder \<times> 'a) option) \<Rightarrow> 'a bld" where
  "step dflt f = State (\<lambda>s.
     case s of
       None \<Rightarrow> (dflt, None)
     | Some t \<Rightarrow>
         if bu_status t \<noteq> CAPNP_OK then (dflt, s)
         else (case f (bu_builder t) of
                 None \<Rightarrow> (dflt, None)
               | Some (r, b, x) \<Rightarrow> (x, Some \<lparr>bu_status = r, bu_builder = b\<rparr>)))"

definition effect :: "(builder \<Rightarrow> (rc \<times> builder) option) \<Rightarrow> unit bld" where
  "effect f = step () (\<lambda>b. do { (r, b) \<leftarrow> f b; Some (r, b, ()) })"

definition run_bld :: "'a bld \<Rightarrow> builder \<Rightarrow> (rc \<times> builder \<times> 'a) option" where
  "run_bld act b =
     (case run_state act (Some \<lparr>bu_status = CAPNP_OK, bu_builder = b\<rparr>) of (x, s) \<Rightarrow>
        map_option (\<lambda>t. (bu_status t, bu_builder t, x)) s)"

text \<open>\<open>if (...) return CAPNP_ERR_ALLOC\<close>: a block that reports every error as that one.\<close>

definition or_alloc :: "'a \<Rightarrow> 'a bld \<Rightarrow> 'a bld" where
  "or_alloc dflt act =
     step dflt (\<lambda>b. do {
       (r, b, x) \<leftarrow> run_bld act b;
       Some (if r \<noteq> CAPNP_OK then CAPNP_ERR_ALLOC else CAPNP_OK, b, x) })"

definition b_root :: "allocator \<Rightarrow> bptr bld" where
  "b_root A = step bptr0 (capnp_builder_root A)"

definition b_struct :: "allocator \<Rightarrow> bptr \<Rightarrow> nat \<Rightarrow> nat \<Rightarrow> bptr bld" where
  "b_struct A p dw pw = step bptr0 (\<lambda>b. capnp_builder_struct A b p dw pw)"

definition b_slot :: "bptr \<Rightarrow> nat \<Rightarrow> nat \<Rightarrow> bptr bld" where
  "b_slot p dw i = step bptr0 (\<lambda>b. do { (r, s) \<leftarrow> capnp_builder_slot b p dw i; Some (r, b, s) })"

definition b_u16 :: "bptr \<Rightarrow> nat \<Rightarrow> u16 \<Rightarrow> unit bld" where
  "b_u16 p off v = effect (\<lambda>b. capnp_builder_set_u16 b p off v)"

definition b_u32 :: "bptr \<Rightarrow> nat \<Rightarrow> u32 \<Rightarrow> unit bld" where
  "b_u32 p off v = effect (\<lambda>b. capnp_builder_set_u32 b p off v)"

definition b_u64 :: "bptr \<Rightarrow> nat \<Rightarrow> u64 \<Rightarrow> unit bld" where
  "b_u64 p off v = effect (\<lambda>b. capnp_builder_set_u64 b p off v)"

definition b_bool :: "bptr \<Rightarrow> nat \<Rightarrow> bool \<Rightarrow> unit bld" where
  "b_bool p off v = effect (\<lambda>b. capnp_builder_set_bool b p off v)"

definition b_text :: "allocator \<Rightarrow> bptr \<Rightarrow> nat \<Rightarrow> nat \<Rightarrow> byte list \<Rightarrow> unit bld" where
  "b_text A p dw i txt = effect (\<lambda>b. capnp_builder_set_text A b p dw i txt)"

definition b_cap :: "bptr \<Rightarrow> nat \<Rightarrow> nat \<Rightarrow> nat \<Rightarrow> unit bld" where
  "b_cap p dw i cap_index = effect (\<lambda>b. capnp_builder_set_cap b p dw i cap_index)"

definition b_list_struct :: "allocator \<Rightarrow> bptr \<Rightarrow> nat \<Rightarrow> nat \<Rightarrow> nat \<Rightarrow> nat \<Rightarrow> nat \<Rightarrow> bptr bld" where
  "b_list_struct A p dw i n edw epw =
     step bptr0 (\<lambda>b. capnp_builder_set_list_struct A b p dw i n edw epw)"

text \<open>The bytes of a string literal.\<close>

definition c_str :: "string \<Rightarrow> byte list" where
  "c_str s = map of_char s"

section \<open>Message shapes\<close>

text \<open>\<open>Message\<close> has one data word (the tag) and one pointer, to the struct in its union.\<close>

definition b_message :: "allocator \<Rightarrow> u16 \<Rightarrow> nat \<Rightarrow> nat \<Rightarrow> bptr bld" where
  "b_message A tag dw pw = do {
     root \<leftarrow> b_root A;
     msg \<leftarrow> b_struct A root 1 1;
     b_u16 msg 0 tag;
     slot \<leftarrow> b_slot msg 1 0;
     b_struct A slot dw pw }"

definition begin_message :: "allocator \<Rightarrow> u16 \<Rightarrow> nat \<Rightarrow> nat \<Rightarrow> bptr bld" where
  "begin_message A tag dw pw = or_alloc bptr0 (b_message A tag dw pw)"

definition begin_return :: "allocator \<Rightarrow> u32 \<Rightarrow> bptr bld" where
  "begin_return A answer_id = or_alloc bptr0 (do {
     ret \<leftarrow> b_message A MSG_RETURN 2 1;
     b_u32 ret 0 answer_id;
     b_u16 ret 6 0;
     slot \<leftarrow> b_slot ret 2 0;
     b_struct A slot 0 2 })"

definition write_cap_table :: "allocator \<Rightarrow> bptr \<Rightarrow> int \<Rightarrow> unit bld" where
  "write_cap_table A payload eid = or_alloc () (do {
     cd \<leftarrow> b_list_struct A payload 0 1 1 1 1;
     b_u16 cd 0 1;
     b_u32 cd 4 (word_of_int eid) })"

definition capnp_rpc_write_third_party_cap ::
    "allocator \<Rightarrow> bptr option \<Rightarrow> byte list option \<Rightarrow> u16 \<Rightarrow> u64 \<Rightarrow> u32 \<Rightarrow> unit bld" where
  "capnp_rpc_write_third_party_cap A cd host port nonce vine_id =
     (case (cd, host) of
        (Some cd, Some host) \<Rightarrow> or_alloc () (do {
          b_u16 cd 0 5;
          slot \<leftarrow> b_slot cd 1 0;
          tpcd \<leftarrow> b_struct A slot 1 1;
          b_u32 tpcd 0 vine_id;
          slot \<leftarrow> b_slot tpcd 1 0;
          tpid \<leftarrow> b_struct A slot 1 1;
          b_u64 tpid 0 nonce;
          slot \<leftarrow> b_slot tpid 1 0;
          vat \<leftarrow> b_struct A slot 1 1;
          b_text A vat 1 0 host;
          b_u16 vat 0 port })
      | _ \<Rightarrow> effect (\<lambda>b. Some (CAPNP_ERR_ARG, b)))"

section \<open>Sending\<close>

definition flush :: "allocator \<Rightarrow> conn \<Rightarrow> builder \<Rightarrow> (int \<times> conn) option" where
  "flush A c b = do {
     (r, flat) \<leftarrow> capnp_builder_serialize A b;
     if r \<noteq> CAPNP_OK then Some (code CAPNP_ERR_ALLOC, c) else Some (c_send c flat) }"

text \<open>Keep the Return in the first free answer slot, when it fits and there is one.\<close>

definition keep_answer :: "conn \<Rightarrow> u32 \<Rightarrow> byte list \<Rightarrow> conn" where
  "keep_answer c qid flat =
     (if length flat \<le> MAX_ANSWER_BYTES then
        (case find_slot (\<lambda>a. \<not> an_used a) (answers c) of
           None \<Rightarrow> c
         | Some i \<Rightarrow> c\<lparr>answers := (answers c)
             [i := \<lparr>an_used = True, an_question_id = qid, an_frame = flat\<rparr>]\<rparr>)
      else c)"

definition flush_answer :: "allocator \<Rightarrow> conn \<Rightarrow> builder \<Rightarrow> u32 \<Rightarrow> (int \<times> conn) option" where
  "flush_answer A c b qid = do {
     (r, flat) \<leftarrow> capnp_builder_serialize A b;
     if r \<noteq> CAPNP_OK then Some (code CAPNP_ERR_ALLOC, c) else Some (c_send (keep_answer c qid flat) flat) }"

text \<open>\<open>capnp_builder_init\<close>, the steps, then \<open>flush\<close> (or \<open>flush_answer\<close>) if they succeeded.\<close>

definition send_message :: "allocator \<Rightarrow> conn \<Rightarrow> 'a bld \<Rightarrow> (int \<times> conn) option" where
  "send_message A c act = do {
     (r, b, _) \<leftarrow> run_bld act (capnp_builder_init A);
     if r \<noteq> CAPNP_OK then Some (code r, c) else flush A c b }"

definition send_answer :: "allocator \<Rightarrow> conn \<Rightarrow> u32 \<Rightarrow> 'a bld \<Rightarrow> (int \<times> conn) option" where
  "send_answer A c qid act = do {
     (r, b, _) \<leftarrow> run_bld act (capnp_builder_init A);
     if r \<noteq> CAPNP_OK then Some (code r, c) else flush_answer A c b qid }"

definition send_return_exception :: "allocator \<Rightarrow> conn \<Rightarrow> u32 \<Rightarrow> string \<Rightarrow> (int \<times> conn) option" where
  "send_return_exception A c qid reason = send_message A c (do {
     ret \<leftarrow> b_message A MSG_RETURN 2 1;
     b_u32 ret 0 qid;
     b_u16 ret 6 1;
     slot \<leftarrow> b_slot ret 2 0;
     exc \<leftarrow> b_struct A slot 1 2;
     b_u16 exc 0 0;
     b_text A exc 1 0 (c_str reason) })"

text \<open>The Return that carries one capability, shared by Bootstrap, Accept and Disembargo.\<close>

definition send_return_cap :: "allocator \<Rightarrow> conn \<Rightarrow> u32 \<Rightarrow> int \<Rightarrow> (int \<times> conn) option" where
  "send_return_cap A c qid eid = send_answer A c qid (do {
     payload \<leftarrow> begin_return A qid;
     write_cap_table A payload eid;
     b_cap payload 0 0 0 })"

definition send_empty_return :: "allocator \<Rightarrow> conn \<Rightarrow> u32 \<Rightarrow> (int \<times> conn) option" where
  "send_empty_return A c qid = send_answer A c qid (begin_return A qid)"

section \<open>Questions\<close>

text \<open>Claim a question, build and send its message, free the slot again on any failure; the
  result is the question id, or \<open>(uint32_t)-1\<close>.\<close>

definition ask :: "allocator \<Rightarrow> conn \<Rightarrow> (u32 \<Rightarrow> 'a bld) \<Rightarrow> (u32 \<times> conn) option" where
  "ask A c act =
     (case question_claim c of
        (None, c) \<Rightarrow> Some (- 1, c)
      | (Some (qid, i), c) \<Rightarrow> do {
          (r, c) \<leftarrow> send_message A c (act qid);
          if r \<noteq> 0 then Some (- 1, question_free i c) else Some (qid, c) })"

definition capnp_rpc_send_bootstrap :: "allocator \<Rightarrow> conn \<Rightarrow> (u32 \<times> conn) option" where
  "capnp_rpc_send_bootstrap A c = ask A c (\<lambda>qid. do {
     boot \<leftarrow> begin_message A MSG_BOOTSTRAP 1 1;
     b_u32 boot 0 qid })"

text \<open>A \<open>MessageTarget\<close> naming an import.\<close>

definition b_target :: "allocator \<Rightarrow> bptr \<Rightarrow> nat \<Rightarrow> u32 \<Rightarrow> unit bld" where
  "b_target A p dw imported_cap = do {
     slot \<leftarrow> b_slot p dw 0;
     target \<leftarrow> b_struct A slot 1 1;
     b_u16 target 4 0;
     b_u32 target 0 imported_cap }"

definition capnp_rpc_send_call ::
    "allocator \<Rightarrow> conn \<Rightarrow> u32 \<Rightarrow> u64 \<Rightarrow> u16 \<Rightarrow> nat \<Rightarrow> nat \<Rightarrow> fill_fn option \<Rightarrow> (u32 \<times> conn) option" where
  "capnp_rpc_send_call A c imported_cap interface_id method_id params_dwords params_pwords fill =
     ask A c (\<lambda>qid. do {
       call \<leftarrow> begin_message A MSG_CALL 3 3;
       b_u32 call 0 qid;
       b_u16 call 4 method_id;
       b_u64 call 8 interface_id;
       b_target A call 3 imported_cap;
       slot \<leftarrow> b_slot call 3 1;
       payload \<leftarrow> b_struct A slot 0 2;
       slot \<leftarrow> b_slot payload 0 0;
       params \<leftarrow> b_struct A slot params_dwords params_pwords;
       effect (\<lambda>b. case fill of
          None \<Rightarrow> Some (CAPNP_OK, b)
        | Some f \<Rightarrow> do { b \<leftarrow> f b params; Some (CAPNP_OK, b) }) })"

definition capnp_rpc_send_provide ::
    "allocator \<Rightarrow> conn \<Rightarrow> u32 \<Rightarrow> byte list option \<Rightarrow> u16 \<Rightarrow> u64 \<Rightarrow> (u32 \<times> conn) option" where
  "capnp_rpc_send_provide A c imported_cap recipient_host recipient_port nonce =
     (case recipient_host of
        None \<Rightarrow> Some (- 1, c)
      | Some host \<Rightarrow> ask A c (\<lambda>qid. do {
          provide \<leftarrow> begin_message A MSG_PROVIDE 1 2;
          b_u32 provide 0 qid;
          b_target A provide 1 imported_cap;
          slot \<leftarrow> b_slot provide 1 1;
          recipient \<leftarrow> b_struct A slot 1 1;
          b_u64 recipient 0 nonce;
          slot \<leftarrow> b_slot recipient 1 0;
          vat \<leftarrow> b_struct A slot 1 1;
          b_text A vat 1 0 host;
          b_u16 vat 0 recipient_port }))"

definition capnp_rpc_send_accept :: "allocator \<Rightarrow> conn \<Rightarrow> u64 \<Rightarrow> bool \<Rightarrow> (u32 \<times> conn) option" where
  "capnp_rpc_send_accept A c nonce embargo = ask A c (\<lambda>qid. do {
     accept \<leftarrow> begin_message A MSG_ACCEPT 1 1;
     b_u32 accept 0 qid;
     (if embargo then b_bool accept 32 True else State_Monad.return ());
     slot \<leftarrow> b_slot accept 1 0;
     provision \<leftarrow> b_struct A slot 1 0;
     b_u64 provision 0 nonce })"

section \<open>Messages without a question\<close>

definition capnp_rpc_send_disembargo_provide :: "allocator \<Rightarrow> conn \<Rightarrow> u32 \<Rightarrow> (int \<times> conn) option" where
  "capnp_rpc_send_disembargo_provide A c provide_qid = send_message A c (do {
     dis \<leftarrow> begin_message A MSG_DISEMBARGO 1 1;
     b_u16 dis 4 3;
     b_u32 dis 0 provide_qid })"

definition capnp_rpc_send_finish :: "allocator \<Rightarrow> conn \<Rightarrow> u32 \<Rightarrow> (int \<times> conn) option" where
  "capnp_rpc_send_finish A c question_id =
     (let c = (case question_find c question_id of None \<Rightarrow> c | Some i \<Rightarrow> question_free i c) in
      send_message A c (do {
        fin \<leftarrow> begin_message A MSG_FINISH 1 0;
        b_u32 fin 0 question_id }))"

definition capnp_rpc_send_release :: "allocator \<Rightarrow> conn \<Rightarrow> u32 \<Rightarrow> u32 \<Rightarrow> (int \<times> conn) option" where
  "capnp_rpc_send_release A c import_id count = send_message A c (do {
     rel \<leftarrow> begin_message A MSG_RELEASE 1 0;
     b_u32 rel 0 import_id;
     b_u32 rel 4 count })"

section \<open>Streams\<close>

text \<open>\<open>st_qids\<close> is the array up to \<open>nout\<close>.\<close>

definition capnp_rpc_stream_init :: "int \<Rightarrow> stream" where
  "capnp_rpc_stream_init window =
     (let window = (if window < 1 then 1 else window);
          window = (if window > int STREAM_MAX_WINDOW then int STREAM_MAX_WINDOW else window)
      in \<lparr>st_window = nat window, st_qids = [], st_failed = False, st_first_failure = 0,
          st_have_failure = False\<rparr>)"

definition stream_retire_oldest :: "allocator \<Rightarrow> conn \<Rightarrow> stream \<Rightarrow> (conn \<times> stream) option" where
  "stream_retire_oldest A c s =
     (case st_qids s of
        [] \<Rightarrow> Some (c, s)
      | qid # rest \<Rightarrow>
          let s = s\<lparr>st_qids := rest\<rparr>;
              s = (if \<not> capnp_rpc_is_answered c qid \<or> capnp_rpc_is_failed c qid
                   then (let s = s\<lparr>st_failed := True\<rparr> in
                         if \<not> st_have_failure s
                         then s\<lparr>st_have_failure := True, st_first_failure := qid\<rparr> else s)
                   else s)
          in do { (_, c) \<leftarrow> capnp_rpc_send_finish A c qid; Some (c, s) })"

definition capnp_rpc_stream_send ::
    "allocator \<Rightarrow> conn \<Rightarrow> stream \<Rightarrow> u32 \<Rightarrow> u64 \<Rightarrow> u16 \<Rightarrow> nat \<Rightarrow> nat \<Rightarrow> fill_fn option \<Rightarrow>
     (rc \<times> conn \<times> stream) option" where
  "capnp_rpc_stream_send A c s imported_cap interface_id method_id params_dwords params_pwords fill =
     (if st_failed s then Some (CAPNP_ERR_ARG, c, s)
      else do {
        (c, s) \<leftarrow> (if length (st_qids s) \<ge> st_window s then stream_retire_oldest A c s else Some (c, s));
        if st_failed s then Some (CAPNP_ERR_ARG, c, s)
        else do {
          (qid, c) \<leftarrow> capnp_rpc_send_call A c imported_cap interface_id method_id
                        params_dwords params_pwords fill;
          if qid = - 1 then Some (CAPNP_ERR_ALLOC, c, s)
          else if length (st_qids s) < STREAM_MAX_WINDOW
          then Some (CAPNP_OK, c, s\<lparr>st_qids := st_qids s @ [qid]\<rparr>)
          else None } })"

text \<open>\<open>while (s->nout > 0) stream_retire_oldest(c, s)\<close>, one round per outstanding call.\<close>

fun retire_all :: "allocator \<Rightarrow> nat \<Rightarrow> conn \<Rightarrow> stream \<Rightarrow> (conn \<times> stream) option" where
  "retire_all A 0 c s = Some (c, s)"
| "retire_all A (Suc n) c s = do { (c, s) \<leftarrow> stream_retire_oldest A c s; retire_all A n c s }"

definition capnp_rpc_stream_finish :: "allocator \<Rightarrow> conn \<Rightarrow> stream \<Rightarrow> (rc \<times> conn \<times> stream) option" where
  "capnp_rpc_stream_finish A c s = do {
     (c, s) \<leftarrow> retire_all A (length (st_qids s)) c s;
     Some (if st_have_failure s then CAPNP_ERR_ARG else CAPNP_OK, c, s) }"

end
