(* ===== verification/GenText.thy ===== *)
theory GenText
  imports Reader RpcBuild
begin

text \<open>
  The text functions of \<open>app/capnpc_janet.c\<close>, the schema compiler plug-in: C strings, the number
  formats of \<open>printf\<close> it uses, and the names and literals it derives from a schema.

  A C string is the list of its bytes without the NUL. A function that fills a buffer of \<open>outn\<close>
  bytes is \<open>None\<close> when it would write past the end; \<open>snprintf\<close> truncates to \<open>outn - 1\<close> bytes.
  Text of a schema is read as a C string, up to its first NUL, inside its segment.
\<close>

section \<open>C strings\<close>

text \<open>Up to the first NUL; \<open>None\<close> when the object ends before one.\<close>

fun until_nul :: "byte list \<Rightarrow> byte list option" where
  "until_nul [] = None"
| "until_nul (b # bs) = (if b = 0 then Some [] else map_option ((#) b) (until_nul bs))"

definition c_string :: "message \<Rightarrow> nat \<Rightarrow> nat \<Rightarrow> byte list option" where
  "c_string m seg a =
     (if seg < length (msegs m)
      then (case seg_data (msegs m ! seg) of None \<Rightarrow> None | Some d \<Rightarrow> until_nul (drop a d))
      else None)"

text \<open>\<open>strrchr\<close>: the suffix that starts at the last occurrence.\<close>

fun strrchr :: "byte list \<Rightarrow> byte \<Rightarrow> byte list option" where
  "strrchr [] c = None"
| "strrchr (x # xs) c =
     (case strrchr xs c of Some t \<Rightarrow> Some t | None \<Rightarrow> if x = c then Some (x # xs) else None)"

definition snprintf :: "nat \<Rightarrow> byte list \<Rightarrow> byte list" where
  "snprintf outn s = take (outn - 1) s"

definition isupper :: "byte \<Rightarrow> bool" where
  "isupper c \<longleftrightarrow> 65 \<le> c \<and> c \<le> 90"

definition isalnum :: "byte \<Rightarrow> bool" where
  "isalnum c \<longleftrightarrow> 48 \<le> c \<and> c \<le> 57 \<or> isupper c \<or> 97 \<le> c \<and> c \<le> 122"

definition tolower :: "byte \<Rightarrow> byte" where
  "tolower c = (if isupper c then c + 32 else c)"

section \<open>Numbers\<close>

text \<open>\<open>%u\<close> and \<open>%llu\<close>; \<open>%d\<close> and \<open>%lld\<close>; \<open>%llx\<close> and \<open>%016llx\<close>.\<close>

definition digit :: "nat \<Rightarrow> byte" where
  "digit d = (if d < 10 then word_of_nat (48 + d) else word_of_nat (87 + d))"

fun digits :: "nat \<Rightarrow> nat \<Rightarrow> byte list" where
  "digits base n = (if n < base \<or> base < 2 then [digit n] else digits base (n div base) @ [digit (n mod base)])"

declare digits.simps [simp del]

definition dec :: "nat \<Rightarrow> byte list" where
  "dec n = digits 10 n"

definition sdec :: "int \<Rightarrow> byte list" where
  "sdec i = (if i < 0 then 45 # dec (nat (- i)) else dec (nat i))"

definition hex :: "nat \<Rightarrow> byte list" where
  "hex n = digits 16 n"

definition hex16 :: "nat \<Rightarrow> byte list" where
  "hex16 n = replicate (16 - length (hex n)) 48 @ hex n"

text \<open>
  \<open>%.<p>g\<close> of a positive number \<open>n / d\<close>: \<open>exponent10\<close> finds the decimal exponent, the significand is
  rounded to \<open>p\<close> digits (to even on a tie), trailing zeros are dropped, and the exponent style is
  used when the exponent is below -4 or at least \<open>p\<close>.
\<close>

fun scale_down :: "nat \<Rightarrow> nat \<Rightarrow> nat \<Rightarrow> nat \<times> nat" where
  "scale_down 0 n d = (n, 0)"
| "scale_down (Suc k) n d = (if n < d then (case scale_down k (n * 10) d of (n, e) \<Rightarrow> (n, e + 1)) else (n, 0))"

text \<open>The exponent of the leading digit of \<open>n / d\<close>; 400 steps cover every finite double.\<close>

definition exponent10 :: "nat \<Rightarrow> nat \<Rightarrow> int" where
  "exponent10 n d =
     (if d \<le> n then int (length (dec (n div d))) - 1
      else - int (snd (scale_down 400 n d)))"

definition round_even :: "nat \<Rightarrow> nat \<Rightarrow> nat" where
  "round_even n d =
     (let q = n div d; r = n mod d in
      if 2 * r > d \<or> 2 * r = d \<and> odd q then q + 1 else q)"

text \<open>\<open>p\<close> significant digits of \<open>n / d\<close> with their exponent; a carry out of the top moves it.\<close>

definition significand :: "nat \<Rightarrow> nat \<Rightarrow> nat \<Rightarrow> nat \<times> int" where
  "significand p n d =
     (let e = exponent10 n d; s = int p - 1 - e;
          m = (if s \<ge> 0 then round_even (n * 10 ^ nat s) d else round_even n (d * 10 ^ nat (- s)))
      in if m = 10 ^ p then (10 ^ (p - 1), e + 1) else (m, e))"

fun drop_zeros :: "byte list \<Rightarrow> byte list" where
  "drop_zeros [] = []"
| "drop_zeros (c # cs) = (if c = 48 then drop_zeros cs else c # cs)"

definition strip_zeros :: "byte list \<Rightarrow> byte list" where
  "strip_zeros ds = rev (drop_zeros (rev ds))"

definition with_point :: "byte list \<Rightarrow> byte list \<Rightarrow> byte list" where
  "with_point i f = (if strip_zeros f = [] then i else i @ [46] @ strip_zeros f)"

definition exp_suffix :: "int \<Rightarrow> byte list" where
  "exp_suffix e = [101, if e < 0 then 45 else 43] @
     (let ds = dec (nat \<bar>e\<bar>) in if length ds < 2 then 48 # ds else ds)"

definition fmt_g :: "nat \<Rightarrow> nat \<Rightarrow> nat \<Rightarrow> byte list" where
  "fmt_g p n d =
     (if n = 0 then [48]
      else case significand p n d of (m, e) \<Rightarrow>
        let ds = dec m in
        if e < - 4 \<or> e \<ge> int p then with_point (take 1 ds) (drop 1 ds) @ exp_suffix e
        else if e < 0 then with_point [48] (replicate (nat (- e) - 1) 48 @ ds)
        else with_point (take (nat e + 1) ds) (drop (nat e + 1) ds))"

text \<open>\<open>%.<p>g\<close> of an IEEE number with \<open>eb\<close> exponent and \<open>mb\<close> mantissa bits, given by its bits.\<close>

definition fmt_float :: "nat \<Rightarrow> nat \<Rightarrow> nat \<Rightarrow> nat \<Rightarrow> byte list" where
  "fmt_float p eb mb bits =
     (let sign = (if bits div 2 ^ (eb + mb) = 1 then [45] else []);
          ex = bits div 2 ^ mb mod 2 ^ eb; man = bits mod 2 ^ mb;
          bias = 2 ^ (eb - 1) - 1 in
      sign @
      (if ex = 2 ^ eb - 1 then (if man = 0 then c_str ''inf'' else c_str ''nan'')
       else let sig = (if ex = 0 then man else 2 ^ mb + man); e = int (max ex 1) - int bias - int mb in
         if e \<ge> 0 then fmt_g p (sig * 2 ^ nat e) 1 else fmt_g p sig (2 ^ nat (- e))))"

section \<open>Names\<close>

text \<open>\<open>out[j++] = c\<close> with \<open>j\<close> the length of what was written.\<close>

definition push :: "nat \<Rightarrow> byte list \<Rightarrow> byte \<Rightarrow> byte list option" where
  "push outn out c = (if length out < outn then Some (out @ [c]) else None)"

text \<open>\<open>out[j] = 0\<close> and the name used when nothing was written.\<close>

definition end_ident :: "nat \<Rightarrow> byte list \<Rightarrow> byte list option" where
  "end_ident outn out =
     (if length out < outn then Some (if out = [] then snprintf outn (c_str ''anon'') else out) else None)"

fun stem_chars :: "byte list \<Rightarrow> byte list" where
  "stem_chars [] = []"
| "stem_chars (c # cs) = (if \<not> isalnum c \<and> c \<noteq> 45 \<and> c \<noteq> 95 then 45 else c) # stem_chars cs"

definition stem_name :: "byte list \<Rightarrow> nat \<Rightarrow> byte list" where
  "stem_name path outn =
     (let base = (case strrchr path 47 of None \<Rightarrow> path | Some t \<Rightarrow> tl t);
          out = snprintf outn base;
          out = (case strrchr out 46 of
                   Some dot \<Rightarrow> if dot = c_str ''.capnp'' then take (length out - length dot) out else out
                 | None \<Rightarrow> out)
      in stem_chars out)"

fun ident_loop :: "nat \<Rightarrow> byte list \<Rightarrow> byte list \<Rightarrow> byte list option" where
  "ident_loop outn out [] = Some out"
| "ident_loop outn out (c # cs) =
     (if length out + 1 < outn then do {
        out \<leftarrow> push outn out (if isalnum c \<or> c = 45 \<or> c = 95 then c else 45);
        ident_loop outn out cs }
      else Some out)"

definition janet_ident :: "byte list \<Rightarrow> nat \<Rightarrow> byte list option" where
  "janet_ident inp outn = do { out \<leftarrow> ident_loop outn [] inp; end_ident outn out }"

fun field_loop :: "nat \<Rightarrow> byte list \<Rightarrow> byte list \<Rightarrow> byte list option" where
  "field_loop outn out [] = Some out"
| "field_loop outn out (c # cs) =
     (if length out + 1 < outn then do {
        out \<leftarrow> (if isupper c then do {
                  out \<leftarrow> (if length out > 0 \<and> last out \<noteq> 45 \<and> length out + 2 < outn
                         then push outn out 45 else Some out);
                  push outn out (tolower c) }
                else push outn out (if isalnum c \<or> c = 45 \<or> c = 95 then c else 45));
        field_loop outn out cs }
      else Some out)"

definition janet_field_ident :: "byte list \<Rightarrow> nat \<Rightarrow> byte list option" where
  "janet_field_ident inp outn = do { out \<leftarrow> field_loop outn [] inp; end_ident outn out }"

definition type_short_name :: "byte list \<Rightarrow> nat \<Rightarrow> byte list option" where
  "type_short_name display outn =
     (let sname = (case strrchr display 58 of None \<Rightarrow> display | Some t \<Rightarrow> tl t);
          sname = (case strrchr sname 47 of None \<Rightarrow> sname | Some t \<Rightarrow> tl t)
      in janet_ident sname outn)"

end
