(* ===== verification/ModApi.thy ===== *)
theory ModApi
  imports GenText
begin

text \<open>
  The boundary of \<open>src/janet_mod.c\<close> to the Janet virtual machine, whose code is not in the
  repository: the functions of its C API are the fields of a parameter \<open>api\<close>. \<open>'v\<close> is the type of
  Janet values. A getter is \<open>None\<close> when it panics, that is, leaves the C function by a long jump.

  A C function of the module returns a value or panics, and in both cases leaves a state behind;
  \<open>None\<close> is undefined behaviour, as everywhere. The receiver of a call is passed as what
  \<open>janet_getabstract\<close> returns; the arity is checked by the machine, so optional arguments are
  options.
\<close>

section \<open>The interface of the machine\<close>

text \<open>What is handed back to the machine: numbers that are integers, other doubles, boxed 64-bit
  integers, and the rest.\<close>

datatype jvalue = Nil_value | Number int | Double u64 | Boolean bool | String "byte list" | Keyword string
  | Boxed_u64 u64 | Boxed_s64 u64 | Method string | View ptr

record 'v api =
  getinteger :: "'v \<Rightarrow> u32 option"
  getuinteger :: "'v \<Rightarrow> u32 option"
  getinteger16 :: "'v \<Rightarrow> u16 option"
  getuinteger16 :: "'v \<Rightarrow> u16 option"
  getinteger64 :: "'v \<Rightarrow> u64 option"
  getuinteger64 :: "'v \<Rightarrow> u64 option"
  getsize :: "'v \<Rightarrow> nat option"
  getboolean :: "'v \<Rightarrow> bool option"
  getnumber :: "'v \<Rightarrow> u64 option"
  getbytes :: "'v \<Rightarrow> byte list option"
  getindexed :: "'v \<Rightarrow> 'v list option"
  is_nil :: "'v \<Rightarrow> bool"
  is_number :: "'v \<Rightarrow> bool"
  keyword_of :: "'v \<Rightarrow> byte list option"
  string_of :: "'v \<Rightarrow> byte list option"
  truthy :: "'v \<Rightarrow> bool"
  unwrap_number :: "'v \<Rightarrow> u64"
  unwrap_integer :: "'v \<Rightarrow> u32 option"
  to_float :: "u64 \<Rightarrow> u32"
  to_double :: "u32 \<Rightarrow> u64"
  getmethod :: "byte list \<Rightarrow> (string \<times> string) list \<Rightarrow> jvalue option"
  nextmethod :: "(string \<times> string) list \<Rightarrow> 'v \<Rightarrow> jvalue"

text \<open>
  The documented behaviour the module relies on: the integer getters return the value of a number
  that is an integer in their range, so they agree where their ranges meet; the lengths of Janet
  arrays and strings are \<open>int32_t\<close>. \<open>unwrap_integer\<close> is the cast of a double to \<open>int32_t\<close>, undefined
  outside the range (\<open>None\<close>). Doubles are their bits; \<open>to_float\<close> and \<open>to_double\<close> are the conversions
  of C. \<open>getmethod\<close> and \<open>nextmethod\<close> look up and walk a table of methods.
\<close>

definition api_ok :: "'v api \<Rightarrow> bool" where
  "api_ok J \<longleftrightarrow>
     (\<forall>v x. getuinteger J v = Some x \<longrightarrow> unat x < 2 ^ 31 \<longrightarrow> getinteger J v = Some x) \<and>
     (\<forall>v x. getinteger16 J v = Some x \<longrightarrow> getinteger J v = Some (scast x)) \<and>
     (\<forall>v x. getuinteger16 J v = Some x \<longrightarrow> getinteger J v = Some (ucast x)) \<and>
     (\<forall>v xs. getindexed J v = Some xs \<longrightarrow> length xs < 2 ^ 31)"

section \<open>Results\<close>

text \<open>Why a call panicked: inside the machine, with the message of the module (\<open>where: text\<close>, without
  the numbers and names that are printed into it), or with the code of a failed builder call.\<close>

datatype panic = Api_panic | Panic string string | Builder_panic string rc

type_synonym ('a, 's) call = "((panic + 'a) \<times> 's) option"

text \<open>An argument that may panic before anything else happens.\<close>

definition arg :: "'s \<Rightarrow> panic + 'a \<Rightarrow> ('a \<Rightarrow> ('b, 's) call) \<Rightarrow> ('b, 's) call" where
  "arg s a k = (case a of Inl e \<Rightarrow> Some (Inl e, s) | Inr x \<Rightarrow> k x)"

definition get :: "('v \<Rightarrow> 'a option) \<Rightarrow> 'v \<Rightarrow> panic + 'a" where
  "get f v = (case f v of None \<Rightarrow> Inl Api_panic | Some x \<Rightarrow> Inr x)"

text \<open>\<open>argc > n ? f(argv, n) : 0\<close>.\<close>

definition opt :: "('v \<Rightarrow> panic + 'a) \<Rightarrow> 'a \<Rightarrow> 'v option \<Rightarrow> panic + 'a" where
  "opt f x v = (case v of None \<Rightarrow> Inr x | Some v \<Rightarrow> f v)"

definition require :: "bool \<Rightarrow> panic \<Rightarrow> panic + unit" where
  "require b e = (if b then Inr () else Inl e)"

text \<open>A list of arguments, read from left to right.\<close>

fun get_all :: "('v \<Rightarrow> panic + 'a) \<Rightarrow> 'v list \<Rightarrow> panic + 'a list" where
  "get_all f [] = Inr []"
| "get_all f (v # vs) =
     (case f v of Inl e \<Rightarrow> Inl e
      | Inr x \<Rightarrow> (case get_all f vs of Inl e \<Rightarrow> Inl e | Inr xs \<Rightarrow> Inr (x # xs)))"

lemma arg_simps [simp]: "arg s (Inl e) k = Some (Inl e, s)" "arg s (Inr x) k = k x"
  by (simp_all add: arg_def)

lemma require_eq [simp]: "require True e = Inr ()" "require False e = Inl e"
  by (simp_all add: require_def)

section \<open>Arguments of the module\<close>

definition get_word_count :: "'v api \<Rightarrow> 'v \<Rightarrow> string \<Rightarrow> panic + nat" where
  "get_word_count J v where =
     (case get (getinteger J) v of Inl e \<Rightarrow> Inl e
      | Inr x \<Rightarrow> if sint x < 0 \<or> sint x > 65535 then Inl (Panic where ''word count out of range'') else Inr (nat (sint x)))"

definition get_u8_arg :: "'v api \<Rightarrow> string \<Rightarrow> 'v \<Rightarrow> panic + byte" where
  "get_u8_arg J where v =
     (case get (getinteger J) v of Inl e \<Rightarrow> Inl e
      | Inr x \<Rightarrow> if sint x < 0 \<or> sint x > 255 then Inl (Panic where ''UInt8 value out of range'') else Inr (ucast x))"

definition get_i8_arg :: "'v api \<Rightarrow> string \<Rightarrow> 'v \<Rightarrow> panic + byte" where
  "get_i8_arg J where v =
     (case get (getinteger J) v of Inl e \<Rightarrow> Inl e
      | Inr x \<Rightarrow> if sint x < - 128 \<or> sint x > 127 then Inl (Panic where ''Int8 value out of range'') else Inr (ucast x))"

text \<open>\<open>(float)janet_getnumber(..)\<close>.\<close>

definition get_float :: "'v api \<Rightarrow> 'v \<Rightarrow> panic + u32" where
  "get_float J v = map_sum id (to_float J) (get (getnumber J) v)"

end
