(* ===== verification/ModRead.thy ===== *)
theory ModRead
  imports ModApi
begin

text \<open>
  The functions of \<open>src/janet_mod.c\<close> that read: messages from buffers, pointers, fields and list
  elements with their schema defaults, and the protocol hooks (indexing, iteration, length and
  text of a pointer). The state of a call is the message of its receiver.
\<close>

section \<open>Messages and pointers\<close>

definition ptr_kind_name :: "ptr \<Rightarrow> string" where
  "ptr_kind_name p = (case p_kind p of PK_STRUCT \<Rightarrow> ''struct'' | PK_LIST \<Rightarrow> ''list'' | PK_CAP \<Rightarrow> ''cap'' | _ \<Rightarrow> ''null'')"

definition cfun_message_from_buffer :: "allocator \<Rightarrow> byte list \<Rightarrow> (panic + message) option" where
  "cfun_message_from_buffer A buf = do {
     (r, m) \<leftarrow> capnp_message_from_flat A buf;
     Some (if r \<noteq> CAPNP_OK then Inl (Panic ''capnp/message-from-buffer'' ''framing error'') else Inr m) }"

definition cfun_message_view_buffer :: "allocator \<Rightarrow> byte list \<Rightarrow> (panic + message) option" where
  "cfun_message_view_buffer A buf = do {
     (r, m) \<leftarrow> capnp_message_view_flat A buf;
     Some (if r \<noteq> CAPNP_OK then Inl (Panic ''capnp/message-view-buffer'' ''framing error'') else Inr m) }"

definition cfun_root :: "message \<Rightarrow> (jvalue, message) call" where
  "cfun_root m = do {
     (r, m, root) \<leftarrow> capnp_root m ptr0;
     Some (if r \<noteq> CAPNP_OK then Inl (Panic ''capnp/root'' ''error'') else Inr (View root), m) }"

definition cfun_kind :: "ptr \<Rightarrow> jvalue" where
  "cfun_kind p = Keyword (ptr_kind_name p)"

definition cfun_getp :: "'v api \<Rightarrow> message \<Rightarrow> ptr \<Rightarrow> 'v \<Rightarrow> (jvalue, message) call" where
  "cfun_getp J m p idx =
     arg m (get (getinteger J) idx) (\<lambda>idx.
     arg m (require (0 \<le> sint idx) (Panic ''capnp/getp'' ''negative index'')) (\<lambda>_. do {
       (r, m, out) \<leftarrow> capnp_getp m p (unat (ucast idx :: u16)) ptr0;
       Some (if r \<noteq> CAPNP_OK then Inl (Panic ''capnp/getp'' ''error'') else Inr (View out), m) }))"

section \<open>Fields\<close>

text \<open>The integer getters: offset, default, and the read with default 0 whose result is \<open>XOR\<close>ed with
  the default.\<close>

definition get_field ::
    "'v api \<Rightarrow> message \<Rightarrow> 'v \<Rightarrow> ('v \<Rightarrow> panic + 'd) \<Rightarrow> 'd \<Rightarrow> 'v option \<Rightarrow> (nat \<Rightarrow> 'd \<Rightarrow> jvalue option) \<Rightarrow> (jvalue, message) call" where
  "get_field J m off getd zero dflt read =
     arg m (get (getinteger J) off) (\<lambda>off. arg m (opt getd zero dflt) (\<lambda>dflt. do {
       v \<leftarrow> read (unat off) dflt;
       Some (Inr v, m) }))"

definition cfun_get_u8 :: "'v api \<Rightarrow> message \<Rightarrow> ptr \<Rightarrow> 'v \<Rightarrow> 'v option \<Rightarrow> (jvalue, message) call" where
  "cfun_get_u8 J m p off dflt =
     get_field J m off (\<lambda>v. map_sum id ucast (get (getinteger J) v)) 0 dflt (\<lambda>off dflt.
       map_option (\<lambda>raw. Number (uint (raw XOR dflt))) (capnp_get_u8 m p off 0))"

definition cfun_get_i8 :: "'v api \<Rightarrow> message \<Rightarrow> ptr \<Rightarrow> 'v \<Rightarrow> 'v option \<Rightarrow> (jvalue, message) call" where
  "cfun_get_i8 J m p off dflt =
     get_field J m off (\<lambda>v. map_sum id ucast (get (getinteger J) v)) 0 dflt (\<lambda>off dflt.
       map_option (\<lambda>raw. Number (sint (raw XOR dflt))) (capnp_get_u8 m p off 0))"

definition cfun_get_u16 :: "'v api \<Rightarrow> message \<Rightarrow> ptr \<Rightarrow> 'v \<Rightarrow> 'v option \<Rightarrow> (jvalue, message) call" where
  "cfun_get_u16 J m p off dflt =
     get_field J m off (\<lambda>v. map_sum id ucast (get (getinteger J) v)) 0 dflt (\<lambda>off dflt.
       map_option (\<lambda>raw. Number (uint (raw XOR dflt))) (capnp_get_u16 m p off 0))"

definition cfun_get_i16 :: "'v api \<Rightarrow> message \<Rightarrow> ptr \<Rightarrow> 'v \<Rightarrow> 'v option \<Rightarrow> (jvalue, message) call" where
  "cfun_get_i16 J m p off dflt =
     get_field J m off (\<lambda>v. map_sum id ucast (get (getinteger J) v)) 0 dflt (\<lambda>off dflt.
       map_option (\<lambda>raw. Number (sint (raw XOR dflt))) (capnp_get_u16 m p off 0))"

definition cfun_get_u32 :: "'v api \<Rightarrow> message \<Rightarrow> ptr \<Rightarrow> 'v \<Rightarrow> 'v option \<Rightarrow> (jvalue, message) call" where
  "cfun_get_u32 J m p off dflt =
     get_field J m off (get (getuinteger J)) 0 dflt (\<lambda>off dflt.
       map_option (\<lambda>raw. Number (uint (raw XOR dflt))) (capnp_get_u32 m p off 0))"

definition cfun_get_i32 :: "'v api \<Rightarrow> message \<Rightarrow> ptr \<Rightarrow> 'v \<Rightarrow> 'v option \<Rightarrow> (jvalue, message) call" where
  "cfun_get_i32 J m p off dflt =
     get_field J m off (get (getinteger J)) 0 dflt (\<lambda>off dflt.
       map_option (\<lambda>raw. Number (sint (raw XOR dflt))) (capnp_get_u32 m p off 0))"

text \<open>Integers up to \<open>2 ^ 53\<close> are numbers, others are boxed.\<close>

definition wrap_u64_lossless :: "u64 \<Rightarrow> jvalue" where
  "wrap_u64_lossless v = (if v \<le> 9007199254740992 then Number (uint v) else Boxed_u64 v)"

definition wrap_i64_lossless :: "u64 \<Rightarrow> jvalue" where
  "wrap_i64_lossless v =
     (if sint v \<ge> - 9007199254740992 \<and> sint v \<le> 9007199254740992 then Number (sint v) else Boxed_s64 v)"

definition cfun_get_u64 :: "'v api \<Rightarrow> message \<Rightarrow> ptr \<Rightarrow> 'v \<Rightarrow> 'v option \<Rightarrow> (jvalue, message) call" where
  "cfun_get_u64 J m p off dflt =
     get_field J m off (get (getuinteger64 J)) 0 dflt (\<lambda>off dflt.
       map_option (\<lambda>raw. wrap_u64_lossless (raw XOR dflt)) (capnp_get_u64 m p off 0))"

definition cfun_get_i64 :: "'v api \<Rightarrow> message \<Rightarrow> ptr \<Rightarrow> 'v \<Rightarrow> 'v option \<Rightarrow> (jvalue, message) call" where
  "cfun_get_i64 J m p off dflt =
     get_field J m off (get (getinteger64 J)) 0 dflt (\<lambda>off dflt.
       map_option (\<lambda>raw. wrap_i64_lossless (raw XOR dflt)) (capnp_get_u64 m p off 0))"

definition cfun_get_f32 :: "'v api \<Rightarrow> message \<Rightarrow> ptr \<Rightarrow> 'v \<Rightarrow> 'v option \<Rightarrow> (jvalue, message) call" where
  "cfun_get_f32 J m p off dflt =
     get_field J m off (get_float J) 0 dflt (\<lambda>off dflt_bits.
       map_option (\<lambda>bits. Double (to_double J (bits XOR dflt_bits))) (capnp_get_u32 m p off 0))"

definition cfun_get_f64 :: "'v api \<Rightarrow> message \<Rightarrow> ptr \<Rightarrow> 'v \<Rightarrow> 'v option \<Rightarrow> (jvalue, message) call" where
  "cfun_get_f64 J m p off dflt =
     get_field J m off (get (getnumber J)) 0 dflt (\<lambda>off dflt_bits.
       map_option (\<lambda>bits. Double (bits XOR dflt_bits)) (capnp_get_u64 m p off 0))"

definition cfun_get_bool :: "'v api \<Rightarrow> message \<Rightarrow> ptr \<Rightarrow> 'v \<Rightarrow> 'v option \<Rightarrow> (jvalue, message) call" where
  "cfun_get_bool J m p bit_off dflt =
     get_field J m bit_off (\<lambda>v. map_sum id of_bool (get (getboolean J) v)) 0 dflt (\<lambda>off dflt.
       map_option (\<lambda>b. Boolean (b \<noteq> dflt)) (capnp_get_bool m p off 0))"

text \<open>\<open>janet_stringv\<close> copies the bytes; a copy of no bytes reads nothing.\<close>

definition stringv :: "message \<Rightarrow> byte_ref \<Rightarrow> byte list option" where
  "stringv m s = (case s of BytesAt seg a 0 \<Rightarrow> Some [] | _ \<Rightarrow> ref_bytes m s)"

definition cfun_get_text :: "'v api \<Rightarrow> message \<Rightarrow> ptr \<Rightarrow> 'v \<Rightarrow> (jvalue, message) call" where
  "cfun_get_text J m p idx =
     arg m (get (getinteger J) idx) (\<lambda>idx. do {
       (r, m, s) \<leftarrow> capnp_get_text m p (unat (ucast idx :: u16));
       if r \<noteq> CAPNP_OK then Some (Inl (Panic ''capnp/get-text'' ''error''), m)
       else do { bs \<leftarrow> stringv m s; Some (Inr (String bs), m) } })"

definition cfun_get_data :: "'v api \<Rightarrow> message \<Rightarrow> ptr \<Rightarrow> 'v \<Rightarrow> (jvalue, message) call" where
  "cfun_get_data J m p idx =
     arg m (get (getinteger J) idx) (\<lambda>idx.
     arg m (require (0 \<le> sint idx \<and> sint idx \<le> 65535) (Panic ''capnp/get-data'' ''pointer index out of range'')) (\<lambda>_. do {
       (r, m, data) \<leftarrow> capnp_get_data m p (unat (ucast idx :: u16));
       if r \<noteq> CAPNP_OK then Some (Inl (Panic ''capnp/get-data'' ''error''), m)
       else do {
         bs \<leftarrow> stringv m data;
         Some (if length bs > 2147483647 then Inl (Panic ''capnp/get-data'' ''value exceeds Janet's string limit'')
           else Inr (String bs), m) } }))"

section \<open>Lists\<close>

definition cfun_list_len :: "ptr \<Rightarrow> jvalue" where
  "cfun_list_len p = Number (int (capnp_list_len p))"

definition cfun_list_getp :: "'v api \<Rightarrow> message \<Rightarrow> ptr \<Rightarrow> 'v \<Rightarrow> (jvalue, message) call" where
  "cfun_list_getp J m p idx =
     arg m (get (getinteger J) idx) (\<lambda>idx.
     arg m (require (0 \<le> sint idx) (Panic ''capnp/list-getp'' ''negative'')) (\<lambda>_. do {
       (r, m, out) \<leftarrow> capnp_list_getp m p (unat idx) ptr0;
       Some (if r \<noteq> CAPNP_OK then Inl (Panic ''capnp/list-getp'' ''error'') else Inr (View out), m) }))"

definition cfun_list_get_text :: "'v api \<Rightarrow> message \<Rightarrow> ptr \<Rightarrow> 'v \<Rightarrow> (jvalue, message) call" where
  "cfun_list_get_text J m p idx =
     arg m (get (getinteger J) idx) (\<lambda>idx.
     arg m (require (0 \<le> sint idx) (Panic ''capnp/list-get-text'' ''negative'')) (\<lambda>_. do {
       (r, m, s) \<leftarrow> capnp_list_get_text m p (unat idx);
       if r \<noteq> CAPNP_OK then Some (Inl (Panic ''capnp/list-get-text'' ''error''), m)
       else do { bs \<leftarrow> stringv m s; Some (Inr (String bs), m) } }))"

datatype janet_list_kind = LIST_BOOL | LIST_I8 | LIST_U8 | LIST_I16 | LIST_U16 | LIST_I32 | LIST_U32
  | LIST_I64 | LIST_U64 | LIST_F32 | LIST_F64

text \<open>One branch of \<open>cfun_list_get_value\<close>.\<close>

definition list_item ::
    "message \<Rightarrow> ('v \<Rightarrow> panic + 'd) \<Rightarrow> 'd \<Rightarrow> 'v option \<Rightarrow> ('d \<Rightarrow> jvalue option) \<Rightarrow> (jvalue, message) call" where
  "list_item m getd zero dflt read =
     arg m (opt getd zero dflt) (\<lambda>dflt. do { v \<leftarrow> read dflt; Some (Inr v, m) })"

definition cfun_list_get_value ::
    "'v api \<Rightarrow> message \<Rightarrow> ptr \<Rightarrow> 'v \<Rightarrow> 'v option \<Rightarrow> janet_list_kind \<Rightarrow> (jvalue, message) call" where
  "cfun_list_get_value J m list index dflt kind =
     arg m (get (getuinteger J) index) (\<lambda>index. let i = unat index in
     (case kind of
        LIST_BOOL \<Rightarrow> list_item m (\<lambda>v. map_sum id of_bool (get (getboolean J) v)) 0 dflt
          (\<lambda>d. map_option (\<lambda>b. Boolean (b \<noteq> 0)) (capnp_list_get_bool m list i d))
      | LIST_I8 \<Rightarrow> list_item m (get_i8_arg J ''capnp/list-get-i8'') 0 dflt
          (\<lambda>d. map_option (\<lambda>x. Number (sint x)) (capnp_list_get_u8 m list i d))
      | LIST_U8 \<Rightarrow> list_item m (get_u8_arg J ''capnp/list-get-u8'') 0 dflt
          (\<lambda>d. map_option (\<lambda>x. Number (uint x)) (capnp_list_get_u8 m list i d))
      | LIST_I16 \<Rightarrow> list_item m (get (getinteger16 J)) 0 dflt
          (\<lambda>d. map_option (\<lambda>x. Number (sint x)) (capnp_list_get_u16 m list i d))
      | LIST_U16 \<Rightarrow> list_item m (get (getuinteger16 J)) 0 dflt
          (\<lambda>d. map_option (\<lambda>x. Number (uint x)) (capnp_list_get_u16 m list i d))
      | LIST_I32 \<Rightarrow> list_item m (get (getinteger J)) 0 dflt
          (\<lambda>d. map_option (\<lambda>x. Number (sint x)) (capnp_list_get_u32 m list i d))
      | LIST_U32 \<Rightarrow> list_item m (get (getuinteger J)) 0 dflt
          (\<lambda>d. map_option (\<lambda>x. Number (uint x)) (capnp_list_get_u32 m list i d))
      | LIST_I64 \<Rightarrow> list_item m (get (getinteger64 J)) 0 dflt
          (\<lambda>d. map_option wrap_i64_lossless (capnp_list_get_u64 m list i d))
      | LIST_U64 \<Rightarrow> list_item m (get (getuinteger64 J)) 0 dflt
          (\<lambda>d. map_option wrap_u64_lossless (capnp_list_get_u64 m list i d))
      | LIST_F32 \<Rightarrow> list_item m (get_float J) 0 dflt
          (\<lambda>d. map_option (\<lambda>x. Double (to_double J x)) (capnp_list_get_f32 m list i d))
      | LIST_F64 \<Rightarrow> list_item m (get (getnumber J)) 0 dflt
          (\<lambda>d. map_option Double (capnp_list_get_f64 m list i d))))"

section \<open>Protocol hooks\<close>

definition msg_methods :: "(string \<times> string) list" where
  "msg_methods = [(''root'', ''cfun_root'')]"

definition ptr_methods :: "(string \<times> string) list" where
  "ptr_methods = [(''kind'', ''cfun_kind''), (''ptr'', ''cfun_getp''), (''u8'', ''cfun_get_u8''), (''i8'', ''cfun_get_i8''),
     (''u16'', ''cfun_get_u16''), (''i16'', ''cfun_get_i16''), (''u32'', ''cfun_get_u32''), (''i32'', ''cfun_get_i32''),
     (''u64'', ''cfun_get_u64''), (''i64'', ''cfun_get_i64''), (''f32'', ''cfun_get_f32''), (''f64'', ''cfun_get_f64''),
     (''bool'', ''cfun_get_bool''), (''text'', ''cfun_get_text''), (''bool-at'', ''cfun_list_get_bool''),
     (''i8-at'', ''cfun_list_get_i8''), (''u8-at'', ''cfun_list_get_u8''), (''i16-at'', ''cfun_list_get_i16''),
     (''u16-at'', ''cfun_list_get_u16''), (''i32-at'', ''cfun_list_get_i32''), (''u32-at'', ''cfun_list_get_u32''),
     (''i64-at'', ''cfun_list_get_i64''), (''u64-at'', ''cfun_list_get_u64''), (''f32-at'', ''cfun_list_get_f32''),
     (''f64-at'', ''cfun_list_get_f64''), (''text-at'', ''cfun_list_get_text'')]"

definition msg_get :: "'v api \<Rightarrow> 'v \<Rightarrow> jvalue option" where
  "msg_get J key = (case keyword_of J key of None \<Rightarrow> None | Some name \<Rightarrow> getmethod J name msg_methods)"

text \<open>The result is \<open>None\<close> inside when the key has no value, which reads as nil.\<close>

definition ptr_get :: "'v api \<Rightarrow> message \<Rightarrow> ptr \<Rightarrow> 'v \<Rightarrow> (jvalue option, message) call" where
  "ptr_get J m p key =
     (case keyword_of J key of Some name \<Rightarrow> Some (Inr (getmethod J name ptr_methods), m)
      | None \<Rightarrow>
          if \<not> is_number J key then Some (Inr None, m)
          else if p_kind p \<noteq> PK_LIST then Some (Inl (Panic ''capnp/ptr'' (''cannot index a '' @ ptr_kind_name p @ '', only a list'')), m)
          else do {
            i \<leftarrow> unwrap_integer J key;
            let n = (word_of_nat (capnp_list_len p) :: u32);
            if sint i < 0 \<or> sint i \<ge> sint n then Some (Inr None, m)
            else do {
              (r, m, el) \<leftarrow> capnp_list_getp m p (unat i) ptr0;
              Some (if r \<noteq> CAPNP_OK then Inl (Panic ''capnp/ptr'' ''element unreadable'') else Inr (Some (View el)), m) } })"

text \<open>The next key of a list, the next method of another pointer. Adding one to the largest \<open>int32_t\<close>
  is undefined.\<close>

definition ptr_next :: "'v api \<Rightarrow> ptr \<Rightarrow> 'v \<Rightarrow> jvalue option" where
  "ptr_next J p key =
     (let n = sint (word_of_nat (capnp_list_len p) :: u32) in
      if p_kind p \<noteq> PK_LIST then Some (nextmethod J ptr_methods key)
      else if is_nil J key then Some (if n > 0 then Number 0 else Nil_value)
      else if \<not> is_number J key then Some Nil_value
      else do {
        i \<leftarrow> unwrap_integer J key;
        if sint i + 1 \<ge> 2 ^ 31 then None
        else Some (if sint i + 1 < n then Number (sint i + 1) else Nil_value) })"

definition ptr_length :: "ptr \<Rightarrow> panic + nat" where
  "ptr_length p =
     (if p_kind p \<noteq> PK_LIST then Inl (Panic ''capnp/ptr'' (''length needs a list, got a '' @ ptr_kind_name p))
      else Inr (capnp_list_len p))"

definition ptr_tostring :: "ptr \<Rightarrow> byte list" where
  "ptr_tostring p =
     (if p_kind p = PK_LIST then snprintf 48 (c_str ''list '' @ dec (capnp_list_len p)) else c_str (ptr_kind_name p))"

definition msg_tostring :: "bool \<Rightarrow> byte list" where
  "msg_tostring view_buf = c_str (if view_buf then ''view'' else ''owned'')"

end
