(* ===== verification/ModWrite.thy ===== *)
theory ModWrite
  imports ModRead
begin

text \<open>
  The functions of \<open>src/janet_mod.c\<close> that build messages. The state of a call is the builder of its
  receiver with the flag that its root exists (\<open>capnp_builder_wrap\<close>); the handles a Janet program
  holds are a struct body with the sizes of its sections, or a list of structs.
\<close>

section \<open>Handles\<close>

record bwrap =
  w_builder :: builder
  root_initialized :: bool

record builder_ptr =
  h_body :: bptr
  h_dwords :: nat
  h_pwords :: nat

record builder_list =
  l_first :: bptr
  l_count :: nat
  l_dwords :: nat
  l_pwords :: nat

definition require_data_range :: "builder_ptr \<Rightarrow> u32 \<Rightarrow> nat \<Rightarrow> string \<Rightarrow> panic + unit" where
  "require_data_range p byte_offset width where =
     (let data_bytes = h_dwords p * WORD_BYTES in
      if unat byte_offset > data_bytes \<or> width > data_bytes - unat byte_offset
      then Inl (Panic where ''data offset exceeds the struct section'') else Inr ())"

definition require_bool_range :: "builder_ptr \<Rightarrow> u32 \<Rightarrow> string \<Rightarrow> panic + unit" where
  "require_bool_range p bit_offset where =
     (let data_bits = h_dwords p * WORD_BYTES * 8 in
      if unat bit_offset \<ge> data_bits then Inl (Panic where ''bit offset exceeds the struct section'') else Inr ())"

definition get_pointer_index :: "'v api \<Rightarrow> builder_ptr \<Rightarrow> 'v \<Rightarrow> string \<Rightarrow> panic + nat" where
  "get_pointer_index J p v where =
     (case get (getinteger J) v of Inl e \<Rightarrow> Inl e
      | Inr index \<Rightarrow>
          if sint index < 0 \<or> sint index \<ge> int (h_pwords p)
          then Inl (Panic where ''pointer index exceeds the struct section'') else Inr (nat (sint index)))"

text \<open>\<open>check_builder_result\<close> on a call that returns a code; the builder is changed either way.\<close>

definition check_builder_result :: "bwrap \<Rightarrow> string \<Rightarrow> (rc \<times> builder) option \<Rightarrow> (unit, bwrap) call" where
  "check_builder_result w where R = do {
     (r, b) \<leftarrow> R;
     Some (if r \<noteq> CAPNP_OK then Inl (Builder_panic where r) else Inr (), w\<lparr>w_builder := b\<rparr>) }"

text \<open>The same with a body in the result, wrapped into a handle.\<close>

definition check_body :: "bwrap \<Rightarrow> string \<Rightarrow> (rc \<times> builder \<times> bptr) option \<Rightarrow> (bptr \<Rightarrow> 'h) \<Rightarrow> ('h, bwrap) call" where
  "check_body w where R wrap = do {
     (r, b, body) \<leftarrow> R;
     Some (if r \<noteq> CAPNP_OK then Inl (Builder_panic where r) else Inr (wrap body), w\<lparr>w_builder := b\<rparr>) }"

definition make_builder_ptr :: "nat \<Rightarrow> nat \<Rightarrow> bptr \<Rightarrow> builder_ptr" where
  "make_builder_ptr dwords pwords body = \<lparr>h_body = body, h_dwords = dwords, h_pwords = pwords\<rparr>"

definition make_builder_list :: "nat \<Rightarrow> nat \<Rightarrow> nat \<Rightarrow> bptr \<Rightarrow> builder_list" where
  "make_builder_list count dwords pwords first = \<lparr>l_first = first, l_count = count, l_dwords = dwords, l_pwords = pwords\<rparr>"

section \<open>Structs\<close>

definition cfun_new_builder :: "allocator \<Rightarrow> 'v api \<Rightarrow> 'v option \<Rightarrow> panic + bwrap" where
  "cfun_new_builder A J first_words =
     (case (case first_words of None \<Rightarrow> Inr (capnp_builder_init A)
            | Some v \<Rightarrow> (case get (getsize J) v of Inl e \<Rightarrow> Inl e
                | Inr n \<Rightarrow> if n = 0 \<or> n > BUILDER_MAX_SEGMENT_WORDS
                           then Inl (Panic ''capnp/new-builder'' ''segment word count out of range'')
                           else Inr (capnp_builder_init_sized A n))) of
        Inl e \<Rightarrow> Inl e
      | Inr b \<Rightarrow> if capnp_builder_nsegs b = 0 then Inl (Panic ''capnp/new-builder'' ''arena allocation failed'')
                 else Inr \<lparr>w_builder = b, root_initialized = False\<rparr>)"

definition cfun_init_root :: "allocator \<Rightarrow> 'v api \<Rightarrow> bwrap \<Rightarrow> 'v \<Rightarrow> 'v \<Rightarrow> (builder_ptr, bwrap) call" where
  "cfun_init_root A J w dwords pwords =
     arg w (get_word_count J dwords ''capnp/init-root'') (\<lambda>dwords.
     arg w (get_word_count J pwords ''capnp/init-root'') (\<lambda>pwords.
     arg w (require (\<not> root_initialized w) (Panic ''capnp/init-root'' ''root is already initialized'')) (\<lambda>_. do {
       (r, b, root) \<leftarrow> capnp_builder_root A (w_builder w);
       if r \<noteq> CAPNP_OK then Some (Inl (Builder_panic ''capnp/init-root'' r), w\<lparr>w_builder := b\<rparr>)
       else check_body (w\<lparr>w_builder := b, root_initialized := True\<rparr>) ''capnp/init-root''
              (capnp_builder_struct A b root dwords pwords) (make_builder_ptr dwords pwords) })))"

definition cfun_init_struct ::
    "allocator \<Rightarrow> 'v api \<Rightarrow> bwrap \<Rightarrow> builder_ptr \<Rightarrow> 'v \<Rightarrow> 'v \<Rightarrow> 'v \<Rightarrow> (builder_ptr, bwrap) call" where
  "cfun_init_struct A J w parent index dwords pwords =
     arg w (get_pointer_index J parent index ''capnp/init-struct'') (\<lambda>index.
     arg w (get_word_count J dwords ''capnp/init-struct'') (\<lambda>dwords.
     arg w (get_word_count J pwords ''capnp/init-struct'') (\<lambda>pwords. do {
       (r, slot) \<leftarrow> capnp_builder_slot (w_builder w) (h_body parent) (h_dwords parent) index;
       if r \<noteq> CAPNP_OK then Some (Inl (Builder_panic ''capnp/init-struct'' r), w)
       else check_body w ''capnp/init-struct''
              (capnp_builder_struct A (w_builder w) slot dwords pwords) (make_builder_ptr dwords pwords) })))"

definition cfun_init_struct_list ::
    "allocator \<Rightarrow> 'v api \<Rightarrow> bwrap \<Rightarrow> builder_ptr \<Rightarrow> 'v \<Rightarrow> 'v \<Rightarrow> 'v \<Rightarrow> 'v \<Rightarrow> (builder_list, bwrap) call" where
  "cfun_init_struct_list A J w parent index count dwords pwords =
     arg w (get_pointer_index J parent index ''capnp/init-struct-list'') (\<lambda>index.
     arg w (get (getuinteger J) count) (\<lambda>count.
     arg w (get_word_count J dwords ''capnp/init-struct-list'') (\<lambda>dwords.
     arg w (get_word_count J pwords ''capnp/init-struct-list'') (\<lambda>pwords.
       check_body w ''capnp/init-struct-list''
         (capnp_builder_set_list_struct A (w_builder w) (h_body parent) (h_dwords parent) index (unat count) dwords pwords)
         (make_builder_list (unat count) dwords pwords)))))"

definition cfun_struct_list_at :: "'v api \<Rightarrow> bwrap \<Rightarrow> builder_list \<Rightarrow> 'v \<Rightarrow> (builder_ptr, bwrap) call" where
  "cfun_struct_list_at J w list index =
     arg w (get (getuinteger J) index) (\<lambda>index.
     let step = l_dwords list + l_pwords list in
     arg w (require (unat index < l_count list) (Panic ''capnp/struct-list-at'' ''index out of range'')) (\<lambda>_.
       Some (Inr (make_builder_ptr (l_dwords list) (l_pwords list) (capnp_bptr_add (l_first list) (sz (unat index * step)))), w)))"

section \<open>Fields\<close>

text \<open>What the setters share: offset, value, default, the check against the data section of the
  handle, and the store of the value \<open>XOR\<close>ed with the default.\<close>

definition set_field ::
    "'v api \<Rightarrow> bwrap \<Rightarrow> builder_ptr \<Rightarrow> 'v \<Rightarrow> ('v \<Rightarrow> panic + 'd) \<Rightarrow> 'd \<Rightarrow> 'v \<Rightarrow> 'v option \<Rightarrow>
     (u32 \<Rightarrow> panic + unit) \<Rightarrow> (nat \<Rightarrow> 'd \<Rightarrow> 'd \<Rightarrow> (rc \<times> builder) option) \<Rightarrow> string \<Rightarrow> (unit, bwrap) call" where
  "set_field J w p offset getd zero value dflt in_section store where =
     arg w (get (getuinteger J) offset) (\<lambda>offset.
     arg w (getd value) (\<lambda>value.
     arg w (opt getd zero dflt) (\<lambda>dflt.
     arg w (in_section offset) (\<lambda>_.
       check_builder_result w where (store (unat offset) value dflt)))))"

definition cfun_set_u8 :: "'v api \<Rightarrow> bwrap \<Rightarrow> builder_ptr \<Rightarrow> 'v \<Rightarrow> 'v \<Rightarrow> 'v option \<Rightarrow> (unit, bwrap) call" where
  "cfun_set_u8 J w p offset value dflt =
     set_field J w p offset (get_u8_arg J ''capnp/set-u8'') 0 value dflt (\<lambda>off. require_data_range p off 1 ''capnp/set-u8'')
       (\<lambda>off value dflt. capnp_builder_set_u8 (w_builder w) (h_body p) off (value XOR dflt)) ''capnp/set-u8''"

definition cfun_set_i8 :: "'v api \<Rightarrow> bwrap \<Rightarrow> builder_ptr \<Rightarrow> 'v \<Rightarrow> 'v \<Rightarrow> 'v option \<Rightarrow> (unit, bwrap) call" where
  "cfun_set_i8 J w p offset value dflt =
     set_field J w p offset (get_i8_arg J ''capnp/set-i8'') 0 value dflt (\<lambda>off. require_data_range p off 1 ''capnp/set-i8'')
       (\<lambda>off value dflt. capnp_builder_set_u8 (w_builder w) (h_body p) off (value XOR dflt)) ''capnp/set-i8''"

definition cfun_set_u16 :: "'v api \<Rightarrow> bwrap \<Rightarrow> builder_ptr \<Rightarrow> 'v \<Rightarrow> 'v \<Rightarrow> 'v option \<Rightarrow> (unit, bwrap) call" where
  "cfun_set_u16 J w p offset value dflt =
     set_field J w p offset (get (getuinteger16 J)) 0 value dflt (\<lambda>off. require_data_range p off 2 ''capnp/set-u16'')
       (\<lambda>off value dflt. capnp_builder_set_u16 (w_builder w) (h_body p) off (value XOR dflt)) ''capnp/set-u16''"

definition cfun_set_i16 :: "'v api \<Rightarrow> bwrap \<Rightarrow> builder_ptr \<Rightarrow> 'v \<Rightarrow> 'v \<Rightarrow> 'v option \<Rightarrow> (unit, bwrap) call" where
  "cfun_set_i16 J w p offset value dflt =
     set_field J w p offset (get (getinteger16 J)) 0 value dflt (\<lambda>off. require_data_range p off 2 ''capnp/set-i16'')
       (\<lambda>off value dflt. capnp_builder_set_u16 (w_builder w) (h_body p) off (value XOR dflt)) ''capnp/set-i16''"

definition cfun_set_u32 :: "'v api \<Rightarrow> bwrap \<Rightarrow> builder_ptr \<Rightarrow> 'v \<Rightarrow> 'v \<Rightarrow> 'v option \<Rightarrow> (unit, bwrap) call" where
  "cfun_set_u32 J w p offset value dflt =
     set_field J w p offset (get (getuinteger J)) 0 value dflt (\<lambda>off. require_data_range p off 4 ''capnp/set-u32'')
       (\<lambda>off value dflt. capnp_builder_set_u32 (w_builder w) (h_body p) off (value XOR dflt)) ''capnp/set-u32''"

definition cfun_set_i32 :: "'v api \<Rightarrow> bwrap \<Rightarrow> builder_ptr \<Rightarrow> 'v \<Rightarrow> 'v \<Rightarrow> 'v option \<Rightarrow> (unit, bwrap) call" where
  "cfun_set_i32 J w p offset value dflt =
     set_field J w p offset (get (getinteger J)) 0 value dflt (\<lambda>off. require_data_range p off 4 ''capnp/set-i32'')
       (\<lambda>off value dflt. capnp_builder_set_u32 (w_builder w) (h_body p) off (value XOR dflt)) ''capnp/set-i32''"

definition cfun_set_u64 :: "'v api \<Rightarrow> bwrap \<Rightarrow> builder_ptr \<Rightarrow> 'v \<Rightarrow> 'v \<Rightarrow> 'v option \<Rightarrow> (unit, bwrap) call" where
  "cfun_set_u64 J w p offset value dflt =
     set_field J w p offset (get (getuinteger64 J)) 0 value dflt (\<lambda>off. require_data_range p off 8 ''capnp/set-u64'')
       (\<lambda>off value dflt. capnp_builder_set_u64 (w_builder w) (h_body p) off (value XOR dflt)) ''capnp/set-u64''"

definition cfun_set_i64 :: "'v api \<Rightarrow> bwrap \<Rightarrow> builder_ptr \<Rightarrow> 'v \<Rightarrow> 'v \<Rightarrow> 'v option \<Rightarrow> (unit, bwrap) call" where
  "cfun_set_i64 J w p offset value dflt =
     set_field J w p offset (get (getinteger64 J)) 0 value dflt (\<lambda>off. require_data_range p off 8 ''capnp/set-i64'')
       (\<lambda>off value dflt. capnp_builder_set_u64 (w_builder w) (h_body p) off (value XOR dflt)) ''capnp/set-i64''"

definition cfun_set_f32 :: "'v api \<Rightarrow> bwrap \<Rightarrow> builder_ptr \<Rightarrow> 'v \<Rightarrow> 'v \<Rightarrow> 'v option \<Rightarrow> (unit, bwrap) call" where
  "cfun_set_f32 J w p offset value dflt =
     set_field J w p offset (get_float J) 0 value dflt (\<lambda>off. require_data_range p off 4 ''capnp/set-f32'')
       (\<lambda>off value dflt. capnp_builder_set_u32 (w_builder w) (h_body p) off (value XOR dflt)) ''capnp/set-f32''"

definition cfun_set_f64 :: "'v api \<Rightarrow> bwrap \<Rightarrow> builder_ptr \<Rightarrow> 'v \<Rightarrow> 'v \<Rightarrow> 'v option \<Rightarrow> (unit, bwrap) call" where
  "cfun_set_f64 J w p offset value dflt =
     set_field J w p offset (get (getnumber J)) 0 value dflt (\<lambda>off. require_data_range p off 8 ''capnp/set-f64'')
       (\<lambda>off value dflt. capnp_builder_set_u64 (w_builder w) (h_body p) off (value XOR dflt)) ''capnp/set-f64''"

definition cfun_set_bool :: "'v api \<Rightarrow> bwrap \<Rightarrow> builder_ptr \<Rightarrow> 'v \<Rightarrow> 'v \<Rightarrow> 'v option \<Rightarrow> (unit, bwrap) call" where
  "cfun_set_bool J w p offset value dflt =
     set_field J w p offset (get (getboolean J)) False value dflt (\<lambda>off. require_bool_range p off ''capnp/set-bool'')
       (\<lambda>off value dflt. capnp_builder_set_bool (w_builder w) (h_body p) off (value \<noteq> dflt)) ''capnp/set-bool''"

section \<open>Pointers\<close>

definition cfun_set_text :: "allocator \<Rightarrow> 'v api \<Rightarrow> bwrap \<Rightarrow> builder_ptr \<Rightarrow> 'v \<Rightarrow> 'v \<Rightarrow> (unit, bwrap) call" where
  "cfun_set_text A J w p index value =
     arg w (get_pointer_index J p index ''capnp/set-text'') (\<lambda>index.
     arg w (get (getbytes J) value) (\<lambda>value.
       check_builder_result w ''capnp/set-text''
         (capnp_builder_set_text A (w_builder w) (h_body p) (h_dwords p) index value)))"

definition cfun_set_data :: "allocator \<Rightarrow> 'v api \<Rightarrow> bwrap \<Rightarrow> builder_ptr \<Rightarrow> 'v \<Rightarrow> 'v \<Rightarrow> (unit, bwrap) call" where
  "cfun_set_data A J w p index value =
     arg w (get_pointer_index J p index ''capnp/set-data'') (\<lambda>index.
     arg w (get (getbytes J) value) (\<lambda>value.
       check_builder_result w ''capnp/set-data''
         (capnp_builder_set_data A (w_builder w) (h_body p) (h_dwords p) index value)))"

definition cfun_clear_pointer :: "'v api \<Rightarrow> bwrap \<Rightarrow> builder_ptr \<Rightarrow> 'v \<Rightarrow> (unit, bwrap) call" where
  "cfun_clear_pointer J w p index =
     arg w (get_pointer_index J p index ''capnp/clear-pointer'') (\<lambda>index.
       check_builder_result w ''capnp/clear-pointer''
         (capnp_builder_clear_ptr (w_builder w) (h_body p) (h_dwords p) index))"

section \<open>Lists\<close>

definition list_item_size :: "janet_list_kind \<Rightarrow> nat" where
  "list_item_size kind =
     (case kind of LIST_BOOL \<Rightarrow> 1 | LIST_I8 \<Rightarrow> 1 | LIST_U8 \<Rightarrow> 1 | LIST_I16 \<Rightarrow> 2 | LIST_U16 \<Rightarrow> 2
      | LIST_I32 \<Rightarrow> 4 | LIST_U32 \<Rightarrow> 4 | LIST_F32 \<Rightarrow> 4 | LIST_I64 \<Rightarrow> 8 | LIST_U64 \<Rightarrow> 8 | LIST_F64 \<Rightarrow> 8)"

definition checked :: "panic + 'a \<Rightarrow> panic + unit" where
  "checked a = map_sum id (\<lambda>_. ()) a"

definition validate_list_item :: "'v api \<Rightarrow> janet_list_kind \<Rightarrow> string \<Rightarrow> 'v \<Rightarrow> panic + unit" where
  "validate_list_item J kind where item =
     (case kind of
        LIST_BOOL \<Rightarrow> checked (get (getboolean J) item)
      | LIST_I8 \<Rightarrow> checked (get_i8_arg J where item)
      | LIST_U8 \<Rightarrow> checked (get_u8_arg J where item)
      | LIST_I16 \<Rightarrow> checked (get (getinteger16 J) item)
      | LIST_U16 \<Rightarrow> checked (get (getuinteger16 J) item)
      | LIST_I32 \<Rightarrow> checked (get (getinteger J) item)
      | LIST_U32 \<Rightarrow> checked (get (getuinteger J) item)
      | LIST_I64 \<Rightarrow> checked (get (getinteger64 J) item)
      | LIST_U64 \<Rightarrow> checked (get (getuinteger64 J) item)
      | LIST_F32 \<Rightarrow> checked (get (getnumber J) item)
      | LIST_F64 \<Rightarrow> checked (get (getnumber J) item))"

definition alloc_list_items :: "allocator \<Rightarrow> nat \<Rightarrow> nat \<Rightarrow> string \<Rightarrow> panic + unit" where
  "alloc_list_items A count item_size where =
     (if count = 0 then Inr ()
      else if count > (2 ^ 64 - 1) div item_size then Inl (Panic where ''list is too large'')
      else if c_malloc A (count * item_size) = None then Inl (Panic where ''temporary allocation failed'')
      else Inr ())"

text \<open>The array is filled by the getter of the kind, then handed to the setter of the kind.\<close>

definition fill_and_set ::
    "bwrap \<Rightarrow> ('v \<Rightarrow> panic + 'd) \<Rightarrow> 'v list \<Rightarrow> ('d list \<Rightarrow> (rc \<times> builder) option) \<Rightarrow> string \<Rightarrow> (unit, bwrap) call" where
  "fill_and_set w getd values store where =
     arg w (get_all getd values) (\<lambda>items. check_builder_result w where (store items))"

text \<open>The switch of \<open>cfun_set_list_values\<close> over the kind.\<close>

definition set_list_items ::
    "allocator \<Rightarrow> 'v api \<Rightarrow> bwrap \<Rightarrow> builder_ptr \<Rightarrow> nat \<Rightarrow> 'v list \<Rightarrow> janet_list_kind \<Rightarrow> string \<Rightarrow> (unit, bwrap) call" where
  "set_list_items A J w p index values kind where =
     (let b = w_builder w; body = h_body p; dw = h_dwords p in
     (case kind of
        LIST_BOOL \<Rightarrow> fill_and_set w (\<lambda>v. map_sum id of_bool (get (getboolean J) v)) values
          (capnp_builder_set_list_bool A b body dw index) where
      | LIST_I8 \<Rightarrow> fill_and_set w (get_i8_arg J where) values (capnp_builder_set_list_u8 A b body dw index) where
      | LIST_U8 \<Rightarrow> fill_and_set w (get_u8_arg J where) values (capnp_builder_set_list_u8 A b body dw index) where
      | LIST_I16 \<Rightarrow> fill_and_set w (get (getinteger16 J)) values (capnp_builder_set_list_u16 A b body dw index) where
      | LIST_U16 \<Rightarrow> fill_and_set w (get (getuinteger16 J)) values (capnp_builder_set_list_u16 A b body dw index) where
      | LIST_I32 \<Rightarrow> fill_and_set w (get (getinteger J)) values (capnp_builder_set_list_u32 A b body dw index) where
      | LIST_U32 \<Rightarrow> fill_and_set w (get (getuinteger J)) values (capnp_builder_set_list_u32 A b body dw index) where
      | LIST_I64 \<Rightarrow> fill_and_set w (get (getinteger64 J)) values (capnp_builder_set_list_u64 A b body dw index) where
      | LIST_U64 \<Rightarrow> fill_and_set w (get (getuinteger64 J)) values (capnp_builder_set_list_u64 A b body dw index) where
      | LIST_F32 \<Rightarrow> fill_and_set w (get_float J) values (capnp_builder_set_list_f32 A b body dw index) where
      | LIST_F64 \<Rightarrow> fill_and_set w (get (getnumber J)) values (capnp_builder_set_list_f64 A b body dw index) where))"

definition cfun_set_list_values ::
    "allocator \<Rightarrow> 'v api \<Rightarrow> bwrap \<Rightarrow> builder_ptr \<Rightarrow> 'v \<Rightarrow> 'v \<Rightarrow> janet_list_kind \<Rightarrow> string \<Rightarrow> (unit, bwrap) call" where
  "cfun_set_list_values A J w p index values kind where =
     arg w (get_pointer_index J p index where) (\<lambda>index.
     arg w (get (getindexed J) values) (\<lambda>values.
     arg w (get_all (validate_list_item J kind where) values) (\<lambda>_.
     arg w (alloc_list_items A (length values) (list_item_size kind) where) (\<lambda>_.
       set_list_items A J w p index values kind where))))"

definition cfun_set_list_text :: "allocator \<Rightarrow> 'v api \<Rightarrow> bwrap \<Rightarrow> builder_ptr \<Rightarrow> 'v \<Rightarrow> 'v \<Rightarrow> (unit, bwrap) call" where
  "cfun_set_list_text A J w p index values =
     arg w (get_pointer_index J p index ''capnp/set-list-text'') (\<lambda>index.
     arg w (get (getindexed J) values) (\<lambda>values.
     arg w (get_all (\<lambda>v. checked (get (getbytes J) v)) values) (\<lambda>_.
     arg w (alloc_list_items A (length values) 8 ''capnp/set-list-text'') (\<lambda>_.
     arg w (alloc_list_items A (length values) 8 ''capnp/set-list-text'') (\<lambda>_.
       fill_and_set w (get (getbytes J)) values
         (capnp_builder_set_list_text_n A (w_builder w) (h_body p) (h_dwords p) index) ''capnp/set-list-text'')))))"

definition cfun_set_list_void :: "allocator \<Rightarrow> 'v api \<Rightarrow> bwrap \<Rightarrow> builder_ptr \<Rightarrow> 'v \<Rightarrow> 'v \<Rightarrow> (unit, bwrap) call" where
  "cfun_set_list_void A J w p index count =
     arg w (get_pointer_index J p index ''capnp/set-list-void'') (\<lambda>index.
     arg w (get (getuinteger J) count) (\<lambda>count.
       check_builder_result w ''capnp/set-list-void''
         (capnp_builder_set_list_void A (w_builder w) (h_body p) (h_dwords p) index (unat count))))"

section \<open>Finished messages\<close>

definition cfun_finish_builder :: "allocator \<Rightarrow> bwrap \<Rightarrow> (byte list, bwrap) call" where
  "cfun_finish_builder A w =
     arg w (require (root_initialized w) (Panic ''capnp/finish-builder'' ''root is not initialized'')) (\<lambda>_. do {
       (r, flat) \<leftarrow> capnp_builder_serialize A (w_builder w);
       Some (if r \<noteq> CAPNP_OK then Inl (Builder_panic ''capnp/finish-builder'' r)
         else if length flat > 2147483647 then Inl (Panic ''capnp/finish-builder'' ''message exceeds Janet's buffer limit'')
         else Inr flat, w) })"

text \<open>One field \<open>[kind off val]\<close> of \<open>cfun_build_message\<close>. The offset is not compared with the sections
  of the struct; \<open>strcmp\<close> reads the kind up to its first NUL.\<close>

definition build_value ::
    "allocator \<Rightarrow> 'v api \<Rightarrow> builder \<Rightarrow> bptr \<Rightarrow> nat \<Rightarrow> byte list \<Rightarrow> u32 \<Rightarrow> 'v \<Rightarrow> (panic + builder) option" where
  "build_value A J b body dwords kind off val =
     (let set = (\<lambda>R e. do { (r, b) \<leftarrow> R; Some (if r \<noteq> CAPNP_OK then Inl (Panic ''capnp/build-message'' e) else Inr b) }) in
      if kind = c_str ''u16'' then do { v \<leftarrow> unwrap_integer J val; set (capnp_builder_set_u16 b body (unat off) (ucast v)) ''set-u16 failed'' }
      else if kind = c_str ''u32'' then do { v \<leftarrow> unwrap_integer J val; set (capnp_builder_set_u32 b body (unat off) v) ''set-u32 failed'' }
      else if kind = c_str ''u64'' then
        (case get (getuinteger64 J) val of Inl e \<Rightarrow> Some (Inl e)
         | Inr v \<Rightarrow> set (capnp_builder_set_u64 b body (unat off) v) ''set-u64 failed'')
      else if kind = c_str ''f64'' then
        (if \<not> is_number J val then Some (Inl (Panic ''capnp/build-message'' ''f64 value must be number''))
         else set (capnp_builder_set_f64 b body (unat off) (unwrap_number J val)) ''set-f64 failed'')
      else if kind = c_str ''bool'' then set (capnp_builder_set_bool b body (unat off) (truthy J val)) ''set-bool failed''
      else if kind = c_str ''text'' then
        (case string_of J val of None \<Rightarrow> Some (Inl (Panic ''capnp/build-message'' ''text value must be string''))
         | Some s \<Rightarrow> set (capnp_builder_set_text A b body dwords (unat (ucast off :: u16)) s) ''set-text failed'')
      else Some (Inl (Panic ''capnp/build-message'' ''unknown field kind'')))"

definition build_field :: "allocator \<Rightarrow> 'v api \<Rightarrow> builder \<Rightarrow> bptr \<Rightarrow> nat \<Rightarrow> 'v \<Rightarrow> (panic + builder) option" where
  "build_field A J b body dwords field =
     (let fail = (\<lambda>e. Some (Inl (Panic ''capnp/build-message'' e))) in
      case getindexed J field of None \<Rightarrow> fail ''field must be indexed''
      | Some tup \<Rightarrow>
          if length tup < 3 then fail ''field needs [kind off val]''
          else case keyword_of J (tup ! 0) of None \<Rightarrow> fail ''field kind must be keyword''
          | Some kind \<Rightarrow>
              if \<not> is_number J (tup ! 1) then fail ''field offset must be number''
              else do {
                off \<leftarrow> unwrap_integer J (tup ! 1);
                if sint off < 0 then fail ''negative offset''
                else build_value A J b body dwords (takeWhile (\<lambda>c. c \<noteq> 0) kind) off (tup ! 2) })"

fun build_fields :: "allocator \<Rightarrow> 'v api \<Rightarrow> builder \<Rightarrow> bptr \<Rightarrow> nat \<Rightarrow> 'v list \<Rightarrow> (panic + builder) option" where
  "build_fields A J b body dwords [] = Some (Inr b)"
| "build_fields A J b body dwords (f # fs) = do {
     r \<leftarrow> build_field A J b body dwords f;
     case r of Inl e \<Rightarrow> Some (Inl e) | Inr b \<Rightarrow> build_fields A J b body dwords fs }"

text \<open>The length is cast to \<open>int32_t\<close>: a longer message would be a negative one, for which the machine
  defines nothing.\<close>

definition cfun_build_message :: "allocator \<Rightarrow> 'v api \<Rightarrow> 'v \<Rightarrow> 'v \<Rightarrow> 'v \<Rightarrow> (byte list, unit) call" where
  "cfun_build_message A J dwords pwords field_list =
     (let fail = (\<lambda>e. Some (Inl (Panic ''capnp/build-message'' e), ())) in
      arg () (get (getinteger J) dwords) (\<lambda>dwords.
      arg () (get (getinteger J) pwords) (\<lambda>pwords.
      if sint dwords < 0 \<or> sint dwords > 65535 \<or> sint pwords < 0 \<or> sint pwords > 65535 then fail ''bad dwords/pwords''
      else arg () (get (getindexed J) field_list) (\<lambda>field_list. do {
        (r, b, root) \<leftarrow> capnp_builder_root A (capnp_builder_init A);
        if r \<noteq> CAPNP_OK then fail ''struct alloc failed'' else do {
        (r, b, body) \<leftarrow> capnp_builder_struct A b root (unat dwords) (unat pwords);
        if r \<noteq> CAPNP_OK then fail ''struct alloc failed'' else do {
        res \<leftarrow> build_fields A J b body (unat dwords) field_list;
        case res of Inl e \<Rightarrow> Some (Inl e, ())
        | Inr b \<Rightarrow> do {
            (r, flat) \<leftarrow> capnp_builder_serialize A b;
            if r \<noteq> CAPNP_OK then fail ''serialize failed''
            else if length flat > 2147483647 then None else Some (Inr flat, ()) } } } }))))"

section \<open>Text\<close>

definition builder_tostring :: "bwrap \<Rightarrow> byte list" where
  "builder_tostring w =
     (let n = capnp_builder_nsegs (w_builder w) in
      snprintf 64 (c_str ''arena '' @ dec n @ c_str '' segment'' @ (if n = 1 then [] else c_str ''s'')))"

definition builder_ptr_tostring :: "builder_ptr \<Rightarrow> byte list" where
  "builder_ptr_tostring p =
     snprintf 64 (c_str ''struct '' @ dec (h_dwords p) @ c_str '' data/'' @ dec (h_pwords p) @ c_str '' pointer words'')"

definition builder_list_tostring :: "builder_list \<Rightarrow> byte list" where
  "builder_list_tostring l = snprintf 48 (c_str ''struct-list '' @ dec (l_count l))"

end
