(* ===== verification/ModProps.thy ===== *)
theory ModProps
  imports ModWrite BuilderClaims
begin

text \<open>
  What one call of the Janet module does to the arena: \<open>within_section\<close> says that it returns,
  keeps the arena valid, and changes nothing that was there before outside one range of bytes. Every
  setter stays inside the struct its handle names, every allocation returns a handle whose struct
  lies in the arena.
\<close>

section \<open>Ranges\<close>

lemma only_range_widen:
  "only_range segs s a n segs' \<Longrightarrow> c \<le> a \<Longrightarrow> a + n \<le> c + k \<Longrightarrow> only_range segs s c k segs'"
  unfolding only_range_def by (meson le_trans)

lemma range_bound:
  assumes "builder_inv b" "in_range (segs_of b) s a n"
  shows "a + n < 2 ^ 63" "s < length (bsegs b)"
proof -
  show s: "s < length (bsegs b)" using assms(2) by (simp add: in_range_def)
  show "a + n < 2 ^ 63"
    using assms(2) length_nth_segs [OF assms(1) s] builder_invD [OF assms(1) s] by (auto simp: in_range_def bseg_ok_def)
qed

section \<open>The builder\<close>

lemma set_bytes_within:
  assumes inv: "builder_inv b" and r: "in_range (segs_of b) (bp_seg body) (bp_word body * 8) n" "off + length bs \<le> n"
  shows "\<exists>r b'. set_bytes b body off bs = Some (r, b') \<and> builder_inv b' \<and>
    only_range (segs_of b) (bp_seg body) (bp_word body * 8) n (segs_of b')"
proof -
  have b63: "bp_word body * 8 + n < 2 ^ 63" by (rule range_bound(1) [OF inv r(1)])
  have a: "sz (bp_word body * WORD_BYTES + off) = bp_word body * 8 + off" using b63 r(2) by (simp add: WORD_BYTES_def)
  have "in_range (segs_of b) (bp_seg body) (bp_word body * 8 + off) (length bs)" using r by (simp add: in_range_def)
  from seg_store_ok [OF inv this] obtain b' where b': "seg_store b (bp_seg body) (bp_word body * 8 + off) bs = Some b'"
    "builder_inv b'" "segs_of b' = put (segs_of b) (bp_seg body) (bp_word body * 8 + off) bs" by blast
  have "only_range (segs_of b) (bp_seg body) (bp_word body * 8 + off) (length bs) (segs_of b')"
    unfolding b'(3) using r by (intro only_range_put) (simp add: in_range_def)
  then have "only_range (segs_of b) (bp_seg body) (bp_word body * 8) n (segs_of b')"
    by (rule only_range_widen) (use r(2) in simp_all)
  then show ?thesis using b'(1,2) inv by (auto simp: set_bytes_def a Let_def only_range_refl)
qed

text \<open>Setting a bit stores a byte in which the bit is the value.\<close>

lemma bit_mask_cases: "(x OR bit_mask i) AND bit_mask i \<noteq> 0" "(x AND NOT (bit_mask i)) AND bit_mask i = 0"
proof -
  have m: "bit (bit_mask i) (i mod 8)" by (simp add: bit_mask_def bit_simps)
  then have "bit ((x OR bit_mask i) AND bit_mask i) (i mod 8)" by (simp add: bit_simps)
  then show "(x OR bit_mask i) AND bit_mask i \<noteq> 0" by (metis bit_0_eq bot_apply bot_bool_def)
  show "(x AND NOT (bit_mask i)) AND bit_mask i = 0" by (rule bit_word_eqI) (auto simp: bit_simps)
qed

lemma set_bool_bytes:
  assumes inv: "builder_inv b" and r: "in_range (segs_of b) (bp_seg body) (bp_word body * 8) n" "off div 8 < n"
  shows "\<exists>x. capnp_builder_set_bool b body off v = set_bytes b body (off div 8) [x] \<and> (x AND bit_mask off \<noteq> 0 \<longleftrightarrow> v)"
proof -
  note b = range_bound [OF inv r(1)]
  let ?a = "bp_word body * 8 + off div 8"
  have a: "sz (bp_word body * WORD_BYTES + off div 8) = ?a" using b(1) r(2) by (simp add: WORD_BYTES_def)
  have "?a + 1 \<le> b_words (bsegs b ! bp_seg body) * 8"
    using r length_nth_segs [OF inv b(2)] by (simp add: in_range_def)
  then obtain p where p: "seg_load b (bp_seg body) ?a 1 = Some p"
    using b(2) builder_invD [OF inv b(2)] by (auto simp: seg_load_def rd_def bseg_ok_def)
  let ?x = "if v then hd p OR bit_mask off else hd p AND NOT (bit_mask off)"
  have s: "set_bytes b body (off div 8) [?x] = (if body_ok b body (sz (?a + 1)) \<noteq> CAPNP_OK then Some (CAPNP_ERR_BOUNDS, b)
      else do { b \<leftarrow> seg_store b (bp_seg body) ?a [?x]; Some (CAPNP_OK, b) })"
    by (simp add: set_bytes_def a)
  have "capnp_builder_set_bool b body off v = set_bytes b body (off div 8) [?x]"
    unfolding s using p by (auto simp: capnp_builder_set_bool_def a Let_def)
  then show ?thesis using bit_mask_cases by (intro exI [of _ ?x]) simp
qed

lemma set_bool_within:
  assumes inv: "builder_inv b" and r: "in_range (segs_of b) (bp_seg body) (bp_word body * 8) n" "off div 8 < n"
  shows "\<exists>r b'. capnp_builder_set_bool b body off v = Some (r, b') \<and> builder_inv b' \<and>
    only_range (segs_of b) (bp_seg body) (bp_word body * 8) n (segs_of b')"
proof -
  obtain x where x: "capnp_builder_set_bool b body off v = set_bytes b body (off div 8) [x]"
    using set_bool_bytes [OF assms] by blast
  show ?thesis unfolding x by (rule set_bytes_within [OF inv r(1)]) (use r(2) in simp)
qed

text \<open>A fresh run whose pointer is written into an existing slot.\<close>

lemma place_run:
  assumes as: "address_space A" and inv: "builder_inv b1" and slot: "has_word (segs_of b) s w"
    and f: "fresh (segs_of b) n segs1 seg word" and o: "only_range (segs_of b) s (w * 8) 8 (segs_of b1)"
    and r: "in_range (segs_of b1) seg (word * 8) (n * 8)"
  shows "\<exists>r b'. write_ptr A b1 s w seg word mk = Some (r, b') \<and> builder_inv b' \<and>
    only_range (segs_of b) s (w * 8) 8 (segs_of b') \<and> in_range (segs_of b') seg (word * 8) (n * 8)"
proof -
  have slot1: "has_word (segs_of b1) s w" using only_rangeD(1) [OF o] slot by (simp add: has_word_def)
  have seg: "seg < length (bsegs b1)" by (rule range_bound(2) [OF inv r])
  obtain r' b' where w: "write_ptr A b1 s w seg word mk = Some (r', b')" "builder_inv b'"
    "if r' = CAPNP_OK then linked mk (segs_of b1) s w seg word (segs_of b')
     else r' = CAPNP_ERR_ALLOC \<and> s \<noteq> seg \<and> segs_of b' = segs_of b1"
    using write_ptr_ok [OF as inv slot1 seg, of word mk] by blast
  have "only_range (segs_of b1) s (w * 8) 8 (segs_of b')"
    using w(3) linked_only_slot [OF _ slot1, of mk seg word "segs_of b'"] seg only_range_refl by (auto split: if_splits)
  then show ?thesis using w(1,2) only_range_trans [OF o] only_rangeD(1) [OF _ r] by blast
qed

lemma builder_struct_within:
  assumes as: "address_space A" and inv: "builder_inv b" and slot: "has_word (segs_of b) (bp_seg p) (bp_word p)"
  shows "\<exists>r b' body. capnp_builder_struct A b p dw pw = Some (r, b', body) \<and> builder_inv b' \<and>
    only_range (segs_of b) (bp_seg p) (bp_word p * 8) 8 (segs_of b') \<and>
    (r = CAPNP_OK \<longrightarrow> in_range (segs_of b') (bp_seg body) (bp_word body * 8) ((dw + pw) * 8))"
proof (cases "dw + pw = 0")
  case True
  obtain b' where b': "store_w b (bp_seg p) (bp_word p) (capnp_wp_make_struct (-1) 0 0) = Some b'" "builder_inv b'"
    "only_range (segs_of b) (bp_seg p) (bp_word p * 8) 8 (segs_of b')" by (rule store_slot_safe [OF inv slot])
  have "in_range (segs_of b') (bp_seg p) (bp_word p * 8) 8"
    by (rule only_rangeD(1) [OF b'(3)]) (use slot in \<open>simp add: has_word_def\<close>)
  then show ?thesis using True b' by (auto simp: capnp_builder_struct_def in_range_def)
next
  case False
  have ne: "bsegs b \<noteq> []" by (rule has_word_nonempty [OF slot])
  show ?thesis
  proof (cases rule: alloc_words_cases [OF as inv ne, of "dw + pw"])
    case (1 r b1 s w)
    then show ?thesis using False only_range_refl by (auto simp: capnp_builder_struct_def)
  next
    case (2 b1 seg word)
    note o = only_range_le [OF fresh_le [OF 2(3)], of "bp_seg p" "bp_word p * 8" 8]
    obtain r b' where "write_ptr A b1 (bp_seg p) (bp_word p) seg word (\<lambda>off. capnp_wp_make_struct off dw pw) = Some (r, b')"
      "builder_inv b'" "only_range (segs_of b) (bp_seg p) (bp_word p * 8) 8 (segs_of b')"
      "in_range (segs_of b') seg (word * 8) ((dw + pw) * 8)"
      using place_run [OF as 2(2) slot 2(3) o fresh_range [OF 2(3)]] by blast
    then show ?thesis using 2(1) False by (auto simp: capnp_builder_struct_def write_struct_ptr_def)
  qed
qed

lemma builder_root_within:
  assumes as: "address_space A" and inv: "builder_inv b" and ne: "bsegs b \<noteq> []"
  shows "\<exists>r b'. capnp_builder_root A b = Some (r, b', bptr0) \<and> builder_inv b' \<and> segs_le (segs_of b) (segs_of b') \<and>
    (r = CAPNP_OK \<longrightarrow> has_word (segs_of b') 0 0)"
proof (cases "b_words (bsegs b ! 0) \<noteq> 0")
  case True
  then show ?thesis using inv segs_le_refl by (simp add: capnp_builder_root_def)
next
  case False
  show ?thesis
  proof (cases rule: alloc_words_cases [OF as inv ne, of 1])
    case (1 r b1 s w)
    then show ?thesis using False ne segs_le_refl by (simp add: capnp_builder_root_def)
  next
    case (2 b1 seg word)
    then show ?thesis using False ne fresh_le [OF 2(3)] fresh_range [OF 2(3)]
      by (auto simp: capnp_builder_root_def has_word_def)
  qed
qed

lemma builder_list_struct_within:
  assumes as: "address_space A" and inv: "builder_inv b" and bs: "bp_seg body < length (bsegs b)"
    and slot: "sz (bp_word body + dw + i) = w"
  shows "\<exists>r b' first. capnp_builder_set_list_struct A b body dw i n edw epw = Some (r, b', first) \<and> builder_inv b' \<and>
    only_range (segs_of b) (bp_seg body) (w * 8) 8 (segs_of b') \<and>
    (r = CAPNP_OK \<longrightarrow> in_range (segs_of b') (bp_seg first) (bp_word first * 8) (n * (edw + epw) * 8))"
proof (cases rule: ptr_slot_cases [OF inv bs, of dw i])
  case 1
  then show ?thesis using inv by (simp add: capnp_builder_set_list_struct_def only_range_refl)
next
  case (2 sw)
  let ?cw = "n * (edw + epw)" and ?t = "capnp_wp_make_struct (int n) edw epw"
  have sw: "sw = w" using 2(2) slot by simp
  have ne: "bsegs b \<noteq> []" using bs by auto
  show ?thesis
  proof (cases rule: alloc_words_cases [OF as inv ne, of "1 + ?cw"])
    case (1 r b1 s w')
    then show ?thesis using 2 only_range_refl by (simp add: capnp_builder_set_list_struct_def)
  next
    case a: (2 b1 seg word)
    note r1 = fresh_range [OF a(3)]
    have hw: "has_word (segs_of b1) seg word" using r1 by (simp add: has_word_def in_range_def)
    from store_w_ok [OF a(2) hw, of ?t] obtain b2 where st: "store_w b1 seg word ?t = Some b2" "builder_inv b2"
      "segs_of b2 = put_word (segs_of b1) seg word ?t" by blast
    have o: "only_range (segs_of b) (bp_seg body) (w * 8) 8 (segs_of b2)"
      unfolding st(3) put_word_def by (rule only_range_put_fresh [OF a(3)]) (use hw in \<open>simp_all add: has_word_def\<close>)
    have r2: "in_range (segs_of b2) seg (word * 8) ((1 + ?cw) * 8)"
      unfolding st(3) put_word_def using r1 hw by (simp add: has_word_def)
    obtain r b' where wp: "write_ptr A b2 (bp_seg body) w seg word (\<lambda>off. capnp_wp_make_list off SZ_COMPOSITE (?cw mod 2 ^ 32)) = Some (r, b')"
      "builder_inv b'" "only_range (segs_of b) (bp_seg body) (w * 8) 8 (segs_of b')"
      "in_range (segs_of b') seg (word * 8) ((1 + ?cw) * 8)"
      using place_run [OF as st(2) 2(3) [unfolded sw] a(3) o r2] by blast
    have "in_range (segs_of b') seg ((word + 1) * 8) (?cw * 8)" using wp(4) by (simp add: in_range_def)
    then show ?thesis using 2(1) a(1) st(1) wp(1-3) sw
      by (simp add: capnp_builder_set_list_struct_def write_list_ptr_def)
  qed
qed

end
