(* ===== verification/CanonClaims.thy ===== *)
theory CanonClaims
  imports CanonProps ModProps
begin

text \<open>
  Properties of the deep copy and of the canonicalizers, and the demonstration that a copy into a
  slot outside the last segment writes a pointer to the wrong segment.
\<close>

section \<open>The canonicalizer\<close>

text \<open>The message \<open>capnp_canonicalize\<close> works on.\<close>

definition fresh_limits :: "message \<Rightarrow> message" where
  "fresh_limits m = m\<lparr>owned := None, traversal_left := DEFAULT_TRAVERSAL_WORDS, depth_limit := DEFAULT_DEPTH_LIMIT\<rparr>"

text \<open>The words of a buffer.\<close>

definition buf_word :: "byte list \<Rightarrow> nat \<Rightarrow> u64" where
  "buf_word buf i = capnp_load_le64 (take 8 (drop (i * 8) buf))"

lemma at_same: "at m (traversal_left m) = m"
  by simp

lemma init_builder:
  assumes "address_space A"
  shows "capnp_builder_init_sized A BUILDER_DEFAULT_FIRST_WORDS = builder0 \<or>
    (builder_inv (capnp_builder_init_sized A BUILDER_DEFAULT_FIRST_WORDS) \<and>
     segs_of (capnp_builder_init_sized A BUILDER_DEFAULT_FIRST_WORDS) = [[]])"
proof -
  have inv: "builder_inv builder0" by (simp add: builder0_def builder_inv_def)
  show ?thesis
    by (cases rule: append_segment_cases [OF inv assms, of 1024])
      (simp_all add: capnp_builder_init_sized_def BUILDER_DEFAULT_FIRST_WORDS_def BUILDER_MAX_SEGMENT_WORDS_def
        segs_of_def seg_used_def builder0_def)
qed

lemma force_single_same [simp]:
  "builder_inv (b\<lparr>force_single := f\<rparr>) = builder_inv b" "segs_of (b\<lparr>force_single := f\<rparr>) = segs_of b"
  by (simp_all add: builder_inv_def segs_of_def)

lemma canonicalize_result:
  assumes as: "address_space A" and m: "placed (fresh_limits m)"
  shows "\<exists>r out. capnp_canonicalize A m = Some (r, out) \<and> r \<in> {CAPNP_OK, CAPNP_ERR_KIND, CAPNP_ERR_ALLOC} \<and>
    (r = CAPNP_OK \<longrightarrow> length out mod 8 = 0 \<and> 8 \<le> length out \<and> length out < 2 ^ 63 \<and>
      (\<exists>t root. capnp_root (fresh_limits m) ptr0 = Some (CAPNP_OK, at (fresh_limits m) t, root) \<and>
         copied (fresh_limits m) (buf_word out) 1 (length out div 8) 0 root))"
proof -
  let ?m = "fresh_limits m" and ?b = "(capnp_builder_init_sized A BUILDER_DEFAULT_FIRST_WORDS)\<lparr>force_single := True\<rparr>"
  have "\<exists>r t root. capnp_root ?m ptr0 = Some (r, at ?m t, root) \<and> (r = CAPNP_OK \<longrightarrow> tracked ?m root)"
    using root_at [OF m, of "traversal_left ?m"] unfolding at_same by blast
  then obtain r t root where root: "capnp_root ?m ptr0 = Some (r, at ?m t, root)" "r = CAPNP_OK \<Longrightarrow> tracked ?m root" by blast
  note def = capnp_canonicalize_def [of A m, folded fresh_limits_def, unfolded Let_def]
  show ?thesis
  proof (cases "r = CAPNP_OK")
    case False
    then show ?thesis using root by (simp add: def)
  next
    case True
    consider "capnp_builder_init_sized A BUILDER_DEFAULT_FIRST_WORDS = builder0"
      | "builder_inv ?b" "segs_of ?b = [[]]" using init_builder [OF as] by auto
    then show ?thesis
    proof cases
      case 1
      then have "alloc_local A ?b 1 = Some (CAPNP_ERR_ARG, ?b, 0, 0)" by (simp add: alloc_local_def builder0_def Let_def)
      then show ?thesis using root True by (simp add: def)
    next
      case inv: 2
      have one: "length (bsegs ?b) = 1" using inv(2) by (metis length_segs_of One_nat_def list.size(3,4) add_0)
      then have ne: "bsegs ?b \<noteq> []" by auto
      show ?thesis
      proof (cases rule: alloc_local_cases [OF as inv(1) ne, of 1])
        case (1 b' s w)
        then show ?thesis using root True by (simp add: def)
      next
        case (2 b1 seg word)
        have w: "seg = 0" "word = 0" using 2(4,5) one inv(2) by (simp_all add: used_def)
        have u: "used (segs_of b1) 0 = 1" using 2(6) w by simp
        have len1: "length (bsegs b1) = 1" using 2(3) one by simp
        have hw: "has_word (segs_of b1) 0 0" using has_word_used [of 0 "segs_of b1"] u len1 by simp
        note c = copy.rec_copies [OF as placed_wf [OF m] root(2) [OF True] 2(2) hw, of 65 t, unfolded copies_def]
        obtain r2 t2 b2 where b2: "copy_ptr A 65 (at ?m t) b1 0 0 root = Some (r2, at ?m t2, b2)" "builder_inv b2"
          "length (bsegs b2) = length (bsegs b1)" "keeps (segs_of b1) {(0, 0)} (segs_of b2)"
          "r2 = CAPNP_OK \<Longrightarrow> copied ?m (word_at (segs_of b2) 0) 1 (used (segs_of b2) 0) 0 root"
          using resultE [OF c] u len1 by (metis One_nat_def diff_Suc_1)
        have cp: "capnp_copy_ptr_to_word A 0 (at ?m t) b1 0 0 root = Some (r2, at ?m t2, b2)"
          using b2(1) by (simp add: capnp_copy_ptr_to_word_def)
        show ?thesis
        proof (cases "r2 = CAPNP_OK")
          case False
          then show ?thesis using root True 2(1) w cp by (simp add: def)
        next
          case ok: True
          have s0: "0 < length (bsegs b2)" using b2(3) len1 by simp
          have bs: "bseg_ok (bsegs b2 ! 0)" by (rule builder_invD [OF b2(2) s0])
          define nb where "nb = b_words (bsegs b2 ! 0) * WORD_BYTES"
          define out where "out = seg_used (bsegs b2 ! 0)"
          have lo: "length out = nb" using length_seg_used [OF bs] by (simp add: out_def nb_def WORD_BYTES_def)
          have so: "segs_of b2 ! 0 = out" using s0 by (simp add: nth_segs_of out_def)
          have rd: "rd (b_data (bsegs b2 ! 0)) 0 nb = Some out"
            using bs by (simp add: rd_def bseg_ok_def out_def seg_used_def nb_def WORD_BYTES_def)
          have "has_word (segs_of b2) 0 0" by (rule keepsD(1) [OF b2(4) hw])
          then have nb8: "8 \<le> nb" using so lo by (simp add: has_word_def in_range_def)
          have wd: "word_at (segs_of b2) 0 = buf_word out" by (simp add: fun_eq_iff word_at_def bytes_at_def buf_word_def so)
          have us: "used (segs_of b2) 0 = length out div 8" by (simp add: used_def so)
          have cpd: "copied ?m (buf_word out) 1 (length out div 8) 0 root" using b2(5) [OF ok] unfolding wd us .
          have nz: "b_words (bsegs b2 ! 0) \<noteq> 0" "WORD_BYTES \<noteq> 0" using nb8 by (auto simp: nb_def WORD_BYTES_def)
          have eq: "capnp_canonicalize A m =
              (case c_malloc A nb of None \<Rightarrow> Some (CAPNP_ERR_ALLOC, []) | Some buf \<Rightarrow> Some (CAPNP_OK, out))"
            using root True 2(1) w cp ok nz rd [unfolded nb_def] by (simp add: def nb_def split: option.split)
          show ?thesis
          proof (cases "mem_ok A nb")
            case False
            then show ?thesis by (simp add: eq c_malloc_def)
          next
            case mem: True
            then have "length out < 2 ^ 63" using as by (simp add: lo address_space_def)
            then show ?thesis using root(1) True cpd nb8 lo mem
              by (simp add: eq c_malloc_def nb_def WORD_BYTES_def)
          qed
        qed
      qed
    qed
  qed
qed

section \<open>A message to evaluate on\<close>

text \<open>A root struct with one data word, 6, which would be a far pointer were it a pointer, and one null pointer.\<close>

definition canon_demo :: message where
  "canon_demo = capnp_message_init
     \<lparr>msegs := \<lparr>seg_data = Some [0, 0, 0, 0, 1, 0, 1, 0, 6, 0, 0, 0, 0, 0, 0, 0, 0, 0, 0, 0, 0, 0, 0, 0],
               seg_words = 3\<rparr> # replicate 15 null_segment, nsegs := 1\<rparr>"

definition canon_root :: ptr where
  "canon_root = ptr0\<lparr>p_word := 1, p_kind := PK_STRUCT, p_dwords := 1, p_pwords := 1\<rparr>"

lemma canon_demo_wf: "wf_message canon_demo"
  by (simp add: canon_demo_def capnp_message_init_def wf_message_def wf_segment_def MAX_SEGMENTS_def WORD_BYTES_def)

lemma canon_demo_limits: "fresh_limits canon_demo = canon_demo"
  by (simp add: fresh_limits_def canon_demo_def capnp_message_init_def)

lemma canon_root_eq: "capnp_root canon_demo ptr0 = Some (CAPNP_OK, at canon_demo 8388605, canon_root)"
  by (simp add: capnp_root_def canon_demo_def capnp_message_init_def canon_root_def
      MAX_SEGMENTS_def DEFAULT_DEPTH_LIMIT_def DEFAULT_TRAVERSAL_WORDS_def run)

lemma canon_demo_sel:
  "depth_limit canon_demo = 64" "read_word canon_demo 0 0 = Some 0x1000100000000" "read_word canon_demo 0 2 = Some 0"
  by (simp_all add: canon_demo_def capnp_message_init_def DEFAULT_DEPTH_LIMIT_def MAX_SEGMENTS_def run)

lemma canon_root_at: "resolve_ptr (at canon_demo 8388608) 0 0 64 ptr0 = Some (CAPNP_OK, at canon_demo 8388605, canon_root)"
  by (simp add: canon_demo_def capnp_message_init_def canon_root_def MAX_SEGMENTS_def run)

lemma canon_null_at: "resolve_ptr (at canon_demo 8388608) 0 2 64 ptr0 = Some (CAPNP_OK, at canon_demo 8388607, set_null 0 2 ptr0)"
  by (simp add: canon_demo_def capnp_message_init_def MAX_SEGMENTS_def run ptr0_def)

lemma canon_root_slots: "ptr_slots canon_root = {(0, 2)}"
  by (simp add: ptr_slots_def slots_at_def canon_root_def ptr0_def lessThan_Suc)

lemma no_slots: "ptr_slots (set_null seg word p) = {}"
  by (simp add: ptr_slots_def set_null_def)

lemma canon_demo_sound: "s \<in> {(0, 0), (0, 2)} \<Longrightarrow> sound_word canon_demo s"
proof (rule sound_wordI)
  fix seg word w
  assume "(seg, word) \<in> {(0, 0), (0, 2)}" "read_word canon_demo seg word = Some w"
  then have "w \<in> {0x1000100000000, 0}" by (auto simp: canon_demo_sel)
  then show "covered_word canon_demo word w (depth_limit canon_demo)"
    unfolding canon_demo_sel(1) by (subst covered_word.simps) (auto simp: run)
next
  fix seg word t m' p
  assume "(seg, word) \<in> {(0 :: nat, 0 :: nat), (0, 2)}"
    and "resolve_ptr (at canon_demo t) seg word (depth_limit canon_demo) ptr0 = Some (CAPNP_OK, m', p)"
  then have "p \<in> {canon_root, set_null 0 2 ptr0}"
    using resolve_same [OF canon_root_at] resolve_same [OF canon_null_at] by (auto simp: canon_demo_sel(1))
  then show "ptr_slots p \<subseteq> {(0, 0), (0, 2)}"
    using canon_root_slots no_slots by auto
qed

lemma canon_demo_placed: "placed canon_demo" "fresh_limits canon_demo = canon_demo"
  by (simp_all add: placed_def canon_demo_wf canon_demo_sound canon_demo_limits)

lemma canon_root_tracked: "tracked canon_demo canon_root"
  by (simp add: tracked_def canon_root_slots canon_demo_sound)
    (simp add: well_placed_def in_bounds_def canon_demo_def canon_root_def capnp_message_init_def obj_words_def ptr0_def)

text \<open>Its canonicalization step by step.\<close>

definition canon_b0 :: builder where "canon_b0 = \<lparr>bsegs = [\<lparr>b_data = replicate 8192 0, b_words = 1, b_cap = 1024\<rparr>],
     segs_cap = 4, max_seg_words = 0, force_single = True\<rparr>"
lemma canon_init: "alloc_local machine ((capnp_builder_init_sized machine BUILDER_DEFAULT_FIRST_WORDS)\<lparr>force_single := True\<rparr>) 1 = Some (CAPNP_OK, canon_b0, 0, 0)"
  by (simp add: capnp_builder_init_sized_def BUILDER_DEFAULT_FIRST_WORDS_def append_segment_def builder0_def ensure_segs_cap_def c_calloc_def machine canon_b0_def alloc_local_def double_until.simps BSEG_SIZE_def build)
definition canon_b2 :: builder where "canon_b2 = \<lparr>bsegs = [\<lparr>b_data = [0, 0, 0, 0, 1, 0, 0, 0, 6, 0, 0, 0, 0, 0, 0, 0]@ replicate 8176 0, b_words = 2, b_cap = 1024\<rparr>],
     segs_cap = 4, max_seg_words = 0, force_single = True\<rparr>"
lemma copy_root: "copy_ptr A 65 m b 0 0 canon_root = copy_struct A (copy_ptr A 64) m b 0 0 canon_root"
proof -
  have 65: "(65 :: nat) = Suc 64" by simp
  show ?thesis unfolding 65 copy_ptr.simps(2) by (simp add: copy_step_def canon_root_def)
qed

lemma canon_field: "capnp_get_u64 canon_demo canon_root 0 0 = Some 6"
  by (simp add: canon_root_def capnp_get_u64_def data_has_bytes_def data_bit_count_def data_bytes_def canon_demo_def
      capnp_message_init_def run)

lemma canon_root_sel [simp]:
  "p_kind canon_root = PK_STRUCT" "p_seg canon_root = 0" "p_word canon_root = 1" "p_dwords canon_root = 1" "p_pwords canon_root = 1"
  by (simp_all add: canon_root_def ptr0_def)

lemma canon_trimmed:
  "trimmed_dwords (at canon_demo t) canon_root = Some 1"
  "trimmed_pwords (at canon_demo 8388605) canon_root = Some (at canon_demo 8388604, 0)"
  "trimmed_pwords (at canon_demo 8388608) canon_root = Some (at canon_demo 8388607, 0)"
  by (simp add: trimmed_dwords_def canon_field)
    (simp_all add: trimmed_pwords_def capnp_getp_def canon_demo_def capnp_message_init_def run
      MAX_SEGMENTS_def DEFAULT_DEPTH_LIMIT_def)

lemma canon_copy: "capnp_copy_ptr_to_word machine 0 (at canon_demo 8388605) canon_b0 0 0 canon_root = Some (CAPNP_OK, at canon_demo 8388604, canon_b2)"
  unfolding capnp_copy_ptr_to_word_def diff_zero copy_root copy_struct_def canon_trimmed
  by simp (simp add: canon_b0_def canon_b2_def alloc_local_def build write_struct_body_data_def near_off_def canon_field
      capnp_wp_make_struct_def)

definition canon_out :: "byte list" where
  "canon_out = [0, 0, 0, 0, 1, 0, 0, 0, 6, 0, 0, 0, 0, 0, 0, 0]"

lemma canon_demo_out: "capnp_canonicalize machine canon_demo = Some (CAPNP_OK, canon_out)"
  unfolding capnp_canonicalize_def Let_def fresh_limits_def [symmetric] canon_demo_placed(2)
  by (simp add: canon_init [simplified] canon_root_eq canon_copy)
    (simp add: canon_b2_def c_malloc_def machine WORD_BYTES_def rd_def canon_out_def)

section \<open>Reading a copied struct\<close>

lemma linked_here:
  assumes "has_word segs s slot" "word_at segs s slot = mk (near_off lo slot)"
  shows "linked mk segs s slot s lo segs"
proof -
  have l: "length (bytes_at segs s (slot * 8) 8) = 8" using assms(1) by (simp add: has_word_def length_bytes_at)
  have "capnp_store_le64 (mk (near_off lo slot)) = bytes_at segs s (slot * 8) 8"
    using le64.store_load [OF l] assms(2) by (simp add: word_at_def)
  then have "near_segs mk segs s slot lo = segs"
    using put_bytes_at [of segs s "slot * 8" 8] assms(1)
    by (simp add: near_segs_def put_word_def near_off_def has_word_def)
  then show ?thesis by (simp add: linked_def)
qed

lemma data_default:
  "p_kind p = PK_STRUCT \<Longrightarrow> p_data_bits p = 0 \<Longrightarrow> p_dwords p \<le> i \<Longrightarrow> capnp_get_u64 m p (i * 8) d = Some d"
  by (simp add: capnp_get_u64_def data_has_bytes_def data_bit_count_def Let_def)

lemma size_keeps_data:
  assumes "struct_size m src nd np" "p_kind src = PK_STRUCT" "p_data_bits src = 0" "nd \<le> i"
  shows "capnp_get_u64 m src (i * 8) 0 = Some 0"
  using assms(1,4) data_default [OF assms(2,3), of i m 0] by (cases "i < p_dwords src") (auto simp: struct_size_def fits_def)

lemma struct_size_le: "struct_size m s nd np \<Longrightarrow> nd \<le> p_dwords s \<and> np \<le> p_pwords s"
  by (auto simp: struct_size_def data_at_def ptr_at_def)

lemma make_struct_empty_resolves:
  assumes m: "holds m segs" and slot: "has_word segs s slot" and w: "word_at segs s slot = capnp_wp_make_struct (-1) 0 0"
    and b: "1 \<le> traversal_left m" "0 < d"
  shows "\<exists>p. resolve_ptr m s slot d out = Some (CAPNP_OK, spend 1 m, p) \<and> p_kind p = PK_STRUCT \<and> p_dwords p = 0 \<and> p_data_bits p = 0"
proof -
  have nz: "capnp_wp_make_struct (-1) 0 0 \<noteq> 0" by (simp add: capnp_wp_make_struct_def)
  show ?thesis
    using holds_word [OF m slot] b w nz charge_out_spend [of 1 0 m]
    by (simp add: resolve_ptr_def charge_spend resolve_word.simps resolve_struct_def Let_def kind_defs)
qed

lemma copied_struct_reads:
  assumes c: "copied m (word_at segs s) lo hi slot src" and src: "p_kind src = PK_STRUCT" "p_data_bits src = 0"
    and np: "p_dwords src < 2 ^ 16" "p_pwords src < 2 ^ 16"
    and slot: "has_word segs s slot" and hi: "hi \<le> used segs s"
    and m2: "holds m2 segs" "small_segs segs" and b: "p_dwords src + p_pwords src + 3 \<le> traversal_left m2" "2 \<le> d"
  shows "\<exists>j p. resolve_ptr m2 s slot d out = Some (CAPNP_OK, spend j m2, p) \<and> p_kind p = PK_STRUCT \<and>
    p_dwords p \<le> p_dwords src \<and> (\<forall>i. capnp_get_u64 m2 p (i * 8) 0 = capnp_get_u64 m src (i * 8) 0)"
  using c
proof cases
  case copied_empty
  obtain p where p: "resolve_ptr m2 s slot d out = Some (CAPNP_OK, spend 1 m2, p)" "p_kind p = PK_STRUCT" "p_dwords p = 0" "p_data_bits p = 0"
    using make_struct_empty_resolves [OF m2(1) slot copied_empty(4), of d out] b by auto
  have "capnp_get_u64 m2 p (i * 8) 0 = capnp_get_u64 m src (i * 8) 0" for i
    using data_default [OF p(2,4), of i m2 0] p(3) size_keeps_data [OF copied_empty(3), of i] src by simp
  then show ?thesis using p by auto
next
  case (copied_struct nd np)
  let ?p = "set_struct s lo nd np (clear_view out)"
  have le: "lo + nd + np \<le> hi" by (rule chain_le [OF _ copied_struct(6)]) (auto dest: copied_le)
  have sl: "s < length segs" using slot by (simp add: has_word_def in_range_def)
  have "(lo + nd + np) * 8 \<le> length (segs ! s)"
    using le hi unfolding used_def by (simp add: less_eq_div_iff_mult_less_eq)
  then have r: "in_range segs s (lo * 8) ((nd + np) * 8)" using sl by (simp add: in_range_def algebra_simps)
  note t = struct_size_le [OF copied_struct(2)]
  have small: "nd < 2 ^ 16" "np < 2 ^ 16" "0 < nd + np" using t np copied_struct(3) by auto
  have budget: "nd + np + 3 \<le> traversal_left m2" using t b(1) by linarith
  obtain j where j: "resolve_ptr m2 s slot d out = Some (CAPNP_OK, spend j m2, ?p)"
    using linked_resolves [OF linked_here [OF slot, of "\<lambda>off. capnp_wp_make_struct off nd np" lo] slot sl m2
        good_tag_struct [OF m2 r small] budget b(2), of out] copied_struct(4) by auto
  have "capnp_get_u64 m2 ?p (i * 8) 0 = capnp_get_u64 m src (i * 8) 0" for i
  proof (cases "i < nd")
    case False
    then show ?thesis
      using data_default [of ?p i m2 0] size_keeps_data [OF copied_struct(2), of i] src
      by (simp add: struct_size_def clear_view_def)
  next
    case True
    have h: "has_word segs s (lo + i)" using r True by (simp add: has_word_def in_range_def)
    have "sz (lo * WORD_BYTES) = lo * 8" using holds_word(3) [OF m2(1) h] by (simp add: WORD_BYTES_def)
    then have a: "data_bytes ?p + i * 8 = (lo + i) * 8" by (simp add: data_bytes_def clear_view_def)
    have "seg_read m2 s ((lo + i) * 8) 8 = Some (bytes_at segs s ((lo + i) * 8) 8)"
      by (rule holds_seg_read [OF m2(1) h [unfolded has_word_def]])
    moreover have "data_has_bytes ?p (i * 8) 8"
    proof (rule view_has_bytes)
      show "struct_view ?p \<lparr>bp_seg = s, bp_word = lo\<rparr> nd np" by (simp add: struct_view_def clear_view_def)
      show "i * 8 + 8 \<le> nd * 8" using True by simp
    qed
    ultimately have "capnp_get_u64 m2 ?p (i * 8) 0 = Some (word_at segs s (lo + i))"
      using a by (simp add: capnp_get_u64_def word_at_def)
    moreover have "capnp_get_u64 m src (i * 8) 0 = Some (word_at segs s (lo + i))"
      using copied_struct(5) True t by (auto simp: body_words_def)
    ultimately show ?thesis by simp
  qed
  then show ?thesis using j t by auto
qed (use src in auto)

section \<open>Every setter on an existing body\<close>

lemma list_struct_codes:
  "capnp_builder_set_list_struct A b body dw i n edw epw = Some (r, b', first) \<Longrightarrow>
    r \<in> {CAPNP_OK, CAPNP_ERR_ALLOC, CAPNP_ERR_BOUNDS} \<and> (r = CAPNP_ERR_BOUNDS \<longrightarrow> b' = b)"
  by (auto simp: capnp_builder_set_list_struct_def Let_def split: option.splits bind_splits if_splits)

lemma set_list_struct_safe:
  assumes "address_space A" "builder_inv b" "bp_seg body < length (bsegs b)"
  shows "setter_safe b body dw i (map_option (\<lambda>(r, b', first). (r, b')) (capnp_builder_set_list_struct A b body dw i n edw epw))"
  using builder_list_struct_within [OF assms refl, of dw i n edw epw] list_struct_codes [of A b body dw i n edw epw]
  by (fastforce simp: setter_safe_def)

text \<open>
  C24 Every setter of \<open>capnp_builder.c\<close> that writes a pointer slot is memory safe on an existing
  body: text, data, capability, clearing, the lists of 8, 16, 32 and 64 bit integers, of floats, of
  bits, of void, of text and of structs. It returns OK, ALLOC or BOUNDS, keeps the arena invariant,
  overwrites nothing that was there before except the eight bytes of its pointer slot, and changes
  nothing at all when the slot is out of bounds. \<open>capnp_builder_copy_ptr\<close>, which writes an existing
  slot from a pointer of another message, returns, keeps the invariant and changes no existing word
  but the slot, when the message is well formed and every pointer reached from the source names an
  object inside its segments.
\<close>

theorem setters_safe:
  assumes "address_space A" "builder_inv b" "bp_seg body < length (bsegs b)"
  shows "setter_safe b body dw i (capnp_builder_set_text A b body dw i txt) \<and>
    setter_safe b body dw i (capnp_builder_set_data A b body dw i data) \<and>
    setter_safe b body dw i (capnp_builder_set_list_u8 A b body dw i l8) \<and>
    setter_safe b body dw i (capnp_builder_set_list_u16 A b body dw i l16) \<and>
    setter_safe b body dw i (capnp_builder_set_list_u32 A b body dw i l32) \<and>
    setter_safe b body dw i (capnp_builder_set_list_u64 A b body dw i l64) \<and>
    setter_safe b body dw i (capnp_builder_set_list_f32 A b body dw i f32) \<and>
    setter_safe b body dw i (capnp_builder_set_list_f64 A b body dw i f64) \<and>
    (length bits < 2 ^ 32 \<longrightarrow> setter_safe b body dw i (capnp_builder_set_list_bool A b body dw i bits)) \<and>
    setter_safe b body dw i (capnp_builder_set_list_void A b body dw i n) \<and>
    setter_safe b body dw i (capnp_builder_set_list_text_n A b body dw i txts) \<and>
    setter_safe b body dw i (capnp_builder_set_list_text A b body dw i txts) \<and>
    setter_safe b body dw i (map_option (\<lambda>(r, b', first). (r, b')) (capnp_builder_set_list_struct A b body dw i n edw epw)) \<and>
    setter_safe b body dw i (capnp_builder_set_cap b body dw i cap) \<and>
    setter_safe b body dw i (capnp_builder_clear_ptr b body dw i) \<and>
    (wf_message m \<and> tracked m src \<and> has_word (segs_of b) (bp_seg slot) (bp_word slot) \<longrightarrow>
      (\<exists>r m' b'. capnp_builder_copy_ptr A m b slot src = Some (r, m', b') \<and>
        r \<in> {CAPNP_OK, CAPNP_ERR_KIND, CAPNP_ERR_ALLOC, CAPNP_ERR_DEPTH} \<and> builder_inv b' \<and>
        keeps (segs_of b) {(bp_seg slot, bp_word slot)} (segs_of b')))"
proof -
  have copy: "\<exists>r m' b'. capnp_builder_copy_ptr A m b slot src = Some (r, m', b') \<and>
      r \<in> {CAPNP_OK, CAPNP_ERR_KIND, CAPNP_ERR_ALLOC, CAPNP_ERR_DEPTH} \<and> builder_inv b' \<and>
      keeps (segs_of b) {(bp_seg slot, bp_word slot)} (segs_of b')"
    if "wf_message m" "tracked m src" "has_word (segs_of b) (bp_seg slot) (bp_word slot)"
    using copy.rec_copies [OF assms(1) that(1,2) assms(2) that(3), of 65 "traversal_left m"]
    unfolding at_same capnp_builder_copy_ptr_def capnp_copy_ptr_to_word_def diff_zero copies_def result_def by blast
  show ?thesis
    using copy set_text_safe [OF assms] set_data_safe [OF assms] set_list_text_safe [OF assms] set_cap_safe [OF assms(2,3)]
      set_list_bool_safe [OF assms] set_list_void_safe [OF assms] set_list_struct_safe [OF assms]
      set_list_prim_safe [OF assms, of 1 "map (\<lambda>x. [x]) l8"] set_list_prim_safe [OF assms, of 2 "map capnp_store_le16 l16"]
      set_list_prim_safe [OF assms, of 4 "map capnp_store_le32 l32"] set_list_prim_safe [OF assms, of 8 "map capnp_store_le64 l64"]
      set_list_prim_safe [OF assms, of 4 "map capnp_store_le32 f32"] set_list_prim_safe [OF assms, of 8 "map capnp_store_le64 f64"]
    by (simp add: capnp_builder_set_list_u8_def capnp_builder_set_list_u16_def capnp_builder_set_list_u32_def
        capnp_builder_set_list_u64_def capnp_builder_set_list_f32_def capnp_builder_set_list_f64_def capnp_builder_set_list_text_def)
qed

theorem setters_safe_witness:
  "setter_safe demo_builder demo_body 1 0 (capnp_builder_set_text machine demo_builder demo_body 1 0 [104, 105]) \<and>
   (\<exists>r m' b'. capnp_builder_copy_ptr machine canon_demo demo_builder \<lparr>bp_seg = 0, bp_word = 2\<rparr> canon_root = Some (r, m', b') \<and> builder_inv b')"
proof -
  have "has_word (segs_of demo_builder) 0 2" by (simp add: demo_builder_def segs_of_def seg_used_def has_word_def in_range_def)
  then have "\<exists>r m' b'. capnp_builder_copy_ptr machine canon_demo demo_builder \<lparr>bp_seg = 0, bp_word = 2\<rparr> canon_root = Some (r, m', b') \<and>
      builder_inv b'"
    using setters_safe [OF machine(1) demo_inv, of 1 0 "[]" "[]" "[]" "[]" "[]" "[]" "[]" "[]" "[]" 0 "[]" 0 0 0 canon_demo canon_root
      "\<lparr>bp_seg = 0, bp_word = 2\<rparr>"] canon_demo_wf canon_root_tracked by auto
  then show ?thesis using setters_safe [OF machine(1) demo_inv] by blast
qed

section \<open>Properties\<close>

text \<open>
  C9 The deep copy refines its specification. When the source pointer and every pointer reached from
  it name objects inside their segments (data and text are arbitrary), \<open>capnp_copy_ptr_to_word\<close> into
  any existing slot returns, keeps the arena invariant and the number of segments, and changes no
  existing word but the slot. If it returns OK and the slot is in the last segment, the slot points
  to the canonical encoding of what the readers see of the source: the smallest sections that lose
  no non-zero word and no non-null pointer, near pointers, preorder from the old end of the segment
  to its new end without gaps. For a slot in an earlier segment nothing is said of what it points to,
  since there the code writes a pointer to the wrong segment (\<open>copy_across_segments\<close>).
\<close>

theorem deep_copy_refines:
  assumes "address_space A" "wf_message m" "tracked m src" "builder_inv b" "has_word (segs_of b) seg slot"
  shows "copies m b seg slot src (capnp_copy_ptr_to_word A depth m b seg slot src)"
  using copy.rec_copies [OF assms, of "65 - depth" "traversal_left m"] unfolding at_same
  by (simp add: capnp_copy_ptr_to_word_def)

theorem deep_copy_refines_witness:
  "copies canon_demo demo_builder 0 2 canon_root (capnp_copy_ptr_to_word machine 0 canon_demo demo_builder 0 2 canon_root)"
proof -
  have "has_word (segs_of demo_builder) 0 2"
    by (simp add: has_word_def in_range_def demo_builder_def segs_of_def seg_used_def)
  then show ?thesis
    by (rule deep_copy_refines [OF machine(1) canon_demo_wf canon_root_tracked demo_inv(1)])
qed

text \<open>
  C15 The canonicalizer. On a well formed message in which every pointer reached from the root names
  an object inside its segment (\<open>placed\<close>; data and text are arbitrary), \<open>capnp_canonicalize\<close> reads
  and writes only inside its buffers and returns OK, KIND or ALLOC; the buffer of an OK is whole
  words, and its first word points to the canonical encoding of the message's root, which fills the
  rest of the buffer exactly. The condition is needed: on the pointers of theory \<open>Limits\<close>, which the
  reader accepts although their object lies outside, the code reads outside the segment. The
  encoding is stated over what the readers return, with the smallest sections that lose nothing.
\<close>

theorem canonicalize_canonical:
  assumes "address_space A" "placed (fresh_limits m)"
  shows "\<exists>r out. capnp_canonicalize A m = Some (r, out) \<and> r \<in> {CAPNP_OK, CAPNP_ERR_KIND, CAPNP_ERR_ALLOC} \<and>
    (r = CAPNP_OK \<longrightarrow> length out mod 8 = 0 \<and>
      (\<exists>t root. capnp_root (fresh_limits m) ptr0 = Some (CAPNP_OK, at (fresh_limits m) t, root) \<and>
         copied (fresh_limits m) (buf_word out) 1 (length out div 8) 0 root))"
  using canonicalize_result [OF assms] by auto

theorem canonicalize_canonical_witness:
  "\<exists>r out. capnp_canonicalize machine canon_demo = Some (r, out) \<and>
     (r = CAPNP_OK \<longrightarrow> copied canon_demo (buf_word out) 1 (length out div 8) 0 canon_root)"
proof -
  have "placed (fresh_limits canon_demo)" using canon_demo_placed by simp
  from canonicalize_canonical [OF machine(1) this, unfolded canon_demo_placed(2)]
  show ?thesis using canon_root_eq by auto
qed

text \<open>
  C31 The framed form parses. For a message as in \<open>canonicalize_canonical\<close>: when \<open>capnp_canonicalize_framed\<close> returns OK, its buffer is the stream
  frame of one segment, the bytes \<open>capnp_canonicalize\<close> returns, and parsing it gives them back.
\<close>

theorem canonicalize_framed_parses:
  assumes "address_space A" "placed (fresh_limits m)" "capnp_canonicalize_framed A m = Some (CAPNP_OK, buf)"
    and "length buf \<le> 2 ^ 35"
  shows "\<exists>raw m'. capnp_canonicalize A m = Some (CAPNP_OK, raw) \<and> buf = frame [raw] \<and>
    capnp_message_from_flat A buf = Some (CAPNP_OK, m') \<and> holds m' [raw]"
proof -
  obtain r raw where c: "capnp_canonicalize A m = Some (r, raw)" "r = CAPNP_OK \<longrightarrow> length raw mod 8 = 0 \<and> 8 \<le> length raw"
    using canonicalize_result [OF assms(1,2)] by auto
  then have r: "r = CAPNP_OK" and mem: "mem_ok A (8 + length raw)"
    using assms(3) by (auto simp: capnp_canonicalize_framed_def c_malloc_def split: if_splits)
  have raw: "length raw mod 8 = 0" "8 \<le> length raw" "raw \<noteq> []" using c(2) r by auto
  define junk where "junk = map (mem_junk A) [0..<8 + length raw]"
  have lj: "length junk = 8 + length raw" by (simp add: junk_def)
  let ?n = "capnp_store_le32 (word_of_nat (length raw div 8))"
  have w1: "wr junk 0 (capnp_store_le32 0) = Some (capnp_store_le32 0 @ drop 4 junk)" using lj by (simp add: wr_def)
  have w2: "wr (capnp_store_le32 0 @ drop 4 junk) 4 ?n = Some (capnp_store_le32 0 @ ?n @ drop 8 junk)"
    using lj by (simp add: wr_def)
  have w3: "wr (capnp_store_le32 0 @ ?n @ drop 8 junk) 8 raw = Some (capnp_store_le32 0 @ ?n @ raw)"
    using lj by (simp add: wr_def)
  have f: "frame [raw] = capnp_store_le32 0 @ ?n @ raw" by (simp add: frame_def table_size_def)
  have "capnp_canonicalize_framed A m = Some (CAPNP_OK, frame [raw])"
    using c(1) r mem raw(3) w1 w2 w3
    by (simp add: capnp_canonicalize_framed_def c_malloc_def junk_def [symmetric] WORD_BYTES_def f)
  then have buf: "buf = frame [raw]" using assms(3) by simp
  have lf: "length (frame [raw]) = 8 + length raw" by (simp add: f)
  have "frame_bodies [raw]" using raw assms(4) buf lf by (simp add: frame_bodies_def MAX_SEGMENTS_def)
  from frame_parses [OF this, of "[]" A] show ?thesis
    using c(1) r buf mem lf assms(4) by (auto simp: holds_def)
qed

theorem canonicalize_framed_parses_witness:
  "\<exists>raw m'. capnp_canonicalize_framed machine canon_demo = Some (CAPNP_OK, frame [raw]) \<and>
     capnp_message_from_flat machine (frame [raw]) = Some (CAPNP_OK, m') \<and> holds m' [raw]"
proof -
  have f: "capnp_canonicalize_framed machine canon_demo = Some (CAPNP_OK, frame [canon_out])"
    unfolding capnp_canonicalize_framed_def
    by (simp add: canon_demo_out) (simp add: c_malloc_def machine WORD_BYTES_def canon_out_def wr_def frame_def table_size_def upt_conv_Cons)
  have "placed (fresh_limits canon_demo)" using canon_demo_placed by simp
  moreover have "length (frame [canon_out]) \<le> 2 ^ 35" by (simp add: length_frame canon_out_def table_size_def)
  ultimately show ?thesis
    using canonicalize_framed_parses [OF machine(1) _ f] f canon_demo_out by fastforce
qed

text \<open>
  C30 Canonicalization keeps the fields of the root. For a message as in \<open>canonicalize_canonical\<close>
  (every pointer reached from the root names an object inside its segment, the data is arbitrary)
  whose root is a struct: when \<open>capnp_canonicalize\<close> returns OK, the root of the canonical message is
  a struct, no larger, and every 64-bit field of its data section, also one that was trimmed away,
  reads the same as in the original.
\<close>

theorem canonical_root_fields:
  assumes as: "address_space A" and m: "placed (fresh_limits m)" and c: "capnp_canonicalize A m = Some (CAPNP_OK, out)"
    and root: "capnp_root (fresh_limits m) ptr0 = Some (CAPNP_OK, m1, root)" "p_kind root = PK_STRUCT"
      "p_dwords root < 2 ^ 16" "p_pwords root < 2 ^ 16"
    and m2: "holds m2 [out]" "length out < 2 ^ 29 * 8" "p_dwords root + p_pwords root + 3 \<le> traversal_left m2" "2 \<le> depth_limit m2"
  shows "\<exists>j p. capnp_root m2 ptr0 = Some (CAPNP_OK, spend j m2, p) \<and> p_kind p = PK_STRUCT \<and>
    p_dwords p \<le> p_dwords root \<and> (\<forall>i. capnp_get_u64 m2 p (i * 8) 0 = capnp_get_u64 (fresh_limits m) root (i * 8) 0)"
proof -
  have c': "length out mod 8 = 0" "8 \<le> length out" "copied (fresh_limits m) (buf_word out) 1 (length out div 8) 0 root"
    using canonicalize_result [OF as m] c root(1) by auto
  have wp: "well_placed (fresh_limits m) root"
    using root_at [OF m, of "traversal_left (fresh_limits m)"] root(1) unfolding at_same by (auto dest: trackedD(1))
  then have p0: "p_data_bits root = 0" by (simp add: well_placed_def)
  have wd: "word_at [out] 0 = buf_word out" by (simp add: fun_eq_iff word_at_def bytes_at_def buf_word_def)
  have slot: "has_word [out] 0 0" using c'(2) by (simp add: has_word_def in_range_def)
  have small: "small_segs [out]" using m2(2) by (simp add: small_segs_def MAX_SEGMENTS_def)
  have "nsegs m2 \<noteq> 0" using holds_facts(1) [OF m2(1), of 0] by simp
  then show ?thesis
    using copied_struct_reads [OF c'(3) [folded wd] root(2) p0 root(3,4) slot _ m2(1) small m2(3,4), of ptr0]
    by (simp add: capnp_root_def used_def)
qed

theorem canonical_root_fields_witness:
  "\<exists>j p. capnp_root (msg_of [canon_out]) ptr0 = Some (CAPNP_OK, spend j (msg_of [canon_out]), p) \<and>
     capnp_get_u64 (msg_of [canon_out]) p 0 0 = capnp_get_u64 canon_demo canon_root 0 0"
proof -
  have "holds (msg_of [canon_out]) [canon_out]" by (rule holds_msg_of) (simp_all add: MAX_SEGMENTS_def canon_out_def)
  moreover have "placed (fresh_limits canon_demo)" using canon_demo_placed by simp
  moreover have "length canon_out < 2 ^ 29 * 8" by (simp add: canon_out_def)
  ultimately obtain j p where "capnp_root (msg_of [canon_out]) ptr0 = Some (CAPNP_OK, spend j (msg_of [canon_out]), p)"
    "\<forall>i. capnp_get_u64 (msg_of [canon_out]) p (i * 8) 0 = capnp_get_u64 (fresh_limits canon_demo) canon_root (i * 8) 0"
    using canonical_root_fields [OF machine(1) _ canon_demo_out, of _ canon_root "msg_of [canon_out]"]
    by (fastforce simp: canon_demo_placed(2) canon_root_eq msg_of_limits)
  then show ?thesis unfolding canon_demo_placed(2) by (metis mult_0)
qed

text \<open>
  Trimming is exact. \<open>trimmed_dwords\<close> of a struct returns the least number of data words that
  keeps every non-zero word.
\<close>

theorem trimmed_dwords_exact:
  assumes "wf_message m" "tracked m p"
  shows "\<exists>nd. trimmed_dwords m p = Some nd \<and> nd \<le> p_dwords p \<and>
    (\<forall>i. nd \<le> i \<and> i < p_dwords p \<longrightarrow> capnp_get_u64 m p (i * 8) 0 = Some 0) \<and>
    (0 < nd \<longrightarrow> capnp_get_u64 m p ((nd - 1) * 8) 0 \<noteq> Some 0)"
  by (rule trimmed_dwords_total [OF assms]) (simp add: data_trim_def)

theorem trimmed_dwords_exact_witness:
  "\<exists>nd. trimmed_dwords canon_demo canon_root = Some nd \<and> nd \<le> 1"
  using trimmed_dwords_exact [OF canon_demo_wf canon_root_tracked] by (auto simp: canon_root_def)

section \<open>A copy across segments\<close>

text \<open>A builder whose slot is in segment 0 while segment 1 is the last one; word 1 of segment 0
  holds 7.\<close>

definition two_segments :: builder where
  "two_segments = \<lparr>bsegs = [\<lparr>b_data = replicate 8 0 @ [7] @ replicate 7 0, b_words = 2, b_cap = 2\<rparr>,
       \<lparr>b_data = replicate 128 0, b_words = 1, b_cap = 16\<rparr>],
     segs_cap = 4, max_seg_words = 0, force_single = False\<rparr>"

text \<open>
  A deep copy into a slot outside the last segment is wrong. \<open>capnp_builder_copy_ptr\<close> of a struct
  whose field is 6 into word 0 of segment 0 returns OK, but writes a near pointer although the
  copy is in segment 1, so the slot resolves to word 1 of segment 0 and the field reads as 7.
\<close>

theorem copy_across_segments:
  "\<exists>m' b' m2 s. capnp_builder_copy_ptr machine canon_demo two_segments \<lparr>bp_seg = 0, bp_word = 0\<rparr> canon_root = Some (CAPNP_OK, m', b') \<and>
     capnp_get_u64 canon_demo canon_root 0 0 = Some 6 \<and>
     capnp_root (msg_of (segs_of b')) ptr0 = Some (CAPNP_OK, m2, s) \<and> capnp_get_u64 m2 s 0 0 = Some 7"
proof -
  define b' where "b' = \<lparr>bsegs = [\<lparr>b_data = [0, 0, 0, 0, 1, 0, 0, 0, 7] @ replicate 7 0, b_words = 2, b_cap = 2\<rparr>,
       \<lparr>b_data = replicate 8 0 @ [6, 0, 0, 0, 0, 0, 0, 0] @ replicate 112 0, b_words = 2, b_cap = 16\<rparr>],
     segs_cap = 4, max_seg_words = 0, force_single = False\<rparr>"
  have t: "at canon_demo 8388608 = canon_demo" by (simp add: canon_demo_def capnp_message_init_def DEFAULT_TRAVERSAL_WORDS_def)
  have "capnp_builder_copy_ptr machine canon_demo two_segments \<lparr>bp_seg = 0, bp_word = 0\<rparr> canon_root =
      copy_struct machine (copy_ptr machine 64) (at canon_demo 8388608) two_segments 0 0 canon_root"
    unfolding t capnp_builder_copy_ptr_def capnp_copy_ptr_to_word_def by (simp add: copy_root)
  also have "\<dots> = Some (CAPNP_OK, at canon_demo 8388607, b')"
    unfolding copy_struct_def canon_trimmed
    by simp (simp add: two_segments_def b'_def alloc_local_def build write_struct_body_data_def near_off_def canon_field
        capnp_wp_make_struct_def)
  finally have copy: "capnp_builder_copy_ptr machine canon_demo two_segments \<lparr>bp_seg = 0, bp_word = 0\<rparr> canon_root =
      Some (CAPNP_OK, at canon_demo 8388607, b')" .
  define segs where "segs = [[0, 0, 0, 0, 1, 0, 0, 0, 7, 0, 0, 0, 0, 0, 0, 0] :: byte list, replicate 8 0 @ [6] @ replicate 7 0]"
  have segs: "segs_of b' = segs" by (simp add: b'_def segs_def segs_of_def seg_used_def) (simp add: numeral_eq_Suc)
  define s where "s = canon_root\<lparr>p_pwords := 0\<rparr>"
  have "capnp_root (msg_of segs) ptr0 = Some (CAPNP_OK, at (msg_of segs) 8388606, s)"
    by (simp add: msg_of_def segs_def capnp_root_def capnp_message_init_def s_def canon_root_def MAX_SEGMENTS_def
        DEFAULT_DEPTH_LIMIT_def DEFAULT_TRAVERSAL_WORDS_def run)
  moreover have "capnp_get_u64 (msg_of segs) s 0 0 = Some 7"
    by (simp add: msg_of_def segs_def capnp_message_init_def s_def canon_root_def capnp_get_u64_def data_has_bytes_def
        data_bit_count_def data_bytes_def run)
  ultimately show ?thesis using copy segs canon_field by auto
qed

end
