(* ===== verification/RpcHandle.thy ===== *)
theory RpcHandle
  imports RpcBuild
begin

text \<open>
  The handlers of \<open>src/capnp_rpc.c\<close> and \<open>capnp_rpc_handle\<close>, and the readers of answers.

  A handler takes the connection, the message it reads (whose traversal budget the reads spend)
  and the pointer to the body; it returns the C result and the connection. \<open>None\<close> is undefined
  behaviour: a read or write outside an object, a reference count that overflows, a call of
  \<open>NULL\<close>.
\<close>

section \<open>Targets\<close>

text \<open>The export an id names, or -1.\<close>

definition export_named :: "conn \<Rightarrow> u32 \<Rightarrow> int" where
  "export_named c eid =
     (if unat eid \<ge> MAX_EXPORTS then - 1
      else if ex_used (exports c ! unat eid) then uint eid else - 1)"

text \<open>From a stored Return to its payload; \<open>None\<close> inside when a step fails.\<close>

definition return_payload :: "message \<Rightarrow> (message \<times> ptr option) option" where
  "return_payload st = do {
     (r, st, root) \<leftarrow> capnp_root st ptr0;
     if r \<noteq> CAPNP_OK then Some (st, None) else do {
     tag \<leftarrow> capnp_get_u16 st root 0 0;
     if tag \<noteq> MSG_RETURN then Some (st, None) else do {
     (r, st, ret) \<leftarrow> capnp_getp st root 0 ptr0;
     if r \<noteq> CAPNP_OK then Some (st, None) else do {
     tag \<leftarrow> capnp_get_u16 st ret 6 0;
     if tag \<noteq> 0 then Some (st, None) else do {
     (r, st, payload) \<leftarrow> capnp_getp st ret 0 ptr0;
     Some (st, if r \<noteq> CAPNP_OK then None else Some payload) } } } } }"

text \<open>The transform of a promised answer: each \<open>getPointerField\<close> op moves the cursor.\<close>

fun walk_ops :: "message \<Rightarrow> ptr \<Rightarrow> message \<Rightarrow> ptr \<Rightarrow> nat list \<Rightarrow> (message \<times> ptr option) option" where
  "walk_ops m ops st cursor [] = Some (st, Some cursor)"
| "walk_ops m ops st cursor (i # is) =
     (case capnp_list_get_struct ops i ptr0 of (r, op) \<Rightarrow>
        if r \<noteq> CAPNP_OK then Some (st, None) else do {
          tag \<leftarrow> capnp_get_u16 m op 0 0;
          if tag \<noteq> 1 then walk_ops m ops st cursor is
          else if p_kind cursor \<noteq> PK_STRUCT then Some (st, None)
          else do {
            field \<leftarrow> capnp_get_u16 m op 2 0;
            (r, st, next_ptr) \<leftarrow> capnp_getp st cursor (unat field) ptr0;
            if r \<noteq> CAPNP_OK then Some (st, None) else walk_ops m ops st next_ptr is } })"

text \<open>\<open>(int)\<close> of a list length.\<close>

definition int_len :: "ptr \<Rightarrow> nat" where
  "int_len list = nat (sint (word_of_nat (capnp_list_len list) :: u32))"

text \<open>The \<open>senderHosted\<close> id in the capTable entry a capability pointer names.\<close>

definition cap_entry :: "message \<Rightarrow> ptr \<Rightarrow> ptr \<Rightarrow> u32 option option" where
  "cap_entry st payload cap =
     (if p_kind cap \<noteq> PK_CAP then Some None else do {
        (r, st, table) \<leftarrow> capnp_getp st payload 1 ptr0;
        if r \<noteq> CAPNP_OK then Some None
        else if p_count cap \<ge> capnp_list_len table then Some None
        else (case capnp_list_get_struct table (p_count cap) ptr0 of (r, desc) \<Rightarrow>
          if r \<noteq> CAPNP_OK then Some None else do {
            tag \<leftarrow> capnp_get_u16 st desc 0 0;
            if tag \<noteq> 1 then Some None
            else do { eid \<leftarrow> capnp_get_u32 st desc 4 0; Some (Some eid) } }) })"

definition resolve_promised_answer ::
    "allocator \<Rightarrow> conn \<Rightarrow> message \<Rightarrow> ptr \<Rightarrow> (int \<times> message) option" where
  "resolve_promised_answer A c m promised =
     (if p_kind promised \<noteq> PK_STRUCT then Some (- 1, m) else do {
      qid \<leftarrow> capnp_get_u32 m promised 0 0;
      case answer_find c qid of None \<Rightarrow> Some (- 1, m) | Some i \<Rightarrow> do {
      (r, st) \<leftarrow> capnp_message_from_flat A (an_frame (answers c ! i));
      if r \<noteq> CAPNP_OK then Some (- 1, m) else do {
      (st, payload) \<leftarrow> return_payload st;
      case payload of None \<Rightarrow> Some (- 1, m) | Some payload \<Rightarrow> do {
      (r, st, cursor) \<leftarrow> capnp_getp st payload 0 ptr0;
      if r \<noteq> CAPNP_OK then Some (- 1, m) else do {
      (r, m, ops) \<leftarrow> capnp_getp m promised 0 ptr0;
      (st, cursor) \<leftarrow> (if r = CAPNP_OK then walk_ops m ops st cursor [0..<int_len ops]
                       else Some (st, Some cursor));
      case cursor of None \<Rightarrow> Some (- 1, m) | Some cursor \<Rightarrow> do {
      entry \<leftarrow> cap_entry st payload cursor;
      Some (case entry of None \<Rightarrow> - 1 | Some eid \<Rightarrow> export_named c eid, m) } } } } } })"

definition resolve_target :: "allocator \<Rightarrow> conn \<Rightarrow> message \<Rightarrow> ptr \<Rightarrow> (int \<times> message) option" where
  "resolve_target A c m target =
     (if p_kind target \<noteq> PK_STRUCT then Some (- 1, m) else do {
        which \<leftarrow> capnp_get_u16 m target 4 0;
        if which = 1 then do {
          (r, m, pa) \<leftarrow> capnp_getp m target 0 ptr0;
          if r \<noteq> CAPNP_OK then Some (- 1, m) else resolve_promised_answer A c m pa }
        else if which \<noteq> 0 then Some (- 1, m)
        else do { eid \<leftarrow> capnp_get_u32 m target 0 0; Some (export_named c eid, m) } })"

section \<open>Introductions\<close>

text \<open>A field of a descriptor that must be a struct.\<close>

definition struct_field :: "message \<Rightarrow> ptr \<Rightarrow> nat \<Rightarrow> (message \<times> ptr option) option" where
  "struct_field m p i = do {
     (r, m, q) \<leftarrow> capnp_getp m p i ptr0;
     Some (m, if r \<noteq> CAPNP_OK \<or> p_kind q \<noteq> PK_STRUCT then None else Some q) }"

definition ref_len :: "byte_ref \<Rightarrow> nat" where
  "ref_len r = (case r of BytesAt _ _ n \<Rightarrow> n | _ \<Rightarrow> 0)"

text \<open>Store an introduction in slot \<open>j\<close>: the host is copied and terminated in its 64 bytes.\<close>

definition keep_introduction ::
    "conn \<Rightarrow> message \<Rightarrow> nat \<Rightarrow> ptr \<Rightarrow> ptr \<Rightarrow> ptr \<Rightarrow> byte_ref \<Rightarrow> conn option" where
  "keep_introduction c m j tpcd tpid vat host = do {
     nonce \<leftarrow> capnp_get_u64 m tpid 0 0;
     vine \<leftarrow> capnp_get_u32 m tpcd 0 0;
     port \<leftarrow> capnp_get_u16 m vat 0 0;
     host \<leftarrow> ref_bytes m host;
     buf \<leftarrow> wr (in_host (introductions c ! j)) 0 (host @ [0]);
     Some (c\<lparr>introductions := (introductions c)[j :=
       \<lparr>in_used = True, in_nonce = nonce, in_vine_id = vine, in_port = port, in_host = buf\<rparr>]\<rparr>) }"

definition note_one :: "conn \<Rightarrow> message \<Rightarrow> ptr \<Rightarrow> (conn \<times> message) option" where
  "note_one c m desc = do {
     tag \<leftarrow> capnp_get_u16 m desc 0 0;
     if tag \<noteq> 5 then Some (c, m) else do {
     (m, tpcd) \<leftarrow> struct_field m desc 0;
     case tpcd of None \<Rightarrow> Some (c, m) | Some tpcd \<Rightarrow> do {
     (m, tpid) \<leftarrow> struct_field m tpcd 0;
     case tpid of None \<Rightarrow> Some (c, m) | Some tpid \<Rightarrow> do {
     (m, vat) \<leftarrow> struct_field m tpid 0;
     case vat of None \<Rightarrow> Some (c, m) | Some vat \<Rightarrow> do {
     (r, m, host) \<leftarrow> capnp_get_text m vat 0;
     if r \<noteq> CAPNP_OK \<or> host = Unset \<or> host = NullRef then Some (c, m)
     else if ref_len host \<ge> MAX_HOST then Some (c, m)
     else (case find_slot (\<lambda>x. \<not> in_used x) (introductions c) of
         None \<Rightarrow> Some (c, m)
       | Some j \<Rightarrow> do { c \<leftarrow> keep_introduction c m j tpcd tpid vat host; Some (c, m) }) } } } } }"

fun note_entries :: "conn \<Rightarrow> message \<Rightarrow> ptr \<Rightarrow> nat list \<Rightarrow> (conn \<times> message) option" where
  "note_entries c m table [] = Some (c, m)"
| "note_entries c m table (i # is) =
     (case capnp_list_get_struct table i ptr0 of (r, desc) \<Rightarrow>
        if r \<noteq> CAPNP_OK then note_entries c m table is
        else do { (c, m) \<leftarrow> note_one c m desc; note_entries c m table is })"

definition note_introductions :: "conn \<Rightarrow> message \<Rightarrow> ptr \<Rightarrow> (conn \<times> message) option" where
  "note_introductions c m payload =
     (if p_kind payload \<noteq> PK_STRUCT then Some (c, m) else do {
        (r, m, table) \<leftarrow> capnp_getp m payload 1 ptr0;
        if r \<noteq> CAPNP_OK then Some (c, m)
        else note_entries c m table [0..<capnp_list_len table] })"

definition capnp_rpc_introduction_done :: "allocator \<Rightarrow> conn \<Rightarrow> u64 \<Rightarrow> (int \<times> conn) option" where
  "capnp_rpc_introduction_done A c nonce =
     (case find_slot (\<lambda>x. in_used x \<and> in_nonce x = nonce) (introductions c) of
        None \<Rightarrow> Some (- 1, c)
      | Some i \<Rightarrow> do {
          (_, c) \<leftarrow> capnp_rpc_send_release A c (in_vine_id (introductions c ! i)) 1;
          Some (0, c\<lparr>introductions := (introductions c)[i := introduction0]\<rparr>) })"

section \<open>Bootstrap, Call and Release\<close>

definition handle_bootstrap :: "allocator \<Rightarrow> conn \<Rightarrow> message \<Rightarrow> ptr \<Rightarrow> (int \<times> conn) option" where
  "handle_bootstrap A c m boot = do {
     qid \<leftarrow> capnp_get_u32 m boot 0 0;
     if bootstrap c = 0 then send_return_exception A c qid ''no bootstrap capability'' else do {
     (eid, c) \<leftarrow> capnp_rpc_export c (bootstrap c) (bootstrap_dispatch c);
     if eid < 0 then send_return_exception A c qid ''export table full''
     else send_return_cap A c qid eid } }"

text \<open>\<open>c->exports[eid].dispatch(...)\<close>; the arguments are read from the call first.\<close>

definition run_dispatch ::
    "conn \<Rightarrow> nat \<Rightarrow> message \<Rightarrow> ptr \<Rightarrow> ptr \<Rightarrow> builder \<Rightarrow> bptr \<Rightarrow> (int \<times> message \<times> builder) option" where
  "run_dispatch c eid m call params b results =
     (if eid < length (exports c) then do {
        d \<leftarrow> ex_dispatch (exports c ! eid);
        iface \<leftarrow> capnp_get_u64 m call 8 0;
        meth \<leftarrow> capnp_get_u16 m call 4 0;
        d (ex_server (exports c ! eid)) iface meth m params b results }
      else None)"

text \<open>The Return and its result struct of one data and one pointer word.\<close>

definition b_results :: "allocator \<Rightarrow> u32 \<Rightarrow> bptr bld" where
  "b_results A qid = do {
     payload \<leftarrow> begin_return A qid;
     or_alloc bptr0 (do { slot \<leftarrow> b_slot payload 0 0; b_struct A slot 1 1 }) }"

text \<open>The part of \<open>handle_call\<close> before the target: the parameters and the introductions.\<close>

definition call_params :: "conn \<Rightarrow> message \<Rightarrow> ptr \<Rightarrow> (conn \<times> message \<times> ptr) option" where
  "call_params c m call = do {
     (r, m, params_payload) \<leftarrow> capnp_getp m call 1 ptr0;
     if r = CAPNP_OK then do {
       (_, m, params) \<leftarrow> capnp_getp m params_payload 0 ptr0;
       (c, m) \<leftarrow> note_introductions c m params_payload;
       Some (c, m, params) }
     else Some (c, m, ptr0) }"

definition handle_call :: "allocator \<Rightarrow> conn \<Rightarrow> message \<Rightarrow> ptr \<Rightarrow> (int \<times> conn) option" where
  "handle_call A c m call = do {
     qid \<leftarrow> capnp_get_u32 m call 0 0;
     (c, m, params) \<leftarrow> call_params c m call;
     (r, m, target) \<leftarrow> capnp_getp m call 0 ptr0;
     if r \<noteq> CAPNP_OK then send_return_exception A c qid ''call has no target'' else do {
     (eid, m) \<leftarrow> resolve_target A c m target;
     if eid < 0 then send_return_exception A c qid ''no such export'' else do {
     (r, b, results) \<leftarrow> run_bld (b_results A qid) (capnp_builder_init A);
     if r \<noteq> CAPNP_OK then Some (code r, c) else do {
     (rc, m, b) \<leftarrow> run_dispatch c (nat eid) m call params b results;
     if rc = 0 then flush_answer A c b qid else Some (rc, c) } } } }"

text \<open>\<open>refcount -= (int)count\<close>, dropping the export when that is not positive.\<close>

definition handle_release :: "conn \<Rightarrow> message \<Rightarrow> ptr \<Rightarrow> conn option" where
  "handle_release c m rel = do {
     eid \<leftarrow> capnp_get_u32 m rel 0 0;
     count \<leftarrow> capnp_get_u32 m rel 4 0;
     if export_named c eid < 0 then Some c else do {
       let x = exports c ! unat eid;
       n \<leftarrow> c_int (ex_refcount x - sint count);
       Some (set_export (unat eid) (if n \<le> 0 then export0 else x\<lparr>ex_refcount := n\<rparr>) c) } }"

end
