(* ===== verification/RpcServe.thy ===== *)
theory RpcServe
  imports RpcHandle
begin

text \<open>
  The rest of the vat in \<open>src/capnp_rpc.c\<close>: Join, Disembargo, Provide and Accept with the
  embargo, Return, the readers of an answer, and \<open>capnp_rpc_handle\<close>, which parses a frame and
  hands its body to the handler the tag names.
\<close>

section \<open>Join\<close>

definition send_join_result ::
    "allocator \<Rightarrow> conn \<Rightarrow> u32 \<Rightarrow> u32 \<Rightarrow> bool \<Rightarrow> bool \<Rightarrow> int \<Rightarrow> (int \<times> conn) option" where
  "send_join_result A c qid join_id succeeded with_cap eid = do {
     (r, b, payload, jr) \<leftarrow> run_bld (do {
         payload \<leftarrow> begin_return A qid;
         jr \<leftarrow> or_alloc bptr0 (do { slot \<leftarrow> b_slot payload 0 0; b_struct A slot 1 1 });
         b_u32 jr 0 join_id;
         b_bool jr 32 succeeded;
         State_Monad.return (payload, jr) }) (capnp_builder_init A);
     if r \<noteq> CAPNP_OK then Some (code r, c)
     else if with_cap \<and> eid \<ge> 0 then do {
       c \<leftarrow> export_ref c (nat eid);
       (r, b, _) \<leftarrow> run_bld (do { write_cap_table A payload eid; b_cap jr 1 0 0 }) b;
       if r \<noteq> CAPNP_OK then Some (code r, c) else flush A c b }
     else flush A c b }"

text \<open>\<open>first >= 0\<close> and every part names the same export.\<close>

definition join_same :: "joining \<Rightarrow> bool" where
  "join_same j \<longleftrightarrow> jo_eids j ! 0 \<ge> 0 \<and>
     list_all (\<lambda>i. jo_eids j ! i = jo_eids j ! 0) [1..<jo_part_count j]"

fun answer_parts :: "allocator \<Rightarrow> joining \<Rightarrow> conn \<Rightarrow> int \<Rightarrow> nat list \<Rightarrow> (int \<times> conn) option" where
  "answer_parts A j c rc [] = Some (rc, c)"
| "answer_parts A j c rc (i # is) = do {
     (r, c) \<leftarrow> send_join_result A c (jo_qids j ! i) (jo_join_id j) (join_same j)
                 (join_same j \<and> i = 0) (jo_eids j ! 0);
     answer_parts A j c (if r \<noteq> 0 then r else rc) is }"

definition join_complete :: "allocator \<Rightarrow> conn \<Rightarrow> nat \<Rightarrow> (int \<times> conn) option" where
  "join_complete A c slot = do {
     let j = joins c ! slot;
     (rc, c) \<leftarrow> answer_parts A j c 0 [0..<jo_part_count j];
     Some (rc, set_join slot joining0 c) }"

text \<open>Record part \<open>pnum\<close> in its slot; the last one completes the set.\<close>

definition join_part :: "allocator \<Rightarrow> conn \<Rightarrow> nat \<Rightarrow> nat \<Rightarrow> u32 \<Rightarrow> int \<Rightarrow> (int \<times> conn) option" where
  "join_part A c slot pnum qid eid =
     (let j = joins c ! slot;
          j = j\<lparr>jo_seen := (jo_seen j)[pnum := True], jo_qids := (jo_qids j)[pnum := qid],
                jo_eids := (jo_eids j)[pnum := eid], jo_nseen := jo_nseen j + 1\<rparr>;
          c = set_join slot j c
      in if jo_nseen j = jo_part_count j then join_complete A c slot else Some (0, c))"

definition handle_join :: "allocator \<Rightarrow> conn \<Rightarrow> message \<Rightarrow> ptr \<Rightarrow> (int \<times> conn) option" where
  "handle_join A c m join_body = do {
     qid \<leftarrow> capnp_get_u32 m join_body 0 0;
     (m, key) \<leftarrow> struct_field m join_body 1;
     case key of None \<Rightarrow> send_join_result A c qid 0 False False (- 1) | Some key \<Rightarrow> do {
     jid \<leftarrow> capnp_get_u32 m key 0 0;
     pcount \<leftarrow> map_option unat (capnp_get_u16 m key 4 0);
     pnum \<leftarrow> map_option unat (capnp_get_u16 m key 6 0);
     if pcount = 0 \<or> pcount > MAX_JOIN_PARTS \<or> pnum \<ge> pcount
     then send_join_result A c qid jid False False (- 1)
     else (case join_slot_find c jid pcount of
         (None, c) \<Rightarrow> send_join_result A c qid jid False False (- 1)
       | (Some slot, c) \<Rightarrow>
           if jo_seen (joins c ! slot) ! pnum then send_join_result A c qid jid False False (- 1)
           else do {
             (r, m, target) \<leftarrow> capnp_getp m join_body 0 ptr0;
             (eid, m) \<leftarrow> (if r = CAPNP_OK then resolve_target A c m target else Some (- 1, m));
             join_part A c slot pnum qid eid }) } }"

section \<open>Three-party handoff\<close>

definition set_provision :: "nat \<Rightarrow> provision \<Rightarrow> conn \<Rightarrow> conn" where
  "set_provision i p c = set_provisions ((provisions c)[i := p]) c"

definition handle_provide :: "allocator \<Rightarrow> conn \<Rightarrow> message \<Rightarrow> ptr \<Rightarrow> (int \<times> conn) option" where
  "handle_provide A c m provide =
     (if p_kind provide \<noteq> PK_STRUCT then Some (0, c) else do {
      qid \<leftarrow> capnp_get_u32 m provide 0 0;
      (r, m, target) \<leftarrow> capnp_getp m provide 0 ptr0;
      if r \<noteq> CAPNP_OK then send_return_exception A c qid ''provide: no target'' else do {
      (eid, m) \<leftarrow> resolve_target A c m target;
      if eid < 0 then send_return_exception A c qid ''provide: no such capability'' else do {
      (m, recipient) \<leftarrow> struct_field m provide 1;
      case recipient of None \<Rightarrow> send_return_exception A c qid ''provide: no recipient''
      | Some recipient \<Rightarrow> do {
      nonce \<leftarrow> capnp_get_u64 m recipient 0 0;
      case find_slot (\<lambda>p. \<not> pr_used p) (provisions c) of
        None \<Rightarrow> send_return_exception A c qid ''provide: table full''
      | Some i \<Rightarrow> do {
          let x = exports c ! nat eid;
          let c = set_provision i ((provisions c ! i)
            \<lparr>pr_used := True, pr_nonce := nonce, pr_server := ex_server x, pr_dispatch := ex_dispatch x,
             pr_export_id := eid, pr_question_id := qid, pr_embargoed := False\<rparr>) c;
          c \<leftarrow> export_ref c (nat eid);
          send_empty_return A c qid } } } } })"

text \<open>The claim of a provision: the first one that holds this nonce and is not embargoed.\<close>

definition claimable :: "u64 \<Rightarrow> provision \<Rightarrow> bool" where
  "claimable nonce p \<longleftrightarrow> pr_used p \<and> \<not> pr_embargoed p \<and> pr_nonce p = nonce"

definition claim_provision :: "allocator \<Rightarrow> conn \<Rightarrow> u32 \<Rightarrow> u64 \<Rightarrow> bool \<Rightarrow> (int \<times> conn) option" where
  "claim_provision A c qid nonce embargo =
     (case find_slot (claimable nonce) (provisions c) of
        None \<Rightarrow> send_return_exception A c qid ''accept: no such provision''
      | Some i \<Rightarrow> do {
          let p = provisions c ! i;
          (eid, c) \<leftarrow> capnp_rpc_export c (pr_server p) (pr_dispatch p);
          if eid < 0 then send_return_exception A c qid ''accept: export table full''
          else if embargo
          then Some (0, set_provision i
                 (p\<lparr>pr_export_id := eid, pr_embargoed := True, pr_accept_question_id := qid\<rparr>) c)
          else send_return_cap A (set_provision i (p\<lparr>pr_export_id := eid, pr_used := False\<rparr>) c) qid eid })"

definition handle_accept :: "allocator \<Rightarrow> conn \<Rightarrow> message \<Rightarrow> ptr \<Rightarrow> (int \<times> conn) option" where
  "handle_accept A c m accept =
     (if p_kind accept \<noteq> PK_STRUCT then Some (0, c) else do {
      qid \<leftarrow> capnp_get_u32 m accept 0 0;
      (m, provision) \<leftarrow> struct_field m accept 0;
      case provision of None \<Rightarrow> send_return_exception A c qid ''accept: no provision''
      | Some provision \<Rightarrow> do {
      nonce \<leftarrow> capnp_get_u64 m provision 0 0;
      embargo \<leftarrow> capnp_get_bool m accept 32 0;
      claim_provision A c qid nonce (embargo \<noteq> 0) } })"

definition release_provide_embargo :: "allocator \<Rightarrow> conn \<Rightarrow> u32 \<Rightarrow> (int \<times> conn) option" where
  "release_provide_embargo A c provide_qid =
     (case find_slot (\<lambda>p. pr_used p \<and> pr_embargoed p \<and> pr_question_id p = provide_qid) (provisions c) of
        None \<Rightarrow> Some (0, c)
      | Some i \<Rightarrow>
          let p = provisions c ! i in
          send_return_cap A (set_provision i provision0 c) (pr_accept_question_id p) (pr_export_id p))"

section \<open>Disembargo and unknown messages\<close>

text \<open>The target is copied when it can be read; errors of the copy are ignored.\<close>

definition copy_target :: "allocator \<Rightarrow> message \<Rightarrow> ptr \<Rightarrow> builder \<Rightarrow> bptr \<Rightarrow> builder option" where
  "copy_target A m dis b out_ptr = do {
     (r, m, target) \<leftarrow> capnp_getp m dis 0 ptr0;
     if r = CAPNP_OK \<and> p_kind target \<noteq> PK_NULL then do {
       (r, slot) \<leftarrow> capnp_builder_slot b out_ptr 1 0;
       if r = CAPNP_OK then do { (_, _, b) \<leftarrow> capnp_builder_copy_ptr A m b slot target; Some b }
       else Some b }
     else Some b }"

definition handle_disembargo :: "allocator \<Rightarrow> conn \<Rightarrow> message \<Rightarrow> ptr \<Rightarrow> (int \<times> conn) option" where
  "handle_disembargo A c m dis =
     (if p_kind dis \<noteq> PK_STRUCT then Some (0, c) else do {
      ctx \<leftarrow> capnp_get_u16 m dis 4 0;
      val \<leftarrow> capnp_get_u32 m dis 0 0;
      if ctx = 3 then release_provide_embargo A c val
      else if ctx \<noteq> 0 then Some (0, c)
      else do {
        (r, b, out_ptr) \<leftarrow> run_bld (b_message A MSG_DISEMBARGO 1 1) (capnp_builder_init A);
        if r \<noteq> CAPNP_OK then Some (code r, c) else do {
        b \<leftarrow> copy_target A m dis b out_ptr;
        (r, b, _) \<leftarrow> run_bld (do { b_u16 out_ptr 4 1; b_u32 out_ptr 0 val }) b;
        if r \<noteq> CAPNP_OK then Some (code r, c) else flush A c b } } })"

definition send_unimplemented :: "allocator \<Rightarrow> conn \<Rightarrow> message \<Rightarrow> ptr \<Rightarrow> (int \<times> conn) option" where
  "send_unimplemented A c m orig = do {
     (r, b, slot) \<leftarrow> run_bld (do {
         msg \<leftarrow> or_alloc bptr0 (do { root \<leftarrow> b_root A; b_struct A root 1 1 });
         b_u16 msg 0 MSG_UNIMPLEMENTED;
         or_alloc bptr0 (b_slot msg 1 0) }) (capnp_builder_init A);
     if r \<noteq> CAPNP_OK then Some (code r, c) else do {
     (r, m, b) \<leftarrow> capnp_builder_copy_ptr A m b slot orig;
     if r \<noteq> CAPNP_OK then Some (code r, c) else flush A c b } }"

section \<open>Return\<close>

definition handle_return :: "conn \<Rightarrow> message \<Rightarrow> ptr \<Rightarrow> byte list \<Rightarrow> conn option" where
  "handle_return c m ret flat =
     (if p_kind ret \<noteq> PK_STRUCT then Some c else do {
      qid \<leftarrow> capnp_get_u32 m ret 0 0;
      case question_find c qid of
        None \<Rightarrow> Some c
      | Some i \<Rightarrow>
          if length flat > MAX_ANSWER_BYTES then Some c else do {
          tag \<leftarrow> capnp_get_u16 m ret 6 0;
          (c, m) \<leftarrow> (if tag = 0 then do {
                      (r, m, results) \<leftarrow> capnp_getp m ret 0 ptr0;
                      if r = CAPNP_OK then note_introductions c m results else Some (c, m) }
                   else Some (c, m));
          Some (c\<lparr>questions := (questions c)[i := (questions c ! i)
            \<lparr>qu_answered := True, qu_failed := (tag \<noteq> 0), qu_reply := flat\<rparr>]\<rparr>) } })"

definition capnp_rpc_answer_cap_id :: "allocator \<Rightarrow> conn \<Rightarrow> u32 \<Rightarrow> int option" where
  "capnp_rpc_answer_cap_id A c question_id =
     (case question_find c question_id of
        None \<Rightarrow> Some (- 1)
      | Some i \<Rightarrow>
          let q = questions c ! i in
          if \<not> qu_answered q \<or> qu_failed q then Some (- 1) else do {
          (r, st) \<leftarrow> capnp_message_from_flat A (qu_reply q);
          if r \<noteq> CAPNP_OK then Some (- 1) else do {
          (st, payload) \<leftarrow> return_payload st;
          case payload of None \<Rightarrow> Some (- 1) | Some payload \<Rightarrow> do {
          (r, st, content) \<leftarrow> capnp_getp st payload 0 ptr0;
          if r \<noteq> CAPNP_OK then Some (- 1) else do {
          entry \<leftarrow> cap_entry st payload content;
          Some (case entry of None \<Rightarrow> - 1 | Some eid \<Rightarrow> sint eid) } } } })"

definition capnp_rpc_answer_content :: "allocator \<Rightarrow> conn \<Rightarrow> u32 \<Rightarrow> (rc \<times> message \<times> ptr) option" where
  "capnp_rpc_answer_content A c question_id =
     (case question_find c question_id of
        None \<Rightarrow> Some (CAPNP_ERR_ARG, capnp_message_init, ptr0)
      | Some i \<Rightarrow>
          let q = questions c ! i in
          if \<not> qu_answered q \<or> qu_failed q then Some (CAPNP_ERR_ARG, capnp_message_init, ptr0) else do {
          (r, st) \<leftarrow> capnp_message_from_flat A (qu_reply q);
          if r \<noteq> CAPNP_OK then Some (CAPNP_ERR_FRAMING, st, ptr0) else do {
          (st, payload) \<leftarrow> return_payload st;
          case payload of None \<Rightarrow> Some (CAPNP_ERR_KIND, capnp_message_free st, ptr0)
          | Some payload \<Rightarrow> do {
          (r, st, content) \<leftarrow> capnp_getp st payload 0 ptr0;
          if r \<noteq> CAPNP_OK then Some (CAPNP_ERR_KIND, capnp_message_free st, content)
          else Some (CAPNP_OK, st, content) } } })"

section \<open>One message\<close>

definition rpc_dispatch ::
    "allocator \<Rightarrow> conn \<Rightarrow> message \<Rightarrow> u16 \<Rightarrow> ptr \<Rightarrow> ptr \<Rightarrow> byte list \<Rightarrow> (int \<times> conn) option" where
  "rpc_dispatch A c m which root body flat =
     (if which = MSG_BOOTSTRAP then handle_bootstrap A c m body
      else if which = MSG_CALL then handle_call A c m body
      else if which = MSG_FINISH then do {
        qid \<leftarrow> capnp_get_u32 m body 0 0; Some (0, answer_drop c qid) }
      else if which = MSG_RELEASE then do { c \<leftarrow> handle_release c m body; Some (0, c) }
      else if which = MSG_JOIN then handle_join A c m body
      else if which = MSG_DISEMBARGO then handle_disembargo A c m body
      else if which = MSG_RETURN then do { c \<leftarrow> handle_return c m body flat; Some (0, c) }
      else if which = MSG_PROVIDE then handle_provide A c m body
      else if which = MSG_ACCEPT then handle_accept A c m body
      else if which = MSG_RESOLVE then send_unimplemented A c m root
      else send_unimplemented A c m root)"

definition capnp_rpc_handle :: "allocator \<Rightarrow> conn \<Rightarrow> byte list \<Rightarrow> (int \<times> conn) option" where
  "capnp_rpc_handle A c flat = do {
     (r, m) \<leftarrow> capnp_message_from_flat A flat;
     if r \<noteq> CAPNP_OK then Some (code CAPNP_ERR_FRAMING, c) else do {
     (r, m, root) \<leftarrow> capnp_root m ptr0;
     if r \<noteq> CAPNP_OK then Some (code CAPNP_ERR_FRAMING, c) else do {
     which \<leftarrow> capnp_get_u16 m root 0 0;
     (r, m, body) \<leftarrow> capnp_getp m root 0 ptr0;
     rpc_dispatch A c m which root (if r \<noteq> CAPNP_OK then ptr0 else body) flat } } }"

end
