(* ===== verification/RpcTables.thy ===== *)
theory RpcTables
  imports RpcServe
begin

text \<open>
  The tables of a connection. The interface \<open>slot_table\<close> states what the tables searched by key
  share: filling a slot makes it used under its key, freeing makes it unused. Uniqueness of keys
  and the effect of insertion and removal on lookups are proved once and interpreted on exports
  (by server), questions, answers, introductions and joins. Then the invariant \<open>conn_inv\<close> of a
  connection and the lemmas that the primitive updates keep it.
\<close>

section \<open>Searching\<close>

lemma find_slot_Some:
  "find_slot P xs = Some i \<longleftrightarrow> i < length xs \<and> P (xs ! i) \<and> (\<forall>j < i. \<not> P (xs ! j))"
proof (induction xs arbitrary: i)
  case (Cons x xs)
  then show ?case by (cases i) (auto simp: All_less_Suc2)
qed simp

lemma find_slot_None: "find_slot P xs = None \<longleftrightarrow> (\<forall>x \<in> set xs. \<not> P x)"
  by (induction xs) auto

lemma find_slotD: "find_slot P xs = Some i \<Longrightarrow> i < length xs \<and> P (xs ! i)"
  by (simp add: find_slot_Some)

lemma find_slot_unique:
  "\<lbrakk>i < length xs; P (xs ! i); \<And>j. j < length xs \<Longrightarrow> P (xs ! j) \<Longrightarrow> j = i\<rbrakk> \<Longrightarrow> find_slot P xs = Some i"
  unfolding find_slot_Some by (metis less_trans nat_neq_iff)

lemma set_update_cases: "x \<in> set (xs[i := y]) \<Longrightarrow> x = y \<or> x \<in> set xs"
  using set_update_subset_insert [of xs i y] by auto

lemma nth_upd: "j < length xs \<Longrightarrow> xs[i := x] ! j = (if i = j then x else xs ! j)"
  by (simp add: nth_list_update)

text \<open>Searching after an update.\<close>

lemma find_slot_upd_None:
  assumes "\<not> P y" "\<And>j. j < length xs \<Longrightarrow> j \<noteq> i \<Longrightarrow> \<not> P (xs ! j)"
  shows "find_slot P (xs[i := y]) = None"
  using assms unfolding find_slot_None all_set_conv_all_nth by (simp add: nth_upd)

lemma find_slot_NoneD: "find_slot P xs = None \<Longrightarrow> j < length xs \<Longrightarrow> \<not> P (xs ! j)"
  by (simp add: find_slot_None)

lemma find_slot_upd_Some:
  assumes "find_slot P xs = None" "P y" "i < length xs"
  shows "find_slot P (xs[i := y]) = Some i"
proof (rule find_slot_unique)
  fix j assume "j < length (xs[i := y])" "P (xs[i := y] ! j)"
  then show "j = i" using find_slot_NoneD [OF assms(1), of j] by (cases "j = i") simp_all
qed (use assms in simp_all)

lemma find_slot_upd_same: "\<not> P (xs ! i) \<Longrightarrow> \<not> P y \<Longrightarrow> find_slot P (xs[i := y]) = find_slot P xs"
proof (induction xs arbitrary: i)
  case (Cons x xs)
  then show ?case by (cases i) simp_all
qed simp

section \<open>Tables with keys\<close>

locale slot_table =
  fixes used :: "'s \<Rightarrow> bool"
    and key :: "'s \<Rightarrow> 'k"
begin

definition lookup :: "'k \<Rightarrow> 's list \<Rightarrow> nat option" where
  "lookup k tab = find_slot (\<lambda>s. used s \<and> key s = k) tab"

definition distinct_keys :: "'s list \<Rightarrow> bool" where
  "distinct_keys tab \<longleftrightarrow>
     (\<forall>i < length tab. \<forall>j < length tab. used (tab ! i) \<and> used (tab ! j) \<and> key (tab ! i) = key (tab ! j) \<longrightarrow> i = j)"

lemma distinct_keysD:
  "\<lbrakk>distinct_keys tab; i < length tab; j < length tab; used (tab ! i); used (tab ! j); key (tab ! i) = key (tab ! j)\<rbrakk>
   \<Longrightarrow> i = j"
  by (simp add: distinct_keys_def)

lemma lookup_None: "lookup k tab = None \<longleftrightarrow> (\<forall>i < length tab. used (tab ! i) \<longrightarrow> key (tab ! i) \<noteq> k)"
  by (auto simp: lookup_def find_slot_None all_set_conv_all_nth)

lemma lookup_used: "\<lbrakk>distinct_keys tab; i < length tab; used (tab ! i)\<rbrakk> \<Longrightarrow> lookup (key (tab ! i)) tab = Some i"
  unfolding lookup_def by (rule find_slot_unique) (simp_all add: distinct_keysD)

lemma distinct_fill:
  assumes "distinct_keys tab" "lookup (key s) tab = None"
  shows "distinct_keys (tab[i := s])"
  using assms unfolding distinct_keys_def lookup_None by (simp add: nth_upd) metis

lemma lookup_fill:
  assumes "distinct_keys tab" "lookup (key s) tab = None" "i < length tab" "used s"
  shows "lookup (key s) (tab[i := s]) = Some i"
  using lookup_used [OF distinct_fill [OF assms(1,2), of i], of i] assms(3,4) by simp

text \<open>An update that keeps the key, or makes the slot unused.\<close>

lemma distinct_update:
  assumes "distinct_keys tab" "used s \<Longrightarrow> used (tab ! i) \<and> key s = key (tab ! i)"
  shows "distinct_keys (tab[i := s])"
  using assms unfolding distinct_keys_def by (simp add: nth_upd) metis

lemma lookup_free:
  assumes "distinct_keys tab" "lookup k tab = Some i" "\<not> used s"
  shows "lookup k (tab[i := s]) = None"
proof -
  have i: "i < length tab" "used (tab ! i)" "key (tab ! i) = k" using assms(2) by (auto simp: lookup_def dest!: find_slotD)
  have "l = i" if "l < length tab" "used (tab ! l)" "key (tab ! l) = k" for l
    by (rule distinct_keysD [OF assms(1)]) (use that i in simp_all)
  then show ?thesis using assms(3) unfolding lookup_None by (auto simp: nth_upd)
qed

lemma lookup_other:
  assumes "distinct_keys tab" "lookup k tab = Some i" "i \<noteq> j" "\<not> (used s \<and> key s = k)"
  shows "lookup k (tab[j := s]) = Some i"
proof -
  have i: "i < length tab" "used (tab ! i)" "key (tab ! i) = k" using assms(2) by (auto simp: lookup_def dest!: find_slotD)
  have old: "l = i" if "l < length tab" "used (tab ! l)" "key (tab ! l) = k" for l
    by (rule distinct_keysD [OF assms(1)]) (use that i in simp_all)
  show ?thesis unfolding lookup_def
  proof (rule find_slot_unique)
    fix l assume "l < length (tab[j := s])" "used (tab[j := s] ! l) \<and> key (tab[j := s] ! l) = k"
    then show "l = i" using old assms(4) by (cases "l = j") auto
  qed (use i assms(3) in simp_all)
qed

lemma distinct_unused: "(\<And>s. s \<in> set tab \<Longrightarrow> \<not> used s) \<Longrightarrow> distinct_keys tab"
  by (simp add: distinct_keys_def)

end

interpretation exps: slot_table ex_used ex_server .
interpretation joins: slot_table jo_used jo_join_id .
interpretation quests: slot_table qu_used qu_question_id .
interpretation answs: slot_table an_used an_question_id .

lemmas table_folds = exps.lookup_def [symmetric] joins.lookup_def [symmetric] quests.lookup_def [symmetric]
  answs.lookup_def [symmetric]

section \<open>The invariant of a connection\<close>

definition export_ok :: "export \<Rightarrow> bool" where
  "export_ok x \<longleftrightarrow> (ex_used x \<longrightarrow> 1 \<le> ex_refcount x) \<and> ex_refcount x < 2 ^ 31"

definition join_ok :: "joining \<Rightarrow> bool" where
  "join_ok j \<longleftrightarrow> length (jo_seen j) = MAX_JOIN_PARTS \<and> length (jo_qids j) = MAX_JOIN_PARTS \<and>
     length (jo_eids j) = MAX_JOIN_PARTS \<and>
     (jo_used j \<longrightarrow> jo_part_count j \<le> MAX_JOIN_PARTS \<and> jo_nseen j < jo_part_count j \<and>
        jo_nseen j = length (filter (\<lambda>i. jo_seen j ! i) [0..<jo_part_count j]))"

definition conn_inv :: "conn \<Rightarrow> bool" where
  "conn_inv c \<longleftrightarrow>
     length (exports c) = MAX_EXPORTS \<and> length (answers c) = MAX_ANSWERS \<and>
     length (questions c) = MAX_QUESTIONS \<and> length (introductions c) = MAX_INTRODUCTIONS \<and>
     length (joins c) = MAX_JOINS \<and> length (own_vat c) = MAX_PROVISIONS \<and>
     pred_option (\<lambda>v. length v = MAX_PROVISIONS) (shared_vat c) \<and>
     (\<forall>x \<in> set (exports c). export_ok x) \<and> exps.distinct_keys (exports c) \<and>
     (\<forall>a \<in> set (answers c). length (an_frame a) \<le> MAX_ANSWER_BYTES) \<and>
     (\<forall>q \<in> set (questions c). length (qu_reply q) \<le> MAX_ANSWER_BYTES) \<and>
     (\<forall>x \<in> set (introductions c). length (in_host x) = MAX_HOST) \<and>
     (\<forall>j \<in> set (joins c). join_ok j) \<and> joins.distinct_keys (joins c)"

text \<open>The states a connection can be in between messages: every operation that returns keeps
  \<open>conn_inv\<close>.\<close>

definition keeps_inv :: "('r \<times> conn) option \<Rightarrow> bool" where
  "keeps_inv R \<longleftrightarrow> (\<forall>r c. R = Some (r, c) \<longrightarrow> conn_inv c)"

lemma keeps_invI: "(\<And>r c. R = Some (r, c) \<Longrightarrow> conn_inv c) \<Longrightarrow> keeps_inv R"
  and keeps_invD: "keeps_inv R \<Longrightarrow> R = Some (r, c) \<Longrightarrow> conn_inv c"
  by (simp_all add: keeps_inv_def)

named_theorems inv_intros "operations that keep the invariant of a connection"

lemma conn_inv_init: "conn_inv (capnp_rpc_init s)"
  by (auto simp: conn_inv_def capnp_rpc_init_def vat0_def export_ok_def export0_def answer0_def question0_def
      introduction0_def joining0_def join_ok_def intro!: exps.distinct_unused joins.distinct_unused)

lemma conn_inv_sent [inv_intros]: "conn_inv c \<Longrightarrow> conn_inv (c\<lparr>sent := s\<rparr>)"
  by (simp add: conn_inv_def)

lemma conn_inv_boot [inv_intros]: "conn_inv c \<Longrightarrow> conn_inv (capnp_rpc_set_bootstrap c s d)"
  by (simp add: conn_inv_def capnp_rpc_set_bootstrap_def)

lemma conn_inv_vat [inv_intros]:
  "conn_inv c \<Longrightarrow> pred_option (\<lambda>v. length v = MAX_PROVISIONS) v \<Longrightarrow> conn_inv (capnp_rpc_set_vat c v)"
  by (simp add: conn_inv_def capnp_rpc_set_vat_def)

lemma length_provisions: "conn_inv c \<Longrightarrow> length (provisions c) = MAX_PROVISIONS"
  by (auto simp: conn_inv_def provisions_def split: option.splits)

lemma conn_inv_provision [inv_intros]: "conn_inv c \<Longrightarrow> conn_inv (set_provision i p c)"
  using length_provisions [of c]
  by (auto simp: conn_inv_def set_provision_def set_provisions_def split: option.splits)

lemma conn_inv_answer [inv_intros]:
  "conn_inv c \<Longrightarrow> length (an_frame a) \<le> MAX_ANSWER_BYTES \<Longrightarrow> conn_inv (c\<lparr>answers := (answers c)[i := a]\<rparr>)"
  by (auto simp: conn_inv_def dest: set_update_cases)

lemma conn_inv_question [inv_intros]:
  "conn_inv c \<Longrightarrow> length (qu_reply q) \<le> MAX_ANSWER_BYTES \<Longrightarrow> conn_inv (c\<lparr>questions := (questions c)[i := q]\<rparr>)"
  by (auto simp: conn_inv_def dest: set_update_cases)

lemma conn_inv_introduction [inv_intros]:
  "conn_inv c \<Longrightarrow> length (in_host x) = MAX_HOST \<Longrightarrow> conn_inv (c\<lparr>introductions := (introductions c)[i := x]\<rparr>)"
  by (auto simp: conn_inv_def dest: set_update_cases)

lemma conn_inv_next [inv_intros]: "conn_inv c \<Longrightarrow> conn_inv (c\<lparr>next_question_id := n\<rparr>)"
  by (simp add: conn_inv_def)

lemma conn_inv_export:
  assumes "conn_inv c" "export_ok x" "exps.distinct_keys ((exports c)[i := x])"
  shows "conn_inv (set_export i x c)"
  using assms by (auto simp: conn_inv_def set_export_def dest: set_update_cases)

lemma conn_inv_join:
  assumes "conn_inv c" "join_ok j" "joins.distinct_keys ((joins c)[i := j])"
  shows "conn_inv (set_join i j c)"
  using assms by (auto simp: conn_inv_def set_join_def dest: set_update_cases)

lemma conn_inv_tables:
  assumes "conn_inv c"
  shows "length (exports c) = MAX_EXPORTS" "length (answers c) = MAX_ANSWERS" "length (questions c) = MAX_QUESTIONS"
    "length (introductions c) = MAX_INTRODUCTIONS" "length (joins c) = MAX_JOINS"
    "exps.distinct_keys (exports c)" "joins.distinct_keys (joins c)"
  using assms by (simp_all add: conn_inv_def)

lemma conn_inv_exportD: "conn_inv c \<Longrightarrow> i < length (exports c) \<Longrightarrow> export_ok (exports c ! i)"
  and conn_inv_joinD: "conn_inv c \<Longrightarrow> i < length (joins c) \<Longrightarrow> join_ok (joins c ! i)"
  and conn_inv_questionD: "conn_inv c \<Longrightarrow> i < length (questions c) \<Longrightarrow> length (qu_reply (questions c ! i)) \<le> MAX_ANSWER_BYTES"
  and conn_inv_answerD: "conn_inv c \<Longrightarrow> i < length (answers c) \<Longrightarrow> length (an_frame (answers c ! i)) \<le> MAX_ANSWER_BYTES"
  and conn_inv_introductionD: "conn_inv c \<Longrightarrow> i < length (introductions c) \<Longrightarrow> length (in_host (introductions c ! i)) = MAX_HOST"
  by (simp_all add: conn_inv_def)

end
