(* ===== verification/RpcInv.thy ===== *)
theory RpcInv
  imports RpcTables
begin

text \<open>
  Every operation of a connection keeps \<open>conn_inv\<close>: one lemma per function of
  \<open>src/capnp_rpc.c\<close> that changes state. The states of a connection over time are the
  inductive relation \<open>vat_step\<close> (a message handled, a call of the public interface, or a change
  of the shared vat by another connection) and its closure \<open>reachable\<close>; the invariant
  follows by rule induction.
\<close>

lemmas run_splits = Option.bind_eq_Some_conv

text \<open>\<open>yields P R\<close>: if \<open>R\<close> returns, the result satisfies \<open>P\<close>. The rules follow the shape of a
  handler, so that only its calls remain.\<close>

definition yields :: "('r \<Rightarrow> bool) \<Rightarrow> 'r option \<Rightarrow> bool" where
  "yields P R \<longleftrightarrow> (\<forall>x. R = Some x \<longrightarrow> P x)"

lemma yieldsD: "yields P R \<Longrightarrow> R = Some x \<Longrightarrow> P x"
  by (simp add: yields_def)

lemma yields_rules:
  "P x \<Longrightarrow> yields P (Some x)"
  "(\<And>x. R = Some x \<Longrightarrow> yields P (f x)) \<Longrightarrow> yields P (R \<bind> f)"
  "(b \<Longrightarrow> yields P R1) \<Longrightarrow> (\<not> b \<Longrightarrow> yields P R2) \<Longrightarrow> yields P (if b then R1 else R2)"
  "(\<And>y z. p = (y, z) \<Longrightarrow> yields P (g y z)) \<Longrightarrow> yields P (case p of (y, z) \<Rightarrow> g y z)"
  "(opt = None \<Longrightarrow> yields P R1) \<Longrightarrow> (\<And>v. opt = Some v \<Longrightarrow> yields P (h v)) \<Longrightarrow>
     yields P (case opt of None \<Rightarrow> R1 | Some v \<Rightarrow> h v)"
  "(\<And>x. x = v \<Longrightarrow> yields P (k x)) \<Longrightarrow> yields P (let x = v in k x)"
  by (auto simp: yields_def run_splits split: prod.splits option.splits)

definition conn_good :: "'r \<times> conn \<Rightarrow> bool" where
  "conn_good x \<longleftrightarrow> conn_inv (snd x)"

lemma conn_good_simp [simp]: "conn_good (r, c) \<longleftrightarrow> conn_inv c"
  by (simp add: conn_good_def)

section \<open>Sending\<close>

lemma c_send_inv: "c_send c flat = (r, c') \<Longrightarrow> conn_inv c \<Longrightarrow> conn_inv c'"
  by (auto simp: c_send_def intro: inv_intros)

lemma flush_inv: "flush A c b = Some (r, c') \<Longrightarrow> conn_inv c \<Longrightarrow> conn_inv c'"
  by (auto simp: flush_def run_splits split: if_splits intro: c_send_inv)

lemma keep_answer_inv: "conn_inv c \<Longrightarrow> conn_inv (keep_answer c qid flat)"
  by (auto simp: keep_answer_def split: option.splits intro!: inv_intros)

lemma flush_answer_inv: "flush_answer A c b qid = Some (r, c') \<Longrightarrow> conn_inv c \<Longrightarrow> conn_inv c'"
  by (auto simp: flush_answer_def run_splits split: if_splits intro: c_send_inv keep_answer_inv)

lemma send_message_inv: "send_message A c act = Some (r, c') \<Longrightarrow> conn_inv c \<Longrightarrow> conn_inv c'"
  by (auto simp: send_message_def run_splits split: if_splits intro: flush_inv)

lemma send_answer_inv: "send_answer A c qid act = Some (r, c') \<Longrightarrow> conn_inv c \<Longrightarrow> conn_inv c'"
  by (auto simp: send_answer_def run_splits split: if_splits intro: flush_answer_inv)

lemma send_return_exception_inv: "send_return_exception A c qid reason = Some (r, c') \<Longrightarrow> conn_inv c \<Longrightarrow> conn_inv c'"
  and send_return_cap_inv: "send_return_cap A c qid eid = Some (r, c') \<Longrightarrow> conn_inv c \<Longrightarrow> conn_inv c'"
  and send_empty_return_inv: "send_empty_return A c qid = Some (r, c') \<Longrightarrow> conn_inv c \<Longrightarrow> conn_inv c'"
  by (auto simp: send_return_exception_def send_return_cap_def send_empty_return_def
      intro: send_message_inv send_answer_inv)

section \<open>Exports\<close>

lemma c_int_eq: "c_int i = Some n \<longleftrightarrow> n = i \<and> - (2 ^ 31) \<le> i \<and> i < 2 ^ 31"
  by (auto simp: c_int_def)

lemma export_ref_inv:
  assumes "export_ref c i = Some c'" "conn_inv c"
  shows "conn_inv c'"
proof -
  let ?x = "exports c ! i"
  have i: "i < length (exports c)" and n: "ex_refcount ?x + 1 < 2 ^ 31"
    and c': "c' = set_export i (?x\<lparr>ex_refcount := ex_refcount ?x + 1\<rparr>) c"
    using assms(1) by (auto simp: export_ref_def run_splits c_int_eq split: if_splits)
  have "export_ok (?x\<lparr>ex_refcount := ex_refcount ?x + 1\<rparr>)"
    using conn_inv_exportD [OF assms(2) i] n by (auto simp: export_ok_def)
  then show ?thesis unfolding c'
    by (intro conn_inv_export exps.distinct_update assms(2)) (use conn_inv_tables(6) [OF assms(2)] in simp_all)
qed

lemma capnp_rpc_export_cases:
  assumes "capnp_rpc_export c s d = Some (e, c')"
  obtains (old) i where "exps.lookup s (exports c) = Some i" "e = int i" "export_ref c i = Some c'"
  | (new) i where "exps.lookup s (exports c) = None" "find_slot (\<lambda>x. \<not> ex_used x) (exports c) = Some i" "e = int i"
      "c' = set_export i \<lparr>ex_used = True, ex_refcount = 1, ex_server = s, ex_dispatch = d\<rparr> c"
  | (full) "exps.lookup s (exports c) = None" "find_slot (\<lambda>x. \<not> ex_used x) (exports c) = None" "e = - 1" "c' = c"
  using assms by (auto simp: capnp_rpc_export_def table_folds run_splits split: option.splits)

lemma capnp_rpc_export_inv:
  assumes "capnp_rpc_export c s d = Some (e, c')" "conn_inv c"
  shows "conn_inv c'"
  using assms(1)
proof (cases rule: capnp_rpc_export_cases)
  case (old i)
  then show ?thesis using export_ref_inv assms(2) by blast
next
  case (new i)
  have "exps.distinct_keys ((exports c)[i := \<lparr>ex_used = True, ex_refcount = 1, ex_server = s, ex_dispatch = d\<rparr>])"
    using new(1) by (intro exps.distinct_fill conn_inv_tables assms(2)) simp
  then show ?thesis unfolding new(4) by (intro conn_inv_export assms(2)) (simp_all add: export_ok_def)
qed (use assms(2) in simp)

lemma export_named_cases:
  obtains (none) "export_named c eid = - 1"
  | (some) "export_named c eid = int (unat eid)" "unat eid < MAX_EXPORTS" "ex_used (exports c ! unat eid)"
  unfolding export_named_def by (cases "unat eid \<ge> MAX_EXPORTS"; cases "ex_used (exports c ! unat eid)") auto

lemma handle_release_inv:
  assumes "handle_release c m rel = Some c'" "conn_inv c"
  shows "conn_inv c'"
proof -
  have freed: "conn_inv (set_export i export0 c)" for i
    by (intro conn_inv_export exps.distinct_update assms(2))
      (use conn_inv_tables(6) [OF assms(2)] in \<open>simp_all add: export_ok_def export0_def\<close>)
  have kept: "conn_inv (set_export i ((exports c ! i)\<lparr>ex_refcount := n\<rparr>) c)" if "n < 2 ^ 31" "\<not> n \<le> 0" for i n
    by (intro conn_inv_export exps.distinct_update assms(2))
      (use that conn_inv_tables(6) [OF assms(2)] in \<open>simp_all add: export_ok_def\<close>)
  have "yields conn_inv (handle_release c m rel)" unfolding handle_release_def
    by (intro yields_rules) (auto simp: assms(2) c_int_eq freed intro!: kept)
  then show ?thesis using assms(1) by (rule yieldsD)
qed

section \<open>Questions and answers\<close>

lemma answer_drop_inv: "conn_inv c \<Longrightarrow> conn_inv (answer_drop c qid)"
  by (auto simp: answer_drop_def answer_find_def split: option.splits
      intro!: inv_intros conn_inv_answerD dest!: find_slotD)

lemma question_free_inv: "conn_inv c \<Longrightarrow> i < length (questions c) \<Longrightarrow> conn_inv (question_free i c)"
  by (auto simp: question_free_def intro!: inv_intros conn_inv_questionD)

lemma question_claim_inv:
  assumes "question_claim c = (q, c')" "conn_inv c"
  shows "conn_inv c'" "\<And>qid i. q = Some (qid, i) \<Longrightarrow> i < length (questions c')"
proof -
  have "conn_inv (c\<lparr>questions := (questions c)[i := question0\<lparr>qu_used := True, qu_question_id := k\<rparr>]\<rparr>)" for i k
    by (rule conn_inv_question [OF assms(2)]) (simp add: question0_def)
  then show "conn_inv c'"
    using assms by (auto simp: question_claim_def Let_def split: option.splits dest: conn_inv_next)
  show "\<And>qid i. q = Some (qid, i) \<Longrightarrow> i < length (questions c')"
    using assms(1) by (auto simp: question_claim_def Let_def split: option.splits dest!: find_slotD)
qed

lemma c_send_tables: "c_send c flat = (r, c') \<Longrightarrow> questions c' = questions c \<and> joins c' = joins c \<and> exports c' = exports c"
  by (auto simp: c_send_def)

lemma send_message_tables:
  "send_message A c act = Some (r, c') \<Longrightarrow> questions c' = questions c \<and> joins c' = joins c \<and> exports c' = exports c"
  by (auto simp: send_message_def flush_def run_splits split: if_splits dest!: c_send_tables)

lemma ask_inv:
  assumes "ask A c act = Some (r, c')" "conn_inv c"
  shows "conn_inv c'"
proof (cases "question_claim c")
  case (Pair q c1)
  note inv = question_claim_inv [OF Pair assms(2)]
  show ?thesis
  proof (cases q)
    case None
    then show ?thesis using assms(1) Pair inv(1) by (simp add: ask_def)
  next
    case (Some k)
    then obtain qid i where k: "q = Some (qid, i)" by (cases k) auto
    then obtain s c2 where s: "send_message A c1 (act qid) = Some (s, c2)"
      "(r, c') = (if s \<noteq> 0 then (- 1, question_free i c2) else (qid, c2))"
      using assms(1) Pair by (auto simp: ask_def run_splits split: if_splits)
    have "conn_inv c2" "i < length (questions c2)"
      using send_message_inv [OF s(1) inv(1)] inv(2) [OF k] send_message_tables [OF s(1)] by simp_all
    then show ?thesis using s(2) question_free_inv by (auto split: if_splits)
  qed
qed

lemmas ask_ops = capnp_rpc_send_bootstrap_def capnp_rpc_send_call_def capnp_rpc_send_provide_def capnp_rpc_send_accept_def

lemma capnp_rpc_send_bootstrap_inv: "capnp_rpc_send_bootstrap A c = Some (r, c') \<Longrightarrow> conn_inv c \<Longrightarrow> conn_inv c'"
  and capnp_rpc_send_call_inv: "capnp_rpc_send_call A c cap ii mi dw pw fill = Some (r, c') \<Longrightarrow> conn_inv c \<Longrightarrow> conn_inv c'"
  and capnp_rpc_send_provide_inv: "capnp_rpc_send_provide A c cap host port nonce = Some (r, c') \<Longrightarrow> conn_inv c \<Longrightarrow> conn_inv c'"
  and capnp_rpc_send_accept_inv: "capnp_rpc_send_accept A c nonce emb = Some (r, c') \<Longrightarrow> conn_inv c \<Longrightarrow> conn_inv c'"
  by (auto simp: ask_ops split: option.splits intro: ask_inv)

lemma capnp_rpc_send_disembargo_provide_inv:
    "capnp_rpc_send_disembargo_provide A c q = Some (s, c') \<Longrightarrow> conn_inv c \<Longrightarrow> conn_inv c'"
  and capnp_rpc_send_release_inv: "capnp_rpc_send_release A c i n = Some (s, c') \<Longrightarrow> conn_inv c \<Longrightarrow> conn_inv c'"
  by (auto simp: capnp_rpc_send_disembargo_provide_def capnp_rpc_send_release_def intro: send_message_inv)

lemma capnp_rpc_send_finish_inv: "capnp_rpc_send_finish A c q = Some (s, c') \<Longrightarrow> conn_inv c \<Longrightarrow> conn_inv c'"
  by (auto simp: capnp_rpc_send_finish_def question_find_def split: option.splits
      intro: send_message_inv question_free_inv dest!: find_slotD)

section \<open>Introductions and Return\<close>

lemma keep_introduction_inv:
  assumes "keep_introduction c m j tpcd tpid vat host = Some c'" "conn_inv c" "j < length (introductions c)"
  shows "conn_inv c'"
  using assms conn_inv_introductionD [OF assms(2,3)]
  by (auto simp: keep_introduction_def run_splits dest!: wr_Some_length intro!: inv_intros)

lemma note_one_inv:
  assumes "note_one c m desc = Some (c', m')" "conn_inv c"
  shows "conn_inv c'"
proof -
  have "yields (\<lambda>x. conn_inv (fst x)) (note_one c m desc)" unfolding note_one_def
    by (intro yields_rules) (simp_all add: assms(2), metis keep_introduction_inv [OF _ assms(2)] find_slotD)
  from yieldsD [OF this assms(1)] show ?thesis by simp
qed

lemma note_entries_inv: "note_entries c m table is = Some (c', m') \<Longrightarrow> conn_inv c \<Longrightarrow> conn_inv c'"
proof (induction "is" arbitrary: c m)
  case (Cons i "is")
  obtain r desc where g: "capnp_list_get_struct table i ptr0 = (r, desc)" by fastforce
  show ?case
  proof (cases "r = CAPNP_OK")
    case True
    then obtain c1 m1 where "note_one c m desc = Some (c1, m1)" "note_entries c1 m1 table is = Some (c', m')"
      using Cons.prems(1) g by (auto simp: run_splits)
    then show ?thesis using Cons.IH note_one_inv Cons.prems(2) by blast
  qed (use Cons g in simp)
qed simp

lemma note_introductions_inv: "note_introductions c m payload = Some (c', m') \<Longrightarrow> conn_inv c \<Longrightarrow> conn_inv c'"
  by (auto simp: note_introductions_def run_splits split: if_splits dest: note_entries_inv)

lemma call_params_inv: "call_params c m call = Some (c', m', p) \<Longrightarrow> conn_inv c \<Longrightarrow> conn_inv c'"
  by (auto simp: call_params_def run_splits split: if_splits dest: note_introductions_inv)

lemma capnp_rpc_introduction_done_inv:
  "capnp_rpc_introduction_done A c nonce = Some (r, c') \<Longrightarrow> conn_inv c \<Longrightarrow> conn_inv c'"
  by (auto simp: capnp_rpc_introduction_done_def run_splits introduction0_def split: option.splits
      dest: capnp_rpc_send_release_inv intro!: inv_intros)

lemma handle_return_inv:
  assumes "handle_return c m ret flat = Some c'" "conn_inv c"
  shows "conn_inv c'"
proof -
  have keep: "conn_inv (c1\<lparr>questions := (questions c1)[i := (questions c1 ! i)
      \<lparr>qu_answered := True, qu_failed := f, qu_reply := flat\<rparr>]\<rparr>)"
    if "conn_inv c1" "\<not> length flat > MAX_ANSWER_BYTES" for c1 i f
    using that by (intro conn_inv_question) simp_all
  have noted: "conn_inv c1" if "(if tag = 0 then do {
        (r, m, results) \<leftarrow> capnp_getp m ret 0 ptr0;
        if r = CAPNP_OK then note_introductions c m results else Some (c, m) }
      else Some (c, m)) = Some (c1, m1)" for tag :: u16 and c1 m1
  proof -
    have "yields (\<lambda>x. conn_inv (fst x)) (if tag = 0 then do {
        (r, m, results) \<leftarrow> capnp_getp m ret 0 ptr0;
        if r = CAPNP_OK then note_introductions c m results else Some (c, m) }
      else Some (c, m))"
      by (intro yields_rules) (auto simp: assms(2) yields_def dest: note_introductions_inv)
    from yieldsD [OF this that] show ?thesis by simp
  qed
  have "yields conn_inv (handle_return c m ret flat)" unfolding handle_return_def
    by (intro yields_rules) (simp_all add: assms(2) keep noted)
  then show ?thesis using assms(1) by (rule yieldsD)
qed

end
