(* ===== verification/RpcReach.thy ===== *)
theory RpcReach
  imports RpcInv
begin

text \<open>
  The invariant for the larger handlers, then the reachable states of a connection: \<open>vat_step\<close>
  has one rule per way the state changes, \<open>reachable\<close> is its closure from
  \<open>capnp_rpc_init\<close>.
\<close>

section \<open>Handlers\<close>

lemmas leaf_inv = send_return_exception_inv send_return_cap_inv send_empty_return_inv flush_inv flush_answer_inv
  capnp_rpc_export_inv export_ref_inv note_introductions_inv call_params_inv handle_release_inv handle_return_inv

lemma send_join_result_inv:
  assumes "send_join_result A c qid jid s w eid = Some (r, c')" "conn_inv c"
  shows "conn_inv c'"
proof -
  have "yields conn_good (send_join_result A c qid jid s w eid)" unfolding send_join_result_def
    by (intro yields_rules) (auto simp: assms(2) yields_def dest: leaf_inv)
  from yieldsD [OF this assms(1)] show ?thesis by simp
qed

lemma handle_bootstrap_inv:
  assumes "handle_bootstrap A c m p = Some (r, c')" "conn_inv c"
  shows "conn_inv c'"
proof -
  have "yields conn_good (handle_bootstrap A c m p)" unfolding handle_bootstrap_def
    by (intro yields_rules) (auto simp: assms(2) yields_def dest: leaf_inv)
  from yieldsD [OF this assms(1)] show ?thesis by simp
qed

lemma handle_call_inv:
  assumes "handle_call A c m p = Some (r, c')" "conn_inv c"
  shows "conn_inv c'"
proof -
  have "yields conn_good (handle_call A c m p)" unfolding handle_call_def
    by (intro yields_rules) (auto simp: assms(2) yields_def dest: leaf_inv)
  from yieldsD [OF this assms(1)] show ?thesis by simp
qed

lemma provide_inv: "\<lbrakk>export_ref (set_provision i p c) k = Some c1; send_empty_return A c1 q = Some (r, c'); conn_inv c\<rbrakk> \<Longrightarrow> conn_inv c'"
  by (blast intro: send_empty_return_inv export_ref_inv conn_inv_provision)

lemma handle_provide_inv:
  assumes "handle_provide A c m p = Some (r, c')" "conn_inv c"
  shows "conn_inv c'"
proof -
  have "yields conn_good (handle_provide A c m p)" unfolding handle_provide_def
    by (intro yields_rules) (use assms(2) in \<open>auto simp: yields_def intro: leaf_inv provide_inv\<close>)
  from yieldsD [OF this assms(1)] show ?thesis by simp
qed

lemma claim_provision_inv:
  assumes "claim_provision A c qid nonce emb = Some (r, c')" "conn_inv c"
  shows "conn_inv c'"
proof -
  have "yields conn_good (claim_provision A c qid nonce emb)" unfolding claim_provision_def
    by (intro yields_rules) (use assms(2) in \<open>auto simp: yields_def intro: leaf_inv conn_inv_provision\<close>)
  from yieldsD [OF this assms(1)] show ?thesis by simp
qed

lemma handle_accept_inv:
  assumes "handle_accept A c m p = Some (r, c')" "conn_inv c"
  shows "conn_inv c'"
proof -
  have "yields conn_good (handle_accept A c m p)" unfolding handle_accept_def
    by (intro yields_rules) (auto simp: assms(2) yields_def dest: leaf_inv claim_provision_inv)
  from yieldsD [OF this assms(1)] show ?thesis by simp
qed

lemma release_provide_embargo_inv:
  "release_provide_embargo A c q = Some (r, c') \<Longrightarrow> conn_inv c \<Longrightarrow> conn_inv c'"
  by (auto simp: release_provide_embargo_def Let_def split: option.splits intro: leaf_inv conn_inv_provision)

lemma handle_disembargo_inv:
  assumes "handle_disembargo A c m p = Some (r, c')" "conn_inv c"
  shows "conn_inv c'"
proof -
  have "yields conn_good (handle_disembargo A c m p)" unfolding handle_disembargo_def
    by (intro yields_rules) (auto simp: assms(2) yields_def dest: leaf_inv release_provide_embargo_inv)
  from yieldsD [OF this assms(1)] show ?thesis by simp
qed

lemma send_unimplemented_inv:
  assumes "send_unimplemented A c m p = Some (r, c')" "conn_inv c"
  shows "conn_inv c'"
proof -
  have "yields conn_good (send_unimplemented A c m p)" unfolding send_unimplemented_def
    by (intro yields_rules) (auto simp: assms(2) yields_def dest: leaf_inv)
  from yieldsD [OF this assms(1)] show ?thesis by simp
qed

section \<open>Join\<close>

text \<open>Answering a part neither reads nor changes the join table, so it commutes with an update of it.\<close>

definition over_join :: "nat \<Rightarrow> joining \<Rightarrow> ('r \<times> conn) option \<Rightarrow> ('r \<times> conn) option" where
  "over_join i j = map_option (map_prod id (set_join i j))"

lemma over_join_simps [simp]:
  "over_join i j (Some (r, c)) = Some (r, set_join i j c)" "over_join i j None = None"
  by (simp_all add: over_join_def)

lemma flush_over_join: "flush A (set_join i j c) b = over_join i j (flush A c b)"
  by (auto simp: flush_def c_send_def set_join_def over_join_def split: bind_splits)

lemma export_ref_over_join: "export_ref (set_join i j c) k = map_option (set_join i j) (export_ref c k)"
  by (auto simp: export_ref_def set_join_def set_export_def split: bind_splits)

lemma send_join_result_over_join:
  "send_join_result A (set_join i j c) qid jid s w eid = over_join i j (send_join_result A c qid jid s w eid)"
  unfolding send_join_result_def
  by (auto simp: flush_over_join export_ref_over_join split: bind_splits option.splits)

lemma answer_parts_over_join:
  "answer_parts A j' (set_join i j c) rc is = over_join i j (answer_parts A j' c rc is)"
proof (induction "is" arbitrary: c rc)
  case (Cons k "is")
  show ?case
    by (cases "send_join_result A c (jo_qids j' ! k) (jo_join_id j') (join_same j') (join_same j' \<and> k = 0) (jo_eids j' ! 0)")
      (auto simp: send_join_result_over_join Cons.IH)
qed simp

lemma answer_parts_inv:
  "\<lbrakk>answer_parts A j c rc is = Some (r, c'); conn_inv c\<rbrakk> \<Longrightarrow> conn_inv c'"
proof (induction "is" arbitrary: c rc)
  case (Cons i "is")
  then show ?case by (auto simp: run_splits dest: send_join_result_inv)
qed simp

lemma joining0_ok: "join_ok joining0" "\<not> jo_used joining0"
  by (simp_all add: join_ok_def joining0_def)

lemma set_join_twice [simp]: "set_join i j (set_join i j' c) = set_join i j c"
  by (simp add: set_join_def)

lemma conn_inv_join_free: "conn_inv c \<Longrightarrow> conn_inv (set_join i joining0 c)"
  by (intro conn_inv_join joins.distinct_update conn_inv_tables(7)) (simp_all add: joining0_ok)

lemma filter_upd_count:
  assumes "i < n" "n \<le> length xs" "\<not> xs ! i"
  shows "length (filter (\<lambda>k. xs[i := True] ! k) [0..<n]) = length (filter (\<lambda>k. xs ! k) [0..<n]) + 1"
proof -
  have "filter (\<lambda>k. xs[i := True] ! k) [0..<n] = filter (\<lambda>k. k = i \<or> xs ! k) [0..<n]"
    using assms(2) by (intro filter_cong) (auto simp: nth_upd)
  moreover have "distinct (filter P [0..<n])" for P by simp
  ultimately have "length (filter (\<lambda>k. xs[i := True] ! k) [0..<n]) = card {k. k < n \<and> (k = i \<or> xs ! k)}"
    by (simp add: distinct_card [symmetric] conj_commute)
  also have "{k. k < n \<and> (k = i \<or> xs ! k)} = insert i {k. k < n \<and> xs ! k}" using assms(1) by auto
  also have "card \<dots> = card {k. k < n \<and> xs ! k} + 1" using assms(3) by simp
  also have "card {k. k < n \<and> xs ! k} = length (filter (\<lambda>k. xs ! k) [0..<n])"
    by (simp add: distinct_card [symmetric] conj_commute)
  finally show ?thesis .
qed

text \<open>The part recorded by \<open>join_part\<close>.\<close>

definition with_part :: "joining \<Rightarrow> nat \<Rightarrow> u32 \<Rightarrow> int \<Rightarrow> joining" where
  "with_part j pnum qid eid = j\<lparr>jo_seen := (jo_seen j)[pnum := True], jo_qids := (jo_qids j)[pnum := qid],
     jo_eids := (jo_eids j)[pnum := eid], jo_nseen := jo_nseen j + 1\<rparr>"

lemma with_part_ok:
  assumes "join_ok j" "jo_used j" "pnum < jo_part_count j" "\<not> jo_seen j ! pnum"
    and "jo_nseen j + 1 \<noteq> jo_part_count j"
  shows "join_ok (with_part j pnum qid eid)"
  using assms filter_upd_count [of pnum "jo_part_count j" "jo_seen j"]
  by (simp add: join_ok_def with_part_def)

lemma join_part_inv:
  assumes "join_part A c slot pnum qid eid = Some (r, c')" "conn_inv c"
    and slot: "slot < length (joins c)" "jo_used (joins c ! slot)"
    and p: "pnum < jo_part_count (joins c ! slot)" "\<not> jo_seen (joins c ! slot) ! pnum"
  shows "conn_inv c'"
proof -
  define j where "j = with_part (joins c ! slot) pnum qid eid"
  note inv = conn_inv_joinD [OF assms(2) slot(1)] and dk = conn_inv_tables(7) [OF assms(2)]
  have j: "join_part A c slot pnum qid eid =
      (if jo_nseen j = jo_part_count j then join_complete A (set_join slot j c) slot else Some (0, set_join slot j c))"
    by (simp add: join_part_def j_def with_part_def Let_def)
  have dj: "joins.distinct_keys ((joins c)[slot := j])"
    by (intro joins.distinct_update dk) (simp add: slot(2) j_def with_part_def)
  show ?thesis
  proof (cases "jo_nseen j = jo_part_count j")
    case False
    have "join_ok j" unfolding j_def
      by (rule with_part_ok) (use False inv slot p in \<open>simp_all add: j_def with_part_def\<close>)
    then show ?thesis using assms(1) conn_inv_join [OF assms(2) _ dj] False j by auto
  next
    case True
    obtain rc c1 where "answer_parts A j (set_join slot j c) 0 [0..<jo_part_count j] = Some (rc, c1)"
      and c': "c' = set_join slot joining0 c1"
      using assms(1) True j slot(1) by (auto simp: join_complete_def run_splits set_join_def)
    then obtain c2 where "answer_parts A j c 0 [0..<jo_part_count j] = Some (rc, c2)" "c1 = set_join slot j c2"
      by (auto simp: answer_parts_over_join over_join_def)
    then show ?thesis using answer_parts_inv [OF _ assms(2)] c' by (simp add: conn_inv_join_free)
  qed
qed

lemma join_slot_find_some:
  assumes "join_slot_find c jid pcount = (Some slot, c')" "conn_inv c" "0 < pcount" "pcount \<le> MAX_JOIN_PARTS"
  shows "conn_inv c'" "slot < length (joins c')" "jo_used (joins c' ! slot)" "jo_part_count (joins c' ! slot) = pcount"
    "jo_join_id (joins c' ! slot) = jid"
proof -
  have new: "join_ok (joining0\<lparr>jo_used := True, jo_join_id := jid, jo_part_count := pcount\<rparr>)"
    using assms(3,4) by (simp add: join_ok_def joining0_def filter_empty_conv MAX_JOIN_PARTS_def)
  have "conn_inv (set_join i (joining0\<lparr>jo_used := True, jo_join_id := jid, jo_part_count := pcount\<rparr>) c)"
    if "joins.lookup jid (joins c) = None" for i
    by (intro conn_inv_join joins.distinct_fill conn_inv_tables(7) assms(2) new) (simp add: that)
  then show "conn_inv c'" using assms(1,2)
    by (auto simp: join_slot_find_def joins.lookup_def split: option.splits)
  show "slot < length (joins c')" "jo_used (joins c' ! slot)" "jo_part_count (joins c' ! slot) = pcount"
    "jo_join_id (joins c' ! slot) = jid"
    using assms(1) by (auto simp: join_slot_find_def set_join_def split: option.splits if_splits dest!: find_slotD)
qed

lemma join_slot_find_none: "join_slot_find c jid pcount = (None, c') \<Longrightarrow> c' = c"
  by (auto simp: join_slot_find_def split: option.splits)

lemma handle_join_inv:
  assumes "handle_join A c m p = Some (r, c')" "conn_inv c"
  shows "conn_inv c'"
proof -
  have found: "conn_inv c2"
    if "join_slot_find c jid pcount = (Some slot, c1)" "\<not> (pcount = 0 \<or> pcount > MAX_JOIN_PARTS \<or> pnum \<ge> pcount)"
      "\<not> jo_seen (joins c1 ! slot) ! pnum" "join_part A c1 slot pnum qid eid = Some (s, c2)"
    for jid pcount slot c1 pnum qid eid s c2
    using join_part_inv [OF that(4)] join_slot_find_some [OF that(1) assms(2)] that(2,3) by simp
  have "conn_inv c2"
    if "join_slot_find c jid pcount = (Some slot, c1)" "\<not> (pcount = 0 \<or> pcount > MAX_JOIN_PARTS \<or> pnum \<ge> pcount)"
      "send_join_result A c1 qid jid False False (- 1) = Some (s, c2)"
    for jid pcount slot c1 pnum qid s c2
    using send_join_result_inv [OF that(3)] join_slot_find_some [OF that(1) assms(2)] that(2) by simp
  moreover have "conn_inv c2"
    if "send_join_result A c qid jid False False (- 1) = Some (s, c2)" for qid jid s c2
    using send_join_result_inv [OF that assms(2)] .
  ultimately have "yields conn_good (handle_join A c m p)" unfolding handle_join_def
    by (intro yields_rules) (auto simp: yields_def dest: join_slot_find_none intro: found)
  from yieldsD [OF this assms(1)] show ?thesis by simp
qed

section \<open>Messages and streams\<close>

lemma rpc_dispatch_inv:
  assumes "rpc_dispatch A c m which root body flat = Some (r, c')" "conn_inv c"
  shows "conn_inv c'"
proof -
  have "yields conn_good (rpc_dispatch A c m which root body flat)" unfolding rpc_dispatch_def
    by (intro yields_rules; use assms(2) in \<open>auto simp: yields_def intro: leaf_inv handle_bootstrap_inv handle_call_inv
        handle_join_inv handle_disembargo_inv handle_provide_inv handle_accept_inv send_unimplemented_inv answer_drop_inv\<close>)
  from yieldsD [OF this assms(1)] show ?thesis by simp
qed

lemma capnp_rpc_handle_inv:
  assumes "capnp_rpc_handle A c flat = Some (r, c')" "conn_inv c"
  shows "conn_inv c'"
proof -
  have "yields conn_good (capnp_rpc_handle A c flat)" unfolding capnp_rpc_handle_def
    by (intro yields_rules; use assms(2) in \<open>auto simp: yields_def intro: rpc_dispatch_inv\<close>)
  from yieldsD [OF this assms(1)] show ?thesis by simp
qed

lemma stream_retire_oldest_inv:
  "stream_retire_oldest A c s = Some (c', s') \<Longrightarrow> conn_inv c \<Longrightarrow> conn_inv c'"
  by (auto simp: stream_retire_oldest_def Let_def run_splits split: list.splits dest: capnp_rpc_send_finish_inv)

lemma retire_all_inv: "retire_all A n c s = Some (c', s') \<Longrightarrow> conn_inv c \<Longrightarrow> conn_inv c'"
  by (induction n arbitrary: c s) (auto simp: run_splits dest: stream_retire_oldest_inv)

lemma capnp_rpc_stream_finish_inv: "capnp_rpc_stream_finish A c s = Some (r, c', s') \<Longrightarrow> conn_inv c \<Longrightarrow> conn_inv c'"
  by (auto simp: capnp_rpc_stream_finish_def run_splits dest: retire_all_inv)

lemma stream_room_inv:
  "\<lbrakk>(if length (st_qids s) \<ge> st_window s then stream_retire_oldest A c s else Some (c, s)) = Some (c1, s1); conn_inv c\<rbrakk>
   \<Longrightarrow> conn_inv c1"
  by (auto split: if_splits dest: stream_retire_oldest_inv)

lemma capnp_rpc_stream_send_inv:
  assumes "capnp_rpc_stream_send A c s cap ii mi dw pw fill = Some (r, c', s')" "conn_inv c"
  shows "conn_inv c'"
proof (cases "st_failed s")
  case False
  then obtain c1 s1 where room: "(if length (st_qids s) \<ge> st_window s then stream_retire_oldest A c s else Some (c, s)) = Some (c1, s1)"
    and rest: "(if st_failed s1 then Some (CAPNP_ERR_ARG, c1, s1)
      else do {
        (qid, c) \<leftarrow> capnp_rpc_send_call A c1 cap ii mi dw pw fill;
        if qid = - 1 then Some (CAPNP_ERR_ALLOC, c, s1)
        else if length (st_qids s1) < STREAM_MAX_WINDOW
        then Some (CAPNP_OK, c, s1\<lparr>st_qids := st_qids s1 @ [qid]\<rparr>)
        else None }) = Some (r, c', s')"
    using assms(1) unfolding capnp_rpc_stream_send_def by (auto simp: run_splits simp del: if_split)
  have "yields (\<lambda>x. conn_inv (fst (snd x))) (if st_failed s1 then Some (CAPNP_ERR_ARG, c1, s1)
      else do {
        (qid, c) \<leftarrow> capnp_rpc_send_call A c1 cap ii mi dw pw fill;
        if qid = - 1 then Some (CAPNP_ERR_ALLOC, c, s1)
        else if length (st_qids s1) < STREAM_MAX_WINDOW
        then Some (CAPNP_OK, c, s1\<lparr>st_qids := st_qids s1 @ [qid]\<rparr>)
        else None })"
    by (intro yields_rules; use stream_room_inv [OF room assms(2)] in \<open>auto simp: yields_def intro: capnp_rpc_send_call_inv\<close>)
  from yieldsD [OF this rest] show ?thesis by simp
qed (use assms in \<open>simp add: capnp_rpc_stream_send_def\<close>)

section \<open>Reachable states\<close>

inductive vat_step :: "allocator \<Rightarrow> conn \<Rightarrow> conn \<Rightarrow> bool" for A where
  handled: "capnp_rpc_handle A c flat = Some (r, c') \<Longrightarrow> vat_step A c c'"
| exported: "capnp_rpc_export c server d = Some (e, c') \<Longrightarrow> vat_step A c c'"
| bootstrap_set: "vat_step A c (capnp_rpc_set_bootstrap c server d)"
| vat_set: "pred_option (\<lambda>v. length v = MAX_PROVISIONS) v \<Longrightarrow> vat_step A c (capnp_rpc_set_vat c v)"
| bootstrap_sent: "capnp_rpc_send_bootstrap A c = Some (q, c') \<Longrightarrow> vat_step A c c'"
| call_sent: "capnp_rpc_send_call A c cap ii mi dw pw fill = Some (q, c') \<Longrightarrow> vat_step A c c'"
| provide_sent: "capnp_rpc_send_provide A c cap host port nonce = Some (q, c') \<Longrightarrow> vat_step A c c'"
| accept_sent: "capnp_rpc_send_accept A c nonce emb = Some (q, c') \<Longrightarrow> vat_step A c c'"
| disembargo_sent: "capnp_rpc_send_disembargo_provide A c q = Some (r, c') \<Longrightarrow> vat_step A c c'"
| finish_sent: "capnp_rpc_send_finish A c q = Some (r, c') \<Longrightarrow> vat_step A c c'"
| release_sent: "capnp_rpc_send_release A c i n = Some (r, c') \<Longrightarrow> vat_step A c c'"
| picked_up: "capnp_rpc_introduction_done A c nonce = Some (r, c') \<Longrightarrow> vat_step A c c'"
| streamed: "capnp_rpc_stream_send A c s cap ii mi dw pw fill = Some (rc, c', s') \<Longrightarrow> vat_step A c c'"
| stream_closed: "capnp_rpc_stream_finish A c s = Some (rc, c', s') \<Longrightarrow> vat_step A c c'"

inductive reachable :: "allocator \<Rightarrow> conn \<Rightarrow> bool" for A where
  start: "reachable A (capnp_rpc_init send_fn)"
| more: "reachable A c \<Longrightarrow> vat_step A c c' \<Longrightarrow> reachable A c'"

inductive_cases vat_stepE: "vat_step A c c'"

lemma vat_step_inv: "vat_step A c c' \<Longrightarrow> conn_inv c \<Longrightarrow> conn_inv c'"
  by (induction rule: vat_step.induct)
    (auto intro: inv_intros capnp_rpc_handle_inv capnp_rpc_export_inv capnp_rpc_send_bootstrap_inv capnp_rpc_send_call_inv
      capnp_rpc_send_provide_inv capnp_rpc_send_accept_inv capnp_rpc_send_disembargo_provide_inv capnp_rpc_send_finish_inv
      capnp_rpc_send_release_inv capnp_rpc_introduction_done_inv capnp_rpc_stream_send_inv capnp_rpc_stream_finish_inv)

lemma reachable_inv: "reachable A c \<Longrightarrow> conn_inv c"
  by (induction rule: reachable.induct) (auto intro: conn_inv_init vat_step_inv)

end
