(* ===== verification/RpcWire.thy ===== *)
theory RpcWire
  imports RpcReach
begin

text \<open>
  The exact bytes of the messages. A fresh builder has one segment of 1024 words, and every
  message the vat builds by itself fits in it: \<open>desk d\<close> is that builder with the bytes \<open>d\<close> used.
  Each builder step is computed on \<open>desk d\<close> once; the frames then follow by simplification for
  symbolic ids. \<open>parsed d\<close> is the message a peer gets from such a frame.
\<close>

section \<open>A builder with one segment\<close>

definition desk :: "byte list \<Rightarrow> builder" where
  "desk d = \<lparr>bsegs = [\<lparr>b_data = d @ replicate (8192 - length d) 0, b_words = length d div 8, b_cap = 1024\<rparr>],
     segs_cap = 4, max_seg_words = 0, force_single = False\<rparr>"

definition on :: "byte list \<Rightarrow> build option" where
  "on d = Some \<lparr>bu_status = CAPNP_OK, bu_builder = desk d\<rparr>"

definition upd :: "byte list \<Rightarrow> nat \<Rightarrow> byte list \<Rightarrow> byte list" where
  "upd d a bs = take a d @ bs @ drop (a + length bs) d"

text \<open>A byte sequence of whole words that fits the first segment.\<close>

definition whole :: "byte list \<Rightarrow> bool" where
  "whole d \<longleftrightarrow> 8 dvd length d \<and> length d \<le> 8192"

lemma length_upd [simp]: "a + length bs \<le> length d \<Longrightarrow> length (upd d a bs) = length d"
  by (simp add: upd_def)

text \<open>What the allocator must grant for \<open>capnp_builder_init\<close>.\<close>

definition arena_ok :: "allocator \<Rightarrow> bool" where
  "arena_ok A \<longleftrightarrow> mem_ok A 96 \<and> mem_ok A 8192"

lemma init_desk: "arena_ok A \<Longrightarrow> capnp_builder_init A = desk []"
  by (simp add: capnp_builder_init_def capnp_builder_init_sized_def BUILDER_DEFAULT_FIRST_WORDS_def
      BUILDER_MAX_SEGMENT_WORDS_def append_segment_def lim_words_def builder0_def ensure_segs_cap_def BSEG_SIZE_def
      double_until.simps c_calloc_def WORD_BYTES_def arena_ok_def desk_def Let_def)

lemma init_fails: "\<not> arena_ok A \<Longrightarrow> capnp_builder_init A = builder0"
  by (simp add: capnp_builder_init_def capnp_builder_init_sized_def BUILDER_DEFAULT_FIRST_WORDS_def
      BUILDER_MAX_SEGMENT_WORDS_def append_segment_def lim_words_def builder0_def ensure_segs_cap_def BSEG_SIZE_def
      double_until.simps c_calloc_def WORD_BYTES_def arena_ok_def Let_def)

lemma desk_sel [simp]:
  "length (bsegs (desk d)) = 1" "b_words (bsegs (desk d) ! 0) = length d div 8" "bsegs (desk d) \<noteq> []"
  "lim_words (desk d) = 2 ^ 29"
  by (simp_all add: desk_def lim_words_def BUILDER_MAX_SEGMENT_WORDS_def)

lemma alloc_desk:
  assumes "whole d" "length d + n * 8 \<le> 8192"
  shows "alloc_words A (desk d) n = Some (CAPNP_OK, desk (d @ replicate (n * 8) 0), 0, length d div 8)"
proof -
  have "length d div 8 + n \<le> 1024" "(length d + n * 8) div 8 = length d div 8 + n"
    using assms by (auto simp: whole_def)
  moreover have "replicate (8192 - length d) 0 = replicate (n * 8) 0 @ replicate (8192 - (length d + n * 8)) (0 :: byte)"
    using assms(2) by (simp add: replicate_add [symmetric])
  ultimately show ?thesis
    by (simp add: alloc_words_def Let_def desk_def use_words_def lim_words_def BUILDER_MAX_SEGMENT_WORDS_def)
qed

lemma seg_store_desk: "a + length bs \<le> length d \<Longrightarrow> seg_store (desk d) 0 a bs = Some (desk (upd d a bs))"
  by (simp add: seg_store_def desk_def wr_def upd_def)

lemma store_w_desk: "whole d \<Longrightarrow> w * 8 + 8 \<le> length d \<Longrightarrow> store_w (desk d) 0 w v = Some (desk (upd d (w * 8) (capnp_store_le64 v)))"
  unfolding store_w_def WORD_BYTES_def by (subst sz_id) (auto simp: whole_def intro!: seg_store_desk)

lemma set_bytes_desk:
  assumes "whole d" "w * 8 + off + length bs \<le> length d"
  shows "set_bytes (desk d) \<lparr>bp_seg = 0, bp_word = w\<rparr> off bs = Some (CAPNP_OK, desk (upd d (w * 8 + off) bs))"
proof -
  have "length d \<le> 8192" "length d div 8 * 8 = length d" using assms(1) by (simp_all add: whole_def)
  then show ?thesis using assms(2)
    by (simp add: set_bytes_def Let_def body_ok_def seg_store_desk WORD_BYTES_def)
qed

lemma ptr_slot_desk:
  assumes "whole d" "(w + dw + i) * 8 < length d"
  shows "ptr_slot (desk d) \<lparr>bp_seg = 0, bp_word = w\<rparr> dw i = Some (Some (w + dw + i))"
proof -
  have "length d \<le> 8192" "w + dw + i < length d div 8" using assms by (auto simp: whole_def)
  then show ?thesis by (simp add: ptr_slot_def Let_def)
qed

section \<open>Steps\<close>

lemma run_step: "run_state (step dflt f) (on d) =
  (case f (desk d) of None \<Rightarrow> (dflt, None) | Some (r, b, x) \<Rightarrow> (x, Some \<lparr>bu_status = r, bu_builder = b\<rparr>))"
  by (simp add: step_def on_def)

lemma on_eq [simp]: "Some \<lparr>bu_status = CAPNP_OK, bu_builder = desk d\<rparr> = on d"
  "map_option (\<lambda>t. (bu_status t, bu_builder t, x)) (on d) = Some (CAPNP_OK, desk d, x)"
  by (simp_all add: on_def)

lemma run_effect: "f (desk d) = Some (CAPNP_OK, desk d') \<Longrightarrow> run_state (effect f) (on d) = ((), on d')"
  by (simp add: effect_def run_step)

lemma run_bld_on: "run_bld act (desk d) =
  (case run_state act (on d) of (x, s) \<Rightarrow> map_option (\<lambda>t. (bu_status t, bu_builder t, x)) s)"
  by (simp add: run_bld_def)

lemma run_or_alloc: "run_state act (on d) = (x, on d') \<Longrightarrow> run_state (or_alloc dflt act) (on d) = (x, on d')"
  by (simp add: or_alloc_def run_step run_bld_on)

lemma b_root_desk: "run_state (b_root A) (on []) = (\<lparr>bp_seg = 0, bp_word = 0\<rparr>, on (replicate 8 0))"
  by (simp add: b_root_def run_step capnp_builder_root_def alloc_desk whole_def bptr0_def)

lemma b_struct_desk:
  assumes "whole d" "s * 8 + 8 \<le> length d" "0 < dw + pw" "length d + (dw + pw) * 8 \<le> 8192"
  shows "run_state (b_struct A \<lparr>bp_seg = 0, bp_word = s\<rparr> dw pw) (on d) =
    (\<lparr>bp_seg = 0, bp_word = length d div 8\<rparr>,
     on (upd (d @ replicate ((dw + pw) * 8) 0) (s * 8)
       (capnp_store_le64 (capnp_wp_make_struct (int (length d div 8) - int s - 1) dw pw))))"
proof -
  have "whole (d @ replicate ((dw + pw) * 8) 0)" using assms(1,4) by (auto simp: whole_def)
  then show ?thesis using assms
    by (auto simp: b_struct_def run_step capnp_builder_struct_def alloc_desk write_struct_ptr_def write_ptr_def
        store_w_desk)
qed

lemma b_slot_desk:
  assumes "whole d" "(w + dw + i) * 8 < length d"
  shows "run_state (b_slot \<lparr>bp_seg = 0, bp_word = w\<rparr> dw i) (on d) = (\<lparr>bp_seg = 0, bp_word = w + dw + i\<rparr>, on d)"
  by (simp add: b_slot_def run_step capnp_builder_slot_def ptr_slot_desk [OF assms])

lemma b_scalar_desk:
  assumes "whole d"
  shows "w * 8 + off + 2 \<le> length d \<Longrightarrow> run_state (b_u16 \<lparr>bp_seg = 0, bp_word = w\<rparr> off v2) (on d) =
      ((), on (upd d (w * 8 + off) (capnp_store_le16 v2)))"
    and "w * 8 + off + 4 \<le> length d \<Longrightarrow> run_state (b_u32 \<lparr>bp_seg = 0, bp_word = w\<rparr> off v4) (on d) =
      ((), on (upd d (w * 8 + off) (capnp_store_le32 v4)))"
    and "w * 8 + off + 8 \<le> length d \<Longrightarrow> run_state (b_u64 \<lparr>bp_seg = 0, bp_word = w\<rparr> off v8) (on d) =
      ((), on (upd d (w * 8 + off) (capnp_store_le64 v8)))"
  using set_bytes_desk [OF assms]
  by (auto simp: b_u16_def b_u32_def b_u64_def capnp_builder_set_u16_def capnp_builder_set_u32_def
      capnp_builder_set_u64_def capnp_store_le16_def [symmetric] intro!: run_effect)

lemma b_cap_desk:
  assumes "whole d" "(w + dw + i) * 8 < length d"
  shows "run_state (b_cap \<lparr>bp_seg = 0, bp_word = w\<rparr> dw i k) (on d) =
    ((), on (upd d ((w + dw + i) * 8) (capnp_store_le64 (capnp_wp_make_cap k))))"
proof -
  have "n * 8 + 8 \<le> length d" if "n * 8 < length d" for n using that assms(1) unfolding whole_def by presburger
  from this [OF assms(2)] have "(w + dw + i) * 8 + 8 \<le> length d" .
  then show ?thesis
    unfolding b_cap_def by (intro run_effect) (simp add: capnp_builder_set_cap_def ptr_slot_desk [OF assms] store_w_desk [OF assms(1)])
qed


lemma b_bool_desk:
  assumes "whole d" "w * 8 + off div 8 + 1 \<le> length d"
  shows "run_state (b_bool \<lparr>bp_seg = 0, bp_word = w\<rparr> off v) (on d) =
    ((), on (upd d (w * 8 + off div 8)
      [if v then d ! (w * 8 + off div 8) OR bit_mask off else d ! (w * 8 + off div 8) AND NOT (bit_mask off)]))"
proof -
  define a where "a = w * 8 + off div 8"
  have d: "length d \<le> 8192" "length d div 8 * 8 = length d" "a < length d"
    using assms by (auto simp: whole_def a_def)
  have "hd (take 1 (drop a (d @ replicate (8192 - length d) 0))) = d ! a"
    using d(3) by (simp add: hd_conv_nth nth_append)
  then have "capnp_builder_set_bool (desk d) \<lparr>bp_seg = 0, bp_word = w\<rparr> off v =
      Some (CAPNP_OK, desk (upd d a [if v then d ! a OR bit_mask off else d ! a AND NOT (bit_mask off)]))"
    using d by (simp add: capnp_builder_set_bool_def Let_def body_ok_def WORD_BYTES_def a_def [symmetric]
        seg_load_def rd_def seg_store_desk) (simp add: desk_def)
  then show ?thesis unfolding b_bool_def a_def [symmetric] by (rule run_effect)
qed

lemma upd_append: "a + length bs \<le> length d \<Longrightarrow> upd (d @ e) a bs = upd d a bs @ e"
  by (simp add: upd_def)

lemma upd_last: "length d = a \<Longrightarrow> length bs \<le> n \<Longrightarrow> upd (d @ replicate n x) a bs = d @ bs @ replicate (n - length bs) x"
  by (simp add: upd_def)

lemma write_list_desk:
  assumes "whole d" "s * 8 + 8 \<le> length d"
  shows "write_list_ptr A (desk d) 0 s 0 w es n = Some (CAPNP_OK,
    desk (upd d (s * 8) (capnp_store_le64 (capnp_wp_make_list (int w - int s - 1) es n))))"
  by (simp add: write_list_ptr_def write_ptr_def store_w_desk assms)

lemma whole_upd: "whole d \<Longrightarrow> a + length bs \<le> length d \<Longrightarrow> whole (upd d a bs)"
  by (simp add: whole_def)

lemma whole_zeros: "whole d \<Longrightarrow> length d + n * 8 \<le> 8192 \<Longrightarrow> whole (d @ replicate (n * 8) 0)"
  by (simp add: whole_def)

text \<open>A list of one struct of one data word and one pointer.\<close>

lemma b_list_struct_desk:
  assumes d: "whole d" and slot: "(w + dw + i) * 8 + 8 \<le> length d" and room: "length d + 24 \<le> 8192"
  shows "run_state (b_list_struct A \<lparr>bp_seg = 0, bp_word = w\<rparr> dw i 1 1 1) (on d) =
    (\<lparr>bp_seg = 0, bp_word = length d div 8 + 1\<rparr>,
     on (upd (d @ capnp_store_le64 (capnp_wp_make_struct 1 1 1) @ replicate 16 0) ((w + dw + i) * 8)
       (capnp_store_le64 (capnp_wp_make_list (int (length d div 8) - int (w + dw + i) - 1) SZ_COMPOSITE 2))))"
proof -
  define s where "s = w + dw + i"
  have len: "length d div 8 * 8 = length d" using d by (simp add: whole_def)
  have ps: "ptr_slot (desk d) \<lparr>bp_seg = 0, bp_word = w\<rparr> dw i = Some (Some s)"
    unfolding s_def by (rule ptr_slot_desk [OF d]) (use slot in simp)
  have al: "alloc_words A (desk d) 3 = Some (CAPNP_OK, desk (d @ replicate 24 0), 0, length d div 8)"
    using alloc_desk [OF d, of 3 A] room by simp
  have wz: "whole (d @ replicate 24 0)" using whole_zeros [OF d, of 3] room by simp
  have st: "store_w (desk (d @ replicate 24 0)) 0 (length d div 8) v = Some (desk (d @ capnp_store_le64 v @ replicate 16 0))" for v
    by (subst store_w_desk [OF wz]) (simp_all add: len upd_last)
  have wt: "whole (d @ capnp_store_le64 v @ replicate 16 0)" for v using d room by (simp add: whole_def)
  have "write_list_ptr A (desk (d @ capnp_store_le64 v @ replicate 16 0)) 0 s 0 (length d div 8) SZ_COMPOSITE 2 =
      Some (CAPNP_OK, desk (upd (d @ capnp_store_le64 v @ replicate 16 0) (s * 8)
        (capnp_store_le64 (capnp_wp_make_list (int (length d div 8) - int s - 1) SZ_COMPOSITE 2))))" for v
    by (rule write_list_desk [OF wt]) (use slot in \<open>simp add: s_def\<close>)
  then show ?thesis unfolding s_def [symmetric]
    by (simp add: b_list_struct_def run_step capnp_builder_set_list_struct_def ps Let_def al st
        flip: numeral_2_eq_2)
qed

lemma b_text_desk:
  assumes d: "whole d" and slot: "(w + dw + i) * 8 + 8 \<le> length d" and room: "length d + text_words t * 8 \<le> 8192"
  shows "run_state (b_text A \<lparr>bp_seg = 0, bp_word = w\<rparr> dw i t) (on d) =
    ((), on (upd d ((w + dw + i) * 8) (capnp_store_le64 (capnp_wp_make_list
        (int (length d div 8) - int (w + dw + i) - 1) SZ_BYTE (length t + 1))) @ pad_words (text_words t) t))"
proof -
  define s n where "s = w + dw + i" and "n = text_words t"
  have len: "length d div 8 * 8 = length d" using d by (simp add: whole_def)
  have tn: "length t + 1 \<le> n * 8" unfolding n_def text_words_def by presburger
  have ps: "ptr_slot (desk d) \<lparr>bp_seg = 0, bp_word = w\<rparr> dw i = Some (Some s)"
    unfolding s_def by (rule ptr_slot_desk [OF d]) (use slot in simp)
  have al: "alloc_words A (desk d) n = Some (CAPNP_OK, desk (d @ replicate (n * 8) 0), 0, length d div 8)"
    using alloc_desk [OF d, of n A] room by (simp add: n_def)
  have fits: "length d < 2 ^ 64" using d by (simp add: whole_def)
  have fr: "fill_run (desk (d @ replicate (n * 8) 0)) 0 (length d div 8) n t = Some (desk (d @ pad_words n t))"
    using len fits tn by (simp add: fill_run_def WORD_BYTES_def seg_store_desk upd_last pad_words_def)
  have wt: "whole (d @ pad_words n t)" using d room tn by (simp add: whole_def n_def)
  have "write_list_ptr A (desk (d @ pad_words n t)) 0 s 0 (length d div 8) SZ_BYTE (length t + 1) = Some (CAPNP_OK,
      desk (upd d (s * 8) (capnp_store_le64 (capnp_wp_make_list (int (length d div 8) - int s - 1) SZ_BYTE (length t + 1)))
        @ pad_words n t))"
    by (subst write_list_desk [OF wt]) (use slot in \<open>simp_all add: s_def upd_append\<close>)
  moreover have "(length t + 1) mod 2 ^ 32 = length t + 1" using tn room by (simp add: n_def)
  moreover have "(length t + 1 + 7) div 8 = n" by (simp add: n_def text_words_def)
  ultimately have "capnp_builder_set_text A (desk d) \<lparr>bp_seg = 0, bp_word = w\<rparr> dw i t = Some (CAPNP_OK,
      desk (upd d (s * 8) (capnp_store_le64 (capnp_wp_make_list (int (length d div 8) - int s - 1) SZ_BYTE (length t + 1)))
        @ pad_words n t))"
    by (simp add: capnp_builder_set_text_def ps write_text_at_def Let_def al fr)
  then show ?thesis unfolding b_text_def s_def [symmetric] n_def [symmetric] by (rule run_effect)
qed

section \<open>Frames\<close>

lemma desk_inv: "whole d \<Longrightarrow> builder_inv (desk d)"
  by (auto simp: builder_inv_def desk_def bseg_ok_def whole_def)

lemma segs_of_desk: "whole d \<Longrightarrow> segs_of (desk d) = [d]"
  by (simp add: segs_of_def desk_def seg_used_def whole_def)

lemma length_frame1: "length (frame [d]) = 8 + length d"
  by (simp add: length_frame table_size_def)

lemma serialize_desk:
  assumes "whole d" "d \<noteq> []"
  shows "capnp_builder_serialize A (desk d) =
    (if mem_ok A (8 + length d) then Some (CAPNP_OK, frame [d]) else Some (CAPNP_ERR_ALLOC, []))"
proof -
  have "0 < length d" "8 dvd length d" using assms by (auto simp: whole_def)
  then have ne: "length d div 8 \<noteq> 0" by (auto dest: dvd_imp_le)
  show ?thesis
  proof (cases "mem_ok A (8 + length d)")
    case True
    then show ?thesis
      using serialize_eq [OF desk_inv [OF assms(1)], of A] ne by (simp add: segs_of_desk assms(1) length_frame1)
  next
    case False
    have "length d div 8 * 8 = length d" using assms(1) by (simp add: whole_def)
    then show ?thesis using False ne
      by (simp add: capnp_builder_serialize_def Let_def c_malloc_def table_size_def desk_def WORD_BYTES_def add.commute)
  qed
qed

text \<open>What sending the finished body \<open>d\<close> does.\<close>

definition emit :: "allocator \<Rightarrow> conn \<Rightarrow> byte list \<Rightarrow> int \<times> conn" where
  "emit A c d = (if mem_ok A (8 + length d) then c_send c (frame [d]) else (5, c))"

lemma flush_desk: "whole d \<Longrightarrow> d \<noteq> [] \<Longrightarrow> flush A c (desk d) = Some (emit A c d)"
  by (simp add: flush_def serialize_desk emit_def)

lemma flush_answer_desk: "whole d \<Longrightarrow> d \<noteq> [] \<Longrightarrow> flush_answer A c (desk d) qid =
  Some (if mem_ok A (8 + length d) then c_send (keep_answer c qid (frame [d])) (frame [d]) else (5, c))"
  by (simp add: flush_answer_def serialize_desk)

lemma send_message_desk:
  assumes "arena_ok A" "run_state act (on []) = (x, on d)" "whole d" "d \<noteq> []"
  shows "send_message A c act = Some (emit A c d)"
  using assms by (simp add: send_message_def init_desk run_bld_on flush_desk)

lemma send_answer_desk:
  assumes "arena_ok A" "run_state act (on []) = (x, on d)" "whole d" "d \<noteq> []"
  shows "send_answer A c qid act =
    Some (if mem_ok A (8 + length d) then c_send (keep_answer c qid (frame [d])) (frame [d]) else (5, c))"
  using assms by (simp add: send_answer_def init_desk run_bld_on flush_answer_desk)

end
