(* ===== verification/RpcBodies.thy ===== *)
theory RpcBodies
  imports RpcWire
begin

text \<open>
  The bodies of the messages the vat sends, as lists of eight-byte cells, computed from the
  builder calls for symbolic ids. Each lemma says that a sending function gives \<open>send\<close> the frame
  of one body (\<open>emit\<close>).
\<close>

section \<open>Cells\<close>

definition struct_cell :: "int \<Rightarrow> nat \<Rightarrow> nat \<Rightarrow> byte list" where
  "struct_cell off dw pw = capnp_store_le64 (capnp_wp_make_struct off dw pw)"

definition pad :: "byte list \<Rightarrow> byte list" where
  "pad bs = bs @ replicate (8 - length bs) 0"

text \<open>Root pointer, tag and union pointer of a \<open>Message\<close>.\<close>

definition head_cells :: "u16 \<Rightarrow> nat \<Rightarrow> nat \<Rightarrow> byte list list" where
  "head_cells tag dw pw = [struct_cell 0 1 1, pad (capnp_store_le16 tag), struct_cell 0 dw pw]"

definition zero_cells :: "nat \<Rightarrow> byte list list" where
  "zero_cells n = replicate n (replicate 8 0)"

lemma length_cells [simp]: "length (struct_cell off dw pw) = 8" "length bs \<le> 8 \<Longrightarrow> length (pad bs) = 8"
  by (simp_all add: struct_cell_def pad_def)

lemma concat_zero_cells [simp]: "concat (zero_cells n) = replicate (n * 8) 0"
  by (induction n) (simp_all add: zero_cells_def replicate_add)

lemma upd_skip: "length xs \<le> a \<Longrightarrow> upd (xs @ ys) a bs = xs @ upd ys (a - length xs) bs"
  by (simp add: upd_def)

lemma upd_zeros: "a + length bs \<le> n \<Longrightarrow> upd (replicate n 0 @ ys) a bs =
  replicate a 0 @ bs @ replicate (n - a - length bs) 0 @ ys"
  by (simp add: upd_def min_def)

lemma upd_zeros0: "a + length bs \<le> n \<Longrightarrow> upd (replicate n 0) a bs =
  replicate a 0 @ bs @ replicate (n - a - length bs) 0"
  using upd_zeros [of a bs n "[]"] by simp

lemma zeros_merge: "replicate m 0 @ replicate n 0 = replicate (m + n) (0 :: byte)"
  "replicate m 0 @ replicate n 0 @ ys = replicate (m + n) (0 :: byte) @ ys"
  by (simp_all add: replicate_add)

lemma cells_nonempty [simp]: "capnp_store_le32 v \<noteq> []" "capnp_store_le64 w \<noteq> []" "struct_cell off dw pw \<noteq> []"
  by (simp_all add: capnp_store_le32_def capnp_store_le64_def struct_cell_def)

lemmas desk_rules = zeros_merge b_list_struct_desk [unfolded One_nat_def] b_root_desk b_struct_desk b_slot_desk b_scalar_desk b_cap_desk run_or_alloc whole_def
  upd_skip upd_zeros upd_zeros0 struct_cell_def [symmetric]

lemma b_message_desk:
  assumes "dw + pw < 1000" "0 < dw + pw"
  shows "run_state (b_message A tag dw pw) (on []) =
    (\<lparr>bp_seg = 0, bp_word = 3\<rparr>, on (concat (head_cells tag dw pw) @ replicate ((dw + pw) * 8) 0))"
  using assms by (simp add: b_message_def desk_rules head_cells_def pad_def)

lemma begin_message_desk:
  assumes "dw + pw < 1000" "0 < dw + pw"
  shows "run_state (begin_message A tag dw pw) (on []) =
    (\<lparr>bp_seg = 0, bp_word = 3\<rparr>, on (concat (head_cells tag dw pw) @ replicate ((dw + pw) * 8) 0))"
  unfolding begin_message_def by (rule run_or_alloc [OF b_message_desk [OF assms]])

lemma length_head [simp]: "length (concat (head_cells tag dw pw)) = 24"
  by (simp add: head_cells_def)

section \<open>Messages of one struct\<close>

definition bootstrap_body :: "u32 \<Rightarrow> byte list" where
  "bootstrap_body qid = concat (head_cells MSG_BOOTSTRAP 1 1 @ [pad (capnp_store_le32 qid)] @ zero_cells 1)"

definition finish_body :: "u32 \<Rightarrow> byte list" where
  "finish_body qid = concat (head_cells MSG_FINISH 1 0 @ [pad (capnp_store_le32 qid)])"

definition release_body :: "u32 \<Rightarrow> u32 \<Rightarrow> byte list" where
  "release_body eid n = concat (head_cells MSG_RELEASE 1 0 @ [capnp_store_le32 eid @ capnp_store_le32 n])"

definition disembargo_body :: "u16 \<Rightarrow> u32 \<Rightarrow> byte list" where
  "disembargo_body ctx val = concat (head_cells MSG_DISEMBARGO 1 1 @ [pad (capnp_store_le32 val @ capnp_store_le16 ctx)] @ zero_cells 1)"

lemma bootstrap_desk: "run_state (do { boot \<leftarrow> begin_message A MSG_BOOTSTRAP 1 1; b_u32 boot 0 qid }) (on []) =
    ((), on (bootstrap_body qid))"
  by (simp add: begin_message_desk desk_rules bootstrap_body_def pad_def)

lemma send_finish_emit:
  assumes "arena_ok A"
  shows "capnp_rpc_send_finish A c qid =
    Some (emit A (case question_find c qid of None \<Rightarrow> c | Some i \<Rightarrow> question_free i c) (finish_body qid))"
  unfolding capnp_rpc_send_finish_def Let_def
  by (rule send_message_desk [OF assms]) (simp_all add: begin_message_desk desk_rules finish_body_def pad_def)

lemma send_release_emit:
  assumes "arena_ok A"
  shows "capnp_rpc_send_release A c eid n = Some (emit A c (release_body eid n))"
  unfolding capnp_rpc_send_release_def
  by (rule send_message_desk [OF assms]) (simp_all add: begin_message_desk desk_rules release_body_def pad_def)

lemma send_disembargo_provide_emit:
  assumes "arena_ok A"
  shows "capnp_rpc_send_disembargo_provide A c qid = Some (emit A c (disembargo_body 3 qid))"
  unfolding capnp_rpc_send_disembargo_provide_def
  by (rule send_message_desk [OF assms]) (simp_all add: begin_message_desk desk_rules disembargo_body_def pad_def)

section \<open>Returns\<close>

definition return_cells :: "u32 \<Rightarrow> u16 \<Rightarrow> byte list list" where
  "return_cells qid tag = head_cells MSG_RETURN 2 1 @
     [capnp_store_le32 qid @ replicate 2 0 @ capnp_store_le16 tag] @ zero_cells 1"

definition empty_return_body :: "u32 \<Rightarrow> byte list" where
  "empty_return_body qid = concat (return_cells qid 0 @ [struct_cell 0 0 2] @ zero_cells 2)"

definition cap_cells :: "int \<Rightarrow> byte list list" where
  "cap_cells eid = [struct_cell 1 1 1, pad (capnp_store_le16 1 @ replicate 2 0 @ capnp_store_le32 (word_of_int eid))] @ zero_cells 1"

definition return_cap_body :: "u32 \<Rightarrow> int \<Rightarrow> byte list" where
  "return_cap_body qid eid = concat (return_cells qid 0 @ [struct_cell 0 0 2,
     capnp_store_le64 (capnp_wp_make_cap 0), capnp_store_le64 (capnp_wp_make_list 0 SZ_COMPOSITE 2)] @ cap_cells eid)"

definition exception_body :: "u32 \<Rightarrow> string \<Rightarrow> byte list" where
  "exception_body qid reason = concat (return_cells qid 1 @ [struct_cell 0 1 2, pad (capnp_store_le16 0),
     capnp_store_le64 (capnp_wp_make_list 1 SZ_BYTE (length reason + 1))] @ zero_cells 1) @
     pad_words (text_words (c_str reason)) (c_str reason)"

lemma begin_return_desk:
  "run_state (begin_return A qid) (on []) = (\<lparr>bp_seg = 0, bp_word = 6\<rparr>, on (empty_return_body qid))"
  unfolding begin_return_def
  by (rule run_or_alloc) (simp add: b_message_desk desk_rules empty_return_body_def return_cells_def pad_def head_cells_def)

lemma length_return [simp]: "length (concat (return_cells qid t)) = 40"
  by (simp add: return_cells_def)

text \<open>The result of \<open>send_answer\<close> for a finished body.\<close>

definition emit_answer :: "allocator \<Rightarrow> conn \<Rightarrow> u32 \<Rightarrow> byte list \<Rightarrow> int \<times> conn" where
  "emit_answer A c qid d =
     (if mem_ok A (8 + length d) then c_send (keep_answer c qid (frame [d])) (frame [d]) else (5, c))"

lemma send_empty_return_emit:
  "arena_ok A \<Longrightarrow> send_empty_return A c qid = Some (emit_answer A c qid (empty_return_body qid))"
  unfolding send_empty_return_def emit_answer_def
  by (rule send_answer_desk [OF _ begin_return_desk]) (simp_all add: empty_return_body_def whole_def)

lemma send_return_cap_emit:
  assumes "arena_ok A"
  shows "send_return_cap A c qid eid = Some (emit_answer A c qid (return_cap_body qid eid))"
  unfolding send_return_cap_def emit_answer_def write_cap_table_def
  by (rule send_answer_desk [OF assms])
    (simp_all add: begin_return_desk desk_rules empty_return_body_def return_cap_body_def cap_cells_def pad_def)

lemma b_text_desk':
  assumes "whole d" "(w + dw + i) * 8 + 8 \<le> length d" "length d + text_words t * 8 \<le> 8192" "n = length t + 1"
    and "p = (w + dw + i) * 8" "k = int (length d div 8) - int (w + dw + i) - 1"
  shows "run_state (b_text A \<lparr>bp_seg = 0, bp_word = w\<rparr> dw i t) (on d) =
    ((), on (upd d p (capnp_store_le64 (capnp_wp_make_list k SZ_BYTE n)) @ pad_words (text_words t) t))"
  using b_text_desk [OF assms(1-3)] assms(4-6) by simp

lemma send_return_exception_emit:
  assumes "arena_ok A" "length reason < 1000"
  shows "send_return_exception A c qid reason = Some (emit A c (exception_body qid reason))"
proof -
  have tw: "text_words (c_str reason) < 1000" "length (c_str reason) \<le> text_words (c_str reason) * 8"
    using assms(2) by (simp_all add: text_words_def c_str_def)
  then show ?thesis unfolding send_return_exception_def
    by (intro send_message_desk [OF assms(1)])
      (simp_all add: b_message_desk desk_rules b_text_desk' c_str_def [of reason] exception_body_def return_cells_def pad_def upd_append)
qed

section \<open>Questions\<close>

text \<open>What \<open>ask\<close> does with the body its steps build.\<close>

definition ask_with :: "allocator \<Rightarrow> conn \<Rightarrow> (u32 \<Rightarrow> byte list) \<Rightarrow> u32 \<times> conn" where
  "ask_with A c body =
     (case question_claim c of
        (None, c) \<Rightarrow> (- 1, c)
      | (Some (qid, i), c) \<Rightarrow>
          (case emit A c (body qid) of (r, c) \<Rightarrow> if r \<noteq> 0 then (- 1, question_free i c) else (qid, c)))"

lemma ask_emit:
  assumes "arena_ok A" "\<And>qid. run_state (act qid) (on []) = (x qid, on (body qid))"
    and "\<And>qid. whole (body qid)" "\<And>qid. body qid \<noteq> []"
  shows "ask A c act = Some (ask_with A c body)"
  using send_message_desk [OF assms(1,2) assms(3,4)]
  by (auto simp: ask_def ask_with_def split: option.splits prod.splits)

lemma send_bootstrap_ask: "arena_ok A \<Longrightarrow> capnp_rpc_send_bootstrap A c = Some (ask_with A c bootstrap_body)"
  unfolding capnp_rpc_send_bootstrap_def
  by (rule ask_emit [OF _ bootstrap_desk]) (simp_all add: bootstrap_body_def whole_def)

definition call_body :: "u32 \<Rightarrow> u64 \<Rightarrow> u16 \<Rightarrow> nat \<Rightarrow> nat \<Rightarrow> u32 \<Rightarrow> byte list" where
  "call_body imported iface meth dw pw qid = concat (head_cells MSG_CALL 3 3 @
     [pad (capnp_store_le32 qid @ capnp_store_le16 meth), capnp_store_le64 iface, replicate 8 0,
      struct_cell 2 1 1, struct_cell 3 0 2, replicate 8 0, pad (capnp_store_le32 imported @ capnp_store_le16 0), replicate 8 0,
      struct_cell 1 dw pw, replicate 8 0] @ zero_cells (dw + pw))"

lemma send_call_ask:
  assumes "arena_ok A" "0 < dw + pw" "dw + pw < 1000"
  shows "capnp_rpc_send_call A c imported iface meth dw pw None = Some (ask_with A c (call_body imported iface meth dw pw))"
  unfolding capnp_rpc_send_call_def
  by (rule ask_emit [OF assms(1)])
    (use assms in \<open>simp_all add: begin_message_desk b_target_def effect_def run_step desk_rules call_body_def pad_def\<close>)

definition accept_body :: "u64 \<Rightarrow> bool \<Rightarrow> u32 \<Rightarrow> byte list" where
  "accept_body nonce emb qid = concat (head_cells MSG_ACCEPT 1 1 @
     [pad (capnp_store_le32 qid @ [if emb then 1 else 0]), struct_cell 0 1 0, capnp_store_le64 nonce])"

definition provide_body :: "u32 \<Rightarrow> byte list \<Rightarrow> u16 \<Rightarrow> u64 \<Rightarrow> u32 \<Rightarrow> byte list" where
  "provide_body imported host port nonce qid = concat (head_cells MSG_PROVIDE 1 2 @
     [pad (capnp_store_le32 qid), struct_cell 1 1 1, struct_cell 2 1 1,
      pad (capnp_store_le32 imported @ capnp_store_le16 0), replicate 8 0,
      capnp_store_le64 nonce, struct_cell 0 1 1,
      pad (capnp_store_le16 port), capnp_store_le64 (capnp_wp_make_list 0 SZ_BYTE (length host + 1))]) @
     pad_words (text_words host) host"

lemma send_provide_ask:
  assumes "arena_ok A" "length host < 1000"
  shows "capnp_rpc_send_provide A c imported (Some host) port nonce = Some (ask_with A c (provide_body imported host port nonce))"
proof -
  have tw: "text_words host < 900" "length host \<le> text_words host * 8"
    using assms(2) by (simp_all add: text_words_def)
  show ?thesis unfolding capnp_rpc_send_provide_def
    by (simp, rule ask_emit [OF assms(1)])
      (use tw in \<open>simp_all add: begin_message_desk b_target_def desk_rules b_text_desk' provide_body_def pad_def upd_append\<close>)
qed

end
