(* ===== verification/RpcRead.thy ===== *)
theory RpcRead
  imports RpcBodies
begin

text \<open>
  Reading a message made of cells: what \<open>capnp_getp\<close> and the field readers return on a message
  that holds one segment of eight-byte cells, and the first steps of \<open>capnp_rpc_handle\<close> on a
  frame with the usual head.
\<close>

section \<open>A message of cells\<close>

definition cells_ok :: "byte list list \<Rightarrow> bool" where
  "cells_ok cs \<longleftrightarrow> list_all (\<lambda>c. length c = 8) cs \<and> length cs \<le> 1024"

definition bears :: "message \<Rightarrow> byte list list \<Rightarrow> bool" where
  "bears m cs \<longleftrightarrow> holds m [concat cs] \<and> cells_ok cs \<and> depth_limit m = 64"

lemma bears_spend [simp]: "bears (spend k m) cs = bears m cs"
  by (simp add: bears_def)

lemma length_concat_cells: "list_all (\<lambda>c. length c = 8) cs \<Longrightarrow> length (concat cs) = length cs * 8"
  by (induction cs) simp_all

lemma drop_concat_cells:
  "list_all (\<lambda>c. length c = 8) cs \<Longrightarrow> k \<le> length cs \<Longrightarrow> drop (k * 8) (concat cs) = concat (drop k cs)"
proof (induction cs arbitrary: k)
  case (Cons c cs)
  then show ?case by (cases k) simp_all
qed simp

lemma cell_bytes:
  assumes "cells_ok cs" "k < length cs" "r + n \<le> 8"
  shows "take n (drop (k * 8 + r) (concat cs)) = take n (drop r (cs ! k))"
proof -
  have "drop (k * 8 + r) (concat cs) = drop r (concat (drop k cs))"
    using assms drop_concat_cells [of cs k] by (simp add: cells_ok_def add.commute flip: drop_drop)
  also have "drop k cs = cs ! k # drop (Suc k) cs" using assms(2) by (rule Cons_nth_drop_Suc [symmetric])
  finally show ?thesis using assms by (simp add: cells_ok_def list_all_length)
qed

lemma bears_read:
  assumes "bears m cs" "k < length cs" "r + n \<le> 8"
  shows "seg_read m 0 (k * 8 + r) n = Some (take n (drop r (cs ! k)))"
proof -
  have len: "length (concat cs) = length cs * 8" using assms(1) by (simp add: bears_def cells_ok_def length_concat_cells)
  have "in_range [concat cs] 0 (k * 8 + r) n" using assms(2,3) len by (simp add: in_range_def)
  then have "seg_read m 0 (k * 8 + r) n = Some (bytes_at [concat cs] 0 (k * 8 + r) n)"
    using assms(1) holds_seg_read by (auto simp: bears_def)
  then show ?thesis using assms cell_bytes by (simp add: bytes_at_def bears_def)
qed

lemma bears_word:
  assumes "bears m cs" "k < length cs"
  shows "bounds_word m 0 k = CAPNP_OK" "read_word m 0 k = Some (capnp_load_le64 (cs ! k))" "k < 1024"
proof -
  have len: "length (concat cs) = length cs * 8" and k: "k < 1024" "length (cs ! k) = 8"
    using assms by (simp_all add: bears_def cells_ok_def length_concat_cells list_all_length)
  have "has_word [concat cs] 0 k" using assms(2) len by (simp add: has_word_def in_range_def)
  then show "bounds_word m 0 k = CAPNP_OK" using assms(1) holds_word(1) by (auto simp: bears_def)
  show "read_word m 0 k = Some (capnp_load_le64 (cs ! k))"
    using bears_read [OF assms, of 0 8] k by (simp add: read_word_def WORD_BYTES_def)
  show "k < 1024" by (rule k(1))
qed

section \<open>Pointers\<close>

lemma load_struct_cell [simp]: "capnp_load_le64 (struct_cell off dw pw) = capnp_wp_make_struct off dw pw"
  by (simp add: struct_cell_def load_store_le64)

lemma resolve_start:
  assumes "bears m cs" "w < length cs" "0 < traversal_left m"
  shows "resolve_ptr m 0 w d out = resolve_word (spend 1 m) 0 w (capnp_load_le64 (cs ! w)) d out"
  using bears_word [OF assms(1,2)] charge_spend [of 1 m] assms(3) by (simp add: resolve_ptr_def)

lemma resolve_struct_cell:
  assumes m: "bears m cs" and w: "w < length cs" "cs ! w = struct_cell off dw pw"
    and p: "body = w + 1 + nat off" "0 \<le> off" "dw < 2 ^ 16" "pw < 2 ^ 16" "0 < dw + pw" "body + dw + pw \<le> length cs"
    and b: "1 + dw + pw \<le> traversal_left m" "0 < d"
  shows "resolve_ptr m 0 w d out = Some (CAPNP_OK, spend (1 + dw + pw) m, set_struct 0 body dw pw (clear_view out))"
proof -
  have lc: "length cs \<le> 1024" using m by (simp add: bears_def cells_ok_def)
  have off: "capnp_wp_offset (capnp_wp_make_struct off dw pw) = off"
    by (rule make_struct_fields) (use p lc in simp_all)
  have sz: "size_t (int w + 1 + off) = body" "sz (body + dw + pw) = body + dw + pw" using p lc by (simp_all add: size_t_nonneg)
  have bw: "bounds_word m 0 body = CAPNP_OK" "bounds_word m 0 (body + dw + pw - 1) = CAPNP_OK"
    using p by (auto intro: bears_word(1) [OF m])
  have rs: "resolve_struct (spend 1 m) 0 w (capnp_wp_make_struct off dw pw) out' =
      charge_out (spend 1 m) (dw + pw) (set_struct 0 body dw pw out')" for out'
    using bw p(2-5) unfolding resolve_struct_def Let_def off sz by (simp add: sz(2))
  show ?thesis
    using b make_struct_nonzero [OF p(3-5)] w p(2-5)
    by (subst resolve_start [OF m w(1)], simp, subst resolve_word.simps)
      (simp add: rs [unfolded One_nat_def] Let_def kind_defs charge_out_spend clear_view_def add.assoc)
qed

lemma resolve_null_cell:
  assumes "bears m cs" "w < length cs" "cs ! w = replicate 8 0" "0 < traversal_left m" "0 < d"
  shows "resolve_ptr m 0 w d out = Some (CAPNP_OK, spend 1 m, set_null 0 w (clear_view out))"
proof -
  have "capnp_load_le64 (replicate 8 0) = 0" by (simp add: capnp_load_le64_def)
  then show ?thesis using assms
    by (subst resolve_start [OF assms(1,2)], simp, subst resolve_word.simps) (simp add: Let_def clear_view_def)
qed

lemma resolve_cap_cell:
  assumes "bears m cs" "w < length cs" "cs ! w = capnp_store_le64 (capnp_wp_make_cap i)" "0 < traversal_left m" "0 < d"
    and "i < 2 ^ 32"
  shows "resolve_ptr m 0 w d out = Some (CAPNP_OK, spend 1 m,
    (clear_view out)\<lparr>p_seg := 0, p_word := w, p_kind := PK_CAP, p_dwords := 0, p_pwords := 0,
        p_esize := 0, p_count := i, p_step_words := 0\<rparr>)"
proof -
  have "capnp_wp_make_cap i \<noteq> 0" using make_cap_fields(1) [of i] by (auto simp: capnp_wp_kind_def kind_defs)
  then show ?thesis using assms
    by (subst resolve_start [OF assms(1,2)], simp, subst resolve_word.simps)
      (simp add: Let_def clear_view_def load_store_le64 set_cap_def kind_defs)
qed

text \<open>A composite list of one element whose tag follows the pointer after \<open>off\<close> words.\<close>

lemma resolve_list_cell:
  assumes m: "bears m cs" and w: "w < length cs" "cs ! w = capnp_store_le64 (capnp_wp_make_list off SZ_COMPOSITE (dw + pw))"
    and tag: "t = w + 1 + nat off" "0 \<le> off" "t + dw + pw < length cs" "cs ! t = struct_cell 1 dw pw"
    and b: "dw < 2 ^ 16" "pw < 2 ^ 16" "2 + dw + pw \<le> traversal_left m" "0 < d"
  shows "resolve_ptr m 0 w d out = Some (CAPNP_OK, spend (2 + dw + pw) m,
    set_composite t (capnp_wp_make_struct 1 dw pw) (set_list 0 t SZ_COMPOSITE (dw + pw) (clear_view out)))"
proof -
  have lc: "length cs \<le> 1024" using m by (simp add: bears_def cells_ok_def)
  have off: "capnp_wp_offset (capnp_wp_make_list off SZ_COMPOSITE (dw + pw)) = off"
    "capnp_wp_list_esize (capnp_wp_make_list off SZ_COMPOSITE (dw + pw)) = SZ_COMPOSITE"
    "capnp_wp_list_count (capnp_wp_make_list off SZ_COMPOSITE (dw + pw)) = dw + pw"
    by (rule make_list_fields) (use tag lc in \<open>simp_all add: kind_defs\<close>)
  have sz: "size_t (int w + 1 + off) = t" "sz (Suc (t + (dw + pw))) = Suc (t + (dw + pw))"
    using tag lc by (simp_all add: size_t_nonneg)
  have cnt: "capnp_wp_offset (capnp_wp_make_struct 1 dw pw) = 1" by (rule make_struct_fields) simp_all
  have bw: "bounds_word m 0 t = CAPNP_OK" "bounds_word m 0 (t + (dw + pw)) = CAPNP_OK"
    "read_word m 0 t = Some (capnp_wp_make_struct 1 dw pw)"
    using tag bears_word [OF m, of t] bears_word(1) [OF m, of "t + (dw + pw)"] by simp_all
  have c1: "charge (spend 1 m) 1 = (CAPNP_OK, spend 2 m)"
    using charge_spend [of 1 "spend 1 m"] b by (simp add: spend_spend numeral_2_eq_2)
  have rl: "resolve_list (spend 1 m) 0 w (capnp_wp_make_list off SZ_COMPOSITE (dw + pw)) out' =
      Some (charge_out (spend 2 m) (dw + pw)
        (set_composite t (capnp_wp_make_struct 1 dw pw) (set_list 0 t SZ_COMPOSITE (dw + pw) out')))" for out'
    using bw b(1,2) lc tag(3) unfolding resolve_list_def Let_def off sz
    by (simp add: c1 [unfolded One_nat_def] cnt sz(2) kind_defs)
  show ?thesis
    using b make_list_nonzero [of off SZ_COMPOSITE "dw + pw"] w(2)
    by (subst resolve_start [OF m w(1)], simp, subst resolve_word.simps)
      (simp add: rl [unfolded One_nat_def] load_store_le64 Let_def CAPNP_WK_STRUCT_def CAPNP_WK_LIST_def CAPNP_WK_FAR_def charge_out_spend clear_view_def)
qed

section \<open>Fields\<close>

text \<open>A struct view at word \<open>w\<close> of the segment.\<close>

definition body_at :: "ptr \<Rightarrow> nat \<Rightarrow> nat \<Rightarrow> nat \<Rightarrow> bool" where
  "body_at p w dw pw \<longleftrightarrow> p_kind p = PK_STRUCT \<and> p_seg p = 0 \<and> p_word p = w \<and> p_dwords p = dw \<and> p_pwords p = pw \<and>
     p_body_byte p = 0 \<and> p_data_bits p = 0"

lemma body_at_set_struct [simp]: "body_at (set_struct 0 w dw pw (clear_view out)) w dw pw"
  by (simp add: body_at_def clear_view_def)

lemma field_read:
  assumes "bears m cs" "body_at p w dw pw" "k < dw" "w + k < length cs" "r + n \<le> 8"
  shows "data_has_bytes p (k * 8 + r) n" "seg_read m (p_seg p) (data_bytes p + (k * 8 + r)) n =
    Some (take n (drop r (cs ! (w + k))))"
proof -
  show "data_has_bytes p (k * 8 + r) n" using assms(2,3,5) by (simp add: data_has_bytes_def body_at_def data_bit_count_def)
  have "w < 1024" using assms(1,4) by (simp add: bears_def cells_ok_def)
  then have "data_bytes p + (k * 8 + r) = (w + k) * 8 + r"
    using assms(2) by (simp add: data_bytes_def body_at_def WORD_BYTES_def)
  then show "seg_read m (p_seg p) (data_bytes p + (k * 8 + r)) n = Some (take n (drop r (cs ! (w + k))))"
    using bears_read [OF assms(1,4,5)] assms(2) by (simp add: body_at_def add.assoc)
qed

lemma get_cell:
  assumes "bears m cs" "body_at p w dw pw" "off div 8 < dw" "w + off div 8 < length cs"
  shows "off mod 8 \<le> 6 \<Longrightarrow> capnp_get_u16 m p off x2 = Some (capnp_load_le16 (take 2 (drop (off mod 8) (cs ! (w + off div 8)))))"
    and "off mod 8 \<le> 4 \<Longrightarrow> capnp_get_u32 m p off x4 = Some (capnp_load_le32 (take 4 (drop (off mod 8) (cs ! (w + off div 8)))))"
    and "off mod 8 = 0 \<Longrightarrow> capnp_get_u64 m p off x8 = Some (capnp_load_le64 (cs ! (w + off div 8)))"
proof -
  note f = field_read [OF assms, of "off mod 8", simplified]
  show "off mod 8 \<le> 6 \<Longrightarrow> capnp_get_u16 m p off x2 = Some (capnp_load_le16 (take 2 (drop (off mod 8) (cs ! (w + off div 8)))))"
    using f [of 2] by (simp add: capnp_get_u16_def)
  show "off mod 8 \<le> 4 \<Longrightarrow> capnp_get_u32 m p off x4 = Some (capnp_load_le32 (take 4 (drop (off mod 8) (cs ! (w + off div 8)))))"
    using f [of 4] by (simp add: capnp_get_u32_def)
  have "length (cs ! (w + off div 8)) = 8" using assms(1,4) by (simp add: bears_def cells_ok_def list_all_length)
  then show "off mod 8 = 0 \<Longrightarrow> capnp_get_u64 m p off x8 = Some (capnp_load_le64 (cs ! (w + off div 8)))"
    using f [of 8] by (simp add: capnp_get_u64_def)
qed

lemma getp_cell:
  assumes "bears m cs" "body_at p w dw pw" "i < pw" "w + dw + i < length cs"
  shows "capnp_getp m p i out = resolve_ptr m 0 (w + dw + i) 64 out"
proof -
  have "w + dw + i < 1024" using assms(1,4) by (simp add: bears_def cells_ok_def)
  then show ?thesis using assms by (simp add: capnp_getp_def body_at_def bears_def)
qed

lemma getp_outside:
  assumes "p_kind p = PK_STRUCT" "p_pwords p \<le> i"
  shows "capnp_getp m p i ptr0 = Some (CAPNP_OK, m, set_null (p_seg p) 0 ptr0)"
  using assms by (simp add: capnp_getp_def ptr0_def set_null_def)

section \<open>Frames\<close>

definition parsed :: "byte list \<Rightarrow> message" where
  "parsed d = attached (capnp_message_init
     \<lparr>owned := Some (take (body_size (frame [d])) (frame [d])), owned_len := body_size (frame [d])\<rparr>) (frame [d])"

lemma parsed_bears:
  assumes "cells_ok cs" "cs \<noteq> []"
  shows "bears (parsed (concat cs)) cs" "traversal_left (parsed (concat cs)) = 8388608"
    "mem_ok A (8 + length (concat cs)) \<Longrightarrow> capnp_message_from_flat A (frame [concat cs]) = Some (CAPNP_OK, parsed (concat cs))"
proof -
  let ?d = "concat cs"
  have len: "length ?d = length cs * 8" "length cs \<le> 1024" using assms(1) by (simp_all add: cells_ok_def length_concat_cells)
  have fb: "frame_bodies [?d]" using len by (simp add: frame_bodies_def MAX_SEGMENTS_def)
  have fits: "stream_fits (frame [?d])" using frame_stream_fits [OF fb, of "[]"] by simp
  have short: "length (frame [?d]) < 2 ^ 63" using len by (simp add: length_frame1)
  have initm: "length (msegs (capnp_message_init\<lparr>owned := o', owned_len := l\<rparr>)) = MAX_SEGMENTS" for o' l
    by (simp add: capnp_message_init_def)
  note af = attached_facts [OF fits initm short] attached_bodies [OF fb, of "[]", unfolded append_Nil2, OF short initm]
  then show "bears (parsed ?d) cs" using assms(1)
    by (simp add: bears_def holds_def parsed_def capnp_message_init_def DEFAULT_DEPTH_LIMIT_def)
  show "traversal_left (parsed ?d) = 8388608"
    using af by (simp add: parsed_def capnp_message_init_def DEFAULT_TRAVERSAL_WORDS_def)
  show "mem_ok A (8 + length ?d) \<Longrightarrow> capnp_message_from_flat A (frame [?d]) = Some (CAPNP_OK, parsed ?d)"
    using fits frame_body_size [OF fb, of "[]"] by (simp add: from_flat_eq parsed_def length_frame1)
qed

text \<open>The first steps of \<open>capnp_rpc_handle\<close> on a frame with the usual head.\<close>

definition usual :: "byte list list \<Rightarrow> u16 \<Rightarrow> nat \<Rightarrow> nat \<Rightarrow> byte list list \<Rightarrow> bool" where
  "usual cs tag dw pw rest \<longleftrightarrow> cs = head_cells tag dw pw @ rest \<and> cells_ok cs \<and> 0 < dw + pw \<and>
     dw < 2 ^ 16 \<and> pw < 2 ^ 16 \<and> dw + pw \<le> length rest"

lemma length_head_cells [simp]: "length (head_cells tag dw pw) = 3"
  by (simp add: head_cells_def)

lemma usual_cells:
  assumes "usual cs tag dw pw rest"
  shows "cs ! 0 = struct_cell 0 1 1" "cs ! 1 = pad (capnp_store_le16 tag)" "cs ! 2 = struct_cell 0 dw pw"
    "k < length rest \<Longrightarrow> cs ! (3 + k) = rest ! k" "length cs = 3 + length rest" "cs \<noteq> []"
  using assms by (auto simp: usual_def head_cells_def numeral_3_eq_3 numeral_2_eq_2)

lemma usual_head:
  assumes "usual cs tag dw pw rest" "bears m cs" "100000 \<le> traversal_left m"
  defines "root \<equiv> set_struct 0 1 1 1 (clear_view ptr0)" and "body \<equiv> set_struct 0 3 dw pw (clear_view ptr0)"
  shows "capnp_root m ptr0 = Some (CAPNP_OK, spend 3 m, root)" "capnp_get_u16 (spend 3 m) root 0 0 = Some tag"
    "capnp_getp (spend 3 m) root 0 ptr0 = Some (CAPNP_OK, spend (4 + dw + pw) m, body)"
    "body_at root 1 1 1" "body_at body 3 dw pw"
proof -
  note u = usual_cells [OF assms(1)]
  have lc: "length cs \<le> 1024" "dw + pw + 3 \<le> length cs" using assms(1,2) by (auto simp: bears_def cells_ok_def u(5) usual_def)
  have dp: "0 < dw + pw" "dw < 2 ^ 16" "pw < 2 ^ 16" using assms(1) by (simp_all add: usual_def)
  have n: "nsegs m = 1" using assms(2) holds_facts(1) [of m "[concat cs]" 0] by (simp add: bears_def)
  have dl: "depth_limit m = 64" using assms(2) by (simp add: bears_def)
  show ra: "body_at root 1 1 1" "body_at body 3 dw pw" unfolding root_def body_def by simp_all
  show "capnp_root m ptr0 = Some (CAPNP_OK, spend 3 m, root)"
    using resolve_struct_cell [OF assms(2), of 0 0 1 1 1 64 ptr0] u(1,6) lc dp assms(3)
    by (simp add: capnp_root_def n dl root_def numeral_3_eq_3)
  show "capnp_get_u16 (spend 3 m) root 0 0 = Some tag"
    using get_cell(1) [of "spend 3 m" cs root 1 1 1 0 0] assms(2) ra u(2) lc
    by (simp add: pad_def load_store_le16)
  have "spend (1 + dw + pw) (spend 3 m) = spend (4 + dw + pw) m" by (simp add: spend_spend ac_simps)
  moreover have "capnp_getp (spend 3 m) root 0 ptr0 = resolve_ptr (spend 3 m) 0 2 64 ptr0"
    using getp_cell [of "spend 3 m" cs root 1 1 1 0 ptr0] assms(2) ra lc by (simp add: numeral_2_eq_2)
  moreover have "resolve_ptr (spend 3 m) 0 2 64 ptr0 = Some (CAPNP_OK, spend (1 + dw + pw) (spend 3 m), body)"
    unfolding body_def
    by (rule resolve_struct_cell [of _ cs _ 0]) (use u(3) lc dp assms(2,3) in simp_all)
  ultimately show "capnp_getp (spend 3 m) root 0 ptr0 = Some (CAPNP_OK, spend (4 + dw + pw) m, body)" by simp
qed

lemma handle_usual:
  assumes "usual cs tag dw pw rest" "mem_ok A (8 + length (concat cs))"
  shows "capnp_rpc_handle A c (frame [concat cs]) =
    rpc_dispatch A c (spend (4 + dw + pw) (parsed (concat cs))) tag
      (set_struct 0 1 1 1 (clear_view ptr0)) (set_struct 0 3 dw pw (clear_view ptr0)) (frame [concat cs])"
proof -
  have ok: "cells_ok cs" "cs \<noteq> []" using assms(1) usual_cells(6) by (auto simp: usual_def)
  note p = parsed_bears [OF ok]
  note h = usual_head [OF assms(1) p(1)]
  show ?thesis using p(2,3) assms(2) h by (simp add: capnp_rpc_handle_def)
qed

end
