(* ===== verification/RpcEnd.thy ===== *)
theory RpcEnd
  imports RpcRead
begin

text \<open>
  What a peer does with each frame the vat sends: the handlers computed on the bodies of theory
  \<open>RpcBodies\<close>. These are the halves that the end-to-end properties put together.
\<close>

text \<open>An allocator that grants what one message needs.\<close>

definition roomy :: "allocator \<Rightarrow> bool" where
  "roomy A \<longleftrightarrow> arena_ok A \<and> (\<forall>n \<le> 8200. mem_ok A n)"

lemma roomyD: "roomy A \<Longrightarrow> arena_ok A" "roomy A \<Longrightarrow> n \<le> 8200 \<Longrightarrow> mem_ok A n"
  by (simp_all add: roomy_def)

lemma emit_roomy: "roomy A \<Longrightarrow> length d \<le> 8192 \<Longrightarrow> emit A c d = c_send c (frame [d])"
  by (simp add: emit_def roomy_def)

lemma emit_answer_roomy: "roomy A \<Longrightarrow> length d \<le> 8192 \<Longrightarrow>
  emit_answer A c qid d = c_send (keep_answer c qid (frame [d])) (frame [d])"
  by (simp add: emit_answer_def roomy_def)

lemma zero_cells_1 [simp]: "zero_cells (Suc 0) = [replicate 8 0]"
  by (simp add: zero_cells_def)

lemma length_zero_cells [simp]: "length (zero_cells n) = n" "list_all (\<lambda>c. length c = 8) (zero_cells n)"
  by (simp_all add: zero_cells_def list_all_iff)

lemma cells_ok_head [simp]: "list_all (\<lambda>c. length c = 8) (head_cells tag dw pw)"
  by (simp add: head_cells_def)

text \<open>Start of a handler on a usual frame: the body is at word 3.\<close>

lemma usual_start:
  assumes "usual cs tag dw pw rest" "roomy A"
  obtains m body where "capnp_rpc_handle A c (frame [concat cs]) =
      rpc_dispatch A c m tag (set_struct 0 1 1 1 (clear_view ptr0)) body (frame [concat cs])"
    "bears m cs" "body_at body 3 dw pw" "8000000 \<le> traversal_left m"
proof -
  let ?m = "spend (4 + dw + pw) (parsed (concat cs))" and ?body = "set_struct 0 3 dw pw (clear_view ptr0)"
  have ok: "cells_ok cs" "cs \<noteq> []" using assms(1) usual_cells(6) by (auto simp: usual_def)
  then have "length (concat cs) \<le> 8192" by (simp add: cells_ok_def length_concat_cells)
  then have "mem_ok A (8 + length (concat cs))" using assms(2) by (simp add: roomy_def)
  moreover have "bears ?m cs" "8000000 \<le> traversal_left ?m" "body_at ?body 3 dw pw"
    using parsed_bears(1,2) [OF ok] assms(1) by (simp_all add: usual_def) linarith
  ultimately show thesis using that handle_usual [OF assms(1)] by blast
qed

section \<open>Bootstrap, Finish and Release\<close>

lemma handle_bootstrap_frame:
  assumes "roomy A"
  shows "capnp_rpc_handle A s (frame [bootstrap_body qid]) =
    (if bootstrap s = 0 then Some (emit A s (exception_body qid ''no bootstrap capability''))
     else do { (eid, s) \<leftarrow> capnp_rpc_export s (bootstrap s) (bootstrap_dispatch s);
       Some (if eid < 0 then emit A s (exception_body qid ''export table full'')
             else emit_answer A s qid (return_cap_body qid eid)) })"
proof -
  define cs where "cs = head_cells MSG_BOOTSTRAP 1 1 @ [pad (capnp_store_le32 qid), replicate 8 0]"
  have u: "usual cs MSG_BOOTSTRAP 1 1 [pad (capnp_store_le32 qid), replicate 8 0]"
    by (simp add: usual_def cs_def cells_ok_def)
  have b: "bootstrap_body qid = concat cs" by (simp add: bootstrap_body_def cs_def)
  obtain m body where h: "capnp_rpc_handle A s (frame [concat cs]) =
      rpc_dispatch A s m MSG_BOOTSTRAP (set_struct 0 1 1 1 (clear_view ptr0)) body (frame [concat cs])"
    "bears m cs" "body_at body 3 1 1" by (rule usual_start [OF u assms])
  have "capnp_get_u32 m body 0 0 = Some qid"
    using get_cell(2) [OF h(2,3), of 0 0] usual_cells(4) [OF u, of 0] usual_cells(5) [OF u]
    by (simp add: pad_def load_store_le32)
  then show ?thesis using h(1)
    by (simp add: b rpc_dispatch_def handle_bootstrap_def send_return_exception_emit send_return_cap_emit
        roomyD [OF assms] split: bind_splits if_splits cong: if_cong)
qed

lemma one_word_frame:
  assumes "roomy A" "length x = 4" "length y = 4"
  obtains m body where "capnp_rpc_handle A s (frame [concat (head_cells tag 1 0 @ [x @ y])]) =
      rpc_dispatch A s m tag (set_struct 0 1 1 1 (clear_view ptr0)) body (frame [concat (head_cells tag 1 0 @ [x @ y])])"
    "capnp_get_u32 m body 0 0 = Some (capnp_load_le32 x)" "capnp_get_u32 m body 4 0 = Some (capnp_load_le32 y)"
proof -
  define cs where "cs = head_cells tag 1 0 @ [x @ y]"
  have u: "usual cs tag 1 0 [x @ y]" using assms(2,3) by (simp add: usual_def cs_def cells_ok_def)
  obtain m body where h: "capnp_rpc_handle A s (frame [concat cs]) =
      rpc_dispatch A s m tag (set_struct 0 1 1 1 (clear_view ptr0)) body (frame [concat cs])"
    "bears m cs" "body_at body 3 1 0" by (rule usual_start [OF u assms(1)])
  have "capnp_get_u32 m body 0 0 = Some (capnp_load_le32 x)" "capnp_get_u32 m body 4 0 = Some (capnp_load_le32 y)"
    using get_cell(2) [OF h(2,3), of 0 0] get_cell(2) [OF h(2,3), of 4 0] usual_cells(4) [OF u, of 0]
      usual_cells(5) [OF u] assms(2,3) by simp_all
  with h(1) that show thesis by (simp add: cs_def)
qed

lemma handle_finish_frame:
  assumes "roomy A"
  shows "capnp_rpc_handle A s (frame [finish_body qid]) = Some (0, answer_drop s qid)"
proof -
  have b: "finish_body qid = concat (head_cells MSG_FINISH 1 0 @ [capnp_store_le32 qid @ replicate 4 0])"
    by (simp add: finish_body_def pad_def)
  have l: "length (capnp_store_le32 qid) = 4" "length (replicate 4 (0 :: byte)) = 4" by simp_all
  obtain m body where h: "capnp_rpc_handle A s (frame [finish_body qid]) =
      rpc_dispatch A s m MSG_FINISH (set_struct 0 1 1 1 (clear_view ptr0)) body (frame [finish_body qid])"
    "capnp_get_u32 m body 0 0 = Some (capnp_load_le32 (capnp_store_le32 qid))"
    "capnp_get_u32 m body 4 0 = Some (capnp_load_le32 (replicate 4 0))"
    unfolding b by (rule one_word_frame [OF assms l])
  then show ?thesis by (simp add: rpc_dispatch_def MSG_FINISH_def MSG_BOOTSTRAP_def MSG_CALL_def load_store_le32)
qed

text \<open>The effect of a Release of \<open>n\<close> references, as a function of the tables.\<close>

definition released :: "conn \<Rightarrow> u32 \<Rightarrow> u32 \<Rightarrow> conn option" where
  "released s eid n =
     (if export_named s eid < 0 then Some s else do {
        k \<leftarrow> c_int (ex_refcount (exports s ! unat eid) - sint n);
        Some (set_export (unat eid) (if k \<le> 0 then export0 else (exports s ! unat eid)\<lparr>ex_refcount := k\<rparr>) s) })"

lemma handle_release_frame:
  assumes "roomy A"
  shows "capnp_rpc_handle A s (frame [release_body eid n]) = do { s \<leftarrow> released s eid n; Some (0, s) }"
proof -
  have b: "release_body eid n = concat (head_cells MSG_RELEASE 1 0 @ [capnp_store_le32 eid @ capnp_store_le32 n])"
    by (simp add: release_body_def)
  have l: "length (capnp_store_le32 eid) = 4" "length (capnp_store_le32 n) = 4" by simp_all
  obtain m body where h: "capnp_rpc_handle A s (frame [release_body eid n]) =
      rpc_dispatch A s m MSG_RELEASE (set_struct 0 1 1 1 (clear_view ptr0)) body (frame [release_body eid n])"
    "capnp_get_u32 m body 0 0 = Some (capnp_load_le32 (capnp_store_le32 eid))"
    "capnp_get_u32 m body 4 0 = Some (capnp_load_le32 (capnp_store_le32 n))"
    unfolding b by (rule one_word_frame [OF assms l])
  then show ?thesis
    by (simp add: rpc_dispatch_def rpc_consts load_store_le32 handle_release_def released_def Let_def)
qed

section \<open>A Return that carries a capability\<close>

definition return_cap_cells :: "u32 \<Rightarrow> int \<Rightarrow> byte list list" where
  "return_cap_cells qid eid = return_cells qid 0 @ [struct_cell 0 0 2,
     capnp_store_le64 (capnp_wp_make_cap 0), capnp_store_le64 (capnp_wp_make_list 0 SZ_COMPOSITE 2)] @ cap_cells eid"

lemma return_cap_body_cells: "return_cap_body qid eid = concat (return_cap_cells qid eid)"
  by (simp add: return_cap_body_def return_cap_cells_def)

lemma return_cap_usual:
  "usual (return_cap_cells qid eid) MSG_RETURN 2 1
     ([capnp_store_le32 qid @ replicate 2 0 @ capnp_store_le16 0] @ zero_cells 1 @ [struct_cell 0 0 2,
      capnp_store_le64 (capnp_wp_make_cap 0), capnp_store_le64 (capnp_wp_make_list 0 SZ_COMPOSITE 2)] @ cap_cells eid)"
  by (simp add: usual_def return_cap_cells_def return_cells_def cells_ok_def cap_cells_def)

lemma return_cap_nth:
  fixes qid eid
  defines "cs \<equiv> return_cap_cells qid eid"
  shows "length cs = 11" "cs ! 3 = capnp_store_le32 qid @ replicate 2 0 @ capnp_store_le16 0" "cs ! 5 = struct_cell 0 0 2"
    "cs ! 6 = capnp_store_le64 (capnp_wp_make_cap 0)" "cs ! 7 = capnp_store_le64 (capnp_wp_make_list 0 SZ_COMPOSITE 2)"
    "cs ! 8 = struct_cell 1 1 1" "cs ! 9 = pad (capnp_store_le16 1 @ replicate 2 0 @ capnp_store_le32 (word_of_int eid))"
  by (simp_all add: cs_def return_cap_cells_def return_cells_def cap_cells_def head_cells_def)

lemma length_return_cap [simp]: "length (return_cap_body qid eid) = 88"
  by (simp add: return_cap_body_cells return_cap_cells_def cap_cells_def)

text \<open>The views of a Return with a capability: its fields, the payload, the content and the table.\<close>

lemma return_cap_views:
  assumes m: "bears m (return_cap_cells qid eid)" "body_at ret 3 2 1" "1000 \<le> traversal_left m"
  defines "payload \<equiv> set_struct 0 6 0 2 (clear_view ptr0)"
  shows "capnp_get_u32 m ret 0 0 = Some qid" "capnp_get_u16 m ret 6 0 = Some 0"
    "capnp_getp m ret 0 ptr0 = Some (CAPNP_OK, spend 3 m, payload)"
proof -
  let ?cs = "return_cap_cells qid eid"
  note n = return_cap_nth [of qid eid]
  show "capnp_get_u32 m ret 0 0 = Some qid" "capnp_get_u16 m ret 6 0 = Some 0"
    using get_cell(2) [OF m(1,2), of 0 0] get_cell(1) [OF m(1,2), of 6 0] n(1,2)
    by (simp_all add: load_store_le32 load_store_le16)
  have "capnp_getp m ret 0 ptr0 = resolve_ptr m 0 5 64 ptr0"
    using getp_cell [OF m(1,2), of 0 ptr0] n(1) by simp
  also have "\<dots> = Some (CAPNP_OK, spend (1 + 0 + 2) m, payload)"
    unfolding payload_def by (rule resolve_struct_cell [OF m(1), of _ 0]) (use n(1,3) m(3) in simp_all)
  finally show "capnp_getp m ret 0 ptr0 = Some (CAPNP_OK, spend 3 m, payload)" by (simp add: numeral_3_eq_3)
qed

lemma payload_cap_views:
  assumes m: "bears m (return_cap_cells qid eid)" "body_at payload 6 0 2" "1000 \<le> traversal_left m"
  defines "tab \<equiv> set_composite 8 (capnp_wp_make_struct 1 1 1) (set_list 0 8 SZ_COMPOSITE 2 (clear_view ptr0))"
  obtains content where "capnp_getp m payload 0 ptr0 = Some (CAPNP_OK, spend 1 m, content)"
    "p_kind content = PK_CAP" "p_count content = 0"
    "capnp_getp m payload 1 ptr0 = Some (CAPNP_OK, spend 4 m, tab)"
proof -
  let ?cs = "return_cap_cells qid eid"
  note n = return_cap_nth [of qid eid]
  have "capnp_getp m payload 0 ptr0 = resolve_ptr m 0 6 64 ptr0" using getp_cell [OF m(1,2), of 0 ptr0] n(1) by simp
  also have "\<dots> = Some (CAPNP_OK, spend 1 m, (clear_view ptr0)\<lparr>p_seg := 0, p_word := 6, p_kind := PK_CAP, p_dwords := 0,
      p_pwords := 0, p_esize := 0, p_count := 0, p_step_words := 0\<rparr>)"
    by (rule resolve_cap_cell [OF m(1)]) (use n(1,4) m(3) in simp_all)
  finally have content: "capnp_getp m payload 0 ptr0 = \<dots>" .
  have sums: "2 + 1 + 1 = (4 :: nat)" "1 + 1 = (2 :: nat)" by simp_all
  have n5: "?cs ! 7 = capnp_store_le64 (capnp_wp_make_list 0 SZ_COMPOSITE (1 + 1))" using n(5) by (simp only: one_add_one)
  have "capnp_getp m payload 1 ptr0 = resolve_ptr m 0 7 64 ptr0" using getp_cell [OF m(1,2), of 1 ptr0] n(1) by simp
  also have "\<dots> = Some (CAPNP_OK, spend (2 + 1 + 1) m, set_composite 8 (capnp_wp_make_struct 1 1 1) (set_list 0 8 SZ_COMPOSITE (1 + 1) (clear_view ptr0)))"
    by (rule resolve_list_cell [OF m(1), of _ 0]) (use n(1,6) n5 m(3) in simp_all)
  finally have tab: "capnp_getp m payload 1 ptr0 = Some (CAPNP_OK, spend 4 m, tab)"
    unfolding tab_def by (simp only: sums)
  show thesis by (rule that [OF content _ _ tab]) simp_all
qed

lemma cap_table_entry:
  defines "tab \<equiv> set_composite 8 (capnp_wp_make_struct 1 1 1) (set_list 0 8 SZ_COMPOSITE 2 (clear_view ptr0))"
  assumes m: "bears m (return_cap_cells qid eid)"
  obtains desc where "capnp_list_len tab = 1" "capnp_list_get_struct tab 0 ptr0 = (CAPNP_OK, desc)"
    "capnp_get_u16 m desc 0 0 = Some 1" "capnp_get_u32 m desc 4 0 = Some (word_of_int eid)"
proof -
  have off: "capnp_wp_offset (capnp_wp_make_struct 1 1 1) = 1" by (rule make_struct_fields) simp_all
  have t: "p_kind tab = PK_LIST" "p_count tab = 1" "p_seg tab = 0" "p_esize tab = SZ_COMPOSITE" "p_word tab = 9"
    "p_dwords tab = 1" "p_pwords tab = 1" "p_step_words tab = 2"
    using off make_struct_fields(2,3) [of 1 1 1] by (simp_all add: tab_def set_composite_def set_list_def)
  define desc where "desc = snd (capnp_list_get_struct tab 0 ptr0)"
  have d: "capnp_list_get_struct tab 0 ptr0 = (CAPNP_OK, desc)" "body_at desc 9 1 1"
    by (simp_all add: desc_def capnp_list_get_struct_def t body_at_def Let_def)
  note n = return_cap_nth [of qid eid]
  have "capnp_get_u16 m desc 0 0 = Some 1" "capnp_get_u32 m desc 4 0 = Some (word_of_int eid)"
    using get_cell(1) [OF m d(2), of 0 0] get_cell(2) [OF m d(2), of 4 0] n(1,7)
    by (simp_all add: pad_def load_store_le16 load_store_le32)
  with d(1) that show thesis by (simp add: capnp_list_len_def t)
qed

text \<open>The question a Return answers, as \<open>handle_return\<close> leaves it.\<close>

definition answered :: "conn \<Rightarrow> nat \<Rightarrow> bool \<Rightarrow> byte list \<Rightarrow> conn" where
  "answered c i failed flat = c\<lparr>questions := (questions c)[i := (questions c ! i)
     \<lparr>qu_answered := True, qu_failed := failed, qu_reply := flat\<rparr>]\<rparr>"

lemma handle_return_cap_frame:
  assumes "roomy A"
  shows "capnp_rpc_handle A c (frame [return_cap_body qid eid]) =
    Some (0, case question_find c qid of None \<Rightarrow> c | Some i \<Rightarrow> answered c i False (frame [return_cap_body qid eid]))"
proof -
  let ?cs = "return_cap_cells qid eid"
  obtain m body where h: "capnp_rpc_handle A c (frame [concat ?cs]) =
      rpc_dispatch A c m MSG_RETURN (set_struct 0 1 1 1 (clear_view ptr0)) body (frame [concat ?cs])"
    "bears m ?cs" "body_at body 3 2 1" "8000000 \<le> traversal_left m"
    by (rule usual_start [OF return_cap_usual assms])
  define payload where "payload = set_struct 0 6 0 2 (clear_view ptr0)"
  have v: "capnp_get_u32 m body 0 0 = Some qid" "capnp_get_u16 m body 6 0 = Some 0"
    "capnp_getp m body 0 ptr0 = Some (CAPNP_OK, spend 3 m, payload)"
    unfolding payload_def using return_cap_views [OF h(2,3)] h(4) by simp_all
  define tab where "tab = set_composite 8 (capnp_wp_make_struct 1 1 1) (set_list 0 8 SZ_COMPOSITE 2 (clear_view ptr0))"
  have m3: "bears (spend 3 m) ?cs" "body_at payload 6 0 2" "1000 \<le> traversal_left (spend 3 m)"
    using h(2,4) by (simp_all add: payload_def)
  have t: "capnp_getp (spend 3 m) payload 1 ptr0 = Some (CAPNP_OK, spend 4 (spend 3 m), tab)"
    unfolding tab_def by (rule payload_cap_views [OF m3])
  have m7: "bears (spend 4 (spend 3 m)) ?cs" using h(2) by simp
  obtain desc where d: "capnp_list_len tab = 1" "capnp_list_get_struct tab 0 ptr0 = (CAPNP_OK, desc)"
    "capnp_get_u16 (spend 4 (spend 3 m)) desc 0 0 = Some 1"
    unfolding tab_def by (rule cap_table_entry [OF m7])
  have "note_introductions c (spend 3 m) payload = Some (c, spend 4 (spend 3 m))"
    using t d m3(2) by (simp add: note_introductions_def body_at_def note_one_def)
  moreover have "length (frame [concat ?cs]) \<le> MAX_ANSWER_BYTES"
    unfolding return_cap_body_cells [symmetric] by (simp add: length_frame1 MAX_ANSWER_BYTES_def)
  moreover have "p_kind body = PK_STRUCT" using h(3) by (simp add: body_at_def)
  ultimately have "handle_return c m body (frame [concat ?cs]) =
      Some (case question_find c qid of None \<Rightarrow> c | Some i \<Rightarrow> answered c i False (frame [concat ?cs]))"
    using v by (auto simp: handle_return_def answered_def split: option.splits)
  then show ?thesis using h(1) unfolding return_cap_body_cells by (simp add: rpc_dispatch_def rpc_consts)
qed

text \<open>Reading the stored Return: by the asker (\<open>capnp_rpc_answer_cap_id\<close>) and, for a pipelined
  call, by the answerer.\<close>

lemma return_cap_payload:
  fixes qid :: u32 and eid :: int
  defines "st \<equiv> parsed (return_cap_body qid eid)" and "payload \<equiv> set_struct 0 6 0 2 (clear_view ptr0)"
  shows "return_payload st = Some (spend 10 st, Some payload)" "bears st (return_cap_cells qid eid)"
    "traversal_left st = 8388608" "roomy A \<Longrightarrow> capnp_message_from_flat A (frame [return_cap_body qid eid]) = Some (CAPNP_OK, st)"
proof -
  let ?cs = "return_cap_cells qid eid"
  have ok: "cells_ok ?cs" "?cs \<noteq> []" using return_cap_usual [of qid eid] usual_cells(6) by (auto simp: usual_def)
  note p = parsed_bears [OF ok, folded return_cap_body_cells, folded st_def]
  show "bears st ?cs" "traversal_left st = 8388608" using p(1,2) by simp_all
  show "roomy A \<Longrightarrow> capnp_message_from_flat A (frame [return_cap_body qid eid]) = Some (CAPNP_OK, st)"
    using p(3) by (simp add: roomy_def)
  note h = usual_head [OF return_cap_usual p(1)]
  have "4 + 2 + 1 = (7 :: nat)" by simp
  note h3 = h(3) [unfolded this]
  note v = return_cap_views [of "spend 7 st", OF _ h(5), folded payload_def]
  show "return_payload st = Some (spend 10 st, Some payload)"
    using h(1,2) h3 v p(1,2) by (simp add: return_payload_def MSG_RETURN_def spend_spend)
qed

lemma payload_entry:
  fixes eid :: int
  defines "payload \<equiv> set_struct 0 6 0 2 (clear_view ptr0)"
  assumes m: "bears m (return_cap_cells qid eid)" "2000 \<le> traversal_left m"
  obtains content where "capnp_getp m payload 0 ptr0 = Some (CAPNP_OK, spend 1 m, content)" "p_kind content = PK_CAP"
    "cap_entry (spend 1 m) payload content = Some (Some (word_of_int eid))"
proof -
  have b: "body_at payload 6 0 2" by (simp add: payload_def)
  obtain content where c: "capnp_getp m payload 0 ptr0 = Some (CAPNP_OK, spend 1 m, content)"
    "p_kind content = PK_CAP" "p_count content = 0" by (rule payload_cap_views [OF m(1) b]) (use m(2) in simp)
  define tab where "tab = set_composite 8 (capnp_wp_make_struct 1 1 1) (set_list 0 8 SZ_COMPOSITE 2 (clear_view ptr0))"
  have m1: "bears (spend 1 m) (return_cap_cells qid eid)" "1000 \<le> traversal_left (spend 1 m)" using m by simp_all
  have t: "capnp_getp (spend 1 m) payload 1 ptr0 = Some (CAPNP_OK, spend 4 (spend 1 m), tab)"
    unfolding tab_def by (rule payload_cap_views [OF m1(1) b m1(2)])
  have m5: "bears (spend 4 (spend 1 m)) (return_cap_cells qid eid)" using m by simp
  obtain desc where d: "capnp_list_len tab = 1" "capnp_list_get_struct tab 0 ptr0 = (CAPNP_OK, desc)"
    "capnp_get_u16 (spend 4 (spend 1 m)) desc 0 0 = Some 1" "capnp_get_u32 (spend 4 (spend 1 m)) desc 4 0 = Some (word_of_int eid)"
    unfolding tab_def by (rule cap_table_entry [OF m5])
  have "cap_entry (spend 1 m) payload content = Some (Some (word_of_int eid))"
    using t d c by (simp add: cap_entry_def)
  with c(1,2) that show thesis by blast
qed

lemma answer_cap_id_frame:
  assumes "roomy A" "question_find c qid = Some i"
    and "qu_answered (questions c ! i)" "\<not> qu_failed (questions c ! i)"
    and "qu_reply (questions c ! i) = frame [return_cap_body q eid]"
  shows "capnp_rpc_answer_cap_id A c qid = Some (sint (word_of_int eid :: u32))"
proof -
  define st where "st = parsed (return_cap_body q eid)"
  note p = return_cap_payload [where qid = q and eid = eid, folded st_def]
  have m: "bears (spend 10 st) (return_cap_cells q eid)" "2000 \<le> traversal_left (spend 10 st)" using p(2,3) by simp_all
  obtain content where "capnp_getp (spend 10 st) (set_struct 0 6 0 2 (clear_view ptr0)) 0 ptr0 = Some (CAPNP_OK, spend 1 (spend 10 st), content)"
    "p_kind content = PK_CAP"
    "cap_entry (spend 1 (spend 10 st)) (set_struct 0 6 0 2 (clear_view ptr0)) content = Some (Some (word_of_int eid))"
    by (rule payload_entry [OF m])
  then show ?thesis using assms(2-5) p(1) p(4) [OF assms(1)] by (simp add: capnp_rpc_answer_cap_id_def)
qed

section \<open>Calls\<close>

text \<open>
  The body of a Call whose parameter struct, and what it points to, are the cells \<open>ps\<close>;
  \<open>call_body\<close> is the one with zeros.
\<close>

definition filled_cells :: "u32 \<Rightarrow> u64 \<Rightarrow> u16 \<Rightarrow> nat \<Rightarrow> nat \<Rightarrow> byte list list \<Rightarrow> u32 \<Rightarrow> byte list list" where
  "filled_cells imported iface meth dw pw ps qid =
     [pad (capnp_store_le32 qid @ capnp_store_le16 meth), capnp_store_le64 iface, replicate 8 0,
      struct_cell 2 1 1, struct_cell 3 0 2, replicate 8 0, pad (capnp_store_le32 imported @ capnp_store_le16 0), replicate 8 0,
      struct_cell 1 dw pw, replicate 8 0] @ ps"

definition call_cells :: "u32 \<Rightarrow> u64 \<Rightarrow> u16 \<Rightarrow> nat \<Rightarrow> nat \<Rightarrow> u32 \<Rightarrow> byte list list" where
  "call_cells imported iface meth dw pw qid = filled_cells imported iface meth dw pw (zero_cells (dw + pw)) qid"

lemma call_body_cells: "call_body imported iface meth dw pw qid = concat (head_cells MSG_CALL 3 3 @ call_cells imported iface meth dw pw qid)"
  by (simp add: call_cells_def filled_cells_def call_body_def)

definition params_ok :: "nat \<Rightarrow> byte list list \<Rightarrow> bool" where
  "params_ok n ps \<longleftrightarrow> 0 < n \<and> n \<le> length ps \<and> length ps < 1000 \<and> list_all (\<lambda>c. length c = 8) ps"

lemma params_zero: "0 < n \<Longrightarrow> n < 1000 \<Longrightarrow> params_ok n (zero_cells n)"
  by (simp add: params_ok_def)

text \<open>
  What a \<open>fill\<close> callback does to the message under construction: the call's first 13 words are
  written, the parameter struct of \<open>n\<close> words is still zero, and the callback leaves the cells \<open>ps\<close>
  there, those of the struct first and then whatever it allocated for the struct to point to.
  Without a callback the struct stays zero.
\<close>

definition fills :: "fill_fn option \<Rightarrow> nat \<Rightarrow> byte list list \<Rightarrow> bool" where
  "fills fill n ps \<longleftrightarrow> params_ok n ps \<and> (case fill of None \<Rightarrow> ps = zero_cells n
     | Some f \<Rightarrow> (\<forall>d. length d = 13 * 8 \<longrightarrow>
         f (desk (d @ replicate (n * 8) 0)) \<lparr>bp_seg = 0, bp_word = 13\<rparr> = Some (desk (d @ concat ps))))"

lemma fillsD: "fills fill n ps \<Longrightarrow> params_ok n ps" by (simp add: fills_def)

lemma fills_none: "0 < n \<Longrightarrow> n < 1000 \<Longrightarrow> fills None n (zero_cells n)"
  by (simp add: fills_def params_zero)

abbreviation filled_body :: "u32 \<Rightarrow> u64 \<Rightarrow> u16 \<Rightarrow> nat \<Rightarrow> nat \<Rightarrow> byte list list \<Rightarrow> u32 \<Rightarrow> byte list" where
  "filled_body imported iface meth dw pw ps qid \<equiv> concat (head_cells MSG_CALL 3 3 @ filled_cells imported iface meth dw pw ps qid)"

lemma length_filled:
  assumes "params_ok n ps"
  shows "length (filled_body imported iface meth dw pw ps qid) = 104 + length ps * 8"
    "whole (filled_body imported iface meth dw pw ps qid)" "length (filled_body imported iface meth dw pw ps qid) \<le> 8192"
proof -
  have "length (concat ps) = length ps * 8" "length ps < 1000"
    using assms length_concat_cells by (auto simp: params_ok_def)
  then show "length (filled_body imported iface meth dw pw ps qid) = 104 + length ps * 8"
    "whole (filled_body imported iface meth dw pw ps qid)" "length (filled_body imported iface meth dw pw ps qid) \<le> 8192"
    by (simp_all add: filled_cells_def head_cells_def whole_def)
qed

lemma send_call_filled:
  assumes "arena_ok A" "fills fill (dw + pw) ps"
  shows "capnp_rpc_send_call A c imported iface meth dw pw fill = Some (ask_with A c (filled_body imported iface meth dw pw ps))"
proof (cases fill)
  case None
  then show ?thesis using send_call_ask [OF assms(1)] assms(2)
    by (simp add: fills_def params_ok_def call_body_cells [abs_def] call_cells_def)
next
  case (Some f)
  have n: "0 < dw + pw" "dw + pw < 1000" and "params_ok (dw + pw) ps" using assms(2) by (auto simp: fills_def params_ok_def)
  note len = length_filled [OF this(3)]
  have step: "f (desk (concat (head_cells MSG_CALL 3 3) @ capnp_store_le32 qid @ capnp_store_le16 meth @ replicate 2 0 @
      capnp_store_le64 iface @ replicate 8 0 @ struct_cell 2 (Suc 0) (Suc 0) @ struct_cell 3 0 2 @ replicate 8 0 @
      capnp_store_le32 imported @ capnp_store_le16 0 @ replicate 10 0 @ struct_cell 1 dw pw @ replicate (8 + (dw * 8 + pw * 8)) 0))
      \<lparr>bp_seg = 0, bp_word = 13\<rparr> = Some (desk (filled_body imported iface meth dw pw ps qid))" for qid
  proof -
    let ?d = "concat (head_cells MSG_CALL 3 3 @ filled_cells imported iface meth dw pw [] qid)"
    have "length ?d = 13 * 8" by (simp add: filled_cells_def head_cells_def)
    then have "f (desk (?d @ replicate ((dw + pw) * 8) 0)) \<lparr>bp_seg = 0, bp_word = 13\<rparr> = Some (desk (?d @ concat ps))"
      using assms(2) unfolding fills_def Some option.case by blast
    then show ?thesis by (simp add: filled_cells_def pad_def zeros_merge algebra_simps)
  qed
  have "filled_body imported iface meth dw pw ps qid \<noteq> []" for qid using len(1) by (metis add_is_0 list.size(3) zero_neq_numeral)
  then show ?thesis unfolding capnp_rpc_send_call_def
    by (intro ask_emit [OF assms(1) _ len(2)])
      (use n Some step in \<open>simp_all add: begin_message_desk b_target_def effect_def run_step desk_rules pad_def\<close>)
qed

lemma call_usual:
  assumes "params_ok (dw + pw) ps"
  shows "usual (head_cells MSG_CALL 3 3 @ filled_cells imported iface meth dw pw ps qid) MSG_CALL 3 3
    (filled_cells imported iface meth dw pw ps qid)"
  using assms by (simp add: usual_def filled_cells_def cells_ok_def params_ok_def)

lemma call_nth:
  fixes imported iface meth qid
  assumes "params_ok (dw + pw) ps"
  defines "cs \<equiv> head_cells MSG_CALL 3 3 @ filled_cells imported iface meth dw pw ps qid"
  shows "length cs = 13 + length ps"
    "cs ! 3 = pad (capnp_store_le32 qid @ capnp_store_le16 meth)"
    "cs ! 4 = capnp_store_le64 iface"
    "cs ! 6 = struct_cell 2 1 1" "cs ! 7 = struct_cell 3 0 2"
    "cs ! 9 = pad (capnp_store_le32 imported @ capnp_store_le16 0)"
    "cs ! 11 = struct_cell 1 dw pw" "cs ! 12 = replicate 8 0"
    "cs ! (13 + k) = ps ! k"
  using assms(1) by (simp_all add: cs_def filled_cells_def head_cells_def params_ok_def)

text \<open>The views of a Call: question, method, parameters and target.\<close>

lemma getp_struct_cell:
  assumes "bears m cs" "body_at p w dw pw" "i < pw" "q = w + dw + i" "q < length cs" "cs ! q = struct_cell off dw' pw'"
    and "body = q + 1 + nat off" "0 \<le> off" "dw' < 2 ^ 16" "pw' < 2 ^ 16" "0 < dw' + pw'" "body + dw' + pw' \<le> length cs"
    and "1 + dw' + pw' \<le> traversal_left m"
  shows "capnp_getp m p i ptr0 = Some (CAPNP_OK, spend (1 + dw' + pw') m, set_struct 0 body dw' pw' (clear_view ptr0))"
proof -
  have "capnp_getp m p i ptr0 = resolve_ptr m 0 q 64 ptr0"
    using getp_cell [OF assms(1,2,3), of ptr0] assms(4,5) by simp
  also have "\<dots> = Some (CAPNP_OK, spend (1 + dw' + pw') m, set_struct 0 body dw' pw' (clear_view ptr0))"
    by (rule resolve_struct_cell [OF assms(1,5,6,7-13)]) simp
  finally show ?thesis .
qed

lemma call_views:
  fixes imported :: u32 and iface :: u64 and meth :: u16 and qid :: u32 and dw pw :: nat and ps :: "byte list list"
  defines "cs \<equiv> head_cells MSG_CALL 3 3 @ filled_cells imported iface meth dw pw ps qid"
  assumes m: "bears m cs" "body_at call 3 3 3" "100000 \<le> traversal_left m" and ps: "params_ok (dw + pw) ps"
  defines "params \<equiv> set_struct 0 13 dw pw (clear_view ptr0)" and "target \<equiv> set_struct 0 9 1 1 (clear_view ptr0)"
    and "m5 \<equiv> spend (5 + dw + pw) m"
  shows "capnp_get_u32 m call 0 0 = Some qid" "call_params c m call = Some (c, m5, params)"
    "capnp_getp m5 call 0 ptr0 = Some (CAPNP_OK, spend 3 m5, target)"
    "resolve_target A c (spend 3 m5) target = Some (export_named c imported, spend 3 m5)"
    "capnp_get_u64 (spend 3 m5) call 8 0 = Some iface" "capnp_get_u16 (spend 3 m5) call 4 0 = Some meth"
    "bears (spend 3 m5) cs" "body_at params 13 dw pw"
proof -
  note k = call_nth [OF ps, where imported = imported and iface = iface and meth = meth and qid = qid, folded cs_def]
  have n: "0 < dw + pw" "dw + pw \<le> length ps" "dw + pw < 1000" using ps by (simp_all add: params_ok_def)
  define payload where "payload = set_struct 0 11 0 2 (clear_view ptr0)"
  have pb: "body_at payload 11 0 2" "body_at target 9 1 1" by (simp_all add: payload_def target_def)
  show "body_at params 13 dw pw" by (simp add: params_def)
  show q: "capnp_get_u32 m call 0 0 = Some qid"
    using get_cell(2) [OF m(1,2), of 0 0] k(1,2) by (simp add: pad_def load_store_le32)
  have g1: "capnp_getp m call 1 ptr0 = Some (CAPNP_OK, spend (1 + 0 + 2) m, payload)"
    unfolding payload_def by (rule getp_struct_cell [OF m(1,2), of _ 7 3]) (use k(1,5) m(3) in simp_all)
  have m3: "bears (spend (1 + 0 + 2) m) cs" using m(1) by simp
  have g2: "capnp_getp (spend (1 + 0 + 2) m) payload 0 ptr0 =
      Some (CAPNP_OK, spend (1 + dw + pw) (spend (1 + 0 + 2) m), params)"
    unfolding params_def by (rule getp_struct_cell [OF m3 pb(1), of _ 11 1]) (use k(1,7) m(3) n in simp_all)
  have m4: "bears (spend (1 + dw + pw) (spend (1 + 0 + 2) m)) cs" using m(1) by simp
  have g3: "capnp_getp (spend (1 + dw + pw) (spend (1 + 0 + 2) m)) payload 1 ptr0 =
      Some (CAPNP_OK, m5, set_null 0 12 (clear_view ptr0))"
  proof -
    have "spend 1 (spend (1 + dw + pw) (spend (1 + 0 + 2) m)) = m5" by (simp add: spend_spend m5_def numeral_eq_Suc)
    moreover have "resolve_ptr (spend (1 + dw + pw) (spend (1 + 0 + 2) m)) 0 12 64 ptr0 =
        Some (CAPNP_OK, spend 1 (spend (1 + dw + pw) (spend (1 + 0 + 2) m)), set_null 0 12 (clear_view ptr0))"
      by (rule resolve_null_cell [OF m4]) (use k(1,8) m(3) n in simp_all)
    ultimately show ?thesis using getp_cell [OF m4 pb(1), of 1 ptr0] k(1) by simp
  qed
  have "capnp_list_len (set_null 0 12 (clear_view ptr0)) = 0" by (simp add: capnp_list_len_def set_null_def)
  then have g4: "note_introductions c (spend (1 + dw + pw) (spend (1 + 0 + 2) m)) payload = Some (c, m5)"
    using g3 pb(1) by (simp add: note_introductions_def body_at_def)
  show "call_params c m call = Some (c, m5, params)" using g1 g2 g4 by (simp add: call_params_def)
  have b5: "bears m5 cs" "90000 \<le> traversal_left m5" using m(1,3) n by (simp_all add: m5_def)
  show g5: "capnp_getp m5 call 0 ptr0 = Some (CAPNP_OK, spend 3 m5, target)"
  proof -
    have "capnp_getp m5 call 0 ptr0 = Some (CAPNP_OK, spend (1 + 1 + 1) m5, target)"
      unfolding target_def by (rule getp_struct_cell [OF b5(1) m(2), of _ 6 2]) (use k(1,4) b5(2) in simp_all)
    then show ?thesis by (simp add: numeral_3_eq_3)
  qed
  show b8: "bears (spend 3 m5) cs" using b5 by simp
  show "resolve_target A c (spend 3 m5) target = Some (export_named c imported, spend 3 m5)"
    using get_cell(1) [OF b8 pb(2), of 4 0] get_cell(2) [OF b8 pb(2), of 0 0] k(1,6) pb(2)
    by (simp add: resolve_target_def pad_def load_store_le32 load_store_le16 body_at_def)
  show "capnp_get_u64 (spend 3 m5) call 8 0 = Some iface" "capnp_get_u16 (spend 3 m5) call 4 0 = Some meth"
    using get_cell(3) [OF b8 m(2), of 8 0] get_cell(1) [OF b8 m(2), of 4 0] k(1-3)
    by (simp_all add: pad_def load_store_le64 load_store_le16)
qed

text \<open>The Return under construction when \<open>dispatch\<close> is called: its result struct is at word 8.\<close>

definition results_body :: "u32 \<Rightarrow> byte list" where
  "results_body qid = concat (return_cells qid 0 @ [struct_cell 0 0 2, struct_cell 1 1 1, replicate 8 0] @ zero_cells 2)"

lemma b_results_desk: "run_state (b_results A qid) (on []) = (\<lparr>bp_seg = 0, bp_word = 8\<rparr>, on (results_body qid))"
proof -
  have "run_state (or_alloc bptr0 (do { slot \<leftarrow> b_slot \<lparr>bp_seg = 0, bp_word = 6\<rparr> 0 0; b_struct A slot 1 1 }))
      (on (empty_return_body qid)) = (\<lparr>bp_seg = 0, bp_word = 8\<rparr>, on (results_body qid))"
    by (rule run_or_alloc) (simp add: desk_rules empty_return_body_def results_body_def)
  then show ?thesis by (simp add: b_results_def begin_return_desk)
qed

lemma handle_call_frame:
  assumes A: "roomy A" and ps: "params_ok (dw + pw) ps"
  obtains m params where
    "capnp_rpc_handle A s (frame [concat (head_cells MSG_CALL 3 3 @ filled_cells imported iface meth dw pw ps qid)]) =
      (if export_named s imported < 0 then Some (emit A s (exception_body qid ''no such export''))
       else let x = exports s ! unat imported in
         if unat imported < length (exports s) then do {
           d \<leftarrow> ex_dispatch x;
           (rc, _, b) \<leftarrow> d (ex_server x) iface meth m params (desk (results_body qid)) \<lparr>bp_seg = 0, bp_word = 8\<rparr>;
           if rc = 0 then flush_answer A s b qid else Some (rc, s) }
         else None)"
    "bears m (head_cells MSG_CALL 3 3 @ filled_cells imported iface meth dw pw ps qid)" "body_at params 13 dw pw" "1000 \<le> traversal_left m"
proof -
  define cs where "cs = head_cells MSG_CALL 3 3 @ filled_cells imported iface meth dw pw ps qid"
  note u = call_usual [OF ps, of imported iface meth qid, folded cs_def]
  obtain m call where h: "capnp_rpc_handle A s (frame [concat cs]) =
      rpc_dispatch A s m MSG_CALL (set_struct 0 1 1 1 (clear_view ptr0)) call (frame [concat cs])"
    "bears m cs" "body_at call 3 3 3" "8000000 \<le> traversal_left m"
    by (rule usual_start [OF u A])
  have t: "100000 \<le> traversal_left m" "1000 \<le> traversal_left (spend 3 (spend (5 + dw + pw) m))"
    using h(4) ps unfolding params_ok_def by auto
  note v = call_views [OF h(2) [unfolded cs_def] h(3) t(1) ps, folded cs_def]
  have nat_named: "nat (export_named s imported) = unat imported" if "\<not> export_named s imported < 0"
    using that by (cases rule: export_named_cases [of s imported]) simp_all
  have "run_bld (b_results A qid) (capnp_builder_init A) = Some (CAPNP_OK, desk (results_body qid), \<lparr>bp_seg = 0, bp_word = 8\<rparr>)"
    using roomyD(1) [OF A] by (simp add: init_desk run_bld_on b_results_desk)
  then have "handle_call A s m call = (if export_named s imported < 0 then Some (emit A s (exception_body qid ''no such export''))
       else let x = exports s ! unat imported in
         if unat imported < length (exports s) then do {
           d \<leftarrow> ex_dispatch x;
           (rc, _, b) \<leftarrow> d (ex_server x) iface meth (spend 3 (spend (5 + dw + pw) m))
             (set_struct 0 13 dw pw (clear_view ptr0)) (desk (results_body qid)) \<lparr>bp_seg = 0, bp_word = 8\<rparr>;
           if rc = 0 then flush_answer A s b qid else Some (rc, s) }
         else None)"
    using v(1-6) nat_named
    by (simp add: handle_call_def send_return_exception_emit roomyD [OF A] run_dispatch_def Let_def split: bind_splits)
  with h(1) v(7,8) t(2) that show thesis unfolding cs_def [symmetric] by (simp add: rpc_dispatch_def rpc_consts)
qed

end
