(* ===== verification/RpcClaims.thy ===== *)
theory RpcClaims
  imports RpcEnd
begin

text \<open>
  The properties of the RPC vat: its reachable states, the exchanges between two vats computed
  from the bytes one sends and the other handles, reference counts and capability handoff.
\<close>

section \<open>Concrete vats\<close>

text \<open>A connection whose \<open>send\<close> succeeds, and one that hosts object 7, whose \<open>dispatch\<close> answers
  every call at once.\<close>

definition quiet :: conn where
  "quiet = capnp_rpc_init (\<lambda>_ _. 0)"

definition answer_all :: dispatch_fn where
  "answer_all server iface meth m params b results = Some (0, m, b)"

definition hosting :: conn where
  "hosting = capnp_rpc_set_bootstrap quiet 7 (Some answer_all)"

definition exporting :: conn where
  "exporting = set_export 0 \<lparr>ex_used = True, ex_refcount = 1, ex_server = 7, ex_dispatch = Some answer_all\<rparr> quiet"

lemma find_slot_replicate: "find_slot P (replicate n x) = (if P x \<and> 0 < n then Some 0 else None)"
  by (cases n) (auto simp: find_slot_None)

lemma find_slot_update0: "find_slot P (xs[0 := x]) = (if xs = [] then None else if P x then Some 0
    else map_option Suc (find_slot P (tl xs)))"
  by (cases xs) simp_all

lemmas vats = quiet_def hosting_def exporting_def capnp_rpc_init_def capnp_rpc_set_bootstrap_def set_export_def

lemma quiet_inv: "conn_inv quiet" "conn_inv hosting"
  unfolding hosting_def quiet_def by (rule conn_inv_init conn_inv_boot)+

lemma quiet_send [simp]: "send quiet l f = 0" "send hosting l f = 0" "send exporting l f = 0"
  "sent quiet = []" "sent hosting = []" "sent exporting = []"
  by (simp_all add: vats)

lemma export_quiet: "capnp_rpc_export quiet 7 (Some answer_all) = Some (0, exporting)"
  "capnp_rpc_export hosting 7 (Some answer_all) = Some (0, capnp_rpc_set_bootstrap exporting 7 (Some answer_all))"
  by (simp_all add: vats capnp_rpc_export_def find_slot_replicate export0_def MAX_EXPORTS_def)

lemma exporting_reachable: "reachable A exporting"
  using reachable.more [OF reachable.start vat_step.exported [OF export_quiet(1) [unfolded quiet_def]]] .

lemma exporting_inv: "conn_inv exporting"
  by (rule reachable_inv [OF exporting_reachable])

lemma exporting_slot: "exports exporting ! 0 = \<lparr>ex_used = True, ex_refcount = 1, ex_server = 7, ex_dispatch = Some answer_all\<rparr>"
  "length (exports exporting) = 64"
  by (simp_all add: vats MAX_EXPORTS_def)

lemma roomy_plentiful: "roomy plentiful"
  by (simp add: roomy_def arena_ok_def)

section \<open>Reachable states\<close>

text \<open>
  C10 Every state of a connection reachable by handling any frames and calling the public functions
  in any order keeps the connection invariant; in particular no two live exports name the same
  object (so the peer sees one id per object), every live export has a positive count, stored
  frames fit their buffers, and a Join in progress is incomplete and counts exactly the parts seen.
\<close>

theorem reachable_conn_inv:
  assumes "reachable A c"
  shows "conn_inv c \<and>
    (\<forall>i < MAX_EXPORTS. \<forall>j < MAX_EXPORTS. ex_used (exports c ! i) \<and> ex_used (exports c ! j) \<and>
       ex_server (exports c ! i) = ex_server (exports c ! j) \<longrightarrow> i = j) \<and>
    (\<forall>i < MAX_EXPORTS. ex_used (exports c ! i) \<longrightarrow> 1 \<le> ex_refcount (exports c ! i)) \<and>
    (\<forall>i < MAX_JOINS. jo_used (joins c ! i) \<longrightarrow> jo_nseen (joins c ! i) < jo_part_count (joins c ! i))"
proof -
  note inv = reachable_inv [OF assms]
  note t = conn_inv_tables [OF inv]
  have "jo_nseen (joins c ! i) < jo_part_count (joins c ! i)" if "i < MAX_JOINS" "jo_used (joins c ! i)" for i
  proof -
    have "join_ok (joins c ! i)" by (rule conn_inv_joinD [OF inv]) (use that t(5) in simp)
    then show ?thesis using that(2) unfolding join_ok_def by blast
  qed
  moreover have "1 \<le> ex_refcount (exports c ! i)" if "i < MAX_EXPORTS" "ex_used (exports c ! i)" for i
    using conn_inv_exportD [OF inv, of i] that t(1) by (simp add: export_ok_def)
  moreover have "i = j" if "i < MAX_EXPORTS" "j < MAX_EXPORTS" "ex_used (exports c ! i)" "ex_used (exports c ! j)"
      "ex_server (exports c ! i) = ex_server (exports c ! j)" for i j
    by (rule exps.distinct_keysD [OF t(6)]) (use that t(1) in simp_all)
  ultimately show ?thesis using inv by blast
qed

theorem reachable_conn_inv_witness:
  "reachable plentiful exporting \<and> conn_inv exporting \<and> ex_used (exports exporting ! 0) \<and> 1 \<le> ex_refcount (exports exporting ! 0)"
  using reachable_conn_inv [OF exporting_reachable [of plentiful]] exporting_reachable [of plentiful]
  by (simp add: exporting_slot)

section \<open>Two vats\<close>

lemma question_claim_found:
  assumes "question_claim c = (Some (qid, i), c1)" "question_find c qid = None"
  shows "question_find c1 qid = Some i" "i < length (questions c1)" "sent c1 = sent c" "send c1 = send c"
    "questions c1 ! i = question0\<lparr>qu_used := True, qu_question_id := qid\<rparr>"
proof -
  obtain free: "find_slot (\<lambda>q. \<not> qu_used q) (questions c) = Some i" and q: "qid = next_question_id c"
    and c1: "c1 = c\<lparr>questions := (questions c)[i := question0\<lparr>qu_used := True, qu_question_id := qid\<rparr>],
      next_question_id := qid + 1\<rparr>"
    using assms(1) by (auto simp: question_claim_def Let_def split: option.splits)
  note f = find_slotD [OF free]
  show "i < length (questions c1)" "sent c1 = sent c" "send c1 = send c"
    "questions c1 ! i = question0\<lparr>qu_used := True, qu_question_id := qid\<rparr>"
    using f by (simp_all add: c1)
  have "\<not> (qu_used (questions c ! j) \<and> qu_question_id (questions c ! j) = qid)" if "j < length (questions c)" for j
    using assms(2) that by (auto simp: question_find_def find_slot_None)
  then show "question_find c1 qid = Some i"
    unfolding question_find_def by (intro find_slot_unique) (use f in \<open>auto simp: c1 nth_upd split: if_splits\<close>)
qed

lemma question_find_answered:
  "question_find c q = Some i \<Longrightarrow> question_find (answered c i f flat) q = Some i"
  unfolding question_find_def answered_def find_slot_Some by (auto simp: nth_upd)

lemma export_found:
  assumes "capnp_rpc_export s srv d = Some (eid, s')" "0 \<le> eid" "conn_inv s"
  shows "nat eid < MAX_EXPORTS" "ex_used (exports s' ! nat eid)" "ex_server (exports s' ! nat eid) = srv"
    "sent s' = sent s" "send s' = send s"
proof -
  have "nat eid < MAX_EXPORTS \<and> ex_used (exports s' ! nat eid) \<and> ex_server (exports s' ! nat eid) = srv \<and>
      sent s' = sent s \<and> send s' = send s"
    using assms(1)
  proof (cases rule: capnp_rpc_export_cases)
    case (old i)
    then show ?thesis using conn_inv_tables(1) [OF assms(3)]
      by (auto simp: export_ref_def set_export_def run_splits exps.lookup_def dest!: find_slotD split: if_splits)
  next
    case (new i)
    then show ?thesis using conn_inv_tables(1) [OF assms(3)] by (auto simp: set_export_def dest!: find_slotD)
  qed (use assms(2) in simp)
  then show "nat eid < MAX_EXPORTS" "ex_used (exports s' ! nat eid)" "ex_server (exports s' ! nat eid) = srv"
    "sent s' = sent s" "send s' = send s" by simp_all
qed

lemma keep_answer_fields [simp]: "exports (keep_answer c qid f) = exports c" "sent (keep_answer c qid f) = sent c"
  "send (keep_answer c qid f) = send c"
  by (simp_all add: keep_answer_def split: option.splits)

lemma ask_with_sent:
  assumes "roomy A" "question_claim c = (Some (qid, i), c1)" "question_find c qid = None"
    and "length (body qid) \<le> 8192" "send c (sent c) (frame [body qid]) = 0"
  shows "ask_with A c body = (qid, c1\<lparr>sent := sent c @ [frame [body qid]]\<rparr>)"
  using question_claim_found [OF assms(2,3)] assms by (simp add: ask_with_def emit_roomy c_send_def)

lemma sint_small: "0 \<le> k \<Longrightarrow> k < 2 ^ 31 \<Longrightarrow> sint (word_of_int k :: u32) = k"
  by (simp add: sint_word_ariths signed_of_int signed_take_bit_int_eq_self)

text \<open>
  C19 Bootstrap, end to end. A vat asks with \<open>capnp_rpc_send_bootstrap\<close>, its peer handles exactly the
  bytes that were sent, and the asker handles exactly the bytes of the answer: afterwards the
  question is answered without failure, and the capability the asker reads from it is the id under
  which the peer exports its bootstrap object.
\<close>

theorem bootstrap_end_to_end:
  assumes A: "roomy A" and s: "conn_inv s" "bootstrap s \<noteq> 0"
    and e: "capnp_rpc_export s (bootstrap s) (bootstrap_dispatch s) = Some (eid, s1)" "0 \<le> eid"
    and q: "question_claim c = (Some (qid, i), c1)" "question_find c qid = None"
    and send: "send c (sent c) (frame [bootstrap_body qid]) = 0"
  shows "\<exists>ask ans c2 s2 c3. capnp_rpc_send_bootstrap A c = Some (qid, c2) \<and> sent c2 = sent c @ [ask] \<and>
    capnp_rpc_handle A s ask = Some (send s (sent s) ans, s2) \<and> sent s2 = sent s @ [ans] \<and>
    capnp_rpc_handle A c2 ans = Some (0, c3) \<and> capnp_rpc_is_answered c3 qid \<and> \<not> capnp_rpc_is_failed c3 qid \<and>
    capnp_rpc_answer_cap_id A c3 qid = Some eid \<and>
    nat eid < MAX_EXPORTS \<and> ex_used (exports s2 ! nat eid) \<and> ex_server (exports s2 ! nat eid) = bootstrap s"
proof -
  note x = export_found [OF e s(1)] and qf = question_claim_found [OF q]
  define c2 where "c2 = c1\<lparr>sent := sent c @ [frame [bootstrap_body qid]]\<rparr>"
  define ans where "ans = frame [return_cap_body qid eid]"
  define s2 where "s2 = (keep_answer s1 qid ans)\<lparr>sent := sent s @ [ans]\<rparr>"
  define c3 where "c3 = answered c2 i False ans"
  have ask: "capnp_rpc_send_bootstrap A c = Some (qid, c2)"
    using ask_with_sent [OF A q, of bootstrap_body] send send_bootstrap_ask [OF roomyD(1) [OF A]] by (simp add: c2_def bootstrap_body_def)
  have answer: "capnp_rpc_handle A s (frame [bootstrap_body qid]) = Some (send s (sent s) ans, s2)"
    using s(2) e x(4,5) unfolding handle_bootstrap_frame [OF A]
    by (simp add: emit_answer_roomy [OF A] c_send_def ans_def s2_def)
  have "question_find c2 qid = Some i" using qf(1) by (simp add: c2_def question_find_def)
  then have got: "capnp_rpc_handle A c2 ans = Some (0, c3)" "question_find c3 qid = Some i"
    using handle_return_cap_frame [OF A, of c2 qid eid] question_find_answered by (simp_all add: ans_def c3_def)
  have q3: "qu_answered (questions c3 ! i)" "\<not> qu_failed (questions c3 ! i)" "qu_reply (questions c3 ! i) = ans"
    using qf(2) by (simp_all add: c3_def answered_def c2_def)
  have "eid < 2 ^ 31" using x(1) by (simp add: MAX_EXPORTS_def)
  then have "capnp_rpc_answer_cap_id A c3 qid = Some eid"
    using answer_cap_id_frame [OF A got(2) q3(1,2)] q3(3) sint_small [OF e(2)] by (simp add: ans_def)
  then show ?thesis
    using ask answer got q3 x(1-3)
    by (intro exI [of _ "frame [bootstrap_body qid]"] exI [of _ ans] exI [of _ c2] exI [of _ s2] exI [of _ c3])
      (simp add: c2_def s2_def capnp_rpc_is_answered_def capnp_rpc_is_failed_def)
qed

theorem bootstrap_end_to_end_witness:
  "\<exists>ask ans c2 s2 c3. capnp_rpc_send_bootstrap plentiful quiet = Some (0, c2) \<and> sent c2 = [ask] \<and>
    capnp_rpc_handle plentiful hosting ask = Some (0, s2) \<and> sent s2 = [ans] \<and>
    capnp_rpc_handle plentiful c2 ans = Some (0, c3) \<and> capnp_rpc_answer_cap_id plentiful c3 0 = Some 0 \<and>
    ex_server (exports s2 ! 0) = 7"
proof -
  have claim: "\<exists>c1. question_claim quiet = (Some (0, 0), c1)" "question_find quiet 0 = None"
    by (simp_all add: question_claim_def question_find_def vats find_slot_replicate question0_def MAX_QUESTIONS_def)
  have boot: "bootstrap hosting = 7" "bootstrap_dispatch hosting = Some answer_all" by (simp_all add: vats)
  obtain c1 where "question_claim quiet = (Some (0, 0), c1)" using claim(1) ..
  from bootstrap_end_to_end [OF roomy_plentiful quiet_inv(2) _ _ _ this claim(2)]
  show ?thesis using export_quiet(2) boot by fastforce
qed

text \<open>
  C16 A call reaches the object it names. Whatever the caller's \<open>fill\<close> callback writes into the
  parameter struct and allocates behind it (the cells \<open>ps\<close>, or zeros without a callback), the bytes
  \<open>capnp_rpc_send_call\<close> sends make the peer call the \<open>dispatch\<close> function of exactly the export the
  caller named, once, with the caller's interface and method, a view of the parameter struct that
  reads the caller's cells in a message that holds exactly what the caller sent, and a fresh result
  struct. The Return goes out (and is kept) when \<open>dispatch\<close> returns 0. When it does not, its code is
  the handler's result and nothing is sent, so the caller is never answered; \<open>capnp_rpc.h\<close> says of
  \<open>dispatch\<close> "return 0 to answer with it, non-zero for an exception", and no exception goes out. A
  call on an id that is not exported is answered with an exception and reaches no object. The
  callbacks are functions of the message and the builder: they leave the connection alone.
\<close>

theorem call_reaches_object:
  assumes A: "roomy A" and s: "conn_inv s" and fill: "fills fill (dw + pw) ps"
    and q: "question_claim c = (Some (qid, i), c1)" "question_find c qid = None"
    and send: "send c (sent c) (frame [filled_body imported iface meth dw pw ps qid]) = 0"
  shows "\<exists>ask c2 m params. capnp_rpc_send_call A c imported iface meth dw pw fill = Some (qid, c2) \<and>
    sent c2 = sent c @ [ask] \<and> body_at params 13 dw pw \<and> holds m [filled_body imported iface meth dw pw ps qid] \<and>
    (\<forall>k < dw. capnp_get_u64 m params (k * 8) x = Some (capnp_load_le64 (ps ! k))) \<and>
    capnp_rpc_handle A s ask =
      (if unat imported < MAX_EXPORTS \<and> ex_used (exports s ! unat imported) then do {
         d \<leftarrow> ex_dispatch (exports s ! unat imported);
         (rc, _, b) \<leftarrow> d (ex_server (exports s ! unat imported)) iface meth m params
           (desk (results_body qid)) \<lparr>bp_seg = 0, bp_word = 8\<rparr>;
         if rc = 0 then flush_answer A s b qid else Some (rc, s) }
       else Some (c_send s (frame [exception_body qid ''no such export''])))"
proof -
  note ps = fillsD [OF fill]
  have ask: "capnp_rpc_send_call A c imported iface meth dw pw fill =
      Some (qid, c1\<lparr>sent := sent c @ [frame [filled_body imported iface meth dw pw ps qid]]\<rparr>)"
    using ask_with_sent [OF A q length_filled(3) [OF ps]] send send_call_filled [OF roomyD(1) [OF A] fill] by simp
  obtain m params where h: "capnp_rpc_handle A s (frame [filled_body imported iface meth dw pw ps qid]) =
      (if export_named s imported < 0 then Some (emit A s (exception_body qid ''no such export''))
       else let x = exports s ! unat imported in
         if unat imported < length (exports s) then do {
           d \<leftarrow> ex_dispatch x;
           (rc, _, b) \<leftarrow> d (ex_server x) iface meth m params (desk (results_body qid)) \<lparr>bp_seg = 0, bp_word = 8\<rparr>;
           if rc = 0 then flush_answer A s b qid else Some (rc, s) }
         else None)"
    "bears m (head_cells MSG_CALL 3 3 @ filled_cells imported iface meth dw pw ps qid)" "body_at params 13 dw pw"
    by (rule handle_call_frame [OF A ps])
  have cell: "capnp_get_u64 m params (k * 8) x = Some (capnp_load_le64 (ps ! k))" if k: "k < dw" for k
  proof -
    have "length (ps ! k) = 8" using k ps by (simp add: params_ok_def list_all_length)
    then show ?thesis using get_cell(3) [OF h(2,3), of "k * 8" x] k call_nth [OF ps] ps by (simp add: params_ok_def)
  qed
  have "length (exception_body qid ''no such export'') \<le> 8192" by (simp add: exception_body_def text_words_def c_str_def)
  then have "capnp_rpc_handle A s (frame [filled_body imported iface meth dw pw ps qid]) =
      (if unat imported < MAX_EXPORTS \<and> ex_used (exports s ! unat imported) then do {
         d \<leftarrow> ex_dispatch (exports s ! unat imported);
         (rc, _, b) \<leftarrow> d (ex_server (exports s ! unat imported)) iface meth m params
           (desk (results_body qid)) \<lparr>bp_seg = 0, bp_word = 8\<rparr>;
         if rc = 0 then flush_answer A s b qid else Some (rc, s) }
       else Some (c_send s (frame [exception_body qid ''no such export''])))"
    unfolding h(1) export_named_def emit_roomy [OF A] using conn_inv_tables(1) [OF s] by (simp add: Let_def emit_roomy [OF A])
  then show ?thesis using ask h(3) cell h(2) [unfolded bears_def]
    by (intro exI [of _ "frame [filled_body imported iface meth dw pw ps qid]"] exI [of _ m] exI [of _ params]) auto
qed

lemma quiet_claim: "\<exists>c1. question_claim quiet = (Some (0, 0), c1)" "question_find quiet 0 = None"
  by (simp_all add: question_claim_def question_find_def vats find_slot_replicate question0_def MAX_QUESTIONS_def)

text \<open>A callback that writes 42 into the first word of the parameters.\<close>

definition fill_42 :: fill_fn where
  "fill_42 b params = map_option snd (capnp_builder_set_u64 b params 0 42)"

lemma fills_42: "fills (Some fill_42) (1 + 1) [capnp_store_le64 42, replicate 8 0]"
proof -
  have "fill_42 (desk (d @ replicate 16 0)) \<lparr>bp_seg = 0, bp_word = 13\<rparr> = Some (desk (d @ capnp_store_le64 42 @ replicate 8 0))"
    if d: "length d = 13 * 8" for d
  proof -
    have w: "whole (d @ replicate 16 0)" "length (d @ replicate 16 0) = 120" using d by (simp_all add: whole_def)
    have "upd (d @ replicate 16 0) 104 (capnp_store_le64 42) = d @ capnp_store_le64 42 @ replicate 8 0"
      using d by (simp add: upd_def)
    then show ?thesis using set_bytes_desk [OF w(1), of 13 0 "capnp_store_le64 42"] w(2) d
      by (simp add: fill_42_def capnp_builder_set_u64_def)
  qed
  then show ?thesis by (simp add: fills_def params_ok_def)
qed

theorem call_reaches_object_witness:
  "\<exists>ask c2 s2 m params. capnp_rpc_send_call plentiful quiet 0 5 3 1 1 (Some fill_42) = Some (0, c2) \<and> sent c2 = [ask] \<and>
     capnp_get_u64 m params 0 0 = Some 42 \<and>
     capnp_rpc_handle plentiful exporting ask = Some (0, s2) \<and> sent s2 = [frame [results_body 0]]"
proof -
  obtain c1 where "question_claim quiet = (Some (0, 0), c1)" using quiet_claim(1) ..
  then obtain ask c2 m params where a: "capnp_rpc_send_call plentiful quiet 0 5 3 1 1 (Some fill_42) = Some (0, c2)" "sent c2 = [ask]"
    "capnp_get_u64 m params 0 0 = Some (capnp_load_le64 (capnp_store_le64 42))"
    "capnp_rpc_handle plentiful exporting ask = do {
         (rc, _, b) \<leftarrow> answer_all 7 5 3 m params (desk (results_body 0)) \<lparr>bp_seg = 0, bp_word = 8\<rparr>;
         if rc = 0 then flush_answer plentiful exporting b 0 else Some (rc, exporting) }"
    using call_reaches_object [OF roomy_plentiful exporting_inv fills_42 _ quiet_claim(2), of 0 c1 0 5 3 0]
    by (auto simp: exporting_slot MAX_EXPORTS_def)
  have "whole (results_body 0)" "results_body 0 \<noteq> []" "length (results_body 0) \<le> 8192"
    by (simp_all add: results_body_def whole_def zero_cells_def numeral_2_eq_2)
  then have "flush_answer plentiful exporting (desk (results_body 0)) 0 =
      Some (0, (keep_answer exporting 0 (frame [results_body 0]))\<lparr>sent := [frame [results_body 0]]\<rparr>)"
    by (simp add: flush_answer_desk c_send_def)
  with a show ?thesis by (simp add: answer_all_def load_store_le64) blast
qed

section \<open>Reference counts\<close>

text \<open>
  C20 Release, end to end. The bytes of \<open>capnp_rpc_send_release\<close> make the peer lower the reference
  count of exactly the named export by exactly the count, and free the slot when nothing is left;
  an id that is not exported changes nothing. (For counts below \<open>2 ^ 31\<close>.)
\<close>

theorem release_end_to_end:
  assumes A: "roomy A" and s: "conn_inv s" and n: "0 < sint n"
  shows "\<exists>f. capnp_rpc_send_release A c eid n = Some (send c (sent c) f, c\<lparr>sent := sent c @ [f]\<rparr>) \<and>
    capnp_rpc_handle A s f = Some (0,
      if unat eid < MAX_EXPORTS \<and> ex_used (exports s ! unat eid) then
        (let x = exports s ! unat eid in
         set_export (unat eid) (if ex_refcount x \<le> sint n then export0 else x\<lparr>ex_refcount := ex_refcount x - sint n\<rparr>) s)
      else s)"
proof -
  have len: "length (release_body eid n) \<le> 8192" by (simp add: release_body_def)
  have r: "released s eid n = Some (if unat eid < MAX_EXPORTS \<and> ex_used (exports s ! unat eid) then
        (let x = exports s ! unat eid in
         set_export (unat eid) (if ex_refcount x \<le> sint n then export0 else x\<lparr>ex_refcount := ex_refcount x - sint n\<rparr>) s)
      else s)"
  proof (cases rule: export_named_cases [of s eid])
    case none
    moreover have "uint eid \<noteq> - 1" using uint_nonnegative [of eid] by linarith
    ultimately show ?thesis by (auto simp: released_def export_named_def split: if_splits)
  next
    case some
    have "1 \<le> ex_refcount (exports s ! unat eid)" "ex_refcount (exports s ! unat eid) < 2 ^ 31"
      using conn_inv_exportD [OF s, of "unat eid"] some conn_inv_tables(1) [OF s] by (auto simp: export_ok_def)
    moreover have "sint n < 2 ^ 31" using sint_lt [of n] by simp
    ultimately have "c_int (ex_refcount (exports s ! unat eid) - sint n) = Some (ex_refcount (exports s ! unat eid) - sint n)"
      using n by (simp add: c_int_def)
    then show ?thesis using some by (simp add: released_def Let_def)
  qed
  show ?thesis
    using send_release_emit [OF roomyD(1) [OF A]] emit_roomy [OF A len] handle_release_frame [OF A] r
    by (intro exI [of _ "frame [release_body eid n]"]) (simp add: c_send_def)
qed

theorem release_end_to_end_witness:
  "\<exists>f. capnp_rpc_send_release plentiful quiet 0 1 = Some (0, quiet\<lparr>sent := [f]\<rparr>) \<and>
    capnp_rpc_handle plentiful exporting f = Some (0, set_export 0 export0 exporting)"
  using release_end_to_end [OF roomy_plentiful exporting_inv, of 1 quiet 0] by (simp add: exporting_slot MAX_EXPORTS_def Let_def)

text \<open>
  C39 A Release with a count of \<open>2 ^ 31\<close> overflows. The code subtracts \<open>(int)count\<close> from a signed
  counter; on any live export the count \<open>0x80000000\<close>, which the peer chooses, takes the
  subtraction out of the range of \<open>int\<close>: the handler runs into undefined behaviour.
\<close>

theorem release_overflows:
  assumes "roomy A" "conn_inv s" "unat eid < MAX_EXPORTS" "ex_used (exports s ! unat eid)"
  shows "capnp_rpc_handle A s (frame [release_body eid 0x80000000]) = None"
proof -
  have "1 \<le> ex_refcount (exports s ! unat eid)"
    using conn_inv_exportD [OF assms(2), of "unat eid"] assms(3,4) conn_inv_tables(1) [OF assms(2)] by (auto simp: export_ok_def)
  moreover have "sint (0x80000000 :: u32) = - (2 ^ 31)" by simp
  ultimately have "c_int (ex_refcount (exports s ! unat eid) - sint (0x80000000 :: u32)) = None"
    by (simp add: c_int_def)
  moreover have "\<not> export_named s eid < 0" using assms(3,4) by (simp add: export_named_def)
  ultimately show ?thesis unfolding handle_release_frame [OF assms(1)] by (simp add: released_def Let_def)
qed

theorem release_overflows_witness:
  "capnp_rpc_handle plentiful exporting (frame [release_body 0 0x80000000]) = None"
  by (rule release_overflows [OF roomy_plentiful exporting_inv]) (simp_all add: exporting_slot MAX_EXPORTS_def)

end
