(* ===== verification/RpcHandoff.thy ===== *)
theory RpcHandoff
  imports RpcEnd
begin

text \<open>
  The frames of the three-party handoff: Provide, Accept and Disembargo computed from the builder
  calls, and what the handlers of \<open>src/capnp_rpc.c\<close> do with exactly those bytes.
\<close>

section \<open>Accept\<close>

lemma embargo_desk:
  assumes "whole d" "w * 8 + 5 \<le> length d" "d ! (w * 8 + 4) = 0"
  shows "run_state (if e then b_bool \<lparr>bp_seg = 0, bp_word = w\<rparr> 32 True else State_Monad.return ()) (on d) =
    ((), on (upd d (w * 8 + 4) [if e then 1 else 0]))"
proof (cases e)
  case True
  then show ?thesis using b_bool_desk [OF assms(1), of w 32 True] assms(2,3) by (simp add: bit_mask_def)
next
  case False
  have "upd d (w * 8 + 4) [0] = d"
    using assms(2) id_take_nth_drop [of "w * 8 + 4" d] assms(3) by (simp add: upd_def)
  then show ?thesis using False by simp
qed

lemma upd_Cons: "0 < a \<Longrightarrow> upd (x # xs) a bs = x # upd xs (a - 1) bs"
  by (cases a) (simp_all add: upd_def)

lemma accept_desk:
  "run_state (do {
     accept \<leftarrow> begin_message A MSG_ACCEPT 1 1;
     b_u32 accept 0 qid;
     (if embargo then b_bool accept 32 True else State_Monad.return ());
     slot \<leftarrow> b_slot accept 1 0;
     provision \<leftarrow> b_struct A slot 1 0;
     b_u64 provision 0 nonce }) (on []) = ((), on (accept_body nonce embargo qid))"
  by (simp add: begin_message_desk desk_rules embargo_desk upd_Cons nth_append accept_body_def pad_def)

lemma send_accept_ask:
  "arena_ok A \<Longrightarrow> capnp_rpc_send_accept A c nonce embargo = Some (ask_with A c (accept_body nonce embargo))"
  unfolding capnp_rpc_send_accept_def
  by (rule ask_emit [OF _ accept_desk]) (simp_all add: accept_body_def whole_def)

text \<open>The embargo bit of an Accept, as the provider reads it.\<close>

lemma get_flag:
  assumes "bears m cs" "body_at p w 1 pw" "w < length cs" "cs ! w = pad (capnp_store_le32 x @ [b])"
  shows "capnp_get_bool m p 32 0 = Some (of_bool (b AND 1 \<noteq> 0))"
proof -
  have "data_bytes p + 4 = w * 8 + 4" "data_bit_count p = 64"
    using assms(2) bears_word(3) [OF assms(1,3)] by (simp_all add: data_bytes_def body_at_def WORD_BYTES_def data_bit_count_def)
  moreover have "take 1 (drop 4 (cs ! w)) = [b]" by (simp add: assms(4) pad_def)
  ultimately show ?thesis
    using bears_read [OF assms(1,3), of 4 1] assms(2) by (simp add: capnp_get_bool_def body_at_def bit_mask_def)
qed

lemma pad_id: "length bs = 4 \<Longrightarrow> length (pad (bs @ [b])) = 8" "length bs = 4 \<Longrightarrow> take 4 (pad (bs @ cs)) = bs"
  by (simp_all add: pad_def)

lemma handle_accept_frame:
  assumes "roomy A"
  shows "capnp_rpc_handle A s (frame [accept_body nonce embargo qid]) = claim_provision A s qid nonce embargo"
proof -
  define rest where "rest = [pad (capnp_store_le32 qid @ [if embargo then 1 else 0]), struct_cell 0 1 0, capnp_store_le64 nonce]"
  define cs where "cs = head_cells MSG_ACCEPT 1 1 @ rest"
  have u: "usual cs MSG_ACCEPT 1 1 rest" by (simp add: usual_def cs_def cells_ok_def rest_def)
  have b: "accept_body nonce embargo qid = concat cs" by (simp add: accept_body_def cs_def rest_def)
  have k: "length cs = 6" "cs ! 3 = pad (capnp_store_le32 qid @ [if embargo then 1 else 0])" "cs ! 4 = struct_cell 0 1 0"
    "cs ! 5 = capnp_store_le64 nonce" by (simp_all add: cs_def rest_def head_cells_def)
  obtain m body where h: "capnp_rpc_handle A s (frame [concat cs]) =
      rpc_dispatch A s m MSG_ACCEPT (set_struct 0 1 1 1 (clear_view ptr0)) body (frame [concat cs])"
    "bears m cs" "body_at body 3 1 1" "8000000 \<le> traversal_left m" by (rule usual_start [OF u assms])
  define pv where "pv = set_struct 0 5 1 0 (clear_view ptr0)"
  define m2 where "m2 = spend (1 + 1 + 0) m"
  have g: "capnp_getp m body 0 ptr0 = Some (CAPNP_OK, m2, pv)"
    unfolding pv_def m2_def by (rule getp_struct_cell [OF h(2,3), of _ 4 0]) (use k h(4) in simp_all)
  have m2: "bears m2 cs" "body_at pv 5 1 0" using h(2) by (simp_all add: m2_def pv_def)
  have v: "capnp_get_u32 m body 0 0 = Some qid" "capnp_get_u64 m2 pv 0 0 = Some nonce"
    using get_cell(2) [OF h(2,3), of 0 0] get_cell(3) [OF m2, of 0 0] k
    by (simp_all add: pad_id load_store_le32 load_store_le64)
  have e: "capnp_get_bool m2 body 32 0 = Some (of_bool embargo)"
    using get_flag [OF m2(1) h(3) _ k(2)] k(1) by simp
  have kind: "p_kind body = PK_STRUCT" "p_kind pv = PK_STRUCT" using h(3) m2(2) by (simp_all add: body_at_def)
  have "handle_accept A s m body = claim_provision A s qid nonce embargo"
    using v g e kind by (simp add: handle_accept_def struct_field_def)
  then show ?thesis using h(1) by (simp add: b rpc_dispatch_def rpc_consts)
qed

section \<open>Provide\<close>

text \<open>A byte run of whole words as cells.\<close>

fun cells_of :: "byte list \<Rightarrow> byte list list" where
  "cells_of d = (if length d < 8 then [] else take 8 d # cells_of (drop 8 d))"

declare cells_of.simps [simp del]

lemma cells_of_run: "8 dvd length d \<Longrightarrow> concat (cells_of d) = d \<and> list_all (\<lambda>c. length c = 8) (cells_of d) \<and>
  length (cells_of d) = length d div 8"
proof (induction d rule: cells_of.induct)
  case (1 d)
  show ?case
  proof (cases "length d < 8")
    case True
    then have "d = []" using "1.prems" by (auto dest: dvd_imp_le)
    then show ?thesis by (subst (1 2 3) cells_of.simps) simp
  next
    case False
    moreover have "8 dvd length (drop 8 d)" using "1.prems" False by simp
    moreover have "Suc ((length d - 8) div 8) = length d div 8" using False by presburger
    ultimately show ?thesis using 1 by (subst (1 2 3) cells_of.simps) simp
  qed
qed

definition provide_cells :: "u32 \<Rightarrow> byte list \<Rightarrow> u16 \<Rightarrow> u64 \<Rightarrow> u32 \<Rightarrow> byte list list" where
  "provide_cells imported host port nonce qid =
     [pad (capnp_store_le32 qid), struct_cell 1 1 1, struct_cell 2 1 1,
      pad (capnp_store_le32 imported @ capnp_store_le16 0), replicate 8 0,
      capnp_store_le64 nonce, struct_cell 0 1 1,
      pad (capnp_store_le16 port), capnp_store_le64 (capnp_wp_make_list 0 SZ_BYTE (length host + 1))] @
     cells_of (pad_words (text_words host) host)"

lemma provide_usual:
  fixes imported :: u32 and port :: u16 and nonce :: u64 and qid :: u32
  assumes "length host < 1000"
  defines "cs \<equiv> head_cells MSG_PROVIDE 1 2 @ provide_cells imported host port nonce qid"
  shows "usual cs MSG_PROVIDE 1 2 (provide_cells imported host port nonce qid)"
    "provide_body imported host port nonce qid = concat cs" "12 \<le> length cs"
    "cs ! 3 = pad (capnp_store_le32 qid)" "cs ! 4 = struct_cell 1 1 1" "cs ! 5 = struct_cell 2 1 1"
    "cs ! 6 = pad (capnp_store_le32 imported @ capnp_store_le16 0)" "cs ! 8 = capnp_store_le64 nonce"
proof -
  have tw: "text_words host < 200" "length host \<le> text_words host * 8" using assms(1) by (simp_all add: text_words_def)
  then have len: "length (pad_words (text_words host) host) = text_words host * 8" by (simp add: pad_words_def)
  have r: "concat (cells_of (pad_words (text_words host) host)) = pad_words (text_words host) host"
    "list_all (\<lambda>c. length c = 8) (cells_of (pad_words (text_words host) host))"
    "length (cells_of (pad_words (text_words host) host)) = text_words host"
    using cells_of_run [of "pad_words (text_words host) host"] len by simp_all
  show "usual cs MSG_PROVIDE 1 2 (provide_cells imported host port nonce qid)"
    using r tw by (simp add: usual_def cs_def provide_cells_def cells_ok_def)
  show "provide_body imported host port nonce qid = concat cs"
    using r by (simp add: provide_body_def cs_def provide_cells_def)
  show "12 \<le> length cs" "cs ! 3 = pad (capnp_store_le32 qid)" "cs ! 4 = struct_cell 1 1 1" "cs ! 5 = struct_cell 2 1 1"
    "cs ! 6 = pad (capnp_store_le32 imported @ capnp_store_le16 0)" "cs ! 8 = capnp_store_le64 nonce"
    by (simp_all add: cs_def provide_cells_def head_cells_def)
qed

text \<open>Taking a Provide for export \<open>eid\<close>: the slot is filled, the export gains a reference and the
  empty Return goes out.\<close>

definition keep_provision :: "allocator \<Rightarrow> conn \<Rightarrow> nat \<Rightarrow> nat \<Rightarrow> u64 \<Rightarrow> u32 \<Rightarrow> (int \<times> conn) option" where
  "keep_provision A s i eid nonce qid = do {
     let x = exports s ! eid;
     let s = set_provision i ((provisions s ! i)
       \<lparr>pr_used := True, pr_nonce := nonce, pr_server := ex_server x, pr_dispatch := ex_dispatch x,
        pr_export_id := int eid, pr_question_id := qid, pr_embargoed := False\<rparr>) s;
     s \<leftarrow> export_ref s eid;
     Some (emit_answer A s qid (empty_return_body qid)) }"

lemma handle_provide_frame:
  assumes A: "roomy A" and host: "length host < 1000"
  shows "capnp_rpc_handle A s (frame [provide_body imported host port nonce qid]) =
    (if export_named s imported < 0 then Some (emit A s (exception_body qid ''provide: no such capability''))
     else case find_slot (\<lambda>p. \<not> pr_used p) (provisions s) of
         None \<Rightarrow> Some (emit A s (exception_body qid ''provide: table full''))
       | Some i \<Rightarrow> keep_provision A s i (unat imported) nonce qid)"
proof -
  define cs where "cs = head_cells MSG_PROVIDE 1 2 @ provide_cells imported host port nonce qid"
  note u = provide_usual [OF host, of imported port nonce qid, folded cs_def]
  obtain m body where h: "capnp_rpc_handle A s (frame [concat cs]) =
      rpc_dispatch A s m MSG_PROVIDE (set_struct 0 1 1 1 (clear_view ptr0)) body (frame [concat cs])"
    "bears m cs" "body_at body 3 1 2" "8000000 \<le> traversal_left m" by (rule usual_start [OF u(1) A])
  define target where "target = set_struct 0 6 1 1 (clear_view ptr0)"
  define recipient where "recipient = set_struct 0 8 1 1 (clear_view ptr0)"
  define m3 where "m3 = spend (1 + 1 + 1) m"
  define m6 where "m6 = spend (1 + 1 + 1) m3"
  have b: "bears m3 cs" "bears m6 cs" "body_at target 6 1 1" "body_at recipient 8 1 1"
    using h(2) by (simp_all add: m3_def m6_def target_def recipient_def)
  have g1: "capnp_getp m body 0 ptr0 = Some (CAPNP_OK, m3, target)"
    unfolding target_def m3_def by (rule getp_struct_cell [OF h(2,3), of _ 4 1]) (use u(3,5) h(4) in simp_all)
  have g2: "capnp_getp m3 body 1 ptr0 = Some (CAPNP_OK, m6, recipient)"
    unfolding recipient_def m6_def by (rule getp_struct_cell [OF b(1) h(3), of _ 5 2]) (use u(3,6) h(4) in \<open>simp_all add: m3_def\<close>)
  have v: "capnp_get_u32 m body 0 0 = Some qid" "capnp_get_u64 m6 recipient 0 0 = Some nonce"
    using get_cell(2) [OF h(2,3), of 0 0] get_cell(3) [OF b(2,4), of 0 0] u(3,4,8)
    by (simp_all add: pad_def load_store_le32 load_store_le64)
  have t: "resolve_target A s m3 target = Some (export_named s imported, m3)"
    using get_cell(1) [OF b(1,3), of 4 0] get_cell(2) [OF b(1,3), of 0 0] u(3,7) b(3)
    by (simp add: resolve_target_def pad_def load_store_le32 load_store_le16 body_at_def)
  have kind: "p_kind body = PK_STRUCT" "p_kind recipient = PK_STRUCT" using h(3) b(4) by (simp_all add: body_at_def)
  have "handle_provide A s m body =
      (if export_named s imported < 0 then Some (emit A s (exception_body qid ''provide: no such capability''))
       else case find_slot (\<lambda>p. \<not> pr_used p) (provisions s) of
           None \<Rightarrow> Some (emit A s (exception_body qid ''provide: table full''))
         | Some i \<Rightarrow> keep_provision A s i (unat imported) nonce qid)"
    using v g1 g2 t kind
    by (cases rule: export_named_cases [of s imported])
      (simp_all add: handle_provide_def struct_field_def send_return_exception_emit send_empty_return_emit keep_provision_def
        roomyD [OF A] Let_def split: option.splits)
  then show ?thesis using h(1) by (simp add: u(2) rpc_dispatch_def rpc_consts)
qed

section \<open>Disembargo\<close>

lemma handle_disembargo_frame:
  assumes "roomy A"
  shows "capnp_rpc_handle A s (frame [disembargo_body 3 qid]) = release_provide_embargo A s qid"
proof -
  define rest where "rest = [pad (capnp_store_le32 qid @ capnp_store_le16 3)] @ zero_cells 1"
  define cs where "cs = head_cells MSG_DISEMBARGO 1 1 @ rest"
  have u: "usual cs MSG_DISEMBARGO 1 1 rest" by (simp add: usual_def cs_def cells_ok_def rest_def)
  have b: "disembargo_body 3 qid = concat cs" by (simp add: disembargo_body_def cs_def rest_def)
  have k: "length cs = 5" "cs ! 3 = pad (capnp_store_le32 qid @ capnp_store_le16 3)"
    by (simp_all add: cs_def rest_def head_cells_def)
  obtain m body where h: "capnp_rpc_handle A s (frame [concat cs]) =
      rpc_dispatch A s m MSG_DISEMBARGO (set_struct 0 1 1 1 (clear_view ptr0)) body (frame [concat cs])"
    "bears m cs" "body_at body 3 1 1" "8000000 \<le> traversal_left m" by (rule usual_start [OF u assms])
  have "capnp_get_u16 m body 4 0 = Some 3" "capnp_get_u32 m body 0 0 = Some qid"
    using get_cell(1) [OF h(2,3), of 4 0] get_cell(2) [OF h(2,3), of 0 0] k
    by (simp_all add: pad_def load_store_le32 load_store_le16)
  moreover have "p_kind body = PK_STRUCT" using h(3) by (simp add: body_at_def)
  ultimately show ?thesis using h(1) by (simp add: b rpc_dispatch_def rpc_consts handle_disembargo_def)
qed

end
