(* ===== verification/RpcThree.thy ===== *)
theory RpcThree
  imports RpcClaims RpcHandoff
begin

text \<open>
  The three-party handoff, end to end: a capability provided over one connection of a vat is
  claimed over another, once, and an embargoed claim is answered only when the embargo is lifted.
  The vat of a connection is passed on explicitly (\<open>capnp_rpc_set_vat\<close>).
\<close>

section \<open>Provisions\<close>

lemma provisions_set [simp]: "provisions (set_provisions v c) = v" "provisions (set_provision i p c) = (provisions c)[i := p]"
  "provisions (capnp_rpc_set_vat c (Some v)) = v"
  by (simp_all add: provisions_def set_provisions_def set_provision_def capnp_rpc_set_vat_def split: option.splits)

lemma provisions_keep [simp]: "provisions (keep_answer c q f) = provisions c" "provisions (c\<lparr>sent := l\<rparr>) = provisions c"
  "provisions (set_export j x c) = provisions c"
  by (simp_all add: provisions_def keep_answer_def set_export_def split: option.splits)

lemma provision_fields [simp]: "sent (set_provision i p c) = sent c" "send (set_provision i p c) = send c"
  "exports (set_provision i p c) = exports c"
  by (simp_all add: set_provision_def set_provisions_def split: option.splits)

lemma vat_fields [simp]: "sent (capnp_rpc_set_vat c v) = sent c" "send (capnp_rpc_set_vat c v) = send c"
  "exports (capnp_rpc_set_vat c v) = exports c"
  by (simp_all add: capnp_rpc_set_vat_def)

lemma export_provisions:
  assumes "capnp_rpc_export s srv d = Some (eid, s')"
  shows "provisions s' = provisions s"
  using assms
proof (cases rule: capnp_rpc_export_cases)
  case (old i)
  then show ?thesis by (auto simp: export_ref_def run_splits split: if_splits)
qed simp_all

lemma export_on_vat:
  "capnp_rpc_export (capnp_rpc_set_vat c v) srv d = map_option (\<lambda>(eid, c). (eid, capnp_rpc_set_vat c v)) (capnp_rpc_export c srv d)"
  by (auto simp: capnp_rpc_export_def capnp_rpc_set_vat_def export_ref_def set_export_def split: option.splits bind_splits)

section \<open>The recipient\<close>

text \<open>The asker of a question that is answered with a capability.\<close>

lemma asker_learns:
  assumes A: "roomy A" and q: "question_claim c = (Some (qid, i), c1)" "question_find c qid = None"
    and e: "0 \<le> eid" "nat eid < MAX_EXPORTS"
  obtains c3 where "capnp_rpc_handle A (c1\<lparr>sent := l\<rparr>) (frame [return_cap_body qid eid]) = Some (0, c3)"
    "capnp_rpc_answer_cap_id A c3 qid = Some eid"
proof -
  note qf = question_claim_found [OF q]
  define c2 where "c2 = c1\<lparr>sent := l\<rparr>"
  define c3 where "c3 = answered c2 i False (frame [return_cap_body qid eid])"
  have "question_find c2 qid = Some i" using qf(1) by (simp add: c2_def question_find_def)
  then have got: "capnp_rpc_handle A c2 (frame [return_cap_body qid eid]) = Some (0, c3)" "question_find c3 qid = Some i"
    using handle_return_cap_frame [OF A, of c2 qid eid] question_find_answered by (simp_all add: c3_def)
  have q3: "qu_answered (questions c3 ! i)" "\<not> qu_failed (questions c3 ! i)"
    "qu_reply (questions c3 ! i) = frame [return_cap_body qid eid]"
    using qf(2) by (simp_all add: c3_def answered_def c2_def)
  have "capnp_rpc_answer_cap_id A c3 qid = Some eid"
    using answer_cap_id_frame [OF A got(2) q3] sint_small [OF e(1)] e(2) by (simp add: MAX_EXPORTS_def)
  with got(1) that show thesis by (simp add: c2_def)
qed

text \<open>A claim that is answered at once, and one that waits for the embargo.\<close>

lemma claim_now:
  assumes "roomy A" "find_slot (claimable nonce) (provisions c) = Some i" "conn_inv c"
    and "capnp_rpc_export c (pr_server (provisions c ! i)) (pr_dispatch (provisions c ! i)) = Some (eid, c1)" "0 \<le> eid"
  shows "claim_provision A c qid nonce False =
    Some (send c (sent c) (frame [return_cap_body qid eid]),
      (keep_answer (set_provision i ((provisions c ! i)\<lparr>pr_export_id := eid, pr_used := False\<rparr>) c1) qid
         (frame [return_cap_body qid eid]))\<lparr>sent := sent c @ [frame [return_cap_body qid eid]]\<rparr>)"
  using assms export_found(4,5) [OF assms(4,5,3)]
  by (simp add: claim_provision_def Let_def send_return_cap_emit roomyD emit_answer_roomy c_send_def)

lemma claim_later:
  assumes "find_slot (claimable nonce) (provisions c) = Some i"
    and "capnp_rpc_export c (pr_server (provisions c ! i)) (pr_dispatch (provisions c ! i)) = Some (eid, c1)" "0 \<le> eid"
  shows "claim_provision A c qid nonce True = Some (0, set_provision i ((provisions c ! i)
    \<lparr>pr_export_id := eid, pr_embargoed := True, pr_accept_question_id := qid\<rparr>) c1)"
  using assms by (simp add: claim_provision_def Let_def)

lemma claim_none:
  assumes "roomy A" "find_slot (claimable nonce) (provisions c) = None"
  shows "claim_provision A c qid nonce e = Some (c_send c (frame [exception_body qid ''accept: no such provision'']))"
proof -
  have "length (exception_body qid ''accept: no such provision'') \<le> 8192"
    by (simp add: exception_body_def text_words_def c_str_def)
  then show ?thesis
    using assms by (simp add: claim_provision_def send_return_exception_emit roomyD emit_roomy)
qed

section \<open>Handoff\<close>

lemma keep_provision_found:
  assumes A: "roomy A" and p: "conn_inv p" "eid < MAX_EXPORTS" "ex_refcount (exports p ! eid) + 1 < 2 ^ 31"
    "ex_used (exports p ! eid)"
  obtains p2 where "keep_provision A p i eid nonce qid = Some (send p (sent p) (frame [empty_return_body qid]), p2)"
    "provisions p2 = (provisions p)[i := (provisions p ! i)\<lparr>pr_used := True, pr_nonce := nonce,
       pr_server := ex_server (exports p ! eid), pr_dispatch := ex_dispatch (exports p ! eid), pr_export_id := int eid,
       pr_question_id := qid, pr_embargoed := False\<rparr>]"
    "ex_refcount (exports p2 ! eid) = ex_refcount (exports p ! eid) + 1" "sent p2 = sent p @ [frame [empty_return_body qid]]"
proof -
  have len: "length (empty_return_body qid) \<le> 8192" "eid < length (exports p)"
    using p(2) conn_inv_tables(1) [OF p(1)] by (simp_all add: empty_return_body_def)
  have "c_int (ex_refcount (exports p ! eid) + 1) = Some (ex_refcount (exports p ! eid) + 1)"
    using p(3,4) conn_inv_exportD [OF p(1) len(2)] by (simp add: c_int_def export_ok_def)
  then show thesis using that len
    by (simp add: keep_provision_def Let_def export_ref_def emit_answer_roomy [OF A] c_send_def) (simp add: set_export_def)
qed

text \<open>
  C12 A three-party handoff, end to end. The introducer's Provide bytes make the hosting vat hold its
  object under the nonce, with one more reference; the recipient's Accept bytes on another connection
  of that vat are answered, and the recipient learns the id under which that connection exports the
  same object. The nonce is then spent: any later Accept of it is refused with an exception.
\<close>

theorem handoff_end_to_end:
  assumes A: "roomy A" and host: "length host < 1000"
    and p: "conn_inv p" "unat cap < MAX_EXPORTS" "ex_used (exports p ! unat cap)" "ex_refcount (exports p ! unat cap) + 1 < 2 ^ 31"
    and slot: "find_slot (\<lambda>x. \<not> pr_used x) (provisions p) = Some i" "find_slot (claimable nonce) (provisions p) = None"
    and a: "question_claim a = (Some (qa, ia), a1)" "question_find a qa = None"
      "send a (sent a) (frame [provide_body cap host port nonce qa]) = 0"
    and b: "question_claim b = (Some (qb, ib), b1)" "question_find b qb = None"
      "send b (sent b) (frame [accept_body nonce False qb]) = 0"
    and r: "conn_inv r" "capnp_rpc_export r (ex_server (exports p ! unat cap)) (ex_dispatch (exports p ! unat cap)) = Some (eid, r1)"
      "0 \<le> eid"
  shows "\<exists>prov p2 acc ans a2 b2 r2 b3.
    capnp_rpc_send_provide A a cap (Some host) port nonce = Some (qa, a2) \<and> sent a2 = sent a @ [prov] \<and>
    capnp_rpc_handle A p prov = Some (send p (sent p) (frame [empty_return_body qa]), p2) \<and>
    ex_refcount (exports p2 ! unat cap) = ex_refcount (exports p ! unat cap) + 1 \<and>
    capnp_rpc_send_accept A b nonce False = Some (qb, b2) \<and> sent b2 = sent b @ [acc] \<and>
    capnp_rpc_handle A (capnp_rpc_set_vat r (Some (provisions p2))) acc = Some (send r (sent r) ans, r2) \<and>
    sent r2 = sent r @ [ans] \<and>
    capnp_rpc_handle A b2 ans = Some (0, b3) \<and> capnp_rpc_answer_cap_id A b3 qb = Some eid \<and>
    ex_used (exports r2 ! nat eid) \<and> ex_server (exports r2 ! nat eid) = ex_server (exports p ! unat cap) \<and>
    (\<forall>e q. capnp_rpc_handle A r2 (frame [accept_body nonce e q]) =
       Some (c_send r2 (frame [exception_body q ''accept: no such provision''])))"
proof -
  let ?x = "exports p ! unat cap"
  have len: "length (provide_body cap host port nonce qa) \<le> 8192" "length (accept_body nonce False qb) \<le> 8192"
    using host by (simp_all add: provide_body_def accept_body_def text_words_def pad_words_def)
  define a2 where "a2 = a1\<lparr>sent := sent a @ [frame [provide_body cap host port nonce qa]]\<rparr>"
  have sp: "capnp_rpc_send_provide A a cap (Some host) port nonce = Some (qa, a2)"
    using send_provide_ask [OF roomyD(1) [OF A] host] ask_with_sent [OF A a(1,2), of "provide_body cap host port nonce"] len(1) a(3)
    by (simp add: a2_def)
  define b2 where "b2 = b1\<lparr>sent := sent b @ [frame [accept_body nonce False qb]]\<rparr>"
  have sa: "capnp_rpc_send_accept A b nonce False = Some (qb, b2)"
    using send_accept_ask [OF roomyD(1) [OF A]] ask_with_sent [OF A b(1,2), of "accept_body nonce False"] len(2) b(3)
    by (simp add: b2_def)
  have named: "\<not> export_named p cap < 0" using p(2,3) by (simp add: export_named_def)
  obtain p2 where p2: "keep_provision A p i (unat cap) nonce qa = Some (send p (sent p) (frame [empty_return_body qa]), p2)"
    "provisions p2 = (provisions p)[i := (provisions p ! i)\<lparr>pr_used := True, pr_nonce := nonce,
       pr_server := ex_server ?x, pr_dispatch := ex_dispatch ?x, pr_export_id := int (unat cap),
       pr_question_id := qa, pr_embargoed := False\<rparr>]"
    "ex_refcount (exports p2 ! unat cap) = ex_refcount ?x + 1"
    by (rule keep_provision_found [OF A p(1,2,4,3)])
  have hp: "capnp_rpc_handle A p (frame [provide_body cap host port nonce qa]) =
      Some (send p (sent p) (frame [empty_return_body qa]), p2)"
    using handle_provide_frame [OF A host] named slot(1) p2(1) by simp
  define r' where "r' = capnp_rpc_set_vat r (Some (provisions p2))"
  have i: "i < length (provisions p)" using find_slotD [OF slot(1)] by simp
  have pi: "provisions r' ! i = (provisions p ! i)\<lparr>pr_used := True, pr_nonce := nonce, pr_server := ex_server ?x,
      pr_dispatch := ex_dispatch ?x, pr_export_id := int (unat cap), pr_question_id := qa, pr_embargoed := False\<rparr>"
    using i by (simp add: r'_def p2(2))
  have found: "find_slot (claimable nonce) (provisions r') = Some i"
    unfolding r'_def provisions_set p2(2) by (rule find_slot_upd_Some [OF slot(2) _ i]) (simp add: claimable_def)
  have inv': "conn_inv r'" unfolding r'_def
    by (rule conn_inv_vat [OF r(1)]) (use length_provisions [OF p(1)] in \<open>simp add: p2(2)\<close>)
  have ex: "capnp_rpc_export r' (pr_server (provisions r' ! i)) (pr_dispatch (provisions r' ! i)) =
      Some (eid, capnp_rpc_set_vat r1 (Some (provisions p2)))"
    using r(2) by (simp add: pi) (simp add: r'_def export_on_vat)
  note x = export_found [OF r(2,3,1)]
  define ans where "ans = frame [return_cap_body qb eid]"
  define r2 where "r2 = (keep_answer (set_provision i ((provisions r' ! i)\<lparr>pr_export_id := eid, pr_used := False\<rparr>)
      (capnp_rpc_set_vat r1 (Some (provisions p2)))) qb ans)\<lparr>sent := sent r' @ [ans]\<rparr>"
  have hr: "capnp_rpc_handle A r' (frame [accept_body nonce False qb]) = Some (send r (sent r) ans, r2)"
    using claim_now [OF A found inv' ex r(3)] unfolding handle_accept_frame [OF A] ans_def r2_def by (simp add: r'_def)
  have rest: "\<not> claimable nonce (provisions p ! j)" if "j < length (provisions p)" for j
    by (rule find_slot_NoneD [OF slot(2) that])
  have spent: "find_slot (claimable nonce) (provisions r2) = None"
    unfolding r2_def provisions_keep provisions_set
  proof (rule find_slot_upd_None)
    show "\<not> claimable nonce ((provisions r' ! i)\<lparr>pr_export_id := eid, pr_used := False\<rparr>)" by (simp add: claimable_def)
    show "\<not> claimable nonce (provisions p2 ! j)" if "j < length (provisions p2)" "j \<noteq> i" for j
      using rest [of j] that by (simp add: p2(2))
  qed
  obtain b3 where b3: "capnp_rpc_handle A b2 ans = Some (0, b3)" "capnp_rpc_answer_cap_id A b3 qb = Some eid"
    unfolding ans_def b2_def by (rule asker_learns [OF A b(1,2) r(3) x(1)])
  have refused: "capnp_rpc_handle A r2 (frame [accept_body nonce e q]) =
      Some (c_send r2 (frame [exception_body q ''accept: no such provision'']))" for e q
    unfolding handle_accept_frame [OF A] by (rule claim_none [OF A spent])
  have ends: "sent r2 = sent r @ [ans]" "exports r2 = exports r1" by (simp_all add: r2_def r'_def)
  show ?thesis
    by (rule exI [of _ "frame [provide_body cap host port nonce qa]"], rule exI [of _ p2],
        rule exI [of _ "frame [accept_body nonce False qb]"], rule exI [of _ ans], rule exI [of _ a2],
        rule exI [of _ b2], rule exI [of _ r2], rule exI [of _ b3])
      (use sp hp p2(3) sa hr ends x(2,3) b3 refused in \<open>simp add: r'_def [symmetric] a2_def [THEN arg_cong [of _ _ sent]]
        b2_def [THEN arg_cong [of _ _ sent]]\<close>)
qed

lemma vat_start: "find_slot (\<lambda>x. \<not> pr_used x) (provisions exporting) = Some 0"
  "find_slot (claimable nonce) (provisions exporting) = None"
  by (simp_all add: vats provisions_def vat0_def find_slot_replicate provision0_def MAX_PROVISIONS_def claimable_def)

theorem handoff_end_to_end_witness:
  "\<exists>prov p2 acc ans a2 b2 r2 b3.
    capnp_rpc_send_provide plentiful quiet 0 (Some []) 80 5 = Some (0, a2) \<and> sent a2 = [prov] \<and>
    capnp_rpc_handle plentiful exporting prov = Some (0, p2) \<and> ex_refcount (exports p2 ! 0) = 2 \<and>
    capnp_rpc_send_accept plentiful quiet 5 False = Some (0, b2) \<and> sent b2 = [acc] \<and>
    capnp_rpc_handle plentiful (capnp_rpc_set_vat quiet (Some (provisions p2))) acc = Some (0, r2) \<and> sent r2 = [ans] \<and>
    capnp_rpc_handle plentiful b2 ans = Some (0, b3) \<and> capnp_rpc_answer_cap_id plentiful b3 0 = Some 0 \<and>
    ex_server (exports r2 ! 0) = 7 \<and>
    capnp_rpc_handle plentiful r2 (frame [accept_body 5 True 9]) =
      Some (c_send r2 (frame [exception_body 9 ''accept: no such provision'']))"
proof -
  obtain c1 where c: "question_claim quiet = (Some (0, 0), c1)" using quiet_claim(1) ..
  have ex: "capnp_rpc_export quiet (ex_server (exports exporting ! unat (0 :: u32))) (ex_dispatch (exports exporting ! unat (0 :: u32))) =
      Some (0, exporting)" using export_quiet(1) by (simp add: exporting_slot)
  have p: "unat (0 :: u32) < MAX_EXPORTS" "ex_used (exports exporting ! unat (0 :: u32))"
    "ex_refcount (exports exporting ! unat (0 :: u32)) + 1 < 2 ^ 31" by (simp_all add: exporting_slot MAX_EXPORTS_def)
  obtain prov p2 acc ans a2 b2 r2 b3 where h:
    "capnp_rpc_send_provide plentiful quiet 0 (Some []) 80 5 = Some (0, a2)" "sent a2 = sent quiet @ [prov]"
    "capnp_rpc_handle plentiful exporting prov = Some (send exporting (sent exporting) (frame [empty_return_body 0]), p2)"
    "ex_refcount (exports p2 ! unat (0 :: u32)) = ex_refcount (exports exporting ! unat (0 :: u32)) + 1"
    "capnp_rpc_send_accept plentiful quiet 5 False = Some (0, b2)" "sent b2 = sent quiet @ [acc]"
    "capnp_rpc_handle plentiful (capnp_rpc_set_vat quiet (Some (provisions p2))) acc = Some (send quiet (sent quiet) ans, r2)"
    "sent r2 = sent quiet @ [ans]" "capnp_rpc_handle plentiful b2 ans = Some (0, b3)"
    "capnp_rpc_answer_cap_id plentiful b3 0 = Some 0"
    "ex_server (exports r2 ! nat 0) = ex_server (exports exporting ! unat (0 :: u32))"
    "\<forall>e q. capnp_rpc_handle plentiful r2 (frame [accept_body 5 e q]) =
       Some (c_send r2 (frame [exception_body q ''accept: no such provision'']))"
    using handoff_end_to_end [OF roomy_plentiful _ exporting_inv p vat_start c quiet_claim(2) _ c quiet_claim(2) _ quiet_inv(1) ex,
        where host = "[]" and nonce = 5 and port = 80] by auto
  show ?thesis
    by (rule exI [of _ prov], rule exI [of _ p2], rule exI [of _ acc], rule exI [of _ ans], rule exI [of _ a2],
        rule exI [of _ b2], rule exI [of _ r2], rule exI [of _ b3]) (use h in \<open>simp add: exporting_slot\<close>)
qed

text \<open>The first live embargoed claim under a Provide question.\<close>

definition waiting :: "u32 \<Rightarrow> provision \<Rightarrow> bool" where
  "waiting pq p \<longleftrightarrow> pr_used p \<and> pr_embargoed p \<and> pr_question_id p = pq"

lemma release_waiting:
  "release_provide_embargo A c pq = (case find_slot (waiting pq) (provisions c) of
     None \<Rightarrow> Some (0, c)
   | Some i \<Rightarrow> send_return_cap A (set_provision i provision0 c) (pr_accept_question_id (provisions c ! i))
       (pr_export_id (provisions c ! i)))"
  by (simp add: release_provide_embargo_def waiting_def [abs_def] Let_def split: option.splits)

lemma waiting_gone: "\<not> waiting pq provision0"
  by (simp add: waiting_def provision0_def)

text \<open>The Disembargo, on any connection of the vat.\<close>

lemma embargo_lifted:
  assumes A: "roomy A" and w: "find_slot (waiting pq) (provisions p) = Some i"
    and only: "\<And>j. j < length (provisions p) \<Longrightarrow> j \<noteq> i \<Longrightarrow> \<not> waiting pq (provisions p ! j)"
  defines "ans \<equiv> frame [return_cap_body (pr_accept_question_id (provisions p ! i)) (pr_export_id (provisions p ! i))]"
  shows "\<exists>p3. capnp_rpc_handle A p (frame [disembargo_body 3 pq]) = Some (send p (sent p) ans, p3) \<and> sent p3 = sent p @ [ans] \<and>
    \<not> pr_used (provisions p3 ! i) \<and> exports p3 = exports p \<and>
    capnp_rpc_handle A p3 (frame [disembargo_body 3 pq]) = Some (0, p3)"
proof -
  have i: "i < length (provisions p)" using find_slotD [OF w] by simp
  define p3 where "p3 = (keep_answer (set_provision i provision0 p) (pr_accept_question_id (provisions p ! i)) ans)\<lparr>sent := sent p @ [ans]\<rparr>"
  have rel: "capnp_rpc_handle A p (frame [disembargo_body 3 pq]) = Some (send p (sent p) ans, p3)"
    unfolding handle_disembargo_frame [OF A] release_waiting w
    by (simp add: send_return_cap_emit roomyD [OF A] emit_answer_roomy [OF A] c_send_def ans_def p3_def)
  have pv: "provisions p3 = (provisions p)[i := provision0]" by (simp add: p3_def)
  have "find_slot (waiting pq) (provisions p3) = None"
    unfolding pv by (rule find_slot_upd_None) (use only waiting_gone in simp_all)
  then have again: "capnp_rpc_handle A p3 (frame [disembargo_body 3 pq]) = Some (0, p3)"
    unfolding handle_disembargo_frame [OF A] release_waiting by simp
  have "exports p3 = exports p" "sent p3 = sent p @ [ans]" by (simp_all add: p3_def)
  moreover have "\<not> pr_used (provisions p3 ! i)" using i by (simp add: pv provision0_def)
  ultimately show ?thesis using rel again by blast
qed

text \<open>
  C13 An embargoed Accept is answered exactly once, when the embargo is lifted, and on the connection
  that lifts it. The Accept claims the provision, exports the object on its own connection and sends
  nothing; until the introducer's Disembargo nobody can claim the nonce. The Disembargo bytes naming the
  introducer's own Provide question may arrive on any connection of the vat that shares these
  provisions: the Return for the Accept's question, with the export id of the Accept's connection, is
  sent on that connection, the slot is freed, and a second Disembargo has no effect. So the recipient
  is answered when Accept and Disembargo came over one connection; when the recipient accepted on
  a connection of its own, the Return goes to the introducer.
\<close>

theorem embargo_answers_once:
  assumes A: "roomy A" and r: "conn_inv r"
    and slot: "find_slot (claimable nonce) (provisions r) = Some i" "pr_question_id (provisions r ! i) = pq"
    and only: "\<And>j. j < length (provisions r) \<Longrightarrow> j \<noteq> i \<Longrightarrow> \<not> claimable nonce (provisions r ! j)"
      "find_slot (waiting pq) (provisions r) = None"
    and ex: "capnp_rpc_export r (pr_server (provisions r ! i)) (pr_dispatch (provisions r ! i)) = Some (eid, r1)" "0 \<le> eid"
  shows "\<exists>r2 ans. capnp_rpc_handle A r (frame [accept_body nonce True q]) = Some (0, r2) \<and> sent r2 = sent r \<and> send r2 = send r \<and>
    (\<forall>e q'. capnp_rpc_handle A r2 (frame [accept_body nonce e q']) =
       Some (c_send r2 (frame [exception_body q' ''accept: no such provision'']))) \<and>
    exports r2 = exports r1 \<and> ex_server (exports r2 ! nat eid) = pr_server (provisions r ! i) \<and>
    ans = frame [return_cap_body q eid] \<and>
    capnp_rpc_send_disembargo_provide A c pq = Some (c_send c (frame [disembargo_body 3 pq])) \<and>
    (\<forall>p. provisions p = provisions r2 \<longrightarrow>
      (\<exists>p3. capnp_rpc_handle A p (frame [disembargo_body 3 pq]) = Some (send p (sent p) ans, p3) \<and> sent p3 = sent p @ [ans] \<and>
        \<not> pr_used (provisions p3 ! i) \<and> exports p3 = exports p \<and>
        capnp_rpc_handle A p3 (frame [disembargo_body 3 pq]) = Some (0, p3)))"
proof -
  let ?p = "(provisions r ! i)\<lparr>pr_export_id := eid, pr_embargoed := True, pr_accept_question_id := q\<rparr>"
  note x = export_found [OF ex r] and pv = export_provisions [OF ex(1)]
  have i: "i < length (provisions r)" "pr_used (provisions r ! i)" using find_slotD [OF slot(1)] by (simp_all add: claimable_def)
  define r2 where "r2 = set_provision i ?p r1"
  have a: "capnp_rpc_handle A r (frame [accept_body nonce True q]) = Some (0, r2)"
    unfolding handle_accept_frame [OF A] r2_def by (rule claim_later [OF slot(1) ex])
  have "find_slot (claimable nonce) (provisions r2) = None"
    unfolding r2_def provisions_set pv by (rule find_slot_upd_None) (use only(1) in \<open>simp_all add: claimable_def [of nonce ?p]\<close>)
  then have none: "capnp_rpc_handle A r2 (frame [accept_body nonce e q']) =
      Some (c_send r2 (frame [exception_body q' ''accept: no such provision'']))" for e q'
    unfolding handle_accept_frame [OF A] by (rule claim_none [OF A])
  have "length (disembargo_body 3 pq) \<le> 8192" by (simp add: disembargo_body_def)
  then have d: "capnp_rpc_send_disembargo_provide A c pq = Some (c_send c (frame [disembargo_body 3 pq]))"
    using send_disembargo_provide_emit [OF roomyD(1) [OF A]] emit_roomy [OF A] by simp
  have pr: "provisions r2 = (provisions r)[i := ?p]" by (simp add: r2_def pv)
  have w: "find_slot (waiting pq) (provisions r2) = Some i"
    unfolding pr by (rule find_slot_upd_Some [OF only(2) _ i(1)]) (simp add: waiting_def i(2) slot(2))
  have others: "\<not> waiting pq (provisions r2 ! j)" if "j < length (provisions r2)" "j \<noteq> i" for j
    using find_slot_NoneD [OF only(2)] that by (simp add: pr)
  have pi: "provisions r2 ! i = ?p" using i(1) by (simp add: pr)
  have lift: "\<exists>p3. capnp_rpc_handle A p (frame [disembargo_body 3 pq]) = Some (send p (sent p) (frame [return_cap_body q eid]), p3) \<and>
      sent p3 = sent p @ [frame [return_cap_body q eid]] \<and> \<not> pr_used (provisions p3 ! i) \<and> exports p3 = exports p \<and>
      capnp_rpc_handle A p3 (frame [disembargo_body 3 pq]) = Some (0, p3)"
    if "provisions p = provisions r2" for p
    using embargo_lifted [OF A, of pq p i] w others by (simp add: that pi)
  have keep: "exports r2 = exports r1" "sent r2 = sent r" "send r2 = send r" using x(4,5) by (simp_all add: r2_def)
  show ?thesis
    by (rule exI [of _ r2], rule exI [of _ "frame [return_cap_body q eid]"], intro conjI allI impI)
      (use a none d lift keep x(3) in simp_all)
qed

text \<open>A vat that holds object 7 for the nonce 5 under Provide question 3.\<close>

definition arranged :: conn where
  "arranged = set_provision 0 \<lparr>pr_used = True, pr_nonce = 5, pr_server = 7, pr_dispatch = Some answer_all, pr_export_id = 0,
     pr_question_id = 3, pr_embargoed = False, pr_accept_question_id = 0\<rparr> quiet"

lemma arranged_vat: "provisions arranged = \<lparr>pr_used = True, pr_nonce = 5, pr_server = 7, pr_dispatch = Some answer_all,
    pr_export_id = 0, pr_question_id = 3, pr_embargoed = False, pr_accept_question_id = 0\<rparr> # replicate 31 provision0"
proof -
  have "provisions quiet = provision0 # replicate 31 provision0"
    by (simp add: vats provisions_def vat0_def MAX_PROVISIONS_def flip: replicate_Suc)
  then show ?thesis by (simp add: arranged_def)
qed

lemma arranged_export: "\<exists>r1. capnp_rpc_export arranged 7 (Some answer_all) = Some (0, r1)"
  by (simp add: arranged_def set_provision_def set_provisions_def vats capnp_rpc_export_def find_slot_replicate export0_def MAX_EXPORTS_def)

lemma arranged_inv: "conn_inv arranged"
  unfolding arranged_def by (rule conn_inv_provision [OF quiet_inv(1)])

text \<open>The Disembargo over the connection of the Accept, and over a second connection.\<close>

theorem embargo_answers_once_witness:
  "\<exists>r2 r3 other o3. capnp_rpc_handle plentiful arranged (frame [accept_body 5 True 9]) = Some (0, r2) \<and> sent r2 = [] \<and>
    capnp_rpc_handle plentiful r2 (frame [disembargo_body 3 3]) = Some (0, r3) \<and> sent r3 = [frame [return_cap_body 9 0]] \<and>
    capnp_rpc_handle plentiful r3 (frame [disembargo_body 3 3]) = Some (0, r3) \<and>
    provisions other = provisions r2 \<and> exports other = replicate MAX_EXPORTS export0 \<and>
    capnp_rpc_handle plentiful other (frame [disembargo_body 3 3]) = Some (0, o3) \<and> sent o3 = [frame [return_cap_body 9 0]]"
proof -
  obtain r1 where e: "capnp_rpc_export arranged 7 (Some answer_all) = Some (0, r1)" using arranged_export ..
  have s: "find_slot (claimable 5) (provisions arranged) = Some 0" "pr_question_id (provisions arranged ! 0) = 3"
    "\<And>j. j < length (provisions arranged) \<Longrightarrow> j \<noteq> 0 \<Longrightarrow> \<not> claimable 5 (provisions arranged ! j)"
    "find_slot (waiting 3) (provisions arranged) = None"
    by (simp_all add: arranged_vat claimable_def waiting_def find_slot_replicate provision0_def nth_Cons')
  have ex: "capnp_rpc_export arranged (pr_server (provisions arranged ! 0)) (pr_dispatch (provisions arranged ! 0)) = Some (0, r1)"
    using e by (simp add: arranged_vat)
  obtain r2 where r2: "capnp_rpc_handle plentiful arranged (frame [accept_body 5 True 9]) = Some (0, r2)" "sent r2 = sent arranged"
    "send r2 = send arranged"
    "\<forall>p. provisions p = provisions r2 \<longrightarrow>
      (\<exists>p3. capnp_rpc_handle plentiful p (frame [disembargo_body 3 3]) = Some (send p (sent p) (frame [return_cap_body 9 0]), p3) \<and>
        sent p3 = sent p @ [frame [return_cap_body 9 0]] \<and> \<not> pr_used (provisions p3 ! 0) \<and> exports p3 = exports p \<and>
        capnp_rpc_handle plentiful p3 (frame [disembargo_body 3 3]) = Some (0, p3))"
  proof -
    have "\<And>j. j < length (provisions arranged) \<and> j \<noteq> 0 \<Longrightarrow> \<not> claimable 5 (provisions arranged ! j)" using s(3) by blast
    with embargo_answers_once [OF roomy_plentiful arranged_inv s(1,2) _ s(4) ex order_refl, of 9 quiet] show thesis
      by (elim exE conjE meta_impE) (use that in blast)+
  qed
  let ?other = "set_provisions (provisions r2) quiet"
  have o: "provisions ?other = provisions r2" by (rule provisions_set)
  have o2: "exports ?other = replicate MAX_EXPORTS export0" "sent ?other = []" "send ?other l f = 0" for l f
    by (simp_all add: set_provisions_def vats)
  have q: "sent r2 = []" "send r2 l f = 0" for l f using r2(2,3) by (simp_all add: arranged_def)
  obtain r3 o3 where "capnp_rpc_handle plentiful r2 (frame [disembargo_body 3 3]) = Some (0, r3)" "sent r3 = [frame [return_cap_body 9 0]]"
    "capnp_rpc_handle plentiful r3 (frame [disembargo_body 3 3]) = Some (0, r3)"
    "capnp_rpc_handle plentiful ?other (frame [disembargo_body 3 3]) = Some (0, o3)" "sent o3 = [frame [return_cap_body 9 0]]"
    using r2(4) [rule_format, OF refl] r2(4) [rule_format, OF o] unfolding q o2 by (elim exE conjE) (auto simp: q o2)
  then show ?thesis using r2(1) q(1) o o2(1) by blast
qed

end
