(* ===== verification/RpcStream.thy ===== *)
theory RpcStream
  imports RpcClaims
begin

text \<open>
  Streams: the window, the outstanding calls and the failure that sticks. A stream is finished by
  retiring every outstanding call, oldest first; each one gets its Finish message and its question
  slot back.
\<close>

section \<open>Retiring a call\<close>

text \<open>A call that was answered without an exception.\<close>

definition succeeded :: "conn \<Rightarrow> u32 \<Rightarrow> bool" where
  "succeeded c q \<longleftrightarrow> capnp_rpc_is_answered c q \<and> \<not> capnp_rpc_is_failed c q"

text \<open>The connection after the Finish of \<open>q\<close>, and the stream after its oldest call.\<close>

definition finished :: "conn \<Rightarrow> u32 \<Rightarrow> conn" where
  "finished c q = (case question_find c q of None \<Rightarrow> c | Some i \<Rightarrow> question_free i c)
     \<lparr>sent := sent c @ [frame [finish_body q]]\<rparr>"

definition noted :: "stream \<Rightarrow> u32 \<Rightarrow> bool \<Rightarrow> stream" where
  "noted s q ok = (if ok then s else if st_have_failure s then s\<lparr>st_failed := True\<rparr>
     else s\<lparr>st_failed := True, st_have_failure := True, st_first_failure := q\<rparr>)"

lemma send_finish_sent:
  assumes "roomy A"
  shows "\<exists>r. capnp_rpc_send_finish A c q = Some (r, finished c q)"
proof -
  have "length (finish_body q) \<le> 8192" by (simp add: finish_body_def)
  then show ?thesis using send_finish_emit [OF roomyD(1) [OF assms]] emit_roomy [OF assms]
    by (auto simp: finished_def c_send_def question_free_def split: option.splits)
qed

lemma retire_oldest:
  assumes "roomy A" "st_qids s = q # qs"
  shows "stream_retire_oldest A c s = Some (finished c q, noted (s\<lparr>st_qids := qs\<rparr>) q (succeeded c q))"
  using send_finish_sent [OF assms(1), of c q] assms(2)
  by (auto simp: stream_retire_oldest_def noted_def succeeded_def Let_def)

text \<open>Finishing one question leaves the status of the others alone.\<close>

lemma finished_other:
  assumes "q' \<noteq> q"
  shows "question_find (finished c q) q' = question_find c q'" "succeeded (finished c q) q' = succeeded c q'"
proof -
  have f: "question_find (question_free i c) q' = question_find c q'" if "question_find c q = Some i" for i
    unfolding question_find_def question_free_def
    by (simp, rule find_slot_upd_same) (use that assms in \<open>auto simp: question_find_def dest: find_slotD\<close>)
  show g: "question_find (finished c q) q' = question_find c q'"
    using f by (auto simp: finished_def question_find_def split: option.splits)
  have k: "questions (finished c q) ! j = questions c ! j" if "question_find c q' = Some j" for j
    using that assms by (auto simp: finished_def question_free_def question_find_def nth_list_update dest!: find_slotD split: option.splits)
  show "succeeded (finished c q) q' = succeeded c q'"
    using k by (auto simp: succeeded_def capnp_rpc_is_answered_def capnp_rpc_is_failed_def g split: option.splits)
qed

lemma finished_keeps_unknown: "question_find c q' = None \<Longrightarrow> question_find (finished c q) q' = None"
  by (auto simp: finished_def question_find_def question_free_def find_slot_None dest!: set_update_cases find_slotD split: option.splits)

section \<open>Retiring all calls\<close>

lemma retire_all_total:
  assumes "roomy A" "st_qids s = qs"
  obtains c' s' where "retire_all A (length qs) c s = Some (c', s')" "c' = foldl finished c qs" "st_qids s' = []"
    "st_window s' = st_window s" "sent c' = sent c @ map (\<lambda>q. frame [finish_body q]) qs"
    "st_failed s \<Longrightarrow> st_failed s'" "st_have_failure s \<Longrightarrow> st_have_failure s' \<and> st_first_failure s' = st_first_failure s"
    "distinct qs \<Longrightarrow> st_have_failure s' \<longleftrightarrow> st_have_failure s \<or> (\<exists>q \<in> set qs. \<not> succeeded c q)"
proof -
  have "\<exists>c' s'. retire_all A (length qs) c s = Some (c', s') \<and> c' = foldl finished c qs \<and> st_qids s' = [] \<and>
    st_window s' = st_window s \<and> sent c' = sent c @ map (\<lambda>q. frame [finish_body q]) qs \<and>
    (st_failed s \<longrightarrow> st_failed s') \<and> (st_have_failure s \<longrightarrow> st_have_failure s' \<and> st_first_failure s' = st_first_failure s) \<and>
    (distinct qs \<longrightarrow> (st_have_failure s' \<longleftrightarrow> st_have_failure s \<or> (\<exists>q \<in> set qs. \<not> succeeded c q)))"
    using assms(2)
  proof (induction qs arbitrary: c s)
    case (Cons q qs)
    let ?s = "noted (s\<lparr>st_qids := qs\<rparr>) q (succeeded c q)"
    have n: "st_qids ?s = qs" "st_window ?s = st_window s" "st_failed s \<Longrightarrow> st_failed ?s"
      "st_have_failure ?s = (st_have_failure s \<or> \<not> succeeded c q)"
      "st_have_failure s \<Longrightarrow> st_first_failure ?s = st_first_failure s"
      by (simp_all add: noted_def)
    have st: "(\<exists>x \<in> set qs. \<not> succeeded (finished c q) x) = (\<exists>x \<in> set qs. \<not> succeeded c x)" if "q \<notin> set qs"
      using that finished_other(2) [of _ q c] by metis
    have sc: "sent (finished c q) = sent c @ [frame [finish_body q]]" by (simp add: finished_def)
    from Cons.IH [of ?s "finished c q"] n(1) obtain c' s' where r:
      "retire_all A (length qs) (finished c q) ?s = Some (c', s')" "c' = foldl finished (finished c q) qs" "st_qids s' = []"
      "st_window s' = st_window ?s" "sent c' = sent (finished c q) @ map (\<lambda>q. frame [finish_body q]) qs"
      "st_failed ?s \<Longrightarrow> st_failed s'" "st_have_failure ?s \<Longrightarrow> st_have_failure s' \<and> st_first_failure s' = st_first_failure ?s"
      "distinct qs \<Longrightarrow> st_have_failure s' \<longleftrightarrow> st_have_failure ?s \<or> (\<exists>q' \<in> set qs. \<not> succeeded (finished c q) q')"
      by blast
    have "retire_all A (length (q # qs)) c s = Some (c', s')"
      using retire_oldest [OF assms(1) Cons.prems] r(1) by simp
    then show ?case using r n st sc by auto
  qed simp
  then show thesis using that by blast
qed

text \<open>The slots of finished questions are free again.\<close>

lemma finished_distinct: "quests.distinct_keys (questions c) \<Longrightarrow> quests.distinct_keys (questions (finished c q))"
  by (auto simp: finished_def question_free_def question_find_def split: option.splits dest: find_slotD
      intro!: quests.distinct_update)

lemma finished_freed:
  assumes "quests.distinct_keys (questions c)"
  shows "question_find (finished c q) q = None"
proof (cases "question_find c q")
  case (Some i)
  have "quests.lookup q ((questions c)[i := (questions c ! i)\<lparr>qu_used := False\<rparr>]) = None"
    by (rule quests.lookup_free [OF assms]) (use Some in \<open>simp_all add: quests.lookup_def question_find_def\<close>)
  then show ?thesis using Some by (simp add: finished_def question_free_def question_find_def quests.lookup_def)
qed (simp add: finished_def question_find_def)

lemma all_freed:
  assumes "quests.distinct_keys (questions c)" "q \<in> set qs \<or> question_find c q = None"
  shows "question_find (foldl finished c qs) q = None"
  using assms
proof (induction qs arbitrary: c)
  case (Cons x xs)
  have "q \<in> set xs \<or> question_find (finished c x) q = None"
    using Cons.prems finished_freed [OF Cons.prems(1)] finished_keeps_unknown by auto
  from Cons.IH [OF finished_distinct [OF Cons.prems(1)] this] show ?case by simp
qed simp

section \<open>The window\<close>

definition stream_ok :: "stream \<Rightarrow> bool" where
  "stream_ok s \<longleftrightarrow> 1 \<le> st_window s \<and> st_window s \<le> STREAM_MAX_WINDOW \<and> length (st_qids s) \<le> st_window s \<and>
     (st_failed s \<longrightarrow> st_have_failure s)"

lemma stream_init_ok: "stream_ok (capnp_rpc_stream_init w)" "st_qids (capnp_rpc_stream_init w) = []"
  by (auto simp: stream_ok_def capnp_rpc_stream_init_def STREAM_MAX_WINDOW_def Let_def)

text \<open>Making room for one more call.\<close>

lemma make_room:
  assumes "roomy A" "stream_ok s"
  obtains c1 s1 where "(if length (st_qids s) \<ge> st_window s then stream_retire_oldest A c s else Some (c, s)) = Some (c1, s1)"
    "stream_ok s1" "length (st_qids s1) < st_window s1" "st_window s1 = st_window s"
    "st_qids s1 = drop (length (st_qids s) + 1 - st_window s) (st_qids s)"
proof (cases "length (st_qids s) \<ge> st_window s")
  case True
  have w: "length (st_qids s) = st_window s" "1 \<le> st_window s" using True assms(2) by (simp_all add: stream_ok_def)
  then have "0 < length (st_qids s)" by linarith
  then obtain q qs where q: "st_qids s = q # qs" by (auto simp: neq_Nil_conv)
  let ?s = "noted (s\<lparr>st_qids := qs\<rparr>) q (succeeded c q)"
  have "stream_ok ?s" "length (st_qids ?s) < st_window ?s" "st_window ?s = st_window s" "st_qids ?s = drop 1 (st_qids s)"
    using assms(2) w q by (auto simp: stream_ok_def noted_def)
  then show thesis by (intro that [of "finished c q" ?s]) (use True retire_oldest [OF assms(1) q, of c] w in simp_all)
next
  case False
  show thesis by (rule that [of c s]) (use False assms(2) in simp_all)
qed

lemma stream_send_ok:
  assumes A: "roomy A" and s: "stream_ok s" and fill: "fills fill (dw + pw) ps"
  obtains rc c' s' where "capnp_rpc_stream_send A c s cap iface meth dw pw fill = Some (rc, c', s')" "stream_ok s'"
    "st_window s' = st_window s" "st_failed s \<Longrightarrow> rc = CAPNP_ERR_ARG \<and> c' = c \<and> s' = s"
    "rc = CAPNP_OK \<Longrightarrow> \<exists>q. st_qids s' = drop (length (st_qids s) + 1 - st_window s) (st_qids s) @ [q]"
proof (cases "st_failed s")
  case True
  then show thesis using that [of CAPNP_ERR_ARG c s] s by (simp add: capnp_rpc_stream_send_def)
next
  case False
  obtain c1 s1 where r: "(if length (st_qids s) \<ge> st_window s then stream_retire_oldest A c s else Some (c, s)) = Some (c1, s1)"
    "stream_ok s1" "length (st_qids s1) < st_window s1" "st_window s1 = st_window s"
    "st_qids s1 = drop (length (st_qids s) + 1 - st_window s) (st_qids s)" by (rule make_room [OF A s])
  obtain q c2 where call: "capnp_rpc_send_call A c1 cap iface meth dw pw fill = Some (q, c2)"
    using send_call_filled [OF roomyD(1) [OF A] fill] by (metis surj_pair)
  have room: "length (st_qids s1) < STREAM_MAX_WINDOW" using r(2,3) by (simp add: stream_ok_def)
  note run = capnp_rpc_stream_send_def [of A c s cap iface meth dw pw fill]
  consider (bad) "st_failed s1" | (full) "\<not> st_failed s1" "q = - 1" | (ok) "\<not> st_failed s1" "q \<noteq> - 1" by blast
  then show thesis
  proof cases
    case bad
    then show thesis using that [of CAPNP_ERR_ARG c1 s1] False r by (simp add: run)
  next
    case full
    then show thesis using that [of CAPNP_ERR_ALLOC c2 s1] False r call by (simp add: run)
  next
    case ok
    have "stream_ok (s1\<lparr>st_qids := st_qids s1 @ [q]\<rparr>)" using r(2,3) by (simp add: stream_ok_def)
    then show thesis using that [of CAPNP_OK c2 "s1\<lparr>st_qids := st_qids s1 @ [q]\<rparr>"] False r call ok room by (simp add: run)
  qed
qed

text \<open>On a full window an oldest call without an answer ends the stream at once.\<close>

lemma stream_send_full:
  assumes A: "roomy A" and s: "st_qids s = q # qs" "length (st_qids s) = st_window s" "\<not> st_failed s" "\<not> succeeded c q"
  shows "capnp_rpc_stream_send A c s cap iface meth dw pw fill = Some (CAPNP_ERR_ARG, finished c q, noted (s\<lparr>st_qids := qs\<rparr>) q False)"
    "st_failed (noted (s\<lparr>st_qids := qs\<rparr>) q False)" "sent (finished c q) = sent c @ [frame [finish_body q]]"
  using retire_oldest [OF A s(1), of c] s by (simp_all add: capnp_rpc_stream_send_def noted_def finished_def)

text \<open>
  C14 Streams are bounded, never wait and always finish. A send returns, whatever the caller's
  \<open>fill\<close> callback puts into the parameters, keeps at most \<open>window\<close> calls outstanding and never runs
  past the array of 64 ids. On a full window it does not wait for an answer: it retires the oldest
  call at once, and a call retired before its answer counts as failed and ends the stream. Once the
  stream has failed a send does nothing but report it. \<open>capnp_rpc_stream_finish\<close> does not wait
  either: it returns with no call outstanding, every question slot of the stream freed and one Finish
  sent for each call in order, and it reports success exactly when no earlier call failed and every
  outstanding one had already been answered without an exception. The comments in \<open>capnp_rpc.h\<close> say
  otherwise ("blocking only when the window is full", "Wait for every outstanding call"): the
  connection has no way to receive, so the caller has to handle the answers before it sends on a full
  window or finishes.
\<close>

theorem stream_bounded_and_finishes:
  assumes A: "roomy A" and s: "stream_ok s" and fill: "fills fill (dw + pw) ps"
    and c: "quests.distinct_keys (questions c)" "distinct (st_qids s)"
  shows "(\<exists>rc c' s'. capnp_rpc_stream_send A c s cap iface meth dw pw fill = Some (rc, c', s') \<and>
      stream_ok s' \<and> st_window s' = st_window s \<and> length (st_qids s') \<le> st_window s \<and>
      (st_failed s \<longrightarrow> rc = CAPNP_ERR_ARG \<and> c' = c \<and> s' = s) \<and>
      (rc = CAPNP_OK \<longrightarrow> (\<exists>q. st_qids s' = drop (length (st_qids s) + 1 - st_window s) (st_qids s) @ [q])) \<and>
      (\<forall>q qs. st_qids s = q # qs \<and> length (st_qids s) = st_window s \<and> \<not> st_failed s \<and>
          \<not> (capnp_rpc_is_answered c q \<and> \<not> capnp_rpc_is_failed c q) \<longrightarrow>
        rc = CAPNP_ERR_ARG \<and> st_failed s' \<and> sent c' = sent c @ [frame [finish_body q]])) \<and>
    (\<exists>c' s'. capnp_rpc_stream_finish A c s =
        Some (if st_have_failure s \<or> (\<exists>q \<in> set (st_qids s). \<not> (capnp_rpc_is_answered c q \<and> \<not> capnp_rpc_is_failed c q))
              then CAPNP_ERR_ARG else CAPNP_OK, c', s') \<and>
      st_qids s' = [] \<and> sent c' = sent c @ map (\<lambda>q. frame [finish_body q]) (st_qids s) \<and>
      (\<forall>q \<in> set (st_qids s). question_find c' q = None))"
proof -
  obtain rc c' s' where send: "capnp_rpc_stream_send A c s cap iface meth dw pw fill = Some (rc, c', s')" "stream_ok s'"
    "st_window s' = st_window s" "st_failed s \<Longrightarrow> rc = CAPNP_ERR_ARG \<and> c' = c \<and> s' = s"
    "rc = CAPNP_OK \<Longrightarrow> \<exists>q. st_qids s' = drop (length (st_qids s) + 1 - st_window s) (st_qids s) @ [q]"
    using stream_send_ok [OF A s fill, of c cap iface meth] by blast
  obtain c2 s2 where fin: "retire_all A (length (st_qids s)) c s = Some (c2, s2)" "c2 = foldl finished c (st_qids s)"
    "st_qids s2 = []" "sent c2 = sent c @ map (\<lambda>q. frame [finish_body q]) (st_qids s)"
    "distinct (st_qids s) \<Longrightarrow> st_have_failure s2 \<longleftrightarrow> st_have_failure s \<or> (\<exists>q \<in> set (st_qids s). \<not> succeeded c q)"
    using retire_all_total [OF A refl, of s c] by blast
  have "\<forall>q \<in> set (st_qids s). question_find c2 q = None" unfolding fin(2) using all_freed [OF c(1), of _ "st_qids s"] by simp
  moreover have "capnp_rpc_stream_finish A c s =
        Some (if st_have_failure s \<or> (\<exists>q \<in> set (st_qids s). \<not> (capnp_rpc_is_answered c q \<and> \<not> capnp_rpc_is_failed c q))
              then CAPNP_ERR_ARG else CAPNP_OK, c2, s2)"
    unfolding succeeded_def [symmetric] fin(5) [OF c(2), symmetric] by (simp add: capnp_rpc_stream_finish_def fin(1))
  ultimately have "\<exists>c' s'. capnp_rpc_stream_finish A c s =
        Some (if st_have_failure s \<or> (\<exists>q \<in> set (st_qids s). \<not> (capnp_rpc_is_answered c q \<and> \<not> capnp_rpc_is_failed c q))
              then CAPNP_ERR_ARG else CAPNP_OK, c', s') \<and>
      st_qids s' = [] \<and> sent c' = sent c @ map (\<lambda>q. frame [finish_body q]) (st_qids s) \<and>
      (\<forall>q \<in> set (st_qids s). question_find c' q = None)"
    using fin(3,4) by blast
  moreover have "\<forall>q qs. st_qids s = q # qs \<and> length (st_qids s) = st_window s \<and> \<not> st_failed s \<and>
          \<not> (capnp_rpc_is_answered c q \<and> \<not> capnp_rpc_is_failed c q) \<longrightarrow>
        rc = CAPNP_ERR_ARG \<and> st_failed s' \<and> sent c' = sent c @ [frame [finish_body q]]"
    using stream_send_full [OF A, of s] send(1) unfolding succeeded_def [symmetric] by fastforce
  moreover have "length (st_qids s') \<le> st_window s" using send(2,3) unfolding stream_ok_def by linarith
  ultimately show ?thesis using send by blast
qed

theorem stream_bounded_and_finishes_witness:
  "\<exists>c1 c2 s1 s2 q. capnp_rpc_stream_send plentiful quiet (capnp_rpc_stream_init 2) 0 5 3 1 1 (Some fill_42) = Some (CAPNP_OK, c1, s1) \<and>
    st_qids s1 = [q] \<and> capnp_rpc_stream_finish plentiful quiet (capnp_rpc_stream_init 2) = Some (CAPNP_OK, c2, s2)"
proof -
  let ?s = "capnp_rpc_stream_init 2" and ?ps = "[capnp_store_le64 42, replicate 8 0]"
  have k: "quests.distinct_keys (questions quiet)"
    by (rule quests.distinct_unused) (simp add: vats question0_def)
  have s: "st_qids ?s = []" "\<not> st_failed ?s" "\<not> st_have_failure ?s" "st_window ?s = 2"
    by (simp_all add: capnp_rpc_stream_init_def STREAM_MAX_WINDOW_def Let_def)
  have call: "\<exists>c1. capnp_rpc_send_call plentiful quiet 0 5 3 1 1 (Some fill_42) = Some (0, c1)"
    using send_call_filled [OF roomyD(1) [OF roomy_plentiful] fills_42, of quiet 0 5 3] quiet_claim
      ask_with_sent [OF roomy_plentiful _ quiet_claim(2) length_filled(3) [OF fillsD [OF fills_42]]] by auto
  have sent: "\<exists>c1 s1 q. capnp_rpc_stream_send plentiful quiet ?s 0 5 3 1 1 (Some fill_42) = Some (CAPNP_OK, c1, s1) \<and> st_qids s1 = [q]"
    using call s by (auto simp: capnp_rpc_stream_send_def STREAM_MAX_WINDOW_def)
  from stream_bounded_and_finishes [OF roomy_plentiful stream_init_ok(1) [of 2] fills_42 k, of 0 5 3] s
  have "\<exists>c2 s2. capnp_rpc_stream_finish plentiful quiet ?s = Some (CAPNP_OK, c2, s2)" by auto
  with sent show ?thesis by blast
qed

end
