(* ===== verification/GenEmit.thy ===== *)
theory GenEmit
  imports GenText
begin

text \<open>
  What \<open>app/capnpc_janet.c\<close> prints for a schema node: the searches of the node list, the switches
  over type tags, and \<open>emit_group_clear\<close>, \<open>emit_interface\<close>, \<open>emit_struct\<close> and \<open>emit_enum\<close>.

  The schema is a Cap'n Proto message, so every step reads it with the functions of theory \<open>Reader\<close>
  and passes on the message, whose traversal budget the reads spend. A function that prints returns
  the bytes it adds to the file.
\<close>

section \<open>Tags of \<open>schema.capnp\<close>\<close>

definition NODE_FILE :: u16 where "NODE_FILE = 0"
definition NODE_STRUCT :: u16 where "NODE_STRUCT = 1"
definition NODE_ENUM :: u16 where "NODE_ENUM = 2"
definition NODE_IFACE :: u16 where "NODE_IFACE = 3"
definition FIELD_SLOT :: u16 where "FIELD_SLOT = 0"
definition FIELD_GROUP :: u16 where "FIELD_GROUP = 1"
definition TYPE_VOID :: u16 where "TYPE_VOID = 0"
definition TYPE_BOOL :: u16 where "TYPE_BOOL = 1"
definition TYPE_INT8 :: u16 where "TYPE_INT8 = 2"
definition TYPE_INT16 :: u16 where "TYPE_INT16 = 3"
definition TYPE_INT32 :: u16 where "TYPE_INT32 = 4"
definition TYPE_INT64 :: u16 where "TYPE_INT64 = 5"
definition TYPE_UINT8 :: u16 where "TYPE_UINT8 = 6"
definition TYPE_UINT16 :: u16 where "TYPE_UINT16 = 7"
definition TYPE_UINT32 :: u16 where "TYPE_UINT32 = 8"
definition TYPE_UINT64 :: u16 where "TYPE_UINT64 = 9"
definition TYPE_FLOAT32 :: u16 where "TYPE_FLOAT32 = 10"
definition TYPE_FLOAT64 :: u16 where "TYPE_FLOAT64 = 11"
definition TYPE_TEXT :: u16 where "TYPE_TEXT = 12"
definition TYPE_DATA :: u16 where "TYPE_DATA = 13"
definition TYPE_LIST :: u16 where "TYPE_LIST = 14"
definition TYPE_ENUM :: u16 where "TYPE_ENUM = 15"
definition TYPE_STRUCT :: u16 where "TYPE_STRUCT = 16"
definition TYPE_INTERFACE :: u16 where "TYPE_INTERFACE = 17"
definition TYPE_ANY_POINTER :: u16 where "TYPE_ANY_POINTER = 18"

named_theorems type_tags "the values of the node, field and type tags"

declare NODE_FILE_def [type_tags] NODE_STRUCT_def [type_tags] NODE_ENUM_def [type_tags] NODE_IFACE_def [type_tags]
  FIELD_SLOT_def [type_tags] FIELD_GROUP_def [type_tags]
  TYPE_VOID_def [type_tags] TYPE_BOOL_def [type_tags] TYPE_INT8_def [type_tags] TYPE_INT16_def [type_tags]
  TYPE_INT32_def [type_tags] TYPE_INT64_def [type_tags] TYPE_UINT8_def [type_tags] TYPE_UINT16_def [type_tags]
  TYPE_UINT32_def [type_tags] TYPE_UINT64_def [type_tags] TYPE_FLOAT32_def [type_tags] TYPE_FLOAT64_def [type_tags]
  TYPE_TEXT_def [type_tags] TYPE_DATA_def [type_tags] TYPE_LIST_def [type_tags] TYPE_ENUM_def [type_tags]
  TYPE_STRUCT_def [type_tags] TYPE_INTERFACE_def [type_tags] TYPE_ANY_POINTER_def [type_tags]

section \<open>Reading the schema\<close>

text \<open>The text of a field as a C string, \<open>""\<close> when it cannot be read.\<close>

definition get_text :: "message \<Rightarrow> ptr \<Rightarrow> nat \<Rightarrow> (message \<times> byte list) option" where
  "get_text m s idx = do {
     (r, m, t) \<leftarrow> capnp_get_text m s idx;
     if r \<noteq> CAPNP_OK then Some (m, [])
     else (case t of BytesAt seg a n \<Rightarrow> do { str \<leftarrow> c_string m seg a; Some (m, str) } | _ \<Rightarrow> Some (m, [])) }"

text \<open>The loop over the nodes that \<open>struct_shape\<close>, \<open>node_type_name\<close> and \<open>node_by_id\<close> share: the
  first node with this id.\<close>

fun find_node :: "message \<Rightarrow> ptr \<Rightarrow> u64 \<Rightarrow> nat list \<Rightarrow> (message \<times> ptr option) option" where
  "find_node m nodes key [] = Some (m, None)"
| "find_node m nodes key (i # is) = do {
     (r, m, node) \<leftarrow> capnp_list_getp m nodes i ptr0;
     if r \<noteq> CAPNP_OK then find_node m nodes key is
     else do {
       nid \<leftarrow> capnp_get_u64 m node 0 0;
       if nid \<noteq> key then find_node m nodes key is else Some (m, Some node) } }"

definition node_by_id :: "message \<Rightarrow> ptr \<Rightarrow> u64 \<Rightarrow> (message \<times> ptr option) option" where
  "node_by_id m nodes key = find_node m nodes key [0..<capnp_list_len nodes]"

definition struct_shape :: "message \<Rightarrow> ptr \<Rightarrow> u64 \<Rightarrow> (message \<times> nat \<times> nat) option" where
  "struct_shape m nodes key = do {
     (m, node) \<leftarrow> find_node m nodes key [0..<capnp_list_len nodes];
     case node of None \<Rightarrow> Some (m, 0, 0)
     | Some node \<Rightarrow> do {
         which \<leftarrow> capnp_get_u16 m node 12 0xffff;
         if which \<noteq> NODE_STRUCT then Some (m, 0, 0)
         else do {
           dw \<leftarrow> capnp_get_u16 m node 14 0;
           pw \<leftarrow> capnp_get_u16 m node 24 0;
           Some (m, unat dw, unat pw) } } }"

definition node_type_name :: "message \<Rightarrow> ptr \<Rightarrow> u64 \<Rightarrow> nat \<Rightarrow> (message \<times> byte list option) option" where
  "node_type_name m nodes key outn = do {
     (m, node) \<leftarrow> find_node m nodes key [0..<capnp_list_len nodes];
     case node of None \<Rightarrow> Some (m, None)
     | Some node \<Rightarrow> do {
         (m, t) \<leftarrow> get_text m node 0;
         out \<leftarrow> type_short_name t outn;
         Some (m, Some out) } }"

section \<open>Types\<close>

definition type_kw :: "u16 \<Rightarrow> string" where
  "type_kw which =
     (if which = TYPE_VOID then ''void'' else if which = TYPE_BOOL then ''bool''
      else if which = TYPE_INT8 then ''i8'' else if which = TYPE_UINT8 then ''u8''
      else if which = TYPE_INT16 then ''i16'' else if which = TYPE_UINT16 then ''u16''
      else if which = TYPE_INT32 then ''i32'' else if which = TYPE_UINT32 then ''u32''
      else if which = TYPE_INT64 then ''i64'' else if which = TYPE_UINT64 then ''u64''
      else if which = TYPE_FLOAT32 then ''f32'' else if which = TYPE_FLOAT64 then ''f64''
      else if which = TYPE_TEXT then ''text'' else if which = TYPE_DATA then ''data''
      else if which = TYPE_LIST then ''list'' else if which = TYPE_ENUM then ''enum''
      else if which = TYPE_STRUCT then ''struct'' else if which = TYPE_INTERFACE then ''interface''
      else if which = TYPE_ANY_POINTER then ''any-pointer'' else ''unknown'')"

definition list_accessor_suffix :: "u16 \<Rightarrow> string option" where
  "list_accessor_suffix which =
     (if which = TYPE_BOOL then Some ''bool'' else if which = TYPE_INT8 then Some ''i8''
      else if which = TYPE_UINT8 then Some ''u8'' else if which = TYPE_INT16 then Some ''i16''
      else if which = TYPE_UINT16 \<or> which = TYPE_ENUM then Some ''u16''
      else if which = TYPE_INT32 then Some ''i32'' else if which = TYPE_UINT32 then Some ''u32''
      else if which = TYPE_INT64 then Some ''i64'' else if which = TYPE_UINT64 then Some ''u64''
      else if which = TYPE_FLOAT32 then Some ''f32'' else if which = TYPE_FLOAT64 then Some ''f64''
      else if which = TYPE_TEXT then Some ''text'' else if which = TYPE_VOID then Some ''void'' else None)"

definition scalar_byte_offset :: "u16 \<Rightarrow> u32 \<Rightarrow> u32" where
  "scalar_byte_offset type offset =
     (if type = TYPE_INT16 \<or> type = TYPE_UINT16 \<or> type = TYPE_ENUM then offset * 2
      else if type = TYPE_INT32 \<or> type = TYPE_UINT32 \<or> type = TYPE_FLOAT32 then offset * 4
      else if type = TYPE_INT64 \<or> type = TYPE_UINT64 \<or> type = TYPE_FLOAT64 then offset * 8
      else offset)"

text \<open>The switch of \<open>emit_struct\<close> that selects a scalar setter.\<close>

definition setter_name :: "u16 \<Rightarrow> string option" where
  "setter_name tw =
     (if tw = TYPE_BOOL then Some ''set-bool'' else if tw = TYPE_INT8 then Some ''set-i8''
      else if tw = TYPE_UINT8 then Some ''set-u8'' else if tw = TYPE_INT16 then Some ''set-i16''
      else if tw = TYPE_UINT16 \<or> tw = TYPE_ENUM then Some ''set-u16''
      else if tw = TYPE_INT32 then Some ''set-i32'' else if tw = TYPE_UINT32 then Some ''set-u32''
      else if tw = TYPE_INT64 then Some ''set-i64'' else if tw = TYPE_UINT64 then Some ''set-u64''
      else if tw = TYPE_FLOAT32 then Some ''set-f32'' else if tw = TYPE_FLOAT64 then Some ''set-f64'' else None)"

section \<open>Default values\<close>

text \<open>A quoted 64-bit literal, for numbers a Janet number cannot hold.\<close>

definition int_ctor :: "string \<Rightarrow> byte list \<Rightarrow> byte list" where
  "int_ctor ctor n = c_str ctor @ [32, 34] @ n @ [34] @ c_str '')''"

text \<open>The literal for a struct value that holds the default; the union tag is \<open>type\<close>.\<close>

definition value_literal :: "message \<Rightarrow> ptr \<Rightarrow> u16 \<Rightarrow> byte list option" where
  "value_literal m v type =
     (if type = TYPE_BOOL then map_option (\<lambda>b. if b \<noteq> 0 then c_str ''true'' else c_str ''false'') (capnp_get_bool m v 16 0)
      else if type = TYPE_INT8 then map_option (\<lambda>x. sdec (sint x)) (capnp_get_u8 m v 2 0)
      else if type = TYPE_INT16 then map_option (\<lambda>x. sdec (sint x)) (capnp_get_u16 m v 2 0)
      else if type = TYPE_INT32 then map_option (\<lambda>x. sdec (sint x)) (capnp_get_u32 m v 4 0)
      else if type = TYPE_INT64 then
        map_option (\<lambda>x. if sint x < - 9007199254740992 \<or> sint x > 9007199254740992
                        then int_ctor ''(int/s64'' (sdec (sint x)) else sdec (sint x)) (capnp_get_u64 m v 8 0)
      else if type = TYPE_UINT8 then map_option (\<lambda>x. dec (unat x)) (capnp_get_u8 m v 2 0)
      else if type = TYPE_UINT16 \<or> type = TYPE_ENUM then map_option (\<lambda>x. dec (unat x)) (capnp_get_u16 m v 2 0)
      else if type = TYPE_UINT32 then map_option (\<lambda>x. dec (unat x)) (capnp_get_u32 m v 4 0)
      else if type = TYPE_UINT64 then
        map_option (\<lambda>x. if unat x > 9007199254740992 then int_ctor ''(int/u64'' (dec (unat x)) else dec (unat x))
          (capnp_get_u64 m v 8 0)
      else if type = TYPE_FLOAT32 then
        map_option (\<lambda>x. if x = 0x80000000 then c_str ''-0.0'' else fmt_float 9 8 23 (unat x)) (capnp_get_u32 m v 4 0)
      else if type = TYPE_FLOAT64 then
        map_option (\<lambda>x. if x = 0x8000000000000000 then c_str ''-0.0'' else fmt_float 17 11 52 (unat x)) (capnp_get_u64 m v 8 0)
      else Some (c_str ''0''))"

definition scalar_default_literal :: "message \<Rightarrow> ptr \<Rightarrow> u16 \<Rightarrow> nat \<Rightarrow> (message \<times> byte list) option" where
  "scalar_default_literal m field type outn = do {
     (r, m, v) \<leftarrow> capnp_getp m field 3 ptr0;
     if r \<noteq> CAPNP_OK \<or> p_kind v \<noteq> PK_STRUCT then Some (m, snprintf outn (c_str ''0''))
     else do { lit \<leftarrow> value_literal m v type; Some (m, snprintf outn lit) } }"

section \<open>Printing\<close>

definition ln :: "byte list list \<Rightarrow> byte list" where
  "ln parts = concat parts @ [10]"

text \<open>A \<open>for\<close> loop whose body prints, and the body's read of list element \<open>i\<close> with \<open>continue\<close>.\<close>

fun emit_each :: "(message \<Rightarrow> nat \<Rightarrow> (byte list \<times> message) option) \<Rightarrow> message \<Rightarrow> nat list \<Rightarrow> (byte list \<times> message) option" where
  "emit_each f m [] = Some ([], m)"
| "emit_each f m (i # is) = do { (t, m) \<leftarrow> f m i; (u, m) \<leftarrow> emit_each f m is; Some (t @ u, m) }"

definition each_item :: "(message \<Rightarrow> ptr \<Rightarrow> (byte list \<times> message) option) \<Rightarrow> ptr \<Rightarrow> message \<Rightarrow> nat \<Rightarrow> (byte list \<times> message) option" where
  "each_item f list m i = do {
     (r, m, item) \<leftarrow> capnp_list_getp m list i ptr0;
     if r \<noteq> CAPNP_OK then Some ([], m) else f m item }"

text \<open>The type of a slot: the struct at pointer 2 and its tag.\<close>

definition field_type :: "message \<Rightarrow> ptr \<Rightarrow> (message \<times> (ptr \<times> u16) option) option" where
  "field_type m f = do {
     (r, m, typ) \<leftarrow> capnp_getp m f 2 ptr0;
     if r \<noteq> CAPNP_OK \<or> p_kind typ \<noteq> PK_STRUCT then Some (m, None)
     else do { tw \<leftarrow> capnp_get_u16 m typ 0 0xffff; Some (m, Some (typ, tw)) } }"

text \<open>The name of a field in a buffer of 128 bytes.\<close>

definition field_name :: "message \<Rightarrow> ptr \<Rightarrow> (message \<times> byte list) option" where
  "field_name m f = do { (m, t) \<leftarrow> get_text m f 0; fname \<leftarrow> janet_field_ident t 128; Some (m, fname) }"

section \<open>Group initialisers\<close>

definition set_line :: "string \<Rightarrow> u32 \<Rightarrow> string \<Rightarrow> byte list" where
  "set_line acc offset val = ln [c_str ''  (capnp/'', c_str acc, c_str '' ptr '', dec (unat offset), [32], c_str val, c_str '')'']"

definition clear_line :: "u16 \<Rightarrow> u32 \<Rightarrow> byte list" where
  "clear_line tw offset =
     (if tw = TYPE_BOOL then set_line ''set-bool'' offset ''false''
      else if tw = TYPE_INT8 then set_line ''set-i8'' offset ''0''
      else if tw = TYPE_UINT8 then set_line ''set-u8'' offset ''0''
      else if tw = TYPE_INT16 then set_line ''set-i16'' (scalar_byte_offset tw offset) ''0''
      else if tw = TYPE_UINT16 \<or> tw = TYPE_ENUM then set_line ''set-u16'' (scalar_byte_offset tw offset) ''0''
      else if tw = TYPE_INT32 then set_line ''set-i32'' (scalar_byte_offset tw offset) ''0''
      else if tw = TYPE_UINT32 then set_line ''set-u32'' (scalar_byte_offset tw offset) ''0''
      else if tw = TYPE_INT64 then set_line ''set-i64'' (scalar_byte_offset tw offset) ''0''
      else if tw = TYPE_UINT64 then set_line ''set-u64'' (scalar_byte_offset tw offset) ''0''
      else if tw = TYPE_FLOAT32 then set_line ''set-f32'' (scalar_byte_offset tw offset) ''0''
      else if tw = TYPE_FLOAT64 then set_line ''set-f64'' (scalar_byte_offset tw offset) ''0''
      else if tw = TYPE_TEXT \<or> tw = TYPE_DATA \<or> tw = TYPE_LIST \<or> tw = TYPE_STRUCT \<or> tw = TYPE_INTERFACE \<or>
              tw = TYPE_ANY_POINTER
      then ln [c_str ''  (capnp/clear-pointer ptr '', dec (unat offset), c_str '')'']
      else [])"

text \<open>One field of a group; \<open>rec\<close> is the call for a nested group.\<close>

definition clear_field ::
    "(message \<Rightarrow> u64 \<Rightarrow> (byte list \<times> message) option) \<Rightarrow> message \<Rightarrow> ptr \<Rightarrow> (byte list \<times> message) option" where
  "clear_field rec m field = do {
     field_which \<leftarrow> capnp_get_u16 m field 8 0xffff;
     if field_which = FIELD_GROUP then do { gid \<leftarrow> capnp_get_u64 m field 16 0; rec m gid }
     else if field_which \<noteq> FIELD_SLOT then Some ([], m)
     else do {
       (m, typ) \<leftarrow> field_type m field;
       case typ of None \<Rightarrow> Some ([], m)
       | Some (_, tw) \<Rightarrow> do { offset \<leftarrow> capnp_get_u32 m field 4 0; Some (clear_line tw offset, m) } } }"

definition clear_fields ::
    "(message \<Rightarrow> u64 \<Rightarrow> (byte list \<times> message) option) \<Rightarrow> message \<Rightarrow> ptr \<Rightarrow> (byte list \<times> message) option" where
  "clear_fields rec m grp = do {
     (r, m, fields) \<leftarrow> capnp_getp m grp 3 ptr0;
     if r \<noteq> CAPNP_OK \<or> p_kind fields \<noteq> PK_LIST then Some ([], m)
     else emit_each (each_item (clear_field rec) fields) m [0..<capnp_list_len fields] }"

definition clear_step ::
    "(message \<Rightarrow> u64 \<Rightarrow> (byte list \<times> message) option) \<Rightarrow> ptr \<Rightarrow> message \<Rightarrow> u64 \<Rightarrow> (byte list \<times> message) option" where
  "clear_step rec nodes m group_id = do {
     (m, grp) \<leftarrow> node_by_id m nodes group_id;
     case grp of None \<Rightarrow> Some ([], m) | Some grp \<Rightarrow> clear_fields rec m grp }"

text \<open>
  \<open>emit_group_clear\<close> calls itself on the group a field names, which may be the group itself. Every
  level resolves a pointer and so spends budget: \<open>clear_group\<close> with more levels than the budget
  left is the recursion of the code. \<open>leaf\<close> is what a call with no level left would give; with more
  levels than budget that call is never made, so the result does not depend on \<open>leaf\<close>, and it is
  not None when the nodes are inside the message (\<open>group_clear_returns\<close> in theory \<open>GenClaims\<close>).
\<close>

type_synonym group_call = "message \<Rightarrow> u64 \<Rightarrow> (byte list \<times> message) option"

primrec clear_group :: "group_call \<Rightarrow> nat \<Rightarrow> ptr \<Rightarrow> group_call" where
  "clear_group leaf 0 nodes = leaf"
| "clear_group leaf (Suc n) nodes = clear_step (clear_group leaf n nodes) nodes"

abbreviation no_group :: group_call where
  "no_group \<equiv> \<lambda>m group_id. None"

definition emit_group_clear :: "message \<Rightarrow> ptr \<Rightarrow> u64 \<Rightarrow> (byte list \<times> message) option" where
  "emit_group_clear m nodes group_id = clear_group no_group (Suc (traversal_left m)) nodes m group_id"

section \<open>Interfaces and enums\<close>

definition emit_method :: "ptr \<Rightarrow> ptr \<Rightarrow> message \<Rightarrow> nat \<Rightarrow> (byte list \<times> message) option" where
  "emit_method nodes methods m i =
     (case capnp_list_get_struct methods i ptr0 of (r, meth) \<Rightarrow>
        if r \<noteq> CAPNP_OK then Some ([], m) else do {
          (m, mname) \<leftarrow> get_text m meth 0;
          params \<leftarrow> capnp_get_u64 m meth 8 0;
          (m, pdw, ppw) \<leftarrow> struct_shape m nodes params;
          results \<leftarrow> capnp_get_u64 m meth 16 0;
          (m, rdw, rpw) \<leftarrow> struct_shape m nodes results;
          Some ([10] @ concat [c_str ''   :'', mname, c_str '' {:ordinal '', dec i, c_str '' :params-dwords '', dec pdw,
            c_str '' :params-pwords '', dec ppw, c_str '' :results-dwords '', dec rdw, c_str '' :results-pwords '', dec rpw,
            c_str ''}''], m) })"

definition emit_interface :: "message \<Rightarrow> ptr \<Rightarrow> ptr \<Rightarrow> (byte list \<times> message) option" where
  "emit_interface m node nodes = do {
     which \<leftarrow> capnp_get_u16 m node 12 0xffff;
     if which \<noteq> NODE_IFACE then Some ([], m) else do {
     (m, display) \<leftarrow> get_text m node 0;
     iname \<leftarrow> type_short_name display 256;
     nid \<leftarrow> capnp_get_u64 m node 0 0;
     let head = [10] @ ln [c_str ''# Interface '', iname] @
       ln [c_str ''(def '', iname, c_str ''-interface-id (int/u64 '', [34], c_str ''0x'', hex16 (unat nid), [34], c_str ''))''];
     (r, m, methods) \<leftarrow> capnp_getp m node 3 ptr0;
     if r \<noteq> CAPNP_OK \<or> capnp_list_len methods = 0 then Some (head, m) else do {
     (body, m) \<leftarrow> emit_each (emit_method nodes methods) m [0..<capnp_list_len methods];
     Some (head @ ln [c_str ''(def '', iname, c_str ''-methods''] @ c_str ''  {'' @ body @ ln [c_str ''})''], m) } } }"

definition emit_enumerant :: "ptr \<Rightarrow> message \<Rightarrow> nat \<Rightarrow> (byte list \<times> message) option" where
  "emit_enumerant enumerants m i =
     each_item (\<lambda>m e. do {
       (m, t) \<leftarrow> get_text m e 0;
       en \<leftarrow> janet_ident t 128;
       Some ([10] @ concat [c_str ''    :'', en, [32], dec i], m) }) enumerants m i"

definition emit_enum :: "message \<Rightarrow> ptr \<Rightarrow> (byte list \<times> message) option" where
  "emit_enum m node = do {
     which \<leftarrow> capnp_get_u16 m node 12 0xffff;
     if which \<noteq> NODE_ENUM then Some ([], m) else do {
     (m, display) \<leftarrow> get_text m node 0;
     ename \<leftarrow> type_short_name display 256;
     (r, m, enumerants) \<leftarrow> capnp_getp m node 3 ptr0;
     if r \<noteq> CAPNP_OK \<or> p_kind enumerants \<noteq> PK_LIST then Some ([], m) else do {
     (body, m) \<leftarrow> emit_each (emit_enumerant enumerants) m [0..<capnp_list_len enumerants];
     Some ([10] @ ln [c_str ''# enum '', ename] @ ln [c_str ''(def '', ename] @ c_str ''  @'' @ c_str ''{'' @ body @ ln [c_str ''})''], m) } } }"

end
