(* ===== verification/GenModule.thy ===== *)
theory GenModule
  imports GenEmit
begin

text \<open>
  The struct accessors \<open>app/capnpc_janet.c\<close> generates (\<open>emit_struct\<close>), the module of a file
  (\<open>write_module\<close>), the reading of the request and \<open>main\<close>.
\<close>

section \<open>Parts of a struct\<close>

text \<open>\<open>discriminantValue\<close>, stored inverted; \<open>0xffff\<close> for a field outside the union.\<close>

definition discriminant :: "message \<Rightarrow> ptr \<Rightarrow> u16 option" where
  "discriminant m f = map_option (\<lambda>x. x XOR 0xffff) (capnp_get_u16 m f 2 0)"

definition emit_tag :: "byte list \<Rightarrow> message \<Rightarrow> ptr \<Rightarrow> (byte list \<times> message) option" where
  "emit_tag sname m f = do {
     d \<leftarrow> discriminant m f;
     if d = 0xffff then Some ([], m) else do {
     (m, fname) \<leftarrow> field_name m f;
     Some (ln [c_str ''(def '', sname, [45], fname, c_str ''-tag '', dec (unat d), c_str '')''], m) } }"

definition emit_entry :: "message \<Rightarrow> ptr \<Rightarrow> (byte list \<times> message) option" where
  "emit_entry m f = do {
     (m, fname) \<leftarrow> field_name m f;
     fwhich \<leftarrow> capnp_get_u16 m f 8 0xffff;
     if fwhich = FIELD_GROUP then Some ([10] @ concat [c_str ''    :'', fname, c_str '' @'', c_str ''{:type :group}''], m)
     else if fwhich \<noteq> FIELD_SLOT then Some ([], m) else do {
     offset \<leftarrow> capnp_get_u32 m f 4 0;
     (m, typ) \<leftarrow> field_type m f;
     let tw = (case typ of None \<Rightarrow> 0xffff | Some (_, tw) \<Rightarrow> tw);
     Some ([10] @ concat [c_str ''    :'', fname, c_str '' @'', c_str ''{:offset '', dec (unat offset), c_str '' :type :'',
       c_str (type_kw tw), c_str ''}''], m) } }"

definition emit_union_select :: "byte list \<Rightarrow> byte list \<Rightarrow> bool \<Rightarrow> byte list" where
  "emit_union_select sname fname is_union_member =
     (if is_union_member
      then ln [c_str ''  (capnp/set-u16 ptr '', sname, c_str ''-discriminant-byte '', sname, [45], fname, c_str ''-tag)'']
      else [])"

section \<open>Builder accessors\<close>

text \<open>A generated function: its head, the selection of its union member, its last line.\<close>

definition defn :: "byte list \<Rightarrow> string \<Rightarrow> byte list \<Rightarrow> string \<Rightarrow> bool \<Rightarrow> byte list list \<Rightarrow> byte list" where
  "defn sname verb fname args is_union_member body =
     ln [c_str ''(defn '', sname, c_str verb, fname, c_str args] @ emit_union_select sname fname is_union_member @
     ln ([c_str ''  ''] @ body)"

definition scalar_setter :: "byte list \<Rightarrow> byte list \<Rightarrow> bool \<Rightarrow> u16 \<Rightarrow> u32 \<Rightarrow> byte list \<Rightarrow> byte list option" where
  "scalar_setter sname fname is_union_member tw offset dflt =
     map_option (\<lambda>setter.
       let wire_offset = (if tw = TYPE_BOOL then offset else scalar_byte_offset tw offset) in
       defn sname ''-set-'' fname '' [ptr value]'' is_union_member
         [c_str ''(capnp/'', c_str setter, c_str '' ptr '', dec (unat wire_offset), c_str '' value '', dflt, c_str ''))''])
       (setter_name tw)"

definition list_setter ::
    "ptr \<Rightarrow> message \<Rightarrow> ptr \<Rightarrow> byte list \<Rightarrow> byte list \<Rightarrow> bool \<Rightarrow> u32 \<Rightarrow> (byte list \<times> message) option" where
  "list_setter nodes m typ sname fname is_union_member offset = do {
     (r, m, element_type) \<leftarrow> capnp_getp m typ 0 ptr0;
     element_which \<leftarrow> (if r = CAPNP_OK \<and> p_kind element_type = PK_STRUCT
                       then capnp_get_u16 m element_type 0 0xffff else Some 0xffff);
     if element_which = TYPE_STRUCT then do {
       child \<leftarrow> capnp_get_u64 m element_type 8 0;
       (m, dw, pw) \<leftarrow> struct_shape m nodes child;
       Some (defn sname ''-init-'' fname '' [ptr count]'' is_union_member
         [c_str ''(capnp/init-struct-list ptr '', dec (unat offset), c_str '' count '', dec dw, [32], dec pw, c_str ''))''], m) }
     else (case list_accessor_suffix element_which of None \<Rightarrow> Some ([], m)
       | Some list_suffix \<Rightarrow>
           Some (if element_which = TYPE_VOID
             then defn sname ''-set-'' fname '' [ptr count]'' is_union_member
               [c_str ''(capnp/set-list-void ptr '', dec (unat offset), c_str '' count))'']
             else defn sname ''-set-'' fname '' [ptr values]'' is_union_member
               [c_str ''(capnp/set-list-'', c_str list_suffix, c_str '' ptr '', dec (unat offset), c_str '' values))''], m)) }"

definition slot_setter ::
    "ptr \<Rightarrow> message \<Rightarrow> ptr \<Rightarrow> byte list \<Rightarrow> byte list \<Rightarrow> bool \<Rightarrow> u16 \<Rightarrow> u32 \<Rightarrow> byte list \<Rightarrow> (byte list \<times> message) option" where
  "slot_setter nodes m typ sname fname is_union_member tw offset dflt =
     (case scalar_setter sname fname is_union_member tw offset dflt of Some t \<Rightarrow> Some (t, m)
      | None \<Rightarrow>
          if tw = TYPE_VOID then Some (defn sname ''-set-'' fname '' [ptr]'' is_union_member [c_str ''ptr)''], m)
          else if tw = TYPE_TEXT then Some (defn sname ''-set-'' fname '' [ptr value]'' is_union_member
            [c_str ''(capnp/set-text ptr '', dec (unat offset), c_str '' value))''], m)
          else if tw = TYPE_DATA then Some (defn sname ''-set-'' fname '' [ptr value]'' is_union_member
            [c_str ''(capnp/set-data ptr '', dec (unat offset), c_str '' value))''], m)
          else if tw = TYPE_STRUCT then do {
            child \<leftarrow> capnp_get_u64 m typ 8 0;
            (m, dw, pw) \<leftarrow> struct_shape m nodes child;
            Some (defn sname ''-init-'' fname '' [ptr]'' is_union_member
              [c_str ''(capnp/init-struct ptr '', dec (unat offset), [32], dec dw, [32], dec pw, c_str ''))''], m) }
          else if tw = TYPE_LIST then list_setter nodes m typ sname fname is_union_member offset
          else Some ([], m))"

definition emit_setter ::
    "ptr \<Rightarrow> byte list \<Rightarrow> u16 \<Rightarrow> message \<Rightarrow> ptr \<Rightarrow> (byte list \<times> message) option" where
  "emit_setter nodes sname discriminant_count m f = do {
     (m, fname) \<leftarrow> field_name m f;
     fwhich \<leftarrow> capnp_get_u16 m f 8 0xffff;
     d \<leftarrow> discriminant m f;
     let is_union_member = discriminant_count > 0 \<and> d \<noteq> 0xffff;
     if fwhich = FIELD_GROUP then do {
       gid \<leftarrow> capnp_get_u64 m f 16 0;
       (body, m) \<leftarrow> emit_group_clear m nodes gid;
       Some (ln [c_str ''(defn '', sname, c_str ''-init-'', fname, c_str '' [ptr]''] @
         emit_union_select sname fname is_union_member @ body @ ln [c_str ''  ptr)''], m) }
     else if fwhich \<noteq> FIELD_SLOT then Some ([], m) else do {
     (m, typ) \<leftarrow> field_type m f;
     case typ of None \<Rightarrow> Some ([], m)
     | Some (typ, tw) \<Rightarrow> do {
         offset \<leftarrow> capnp_get_u32 m f 4 0;
         (m, dflt) \<leftarrow> scalar_default_literal m f tw 96;
         slot_setter nodes m typ sname fname is_union_member tw offset dflt } } }"

section \<open>Readers\<close>

definition getter :: "byte list \<Rightarrow> byte list \<Rightarrow> byte list list \<Rightarrow> byte list" where
  "getter sname fname body = ln [c_str ''(defn '', sname, c_str ''-get-'', fname, c_str '' [ptr]''] @ ln ([c_str ''  ''] @ body)"

definition scalar_call :: "string \<Rightarrow> u32 \<Rightarrow> byte list \<Rightarrow> byte list list" where
  "scalar_call acc offset dflt = [c_str ''(capnp/'', c_str acc, c_str '' ptr '', dec (unat offset), [32], dflt, c_str ''))'']"

definition scalar_getter :: "byte list \<Rightarrow> byte list \<Rightarrow> u16 \<Rightarrow> u32 \<Rightarrow> byte list \<Rightarrow> byte list option" where
  "scalar_getter sname fname tw offset dflt =
     map_option (getter sname fname)
      (if tw = TYPE_BOOL then Some (scalar_call ''get-bool'' offset dflt)
       else if tw = TYPE_INT8 then Some (scalar_call ''get-i8'' offset dflt)
       else if tw = TYPE_UINT8 then Some (scalar_call ''get-u8'' offset dflt)
       else if tw = TYPE_INT16 then Some (scalar_call ''get-i16'' (offset * 2) dflt)
       else if tw = TYPE_UINT16 \<or> tw = TYPE_ENUM then Some (scalar_call ''get-u16'' (offset * 2) dflt)
       else if tw = TYPE_INT32 then Some (scalar_call ''get-i32'' (offset * 4) dflt)
       else if tw = TYPE_UINT32 then Some (scalar_call ''get-u32'' (offset * 4) dflt)
       else if tw = TYPE_INT64 then Some (scalar_call ''get-i64'' (offset * 8) dflt)
       else if tw = TYPE_UINT64 then Some (scalar_call ''get-u64'' (offset * 8) dflt)
       else if tw = TYPE_FLOAT32 then Some (scalar_call ''get-f32'' (offset * 4) dflt)
       else if tw = TYPE_FLOAT64 then Some (scalar_call ''get-f64'' (offset * 8) dflt)
       else None)"

definition list_getter :: "message \<Rightarrow> ptr \<Rightarrow> byte list \<Rightarrow> byte list \<Rightarrow> u32 \<Rightarrow> (byte list \<times> message) option" where
  "list_getter m typ sname fname offset = do {
     (r, m, element_type) \<leftarrow> capnp_getp m typ 0 ptr0;
     element_which \<leftarrow> (if r = CAPNP_OK \<and> p_kind element_type = PK_STRUCT
                       then capnp_get_u16 m element_type 0 0xffff else Some 0xffff);
     Some (getter sname fname [c_str ''(capnp/getp ptr '', dec (unat offset), c_str ''))''] @
       (case list_accessor_suffix element_which of None \<Rightarrow> []
        | Some list_suffix \<Rightarrow>
            if element_which = TYPE_VOID then []
            else ln [c_str ''(defn '', sname, c_str ''-get-'', fname, c_str ''-at [list index]''] @
              ln [c_str ''  (capnp/list-get-'', c_str list_suffix, c_str '' list index))'']), m) }"

definition slot_getter ::
    "message \<Rightarrow> ptr \<Rightarrow> byte list \<Rightarrow> byte list \<Rightarrow> u16 \<Rightarrow> u32 \<Rightarrow> byte list \<Rightarrow> (byte list \<times> message) option" where
  "slot_getter m typ sname fname tw offset dflt =
     (case scalar_getter sname fname tw offset dflt of Some t \<Rightarrow> Some (t, m)
      | None \<Rightarrow>
          if tw = TYPE_TEXT then Some (getter sname fname [c_str ''(capnp/get-text ptr '', dec (unat offset), c_str ''))''], m)
          else if tw = TYPE_DATA then Some (getter sname fname [c_str ''(capnp/get-data ptr '', dec (unat offset), c_str ''))''], m)
          else if tw = TYPE_LIST then list_getter m typ sname fname offset
          else if tw = TYPE_STRUCT then Some (getter sname fname [c_str ''(capnp/getp ptr '', dec (unat offset), c_str ''))''], m)
          else Some ([], m))"

definition emit_getter :: "ptr \<Rightarrow> byte list \<Rightarrow> message \<Rightarrow> ptr \<Rightarrow> (byte list \<times> message) option" where
  "emit_getter nodes sname m f = do {
     (m, fname) \<leftarrow> field_name m f;
     fwhich \<leftarrow> capnp_get_u16 m f 8 0xffff;
     if fwhich = FIELD_GROUP then do {
       group_id \<leftarrow> capnp_get_u64 m f 16 0;
       (m, group_name) \<leftarrow> node_type_name m nodes group_id 256;
       Some (case group_name of None \<Rightarrow> []
         | Some _ \<Rightarrow> ln [c_str ''(defn '', sname, [45], fname, c_str '' [ptr]''] @ ln [c_str ''  ptr)''], m) }
     else if fwhich \<noteq> FIELD_SLOT then Some ([], m) else do {
     offset \<leftarrow> capnp_get_u32 m f 4 0;
     (m, typ) \<leftarrow> field_type m f;
     let (typ, tw) = (case typ of None \<Rightarrow> (ptr0, 0xffff) | Some x \<Rightarrow> x);
     (m, dflt) \<leftarrow> scalar_default_literal m f tw 96;
     slot_getter m typ sname fname tw offset dflt } }"

section \<open>Structs\<close>

definition emit_struct :: "message \<Rightarrow> ptr \<Rightarrow> ptr \<Rightarrow> (byte list \<times> message) option" where
  "emit_struct m node nodes = do {
     which \<leftarrow> capnp_get_u16 m node 12 0xffff;
     if which \<noteq> NODE_STRUCT then Some ([], m) else do {
     (m, display) \<leftarrow> get_text m node 0;
     sname \<leftarrow> type_short_name display 256;
     dwords \<leftarrow> capnp_get_u16 m node 14 0;
     pwords \<leftarrow> capnp_get_u16 m node 24 0;
     discriminant_count \<leftarrow> capnp_get_u16 m node 30 0;
     discriminant_byte \<leftarrow> map_option (\<lambda>x. x * 2) (capnp_get_u32 m node 32 0);
     let head = [10] @ ln [c_str ''# struct '', sname] @
       ln [c_str ''(def '', sname, c_str ''-data-words '', dec (unat dwords), c_str '')''] @
       ln [c_str ''(def '', sname, c_str ''-pointer-words '', dec (unat pwords), c_str '')''];
     (r, m, fields) \<leftarrow> capnp_getp m node 3 ptr0;
     if r \<noteq> CAPNP_OK \<or> p_kind fields \<noteq> PK_LIST then Some (head, m) else do {
     let each = (\<lambda>f m. emit_each (each_item f fields) m [0..<capnp_list_len fields]);
     (tags, m) \<leftarrow> (if discriminant_count > 0 then do {
         (tags, m) \<leftarrow> each (emit_tag sname) m;
         Some (ln [c_str ''(def '', sname, c_str ''-discriminant-byte '', dec (unat discriminant_byte), c_str '')''] @
           ln [c_str ''(defn '', sname, c_str ''-which [ptr]''] @
           ln [c_str ''  (capnp/get-u16 ptr '', dec (unat discriminant_byte), c_str ''))''] @ tags, m) }
       else Some ([], m));
     (entries, m) \<leftarrow> each emit_entry m;
     is_group \<leftarrow> capnp_get_bool m node 224 0;
     let init = (if is_group \<noteq> 0 then []
       else ln [c_str ''(defn '', sname, c_str ''-init-root [builder]''] @
         ln [c_str ''  (capnp/init-root builder '', sname, c_str ''-data-words '', sname, c_str ''-pointer-words))'']);
     (setters, m) \<leftarrow> each (emit_setter nodes sname discriminant_count) m;
     (getters, m) \<leftarrow> each (emit_getter nodes sname) m;
     Some (head @ tags @ ln [c_str ''(def '', sname, c_str ''-fields''] @ c_str ''  @'' @ c_str ''{'' @ entries @ ln [c_str ''})''] @
       init @ setters @ getters, m) } } }"

section \<open>Modules\<close>

definition emit_node :: "ptr \<Rightarrow> message \<Rightarrow> ptr \<Rightarrow> (byte list \<times> message) option" where
  "emit_node nodes m node = do {
     scope \<leftarrow> capnp_get_u64 m node 16 0;
     which \<leftarrow> capnp_get_u16 m node 12 0xffff;
     if which = NODE_FILE then Some ([], m)
     else if which = NODE_STRUCT then emit_struct m node nodes
     else if which = NODE_ENUM then emit_enum m node
     else if which = NODE_IFACE then emit_interface m node nodes
     else Some ([], m) }"

text \<open>\<open>can_open\<close> says for which paths \<open>fopen(.., "w")\<close> succeeds. The result is the path and the
  content of the file, \<open>None\<close> inside when it cannot be opened.\<close>

definition out_path :: "byte list \<Rightarrow> byte list" where
  "out_path filename = snprintf 512 (stem_name filename 256 @ c_str ''.janet'')"

definition write_module ::
    "(byte list \<Rightarrow> bool) \<Rightarrow> message \<Rightarrow> byte list \<Rightarrow> ptr \<Rightarrow> u64 \<Rightarrow> ((byte list \<times> byte list) option \<times> message) option" where
  "write_module can_open m filename nodes file_id =
     (if \<not> can_open (out_path filename) then Some (None, m) else do {
      (body, m) \<leftarrow> emit_each (each_item (emit_node nodes) nodes) m [0..<capnp_list_len nodes];
      Some (Some (out_path filename,
        ln [c_str ''# Generated by capnpc-janet from '', filename, [32, 0xE2, 0x80, 0x94, 32], c_str ''do not edit by hand.''] @
        ln [c_str ''# Requires the capnp/ Janet module (capnp-janet runtime).''] @ [10] @
        ln [c_str ''(import capnp)''] @ [10] @
        ln [c_str ''(def file-id (int/u64 '', [34], c_str ''0x'', hex (unat file_id), [34], c_str ''))''] @ body), m) })"

section \<open>Reading the request\<close>

text \<open>
  The loop of \<open>read_all_stdin\<close>: \<open>inp\<close> is what is left of standard input, \<open>buf\<close> the allocated
  object and \<open>n\<close> the bytes in it. \<open>fread\<close> may write 4096 bytes at \<open>n\<close>; a buffer without that much
  room is undefined behaviour. The result is \<open>None\<close> inside when the memory runs out.
\<close>

function read_loop :: "allocator \<Rightarrow> byte list \<Rightarrow> nat \<Rightarrow> byte list \<Rightarrow> byte list option option" where
  "read_loop A buf n inp =
     (case (if n + 4096 > length buf then c_realloc A buf (2 * length buf) else Some buf) of
        None \<Rightarrow> Some None
      | Some buf \<Rightarrow>
          if n + 4096 > length buf then None else do {
            buf \<leftarrow> wr buf n (take 4096 inp);
            let n = n + length (take 4096 inp);
            if length (take 4096 inp) < 4096 then Some (Some (take n buf))
            else read_loop A buf n (drop 4096 inp) })"
  by pat_completeness auto

termination
  by (relation "measure (\<lambda>(A, buf, n, inp). length inp)") (auto simp: min_def split: if_splits)

definition read_all_stdin :: "allocator \<Rightarrow> byte list \<Rightarrow> byte list option option" where
  "read_all_stdin A inp = (case c_malloc A 4096 of None \<Rightarrow> Some None | Some buf \<Rightarrow> read_loop A buf 0 inp)"

section \<open>The program\<close>

text \<open>The loop over the requested files; the result is the exit code and the files written.\<close>

fun write_modules ::
    "(byte list \<Rightarrow> bool) \<Rightarrow> message \<Rightarrow> ptr \<Rightarrow> ptr \<Rightarrow> nat list \<Rightarrow> (nat \<times> (byte list \<times> byte list) list) option" where
  "write_modules can_open m nodes req_files [] = Some (0, [])"
| "write_modules can_open m nodes req_files (i # is) = do {
     (r, m, rf) \<leftarrow> capnp_list_getp m req_files i ptr0;
     if r \<noteq> CAPNP_OK then write_modules can_open m nodes req_files is else do {
     file_id \<leftarrow> capnp_get_u64 m rf 0 0;
     (m, filename) \<leftarrow> get_text m rf 0;
     (out, m) \<leftarrow> write_module can_open m (if filename = [] then c_str ''schema'' else filename) nodes file_id;
     case out of None \<Rightarrow> Some (1, [])
     | Some file \<Rightarrow> do { (code, files) \<leftarrow> write_modules can_open m nodes req_files is; Some (code, file # files) } } }"

definition capnpc_main :: "allocator \<Rightarrow> (byte list \<Rightarrow> bool) \<Rightarrow> byte list \<Rightarrow> (nat \<times> (byte list \<times> byte list) list) option" where
  "capnpc_main A can_open inp = do {
     buf \<leftarrow> read_all_stdin A inp;
     case buf of None \<Rightarrow> Some (1, []) | Some buf \<Rightarrow>
     if length buf = 0 then Some (1, []) else do {
     (r, m) \<leftarrow> capnp_message_from_flat A buf;
     if r \<noteq> CAPNP_OK then Some (1, []) else do {
     (r, m, root) \<leftarrow> capnp_root m ptr0;
     if r \<noteq> CAPNP_OK then Some (1, []) else do {
     (r, m, nodes) \<leftarrow> capnp_getp m root 0 ptr0;
     if r \<noteq> CAPNP_OK \<or> p_kind nodes \<noteq> PK_LIST then Some (1, []) else do {
     (r, m, req_files) \<leftarrow> capnp_getp m root 1 ptr0;
     if r \<noteq> CAPNP_OK \<or> p_kind req_files \<noteq> PK_LIST then Some (1, [])
     else if capnp_list_len req_files = 0 then Some (1, [])
     else write_modules can_open m nodes req_files [0..<capnp_list_len req_files] } } } } }"

end
