(* ===== verification/GenBudget.thy ===== *)
theory GenBudget
  imports GenModule Budget
begin

text \<open>
  The traversal budget never grows, and following a pointer to a list spends some of it: the reason
  why \<open>emit_group_clear\<close> of \<open>app/capnpc_janet.c\<close> returns on every schema, also when a group names
  itself.
\<close>

section \<open>Printing\<close>

definition falls :: "nat \<Rightarrow> (message \<times> 'a) option \<Rightarrow> bool" where
  "falls n R \<longleftrightarrow> (\<forall>m x. R = Some (m, x) \<longrightarrow> traversal_left m \<le> n)"

definition prints :: "nat \<Rightarrow> (byte list \<times> message) option \<Rightarrow> bool" where
  "prints n R \<longleftrightarrow> (\<forall>t m. R = Some (t, m) \<longrightarrow> traversal_left m \<le> n)"

lemma falls_simps [simp]: "falls n None" "falls n (Some (m, x)) = (traversal_left m \<le> n)"
  "prints n None" "prints n (Some (t, m)) = (traversal_left m \<le> n)"
  by (simp_all add: falls_def prints_def)

lemma falls_mono: "falls k R \<Longrightarrow> k \<le> n \<Longrightarrow> falls n R" "prints k S \<Longrightarrow> k \<le> n \<Longrightarrow> prints n S"
  by (force simp: falls_def prints_def)+

text \<open>Binds: after a resolution, a search, a read and a printed part.\<close>

lemma falls_binds:
  "\<lbrakk>within k R; \<And>r m x. R = Some (r, m, x) \<Longrightarrow> traversal_left m \<le> k \<Longrightarrow> falls n (F (r, m, x))\<rbrakk> \<Longrightarrow> falls n (R \<bind> F)"
  "(\<And>v. V = Some v \<Longrightarrow> falls n (G v)) \<Longrightarrow> falls n (V \<bind> G)"
  by (cases R; simp add: within_def; force) (cases V; simp)

lemma prints_binds:
  "\<lbrakk>within k R; \<And>r m x. R = Some (r, m, x) \<Longrightarrow> traversal_left m \<le> k \<Longrightarrow> prints n (F (r, m, x))\<rbrakk> \<Longrightarrow> prints n (R \<bind> F)"
  "\<lbrakk>falls k T; \<And>m x. T = Some (m, x) \<Longrightarrow> traversal_left m \<le> k \<Longrightarrow> prints n (H (m, x))\<rbrakk> \<Longrightarrow> prints n (T \<bind> H)"
  "\<lbrakk>prints k S; \<And>t m. S = Some (t, m) \<Longrightarrow> traversal_left m \<le> k \<Longrightarrow> prints n (J (t, m))\<rbrakk> \<Longrightarrow> prints n (S \<bind> J)"
  "(\<And>v. V = Some v \<Longrightarrow> prints n (G v)) \<Longrightarrow> prints n (V \<bind> G)"
     apply (cases R; force simp: within_def)
    apply (cases T; force simp: falls_def)
   apply (cases S; force simp: prints_def)
  by (cases V; simp)

lemma falls_find_node: "falls (traversal_left m) (find_node m nodes key is)"
proof (induction "is" arbitrary: m)
  case (Cons i "is")
  have step: "falls (traversal_left m) (find_node m1 nodes key is)" if "traversal_left m1 \<le> traversal_left m" for m1
    using Cons.IH that by (rule falls_mono)
  show ?case
    by (simp, rule falls_binds(1) [OF within_list_getp]) (auto intro!: falls_binds(2) step)
qed simp

lemma falls_field_type: "falls (traversal_left m) (field_type m f)"
  unfolding field_type_def by (rule falls_binds(1) [OF within_getp]) (auto intro!: falls_binds(2))

text \<open>A printing step that does not gain budget on messages with at most \<open>n\<close> left.\<close>

definition steady :: "nat \<Rightarrow> (message \<Rightarrow> 'a \<Rightarrow> (byte list \<times> message) option) \<Rightarrow> bool" where
  "steady n f \<longleftrightarrow> (\<forall>m x. traversal_left m \<le> n \<longrightarrow> prints (traversal_left m) (f m x))"

lemma steadyI: "(\<And>m x. traversal_left m \<le> n \<Longrightarrow> prints (traversal_left m) (f m x)) \<Longrightarrow> steady n f"
  and steadyD: "steady n f \<Longrightarrow> traversal_left m \<le> n \<Longrightarrow> prints (traversal_left m) (f m x)"
  by (simp_all add: steady_def)

lemma steady_prints: "steady n f \<Longrightarrow> traversal_left m \<le> k \<Longrightarrow> traversal_left m \<le> n \<Longrightarrow> prints k (f m x)"
  by (rule falls_mono(2) [OF steadyD])

lemma steady_each_item: "steady n f \<Longrightarrow> steady n (each_item f list)"
  unfolding each_item_def by (intro steadyI prints_binds(1) [OF within_list_getp]) (auto intro!: steady_prints [of n f])

lemma steady_emit_each: "steady n f \<Longrightarrow> steady n (emit_each f)"
proof (rule steadyI)
  fix m :: message and "is" assume f: "steady n f" and "traversal_left m \<le> n"
  then show "prints (traversal_left m) (emit_each f m is)"
  proof (induction "is" arbitrary: m)
    case (Cons i "is")
    show ?case
      by (simp, rule prints_binds(3) [OF steadyD [OF f Cons.prems(2)]])
        (use Cons in \<open>auto intro!: prints_binds(3) [OF falls_mono(2) [OF Cons.IH [OF f]]]\<close>)
  qed simp
qed

lemma steady_clear_field: "steady n rec \<Longrightarrow> steady n (clear_field rec)"
  unfolding clear_field_def
  by (rule steadyI) (auto intro!: prints_binds(4) prints_binds(2) [OF falls_field_type] steady_prints [of n rec] split: option.splits)

lemma steady_clear_fields:
  assumes "\<And>k. k < n \<Longrightarrow> steady k rec"
  shows "steady n (clear_fields rec)"
  unfolding clear_fields_def
proof (rule steadyI, rule prints_binds(1) [OF within_getp])
  fix m m2 :: message and grp r fields
  assume n: "traversal_left m \<le> n" and g: "capnp_getp m grp 3 ptr0 = Some (r, m2, fields)" and le: "traversal_left m2 \<le> traversal_left m"
  have "prints (traversal_left m) (emit_each (each_item (clear_field rec) fields) m2 [0..<capnp_list_len fields])"
    if "r = CAPNP_OK" "p_kind fields = PK_LIST"
  proof -
    have "traversal_left m2 < n" using getp_list_spends [OF g [unfolded that(1)] that(2)] n by simp
    then have "steady (traversal_left m2) rec" by (rule assms)
    then show ?thesis using le
      by (intro steady_prints [OF steady_emit_each [OF steady_each_item [OF steady_clear_field]], of "traversal_left m2"]) simp_all
  qed
  then show "prints (traversal_left m) (case (r, m2, fields) of (r, m, fields) \<Rightarrow>
      if r \<noteq> CAPNP_OK \<or> p_kind fields \<noteq> PK_LIST then Some ([], m)
      else emit_each (each_item (clear_field rec) fields) m [0..<capnp_list_len fields])"
    using le by simp
qed

lemma steady_clear_step:
  assumes "\<And>k. k < n \<Longrightarrow> steady k rec"
  shows "steady n (clear_step rec nodes)"
  unfolding clear_step_def node_by_id_def
  by (rule steadyI, rule prints_binds(2) [OF falls_find_node])
    (auto intro!: steady_prints [OF steady_clear_fields [OF assms]] split: option.splits)

lemma steady_clear_group: "(\<And>k. steady k leaf) \<Longrightarrow> steady k (clear_group leaf n nodes)"
  by (induction n arbitrary: k) (auto intro!: steady_clear_step)

lemma steady_no_group: "steady k no_group"
  by (simp add: steady_def)

section \<open>The depth of the recursion\<close>

lemma emit_each_cong:
  assumes "\<And>m i. traversal_left m \<le> n \<Longrightarrow> f m i = g m i" "steady n f" "traversal_left m \<le> n"
  shows "emit_each f m is = emit_each g m is"
  using assms(3)
proof (induction "is" arbitrary: m)
  case (Cons i "is")
  have "emit_each f m1 is = emit_each g m1 is" if "f m i = Some (t, m1)" for t m1
  proof (rule Cons.IH)
    show "traversal_left m1 \<le> n" using steadyD [OF assms(2) Cons.prems, of i] that Cons.prems by simp
  qed
  then show ?case using assms(1) [OF Cons.prems, of i] by (cases "g m i") auto
qed simp

lemma clear_field_cong:
  assumes "\<And>m g. traversal_left m \<le> n \<Longrightarrow> rec m g = rec' m g" "traversal_left m \<le> n"
  shows "clear_field rec m f = clear_field rec' m f"
  using assms by (simp add: clear_field_def cong: if_cong)

lemma each_item_cong:
  assumes "\<And>m x. traversal_left m \<le> n \<Longrightarrow> f m x = g m x" "traversal_left m \<le> n"
  shows "each_item f list m i = each_item g list m i"
proof (cases "capnp_list_getp m list i ptr0")
  case (Some x)
  obtain r m1 item where x: "x = (r, m1, item)" by (cases x)
  have "traversal_left m1 \<le> traversal_left m" using within_list_getp [of m list i ptr0] Some x by simp
  then show ?thesis using assms Some x by (simp add: each_item_def)
qed (simp add: each_item_def)

lemma clear_fields_cong:
  assumes "\<And>m' g. traversal_left m' < traversal_left m \<Longrightarrow> rec m' g = rec' m' g" "\<And>k. steady k rec"
  shows "clear_fields rec m grp = clear_fields rec' m grp"
proof -
  have "emit_each (each_item (clear_field rec) fields) m2 is = emit_each (each_item (clear_field rec') fields) m2 is"
    if "capnp_getp m grp 3 ptr0 = Some (CAPNP_OK, m2, fields)" "p_kind fields = PK_LIST" for m2 fields "is"
  proof -
    have lt: "traversal_left m2 < traversal_left m" by (rule getp_list_spends [OF that])
    have rec: "rec m' g = rec' m' g" if "traversal_left m' \<le> traversal_left m2" for m' g
      using assms(1) lt that by simp
    show ?thesis
      by (rule emit_each_cong [where n = "traversal_left m2"])
        (auto intro!: each_item_cong clear_field_cong rec steady_each_item steady_clear_field assms(2))
  qed
  then show ?thesis unfolding clear_fields_def by (intro Option.bind_cong refl) auto
qed

lemma clear_step_cong:
  assumes "\<And>m' g. traversal_left m' < traversal_left m \<Longrightarrow> rec m' g = rec' m' g" "\<And>k. steady k rec"
  shows "clear_step rec nodes m gid = clear_step rec' nodes m gid"
proof -
  have "clear_fields rec m1 grp = clear_fields rec' m1 grp"
    if "find_node m nodes gid [0..<capnp_list_len nodes] = Some (m1, Some grp)" for m1 grp
  proof (rule clear_fields_cong)
    have "traversal_left m1 \<le> traversal_left m"
      using falls_find_node [of m nodes gid "[0..<capnp_list_len nodes]"] unfolding that by simp
    then show "rec m' g = rec' m' g" if "traversal_left m' < traversal_left m1" for m' g using assms(1) that by simp
  qed (rule assms(2))
  then show ?thesis unfolding clear_step_def node_by_id_def
    by (intro Option.bind_cong refl) (auto split: option.splits)
qed

lemma clear_group_enough:
  assumes "traversal_left m < n" "traversal_left m < n'"
  shows "clear_group no_group n nodes m gid = clear_group leaf n' nodes m gid"
  using assms
proof (induction "traversal_left m" arbitrary: m gid n n' rule: less_induct)
  case less
  obtain k k' where n: "n = Suc k" "n' = Suc k'" using less.prems by (cases n; cases n') auto
  show ?case unfolding n clear_group.simps
  proof (rule clear_step_cong)
    fix m' :: message and g assume lt: "traversal_left m' < traversal_left m"
    show "clear_group no_group k nodes m' g = clear_group leaf k' nodes m' g"
      by (rule less.hyps [OF lt]) (use lt less.prems n in simp_all)
  qed (rule steady_clear_group [OF steady_no_group])
qed

section \<open>The recursion prints\<close>

text \<open>On nodes whose pointers stay inside the message each step reads what it needs and prints.\<close>

definition goes :: "message \<Rightarrow> nat \<Rightarrow> (message \<Rightarrow> 'a \<Rightarrow> (byte list \<times> message) option) \<Rightarrow> ('a \<Rightarrow> bool) \<Rightarrow> bool" where
  "goes m n f ok \<longleftrightarrow> (\<forall>t \<le> n. \<forall>x. ok x \<longrightarrow> (\<exists>s u. f (at m t) x = Some (s, at m u) \<and> u \<le> t))"

lemma goesI: "(\<And>t x. t \<le> n \<Longrightarrow> ok x \<Longrightarrow> \<exists>s u. f (at m t) x = Some (s, at m u) \<and> u \<le> t) \<Longrightarrow> goes m n f ok"
  and goesD: "goes m n f ok \<Longrightarrow> t \<le> n \<Longrightarrow> ok x \<Longrightarrow> \<exists>s u. f (at m t) x = Some (s, at m u) \<and> u \<le> t"
  and goes_mono: "goes m n f ok \<Longrightarrow> k \<le> n \<Longrightarrow> goes m k f ok"
  by (simp_all add: goes_def)

lemma item_read:
  assumes "wf_message m" "tracked m l"
  obtains r u q where "capnp_list_getp (at m t) l i ptr0 = Some (r, at m u, q)" "r = CAPNP_OK \<Longrightarrow> tracked m q" "u \<le> t"
  using list_getp_at [OF assms, of t i] within_list_getp [of "at m t" l i ptr0] by fastforce

lemma child_read:
  assumes "wf_message m" "tracked m s"
  obtains r u q where "capnp_getp (at m t) s i ptr0 = Some (r, at m u, q)" "r = CAPNP_OK \<Longrightarrow> tracked m q" "u \<le> t"
  using getp_at [OF assms, of t i] within_getp [of "at m t" s i ptr0] by fastforce

lemma scalar_read:
  assumes "wf_message m" "tracked m s"
  obtains v2 v4 v8 where "capnp_get_u16 (at m t) s off d2 = Some v2" "capnp_get_u32 (at m t) s off d4 = Some v4"
    "capnp_get_u64 (at m t) s off d8 = Some v8"
proof -
  have "wf_message (at m t)" "view_ok (at m t) s"
    using assms well_placed_view_ok [of "at m t" s] by (simp_all add: tracked_def)
  from getters_total(2-4) [OF this] that show thesis by blast
qed

lemma at_le [simp]: "(\<exists>u. at m t = at m u \<and> u \<le> n) = (t \<le> n)"
  by (auto dest: arg_cong [of _ _ traversal_left])

lemma goes_find_node:
  assumes "wf_message m" "tracked m nodes"
  shows "\<exists>u q. find_node (at m t) nodes key is = Some (at m u, q) \<and> u \<le> t \<and> (\<forall>p. q = Some p \<longrightarrow> tracked m p)"
proof (induction "is" arbitrary: t)
  case (Cons i "is")
  obtain r u q where q: "capnp_list_getp (at m t) nodes i ptr0 = Some (r, at m u, q)" "r = CAPNP_OK \<Longrightarrow> tracked m q" "u \<le> t"
    using item_read [OF assms, of t i] by blast
  note ih = Cons.IH [of u]
  show ?case
  proof (cases "r = CAPNP_OK")
    case True
    obtain v where "capnp_get_u64 (at m u) q 0 0 = Some v" by (rule scalar_read [OF assms(1) q(2) [OF True]])
    then show ?thesis using ih q True by (auto intro: order_trans)
  next
    case False
    then show ?thesis using ih q by (auto intro: order_trans)
  qed
qed simp

lemma goes_each:
  assumes f: "goes m n f (\<lambda>_. True)"
  shows "goes m n (emit_each f) (\<lambda>_. True)"
proof (rule goesI)
  fix t :: nat and "is" assume "t \<le> n"
  then show "\<exists>s u. emit_each f (at m t) is = Some (s, at m u) \<and> u \<le> t"
  proof (induction "is" arbitrary: t)
    case (Cons i "is")
    obtain s u where s: "f (at m t) i = Some (s, at m u)" "u \<le> t" using goesD [OF f Cons.prems] by blast
    then show ?case using Cons.IH [of u] Cons.prems by (fastforce intro: order_trans)
  qed simp
qed

lemma goes_item:
  assumes "wf_message m" "tracked m list" "goes m n f (tracked m)"
  shows "goes m n (each_item f list) (\<lambda>_. True)"
proof (rule goesI)
  fix t i assume t: "t \<le> n"
  obtain r u q where q: "capnp_list_getp (at m t) list i ptr0 = Some (r, at m u, q)" "r = CAPNP_OK \<Longrightarrow> tracked m q" "u \<le> t"
    using item_read [OF assms(1,2), of t i] by blast
  show "\<exists>s u. each_item f list (at m t) i = Some (s, at m u) \<and> u \<le> t"
    using q goesD [OF assms(3), of u q] t by (cases "r = CAPNP_OK") (force simp: each_item_def intro: order_trans)+
qed

lemma goes_field:
  assumes wf: "wf_message m" and rec: "goes m n rec (\<lambda>_. True)"
  shows "goes m n (clear_field rec) (tracked m)"
proof (rule goesI)
  fix t f assume t: "t \<le> n" and f: "tracked m f"
  obtain which where w: "capnp_get_u16 (at m t) f 8 0xffff = Some which" by (rule scalar_read [OF wf f])
  obtain gid where g: "capnp_get_u64 (at m t) f 16 0 = Some gid" by (rule scalar_read [OF wf f])
  obtain r u q where q: "capnp_getp (at m t) f 2 ptr0 = Some (r, at m u, q)" "r = CAPNP_OK \<Longrightarrow> tracked m q" "u \<le> t"
    using child_read [OF wf f, of t 2] by blast
  obtain offset where o1: "capnp_get_u32 (at m u) f 4 0 = Some offset" by (rule scalar_read [OF wf f])
  have "\<exists>v. capnp_get_u16 (at m u) q 0 0xffff = Some v" if "r = CAPNP_OK"
    using scalar_read [OF wf q(2) [OF that]] by metis
  then show "\<exists>s u. clear_field rec (at m t) f = Some (s, at m u) \<and> u \<le> t"
    using w g q(1,3) o1 goesD [OF rec t, of gid] by (auto simp: clear_field_def field_type_def)
qed

lemma goes_fields:
  assumes wf: "wf_message m" and grp: "tracked m grp" and rec: "\<And>k. k < t \<Longrightarrow> goes m k rec (\<lambda>_. True)"
  shows "\<exists>s u. clear_fields rec (at m t) grp = Some (s, at m u) \<and> u \<le> t"
proof -
  obtain r u fields where q: "capnp_getp (at m t) grp 3 ptr0 = Some (r, at m u, fields)" "r = CAPNP_OK \<Longrightarrow> tracked m fields" "u \<le> t"
    using child_read [OF wf grp, of t 3] by blast
  show ?thesis
  proof (cases "r = CAPNP_OK \<and> p_kind fields = PK_LIST")
    case True
    then have r: "r = CAPNP_OK" "p_kind fields = PK_LIST" by simp_all
    have "u < t" using getp_list_spends [OF q(1) [unfolded r(1)] r(2)] by simp
    from goesD [OF goes_each [OF goes_item [OF wf q(2) [OF r(1)] goes_field [OF wf rec [OF this]]]] order_refl]
    obtain s v where "emit_each (each_item (clear_field rec) fields) (at m u) [0..<capnp_list_len fields] = Some (s, at m v)" "v \<le> u"
      by blast
    then show ?thesis using q True by (auto simp: clear_fields_def)
  next
    case False
    then show ?thesis using q by (auto simp: clear_fields_def)
  qed
qed

lemma goes_clear_group:
  assumes wf: "wf_message m" and nodes: "tracked m nodes"
  shows "n < l \<Longrightarrow> goes m n (clear_group leaf l nodes) (\<lambda>_. True)"
proof (induction l arbitrary: n)
  case (Suc l)
  show ?case
  proof (rule goesI)
    fix t gid assume "t \<le> n"
    then have l: "k < t \<Longrightarrow> k < l" for k using Suc.prems by simp
    obtain u q where q: "find_node (at m t) nodes gid [0..<capnp_list_len nodes] = Some (at m u, q)" "u \<le> t"
      "\<And>p. q = Some p \<Longrightarrow> tracked m p" using goes_find_node [OF wf nodes, of t gid] by blast
    show "\<exists>s u. clear_group leaf (Suc l) nodes (at m t) gid = Some (s, at m u) \<and> u \<le> t"
    proof (cases q)
      case None
      then show ?thesis using q by (simp add: clear_step_def node_by_id_def)
    next
      case (Some grp)
      obtain s v where "clear_fields (clear_group leaf l nodes) (at m u) grp = Some (s, at m v)" "v \<le> u"
        using goes_fields [OF wf q(3) [OF Some], of u "clear_group leaf l nodes"] Suc.IH l q(2) by (meson less_le_trans)
      then show ?thesis using q Some by (auto simp: clear_step_def node_by_id_def)
    qed
  qed
qed simp

end
