(* ===== verification/GenClaims.thy ===== *)
theory GenClaims
  imports GenBudget
begin

text \<open>
  The properties of the code generator: the names and paths it derives are safe, its accessors agree
  with each other, its group initialisers return on every schema, and its integer literals denote the
  defaults of the schema.
\<close>

section \<open>Names\<close>

text \<open>The bytes of a Janet symbol the generator may print.\<close>

definition symbol_byte :: "byte \<Rightarrow> bool" where
  "symbol_byte c \<longleftrightarrow> isalnum c \<or> c = 45 \<or> c = 95"

definition janet_name :: "nat \<Rightarrow> byte list option \<Rightarrow> bool" where
  "janet_name outn r \<longleftrightarrow> (\<exists>out. r = Some out \<and> out \<noteq> [] \<and> length out < outn \<and> list_all symbol_byte out)"

lemma anon_name: "5 \<le> outn \<Longrightarrow> snprintf outn (c_str ''anon'') = c_str ''anon''"
  by (simp add: snprintf_def c_str_def)

lemma symbol_anon: "list_all symbol_byte (c_str ''anon'')" "list_all (\<lambda>c. \<not> isupper c) (c_str ''anon'')"
  by (simp_all add: c_str_def symbol_byte_def isalnum_def isupper_def)

lemma end_ident_name:
  assumes "5 \<le> outn" "length out < outn" "list_all symbol_byte out"
  shows "janet_name outn (end_ident outn out)"
proof (cases "out = []")
  case True
  then show ?thesis using assms(1) symbol_anon(1) anon_name
    by (auto simp: end_ident_def janet_name_def c_str_def)
qed (use assms in \<open>auto simp: end_ident_def janet_name_def\<close>)

lemma ident_loop_eq:
  "length out < outn \<Longrightarrow> ident_loop outn out inp =
     Some (out @ map (\<lambda>c. if symbol_byte c then c else 45) (take (outn - 1 - length out) inp))"
proof (induction inp arbitrary: out)
  case (Cons c cs)
  have "take (outn - 1 - length out) (c # cs) = c # take (outn - 1 - (length out + 1)) cs" if "length out + 1 < outn"
    using that by (simp add: take_Cons')
  then show ?case using Cons by (auto simp: push_def symbol_byte_def)
qed simp

lemma janet_ident_name: "5 \<le> outn \<Longrightarrow> janet_name outn (janet_ident inp outn)"
  by (auto simp: janet_ident_def ident_loop_eq symbol_byte_def list_all_iff intro!: end_ident_name)

lemma janet_ident_keeps:
  assumes "inp \<noteq> []" "list_all symbol_byte inp" "length inp < outn"
  shows "janet_ident inp outn = Some inp"
proof -
  have "map (\<lambda>c. if symbol_byte c then c else 45) inp = inp" using assms(2) by (simp add: list_all_iff map_idI)
  then show ?thesis using assms by (simp add: janet_ident_def ident_loop_eq end_ident_def)
qed

text \<open>Field names have no capitals either.\<close>

definition lower_symbol :: "byte \<Rightarrow> bool" where
  "lower_symbol c \<longleftrightarrow> symbol_byte c \<and> \<not> isupper c"

lemma lower_symbol_simps: "lower_symbol 45" "isupper c \<Longrightarrow> lower_symbol (tolower c)"
  "\<not> isupper c \<Longrightarrow> lower_symbol (if isalnum c \<or> c = 45 \<or> c = 95 then c else 45)"
proof -
  show "lower_symbol (tolower c)" if "isupper c"
  proof -
    have c: "65 \<le> unat c" "unat c \<le> 90" using that by (simp_all add: isupper_def word_le_nat_alt)
    then have "unat (c + 32) = unat c + 32" by (simp add: unat_plus_if')
    then show ?thesis using that c by (simp add: lower_symbol_def symbol_byte_def tolower_def isalnum_def isupper_def word_le_nat_alt)
  qed
qed (auto simp: lower_symbol_def symbol_byte_def isupper_def)

lemma field_loop_name:
  "\<lbrakk>length out < outn; list_all lower_symbol out\<rbrakk> \<Longrightarrow>
   \<exists>out'. field_loop outn out inp = Some out' \<and> length out' < outn \<and> list_all lower_symbol out'"
proof (induction inp arbitrary: out)
  case (Cons c cs)
  show ?case
  proof (cases "length out + 1 < outn")
    case True
    then show ?thesis using Cons.prems lower_symbol_simps(1) lower_symbol_simps(2,3) [of c]
      by (auto simp: push_def simp del: field_loop.simps(1) intro!: Cons.IH split: if_splits)
  qed (use Cons.prems in auto)
qed auto

lemma janet_field_name:
  assumes "5 \<le> outn"
  shows "janet_name outn (janet_field_ident inp outn)"
    and "list_all (\<lambda>c. \<not> isupper c) (the (janet_field_ident inp outn))"
proof -
  have outn: "length [] < outn" using assms by simp
  obtain out where out: "field_loop outn [] inp = Some out" "length out < outn" "list_all lower_symbol out"
    using field_loop_name [OF outn, of inp] by auto
  then have "list_all symbol_byte out" by (auto simp: lower_symbol_def list_all_iff)
  then show "janet_name outn (janet_field_ident inp outn)"
    using out end_ident_name [OF assms out(2)] by (simp add: janet_field_ident_def)
  show "list_all (\<lambda>c. \<not> isupper c) (the (janet_field_ident inp outn))"
    using out symbol_anon(2) anon_name [OF assms]
    by (auto simp: janet_field_ident_def end_ident_def lower_symbol_def list_all_iff)
qed

lemma stem_chars_symbols: "list_all symbol_byte (stem_chars cs)" "length (stem_chars cs) = length cs"
  by (induction cs) (auto simp: symbol_byte_def)

lemma stem_name_ok: "list_all symbol_byte (stem_name path 256)" "length (stem_name path 256) < 256"
  by (auto simp: stem_name_def Let_def stem_chars_symbols snprintf_def split: option.splits)

lemma no_slash: "list_all symbol_byte cs \<Longrightarrow> 47 \<notin> set cs \<and> 46 \<notin> set cs"
  by (auto simp: list_all_iff symbol_byte_def isalnum_def isupper_def)

text \<open>
  C37 Every name the generator derives for a type, a field or an enumerant is a Janet symbol: made of
  letters, digits, \<open>-\<close> and \<open>_\<close>, not empty, and inside its buffer with its NUL, whatever bytes the
  schema has; field names have no capitals, and a name that is already a symbol is kept. The file it writes has the path
  \<open>stem.janet\<close> whose stem has no \<open>/\<close> and no \<open>.\<close>, so it stays in the current directory, and the
  path is not truncated.
\<close>

theorem generated_names_safe:
  assumes "5 \<le> outn"
  shows "janet_name outn (janet_ident inp outn) \<and> janet_name outn (janet_field_ident inp outn) \<and>
    list_all (\<lambda>c. \<not> isupper c) (the (janet_field_ident inp outn)) \<and> janet_name outn (type_short_name inp outn) \<and>
    (inp \<noteq> [] \<and> list_all symbol_byte inp \<and> length inp < outn \<longrightarrow> janet_ident inp outn = Some inp) \<and>
    (\<exists>stem. out_path inp = stem @ c_str ''.janet'' \<and> list_all symbol_byte stem \<and> 47 \<notin> set stem \<and> 46 \<notin> set stem)"
proof -
  have "out_path inp = stem_name inp 256 @ c_str ''.janet''"
    using stem_name_ok(2) [of inp] by (simp add: out_path_def snprintf_def c_str_def)
  then show ?thesis
    using assms janet_ident_name janet_field_name janet_ident_keeps stem_name_ok(1) no_slash
    by (auto simp: type_short_name_def Let_def)
qed

theorem generated_names_safe_witness:
  "janet_name 128 (janet_field_ident (c_str ''fooBar'') 128) \<and> janet_ident (c_str ''foo'') 128 = Some (c_str ''foo'')"
  using generated_names_safe [of 128 "c_str ''fooBar''"] generated_names_safe [of 128 "c_str ''foo''"]
  by (simp add: c_str_def symbol_byte_def isalnum_def isupper_def)

section \<open>Accessors\<close>

text \<open>The accessor of a scalar type and the unit of its offset: the bit for \<open>Bool\<close>, else the byte.\<close>

definition accessor :: "u16 \<Rightarrow> (string \<times> u32) option" where
  "accessor tw = map_of [(TYPE_BOOL, ''bool'', 1), (TYPE_INT8, ''i8'', 1), (TYPE_UINT8, ''u8'', 1), (TYPE_INT16, ''i16'', 2),
     (TYPE_UINT16, ''u16'', 2), (TYPE_ENUM, ''u16'', 2), (TYPE_INT32, ''i32'', 4), (TYPE_UINT32, ''u32'', 4),
     (TYPE_INT64, ''i64'', 8), (TYPE_UINT64, ''u64'', 8), (TYPE_FLOAT32, ''f32'', 4), (TYPE_FLOAT64, ''f64'', 8)] tw"

text \<open>
  C36 The generated setter, getter and group initialiser of a scalar field agree: all three use the
  accessor of the field's type at the same offset, scaled by the size of the type, and setter and
  getter pass the same default. Exactly the scalar types have such a setter and getter.
\<close>

theorem accessors_agree:
  "case accessor tw of
     None \<Rightarrow> scalar_setter sname fname u tw offset dflt = None \<and> scalar_getter sname fname tw offset dflt = None
   | Some (acc, unit_size) \<Rightarrow>
       scalar_setter sname fname u tw offset dflt = Some (defn sname ''-set-'' fname '' [ptr value]'' u
         [c_str ''(capnp/'', c_str (''set-'' @ acc), c_str '' ptr '', dec (unat (offset * unit_size)), c_str '' value '', dflt, c_str ''))'']) \<and>
       scalar_getter sname fname tw offset dflt = Some (getter sname fname
         [c_str ''(capnp/'', c_str (''get-'' @ acc), c_str '' ptr '', dec (unat (offset * unit_size)), [32], dflt, c_str ''))'']) \<and>
       clear_line tw offset = set_line (''set-'' @ acc) (offset * unit_size) (if tw = TYPE_BOOL then ''false'' else ''0'')"
proof -
  consider "tw \<in> {1, 2, 6}" | "tw \<in> {3, 7, 15}" | "tw \<in> {4, 8, 10}" | "tw \<in> {5, 9, 11}"
    | "tw \<notin> {1, 2, 6} \<union> {3, 7, 15} \<union> {4, 8, 10} \<union> {5, 9, 11}" by blast
  then show ?thesis
    by cases (auto simp: accessor_def scalar_setter_def setter_name_def scalar_getter_def scalar_call_def clear_line_def
        scalar_byte_offset_def type_tags Let_def)
qed

section \<open>Group initialisers\<close>

text \<open>A schema of one node, the group 1, whose only field is the group 1 again: it contains itself.\<close>

definition self_schema :: message where
  "self_schema = capnp_message_init
     \<lparr>msegs := \<lparr>seg_data = Some ([1, 0, 0, 0, 0, 0, 0, 0] @ replicate 24 0 @ [1, 0, 0, 0, 31, 0, 0, 0] @
          [4, 0, 0, 0, 3, 0, 0, 0] @ replicate 8 0 @ [1, 0, 0, 0, 0, 0, 0, 0] @ [1, 0, 0, 0, 0, 0, 0, 0]), seg_words = 9\<rparr> #
        replicate 15 null_segment, nsegs := 1\<rparr>"

definition self_nodes :: ptr where
  "self_nodes = ptr0\<lparr>p_kind := PK_LIST, p_esize := SZ_COMPOSITE, p_count := 1, p_dwords := 1, p_pwords := 4, p_step_words := 5\<rparr>"

definition self_fields :: ptr where
  "self_fields = ptr0\<lparr>p_kind := PK_LIST, p_word := 6, p_esize := SZ_COMPOSITE, p_count := 1, p_dwords := 3, p_step_words := 3\<rparr>"

lemma self_sel:
  "depth_limit self_schema = 64" "traversal_left self_schema = 8388608" "read_word self_schema 0 1 = Some 0"
  "read_word self_schema 0 2 = Some 0" "read_word self_schema 0 3 = Some 0" "read_word self_schema 0 4 = Some 0x1F00000001"
  by (simp_all add: self_schema_def capnp_message_init_def DEFAULT_DEPTH_LIMIT_def DEFAULT_TRAVERSAL_WORDS_def run)

lemma self_wf: "wf_message self_schema"
  by (simp add: self_schema_def capnp_message_init_def wf_message_def wf_segment_def MAX_SEGMENTS_def WORD_BYTES_def)

lemma self_null_at:
  "resolve_ptr (at self_schema 8388608) 0 1 64 ptr0 = Some (CAPNP_OK, at self_schema 8388607, set_null 0 1 ptr0)"
  "resolve_ptr (at self_schema 8388608) 0 2 64 ptr0 = Some (CAPNP_OK, at self_schema 8388607, set_null 0 2 ptr0)"
  "resolve_ptr (at self_schema 8388608) 0 3 64 ptr0 = Some (CAPNP_OK, at self_schema 8388607, set_null 0 3 ptr0)"
  by (simp_all add: self_schema_def capnp_message_init_def MAX_SEGMENTS_def run ptr0_def)

lemma self_fields_at: "resolve_ptr (at self_schema 8388608) 0 4 64 ptr0 = Some (CAPNP_OK, at self_schema 8388603, self_fields)"
  by (simp add: self_schema_def capnp_message_init_def MAX_SEGMENTS_def self_fields_def run ptr0_def)

lemma self_slots: "ptr_slots self_nodes = {(0, 1), (0, 2), (0, 3), (0, 4)}" "ptr_slots self_fields = {}" "ptr_slots (set_null seg w p) = {}"
proof -
  have "{..<4 :: nat} = {0, 1, 2, 3}" "{..<1 :: nat} = {0}" by auto
  then show "ptr_slots self_nodes = {(0, 1), (0, 2), (0, 3), (0, 4)}"
    by (simp add: ptr_slots_def slots_at_def self_nodes_def ptr0_def kind_defs) (simp add: numeral_2_eq_2)
qed (simp_all add: ptr_slots_def slots_at_def self_fields_def set_null_def ptr0_def kind_defs)

lemma self_sound: "s \<in> ptr_slots self_nodes \<Longrightarrow> sound_word self_schema s"
proof (rule sound_wordI)
  fix seg word w
  assume "(seg, word) \<in> ptr_slots self_nodes" "read_word self_schema seg word = Some w"
  then have "w = 0 \<or> word = 4 \<and> w = 0x1F00000001" by (auto simp: self_slots self_sel self_sel(3) [simplified])
  then show "covered_word self_schema word w (depth_limit self_schema)"
    unfolding self_sel(1) by (subst covered_word.simps) (auto simp: run)
next
  fix seg word t m' p
  assume "(seg, word) \<in> ptr_slots self_nodes"
    and "resolve_ptr (at self_schema t) seg word (depth_limit self_schema) ptr0 = Some (CAPNP_OK, m', p)"
  then have "p = self_fields \<or> (\<exists>w. p = set_null 0 w ptr0)"
    by (auto simp: self_slots self_sel(1) simp del: One_nat_def dest: resolve_same [OF self_fields_at]
      resolve_same [OF self_null_at(1)] resolve_same [OF self_null_at(2)] resolve_same [OF self_null_at(3)])
  then show "ptr_slots p \<subseteq> ptr_slots self_nodes" by (auto simp: self_slots(2,3))
qed

lemma self_tracked: "tracked self_schema self_nodes"
  unfolding tracked_def
  by (intro conjI ballI self_sound)
    (simp_all add: well_placed_def in_bounds_def self_schema_def self_nodes_def capnp_message_init_def obj_words_def ptr0_def kind_defs)

text \<open>
  C38 \<open>emit_group_clear\<close> returns on every schema, also when a group contains itself: the recursion of
  the code is never deeper than the traversal budget. The function satisfies the recursive equation
  of the code; run with more levels than budget, it gives the same result whatever a call without a
  level left would give, so that call is never made; and on a well formed message, when every pointer
  reached from the list of nodes names an object inside its segment, it prints a text and leaves no
  more budget than it found.
\<close>

theorem group_clear_returns:
  "emit_group_clear m nodes group_id = clear_step (\<lambda>m g. emit_group_clear m nodes g) nodes m group_id \<and>
   (traversal_left m < n \<longrightarrow> clear_group leaf n nodes m group_id = emit_group_clear m nodes group_id) \<and>
   (wf_message m \<and> tracked m nodes \<longrightarrow>
     (\<exists>printed m'. emit_group_clear m nodes group_id = Some (printed, m') \<and> traversal_left m' \<le> traversal_left m))"
proof -
  have enough: "clear_group leaf n nodes m' g = emit_group_clear m' nodes g" if "traversal_left m' < n" for leaf n m' g
    unfolding emit_group_clear_def by (rule clear_group_enough [symmetric]) (use that in simp_all)
  have step: "emit_group_clear m nodes group_id = clear_step (clear_group no_group (traversal_left m) nodes) nodes m group_id"
    by (simp add: emit_group_clear_def)
  also have "\<dots> = clear_step (\<lambda>m g. emit_group_clear m nodes g) nodes m group_id"
    by (rule clear_step_cong) (use enough steady_clear_group [OF steady_no_group] in blast)+
  finally have "emit_group_clear m nodes group_id = clear_step (\<lambda>m g. emit_group_clear m nodes g) nodes m group_id" .
  moreover have "\<exists>printed m'. emit_group_clear m nodes group_id = Some (printed, m') \<and> traversal_left m' \<le> traversal_left m"
    if "wf_message m" "tracked m nodes"
  proof -
    have "goes m (traversal_left m) (clear_group no_group (Suc (traversal_left m)) nodes) (\<lambda>_. True)"
      by (rule goes_clear_group [OF that]) simp
    from goesD [OF this order_refl, of group_id] show ?thesis unfolding emit_group_clear_def at_self by auto
  qed
  ultimately show ?thesis using enough by (intro conjI impI) (assumption | elim conjE | blast)+
qed

theorem group_clear_returns_witness:
  "\<exists>printed m'. emit_group_clear self_schema self_nodes 1 = Some (printed, m') \<and>
     clear_group (\<lambda>m g. Some ([33], m)) 9000000 self_nodes self_schema 1 = Some (printed, m')"
proof -
  have "traversal_left self_schema < 9000000" by (simp add: self_sel(2))
  then show ?thesis
    using group_clear_returns [of self_schema self_nodes 1 9000000 "\<lambda>m g. Some ([33], m)"] self_wf self_tracked by metis
qed

section \<open>Default literals\<close>

text \<open>What a Janet reader makes of an integer literal: a number is a double, exact up to \<open>2 ^ 53\<close>; a
  larger one is a call of \<open>int/s64\<close> or \<open>int/u64\<close> on a quoted decimal in range.\<close>

fun read_digits :: "nat \<Rightarrow> byte list \<Rightarrow> nat option" where
  "read_digits acc [] = Some acc"
| "read_digits acc (c # cs) = (if 48 \<le> c \<and> c \<le> 57 then read_digits (10 * acc + (unat c - 48)) cs else None)"

definition read_int :: "byte list \<Rightarrow> int option" where
  "read_int s =
     (if s = [] \<or> s = [45] then None
      else if hd s = 45 then map_option (\<lambda>n. - int n) (read_digits 0 (tl s)) else map_option int (read_digits 0 s))"

definition quoted :: "string \<Rightarrow> byte list \<Rightarrow> int option" where
  "quoted ctor s =
     (if take 10 s = c_str ctor @ [32, 34] \<and> drop (length s - 2) s = [34, 41]
      then read_int (take (length s - 12) (drop 10 s)) else None)"

definition in_range :: "int \<Rightarrow> int \<Rightarrow> int option \<Rightarrow> int option" where
  "in_range lo hi v = (case v of None \<Rightarrow> None | Some x \<Rightarrow> if lo \<le> x \<and> x \<le> hi then Some x else None)"

definition read_literal :: "byte list \<Rightarrow> int option" where
  "read_literal s =
     (if quoted ''(int/s64'' s \<noteq> None then in_range (- (2 ^ 63)) (2 ^ 63 - 1) (quoted ''(int/s64'' s)
      else if quoted ''(int/u64'' s \<noteq> None then in_range 0 (2 ^ 64 - 1) (quoted ''(int/u64'' s)
      else in_range (- (2 ^ 53)) (2 ^ 53) (read_int s))"

lemma read_digits_append: "read_digits acc (xs @ ys) = Option.bind (read_digits acc xs) (\<lambda>acc. read_digits acc ys)"
  by (induction xs arbitrary: acc) auto

lemma digit10: "d < 10 \<Longrightarrow> unat (digit d) = 48 + d" "d < 10 \<Longrightarrow> 48 \<le> digit d \<and> digit d \<le> 57"
proof -
  show u: "unat (digit d) = 48 + d" if "d < 10"
    using that by (simp add: digit_def unat_word_ariths unat_of_nat)
  show "48 \<le> digit d \<and> digit d \<le> 57" if "d < 10"
    using that u [OF that] by (simp add: word_le_nat_alt)
qed

lemma dec_cases: "dec n = (if n < 10 then [digit n] else dec (n div 10) @ [digit (n mod 10)])"
  unfolding dec_def by (subst digits.simps) simp

lemma dec_induct [case_names small large]:
  "(\<And>n. n < 10 \<Longrightarrow> P n) \<Longrightarrow> (\<And>n. 10 \<le> n \<Longrightarrow> P (n div 10) \<Longrightarrow> P n) \<Longrightarrow> P n" for n :: nat
  by (induction n rule: less_induct) (metis div_less_dividend less_le_trans not_le one_less_numeral_iff semiring_norm(76) zero_less_numeral)

lemma read_digits_dec: "read_digits 0 (dec n) = Some n"
proof (induction n rule: dec_induct)
  case (small n)
  then show ?case using digit10 [of n] by (simp add: dec_cases)
next
  case (large n)
  then show ?case using digit10 [of "n mod 10"] by (subst dec_cases) (simp add: read_digits_append)
qed

lemma dec_digits: "dec n \<noteq> [] \<and> list_all (\<lambda>c. 48 \<le> c \<and> c \<le> 57) (dec n)"
proof (induction n rule: dec_induct)
  case (small n)
  then show ?case using digit10 [of n] by (simp add: dec_cases)
next
  case (large n)
  then show ?case using digit10 [of "n mod 10"] by (subst (1 2) dec_cases) simp
qed

lemma length_dec: "n < 10 ^ k \<Longrightarrow> 0 < k \<Longrightarrow> length (dec n) \<le> k"
proof (induction n arbitrary: k rule: dec_induct)
  case (small n)
  then show ?case by (simp add: dec_cases)
next
  case (large n)
  then obtain j where j: "k = Suc j" "0 < j" by (cases k; cases "k - 1") auto
  then have "n div 10 < 10 ^ j" using large.prems by (simp add: less_mult_imp_div_less mult.commute)
  then show ?case using large j by (subst dec_cases) simp
qed

lemma dec_hd: "hd (dec n) \<noteq> 45" "hd (dec n) \<noteq> 40" "dec n \<noteq> []"
  using dec_digits [of n] by (cases "dec n"; auto)+

lemma read_int_dec: "read_int (dec n) = Some (int n)"
  using dec_hd [of n] by (auto simp: read_int_def read_digits_dec)

lemma read_int_sdec: "read_int (sdec i) = Some i"
  using dec_hd(3) [of "nat (- i)"] read_int_dec [of "nat i"]
  by (auto simp: sdec_def read_int_def [of "45 # _"] read_digits_dec)

lemma quoted_int_ctor: "length ctor = 8 \<Longrightarrow> quoted ctor' (int_ctor ctor n) = (if c_str ctor' = c_str ctor then read_int n else None)"
  by (auto simp: quoted_def int_ctor_def c_str_def)

lemma quoted_decimal: "hd s \<noteq> 40 \<Longrightarrow> quoted (CHR ''('' # ctor) s = None"
  by (cases s) (auto simp: quoted_def c_str_def)

lemma read_literal_simps:
  "- (2 ^ 53) \<le> i \<Longrightarrow> i \<le> 2 ^ 53 \<Longrightarrow> read_literal (sdec i) = Some i"
  "n \<le> 2 ^ 53 \<Longrightarrow> read_literal (dec n) = Some (int n)"
  "- (2 ^ 63) \<le> i \<Longrightarrow> i < 2 ^ 63 \<Longrightarrow> read_literal (int_ctor ''(int/s64'' (sdec i)) = Some i"
  "n < 2 ^ 64 \<Longrightarrow> read_literal (int_ctor ''(int/u64'' (dec n)) = Some (int n)"
proof -
  have hd: "hd (sdec i) \<noteq> 40" using dec_hd(2) by (simp add: sdec_def)
  show "read_literal (sdec i) = Some i" if "- (2 ^ 53) \<le> i" "i \<le> 2 ^ 53"
    using that by (simp add: read_literal_def quoted_decimal [OF hd] read_int_sdec in_range_def)
  show "read_literal (dec n) = Some (int n)" if "n \<le> 2 ^ 53"
    using that by (simp add: read_literal_def quoted_decimal [OF dec_hd(2)] read_int_dec in_range_def)
  show "read_literal (int_ctor ''(int/s64'' (sdec i)) = Some i" if "- (2 ^ 63) \<le> i" "i < 2 ^ 63"
    using that by (simp add: read_literal_def quoted_int_ctor read_int_sdec in_range_def)
  show "read_literal (int_ctor ''(int/u64'' (dec n)) = Some (int n)" if "n < 2 ^ 64"
    using that by (simp add: read_literal_def quoted_int_ctor read_int_dec in_range_def c_str_def)
qed

lemma literals_fit:
  "length ctor = 8 \<Longrightarrow> snprintf 96 (int_ctor ctor (sdec (sint (x :: u64)))) = int_ctor ctor (sdec (sint x))"
  "length ctor = 8 \<Longrightarrow> snprintf 96 (int_ctor ctor (dec (unat x))) = int_ctor ctor (dec (unat x))"
  "\<bar>i\<bar> < 2 ^ 64 \<Longrightarrow> snprintf 96 (sdec i) = sdec i" "n < 2 ^ 64 \<Longrightarrow> snprintf 96 (dec n) = dec n"
proof -
  have dec: "length (dec n) \<le> 20" if "n < 2 ^ 64" for n using that by (intro length_dec) simp_all
  have sdec: "length (sdec i) \<le> 21" if "\<bar>i\<bar> < 2 ^ 64" for i
  proof -
    have "nat (- i) < 2 ^ 64" "nat i < 2 ^ 64" using that by (simp_all add: nat_less_iff)
    then show ?thesis using dec [of "nat (- i)"] dec [of "nat i"] by (simp add: sdec_def)
  qed
  have x: "\<bar>sint x\<bar> < 2 ^ 64" using sint_ge [of x] sint_lt [of x] by simp
  show "length ctor = 8 \<Longrightarrow> snprintf 96 (int_ctor ctor (sdec (sint x))) = int_ctor ctor (sdec (sint x))"
    using sdec [OF x] by (simp add: snprintf_def int_ctor_def c_str_def)
  show "length ctor = 8 \<Longrightarrow> snprintf 96 (int_ctor ctor (dec (unat x))) = int_ctor ctor (dec (unat x))"
    using dec [of "unat x"] unsigned_less [where ?'a = nat, of x] by (simp add: snprintf_def int_ctor_def c_str_def)
  show "\<bar>i\<bar> < 2 ^ 64 \<Longrightarrow> snprintf 96 (sdec i) = sdec i" using sdec [of i] by (simp add: snprintf_def)
  show "n < 2 ^ 64 \<Longrightarrow> snprintf 96 (dec n) = dec n" using dec [of n] by (simp add: snprintf_def)
qed

text \<open>The integer that a value of the schema stores.\<close>

definition integer_value :: "message \<Rightarrow> ptr \<Rightarrow> u16 \<Rightarrow> int option" where
  "integer_value m v tw =
     (if tw = TYPE_INT8 then map_option sint (capnp_get_u8 m v 2 0)
      else if tw = TYPE_INT16 then map_option sint (capnp_get_u16 m v 2 0)
      else if tw = TYPE_INT32 then map_option sint (capnp_get_u32 m v 4 0)
      else if tw = TYPE_INT64 then map_option sint (capnp_get_u64 m v 8 0)
      else if tw = TYPE_UINT8 then map_option uint (capnp_get_u8 m v 2 0)
      else if tw = TYPE_UINT32 then map_option uint (capnp_get_u32 m v 4 0)
      else if tw = TYPE_UINT64 then map_option uint (capnp_get_u64 m v 8 0)
      else map_option uint (capnp_get_u16 m v 2 0))"

definition integer_type :: "u16 \<Rightarrow> bool" where
  "integer_type tw \<longleftrightarrow> tw \<in> set [TYPE_INT8, TYPE_INT16, TYPE_INT32, TYPE_INT64,
     TYPE_UINT8, TYPE_UINT16, TYPE_UINT32, TYPE_UINT64, TYPE_ENUM]"

lemma read_signed: "- (2 ^ 53) \<le> sint x \<Longrightarrow> sint x \<le> 2 ^ 53 \<Longrightarrow> read_literal (snprintf 96 (sdec (sint x))) = Some (sint x)"
  and read_unsigned: "unat y \<le> 2 ^ 53 \<Longrightarrow> read_literal (snprintf 96 (dec (unat y))) = Some (uint y)"
  by (simp_all add: literals_fit read_literal_simps)

lemma small_ints:
  "- (2 ^ 53) \<le> sint (x8 :: byte) \<and> sint x8 \<le> 2 ^ 53" "- (2 ^ 53) \<le> sint (x16 :: u16) \<and> sint x16 \<le> 2 ^ 53"
  "- (2 ^ 53) \<le> sint (x32 :: u32) \<and> sint x32 \<le> 2 ^ 53"
  "unat x8 \<le> 2 ^ 53" "unat x16 \<le> 2 ^ 53" "unat x32 \<le> 2 ^ 53"
  using sint_ge [of x8] sint_lt [of x8] sint_ge [of x16] sint_lt [of x16] sint_ge [of x32] sint_lt [of x32]
    unsigned_less [where ?'a = nat, of x8] unsigned_less [where ?'a = nat, of x16] unsigned_less [where ?'a = nat, of x32] by simp_all

lemma read_int64: "read_literal (snprintf 96 (if sint x < - 9007199254740992 \<or> sint x > 9007199254740992
    then int_ctor ''(int/s64'' (sdec (sint x)) else sdec (sint x))) = Some (sint (x :: u64))"
  using sint_ge [of x] sint_lt [of x] by (auto simp: literals_fit(1) read_literal_simps(3) intro!: read_signed)

lemma read_uint64: "read_literal (snprintf 96 (if unat x > 9007199254740992
    then int_ctor ''(int/u64'' (dec (unat x)) else dec (unat x))) = Some (uint (x :: u64))"
  using unsigned_less [where ?'a = nat, of x] by (auto simp: literals_fit(2) read_literal_simps(4) intro!: read_unsigned)

lemma value_literal_integer:
  "integer_type tw \<Longrightarrow> map_option (\<lambda>lit. read_literal (snprintf 96 lit)) (value_literal m v tw) = map_option Some (integer_value m v tw)"
  using small_ints
  by (auto simp: integer_type_def value_literal_def integer_value_def option.map_comp o_def read_int64 read_uint64
      read_signed read_unsigned type_tags)

text \<open>
  C34 The default of an integer or enum field is printed exactly: in the buffer of 96 bytes the
  literal is never truncated, and a Janet reader makes of it the very integer the schema stores,
  as a number up to \<open>2 ^ 53\<close> in absolute value and as a boxed 64-bit integer beyond; a field
  without a default value gets 0.
\<close>

theorem default_literals_exact:
  assumes "integer_type tw"
  shows "map_option (\<lambda>(m, lit). (m, read_literal lit)) (scalar_default_literal m field tw 96) =
    do { (r, m, v) \<leftarrow> capnp_getp m field 3 ptr0;
         if r \<noteq> CAPNP_OK \<or> p_kind v \<noteq> PK_STRUCT then Some (m, Some 0)
         else map_option (\<lambda>x. (m, Some x)) (integer_value m v tw) }"
proof -
  have zero: "read_literal (snprintf 96 (c_str ''0'')) = Some 0"
    using read_literal_simps(2) [of 0] by (simp add: dec_cases [of 0] digit_def c_str_def snprintf_def)
  have "map_option (\<lambda>(m, lit). (m, read_literal lit)) (do { lit \<leftarrow> value_literal m v tw; Some (m, snprintf 96 lit) }) =
      map_option (\<lambda>x. (m, Some x)) (integer_value m v tw)" for m :: message and v
    using value_literal_integer [OF assms, of m v] by (cases "value_literal m v tw"; cases "integer_value m v tw") auto
  then show ?thesis using zero
    by (cases "capnp_getp m field 3 ptr0") (auto simp: scalar_default_literal_def)
qed

definition default_message :: message where
  "default_message = capnp_message_init\<lparr>msegs :=
     [\<lparr>seg_data = Some [0, 0, 0, 0, 0, 0, 0, 0, 0, 0, 0, 0, 0, 0, 0, 0, 0, 0, 0, 0, 0, 0, 0, 0, 0, 0, 0, 0, 2, 0, 0, 0,
        9, 0, 0, 0, 0, 0, 0, 0, 255, 255, 255, 255, 255, 255, 255, 255], seg_words = 6\<rparr>], nsegs := 1\<rparr>"

theorem default_literals_exact_witness:
  "map_option (read_literal \<circ> snd) (scalar_default_literal default_message (ptr0\<lparr>p_kind := PK_STRUCT, p_pwords := 4\<rparr>) TYPE_UINT64 96)
     = Some (Some 18446744073709551615)"
proof -
  let ?field = "ptr0\<lparr>p_kind := PK_STRUCT, p_pwords := 4\<rparr>"
  have t: "integer_type TYPE_UINT64" by (simp add: integer_type_def)
  have d: "capnp_getp default_message ?field 3 ptr0 = Some (CAPNP_OK, default_message\<lparr>traversal_left := 8388605\<rparr>,
      ptr0\<lparr>p_kind := PK_STRUCT, p_word := 4, p_dwords := 2\<rparr>)"
    by (simp add: capnp_getp_def default_message_def capnp_message_init_def ptr0_def run DEFAULT_DEPTH_LIMIT_def
        DEFAULT_TRAVERSAL_WORDS_def)
  have v: "integer_value (default_message\<lparr>traversal_left := n\<rparr>) (ptr0\<lparr>p_kind := PK_STRUCT, p_word := 4, p_dwords := 2\<rparr>) TYPE_UINT64
      = Some 18446744073709551615" for n
    by (simp add: integer_value_def type_tags capnp_get_u64_def data_has_bytes_def data_bytes_def data_bit_count_def
        default_message_def capnp_message_init_def ptr0_def run)
  show ?thesis
    using default_literals_exact [OF t, of default_message ?field] by (auto simp: d v option.map_comp split: option.splits)
qed

section \<open>Text without a NUL\<close>

text \<open>
  \<open>get_text\<close> of the generator drops the length that \<open>capnp_get_text\<close> returns and its callers run to
  the first NUL. A text list whose last byte is not NUL is legal for \<open>capnp_get_text\<close>; when it is
  the last object of its segment the generator reads on behind the segment.
\<close>

definition unterminated_message :: message where
  "unterminated_message = capnp_message_init\<lparr>msegs :=
     [\<lparr>seg_data = Some [1, 0, 0, 0, 66, 0, 0, 0, 65, 65, 65, 65, 65, 65, 65, 65], seg_words = 2\<rparr>], nsegs := 1\<rparr>"

lemma unterminated_text_overruns:
  defines "field \<equiv> ptr0\<lparr>p_kind := PK_STRUCT, p_pwords := 1\<rparr>"
  shows "capnp_get_text unterminated_message field 0 =
      Some (CAPNP_OK, unterminated_message\<lparr>traversal_left := 8388606\<rparr>, BytesAt 0 8 8)"
    and "get_text unterminated_message field 0 = None"
proof -
  show t: "capnp_get_text unterminated_message field 0 =
      Some (CAPNP_OK, unterminated_message\<lparr>traversal_left := 8388606\<rparr>, BytesAt 0 8 8)"
    by (simp add: capnp_get_text_def capnp_getp_def text_at_def unterminated_message_def capnp_message_init_def field_def run
        DEFAULT_DEPTH_LIMIT_def DEFAULT_TRAVERSAL_WORDS_def)
  show "get_text unterminated_message field 0 = None"
    unfolding get_text_def t by (simp add: c_string_def unterminated_message_def)
qed

section \<open>Reading standard input\<close>

text \<open>The growing buffer of \<open>read_all_stdin\<close> always has room for the next 4096 bytes, and what is
  returned is standard input, unless the memory runs out.\<close>

lemma c_realloc_prefix: "c_realloc A buf n = Some p \<Longrightarrow> length buf \<le> n \<Longrightarrow> take (length buf) p = buf \<and> length p = n"
  by (auto simp: c_realloc_def split: if_splits)

lemma read_loop_step:
  assumes "n \<le> length buf" "4096 \<le> length buf"
    "(if n + 4096 > length buf then c_realloc A buf (2 * length buf) else Some buf) = Some p"
  shows "n + 4096 \<le> length p \<and> take n p = take n buf"
proof (cases "n + 4096 > length buf")
  case True
  then have p: "take (length buf) p = buf" "length p = 2 * length buf"
    using assms c_realloc_prefix [of A buf "2 * length buf" p] by simp_all
  have "take n (take (length buf) p) = take n buf" by (simp only: p(1))
  then show ?thesis using assms(1,2) p(2) by (simp add: min_def)
qed (use assms in simp)

lemma read_loop_exact:
  "\<lbrakk>n \<le> length buf; 4096 \<le> length buf\<rbrakk> \<Longrightarrow> read_loop A buf n inp \<in> {Some None, Some (Some (take n buf @ inp))}"
proof (induction A buf n inp rule: read_loop.induct)
  case (1 A buf n inp)
  show ?case
  proof (cases "if n + 4096 > length buf then c_realloc A buf (2 * length buf) else Some buf")
    case None
    then show ?thesis by (subst read_loop.simps) simp
  next
    case (Some p)
    note step = read_loop_step [OF 1(2,3) Some]
    let ?c = "take 4096 inp" and ?q = "take n p @ take 4096 inp @ drop (n + length (take 4096 inp)) p"
    have w: "wr p n ?c = Some ?q" using step by (simp add: wr_def min_def)
    have q: "length ?q = length p" using step by (auto simp: min_def)
    show ?thesis
    proof (cases "length ?c < 4096")
      case True
      then have c: "?c = inp" "length inp < 4096" by (simp_all add: min_def split: if_splits)
      then have "read_loop A buf n inp = Some (Some (take n buf @ inp))"
        using Some step w 1(2) by (subst read_loop.simps) (simp add: Let_def min_def)
      then show ?thesis by simp
    next
      case False
      then have r: "read_loop A buf n inp = read_loop A ?q (n + length ?c) (drop 4096 inp)"
        using Some step w by (subst read_loop.simps) (simp add: Let_def)
      have "read_loop A ?q (n + length ?c) (drop 4096 inp) \<in> {Some None, Some (Some (take (n + length ?c) ?q @ drop 4096 inp))}"
        by (rule "1.IH" [OF Some _ w refl False]) (use step q 1(3) in \<open>auto simp: min_def\<close>)
      moreover have "take (n + length ?c) ?q @ drop 4096 inp = take n buf @ inp"
        using step by (auto simp: min_def)
      ultimately show ?thesis unfolding r by (simp only:)
    qed
  qed
qed

lemma read_all_stdin_exact: "read_all_stdin A inp \<in> {Some None, Some (Some inp)}"
proof (cases "c_malloc A 4096")
  case (Some p)
  then show ?thesis using read_loop_exact [of 0 p A inp] c_malloc_length [OF Some] by (simp add: read_all_stdin_def)
qed (simp add: read_all_stdin_def)

end
