(* ===== verification/ModSafe.thy ===== *)
theory ModSafe
  imports ModProps
begin

text \<open>
  The sandbox of the Janet module. A Janet program holds handles and calls the functions of theory
  \<open>ModWrite\<close> in any order with any arguments; \<open>exec\<close> is one call, \<open>run_calls\<close> a program. The arena and all
  handles stay valid, so no call is undefined, and a call changes only the section of its handle.
\<close>

section \<open>Valid arenas and handles\<close>

abbreviation segs_at :: "bwrap \<Rightarrow> byte list list" where "segs_at w \<equiv> segs_of (w_builder w)"

definition wrap_ok :: "bwrap \<Rightarrow> bool" where
  "wrap_ok w \<longleftrightarrow> builder_inv (w_builder w) \<and> bsegs (w_builder w) \<noteq> [] \<and>
     (root_initialized w \<longrightarrow> has_word (segs_at w) 0 0)"

definition section_bytes :: "builder_ptr \<Rightarrow> nat" where
  "section_bytes p = (h_dwords p + h_pwords p) * 8"

definition ptr_ok :: "bwrap \<Rightarrow> builder_ptr \<Rightarrow> bool" where
  "ptr_ok w p \<longleftrightarrow> in_range (segs_at w) (bp_seg (h_body p)) (bp_word (h_body p) * 8) (section_bytes p)"

definition list_ok :: "bwrap \<Rightarrow> builder_list \<Rightarrow> bool" where
  "list_ok w l \<longleftrightarrow> in_range (segs_at w) (bp_seg (l_first l)) (bp_word (l_first l) * 8) (l_count l * (l_dwords l + l_pwords l) * 8)"

text \<open>The bytes a call may change, as segment, start and length.\<close>

type_synonym range = "nat \<times> nat \<times> nat"

definition changes :: "bwrap \<Rightarrow> range \<Rightarrow> bwrap \<Rightarrow> bool" where
  "changes w g w' \<longleftrightarrow> (case g of (s, a, n) \<Rightarrow> only_range (segs_at w) s a n (segs_at w'))"

definition section_of :: "builder_ptr \<Rightarrow> range" where
  "section_of p = (bp_seg (h_body p), bp_word (h_body p) * 8, section_bytes p)"

text \<open>A call returns, keeps the arena valid, changes only the range, and what it returns is valid.\<close>

definition call_ok :: "(bwrap \<Rightarrow> 'a \<Rightarrow> bool) \<Rightarrow> bwrap \<Rightarrow> range \<Rightarrow> ('a, bwrap) call \<Rightarrow> bool" where
  "call_ok ok w g R \<longleftrightarrow> (\<exists>r w'. R = Some (r, w') \<and> wrap_ok w' \<and> changes w g w' \<and> (case r of Inr x \<Rightarrow> ok w' x | Inl _ \<Rightarrow> True))"

abbreviation any_value :: "bwrap \<Rightarrow> 'a \<Rightarrow> bool" where "any_value \<equiv> \<lambda>_ _. True"

lemma changes_refl [simp]: "changes w g w"
  by (simp add: changes_def only_range_refl split: prod.split)

lemma changes_range: "changes w g w' \<Longrightarrow> in_range (segs_at w) s a n \<Longrightarrow> in_range (segs_at w') s a n"
  by (auto simp: changes_def dest: only_rangeD(1) split: prod.splits)

lemma changes_keep: "changes w g w' \<Longrightarrow> ptr_ok w p \<Longrightarrow> ptr_ok w' p" "changes w g w' \<Longrightarrow> list_ok w l \<Longrightarrow> list_ok w' l"
  by (auto simp: ptr_ok_def list_ok_def intro: changes_range)

lemma call_ok_panic: "wrap_ok w \<Longrightarrow> call_ok ok w g (Some (Inl e, w))"
  by (simp add: call_ok_def)

lemma call_ok_arg: "wrap_ok w \<Longrightarrow> (\<And>x. a = Inr x \<Longrightarrow> call_ok ok w g (k x)) \<Longrightarrow> call_ok ok w g (arg w a k)"
  by (cases a) (simp_all add: call_ok_panic)

lemma wrap_ok_update:
  assumes "wrap_ok w" "builder_inv b'" "only_range (segs_at w) s a n (segs_of b')"
  shows "wrap_ok (w\<lparr>w_builder := b'\<rparr>)" "changes w (s, a, n) (w\<lparr>w_builder := b'\<rparr>)"
proof -
  have "in_range (segs_at w) 0 0 0" using assms(1) by (simp add: wrap_ok_def in_range_def)
  then have "in_range (segs_of b') 0 0 0" by (rule only_rangeD(1) [OF assms(3)])
  moreover have "root_initialized w \<Longrightarrow> has_word (segs_of b') 0 0"
    using assms(1) only_rangeD(1) [OF assms(3)] by (simp add: wrap_ok_def has_word_def)
  ultimately show "wrap_ok (w\<lparr>w_builder := b'\<rparr>)" using assms(2) by (auto simp: wrap_ok_def in_range_def)
qed (use assms(3) in \<open>simp add: changes_def\<close>)

lemma check_result_ok:
  assumes "wrap_ok w" "\<exists>r b'. R = Some (r, b') \<and> builder_inv b' \<and> only_range (segs_at w) s a n (segs_of b')"
  shows "call_ok any_value w (s, a, n) (check_builder_result w where R)"
  using assms(2) wrap_ok_update [OF assms(1)] by (auto simp: call_ok_def check_builder_result_def)

lemma check_body_ok:
  assumes "wrap_ok w"
    and "\<exists>r b' body. R = Some (r, b', body) \<and> builder_inv b' \<and> only_range (segs_at w) s a n (segs_of b') \<and>
      (r = CAPNP_OK \<longrightarrow> ok (w\<lparr>w_builder := b'\<rparr>) (wrap body))"
  shows "call_ok ok w (s, a, n) (check_body w where R wrap)"
  using assms(2) wrap_ok_update [OF assms(1)] by (auto simp: call_ok_def check_body_def)

section \<open>Handles and slots\<close>

lemma ptr_okD:
  assumes "wrap_ok w" "ptr_ok w p"
  shows "builder_inv (w_builder w)" "bp_seg (h_body p) < length (bsegs (w_builder w))"
    and "(bp_word (h_body p) + h_dwords p + h_pwords p) * 8 < 2 ^ 63"
  using assms range_bound [OF _ assms(2) [unfolded ptr_ok_def]] by (auto simp: wrap_ok_def section_bytes_def algebra_simps)

lemma pointer_index: "get_pointer_index J p v where = Inr i \<Longrightarrow> i < h_pwords p"
  by (auto simp: get_pointer_index_def split: sum.splits if_splits)

lemma slot_at:
  assumes "wrap_ok w" "ptr_ok w p" "i < h_pwords p"
  defines "n \<equiv> bp_word (h_body p) + h_dwords p + i"
  shows "sz n = n" "has_word (segs_at w) (bp_seg (h_body p)) n"
    and "bp_word (h_body p) * 8 \<le> n * 8" "n * 8 + 8 \<le> bp_word (h_body p) * 8 + section_bytes p"
  using ptr_okD(3) [OF assms(1,2)] assms(2,3) by (auto simp: n_def ptr_ok_def section_bytes_def has_word_def in_range_def)

lemma setter_call:
  assumes "wrap_ok w" "ptr_ok w p" "i < h_pwords p" "setter_safe (w_builder w) (h_body p) (h_dwords p) i R"
  shows "call_ok any_value w (section_of p) (check_builder_result w where R)"
  unfolding section_of_def
proof (rule check_result_ok [OF assms(1)])
  note s = slot_at [OF assms(1-3)]
  obtain r b' where "R = Some (r, b')" "builder_inv b'"
    "only_range (segs_at w) (bp_seg (h_body p)) ((bp_word (h_body p) + h_dwords p + i) * 8) 8 (segs_of b')"
    using assms(4) s(1) by (auto simp: setter_safe_def)
  then show "\<exists>r b'. R = Some (r, b') \<and> builder_inv b' \<and>
      only_range (segs_at w) (bp_seg (h_body p)) (bp_word (h_body p) * 8) (section_bytes p) (segs_of b')"
    using only_range_widen s(3,4) by blast
qed

section \<open>Setters\<close>

lemma set_field_ok:
  assumes "wrap_ok w"
    and "\<And>off v d. in_section off = Inr () \<Longrightarrow> \<exists>r b'. store (unat off) v d = Some (r, b') \<and> builder_inv b' \<and>
      only_range (segs_at w) s a n (segs_of b')"
  shows "call_ok any_value w (s, a, n) (set_field J w p offset getd zero value dflt in_section store where)"
  unfolding set_field_def
  by (intro call_ok_arg assms(1) check_result_ok) (use assms(2) in auto)

lemma data_range:
  assumes "ptr_ok w p" "require_data_range p off n where = Inr ()"
  shows "in_range (segs_at w) (bp_seg (h_body p)) (bp_word (h_body p) * 8) (section_bytes p)"
    and "unat off + n \<le> section_bytes p"
  using assms by (auto simp: require_data_range_def section_bytes_def ptr_ok_def WORD_BYTES_def Let_def split: if_splits)

text \<open>The setter of a scalar kind.\<close>

definition set_scalar :: "'v api \<Rightarrow> janet_list_kind \<Rightarrow> bwrap \<Rightarrow> builder_ptr \<Rightarrow> 'v \<Rightarrow> 'v \<Rightarrow> 'v option \<Rightarrow> (unit, bwrap) call" where
  "set_scalar J kind =
     (case kind of LIST_BOOL \<Rightarrow> cfun_set_bool J | LIST_I8 \<Rightarrow> cfun_set_i8 J | LIST_U8 \<Rightarrow> cfun_set_u8 J | LIST_I16 \<Rightarrow> cfun_set_i16 J
      | LIST_U16 \<Rightarrow> cfun_set_u16 J | LIST_I32 \<Rightarrow> cfun_set_i32 J | LIST_U32 \<Rightarrow> cfun_set_u32 J | LIST_I64 \<Rightarrow> cfun_set_i64 J
      | LIST_U64 \<Rightarrow> cfun_set_u64 J | LIST_F32 \<Rightarrow> cfun_set_f32 J | LIST_F64 \<Rightarrow> cfun_set_f64 J)"

lemmas set_scalar_defs = cfun_set_i8_def cfun_set_u8_def cfun_set_i16_def cfun_set_u16_def cfun_set_i32_def cfun_set_u32_def
  cfun_set_i64_def cfun_set_u64_def cfun_set_f32_def cfun_set_f64_def

lemma set_scalar_ok:
  assumes "wrap_ok w" "ptr_ok w p"
  shows "call_ok any_value w (section_of p) (set_scalar J kind w p offset value dflt)"
proof -
  note inv = ptr_okD(1) [OF assms]
  have bytes: "\<exists>r b'. set_bytes (w_builder w) (h_body p) (unat off) bs = Some (r, b') \<and> builder_inv b' \<and>
      only_range (segs_at w) (bp_seg (h_body p)) (bp_word (h_body p) * 8) (section_bytes p) (segs_of b')"
    if "require_data_range p off n where = Inr ()" "length bs = n" for off n "where" bs
    using set_bytes_within [OF inv data_range(1) [OF assms(2) that(1)], of "unat off" bs] data_range(2) [OF assms(2) that(1)] that(2) by simp
  have bool: "\<exists>r b'. capnp_builder_set_bool (w_builder w) (h_body p) (unat off) v = Some (r, b') \<and> builder_inv b' \<and>
      only_range (segs_at w) (bp_seg (h_body p)) (bp_word (h_body p) * 8) (section_bytes p) (segs_of b')"
    if "require_bool_range p off where = Inr ()" for off v "where"
    by (rule set_bool_within [OF inv]) (use assms(2) that in \<open>auto simp: ptr_ok_def section_bytes_def require_bool_range_def Let_def WORD_BYTES_def split: if_splits\<close>)
  show ?thesis
    unfolding section_of_def
    by (cases kind) (auto simp: set_scalar_def set_scalar_defs cfun_set_bool_def capnp_builder_set_u8_def capnp_builder_set_u16_def
        capnp_builder_set_u32_def capnp_builder_set_u64_def intro!: set_field_ok [OF assms(1)] bytes bool)
qed

lemma get_all_length: "get_all f vs = Inr xs \<Longrightarrow> length xs = length vs"
  by (induction vs arbitrary: xs) (auto split: sum.splits)

lemma fill_and_set_ok:
  assumes "wrap_ok w" "\<And>items. length items = length values \<Longrightarrow> call_ok any_value w g (check_builder_result w where (store items))"
  shows "call_ok any_value w g (fill_and_set w getd values store where)"
  unfolding fill_and_set_def by (intro call_ok_arg assms) (rule get_all_length)

lemma set_list_values_ok:
  assumes "address_space A" "api_ok J" "wrap_ok w" "ptr_ok w p"
  shows "call_ok any_value w (section_of p) (cfun_set_list_values A J w p index values kind where)"
proof -
  note d = ptr_okD [OF assms(3,4)]
  have prim: "call_ok any_value w (section_of p) (check_builder_result w where
      (set_list_prim A (w_builder w) (h_body p) (h_dwords p) i es n eb (Some (map f xs))))"
    if "i < h_pwords p" "eb \<in> {1, 2, 4, 8}" "\<And>x. length (f x) = eb" "length xs = n" for i es eb f n and xs :: "'b list"
    by (rule setter_call [OF assms(3,4) that(1)])
      (use set_list_prim_safe [OF assms(1) d(1,2) that(2), of "map f xs"] that(3,4) in simp)
  have bool: "call_ok any_value w (section_of p) (check_builder_result w where
      (capnp_builder_set_list_bool A (w_builder w) (h_body p) (h_dwords p) i xs))"
    if "i < h_pwords p" "length xs < 2 ^ 32" for i xs
    by (rule setter_call [OF assms(3,4) that(1)]) (use set_list_bool_safe [OF assms(1) d(1,2)] that(2) in blast)
  have items: "call_ok any_value w (section_of p) (set_list_items A J w p i vs kind where)"
    if i: "i < h_pwords p" and vs: "length vs < 2 ^ 31" for i and vs :: "'a list"
  proof (cases kind)
    case LIST_BOOL
    then show ?thesis using vs by (auto simp: set_list_items_def intro!: fill_and_set_ok [OF assms(3)] bool [OF i])
  qed (auto simp: set_list_items_def capnp_builder_set_list_u8_def capnp_builder_set_list_u16_def capnp_builder_set_list_u32_def
      capnp_builder_set_list_u64_def capnp_builder_set_list_f32_def capnp_builder_set_list_f64_def
      intro!: fill_and_set_ok [OF assms(3)] prim [OF i])
  show ?thesis unfolding cfun_set_list_values_def
    by (intro call_ok_arg assms(3) items) (use assms(2) pointer_index in \<open>auto simp: get_def api_ok_def split: option.splits\<close>)
qed

end
