(* ===== verification/ModCalls.thy ===== *)
theory ModCalls
  imports ModSafe
begin

text \<open>
  The remaining calls of the Janet module, and programs: \<open>exec\<close> is one call of a program on the handles
  it holds, \<open>run_calls\<close> a sequence of calls.
\<close>

section \<open>Pointers\<close>

lemma pointer_setters_ok:
  assumes "address_space A" "wrap_ok w" "ptr_ok w p"
  shows "call_ok any_value w (section_of p) (cfun_set_text A J w p index value)"
    and "call_ok any_value w (section_of p) (cfun_set_data A J w p index value)"
    and "call_ok any_value w (section_of p) (cfun_clear_pointer J w p index)"
    and "call_ok any_value w (section_of p) (cfun_set_list_void A J w p index value)"
    and "call_ok any_value w (section_of p) (cfun_set_list_text A J w p index value)"
proof -
  note d = ptr_okD(1,2) [OF assms(2,3)]
  note call = call_ok_arg [OF assms(2)] setter_call [OF assms(2,3)] pointer_index
  show "call_ok any_value w (section_of p) (cfun_set_text A J w p index value)"
    unfolding cfun_set_text_def by (intro call) (assumption, rule set_text_safe [OF assms(1) d])
  show "call_ok any_value w (section_of p) (cfun_set_data A J w p index value)"
    unfolding cfun_set_data_def by (intro call) (assumption, rule set_data_safe [OF assms(1) d])
  show "call_ok any_value w (section_of p) (cfun_clear_pointer J w p index)"
    unfolding cfun_clear_pointer_def by (intro call) (assumption, rule set_cap_safe(2) [OF d])
  show "call_ok any_value w (section_of p) (cfun_set_list_void A J w p index value)"
    unfolding cfun_set_list_void_def by (intro call) (assumption, rule set_list_void_safe [OF assms(1) d])
  show "call_ok any_value w (section_of p) (cfun_set_list_text A J w p index value)"
    unfolding cfun_set_list_text_def
    by (intro call_ok_arg [OF assms(2)] fill_and_set_ok [OF assms(2)] call(2) pointer_index)
      (assumption, rule set_list_text_safe [OF assms(1) d])
qed

section \<open>Structs\<close>

definition root_range :: range where "root_range = (0, 0, 8)"

lemma init_root_ok:
  assumes "address_space A" "wrap_ok w"
  shows "call_ok ptr_ok w root_range (cfun_init_root A J w dwords pwords)"
  unfolding cfun_init_root_def
proof (intro call_ok_arg [OF assms(2)])
  fix dw pw
  obtain r b where r: "capnp_builder_root A (w_builder w) = Some (r, b, bptr0)" "builder_inv b" "segs_le (segs_at w) (segs_of b)"
    "r = CAPNP_OK \<longrightarrow> has_word (segs_of b) 0 0"
    using builder_root_within [OF assms(1), of "w_builder w"] assms(2) by (auto simp: wrap_ok_def)
  have o: "only_range (segs_at w) 0 0 8 (segs_of b)" by (rule only_range_le [OF r(3)])
  note w1 = wrap_ok_update [OF assms(2) r(2) o]
  show "call_ok ptr_ok w root_range (do { (r, b, root) \<leftarrow> capnp_builder_root A (w_builder w);
      if r \<noteq> CAPNP_OK then Some (Inl (Builder_panic ''capnp/init-root'' r), w\<lparr>w_builder := b\<rparr>)
      else check_body (w\<lparr>w_builder := b, root_initialized := True\<rparr>) ''capnp/init-root''
             (capnp_builder_struct A b root dw pw) (make_builder_ptr dw pw) })"
  proof (cases "r = CAPNP_OK")
    case False
    then show ?thesis using w1 by (simp add: r(1) call_ok_def root_range_def)
  next
    case True
    let ?w = "w\<lparr>w_builder := b, root_initialized := True\<rparr>"
    have w2: "wrap_ok ?w" using w1(1) r(4) True by (simp add: wrap_ok_def)
    have slot: "has_word (segs_of b) (bp_seg bptr0) (bp_word bptr0)" using r(4) True by (simp add: bptr0_def)
    have "call_ok ptr_ok ?w (0, 0, 8) (check_body ?w ''capnp/init-root'' (capnp_builder_struct A b bptr0 dw pw) (make_builder_ptr dw pw))"
      using builder_struct_within [OF assms(1) r(2) slot, of dw pw]
      by (intro check_body_ok w2) (auto simp: bptr0_def ptr_ok_def make_builder_ptr_def section_bytes_def)
    then show ?thesis using True o only_range_trans [OF o]
      by (fastforce simp: r(1) call_ok_def root_range_def changes_def)
  qed
qed

lemma init_struct_ok:
  assumes "address_space A" "wrap_ok w" "ptr_ok w p"
  shows "call_ok ptr_ok w (section_of p) (cfun_init_struct A J w p index dwords pwords)"
  unfolding cfun_init_struct_def
proof (intro call_ok_arg [OF assms(2)])
  fix i dw pw assume "get_pointer_index J p index ''capnp/init-struct'' = Inr i"
  note s = slot_at [OF assms(2,3) pointer_index [OF this]] and inv = ptr_okD(1,2) [OF assms(2,3)]
  let ?slot = "\<lparr>bp_seg = bp_seg (h_body p), bp_word = bp_word (h_body p) + h_dwords p + i\<rparr>"
  have c: "capnp_builder_slot (w_builder w) (h_body p) (h_dwords p) i = Some (CAPNP_OK, ?slot)"
    using s(1,2) length_nth_segs [OF inv] inv(2)
    by (simp add: capnp_builder_slot_def ptr_slot_def Let_def has_word_def in_range_def)
  have slot: "has_word (segs_at w) (bp_seg ?slot) (bp_word ?slot)" using s(2) by simp
  obtain r b' body where b: "capnp_builder_struct A (w_builder w) ?slot dw pw = Some (r, b', body)" "builder_inv b'"
    "only_range (segs_at w) (bp_seg (h_body p)) ((bp_word (h_body p) + h_dwords p + i) * 8) 8 (segs_of b')"
    "r = CAPNP_OK \<longrightarrow> in_range (segs_of b') (bp_seg body) (bp_word body * 8) ((dw + pw) * 8)"
    using builder_struct_within [OF assms(1) inv(1) slot, of dw pw] by auto
  have "call_ok ptr_ok w (section_of p) (check_body w ''capnp/init-struct'' (Some (r, b', body)) (make_builder_ptr dw pw))"
    unfolding section_of_def
    by (intro check_body_ok assms(2)) (use b(2-4) only_range_widen [OF b(3) s(3,4)] in
      \<open>simp add: ptr_ok_def make_builder_ptr_def section_bytes_def\<close>)
  then show "call_ok ptr_ok w (section_of p) (do { (r, slot) \<leftarrow> capnp_builder_slot (w_builder w) (h_body p) (h_dwords p) i;
      if r \<noteq> CAPNP_OK then Some (Inl (Builder_panic ''capnp/init-struct'' r), w)
      else check_body w ''capnp/init-struct'' (capnp_builder_struct A (w_builder w) slot dw pw) (make_builder_ptr dw pw) })"
    by (simp add: c b(1))
qed

lemma init_struct_list_ok:
  assumes "address_space A" "wrap_ok w" "ptr_ok w p"
  shows "call_ok list_ok w (section_of p) (cfun_init_struct_list A J w p index count dwords pwords)"
  unfolding cfun_init_struct_list_def section_of_def
proof (intro call_ok_arg [OF assms(2)] check_body_ok [OF assms(2)])
  fix i n dw pw assume "get_pointer_index J p index ''capnp/init-struct-list'' = Inr i"
  note s = slot_at [OF assms(2,3) pointer_index [OF this]]
  show "\<exists>r b' body. capnp_builder_set_list_struct A (w_builder w) (h_body p) (h_dwords p) i (unat n) dw pw = Some (r, b', body) \<and>
      builder_inv b' \<and> only_range (segs_at w) (bp_seg (h_body p)) (bp_word (h_body p) * 8) (section_bytes p) (segs_of b') \<and>
      (r = CAPNP_OK \<longrightarrow> list_ok (w\<lparr>w_builder := b'\<rparr>) (make_builder_list (unat n) dw pw body))"
    using builder_list_struct_within [OF assms(1) ptr_okD(1,2) [OF assms(2,3)] s(1), of "unat n" dw pw]
      only_range_widen [OF _ s(3,4)]
    by (fastforce simp: list_ok_def make_builder_list_def)
qed

lemma struct_list_at_ok:
  assumes "wrap_ok w" "list_ok w l"
  shows "call_ok ptr_ok w g (cfun_struct_list_at J w l index)"
  unfolding cfun_struct_list_at_def Let_def
proof (intro call_ok_arg [OF assms(1)])
  fix k :: u32 and u
  let ?s = "l_dwords l + l_pwords l"
  assume "require (unat k < l_count l) (Panic ''capnp/struct-list-at'' ''index out of range'') = Inr u"
  then have k: "unat k < l_count l" by (cases "unat k < l_count l") simp_all
  have inv: "builder_inv (w_builder w)" using assms(1) by (simp add: wrap_ok_def)
  note b = range_bound(1) [OF inv assms(2) [unfolded list_ok_def]]
  have step: "unat k * ?s + ?s \<le> l_count l * ?s" using mult_le_mono1 [of "unat k + 1" "l_count l" ?s] k by simp
  have "x < 2 ^ 64 \<and> v + x < 2 ^ 64" if "x + z \<le> y" "v * 8 + y * 8 < 2 ^ 63" for x y z v :: nat using that by simp
  from this [OF step b] have "unat k * ?s < 2 ^ 64" "bp_word (l_first l) + unat k * ?s < 2 ^ 64" by blast+
  then have sz: "sz (unat k * ?s) = unat k * ?s" "sz (bp_word (l_first l) + unat k * ?s) = bp_word (l_first l) + unat k * ?s"
    by (simp_all only: sz_id)
  have "ptr_ok w (make_builder_ptr (l_dwords l) (l_pwords l) (capnp_bptr_add (l_first l) (sz (unat k * ?s))))"
    using assms(2) step unfolding capnp_bptr_add_def sz
    by (auto simp: ptr_ok_def list_ok_def make_builder_ptr_def section_bytes_def in_range_def)
  then show "call_ok ptr_ok w g (Some (Inr (make_builder_ptr (l_dwords l) (l_pwords l) (capnp_bptr_add (l_first l) (sz (unat k * ?s)))), w))"
    using assms(1) by (simp add: call_ok_def)
qed

lemma serialize_total:
  assumes "builder_inv b" "bsegs b \<noteq> []" "has_word (segs_of b) 0 0"
  shows "capnp_builder_serialize A b \<noteq> None"
proof -
  have nz: "b_words (bsegs b ! 0) \<noteq> 0"
    using assms length_nth_segs [OF assms(1), of 0] by (auto simp: has_word_def in_range_def)
  have "map length (segs_of b) = map (\<lambda>s. b_words s * 8) (bsegs b)"
    using assms(1) by (auto simp: segs_of_def builder_inv_def list_all_iff length_seg_used)
  then have "length (frame (segs_of b)) = table_size (length (bsegs b)) + sum_list (map b_words (bsegs b)) * WORD_BYTES"
    by (simp add: length_frame sum_list_mult_const WORD_BYTES_def)
  then show ?thesis using serialize_eq [OF assms(1,2) nz, of A] assms(2)
    by (cases "mem_ok A (length (frame (segs_of b)))") (auto simp: capnp_builder_serialize_def c_malloc_def Let_def)
qed

lemma finish_ok:
  assumes "wrap_ok w"
  shows "call_ok any_value w g (cfun_finish_builder A w)"
  unfolding cfun_finish_builder_def
proof (intro call_ok_arg [OF assms])
  fix u assume "require (root_initialized w) (Panic ''capnp/finish-builder'' ''root is not initialized'') = Inr u"
  then have "has_word (segs_at w) 0 0" using assms by (cases "root_initialized w") (simp_all add: wrap_ok_def)
  then obtain r flat where "capnp_builder_serialize A (w_builder w) = Some (r, flat)"
    using serialize_total [of "w_builder w" A] assms by (auto simp: wrap_ok_def)
  then show "call_ok any_value w g (do { (r, flat) \<leftarrow> capnp_builder_serialize A (w_builder w);
      Some (if r \<noteq> CAPNP_OK then Inl (Builder_panic ''capnp/finish-builder'' r)
        else if length flat > 2147483647 then Inl (Panic ''capnp/finish-builder'' ''message exceeds Janet's buffer limit'')
        else Inr flat, w) })"
    using assms by (auto simp: call_ok_def)
qed

section \<open>Programs\<close>

text \<open>What a program holds, and one call on the handles with these positions.\<close>

record held =
  arena_of :: bwrap
  ptrs :: "builder_ptr list"
  struct_lists :: "builder_list list"

datatype 'v action = Init_root 'v 'v | Init_struct nat 'v 'v 'v | Init_struct_list nat 'v 'v 'v 'v | Struct_list_at nat 'v
  | Set_scalar janet_list_kind nat 'v 'v "'v option" | Set_text nat 'v 'v | Set_data nat 'v 'v | Clear_pointer nat 'v
  | Set_list janet_list_kind nat 'v 'v | Set_list_text nat 'v 'v | Set_list_void nat 'v 'v | Finish

text \<open>A position without a handle is a call without a receiver, which the machine rejects.\<close>

definition on_ptr :: "held \<Rightarrow> nat \<Rightarrow> (builder_ptr \<Rightarrow> ('a, bwrap) call) \<Rightarrow> ('a, bwrap) call" where
  "on_ptr s k f = (if k < length (ptrs s) then f (ptrs s ! k) else Some (Inl Api_panic, arena_of s))"

definition on_list :: "held \<Rightarrow> nat \<Rightarrow> (builder_list \<Rightarrow> ('a, bwrap) call) \<Rightarrow> ('a, bwrap) call" where
  "on_list s k f = (if k < length (struct_lists s) then f (struct_lists s ! k) else Some (Inl Api_panic, arena_of s))"

definition keep :: "held \<Rightarrow> ('a \<Rightarrow> held \<Rightarrow> held) \<Rightarrow> ('a, bwrap) call \<Rightarrow> held option" where
  "keep s add R = do { (r, w) \<leftarrow> R; Some (case r of Inl _ \<Rightarrow> s\<lparr>arena_of := w\<rparr> | Inr x \<Rightarrow> add x (s\<lparr>arena_of := w\<rparr>)) }"

abbreviation add_ptr :: "builder_ptr \<Rightarrow> held \<Rightarrow> held" where "add_ptr p s \<equiv> s\<lparr>ptrs := ptrs s @ [p]\<rparr>"
abbreviation add_list :: "builder_list \<Rightarrow> held \<Rightarrow> held" where "add_list l s \<equiv> s\<lparr>struct_lists := struct_lists s @ [l]\<rparr>"
abbreviation no_handle :: "'a \<Rightarrow> held \<Rightarrow> held" where "no_handle x s \<equiv> s"

fun exec :: "allocator \<Rightarrow> 'v api \<Rightarrow> held \<Rightarrow> 'v action \<Rightarrow> held option" where
  "exec A J s (Init_root dw pw) = keep s add_ptr (cfun_init_root A J (arena_of s) dw pw)"
| "exec A J s (Init_struct k i dw pw) = keep s add_ptr (on_ptr s k (\<lambda>p. cfun_init_struct A J (arena_of s) p i dw pw))"
| "exec A J s (Init_struct_list k i n dw pw) =
     keep s add_list (on_ptr s k (\<lambda>p. cfun_init_struct_list A J (arena_of s) p i n dw pw))"
| "exec A J s (Struct_list_at k i) = keep s add_ptr (on_list s k (\<lambda>l. cfun_struct_list_at J (arena_of s) l i))"
| "exec A J s (Set_scalar kind k off v d) = keep s no_handle (on_ptr s k (\<lambda>p. set_scalar J kind (arena_of s) p off v d))"
| "exec A J s (Set_text k i v) = keep s no_handle (on_ptr s k (\<lambda>p. cfun_set_text A J (arena_of s) p i v))"
| "exec A J s (Set_data k i v) = keep s no_handle (on_ptr s k (\<lambda>p. cfun_set_data A J (arena_of s) p i v))"
| "exec A J s (Clear_pointer k i) = keep s no_handle (on_ptr s k (\<lambda>p. cfun_clear_pointer J (arena_of s) p i))"
| "exec A J s (Set_list kind k i vs) =
     keep s no_handle (on_ptr s k (\<lambda>p. cfun_set_list_values A J (arena_of s) p i vs kind ''capnp/set-list''))"
| "exec A J s (Set_list_text k i vs) = keep s no_handle (on_ptr s k (\<lambda>p. cfun_set_list_text A J (arena_of s) p i vs))"
| "exec A J s (Set_list_void k i n) = keep s no_handle (on_ptr s k (\<lambda>p. cfun_set_list_void A J (arena_of s) p i n))"
| "exec A J s Finish = keep s no_handle (cfun_finish_builder A (arena_of s))"

fun run_calls :: "allocator \<Rightarrow> 'v api \<Rightarrow> held \<Rightarrow> 'v action list \<Rightarrow> held option" where
  "run_calls A J s [] = Some s"
| "run_calls A J s (a # as) = do { s \<leftarrow> exec A J s a; run_calls A J s as }"

definition held_ok :: "held \<Rightarrow> bool" where
  "held_ok s \<longleftrightarrow> wrap_ok (arena_of s) \<and> list_all (ptr_ok (arena_of s)) (ptrs s) \<and> list_all (list_ok (arena_of s)) (struct_lists s)"

text \<open>The bytes an action may change: the section of its handle.\<close>

fun reach :: "held \<Rightarrow> 'v action \<Rightarrow> range" where
  "reach s (Init_root _ _) = root_range"
| "reach s (Init_struct k _ _ _) = section_of (ptrs s ! k)"
| "reach s (Init_struct_list k _ _ _ _) = section_of (ptrs s ! k)"
| "reach s (Struct_list_at _ _) = (0, 0, 0)"
| "reach s (Set_scalar _ k _ _ _) = section_of (ptrs s ! k)"
| "reach s (Set_text k _ _) = section_of (ptrs s ! k)"
| "reach s (Set_data k _ _) = section_of (ptrs s ! k)"
| "reach s (Clear_pointer k _) = section_of (ptrs s ! k)"
| "reach s (Set_list _ k _ _) = section_of (ptrs s ! k)"
| "reach s (Set_list_text k _ _) = section_of (ptrs s ! k)"
| "reach s (Set_list_void k _ _) = section_of (ptrs s ! k)"
| "reach s Finish = (0, 0, 0)"

definition step_ok :: "held \<Rightarrow> range \<Rightarrow> held option \<Rightarrow> bool" where
  "step_ok s g R \<longleftrightarrow> (\<exists>s'. R = Some s' \<and> held_ok s' \<and> changes (arena_of s) g (arena_of s'))"

lemma held_ok_after: "held_ok s \<Longrightarrow> changes (arena_of s) g w \<Longrightarrow> wrap_ok w \<Longrightarrow> held_ok (s\<lparr>arena_of := w\<rparr>)"
  by (auto simp: held_ok_def list_all_iff intro: changes_keep)

lemma keep_ok:
  assumes "held_ok s" "call_ok ok (arena_of s) g R"
    and "\<And>w x. held_ok (s\<lparr>arena_of := w\<rparr>) \<Longrightarrow> ok w x \<Longrightarrow> held_ok (add x (s\<lparr>arena_of := w\<rparr>)) \<and> arena_of (add x (s\<lparr>arena_of := w\<rparr>)) = w"
  shows "step_ok s g (keep s add R)"
proof -
  obtain r w where R: "R = Some (r, w)" "wrap_ok w" "changes (arena_of s) g w" "case r of Inr x \<Rightarrow> ok w x | Inl _ \<Rightarrow> True"
    using assms(2) by (auto simp: call_ok_def)
  note after = held_ok_after [OF assms(1) R(3,2)]
  show ?thesis
  proof (cases r)
    case (Inr x)
    then have "ok w x" using R(4) by simp
    from assms(3) [OF after this] show ?thesis using Inr R(1,3) by (simp add: step_ok_def keep_def)
  qed (use R after in \<open>simp add: step_ok_def keep_def\<close>)
qed

lemma on_handle_ok:
  assumes "held_ok s"
  shows "(\<And>p. ptr_ok (arena_of s) p \<Longrightarrow> call_ok ok (arena_of s) (section_of p) (f p)) \<Longrightarrow> call_ok ok (arena_of s) (section_of (ptrs s ! k)) (on_ptr s k f)"
    and "(\<And>l. list_ok (arena_of s) l \<Longrightarrow> call_ok ok (arena_of s) g (f' l)) \<Longrightarrow> call_ok ok (arena_of s) g (on_list s k f')"
  using assms by (auto simp: on_ptr_def on_list_def held_ok_def list_all_length call_ok_panic)

lemma exec_ok:
  assumes A: "address_space A" and J: "api_ok J" and s: "held_ok s"
  shows "step_ok s (reach s a) (exec A J s a)"
proof -
  have w: "wrap_ok (arena_of s)" using s by (simp add: held_ok_def)
  show ?thesis
    by (cases a) (auto intro!: keep_ok [OF s] on_handle_ok [OF s] init_root_ok [OF A w] init_struct_ok [OF A w]
        init_struct_list_ok [OF A w] struct_list_at_ok [OF w] set_scalar_ok [OF w] pointer_setters_ok [OF A w]
        set_list_values_ok [OF A J w] finish_ok [OF w] simp: held_ok_def)
qed

lemma run_calls_ok: "address_space A \<Longrightarrow> api_ok J \<Longrightarrow> held_ok s \<Longrightarrow> \<exists>s'. run_calls A J s as = Some s' \<and> held_ok s'"
proof (induction "as" arbitrary: s)
  case (Cons a "as")
  obtain s' where "exec A J s a = Some s'" "held_ok s'" using exec_ok [OF Cons.prems, of a] by (auto simp: step_ok_def)
  then show ?case using Cons.IH [OF Cons.prems(1,2)] by simp
qed simp

lemma new_builder_ok:
  assumes "address_space A" "cfun_new_builder A J n = Inr w"
  shows "held_ok \<lparr>arena_of = w, ptrs = [], struct_lists = []\<rparr>"
proof -
  have b: "builder_inv builder0" by (simp add: builder_inv_def builder0_def)
  have "r = CAPNP_OK \<longrightarrow> builder_inv b'" if "append_segment A builder0 k = (r, b')" for k r b'
    by (rule append_segment_cases [OF b assms(1), of k]) (use that in auto)
  then have "builder_inv (capnp_builder_init_sized A k)" for k
    using b by (simp add: capnp_builder_init_sized_def Let_def split: prod.split)
  then show ?thesis using assms(2)
    by (auto simp: cfun_new_builder_def capnp_builder_init_def capnp_builder_nsegs_def held_ok_def wrap_ok_def
        split: option.splits sum.splits if_splits)
qed

end
