(* ===== verification/ModViews.thy ===== *)
theory ModViews
  imports ModRead CanonClaims GenBudget
begin

text \<open>
  Janet programs that read. A program holds a message and the pointers it was given; \<open>read_one\<close> is one
  call of theory \<open>ModRead\<close>, \<open>run_reads\<close> a sequence. On a message whose pointers, from the root on, lead to
  objects inside their segments (\<open>placed\<close>) no call is undefined and every pointer stays inside its segment.
\<close>

section \<open>One call\<close>

text \<open>What a read may do to the message: lower the traversal budget.\<close>

definition seen :: "message \<Rightarrow> message \<Rightarrow> bool" where
  "seen m m' \<longleftrightarrow> (\<exists>t \<le> traversal_left m. m' = at m t)"

definition read_ok :: "message \<Rightarrow> (jvalue, message) call \<Rightarrow> bool" where
  "read_ok m R \<longleftrightarrow> (\<exists>r m'. R = Some (r, m') \<and> seen m m' \<and> (case r of Inr (View p) \<Rightarrow> tracked m p | _ \<Rightarrow> True))"

lemma seen_refl [simp]: "seen m m"
  by (auto simp: seen_def intro!: exI [of _ "traversal_left m"])

lemma seen_trans:
  assumes "seen m m1" "seen m1 m2"
  shows "seen m m2"
proof -
  obtain t u where "t \<le> traversal_left m" "m1 = at m t" "u \<le> t" "m2 = at m u" using assms by (auto simp: seen_def)
  then show ?thesis by (auto simp: seen_def intro!: exI [of _ u])
qed

lemma seen_keeps: "seen m m' \<Longrightarrow> placed m \<Longrightarrow> placed m'" "seen m m' \<Longrightarrow> tracked m' p = tracked m p"
  by (auto simp: seen_def)

lemma read_ok_panic [simp]: "read_ok m (Some (Inl e, m))"
  by (simp add: read_ok_def)

lemma read_ok_arg: "(\<And>x. a = Inr x \<Longrightarrow> read_ok m (k x)) \<Longrightarrow> read_ok m (arg m a k)"
  by (cases a) simp_all

section \<open>Pointers\<close>

text \<open>A resolution that returns, pays, and gives a pointer inside its segment.\<close>

definition resolves :: "message \<Rightarrow> (rc \<times> message \<times> ptr) option \<Rightarrow> bool" where
  "resolves m R \<longleftrightarrow> (\<exists>r m' q. R = Some (r, m', q) \<and> seen m m' \<and> (r = CAPNP_OK \<longrightarrow> tracked m q))"

lemma resolves_at:
  assumes "\<exists>r t q. R = Some (r, at m t, q) \<and> (r = CAPNP_OK \<longrightarrow> tracked m q)" "within (traversal_left m) R"
  shows "resolves m R"
  using assms by (auto simp: resolves_def seen_def within_def)

lemma within_root: "within (traversal_left m) (capnp_root m out)"
  using stays_within [OF stays_root, of "traversal_left m" "traversal_left m" m out] by simp

lemma resolutions:
  assumes "placed m"
  shows "resolves m (capnp_root m ptr0)" "tracked m s \<Longrightarrow> resolves m (capnp_getp m s i ptr0)"
    and "tracked m l \<Longrightarrow> resolves m (capnp_list_getp m l i ptr0)"
proof -
  note at = root_at [OF assms, of "traversal_left m"] getp_at [OF placed_wf [OF assms], of _ "traversal_left m"]
    list_getp_at [OF placed_wf [OF assms], of _ "traversal_left m"]
  show "resolves m (capnp_getp m s i ptr0)" if "tracked m s" by (rule resolves_at) (use at(2) that within_getp in simp_all)
  show "resolves m (capnp_list_getp m l i ptr0)" if "tracked m l"
    by (rule resolves_at) (use at(3) that within_list_getp in simp_all)
  show "resolves m (capnp_root m ptr0)" by (rule resolves_at) (use at(1) within_root in simp_all)
qed

lemma resolves_read:
  assumes "resolves m R"
  shows "read_ok m (do { (r, m, out) \<leftarrow> R; Some (if r \<noteq> CAPNP_OK then Inl e else Inr (View out), m) })"
  using assms by (auto simp: resolves_def read_ok_def)

section \<open>Text and data\<close>

text \<open>The bytes a text or data reader names can be read.\<close>

definition names_bytes :: "message \<Rightarrow> (rc \<times> message \<times> byte_ref) option \<Rightarrow> bool" where
  "names_bytes m R \<longleftrightarrow> (\<exists>r m' s. R = Some (r, m', s) \<and> seen m m' \<and> (r = CAPNP_OK \<longrightarrow> stringv m' s \<noteq> None))"

lemma stringv_at [simp]: "stringv (at m t) s = stringv m s"
  by (simp add: stringv_def ref_bytes_def split: byte_ref.split nat.split)

lemma seen_stringv: "seen m m' \<Longrightarrow> stringv m' s = stringv m s"
  by (auto simp: seen_def)

lemma text_named:
  assumes "placed m" "tracked m l" "p_kind l = PK_LIST" "p_esize l = SZ_BYTE"
  shows "\<exists>t. text_at m l = Some t \<and> stringv m t \<noteq> None"
proof (cases "p_count l = 0")
  case True
  then show ?thesis by (simp add: text_at_def stringv_def)
next
  case False
  then obtain t where "text_at m l = Some t" "ref_bytes m t \<noteq> None"
    using text_at_eq [of m l] placed_wf [OF assms(1)] trackedD(1) [OF assms(2)] assms(3,4) by auto
  then show ?thesis by (auto simp: stringv_def split: byte_ref.split nat.split)
qed

lemma data_named:
  assumes "placed m" "tracked m l" "p_kind l = PK_LIST" "p_esize l = SZ_BYTE"
  shows "stringv m (BytesAt (p_seg l) (sz (p_word l * WORD_BYTES)) (p_count l)) \<noteq> None"
proof (cases "p_count l = 0")
  case False
  have "p_esize l \<noteq> SZ_COMPOSITE" "list_bits (p_esize l) (p_count l) = Some (p_count l * 8)" "0 < p_count l * 8"
    using assms(4) False prim_bits by (simp_all add: kind_defs)
  note b = prim_elem [OF placed_wf [OF assms(1)] trackedD(1) [OF assms(2)] assms(3) this]
  have "p_word l * 8 + p_count l \<le> seg_words (msegs m ! p_seg l) * 8"
    using b(3) bytes_of_bits [of "p_count l" 1] by simp
  then obtain p where "seg_read m (p_seg l) (p_word l * 8) (p_count l) = Some p"
    using seg_read_in_bounds [OF placed_wf [OF assms(1)] b(1), of "p_word l * 8" "p_count l"] by auto
  then show ?thesis using b(2) False by (simp add: stringv_def ref_bytes_def split: nat.split)
qed (simp add: stringv_def)

lemma names_getp:
  assumes "placed m" "\<And>m' l. seen m m' \<Longrightarrow> placed m' \<Longrightarrow> tracked m' l \<Longrightarrow> names_bytes m' (f m' l)" "resolves m R"
  shows "names_bytes m (do { (r, m, l) \<leftarrow> R; if r \<noteq> CAPNP_OK then Some (r, m, Unset) else f m l })"
proof -
  obtain r m' l where R: "R = Some (r, m', l)" "seen m m'" "r = CAPNP_OK \<longrightarrow> tracked m l"
    using assms(3) by (auto simp: resolves_def)
  show ?thesis
  proof (cases "r = CAPNP_OK")
    case True
    then have "names_bytes m' (f m' l)" using assms(2) [OF R(2) seen_keeps(1) [OF R(2) assms(1)]] seen_keeps(2) [OF R(2)] R(3) by simp
    then obtain r' m2 s where N: "f m' l = Some (r', m2, s)" "seen m' m2" "r' = CAPNP_OK \<longrightarrow> stringv m2 s \<noteq> None"
      by (auto simp: names_bytes_def)
    then show ?thesis using True R(1) seen_trans [OF R(2) N(2)] by (simp add: names_bytes_def)
  qed (use R in \<open>simp add: names_bytes_def\<close>)
qed

lemma names_text:
  assumes "placed m" "tracked m l"
  shows "names_bytes m
    (if p_kind l = PK_NULL then Some (CAPNP_OK, m, EmptyLit)
     else if p_kind l \<noteq> PK_LIST \<or> p_esize l \<noteq> SZ_BYTE then Some (CAPNP_ERR_KIND, m, Unset)
     else if p_count l = 0 then Some (CAPNP_OK, m, EmptyLit)
     else do { t \<leftarrow> text_at m l; Some (CAPNP_OK, m, t) })"
  using text_named [OF assms] by (auto simp: names_bytes_def stringv_def ref_bytes_def)

lemma texts_named:
  assumes "placed m" "tracked m s"
  shows "names_bytes m (capnp_get_text m s i)" "names_bytes m (capnp_get_data m s i)"
proof -
  show "names_bytes m (capnp_get_text m s i)"
    unfolding capnp_get_text_def by (rule names_getp [OF assms(1) names_text resolutions(2) [OF assms]])
  have "names_bytes m'
      (if p_kind l = PK_NULL then Some (CAPNP_OK, m', NullRef)
       else if p_kind l \<noteq> PK_LIST \<or> p_esize l \<noteq> SZ_BYTE then Some (CAPNP_ERR_KIND, m', Unset)
       else Some (CAPNP_OK, m', BytesAt (p_seg l) (sz (p_word l * WORD_BYTES)) (p_count l)))"
    if "placed m'" "tracked m' l" for m' l
    using data_named [OF that] by (auto simp: names_bytes_def stringv_def ref_bytes_def)
  then show "names_bytes m (capnp_get_data m s i)"
    unfolding capnp_get_data_def by (rule names_getp [OF assms(1) _ resolutions(2) [OF assms]])
qed

lemma list_text_named:
  assumes "placed m" "tracked m l"
  shows "names_bytes m (capnp_list_get_text m l i)"
proof -
  note elem = names_getp [OF assms(1) _ resolutions(3) [OF assms]]
  have error: "names_bytes m' (Some (CAPNP_ERR_KIND, m', Unset))" for m' by (simp add: names_bytes_def)
  have "names_bytes m (do { (r, m, elem) \<leftarrow> capnp_list_getp m l i ptr0;
      if r \<noteq> CAPNP_OK then Some (r, m, Unset)
      else if p_kind elem = PK_NULL then Some (CAPNP_OK, m, EmptyLit)
      else if p_kind elem = PK_LIST \<and> p_esize elem = SZ_BYTE then do { t \<leftarrow> text_at m elem; Some (CAPNP_OK, m, t) }
      else Some (CAPNP_ERR_KIND, m, Unset) })" 
  proof (rule elem)
    fix m' e assume "placed m'" "tracked m' e"
    note t = text_named [OF this]
    show "names_bytes m' (if p_kind e = PK_NULL then Some (CAPNP_OK, m', EmptyLit)
        else if p_kind e = PK_LIST \<and> p_esize e = SZ_BYTE then do { t \<leftarrow> text_at m' e; Some (CAPNP_OK, m', t) }
        else Some (CAPNP_ERR_KIND, m', Unset))"
      using t by (auto simp: names_bytes_def) (simp_all add: stringv_def ref_bytes_def)
  qed
  moreover have "names_bytes m (do { (r, m, elem) \<leftarrow> capnp_list_getp m l i ptr0;
      if r \<noteq> CAPNP_OK then Some (r, m, Unset)
      else if p_kind elem \<noteq> PK_STRUCT then Some (CAPNP_ERR_KIND, m, Unset)
      else capnp_get_text m elem 0 })"
    by (rule elem) (simp add: error texts_named(1))
  ultimately show ?thesis using error by (simp add: capnp_list_get_text_def)
qed

section \<open>The functions of the module\<close>

lemma named_read:
  assumes "names_bytes m R" "\<And>bs m. \<exists>r. k bs m = Some (r, m) \<and> (case r of Inr (View p) \<Rightarrow> False | _ \<Rightarrow> True)"
  shows "read_ok m (do { (r, m, s) \<leftarrow> R; if r \<noteq> CAPNP_OK then Some (Inl e, m) else do { bs \<leftarrow> stringv m s; k bs m } })"
proof -
  obtain r m' s where R: "R = Some (r, m', s)" "seen m m'" "r = CAPNP_OK \<longrightarrow> stringv m' s \<noteq> None"
    using assms(1) by (auto simp: names_bytes_def)
  show ?thesis
  proof (cases "r = CAPNP_OK")
    case True
    then obtain bs where bs: "stringv m' s = Some bs" using R(3) by blast
    obtain x where "k bs m' = Some (x, m')" "case x of Inr (View p) \<Rightarrow> False | _ \<Rightarrow> True" using assms(2) by blast
    then show ?thesis using True R bs by (auto simp: read_ok_def split: sum.splits jvalue.splits)
  qed (use R in \<open>simp add: read_ok_def\<close>)
qed

lemma bytes_read:
  assumes "placed m" "tracked m p"
  shows "read_ok m (cfun_get_text J m p v)" "read_ok m (cfun_get_data J m p v)" "read_ok m (cfun_list_get_text J m p v)"
  unfolding cfun_get_text_def cfun_get_data_def cfun_list_get_text_def
  by (intro read_ok_arg named_read texts_named [OF assms] list_text_named [OF assms]; simp)+

lemma pointers_read:
  assumes "placed m"
  shows "read_ok m (cfun_root m)" "tracked m p \<Longrightarrow> read_ok m (cfun_getp J m p v)"
    and "tracked m p \<Longrightarrow> read_ok m (cfun_list_getp J m p v)"
  unfolding cfun_root_def cfun_getp_def cfun_list_getp_def
  by (intro read_ok_arg resolves_read resolutions [OF assms]; simp)+

lemma scalar_result:
  assumes "\<exists>x. R = Some x \<and> (\<forall>q. x \<noteq> View q)"
  shows "read_ok m (do { v \<leftarrow> R; Some (Inr v, m) })"
proof -
  obtain x where "R = Some x" "\<forall>q. x \<noteq> View q" using assms by blast
  then show ?thesis by (cases x) (auto simp: read_ok_def)
qed

lemma get_field_read:
  "(\<And>i d. \<exists>x. read i d = Some x \<and> (\<forall>q. x \<noteq> View q)) \<Longrightarrow> read_ok m (get_field J m off getd z dflt read)"
  unfolding get_field_def by (intro read_ok_arg scalar_result) blast

lemma list_item_read:
  "(\<And>d. \<exists>x. read d = Some x \<and> (\<forall>q. x \<noteq> View q)) \<Longrightarrow> read_ok m (list_item m getd z dflt read)"
  unfolding list_item_def by (intro read_ok_arg scalar_result) blast

text \<open>The getter of a scalar kind.\<close>

definition get_scalar :: "'v api \<Rightarrow> janet_list_kind \<Rightarrow> message \<Rightarrow> ptr \<Rightarrow> 'v \<Rightarrow> 'v option \<Rightarrow> (jvalue, message) call" where
  "get_scalar J kind =
     (case kind of LIST_BOOL \<Rightarrow> cfun_get_bool J | LIST_I8 \<Rightarrow> cfun_get_i8 J | LIST_U8 \<Rightarrow> cfun_get_u8 J | LIST_I16 \<Rightarrow> cfun_get_i16 J
      | LIST_U16 \<Rightarrow> cfun_get_u16 J | LIST_I32 \<Rightarrow> cfun_get_i32 J | LIST_U32 \<Rightarrow> cfun_get_u32 J | LIST_I64 \<Rightarrow> cfun_get_i64 J
      | LIST_U64 \<Rightarrow> cfun_get_u64 J | LIST_F32 \<Rightarrow> cfun_get_f32 J | LIST_F64 \<Rightarrow> cfun_get_f64 J)"

lemma lossless [simp]: "wrap_u64_lossless x \<noteq> View q" "wrap_i64_lossless y \<noteq> View q"
  by (simp_all add: wrap_u64_lossless_def wrap_i64_lossless_def)

lemma some_scalar: "R \<noteq> None \<Longrightarrow> (\<And>x q. f x \<noteq> View q) \<Longrightarrow> \<exists>x. map_option f R = Some x \<and> (\<forall>q. x \<noteq> View q)"
  by auto

lemmas get_scalar_defs = cfun_get_i8_def cfun_get_u8_def cfun_get_i16_def cfun_get_u16_def cfun_get_i32_def cfun_get_u32_def
  cfun_get_i64_def cfun_get_u64_def cfun_get_f32_def cfun_get_f64_def cfun_get_bool_def

lemma scalars_read:
  assumes "placed m" "tracked m p"
  shows "read_ok m (get_scalar J kind m p off dflt)" "read_ok m (cfun_list_get_value J m p off dflt kind)"
proof -
  note wf = placed_wf [OF assms(1)] and wp = trackedD(1) [OF assms(2)]
  note total = getters_total [OF wf well_placed_view_ok [OF wf wp]] and items = list_getters_total [OF wf wp]
  show "read_ok m (get_scalar J kind m p off dflt)"
    by (cases kind; simp only: get_scalar_def get_scalar_defs janet_list_kind.case; intro get_field_read some_scalar total; simp)
  show "read_ok m (cfun_list_get_value J m p off dflt kind)"
    unfolding cfun_list_get_value_def Let_def
    by (intro read_ok_arg; cases kind; simp only: janet_list_kind.case; intro list_item_read some_scalar items; simp)
qed

section \<open>Programs\<close>

text \<open>What a program holds, and one call on the pointers with these positions. \<open>Read_get\<close> indexes a
  pointer and \<open>Read_next\<close> iterates over it. The calls that only look at the pointer itself (its kind,
  its length, its text) read nothing of the message and are total functions of theory \<open>ModRead\<close>.\<close>

record viewing =
  message_of :: message
  views :: "ptr list"

datatype 'v read = Read_root | Read_ptr nat 'v | Read_elem nat 'v | Read_scalar janet_list_kind nat 'v "'v option"
  | Read_item janet_list_kind nat 'v "'v option" | Read_text nat 'v | Read_data nat 'v | Read_elem_text nat 'v
  | Read_get nat 'v | Read_next nat 'v

definition on_view :: "viewing \<Rightarrow> nat \<Rightarrow> (message \<Rightarrow> ptr \<Rightarrow> (jvalue, message) call) \<Rightarrow> (jvalue, message) call" where
  "on_view s k f = (if k < length (views s) then f (message_of s) (views s ! k) else Some (Inl Api_panic, message_of s))"

definition show_result :: "viewing \<Rightarrow> (jvalue, message) call \<Rightarrow> viewing option" where
  "show_result s R = do { (r, m) \<leftarrow> R;
     Some (case r of Inr (View p) \<Rightarrow> \<lparr>message_of = m, views = views s @ [p]\<rparr> | _ \<Rightarrow> s\<lparr>message_of := m\<rparr>) }"

text \<open>A key that has no value reads as nil.\<close>

definition value_of :: "(jvalue option, message) call \<Rightarrow> (jvalue, message) call" where
  "value_of R = do { (r, m) \<leftarrow> R; Some (map_sum id (\<lambda>v. case v of None \<Rightarrow> Nil_value | Some v \<Rightarrow> v) r, m) }"

fun read_one :: "'v api \<Rightarrow> viewing \<Rightarrow> 'v read \<Rightarrow> viewing option" where
  "read_one J s Read_root = show_result s (cfun_root (message_of s))"
| "read_one J s (Read_ptr k i) = show_result s (on_view s k (\<lambda>m p. cfun_getp J m p i))"
| "read_one J s (Read_elem k i) = show_result s (on_view s k (\<lambda>m p. cfun_list_getp J m p i))"
| "read_one J s (Read_scalar kind k off d) = show_result s (on_view s k (\<lambda>m p. get_scalar J kind m p off d))"
| "read_one J s (Read_item kind k i d) = show_result s (on_view s k (\<lambda>m p. cfun_list_get_value J m p i d kind))"
| "read_one J s (Read_text k i) = show_result s (on_view s k (\<lambda>m p. cfun_get_text J m p i))"
| "read_one J s (Read_data k i) = show_result s (on_view s k (\<lambda>m p. cfun_get_data J m p i))"
| "read_one J s (Read_elem_text k i) = show_result s (on_view s k (\<lambda>m p. cfun_list_get_text J m p i))"
| "read_one J s (Read_get k key) = show_result s (on_view s k (\<lambda>m p. value_of (ptr_get J m p key)))"
| "read_one J s (Read_next k key) = show_result s (on_view s k (\<lambda>m p. do { v \<leftarrow> ptr_next J p key; Some (Inr v, m) }))"

fun run_reads :: "'v api \<Rightarrow> viewing \<Rightarrow> 'v read list \<Rightarrow> viewing option" where
  "run_reads J s [] = Some s"
| "run_reads J s (a # as) = do { s \<leftarrow> read_one J s a; run_reads J s as }"

text \<open>
  The machine gives functions for method names and keywords for the next one. A number that indexes a
  pointer is cast to \<open>int32_t\<close>, which is undefined for other numbers; so is one past the largest.
\<close>

definition methods_ok :: "'v api \<Rightarrow> bool" where
  "methods_ok J \<longleftrightarrow> (\<forall>name ms v. getmethod J name ms = Some v \<longrightarrow> (\<exists>f. v = Method f)) \<and>
     (\<forall>ms key. nextmethod J ms key = Nil_value \<or> (\<exists>name. nextmethod J ms key = Keyword name))"

fun key_ok :: "'v api \<Rightarrow> 'v read \<Rightarrow> bool" where
  "key_ok J (Read_get k key) = (keyword_of J key = None \<longrightarrow> is_number J key \<longrightarrow> unwrap_integer J key \<noteq> None)"
| "key_ok J (Read_next k key) =
     (is_number J key \<longrightarrow> (case unwrap_integer J key of None \<Rightarrow> False | Some i \<Rightarrow> sint i + 1 < 2 ^ 31))"
| "key_ok J _ = True"

lemma get_read:
  assumes "placed m" "tracked m p" "methods_ok J" "key_ok J (Read_get k key)"
  shows "read_ok m (value_of (ptr_get J m p key))"
proof (cases "keyword_of J key")
  case (Some name)
  then show ?thesis using assms(3)
    by (cases "getmethod J name ptr_methods") (fastforce simp: ptr_get_def value_of_def read_ok_def methods_ok_def)+
next
  case None
  show ?thesis
  proof (cases "is_number J key")
    case True
    then obtain i where i: "unwrap_integer J key = Some i" using assms(4) None by auto
    have *: "read_ok m (do { (r, m, el) \<leftarrow> capnp_list_getp m p (unat i) ptr0;
        Some (if r \<noteq> CAPNP_OK then Inl (Panic ''capnp/ptr'' ''element unreadable'') else Inr (View el), m) })"
      by (rule resolves_read [OF resolutions(3) [OF assms(1,2)]])
    then show ?thesis using None True i
      by (auto simp: ptr_get_def value_of_def read_ok_def Let_def split: if_splits bind_splits)
  qed (use None in \<open>simp add: ptr_get_def value_of_def read_ok_def\<close>)
qed

lemma next_read:
  assumes "methods_ok J" "key_ok J (Read_next k key)"
  shows "read_ok m (do { v \<leftarrow> ptr_next J p key; Some (Inr v, m) })"
proof (rule scalar_result)
  have "nextmethod J ms key \<noteq> View q" for ms q using assms(1) unfolding methods_ok_def by (metis jvalue.distinct)
  then show "\<exists>x. ptr_next J p key = Some x \<and> (\<forall>q. x \<noteq> View q)"
    using assms(2) by (auto simp: ptr_next_def Let_def split: option.splits)
qed

definition viewing_ok :: "viewing \<Rightarrow> bool" where
  "viewing_ok s \<longleftrightarrow> placed (message_of s) \<and> list_all (tracked (message_of s)) (views s)"

lemma show_result_ok:
  assumes "viewing_ok s" "read_ok (message_of s) R"
  shows "\<exists>s'. show_result s R = Some s' \<and> viewing_ok s' \<and> seen (message_of s) (message_of s')"
proof -
  obtain r m where R: "R = Some (r, m)" "seen (message_of s) m" "case r of Inr (View p) \<Rightarrow> tracked (message_of s) p | _ \<Rightarrow> True"
    using assms(2) by (auto simp: read_ok_def)
  have ok: "placed m" "list_all (tracked m) (views s)"
    using assms(1) seen_keeps [OF R(2)] by (simp_all add: viewing_ok_def list_all_iff)
  show ?thesis
  proof (cases r)
    case (Inr v)
    then show ?thesis using R ok seen_keeps(2) [OF R(2)] by (cases v) (simp_all add: show_result_def viewing_ok_def)
  qed (use R ok in \<open>simp add: show_result_def viewing_ok_def\<close>)
qed

lemma on_view_ok:
  assumes "viewing_ok s" "\<And>p. tracked (message_of s) p \<Longrightarrow> read_ok (message_of s) (f (message_of s) p)"
  shows "read_ok (message_of s) (on_view s k f)"
  using assms by (simp add: on_view_def viewing_ok_def list_all_length)

lemma read_one_ok:
  assumes "viewing_ok s" "methods_ok J" "key_ok J a"
  shows "\<exists>s'. read_one J s a = Some s' \<and> viewing_ok s' \<and> seen (message_of s) (message_of s')"
proof -
  have "placed (message_of s)" using assms by (simp add: viewing_ok_def)
  note pl = this and reads = bytes_read [OF this] pointers_read [OF this] scalars_read [OF this]
  note shown = show_result_ok [OF assms(1)] on_view_ok [OF assms(1)]
  show ?thesis
  proof (cases a)
    case (Read_get k key)
    have "key_ok J (Read_get k key)" using assms(3) Read_get by simp
    then show ?thesis unfolding Read_get read_one.simps by (intro shown get_read [OF pl _ assms(2)])
  next
    case (Read_next k key)
    have "key_ok J (Read_next k key)" using assms(3) Read_next by simp
    then show ?thesis unfolding Read_next read_one.simps by (intro shown next_read [OF assms(2)])
  qed (simp only: read_one.simps; intro shown reads; assumption)+
qed

lemma run_reads_ok:
  "\<lbrakk>viewing_ok s; methods_ok J; list_all (key_ok J) as\<rbrakk> \<Longrightarrow>
   \<exists>s'. run_reads J s as = Some s' \<and> viewing_ok s' \<and> seen (message_of s) (message_of s')"
proof (induction "as" arbitrary: s)
  case (Cons a "as")
  obtain s1 where s1: "read_one J s a = Some s1" "viewing_ok s1" "seen (message_of s) (message_of s1)"
    using read_one_ok [OF Cons.prems(1,2), of a] Cons.prems(3) by auto
  obtain s2 where "run_reads J s1 as = Some s2" "viewing_ok s2" "seen (message_of s1) (message_of s2)"
    using Cons.IH [OF s1(2) Cons.prems(2)] Cons.prems(3) by auto
  then show ?case using s1(1) seen_trans [OF s1(3)] by auto
qed simp

end
