(* ===== verification/ModClaims.thy ===== *)
theory ModClaims
  imports ModCalls ModViews
begin

text \<open>
  The properties of the Janet module: no sequence of calls is undefined, a building call stays
  inside the struct of its handle, and what a setter stores the getter of the same type returns.
\<close>

section \<open>A machine to evaluate on\<close>

text \<open>Values are integers and lists of integers; there are no floats and no strings.\<close>

datatype jint = I int | L "jint list"

definition int_in :: "int \<Rightarrow> int \<Rightarrow> jint \<Rightarrow> ('a :: len) word option" where
  "int_in lo hi v = (case v of I x \<Rightarrow> if lo \<le> x \<and> x < hi then Some (word_of_int x) else None | L _ \<Rightarrow> None)"

definition demo_api :: "jint api" where
  "demo_api = \<lparr>getinteger = int_in (- (2 ^ 31)) (2 ^ 31), getuinteger = int_in 0 (2 ^ 32),
     getinteger16 = int_in (- (2 ^ 15)) (2 ^ 15), getuinteger16 = int_in 0 (2 ^ 16),
     getinteger64 = int_in (- (2 ^ 53)) (2 ^ 53), getuinteger64 = int_in 0 (2 ^ 53),
     getsize = (\<lambda>v. case v of I x \<Rightarrow> if 0 \<le> x then Some (nat x) else None | L _ \<Rightarrow> None),
     getboolean = (\<lambda>v. None), getnumber = (\<lambda>v. None), getbytes = (\<lambda>v. None),
     getindexed = (\<lambda>v. case v of L xs \<Rightarrow> if length xs < 2 ^ 31 then Some xs else None | I _ \<Rightarrow> None),
     is_nil = (\<lambda>v. False), is_number = (\<lambda>v. case v of I _ \<Rightarrow> True | L _ \<Rightarrow> False),
     keyword_of = (\<lambda>v. None), string_of = (\<lambda>v. None), truthy = (\<lambda>v. True), unwrap_number = (\<lambda>v. 0),
     unwrap_integer = int_in (- (2 ^ 31)) (2 ^ 31), to_float = (\<lambda>x. 0), to_double = (\<lambda>x. 0),
     getmethod = (\<lambda>name ms. None), nextmethod = (\<lambda>ms key. Nil_value)\<rparr>"

lemma demo_api: "api_ok demo_api"
proof -
  have "sint (word_of_int x :: u16) = x" if "- (2 ^ 15) \<le> x" "x < 2 ^ 15" for x
    using that unfolding sint_sbintrunc' by (intro signed_take_bit_int_eq_self) simp_all
  then have e: "word_of_int x = (scast (word_of_int x :: u16) :: u32)" if "- (2 ^ 15) \<le> x" "x < 2 ^ 15" for x
    using that unfolding scast_eq by simp
  have "uint (word_of_int x :: u16) = x" if "0 \<le> x" "x < 2 ^ 16" for x
    using that unfolding uint_word_of_int_eq by (intro take_bit_int_eq_self) simp_all
  then have u: "word_of_int x = (ucast (word_of_int x :: u16) :: u32)" if "0 \<le> x" "x < 2 ^ 16" for x
    using that unfolding ucast_eq by simp
  have "x < 2 ^ 31" if "0 \<le> x" "x < 2 ^ 32" "unat (word_of_int x :: u32) < 2 ^ 31" for x
  proof -
    have "uint (word_of_int x :: u32) = x" unfolding uint_word_of_int_eq by (rule take_bit_int_eq_self) (use that(1,2) in simp_all)
    then show ?thesis using that(3) by (simp add: unat_eq_nat_uint nat_less_iff)
  qed
  note r = this
  have i16: "getinteger16 demo_api v = Some x \<longrightarrow> getinteger demo_api v = Some (scast x)" for v x
    using e by (cases v) (auto simp: demo_api_def int_in_def)
  have u16: "getuinteger16 demo_api v = Some x \<longrightarrow> getinteger demo_api v = Some (ucast x)" for v x
    using u by (cases v) (auto simp: demo_api_def int_in_def)
  have u32: "getuinteger demo_api v = Some x \<longrightarrow> unat x < 2 ^ 31 \<longrightarrow> getinteger demo_api v = Some x" for v x
    using r by (cases v) (auto simp: demo_api_def int_in_def)
  have idx: "getindexed demo_api v = Some xs \<longrightarrow> length xs < 2 ^ 31" for v xs
    by (cases v) (auto simp: demo_api_def)
  show ?thesis unfolding api_ok_def using i16 u16 u32 idx by blast
qed

section \<open>The sandbox\<close>

lemma demo_new_builder: "\<exists>w. cfun_new_builder machine demo_api (Some (I 4)) = Inr w"
  by (simp add: cfun_new_builder_def get_def demo_api_def BUILDER_MAX_SEGMENT_WORDS_def capnp_builder_init_sized_def
        append_segment_def ensure_segs_cap_def Let_def double_until.simps BSEG_SIZE_def builder0_def c_calloc_def machine lim_words_def capnp_builder_nsegs_def WORD_BYTES_def)

text \<open>
  C3 The Janet module is a sandbox. After \<open>capnp/new-builder\<close> a Janet program may call the building
  functions in any order, on any handles it got, with any arguments, under any allocator and any
  virtual machine that behaves as documented: no call is undefined behaviour, every call returns or
  panics, and afterwards the arena is valid and every handle the program holds still names a struct
  or a list inside its segment.
\<close>

theorem programs_stay_safe:
  assumes "address_space A" "api_ok J" "cfun_new_builder A J first_words = Inr w"
  shows "\<exists>s. run_calls A J \<lparr>arena_of = w, ptrs = [], struct_lists = []\<rparr> calls = Some s \<and> held_ok s"
  by (rule run_calls_ok [OF assms(1,2) new_builder_ok [OF assms(1,3)]])

theorem programs_stay_safe_witness:
  "\<exists>w s. cfun_new_builder machine demo_api (Some (I 4)) = Inr w \<and>
     run_calls machine demo_api \<lparr>arena_of = w, ptrs = [], struct_lists = []\<rparr>
       [Init_root (I 1) (I 2), Set_scalar LIST_U16 0 (I 6) (I 7) None, Init_struct 0 (I 1) (I 3) (I 0), Finish] = Some s \<and> held_ok s"
proof -
  from demo_new_builder show ?thesis using programs_stay_safe [OF machine(1) demo_api] by blast
qed

definition demo_wrap :: bwrap where "demo_wrap = \<lparr>w_builder = demo_builder, root_initialized = True\<rparr>"

definition demo_ptr :: builder_ptr where "demo_ptr = \<lparr>h_body = demo_body, h_dwords = 1, h_pwords = 2\<rparr>"

lemma demo_wrap_ok: "wrap_ok demo_wrap" "ptr_ok demo_wrap demo_ptr"
  using demo_inv(1) by (simp_all add: wrap_ok_def ptr_ok_def section_bytes_def demo_wrap_def demo_ptr_def demo_builder_def
      demo_body_def has_word_def in_range_def segs_of_def seg_used_def)

text \<open>
  C6 A call stays inside the struct of its handle. Whatever its arguments are, a call through a
  handle overwrites nothing that existed before except bytes of the data and pointer sections of
  that struct (for \<open>capnp/init-root\<close>, of the root pointer), and reads of handles and serialization
  change nothing.
\<close>

theorem calls_stay_inside:
  assumes "address_space A" "api_ok J" "held_ok s" "exec A J s a = Some s'"
  shows "changes (arena_of s) (reach s a) (arena_of s')"
  using exec_ok [OF assms(1-3), of a] assms(4) by (auto simp: step_ok_def)

theorem calls_stay_inside_witness:
  "\<exists>s'. exec machine demo_api \<lparr>arena_of = demo_wrap, ptrs = [demo_ptr], struct_lists = []\<rparr> (Set_scalar LIST_U16 0 (I 2) (I 7) None) = Some s' \<and>
     changes demo_wrap (0, 8, 24) (arena_of s')"
proof -
  let ?s = "\<lparr>arena_of = demo_wrap, ptrs = [demo_ptr], struct_lists = []\<rparr>" and ?a = "Set_scalar LIST_U16 0 (I 2) (I 7) None"
  have ok: "held_ok ?s" using demo_wrap_ok by (simp add: held_ok_def)
  obtain s' where s': "exec machine demo_api ?s ?a = Some s'"
    using exec_ok [OF machine(1) demo_api ok, of ?a] by (auto simp: step_ok_def)
  have "section_of demo_ptr = (0, 8, 24)" by (simp add: section_of_def section_bytes_def demo_ptr_def demo_body_def)
  then show ?thesis using calls_stay_inside [OF machine(1) demo_api ok s'] s' by simp
qed

lemma demo_methods: "methods_ok demo_api"
  by (simp add: methods_ok_def demo_api_def)

text \<open>
  C7 Reading is safe on messages whose pointers lead to objects inside their segments. Let the pointer
  words that can be reached from the root of a message be such that the object each of them names lies
  inside a segment (\<open>placed\<close>; the data and text of the message are arbitrary, and so are words
  that no pointer leads to). Then a Janet program may call the reading functions in any order, on any
  pointers it was given, with any arguments, also index a pointer and iterate over it by keys that are
  numbers of type \<open>int32_t\<close> or anything else but a number: no call is undefined behaviour, every
  call returns or panics, every pointer the program holds describes an object inside its segment,
  and the message changes only by spending its budget.
\<close>

theorem reads_stay_safe:
  assumes "placed m" "methods_ok J" "list_all (key_ok J) calls"
  shows "\<exists>s t. run_reads J \<lparr>message_of = m, views = []\<rparr> calls = Some s \<and> t \<le> traversal_left m \<and>
    message_of s = m\<lparr>traversal_left := t\<rparr> \<and> list_all (well_placed m) (views s)"
proof -
  have "viewing_ok \<lparr>message_of = m, views = []\<rparr>" using assms(1) by (simp add: viewing_ok_def)
  from run_reads_ok [OF this assms(2,3)] obtain s' where s': "run_reads J \<lparr>message_of = m, views = []\<rparr> calls = Some s'"
    "viewing_ok s'" "seen m (message_of s')" by auto
  then obtain t where t: "t \<le> traversal_left m" "message_of s' = at m t" by (auto simp: seen_def)
  then have "list_all (well_placed m) (views s')" using s'(2) by (auto simp: viewing_ok_def list_all_iff dest: trackedD(1))
  then show ?thesis using s'(1) t by blast
qed

text \<open>A message whose root has a field with the bits of a far pointer (6).\<close>

theorem reads_stay_safe_witness:
  "\<exists>s t. run_reads demo_api \<lparr>message_of = canon_demo, views = []\<rparr>
       [Read_root, Read_scalar LIST_U64 0 (I 0) None, Read_ptr 0 (I 0), Read_text 0 (I 0), Read_get 0 (I 3), Read_next 1 (I 3)] = Some s \<and>
     t \<le> traversal_left canon_demo \<and> message_of s = canon_demo\<lparr>traversal_left := t\<rparr> \<and> list_all (well_placed canon_demo) (views s)"
  by (rule reads_stay_safe [OF canon_demo_placed(1) demo_methods]) (simp add: demo_api_def int_in_def)

section \<open>Round trips\<close>

text \<open>The value a Janet program passed, as the value it gets back.\<close>

definition given :: "'v api \<Rightarrow> janet_list_kind \<Rightarrow> 'v \<Rightarrow> jvalue option" where
  "given J kind v =
     (case kind of LIST_BOOL \<Rightarrow> map_option Boolean (getboolean J v)
      | LIST_I8 \<Rightarrow> map_option (\<lambda>x. Number (sint x)) (getinteger J v) | LIST_U8 \<Rightarrow> map_option (\<lambda>x. Number (sint x)) (getinteger J v)
      | LIST_I16 \<Rightarrow> map_option (\<lambda>x. Number (sint x)) (getinteger16 J v) | LIST_U16 \<Rightarrow> map_option (\<lambda>x. Number (uint x)) (getuinteger16 J v)
      | LIST_I32 \<Rightarrow> map_option (\<lambda>x. Number (sint x)) (getinteger J v) | LIST_U32 \<Rightarrow> map_option (\<lambda>x. Number (uint x)) (getuinteger J v)
      | LIST_I64 \<Rightarrow> map_option wrap_i64_lossless (getinteger64 J v) | LIST_U64 \<Rightarrow> map_option wrap_u64_lossless (getuinteger64 J v)
      | LIST_F32 \<Rightarrow> map_option (\<lambda>x. Double (to_double J (to_float J x))) (getnumber J v)
      | LIST_F64 \<Rightarrow> map_option Double (getnumber J v))"

lemma set_field_inv:
  assumes "set_field J w p offset getd zero value dflt in_section store where = Some (Inr (), w')"
  obtains off v d b' where "getuinteger J offset = Some off" "getd value = Inr v" "opt getd zero dflt = Inr d"
    "in_section off = Inr ()" "store (unat off) v d = Some (CAPNP_OK, b')" "w_builder w' = b'"
  using assms by (auto simp: set_field_def arg_def get_def check_builder_result_def split: sum.splits option.splits bind_splits if_splits)

lemma get_field_eq:
  "getinteger J offset = Some off \<Longrightarrow> opt getd zero dflt = Inr d \<Longrightarrow> read (unat off) d = Some x \<Longrightarrow>
   get_field J m offset getd zero dflt read = Some (Inr x, m)"
  by (simp add: get_field_def get_def)

lemma byte_args:
  "get_u8_arg J where v = Inr d \<Longrightarrow> map_sum id ucast (get (getinteger J) v) = Inr d"
  "get_i8_arg J where v = Inr d \<Longrightarrow> map_sum id ucast (get (getinteger J) v) = Inr d"
  by (auto simp: get_u8_arg_def get_i8_arg_def split: sum.splits if_splits)

lemma narrow_back:
  fixes x :: u16 and y :: u32
  shows "(ucast (ucast x :: u32) :: u16) = x" "(ucast (scast x :: u32) :: u16) = x"
    and "0 \<le> sint y \<Longrightarrow> sint y \<le> 255 \<Longrightarrow> uint (ucast y :: byte) = sint y"
    and "- 128 \<le> sint y \<Longrightarrow> sint y \<le> 127 \<Longrightarrow> sint (ucast y :: byte) = sint y"
proof -
  have d: "ucast (word_of_int k :: u32) = (word_of_int k :: u16)" "ucast (word_of_int k :: u32) = (word_of_int k :: byte)" for k
    by (rule ucast_down_wi, simp add: is_down)+
  show "(ucast (ucast x :: u32) :: u16) = x" by (rule ucast_up_ucast_id) (simp add: is_up)
  show "(ucast (scast x :: u32) :: u16) = x" unfolding scast_eq d by simp
  have y: "(ucast y :: byte) = word_of_int (sint y)" using d(2) [of "sint y"] by simp
  show "uint (ucast y :: byte) = sint y" if "0 \<le> sint y" "sint y \<le> 255"
    unfolding y uint_word_of_int_eq by (rule take_bit_int_eq_self) (use that in simp_all)
  show "sint (ucast y :: byte) = sint y" if "- 128 \<le> sint y" "sint y \<le> 127"
    unfolding y sint_sbintrunc' by (rule signed_take_bit_int_eq_self) (use that in simp_all)
qed

lemma word_args:
  assumes "api_ok J"
  shows "get (getuinteger16 J) v = Inr d \<Longrightarrow> map_sum id ucast (get (getinteger J) v) = Inr d"
    and "get (getinteger16 J) v = Inr e \<Longrightarrow> map_sum id ucast (get (getinteger J) v) = Inr e"
  using assms by (auto simp: api_ok_def get_def narrow_back split: option.splits)

lemma given_bytes:
  "get_u8_arg J where v = Inr x \<Longrightarrow> given J LIST_U8 v = Some (Number (uint x))"
  "get_i8_arg J where v = Inr x \<Longrightarrow> given J LIST_I8 v = Some (Number (sint x))"
  by (auto simp: get_u8_arg_def get_i8_arg_def get_def given_def narrow_back split: option.splits sum.splits if_splits)

text \<open>What the reader of a width finds after the setter.\<close>

lemma stored_reads:
  assumes inv: "builder_inv b" and s: "struct_view s body dw pw" and w: "bp_word body < 2 ^ 60" "dw < 2 ^ 16"
    and m: "holds m (segs_of b')" and set: "set_bytes b body off bs = Some (CAPNP_OK, b')" and fits: "off + length bs \<le> dw * 8"
  shows "bs = [v8] \<Longrightarrow> capnp_get_u8 m s off d8 = Some v8"
    and "bs = capnp_store_le16 v16 \<Longrightarrow> capnp_get_u16 m s off d16 = Some v16"
    and "bs = capnp_store_le32 v32 \<Longrightarrow> capnp_get_u32 m s off d32 = Some v32"
    and "bs = capnp_store_le64 v64 \<Longrightarrow> capnp_get_u64 m s off d64 = Some v64"
proof -
  have "off < 2 ^ 32" "length bs < 2 ^ 32" using fits w(2) by simp_all
  note r = set_bytes_read [OF inv set m s w(1) this] and h = view_has_bytes [OF s fits]
  show "bs = [v8] \<Longrightarrow> capnp_get_u8 m s off d8 = Some v8"
    "bs = capnp_store_le16 v16 \<Longrightarrow> capnp_get_u16 m s off d16 = Some v16"
    "bs = capnp_store_le32 v32 \<Longrightarrow> capnp_get_u32 m s off d32 = Some v32"
    "bs = capnp_store_le64 v64 \<Longrightarrow> capnp_get_u64 m s off d64 = Some v64"
    using r h by (auto simp: capnp_get_u8_def capnp_get_u16_def capnp_get_u32_def capnp_get_u64_def
        load_store_le16 load_store_le32 load_store_le64)
qed

lemma xor_twice [simp]: "(x XOR d) XOR d = (x :: 'a :: len word)"
  by (simp add: xor.assoc)

text \<open>The offset the setter accepted is the offset the getter reads.\<close>

lemma offset_same:
  assumes "api_ok J" "getuinteger J v = Some off" "unat off < 2 ^ 31"
  shows "getinteger J v = Some off"
  using assms by (simp add: api_ok_def)

lemma data_fits:
  "require_data_range p off n where = Inr () \<Longrightarrow> unat off + n \<le> h_dwords p * 8"
  "require_bool_range p off where = Inr () \<Longrightarrow> unat off < h_dwords p * 64"
  by (auto simp: require_data_range_def require_bool_range_def Let_def WORD_BYTES_def split: if_splits)

lemma bool_reads:
  assumes w: "wrap_ok w" "ptr_ok w p" "h_dwords p < 2 ^ 16" and f: "i < h_dwords p * 64"
    and set: "capnp_builder_set_bool (w_builder w) (h_body p) i v = Some (CAPNP_OK, b')"
    and m: "holds m (segs_of b')" and s: "struct_view s (h_body p) (h_dwords p) (h_pwords p)"
  shows "capnp_get_bool m s i d = Some (of_bool v)"
proof -
  note inv = ptr_okD(1) [OF w(1,2)]
  have b60: "bp_word (h_body p) < 2 ^ 60" using ptr_okD(3) [OF w(1,2)] by simp
  have "i div 8 < section_bytes p" using f by (simp add: section_bytes_def)
  then obtain x where x: "set_bytes (w_builder w) (h_body p) (i div 8) [x] = Some (CAPNP_OK, b')" "x AND bit_mask i \<noteq> 0 \<longleftrightarrow> v"
    using set_bool_bytes [OF inv w(2) [unfolded ptr_ok_def]] set by metis
  have "i div 8 < 2 ^ 32" "length [x] < 2 ^ 32" using f w(3) by simp_all
  note r = set_bytes_read [OF inv x(1) m s b60 this]
  then show ?thesis using x(2) s f
    by (simp add: capnp_get_bool_def struct_view_def data_bit_count_def Let_def)
qed

text \<open>One round trip: \<open>img\<close> is the wire image of a field, \<open>res\<close> the Janet value it is read as.\<close>

lemma field_roundtrip:
  assumes J: "api_ok J" and w: "wrap_ok w" "ptr_ok w p" "h_dwords p < 2 ^ 16"
    and set: "set_field J w p off getd z v dflt (\<lambda>off. require_data_range p off n where) store where = Some (Inr (), w')"
    and store: "\<And>i x d. store i x d = set_bytes (w_builder w) (h_body p) i (img (x XOR d))"
    and dflt: "\<And>v d. getd v = Inr d \<Longrightarrow> getd' v = Inr d"
    and read: "\<And>i x d. set_bytes (w_builder w) (h_body p) i (img (x XOR d)) = Some (CAPNP_OK, w_builder w') \<Longrightarrow> i + n \<le> h_dwords p * 8 \<Longrightarrow>
      read i d = Some (res x)"
  shows "\<exists>x. getd v = Inr x \<and> get_field J m off getd' z dflt read = Some (Inr (res x), m)"
proof -
  obtain i x d where g: "getuinteger J off = Some i" "getd v = Inr x" "opt getd z dflt = Inr d"
    "require_data_range p i n where = Inr ()" "store (unat i) x d = Some (CAPNP_OK, w_builder w')"
    using set by (rule set_field_inv) blast
  note f = data_fits(1) [OF g(4)]
  have i: "getinteger J off = Some i" by (rule offset_same [OF J g(1)]) (use f w(3) in simp)
  have "opt getd' z dflt = Inr d" using g(3) dflt by (auto simp: opt_def split: option.splits)
  then have "get_field J m off getd' z dflt read = Some (Inr (res x), m)"
    by (rule get_field_eq [OF i]) (rule read [OF g(5) [unfolded store] f])
  then show ?thesis using g(2) by blast
qed

text \<open>The setting of a round trip, shared by the lemmas per width.\<close>

definition field_set ::
    "'v api \<Rightarrow> janet_list_kind \<Rightarrow> bwrap \<Rightarrow> builder_ptr \<Rightarrow> 'v \<Rightarrow> 'v \<Rightarrow> 'v option \<Rightarrow> bwrap \<Rightarrow> message \<Rightarrow> ptr \<Rightarrow> bool" where
  "field_set J kind w p off v dflt w' m s \<longleftrightarrow>
     api_ok J \<and> wrap_ok w \<and> ptr_ok w p \<and> h_dwords p < 2 ^ 16 \<and>
     set_scalar J kind w p off v dflt = Some (Inr (), w') \<and>
     holds m (segs_at w') \<and> struct_view s (h_body p) (h_dwords p) (h_pwords p)"

lemma field_setD:
  assumes "field_set J kind w p off v dflt w' m s"
  shows "api_ok J" "wrap_ok w" "ptr_ok w p" "h_dwords p < 2 ^ 16" "set_scalar J kind w p off v dflt = Some (Inr (), w')"
    and "holds m (segs_at w')" "struct_view s (h_body p) (h_dwords p) (h_pwords p)"
  using assms by (simp_all add: field_set_def)

lemma field_set_reads:
  assumes "field_set J kind w p off v dflt w' m s"
    and "set_bytes (w_builder w) (h_body p) i bs = Some (CAPNP_OK, w_builder w')" "i + length bs \<le> h_dwords p * 8"
  shows "bs = [v8] \<Longrightarrow> capnp_get_u8 m s i d8 = Some v8"
    and "bs = capnp_store_le16 v16 \<Longrightarrow> capnp_get_u16 m s i d16 = Some v16"
    and "bs = capnp_store_le32 v32 \<Longrightarrow> capnp_get_u32 m s i d32 = Some v32"
    and "bs = capnp_store_le64 v64 \<Longrightarrow> capnp_get_u64 m s i d64 = Some v64"
proof -
  note u = field_setD [OF assms(1)]
  have "bp_word (h_body p) < 2 ^ 60" using ptr_okD(3) [OF u(2,3)] by simp
  note r = stored_reads [OF ptr_okD(1) [OF u(2,3)] u(7) this u(4,6) assms(2,3)]
  show "bs = [v8] \<Longrightarrow> capnp_get_u8 m s i d8 = Some v8"
    "bs = capnp_store_le16 v16 \<Longrightarrow> capnp_get_u16 m s i d16 = Some v16"
    "bs = capnp_store_le32 v32 \<Longrightarrow> capnp_get_u32 m s i d32 = Some v32"
    "bs = capnp_store_le64 v64 \<Longrightarrow> capnp_get_u64 m s i d64 = Some v64"
    using r by blast+
qed

lemma builder_set_u16_bytes: "capnp_builder_set_u16 b body i x = set_bytes b body i (capnp_store_le16 x)"
  by (simp add: capnp_builder_set_u16_def capnp_store_le16_def)


lemma narrow_roundtrip:
  assumes "field_set J kind w p off v dflt w' m s" "kind \<in> {LIST_I8, LIST_U8, LIST_I16, LIST_U16}"
  shows "\<exists>x. given J kind v = Some x \<and> get_scalar J kind m s off dflt = Some (Inr x, m)"
proof -
  note J = field_setD(1) [OF assms(1)] and w = field_setD(2-4) [OF assms(1)] and set = field_setD(5) [OF assms(1)]
  note reads = field_set_reads [OF assms(1)] and field = field_roundtrip [OF J w]
  show ?thesis
  proof (cases kind)
    case LIST_I8
    have "\<exists>x. get_i8_arg J ''capnp/set-i8'' v = Inr x \<and> cfun_get_i8 J m s off dflt = Some (Inr (Number (sint x)), m)"
      using set unfolding LIST_I8 set_scalar_def cfun_set_i8_def cfun_get_i8_def janet_list_kind.case
      by (rule field [where img = "\<lambda>x. [x]"])
        (auto simp: capnp_builder_set_u8_def reads(1) byte_args(2))
    then show ?thesis by (auto simp: LIST_I8 get_scalar_def given_bytes split: option.splits)
  next
    case LIST_U8
    have "\<exists>x. get_u8_arg J ''capnp/set-u8'' v = Inr x \<and> cfun_get_u8 J m s off dflt = Some (Inr (Number (uint x)), m)"
      using set unfolding LIST_U8 set_scalar_def cfun_set_u8_def cfun_get_u8_def janet_list_kind.case
      by (rule field [where img = "\<lambda>x. [x]"])
        (auto simp: capnp_builder_set_u8_def reads(1) byte_args(1))
    then show ?thesis by (auto simp: LIST_U8 get_scalar_def given_bytes split: option.splits)
  next
    case LIST_I16
    have "\<exists>x. get (getinteger16 J) v = Inr x \<and> cfun_get_i16 J m s off dflt = Some (Inr (Number (sint x)), m)"
      using set unfolding LIST_I16 set_scalar_def cfun_set_i16_def cfun_get_i16_def janet_list_kind.case
      by (rule field [where img = "capnp_store_le16"])
        (auto simp: builder_set_u16_bytes reads(2) word_args(2) [OF J])
    then show ?thesis by (auto simp: LIST_I16 get_scalar_def given_def get_def get_float_def split: option.splits)
  next
    case LIST_U16
    have "\<exists>x. get (getuinteger16 J) v = Inr x \<and> cfun_get_u16 J m s off dflt = Some (Inr (Number (uint x)), m)"
      using set unfolding LIST_U16 set_scalar_def cfun_set_u16_def cfun_get_u16_def janet_list_kind.case
      by (rule field [where img = "capnp_store_le16"])
        (auto simp: builder_set_u16_bytes reads(2) word_args(1) [OF J])
    then show ?thesis by (auto simp: LIST_U16 get_scalar_def given_def get_def get_float_def split: option.splits)
  qed (use assms(2) in simp_all)
qed


lemma wide_roundtrip:
  assumes "field_set J kind w p off v dflt w' m s" "kind \<in> {LIST_I32, LIST_U32, LIST_I64, LIST_U64}"
  shows "\<exists>x. given J kind v = Some x \<and> get_scalar J kind m s off dflt = Some (Inr x, m)"
proof -
  note J = field_setD(1) [OF assms(1)] and w = field_setD(2-4) [OF assms(1)] and set = field_setD(5) [OF assms(1)]
  note reads = field_set_reads [OF assms(1)] and field = field_roundtrip [OF J w]
  show ?thesis
  proof (cases kind)
    case LIST_I32
    have "\<exists>x. get (getinteger J) v = Inr x \<and> cfun_get_i32 J m s off dflt = Some (Inr (Number (sint x)), m)"
      using set unfolding LIST_I32 set_scalar_def cfun_set_i32_def cfun_get_i32_def janet_list_kind.case
      by (rule field [where img = "capnp_store_le32"])
        (auto simp: capnp_builder_set_u32_def reads(3))
    then show ?thesis by (auto simp: LIST_I32 get_scalar_def given_def get_def get_float_def split: option.splits)
  next
    case LIST_U32
    have "\<exists>x. get (getuinteger J) v = Inr x \<and> cfun_get_u32 J m s off dflt = Some (Inr (Number (uint x)), m)"
      using set unfolding LIST_U32 set_scalar_def cfun_set_u32_def cfun_get_u32_def janet_list_kind.case
      by (rule field [where img = "capnp_store_le32"])
        (auto simp: capnp_builder_set_u32_def reads(3))
    then show ?thesis by (auto simp: LIST_U32 get_scalar_def given_def get_def get_float_def split: option.splits)
  next
    case LIST_I64
    have "\<exists>x. get (getinteger64 J) v = Inr x \<and> cfun_get_i64 J m s off dflt = Some (Inr (wrap_i64_lossless x), m)"
      using set unfolding LIST_I64 set_scalar_def cfun_set_i64_def cfun_get_i64_def janet_list_kind.case
      by (rule field [where img = "capnp_store_le64"])
        (auto simp: capnp_builder_set_u64_def reads(4))
    then show ?thesis by (auto simp: LIST_I64 get_scalar_def given_def get_def get_float_def split: option.splits)
  next
    case LIST_U64
    have "\<exists>x. get (getuinteger64 J) v = Inr x \<and> cfun_get_u64 J m s off dflt = Some (Inr (wrap_u64_lossless x), m)"
      using set unfolding LIST_U64 set_scalar_def cfun_set_u64_def cfun_get_u64_def janet_list_kind.case
      by (rule field [where img = "capnp_store_le64"])
        (auto simp: capnp_builder_set_u64_def reads(4))
    then show ?thesis by (auto simp: LIST_U64 get_scalar_def given_def get_def get_float_def split: option.splits)
  qed (use assms(2) in simp_all)
qed


lemma float_roundtrip:
  assumes "field_set J kind w p off v dflt w' m s" "kind \<in> {LIST_F32, LIST_F64}"
  shows "\<exists>x. given J kind v = Some x \<and> get_scalar J kind m s off dflt = Some (Inr x, m)"
proof -
  note J = field_setD(1) [OF assms(1)] and w = field_setD(2-4) [OF assms(1)] and set = field_setD(5) [OF assms(1)]
  note reads = field_set_reads [OF assms(1)] and field = field_roundtrip [OF J w]
  show ?thesis
  proof (cases kind)
    case LIST_F32
    have "\<exists>x. get_float J v = Inr x \<and> cfun_get_f32 J m s off dflt = Some (Inr (Double (to_double J x)), m)"
      using set unfolding LIST_F32 set_scalar_def cfun_set_f32_def cfun_get_f32_def janet_list_kind.case
      by (rule field [where img = "capnp_store_le32"])
        (auto simp: capnp_builder_set_u32_def reads(3))
    then show ?thesis by (auto simp: LIST_F32 get_scalar_def given_def get_def get_float_def split: option.splits)
  next
    case LIST_F64
    have "\<exists>x. get (getnumber J) v = Inr x \<and> cfun_get_f64 J m s off dflt = Some (Inr (Double x), m)"
      using set unfolding LIST_F64 set_scalar_def cfun_set_f64_def cfun_get_f64_def janet_list_kind.case
      by (rule field [where img = "capnp_store_le64"])
        (auto simp: capnp_builder_set_u64_def reads(4))
    then show ?thesis by (auto simp: LIST_F64 get_scalar_def given_def get_def get_float_def split: option.splits)
  qed (use assms(2) in simp_all)
qed


lemma bool_roundtrip:
  assumes "field_set J kind w p off v dflt w' m s" "kind \<in> {LIST_BOOL}"
  shows "\<exists>x. given J kind v = Some x \<and> get_scalar J kind m s off dflt = Some (Inr x, m)"
proof -
  note J = field_setD(1) [OF assms(1)] and w = field_setD(2-4) [OF assms(1)] and set = field_setD(5) [OF assms(1)]
  note reads = field_set_reads [OF assms(1)] and field = field_roundtrip [OF J w]
  show ?thesis
  proof (cases kind)
    case LIST_BOOL
    obtain i x d where g: "getuinteger J off = Some i" "getboolean J v = Some x" "opt (get (getboolean J)) False dflt = Inr d"
      "require_bool_range p i ''capnp/set-bool'' = Inr ()"
      "capnp_builder_set_bool (w_builder w) (h_body p) (unat i) (x \<noteq> d) = Some (CAPNP_OK, w_builder w')"
      using set unfolding LIST_BOOL set_scalar_def cfun_set_bool_def janet_list_kind.case
      by (rule set_field_inv) (auto simp: get_def split: option.splits)
    note f = data_fits(2) [OF g(4)]
    have i: "getinteger J off = Some i" by (rule offset_same [OF J g(1)]) (use f w(3) in simp)
    have "opt (\<lambda>v. map_sum id of_bool (get (getboolean J) v)) 0 dflt = Inr (of_bool d :: int)"
      using g(3) by (auto simp: opt_def get_def split: option.splits)
    moreover have "capnp_get_bool m s (unat i) 0 = Some (of_bool (x \<noteq> d))"
      by (rule bool_reads [OF w f g(5) field_setD(6,7) [OF assms(1)]])
    ultimately have "cfun_get_bool J m s off dflt = Some (Inr (Boolean x), m)"
      unfolding cfun_get_bool_def by (intro get_field_eq [OF i]) auto
    then show ?thesis using g(2) by (simp add: LIST_BOOL get_scalar_def given_def)
  qed (use assms(2) in simp_all)
qed

text \<open>
  C8 What is set is what is got. When a scalar setter of the module returned, the getter of the same
  type, called with the same offset and the same default on a message with the arena's segments,
  returns the value that was set, for all eleven types and any default: integers exactly, 64-bit
  ones boxed beyond \<open>2 ^ 53\<close>, floats as the C conversion rounded them.
\<close>

theorem scalar_roundtrip:
  assumes J: "api_ok J" and w: "wrap_ok w" "ptr_ok w p" "h_dwords p < 2 ^ 16"
    and set: "set_scalar J kind w p off v dflt = Some (Inr (), w')"
    and m: "holds m (segs_at w')" and s: "struct_view s (h_body p) (h_dwords p) (h_pwords p)"
  shows "\<exists>x. given J kind v = Some x \<and> get_scalar J kind m s off dflt = Some (Inr x, m)"
proof -
  have u: "field_set J kind w p off v dflt w' m s" using assms by (simp add: field_set_def)
  show ?thesis
    using narrow_roundtrip [OF u] wide_roundtrip [OF u] float_roundtrip [OF u] bool_roundtrip [OF u] by (cases kind) simp_all
qed

theorem scalar_roundtrip_witness:
  "\<exists>w'. set_scalar demo_api LIST_U16 demo_wrap demo_ptr (I 2) (I 7) (Some (I 5)) = Some (Inr (), w') \<and>
     get_scalar demo_api LIST_U16 (msg_of (segs_at w')) demo_view (I 2) (Some (I 5)) = Some (Inr (Number 7), msg_of (segs_at w'))"
proof -
  define segs where "segs = [[0, 0, 0, 0, 1, 0, 2, 0, 0, 0, 2, 0] @ replicate 20 0 :: byte list]"
  have "\<exists>w'. set_scalar demo_api LIST_U16 demo_wrap demo_ptr (I 2) (I 7) (Some (I 5)) = Some (Inr (), w') \<and> segs_at w' = segs"
    by (simp add: set_scalar_def cfun_set_u16_def set_field_def get_def opt_def demo_api_def int_in_def demo_wrap_def demo_ptr_def
        require_data_range_def check_builder_result_def capnp_builder_set_u16_def set_bytes_def body_ok_def build segs_of_def
        seg_used_def segs_def) (simp add: numeral_2_eq_2)
  then obtain w' where w': "set_scalar demo_api LIST_U16 demo_wrap demo_ptr (I 2) (I 7) (Some (I 5)) = Some (Inr (), w')"
    "segs_at w' = segs" by blast
  have h: "holds (msg_of segs) (segs_at w')" unfolding w'(2) by (rule holds_msg_of) (simp_all add: segs_def MAX_SEGMENTS_def)
  have "struct_view demo_view (h_body demo_ptr) (h_dwords demo_ptr) (h_pwords demo_ptr)" "h_dwords demo_ptr < 2 ^ 16"
    using demo_struct_view by (simp_all add: demo_ptr_def)
  moreover have "given demo_api LIST_U16 (I 7) = Some (Number 7)" by (simp add: given_def demo_api_def int_in_def)
  ultimately show ?thesis
    using scalar_roundtrip [OF demo_api demo_wrap_ok(1,2) _ w'(1) h] w' by auto
qed

end
