(* ===== verification/Client.thy ===== *)
theory Client
  imports RpcServe
begin

text \<open>
  The program \<open>interop/rpc_client.c\<close>: a vat over a socket. It reads messages from the byte stream of
  its peer (\<open>read_all\<close>, \<open>read_frame\<close>), writes its own (\<open>send_fd\<close>), and calls \<open>add(20, 22)\<close> on the
  bootstrap object of the peer.

  The operating system is the parameter \<open>os\<close>: whether a connection succeeds, and how many bytes a
  call of \<open>read\<close> or \<open>write\<close> moves. A socket is what the peer sends before it closes the connection,
  what was written, and the number of calls so far. \<open>None\<close> is an access outside an object.
\<close>

section \<open>Sockets\<close>

record os =
  connects :: "nat \<Rightarrow> bool"
  os_read :: "nat \<Rightarrow> nat \<Rightarrow> nat \<Rightarrow> int"
  os_write :: "nat \<Rightarrow> nat \<Rightarrow> int"

text \<open>\<open>os_read sys k count avail\<close> is the result of call \<open>k\<close> of \<open>read\<close>, \<open>os_write sys k count\<close> of call \<open>k\<close> of
  \<open>write\<close>. They never exceed what was asked for or what is there.\<close>

definition os_ok :: "os \<Rightarrow> bool" where
  "os_ok sys \<longleftrightarrow> (\<forall>k n avail. os_read sys k n avail \<le> int (min n avail)) \<and> (\<forall>k n. os_write sys k n \<le> int n)"

text \<open>No call fails: \<open>read\<close> blocks until there is a byte and \<open>write\<close> until one fits.\<close>

definition no_failures :: "os \<Rightarrow> bool" where
  "no_failures sys \<longleftrightarrow> (\<forall>k n avail. 0 < n \<longrightarrow> 0 < avail \<longrightarrow> 0 < os_read sys k n avail) \<and> (\<forall>k n. 0 < n \<longrightarrow> 0 < os_write sys k n)"

record socket =
  inbox :: "byte list"
  nreads :: nat
  outbox :: "byte list"
  nwrites :: nat

definition socket0 :: "byte list \<Rightarrow> socket" where
  "socket0 bytes = \<lparr>inbox = bytes, nreads = 0, outbox = [], nwrites = 0\<rparr>"

section \<open>Writing\<close>

function write_loop :: "os \<Rightarrow> socket \<Rightarrow> byte list \<Rightarrow> nat \<Rightarrow> int \<times> socket" where
  "write_loop sys s data off =
     (if off < length data then
        let n = os_write sys (nwrites s) (length data - off) in
        if n \<le> 0 then (- 1, s\<lparr>nwrites := nwrites s + 1\<rparr>)
        else write_loop sys (s\<lparr>outbox := outbox s @ take (nat n) (drop off data), nwrites := nwrites s + 1\<rparr>) data (off + nat n)
      else (0, s))"
  by pat_completeness auto
termination
  by (relation "measure (\<lambda>(sys, s, data, off). length data - off)") auto

declare write_loop.simps [simp del]

definition send_fd :: "os \<Rightarrow> socket \<Rightarrow> byte list \<Rightarrow> int \<times> socket" where
  "send_fd sys s data = write_loop sys s data 0"

text \<open>The callback as \<open>capnp_rpc_init\<close> takes it: its result after the frames sent so far.\<close>

definition after_sends :: "os \<Rightarrow> byte list list \<Rightarrow> socket" where
  "after_sends sys frames = foldl (\<lambda>s f. snd (send_fd sys s f)) (socket0 []) frames"

definition send_callback :: "os \<Rightarrow> byte list list \<Rightarrow> byte list \<Rightarrow> int" where
  "send_callback sys frames data = fst (send_fd sys (after_sends sys frames) data)"

section \<open>Reading\<close>

text \<open>\<open>count\<close> bytes to address \<open>a\<close> of the buffer.\<close>

function read_loop_fd :: "os \<Rightarrow> socket \<Rightarrow> byte list \<Rightarrow> nat \<Rightarrow> nat \<Rightarrow> nat \<Rightarrow> (int \<times> socket \<times> byte list) option" where
  "read_loop_fd sys s buf a n off =
     (if off < n then
        let k = os_read sys (nreads s) (n - off) (length (inbox s)) in
        if k \<le> 0 then Some (if k = 0 \<and> 0 < off then int off else k, s\<lparr>nreads := nreads s + 1\<rparr>, buf)
        else (case wr buf (a + off) (take (nat k) (inbox s)) of
            None \<Rightarrow> None
          | Some buf \<Rightarrow> read_loop_fd sys (s\<lparr>inbox := drop (nat k) (inbox s), nreads := nreads s + 1\<rparr>) buf a n (off + nat k))
      else Some (int off, s, buf))"
  by pat_completeness auto
termination
  by (relation "measure (\<lambda>(sys, s, buf, a, n, off). n - off)") auto

declare read_loop_fd.simps [simp del]

definition read_all :: "os \<Rightarrow> socket \<Rightarrow> byte list \<Rightarrow> nat \<Rightarrow> nat \<Rightarrow> (int \<times> socket \<times> byte list) option" where
  "read_all sys s buf a n = read_loop_fd sys s buf a n 0"

text \<open>The loop that adds the sizes in the segment table, in 32 bits.\<close>

fun sum_sizes :: "byte list \<Rightarrow> nat \<Rightarrow> nat \<Rightarrow> u32 \<Rightarrow> u32 option" where
  "sum_sizes buf i 0 acc = Some acc"
| "sum_sizes buf i (Suc k) acc = do {
     w \<leftarrow> rd buf (4 + i * 4) 4;
     sum_sizes buf (i + 1) k (acc + capnp_load_le32 w) }"

definition read_frame :: "os \<Rightarrow> socket \<Rightarrow> byte list \<Rightarrow> nat \<Rightarrow> (int \<times> socket \<times> byte list) option" where
  "read_frame sys s buf cap = do {
     (n, s, buf) \<leftarrow> read_all sys s buf 0 4;
     if n \<noteq> 4 then Some (- 1, s, buf) else do {
     w \<leftarrow> rd buf 0 4;
     let nsegs = capnp_load_le32 w + 1;
     if nsegs > 64 then Some (- 1, s, buf) else do {
     let table_bytes = 4 + nsegs * 4;
     let table_bytes = (if table_bytes mod 8 \<noteq> 0 then table_bytes + 4 else table_bytes);
     if unat table_bytes > cap then Some (- 1, s, buf) else do {
     (n, s, buf) \<leftarrow> read_all sys s buf 4 (unat (table_bytes - 4));
     if n \<noteq> int (unat (table_bytes - 4)) then Some (- 1, s, buf) else do {
     total_words \<leftarrow> sum_sizes buf 0 (unat nsegs) 0;
     if unat (table_bytes + total_words * 8) > cap then Some (- 1, s, buf) else do {
     (n, s, buf) \<leftarrow> read_all sys s buf (unat table_bytes) (unat (total_words * 8));
     if n \<noteq> int (unat (total_words * 8)) then Some (- 1, s, buf)
     else Some (int (unat (table_bytes + total_words * 8)), s, buf) } } } } } }"

section \<open>The client\<close>

definition ADDER_IFACE :: u64 where "ADDER_IFACE = 0xea01e10cbc414411"

definition fill_add :: "u64 \<Rightarrow> u64 \<Rightarrow> builder \<Rightarrow> bptr \<Rightarrow> builder option" where
  "fill_add x y b params = do {
     (_, b) \<leftarrow> capnp_builder_set_u64 b params 0 x;
     (_, b) \<leftarrow> capnp_builder_set_u64 b params 8 y;
     Some b }"

text \<open>One reply: a frame is read into the buffer and handled. The first component says whether it was.\<close>

definition take_reply ::
    "allocator \<Rightarrow> os \<Rightarrow> conn \<Rightarrow> socket \<Rightarrow> byte list \<Rightarrow> (bool \<times> conn \<times> socket \<times> byte list) option" where
  "take_reply A sys c s buf = do {
     (n, s, buf) \<leftarrow> read_frame sys s buf 16384;
     if n \<le> 0 then Some (False, c, s, buf) else do {
     data \<leftarrow> rd buf 0 (nat n);
     (r, c) \<leftarrow> capnp_rpc_handle A c data;
     Some (r = 0, c, s, buf) } }"

text \<open>\<open>main\<close>: the exit status and the connection. \<open>stack\<close> is what the buffer holds at the start,
  \<open>bytes\<close> what the peer sends.\<close>

definition client_main :: "allocator \<Rightarrow> os \<Rightarrow> byte list \<Rightarrow> byte list \<Rightarrow> (int \<times> conn) option" where
  "client_main A sys stack bytes =
     (let c = capnp_rpc_init (send_callback sys); s = socket0 bytes; fail = (\<lambda>c. Some (1, c)) in
      if \<not> list_ex (connects sys) [0..<100] then fail c else do {
      (qboot, c) \<leftarrow> capnp_rpc_send_bootstrap A c;
      if qboot = - 1 then fail c else do {
      (handled, c, s, buf) \<leftarrow> take_reply A sys c s stack;
      if \<not> handled then fail c
      else if \<not> capnp_rpc_is_answered c qboot \<or> capnp_rpc_is_failed c qboot then fail c else do {
      (qcall, c) \<leftarrow> capnp_rpc_send_call A c 0 ADDER_IFACE 0 2 0 (Some (fill_add 20 22));
      if qcall = - 1 then fail c else do {
      (handled, c, s, buf) \<leftarrow> take_reply A sys c s buf;
      if \<not> handled then fail c
      else if \<not> capnp_rpc_is_answered c qcall then fail c
      else if capnp_rpc_is_failed c qcall then fail c else do {
      (r, m, content) \<leftarrow> capnp_rpc_answer_content A c qcall;
      if r \<noteq> CAPNP_OK then fail c else do {
      sum \<leftarrow> capnp_get_u64 m content 0 0;
      if sint sum \<noteq> 42 then fail c else Some (0, c) } } } } } })"

end
