(* ===== verification/ClientProps.thy ===== *)
theory ClientProps
  imports Client Framing
begin

text \<open>
  The transport of the client: however the socket cuts the stream, a write delivers exactly its
  bytes, a read fills exactly its range, and \<open>read_frame\<close> takes exactly one message.
\<close>

section \<open>Writing\<close>

lemma write_loop_all:
  assumes "os_ok sys" "no_failures sys" "off \<le> length data"
  shows "\<exists>k. write_loop sys s data off = (0, s\<lparr>outbox := outbox s @ drop off data, nwrites := k\<rparr>)"
  using assms(3)
proof (induction "length data - off" arbitrary: s off rule: less_induct)
  case less
  show ?case
  proof (cases "off < length data")
    case True
    define n where "n = nat (os_write sys (nwrites s) (length data - off))"
    have n: "0 < n" "off + n \<le> length data" "os_write sys (nwrites s) (length data - off) = int n"
    proof -
      have "0 < os_write sys (nwrites s) (length data - off)"
        using assms(2) True by (simp add: no_failures_def)
      moreover have "os_write sys (nwrites s) (length data - off) \<le> int (length data - off)"
        using assms(1) unfolding os_ok_def by blast
      ultimately
      show "0 < n" "off + n \<le> length data" "os_write sys (nwrites s) (length data - off) = int n"
        using True by (auto simp: n_def)
    qed
    let ?s = "s\<lparr>outbox := outbox s @ take n (drop off data), nwrites := nwrites s + 1\<rparr>"
    obtain k where "write_loop sys ?s data (off + n) = (0, ?s\<lparr>outbox := outbox ?s @ drop (off + n) data, nwrites := k\<rparr>)"
    proof -
      have "length data - (off + n) < length data - off" "off + n \<le> length data" using n(1,2) by simp_all
      from less.hyps [OF this] show thesis using that by blast
    qed
    moreover have "take n (drop off data) @ drop (off + n) data = drop off data"
      by (metis append_take_drop_id add.commute drop_drop)
    ultimately show ?thesis using True n by (subst write_loop.simps) (auto simp: Let_def)
  next
    case False
    then show ?thesis by (subst write_loop.simps) (auto intro!: exI [of _ "nwrites s"])
  qed
qed

lemma send_fd_all:
  assumes "os_ok sys" "no_failures sys"
  shows "\<exists>k. send_fd sys s data = (0, s\<lparr>outbox := outbox s @ data, nwrites := k\<rparr>)"
  using write_loop_all [OF assms, of 0 data s] by (simp add: send_fd_def)

lemma sends_all:
  assumes "os_ok sys" "no_failures sys"
  shows "send_callback sys frames data = 0" "outbox (after_sends sys frames) = concat frames"
proof -
  show "send_callback sys frames data = 0"
    using send_fd_all [OF assms, of "after_sends sys frames" data] by (auto simp: send_callback_def)
  have "outbox (foldl (\<lambda>s f. snd (send_fd sys s f)) s frames) = outbox s @ concat frames" for s
  proof (induction frames arbitrary: s)
    case (Cons f frames)
    obtain k where "send_fd sys s f = (0, s\<lparr>outbox := outbox s @ f, nwrites := k\<rparr>)" using send_fd_all [OF assms] by blast
    then show ?case using Cons by simp
  qed simp
  then show "outbox (after_sends sys frames) = concat frames" by (simp add: after_sends_def socket0_def)
qed

section \<open>Reading\<close>

lemma read_call:
  assumes "os_ok sys" "no_failures sys" "0 < n" "0 < avail"
  obtains k where "os_read sys i n avail = int k" "0 < k" "k \<le> n" "k \<le> avail"
proof -
  have "0 < os_read sys i n avail" "os_read sys i n avail \<le> int (min n avail)" using assms by (auto simp: os_ok_def no_failures_def)
  then show thesis using that [of "nat (os_read sys i n avail)"] by auto
qed

text \<open>Enough bytes and enough room: the range is filled.\<close>

lemma recv_loop_exact:
  assumes sys: "os_ok sys" "no_failures sys"
    and "off \<le> n" "n - off \<le> length (inbox s)" "a + n \<le> length buf"
  shows "\<exists>k. read_loop_fd sys s buf a n off = Some (int n, s\<lparr>inbox := drop (n - off) (inbox s), nreads := k\<rparr>,
    take (a + off) buf @ take (n - off) (inbox s) @ drop (a + n) buf)"
  using assms(3-5)
proof (induction "n - off" arbitrary: s buf off rule: less_induct)
  case less
  show ?case
  proof (cases "off < n")
    case True
    then have "0 < n - off" "0 < length (inbox s)" using less.prems by auto
    from read_call [OF sys this, of "nreads s"] obtain k where
      k: "os_read sys (nreads s) (n - off) (length (inbox s)) = int k" "0 < k" "k \<le> n - off" "k \<le> length (inbox s)" .
    define buf' where "buf' = take (a + off) buf @ take k (inbox s) @ drop (a + off + k) buf"
    have w: "wr buf (a + off) (take k (inbox s)) = Some buf'"
      using k less.prems by (simp add: wr_def buf'_def)
    let ?s = "s\<lparr>inbox := drop k (inbox s), nreads := nreads s + 1\<rparr>"
    have len: "length buf' = length buf" using k less.prems by (simp add: buf'_def)
    obtain j where j: "read_loop_fd sys ?s buf' a n (off + k) = Some (int n,
        ?s\<lparr>inbox := drop (n - (off + k)) (inbox ?s), nreads := j\<rparr>,
        take (a + (off + k)) buf' @ take (n - (off + k)) (inbox ?s) @ drop (a + n) buf')"
    proof -
      have "n - (off + k) < n - off" "off + k \<le> n" "n - (off + k) \<le> length (inbox ?s)" "a + n \<le> length buf'"
        using k less.prems len by simp_all
      from less.hyps [OF this] show thesis using that by blast
    qed
    obtain u where u: "n = off + k + u" using k(3) True by (metis add_diff_inverse_nat le_Suc_ex less_imp_not_less add.assoc)
    then have "take (a + (off + k)) buf' = take (a + off) buf @ take k (inbox s)" "drop (a + n) buf' = drop (a + n) buf"
      using k less.prems by (simp_all add: buf'_def min_absorb2 add.assoc add.commute add.left_commute)
    moreover have "take k (inbox s) @ take (n - (off + k)) (drop k (inbox s)) = take (n - off) (inbox s)"
      using k(3) by (metis add_diff_inverse_nat diff_diff_left not_less take_add)
    moreover have "n - (off + k) + k = n - off" using k(3) by simp
    ultimately show ?thesis using True k w j by (subst read_loop_fd.simps) (auto simp: Let_def)
  next
    case False
    then show ?thesis using less.prems by (subst read_loop_fd.simps) (auto intro!: exI [of _ "nreads s"])
  qed
qed

lemma read_all_exact:
  assumes "os_ok sys" "no_failures sys" "n \<le> length (inbox s)" "a + n \<le> length buf"
  shows "\<exists>k. read_all sys s buf a n = Some (int n, s\<lparr>inbox := drop n (inbox s), nreads := k\<rparr>,
    take a buf @ take n (inbox s) @ drop (a + n) buf)"
  using recv_loop_exact [OF assms(1,2), of 0 n s a buf] assms(3,4) by (simp add: read_all_def)

text \<open>Fewer bytes: the result is not the count.\<close>

lemma read_loop_short:
  assumes sys: "os_ok sys"
    and "off < n" "length (inbox s) < n - off" "a + off + length (inbox s) \<le> length buf"
  shows "\<exists>r s' buf'. read_loop_fd sys s buf a n off = Some (r, s', buf') \<and> r < int n"
  using assms(2-4)
proof (induction "n - off" arbitrary: s buf off rule: less_induct)
  case less
  let ?k = "os_read sys (nreads s) (n - off) (length (inbox s))"
  show ?case
  proof (cases "?k \<le> 0")
    case True
    then show ?thesis using less.prems by (subst read_loop_fd.simps) (auto simp: Let_def)
  next
    case False
    define k where "k = nat ?k"
    have "?k \<le> int (min (n - off) (length (inbox s)))" using sys by (simp add: os_ok_def)
    then have k: "?k = int k" "0 < k" "k \<le> length (inbox s)" "k \<le> n - off" using False by (auto simp: k_def)
    define buf' where "buf' = take (a + off) buf @ take k (inbox s) @ drop (a + off + k) buf"
    have w: "wr buf (a + off) (take k (inbox s)) = Some buf'" using k less.prems by (simp add: wr_def buf'_def)
    let ?s = "s\<lparr>inbox := drop k (inbox s), nreads := nreads s + 1\<rparr>"
    have len: "length buf' = length buf" using k less.prems by (simp add: buf'_def)
    have "n - (off + k) < n - off" using k(2) less.prems(1) by simp
    moreover have "off + k < n" "length (inbox ?s) < n - (off + k)" "a + (off + k) + length (inbox ?s) \<le> length buf'"
      using k less.prems len by simp_all
    ultimately have "\<exists>r s' buf''. read_loop_fd sys ?s buf' a n (off + k) = Some (r, s', buf'') \<and> r < int n"
      by (rule less.hyps)
    then show ?thesis using k w less.prems by (subst read_loop_fd.simps) (auto simp: Let_def)
  qed
qed

text \<open>More bytes than room: the buffer is overrun.\<close>

lemma read_loop_overruns:
  assumes sys: "os_ok sys" "no_failures sys"
    and "a + off \<le> length buf" "length buf < a + n" "length buf < a + off + length (inbox s)"
  shows "read_loop_fd sys s buf a n off = None"
  using assms(3-5)
proof (induction "n - off" arbitrary: s buf off rule: less_induct)
  case less
  then have "0 < n - off" "0 < length (inbox s)" by auto
  from read_call [OF sys this, of "nreads s"] obtain k where
    k: "os_read sys (nreads s) (n - off) (length (inbox s)) = int k" "0 < k" "k \<le> n - off" "k \<le> length (inbox s)" .
  show ?case
  proof (cases "a + off + k \<le> length buf")
    case True
    define buf' where "buf' = take (a + off) buf @ take k (inbox s) @ drop (a + off + k) buf"
    have w: "wr buf (a + off) (take k (inbox s)) = Some buf'" using k True by (simp add: wr_def buf'_def)
    have len: "length buf' = length buf" using k True by (simp add: buf'_def)
    let ?s = "s\<lparr>inbox := drop k (inbox s), nreads := nreads s + 1\<rparr>"
    have "read_loop_fd sys ?s buf' a n (off + k) = None"
      by (rule less.hyps) (use k True less.prems len in simp_all)
    then show ?thesis using k w \<open>0 < n - off\<close> by (subst read_loop_fd.simps) (simp add: Let_def)
  next
    case False
    then have "wr buf (a + off) (take k (inbox s)) = None" using k by (simp add: wr_def)
    then show ?thesis using k \<open>0 < n - off\<close> by (subst read_loop_fd.simps) (simp add: Let_def)
  qed
qed

section \<open>Messages\<close>

text \<open>The loop over the table, on a buffer that starts with the table.\<close>

lemma sum_sizes_eq:
  "4 + 4 * (i + k) \<le> length buf \<Longrightarrow> sum_sizes buf i k t =
     Some (t + word_of_nat (sum_list (map (\<lambda>j. unat (capnp_load_le32 (take 4 (drop (4 + 4 * j) buf)))) [i..<i + k])))"
proof (induction k arbitrary: i t)
  case (Suc k)
  then have "sum_sizes buf (i + 1) k (t + capnp_load_le32 (take 4 (drop (4 + 4 * i) buf))) =
      Some (t + capnp_load_le32 (take 4 (drop (4 + 4 * i) buf)) +
        word_of_nat (sum_list (map (\<lambda>j. unat (capnp_load_le32 (take 4 (drop (4 + 4 * j) buf)))) [i + 1..<i + 1 + k])))"
    by (intro Suc.IH) simp
  then show ?case using Suc.prems by (simp add: rd_def mult.commute upt_conv_Cons add.assoc del: upt_Suc)
qed simp

lemma sum_sizes_stream:
  assumes "stream_count data = n" "4 + 4 * n \<le> t" "t \<le> length data"
  shows "sum_sizes (take t data @ rest) 0 n 0 = Some (word_of_nat (sum_list (stream_sizes data)))"
proof -
  have "take 4 (drop (4 + 4 * j) (take t data @ rest)) = take 4 (drop (4 + 4 * j) data)" if "j < n" for j
  proof -
    have "4 + 4 * j + 4 \<le> t" using that assms by simp
    then obtain u where "t = 4 + 4 * j + 4 + u" using le_Suc_ex by blast
    then show ?thesis using assms(3) by (simp add: drop_take)
  qed
  then have "map (\<lambda>j. unat (capnp_load_le32 (take 4 (drop (4 + 4 * j) (take t data @ rest))))) [0..<n] = stream_sizes data"
    using assms(1) by (simp add: stream_sizes_def del: take_append drop_append)
  moreover have "4 + 4 * (0 + n) \<le> length (take t data @ rest)" using assms by simp
  ultimately show ?thesis by (subst sum_sizes_eq) (simp_all del: take_append drop_append length_append)
qed

lemma table_bytes_word:
  fixes n :: u32
  assumes "unat n \<le> 64"
  defines "t \<equiv> (if (4 + n * 4) mod 8 \<noteq> 0 then 4 + n * 4 + 4 else 4 + n * 4)"
  shows "unat t = table_size (unat n)" "unat (t - 4) = table_size (unat n) - 4"
proof -
  have a: "unat (n * 4) = unat n * 4" using assms(1) by (subst unat_mult_lem [THEN iffD1]) simp_all
  then have b: "unat (4 + n * 4) = 4 + 4 * unat n" using assms(1) by (subst unat_add_lem [THEN iffD1]) simp_all
  then have c: "unat (4 + n * 4 + 4) = 4 + 4 * unat n + 4" using assms(1) by (subst unat_add_lem [THEN iffD1]) simp_all
  have m: "(4 + n * 4) mod 8 = 0 \<longleftrightarrow> (4 + 4 * unat n) mod 8 = 0"
  proof -
    have "unat ((4 + n * 4) mod 8) = (4 + 4 * unat n) mod 8" unfolding unat_mod_distrib b by simp
    then show ?thesis by (metis unat_eq_zero)
  qed
  show t: "unat t = table_size (unat n)" using b c m by (auto simp: t_def table_size_def Let_def)
  have "4 \<le> table_size (unat n)" using table_size_bounds(1) [of "unat n"] by simp
  then have "(4 :: u32) \<le> t" using t by (simp add: word_le_nat_alt)
  then show "unat (t - 4) = table_size (unat n) - 4" using t by (simp add: unat_sub)
qed

text \<open>\<open>read_frame\<close> in three steps: the count, the table and the bodies. When nothing wraps around, the
  second and third compute with the sizes of \<open>stream_sizes\<close>.\<close>

definition frame_rest :: "os \<Rightarrow> socket \<Rightarrow> byte list \<Rightarrow> nat \<Rightarrow> nat \<Rightarrow> nat \<Rightarrow> (int \<times> socket \<times> byte list) option" where
  "frame_rest sys s buf cap t m =
     (if t + m * 8 > cap then Some (- 1, s, buf) else do {
      (n, s, buf) \<leftarrow> read_all sys s buf t (m * 8);
      if n \<noteq> int (m * 8) then Some (- 1, s, buf) else Some (int (t + m * 8), s, buf) })"

lemma read_frame_refused:
  assumes "read_all sys s buf 0 4 = Some (n, s1, b1)" "n = 4 \<Longrightarrow> rd b1 0 4 = Some (take 4 data) \<and> 64 < stream_count data"
  shows "read_frame sys s buf cap = Some (- 1, s1, b1)"
  using assms by (cases "n = 4") (simp_all add: read_frame_def stream_count_def word_less_nat_alt)

lemma read_frame_eq:
  assumes r: "read_all sys s buf 0 4 = Some (4, s1, b1)" "rd b1 0 4 = Some (take 4 data)" "stream_count data \<le> 64"
    and t: "t = table_size (stream_count data)"
  shows "read_frame sys s buf cap = (if t > cap then Some (- 1, s1, b1) else do {
     (n, s, buf) \<leftarrow> read_all sys s1 b1 4 (t - 4);
     if n \<noteq> int (t - 4) then Some (- 1, s, buf) else do {
     total_words \<leftarrow> sum_sizes buf 0 (stream_count data) 0;
     if unat (word_of_nat t + total_words * 8 :: u32) > cap then Some (- 1, s, buf) else do {
     (n, s, buf) \<leftarrow> read_all sys s buf t (unat (total_words * 8));
     if n \<noteq> int (unat (total_words * 8)) then Some (- 1, s, buf)
     else Some (int (unat (word_of_nat t + total_words * 8 :: u32)), s, buf) } } })"
proof -
  define w where "w = capnp_load_le32 (take 4 data) + 1"
  define tb :: u32 where "tb = (if (4 + w * 4) mod 8 \<noteq> 0 then 4 + w * 4 + 4 else 4 + w * 4)"
  have w: "unat w = stream_count data" "unat w \<le> 64" "(64 < w) = False" "(int 4 \<noteq> 4) = False" "(4 \<noteq> (4 :: int)) = False"
    using r(3) by (simp_all add: w_def stream_count_def word_less_nat_alt)
  note tb = table_bytes_word [OF w(2), folded tb_def, unfolded w(1), folded t]
  have "word_of_nat (unat tb) = tb" by simp
  then have "word_of_nat t = tb" by (simp only: tb)
  then show ?thesis
    unfolding read_frame_def Let_def r(1,2) Option.bind.bind_lunit prod.case w_def [symmetric] tb_def [symmetric]
    by (simp only: w tb if_False)
qed

lemma read_frame_table:
  assumes r: "read_all sys s buf 0 4 = Some (4, s1, b1)" "rd b1 0 4 = Some (take 4 data)" "stream_count data \<le> 64"
    and t: "t = table_size (stream_count data)"
  shows "cap < t \<Longrightarrow> read_frame sys s buf cap = Some (- 1, s1, b1)"
    and "t \<le> cap \<Longrightarrow> read_all sys s1 b1 4 (t - 4) = Some (n, s2, b2) \<Longrightarrow> n \<noteq> int (t - 4) \<Longrightarrow>
      read_frame sys s buf cap = Some (- 1, s2, b2)"
    and "t \<le> cap \<Longrightarrow> read_all sys s1 b1 4 (t - 4) = Some (int (t - 4), s2, b2) \<Longrightarrow>
      sum_sizes b2 0 (stream_count data) 0 = Some (word_of_nat m) \<Longrightarrow> t + m * 8 < 2 ^ 32 \<Longrightarrow>
      read_frame sys s buf cap = frame_rest sys s2 b2 cap t m"
proof -
  note e = read_frame_eq [OF r t, of cap]
  show "cap < t \<Longrightarrow> read_frame sys s buf cap = Some (- 1, s1, b1)"
    "t \<le> cap \<Longrightarrow> read_all sys s1 b1 4 (t - 4) = Some (n, s2, b2) \<Longrightarrow> n \<noteq> int (t - 4) \<Longrightarrow>
      read_frame sys s buf cap = Some (- 1, s2, b2)"
    unfolding e by simp_all
  assume m: "t \<le> cap" "read_all sys s1 b1 4 (t - 4) = Some (int (t - 4), s2, b2)"
    "sum_sizes b2 0 (stream_count data) 0 = Some (word_of_nat m)" "t + m * 8 < 2 ^ 32"
  have small: "unat (word_of_nat k :: u32) = k" if "k \<le> t + m * 8" for k
    using m(4) that by (simp add: unsigned_of_nat take_bit_nat_eq_self)
  have m8: "unat (word_of_nat m * 8 :: u32) = m * 8" using small [of "m * 8"] by simp
  have all: "unat (word_of_nat t + word_of_nat m * 8 :: u32) = t + m * 8" using small [of "t + m * 8"] by simp
  have "(t > cap) = False" "(int (t - 4) \<noteq> int (t - 4)) = False" using m(1) by simp_all
  then show "read_frame sys s buf cap = frame_rest sys s2 b2 cap t m"
    unfolding e frame_rest_def m(2,3) Option.bind.bind_lunit prod.case all m8 by (simp only: if_False)
qed

lemma table_read:
  assumes "t = table_size n" "t \<le> length data"
  shows "take 4 (take 4 data @ drop 4 buf) @ take (t - 4) (drop 4 data) @ drop (4 + (t - 4)) (take 4 data @ drop 4 buf) =
    take t data @ drop t buf" "drop (t - 4) (drop 4 data) = drop t data"
proof -
  have "8 \<le> t" using assms(1) by (simp add: table_size_def Let_def) presburger
  then obtain u where u: "t = 4 + u" using le_Suc_ex [of 4 t] by auto
  have "take 4 data @ take u (drop 4 data) = take t data" unfolding u by (simp add: take_add)
  then show "take 4 (take 4 data @ drop 4 buf) @ take (t - 4) (drop 4 data) @ drop (4 + (t - 4)) (take 4 data @ drop 4 buf) =
    take t data @ drop t buf" "drop (t - 4) (drop 4 data) = drop t data"
    using u assms(2) by (simp_all add: min_absorb2 add.commute)
qed

lemma body_read:
  assumes "t + k \<le> length data"
  shows "take t (take t data @ drop t buf) @ take k (drop t data) @ drop (t + k) (take t data @ drop t buf) =
    take (t + k) data @ drop (t + k) buf" "drop k (drop t data) = drop (t + k) data"
proof -
  have "drop (t + k) (take t data @ drop t buf) = drop (t + k) buf" using assms by (simp add: min_absorb2 add.commute)
  then show "take t (take t data @ drop t buf) @ take k (drop t data) @ drop (t + k) (take t data @ drop t buf) =
    take (t + k) data @ drop (t + k) buf" using assms by (simp add: take_add)
  show "drop k (drop t data) = drop (t + k) data" by (simp add: add.commute)
qed

text \<open>A message that fits is taken whole, and nothing behind it.\<close>

lemma read_frame_spec:
  assumes sys: "os_ok sys" "no_failures sys"
    and n: "stream_count data \<le> 64"
    and total: "t = table_size (stream_count data)" "m = sum_list (stream_sizes data)"
    and fits: "t + m * 8 \<le> length data" "t + m * 8 \<le> cap" "cap \<le> length buf" "cap < 2 ^ 32"
    and inbox: "inbox s = data"
  shows "\<exists>k. read_frame sys s buf cap =
    Some (int (t + m * 8), s\<lparr>inbox := drop (t + m * 8) data, nreads := k\<rparr>, take (t + m * 8) data @ drop (t + m * 8) buf)"
proof -
  have t: "4 \<le> t" "4 + 4 * stream_count data \<le> t"
    using table_size_bounds(1) [of "stream_count data"] by (simp_all add: total)
  have len: "4 \<le> length data" "4 \<le> length buf" using t fits by simp_all
  obtain k1 where r1: "read_all sys s buf 0 4 = Some (4, s\<lparr>inbox := drop 4 data, nreads := k1\<rparr>, take 4 data @ drop 4 buf)"
    using read_all_exact [OF sys, of 4 s 0 buf] len inbox by auto
  let ?s1 = "s\<lparr>inbox := drop 4 data, nreads := k1\<rparr>" and ?b1 = "take 4 data @ drop 4 buf"
  have rd1: "rd ?b1 0 4 = Some (take 4 data)" using len by (simp add: rd_def)
  obtain k2 where r2: "read_all sys ?s1 ?b1 4 (t - 4) = Some (int (t - 4), s\<lparr>inbox := drop t data, nreads := k2\<rparr>, take t data @ drop t buf)"
  proof -
    have "t - 4 \<le> length (inbox ?s1)" "4 + (t - 4) \<le> length ?b1" using t fits by simp_all
    from read_all_exact [OF sys this] obtain k where r: "read_all sys ?s1 ?b1 4 (t - 4) = Some (int (t - 4),
        ?s1\<lparr>inbox := drop (t - 4) (inbox ?s1), nreads := k\<rparr>, take 4 ?b1 @ take (t - 4) (inbox ?s1) @ drop (4 + (t - 4)) ?b1)" by blast
    have i: "inbox ?s1 = drop 4 data" and l: "t \<le> length data" using fits by simp_all
    show thesis using that [of k] r unfolding i table_read [OF total(1) l] by simp
  qed
  have "sum_sizes (take t data @ drop t buf) 0 (stream_count data) 0 = Some (word_of_nat m)"
    unfolding total(2) by (rule sum_sizes_stream) (use t fits in simp_all)
  then have e: "read_frame sys s buf cap = frame_rest sys (s\<lparr>inbox := drop t data, nreads := k2\<rparr>) (take t data @ drop t buf) cap t m"
    using read_frame_table(3) [OF r1 rd1 n total(1) _ r2] fits by simp
  obtain k3 where "read_all sys (s\<lparr>inbox := drop t data, nreads := k2\<rparr>) (take t data @ drop t buf) t (m * 8) =
      Some (int (m * 8), s\<lparr>inbox := drop (t + m * 8) data, nreads := k3\<rparr>, take (t + m * 8) data @ drop (t + m * 8) buf)"
  proof -
    let ?s2 = "s\<lparr>inbox := drop t data, nreads := k2\<rparr>" and ?b2 = "take t data @ drop t buf"
    have "m * 8 \<le> length (inbox ?s2)" "t + m * 8 \<le> length ?b2" using fits by simp_all
    from read_all_exact [OF sys this] obtain k where r: "read_all sys ?s2 ?b2 t (m * 8) = Some (int (m * 8),
        ?s2\<lparr>inbox := drop (m * 8) (inbox ?s2), nreads := k\<rparr>, take t ?b2 @ take (m * 8) (inbox ?s2) @ drop (t + m * 8) ?b2)" by blast
    have i: "inbox ?s2 = drop t data" by simp
    show thesis using that [of k] r unfolding i body_read [OF fits(1)] by simp
  qed
  then show ?thesis unfolding e frame_rest_def using fits(2) by auto
qed

end
