(* ===== verification/ClientCall.thy ===== *)
theory ClientCall
  imports ClientProps RpcClaims
begin

text \<open>
  A call with parameters and its results, on the wire: what \<open>fill_add\<close> sends, what an object that
  adds answers, and what the client reads from the answer.
\<close>

section \<open>The call\<close>

definition add_cells :: "u64 \<Rightarrow> u64 \<Rightarrow> byte list list" where
  "add_cells x y = [capnp_store_le64 x, capnp_store_le64 y]"

definition add_body :: "u32 \<Rightarrow> u64 \<Rightarrow> u64 \<Rightarrow> u32 \<Rightarrow> byte list" where
  "add_body imported x y qid = concat (head_cells MSG_CALL 3 3 @ filled_cells imported ADDER_IFACE 0 2 0 (add_cells x y) qid)"

lemma add_params: "params_ok (2 + 0) (add_cells x y)"
  by (simp add: params_ok_def add_cells_def)

lemma length_add [simp]: "length (add_body imported x y qid) = 120"
  by (simp add: add_body_def add_cells_def head_cells_def filled_cells_def)

lemma fill_add_desk:
  assumes "whole d" "w * 8 + 16 \<le> length d"
  shows "fill_add x y (desk d) \<lparr>bp_seg = 0, bp_word = w\<rparr> =
    Some (desk (upd (upd d (w * 8) (capnp_store_le64 x)) (w * 8 + 8) (capnp_store_le64 y)))"
  using assms by (simp add: fill_add_def capnp_builder_set_u64_def set_bytes_desk whole_upd)

lemma send_add_ask:
  assumes "arena_ok A"
  shows "capnp_rpc_send_call A c imported ADDER_IFACE 0 2 0 (Some (fill_add x y)) = Some (ask_with A c (add_body imported x y))"
  unfolding capnp_rpc_send_call_def
  by (rule ask_emit [OF assms])
    (simp_all add: begin_message_desk b_target_def effect_def run_step desk_rules fill_add_desk add_body_def filled_cells_def add_cells_def pad_def)

section \<open>The object\<close>

text \<open>An object that adds, as a \<open>dispatch\<close> function of the peer.\<close>

definition adder :: dispatch_fn where
  "adder server iface meth m params b results =
     (if iface \<noteq> ADDER_IFACE \<or> meth \<noteq> 0 then Some (1, m, b) else do {
        x \<leftarrow> capnp_get_u64 m params 0 0;
        y \<leftarrow> capnp_get_u64 m params 8 0;
        (_, b) \<leftarrow> capnp_builder_set_u64 b results 0 (x + y);
        Some (0, m, b) })"

definition sum_cells :: "u32 \<Rightarrow> u64 \<Rightarrow> byte list list" where
  "sum_cells qid v = return_cells qid 0 @ [struct_cell 0 0 2, struct_cell 1 1 1, replicate 8 0, capnp_store_le64 v, replicate 8 0]"

definition sum_body :: "u32 \<Rightarrow> u64 \<Rightarrow> byte list" where
  "sum_body qid v = concat (sum_cells qid v)"

lemma length_sum [simp]: "length (sum_body qid v) = 80"
  by (simp add: sum_body_def sum_cells_def)

lemma sum_usual: "usual (sum_cells qid v) MSG_RETURN 2 1 ([capnp_store_le32 qid @ replicate 2 0 @ capnp_store_le16 0] @ zero_cells 1 @
    [struct_cell 0 0 2, struct_cell 1 1 1, replicate 8 0, capnp_store_le64 v, replicate 8 0])"
  by (simp add: usual_def sum_cells_def return_cells_def cells_ok_def)

lemma sum_nth:
  fixes qid v
  defines "cs \<equiv> sum_cells qid v"
  shows "length cs = 10" "cs ! 3 = capnp_store_le32 qid @ replicate 2 0 @ capnp_store_le16 0" "cs ! 5 = struct_cell 0 0 2"
    "cs ! 6 = struct_cell 1 1 1" "cs ! 7 = replicate 8 0" "cs ! 8 = capnp_store_le64 v"
  by (simp_all add: cs_def sum_cells_def return_cells_def head_cells_def)

lemma results_sum: "upd (results_body qid) 64 (capnp_store_le64 v) = sum_body qid v"
proof -
  have "results_body qid = concat (return_cells qid 0 @ [struct_cell 0 0 2, struct_cell 1 1 1, replicate 8 0]) @ replicate 16 0"
    by (simp add: results_body_def numeral_2_eq_2 zeros_merge)
  then show ?thesis by (simp add: sum_body_def sum_cells_def upd_def)
qed

lemma results_whole: "whole (results_body qid)" "length (results_body qid) = 80"
  by (simp_all add: results_body_def whole_def)

lemma adder_answers:
  assumes "bears m (head_cells MSG_CALL 3 3 @ filled_cells imported iface meth 2 0 (add_cells x y) qid)" "body_at params 13 2 0"
  shows "adder srv ADDER_IFACE 0 m params (desk (results_body q)) \<lparr>bp_seg = 0, bp_word = 8\<rparr> = Some (0, m, desk (sum_body q (x + y)))"
proof -
  note k = call_nth [OF add_params, where imported = imported and iface = iface and meth = meth and qid = qid and x1 = x and y1 = y]
  have "capnp_get_u64 m params 0 0 = Some x" "capnp_get_u64 m params 8 0 = Some y"
    using get_cell(3) [OF assms, of 0 0] get_cell(3) [OF assms, of 8 0] k(1) k(9) [of 0] k(9) [of 1]
    by (simp_all add: add_cells_def load_store_le64)
  moreover have "capnp_builder_set_u64 (desk (results_body q)) \<lparr>bp_seg = 0, bp_word = 8\<rparr> 0 (x + y) = Some (CAPNP_OK, desk (sum_body q (x + y)))"
    using set_bytes_desk [OF results_whole(1), of 8 0 "capnp_store_le64 (x + y)" q] results_sum [of q "x + y"]
    by (simp add: capnp_builder_set_u64_def results_whole(2))
  ultimately show ?thesis by (simp add: adder_def)
qed

text \<open>The vat of the object: a call of \<open>add\<close> on a live export.\<close>

lemma handle_add:
  assumes A: "roomy A" and s: "unat imported < length (exports s)" "unat imported < MAX_EXPORTS" "ex_used (exports s ! unat imported)"
    "ex_dispatch (exports s ! unat imported) = Some adder"
  shows "capnp_rpc_handle A s (frame [add_body imported x y qid]) =
    Some (send s (sent s) (frame [sum_body qid (x + y)]),
      (keep_answer s qid (frame [sum_body qid (x + y)]))\<lparr>sent := sent s @ [frame [sum_body qid (x + y)]]\<rparr>)"
proof -
  obtain m params where h: "capnp_rpc_handle A s (frame [add_body imported x y qid]) =
      (if export_named s imported < 0 then Some (emit A s (exception_body qid ''no such export''))
       else let x = exports s ! unat imported in
         if unat imported < length (exports s) then do {
           d \<leftarrow> ex_dispatch x;
           (rc, _, b) \<leftarrow> d (ex_server x) ADDER_IFACE 0 m params (desk (results_body qid)) \<lparr>bp_seg = 0, bp_word = 8\<rparr>;
           if rc = 0 then flush_answer A s b qid else Some (rc, s) }
         else None)"
    "bears m (head_cells MSG_CALL 3 3 @ filled_cells imported ADDER_IFACE 0 2 0 (add_cells x y) qid)" "body_at params 13 2 0"
    unfolding add_body_def by (rule handle_call_frame [OF A add_params])
  have "whole (sum_body qid (x + y))" "sum_body qid (x + y) \<noteq> []" "mem_ok A (8 + length (sum_body qid (x + y)))"
    using A by (simp_all add: whole_def sum_body_def sum_cells_def roomy_def)
  then have "flush_answer A s (desk (sum_body qid (x + y))) qid = Some (send s (sent s) (frame [sum_body qid (x + y)]),
      (keep_answer s qid (frame [sum_body qid (x + y)]))\<lparr>sent := sent s @ [frame [sum_body qid (x + y)]]\<rparr>)"
    by (simp add: flush_answer_desk c_send_def)
  then show ?thesis using h(1) s adder_answers [OF h(2,3)] by (simp add: export_named_def Let_def)
qed

section \<open>The answer\<close>

lemma sum_views:
  assumes m: "bears m (sum_cells qid v)" "body_at ret 3 2 1" "1000 \<le> traversal_left m"
  defines "payload \<equiv> set_struct 0 6 0 2 (clear_view ptr0)" and "content \<equiv> set_struct 0 8 1 1 (clear_view ptr0)"
  shows "capnp_get_u32 m ret 0 0 = Some qid" "capnp_get_u16 m ret 6 0 = Some 0"
    "capnp_getp m ret 0 ptr0 = Some (CAPNP_OK, spend 3 m, payload)"
    "capnp_getp (spend 3 m) payload 1 ptr0 = Some (CAPNP_OK, spend 1 (spend 3 m), set_null 0 7 (clear_view ptr0))"
    "capnp_getp (spend 3 m) payload 0 ptr0 = Some (CAPNP_OK, spend 3 (spend 3 m), content)"
    "capnp_get_u64 m content 0 0 = Some v"
proof -
  note n = sum_nth [of qid v]
  have b: "body_at payload 6 0 2" "body_at content 8 1 1" by (simp_all add: payload_def content_def)
  have m3: "bears (spend 3 m) (sum_cells qid v)" "900 \<le> traversal_left (spend 3 m)" using m by simp_all
  show "capnp_get_u32 m ret 0 0 = Some qid" "capnp_get_u16 m ret 6 0 = Some 0"
    using get_cell(2) [OF m(1,2), of 0 0] get_cell(1) [OF m(1,2), of 6 0] n(1,2)
    by (simp_all add: load_store_le32 load_store_le16)
  have "capnp_getp m ret 0 ptr0 = Some (CAPNP_OK, spend (1 + 0 + 2) m, payload)"
    unfolding payload_def by (rule getp_struct_cell [OF m(1,2), of _ 5 0]) (use n(1,3) m(3) in simp_all)
  then show "capnp_getp m ret 0 ptr0 = Some (CAPNP_OK, spend 3 m, payload)" by (simp add: numeral_3_eq_3)
  have "resolve_ptr (spend 3 m) 0 7 64 ptr0 = Some (CAPNP_OK, spend 1 (spend 3 m), set_null 0 7 (clear_view ptr0))"
    by (rule resolve_null_cell [OF m3(1)]) (use n(1,5) m3(2) in simp_all)
  then show "capnp_getp (spend 3 m) payload 1 ptr0 = Some (CAPNP_OK, spend 1 (spend 3 m), set_null 0 7 (clear_view ptr0))"
    using getp_cell [OF m3(1) b(1), of 1 ptr0] n(1) by simp
  have "capnp_getp (spend 3 m) payload 0 ptr0 = Some (CAPNP_OK, spend (1 + 1 + 1) (spend 3 m), content)"
    unfolding content_def by (rule getp_struct_cell [OF m3(1) b(1), of _ 6 1]) (use n(1,4) m3(2) in simp_all)
  then show "capnp_getp (spend 3 m) payload 0 ptr0 = Some (CAPNP_OK, spend 3 (spend 3 m), content)"
    by (simp add: numeral_3_eq_3)
  show "capnp_get_u64 m content 0 0 = Some v"
    using get_cell(3) [OF m(1) b(2), of 0 0] n(1,6) by (simp add: load_store_le64)
qed

lemma handle_sum:
  assumes A: "roomy A" and q: "question_find c qid = Some i"
  shows "capnp_rpc_handle A c (frame [sum_body qid v]) = Some (0, answered c i False (frame [sum_body qid v]))"
proof -
  let ?cs = "sum_cells qid v"
  obtain m body where h: "capnp_rpc_handle A c (frame [concat ?cs]) =
      rpc_dispatch A c m MSG_RETURN (set_struct 0 1 1 1 (clear_view ptr0)) body (frame [concat ?cs])"
    "bears m ?cs" "body_at body 3 2 1" "8000000 \<le> traversal_left m"
    by (rule usual_start [OF sum_usual A])
  have t: "1000 \<le> traversal_left m" using h(4) by simp
  note v = sum_views [OF h(2,3) t]
  have "capnp_list_len (set_null 0 7 (clear_view ptr0)) = 0" by (simp add: capnp_list_len_def set_null_def)
  then have "note_introductions c (spend 3 m) (set_struct 0 6 0 2 (clear_view ptr0)) = Some (c, spend 1 (spend 3 m))"
    using v(4) by (simp add: note_introductions_def set_struct_def)
  moreover have "length (frame [concat ?cs]) \<le> MAX_ANSWER_BYTES"
    unfolding sum_body_def [symmetric] by (simp add: length_frame1 MAX_ANSWER_BYTES_def)
  moreover have "p_kind body = PK_STRUCT" using h(3) by (simp add: body_at_def)
  ultimately have "handle_return c m body (frame [concat ?cs]) = Some (answered c i False (frame [concat ?cs]))"
    using v(1-3) q by (simp add: handle_return_def answered_def)
  then show ?thesis using h(1) unfolding sum_body_def by (simp add: rpc_dispatch_def rpc_consts)
qed

lemma answer_content_sum:
  assumes A: "roomy A" and q: "question_find c qid = Some i"
    and "qu_answered (questions c ! i)" "\<not> qu_failed (questions c ! i)" "qu_reply (questions c ! i) = frame [sum_body q' v]"
  obtains m content where "capnp_rpc_answer_content A c qid = Some (CAPNP_OK, m, content)" "capnp_get_u64 m content 0 0 = Some v"
proof -
  define st where "st = parsed (sum_body q' v)"
  let ?cs = "sum_cells q' v"
  have ok: "cells_ok ?cs" "?cs \<noteq> []" using sum_usual [of q' v] usual_cells(6) by (auto simp: usual_def)
  note p = parsed_bears [OF ok, folded sum_body_def, folded st_def]
  have m: "mem_ok A (8 + length (sum_body q' v))" using A by (simp add: roomy_def)
  have "100000 \<le> traversal_left st" using p(2) by simp
  note h = usual_head [OF sum_usual p(1) this]
  have seven: "4 + 2 + 1 = (7 :: nat)" by simp
  have m7: "bears (spend 7 st) ?cs" "1000 \<le> traversal_left (spend 7 st)" using p(1,2) by simp_all
  note v = sum_views [OF m7(1) h(5) m7(2)]
  have "return_payload st = Some (spend 3 (spend 7 st), Some (set_struct 0 6 0 2 (clear_view ptr0)))"
    using h(1,2) h(3) [unfolded seven] v by (simp add: return_payload_def MSG_RETURN_def)
  then have "capnp_rpc_answer_content A c qid =
      Some (CAPNP_OK, spend 3 (spend 3 (spend 7 st)), set_struct 0 8 1 1 (clear_view ptr0))"
    using assms p(3) [OF m] v(5) by (simp add: capnp_rpc_answer_content_def)
  moreover have "capnp_get_u64 (spend 3 (spend 3 (spend 7 st))) (set_struct 0 8 1 1 (clear_view ptr0)) 0 0 = Some v"
  proof -
    have "bears (spend 3 (spend 3 (spend 7 st))) ?cs" "1000 \<le> traversal_left (spend 3 (spend 3 (spend 7 st)))" using p(1,2) by simp_all
    from sum_views(6) [OF this(1) h(5) this(2)] show ?thesis .
  qed
  ultimately show thesis by (rule that)
qed

end
