(* ===== verification/ClientClaims.thy ===== *)
theory ClientClaims
  imports ClientCall
begin

text \<open>
  The properties of \<open>interop/rpc_client.c\<close>: the transport takes one message at a time off the stream
  however the socket cuts it, the overflow in its size check, and the whole program against a vat
  that adds.
\<close>

section \<open>Sockets that never fail\<close>

definition reliable :: "os \<Rightarrow> bool" where
  "reliable sys \<longleftrightarrow> os_ok sys \<and> no_failures sys"

text \<open>One byte at a time.\<close>

definition trickle :: os where
  "trickle = \<lparr>connects = (\<lambda>_. True), os_read = (\<lambda>k n avail. int (min 1 (min n avail))), os_write = (\<lambda>k n. int (min 1 n))\<rparr>"

lemma trickle_reliable: "reliable trickle"
  by (auto simp: reliable_def os_ok_def no_failures_def trickle_def)

lemma read_frame_frame:
  assumes "reliable sys" "frame_bodies bodies" "length bodies \<le> 64"
    and "length (frame bodies) \<le> cap" "cap \<le> length buf" "cap < 2 ^ 32" "inbox s = frame bodies @ rest"
  shows "\<exists>k. read_frame sys s buf cap = Some (int (length (frame bodies)), s\<lparr>inbox := rest, nreads := k\<rparr>,
    frame bodies @ drop (length (frame bodies)) buf)"
proof -
  let ?d = "frame bodies @ rest"
  have "length (frame bodies) = table_size (stream_count ?d) + sum_list (stream_sizes ?d) * 8"
    using frame_body_size [OF assms(2), of rest] by (simp add: body_size_def)
  then show ?thesis
    using read_frame_spec [of sys ?d _ _ cap buf s] frame_stream_count [OF assms(2), of rest] assms
    by (simp add: reliable_def)
qed

text \<open>
  C17 The transport is a stream of messages. What one side writes with \<open>send_fd\<close>, message after message,
  the other takes off with \<open>read_frame\<close> one message at a time: the first call returns exactly the
  first message at the start of its buffer and leaves exactly the others, whatever pieces the two
  sockets cut the stream into.
\<close>

theorem transport_roundtrip:
  assumes "reliable sys" "reliable sys'" "frame_bodies bodies" "length bodies \<le> 64"
    and "length (frame bodies) \<le> cap" "cap \<le> length buf" "cap < 2 ^ 32"
    and peer: "inbox s = outbox (after_sends sys (frame bodies # later))"
  shows "\<exists>k buf'. read_frame sys' s buf cap =
      Some (int (length (frame bodies)), s\<lparr>inbox := outbox (after_sends sys later), nreads := k\<rparr>, buf') \<and>
    take (length (frame bodies)) buf' = frame bodies \<and> length buf' = length buf"
proof -
  have "outbox (after_sends sys (frame bodies # later)) = frame bodies @ concat later" "outbox (after_sends sys later) = concat later"
    using sends_all(2) [of sys] assms(1) by (simp_all add: reliable_def)
  then show ?thesis
    using read_frame_frame [OF assms(2-7), of s "outbox (after_sends sys later)"] peer assms(5,6) by auto
qed

theorem transport_roundtrip_witness:
  "\<exists>k buf'. read_frame trickle (socket0 (outbox (after_sends trickle [frame [replicate 8 1], frame [replicate 16 2]]))) (replicate 100 0) 100 =
      Some (16, (socket0 (outbox (after_sends trickle [frame [replicate 16 2]])))\<lparr>nreads := k\<rparr>, buf') \<and>
    take 16 buf' = frame [replicate 8 1]"
proof -
  have b: "frame_bodies [replicate 8 (1 :: byte)]" "length [replicate 8 (1 :: byte)] \<le> 64"
    "length (frame [replicate 8 (1 :: byte)]) \<le> 100" "100 \<le> length (replicate 100 (0 :: byte))" "(100 :: nat) < 2 ^ 32"
    by (simp_all add: frame_bodies_def MAX_SEGMENTS_def length_frame1)
  have i: "inbox (socket0 (outbox (after_sends trickle [frame [replicate 8 1], frame [replicate 16 2]]))) =
      outbox (after_sends trickle (frame [replicate 8 1] # [frame [replicate 16 2]]))" by (simp add: socket0_def)
  show ?thesis
    using transport_roundtrip [OF trickle_reliable trickle_reliable b i] by (auto simp: length_frame1 socket0_def)
qed

section \<open>Any socket\<close>

text \<open>A socket that may fail or end early: a read stays in its range, and reports the full count only
  when it got all of it.\<close>

definition read_result :: "socket \<Rightarrow> byte list \<Rightarrow> nat \<Rightarrow> nat \<Rightarrow> nat \<Rightarrow> (int \<times> socket \<times> byte list) option \<Rightarrow> bool" where
  "read_result s buf a n off res \<longleftrightarrow> (\<exists>r s' buf'. res = Some (r, s', buf') \<and> length buf' = length buf \<and>
     (r = int n \<longrightarrow> n - off \<le> length (inbox s) \<and> inbox s' = drop (n - off) (inbox s) \<and>
        buf' = take (a + off) buf @ take (n - off) (inbox s) @ drop (a + n) buf))"

lemma read_loop_result:
  assumes sys: "os_ok sys" and "off \<le> n" "a + n \<le> length buf"
  shows "read_result s buf a n off (read_loop_fd sys s buf a n off)"
  using assms(2,3)
proof (induction "n - off" arbitrary: s buf off rule: less_induct)
  case less
  let ?k = "os_read sys (nreads s) (n - off) (length (inbox s))"
  consider (all) "\<not> off < n" | (stop) "off < n" "?k \<le> 0" | (more) "off < n" "0 < ?k" by linarith
  then show ?case
  proof cases
    case all
    then show ?thesis using less.prems by (subst read_loop_fd.simps) (simp add: read_result_def)
  next
    case stop
    then show ?thesis by (subst read_loop_fd.simps) (auto simp: read_result_def Let_def)
  next
    case more
    define k where "k = nat ?k"
    have "?k \<le> int (min (n - off) (length (inbox s)))" using sys unfolding os_ok_def by blast
    then have k: "?k = int k" "0 < k" "k \<le> length (inbox s)" "k \<le> n - off" using more by (auto simp: k_def)
    define buf' where "buf' = take (a + off) buf @ take k (inbox s) @ drop (a + off + k) buf"
    have w: "wr buf (a + off) (take k (inbox s)) = Some buf'" using k less.prems by (simp add: wr_def buf'_def)
    have len: "length buf' = length buf" using k less.prems by (simp add: buf'_def)
    let ?s = "s\<lparr>inbox := drop k (inbox s), nreads := nreads s + 1\<rparr>"
    obtain u where u: "n = off + k + u" using k(4) more(1) by (metis add_diff_inverse_nat le_Suc_ex less_imp_not_less add.assoc)
    have "read_result ?s buf' a n (off + k) (read_loop_fd sys ?s buf' a n (off + k))"
      by (rule less.hyps) (use k less.prems len u in simp_all)
    then obtain r s' b where r: "read_loop_fd sys ?s buf' a n (off + k) = Some (r, s', b)" "length b = length buf"
      "r = int n \<Longrightarrow> u \<le> length (inbox s) - k \<and> inbox s' = drop u (drop k (inbox s)) \<and>
        b = take (a + (off + k)) buf' @ take u (drop k (inbox s)) @ drop (a + n) buf'"
      using u len by (auto simp: read_result_def)
    have "take (a + (off + k)) buf' = take (a + off) buf @ take k (inbox s)" "drop (a + n) buf' = drop (a + n) buf"
      using u k less.prems by (simp_all add: buf'_def min_absorb2 add.assoc add.commute add.left_commute)
    then have "r = int n \<Longrightarrow> k + u \<le> length (inbox s) \<and> inbox s' = drop (k + u) (inbox s) \<and>
        b = take (a + off) buf @ take (k + u) (inbox s) @ drop (a + n) buf"
      using r(3) k(3) by (auto simp: take_add add.commute)
    moreover have "read_loop_fd sys s buf a n off = read_loop_fd sys ?s buf' a n (off + k)"
      using more k w by (subst read_loop_fd.simps) (simp add: Let_def)
    moreover have "n - off = k + u" using u by simp
    ultimately show ?thesis unfolding read_result_def using r(1,2) by auto
  qed
qed

lemma read_all_result:
  assumes "os_ok sys" "a + n \<le> length buf"
  obtains r s' buf' where "read_all sys s buf a n = Some (r, s', buf')" "length buf' = length buf"
    "r = int n \<Longrightarrow> n \<le> length (inbox s) \<and> inbox s' = drop n (inbox s) \<and> buf' = take a buf @ take n (inbox s) @ drop (a + n) buf"
  using read_loop_result [OF assms(1), of 0 n a buf s] assms(2) by (auto simp: read_result_def read_all_def)

lemma frame_rest_result:
  assumes sys: "os_ok sys" and d: "inbox s = drop t data" "b = take t data @ drop t buf" "t \<le> length data"
    and len: "length b = length buf" "cap \<le> length buf"
  shows "\<exists>r s' b'. frame_rest sys s b cap t m = Some (r, s', b') \<and> length b' = length buf \<and>
    (r = - 1 \<or> r = int (t + m * 8) \<and> t + m * 8 \<le> cap \<and> t + m * 8 \<le> length data \<and>
       inbox s' = drop (t + m * 8) data \<and> take (t + m * 8) b' = take (t + m * 8) data)"
proof (cases "t + m * 8 \<le> cap")
  case True
  obtain r s' b' where r: "read_all sys s b t (m * 8) = Some (r, s', b')" "length b' = length buf"
    "r = int (m * 8) \<Longrightarrow> m * 8 \<le> length (inbox s) \<and> inbox s' = drop (m * 8) (inbox s) \<and>
      b' = take t b @ take (m * 8) (inbox s) @ drop (t + m * 8) b"
    using read_all_result [OF sys, of t "m * 8" b s] True len by auto
  show ?thesis
  proof (cases "r = int (m * 8)")
    case full: True
    then have "t + m * 8 \<le> length data" using r(3) d by auto
    from body_read(1) [OF this, of buf] body_read(2) [OF this] show ?thesis
      using full r True \<open>t + m * 8 \<le> length data\<close> d by (auto simp: frame_rest_def)
  next
    case False
    then show ?thesis using r True d by (auto simp: frame_rest_def)
  qed
qed (use len in \<open>simp add: frame_rest_def\<close>)

text \<open>
  C18 \<open>read_frame\<close> on any socket, failing or cut short, and any bytes: when the sizes in the table do not
  wrap around in 32 bits, nothing is written outside the buffer, and the result is either \<open>-1\<close> or the
  exact length of one message, which is then taken off the stream whole, alone and unchanged.
\<close>

theorem read_frame_safe:
  assumes sys: "os_ok sys" and buf: "cap \<le> length buf" "cap < 2 ^ 32" "4 \<le> cap"
    and total: "total_bytes = table_size (stream_count (inbox s)) + sum_list (stream_sizes (inbox s)) * 8"
    and wrap: "stream_count (inbox s) \<le> 64 \<longrightarrow> total_bytes < 2 ^ 32"
  shows "\<exists>r s' buf'. read_frame sys s buf cap = Some (r, s', buf') \<and> length buf' = length buf \<and>
    (r = - 1 \<or> r = int total_bytes \<and> total_bytes \<le> cap \<and> total_bytes \<le> length (inbox s) \<and>
       inbox s' = drop total_bytes (inbox s) \<and> take total_bytes buf' = take total_bytes (inbox s))"
proof -
  let ?data = "inbox s" and ?n = "stream_count (inbox s)" and ?m = "sum_list (stream_sizes (inbox s))"
  define t where "t = table_size ?n"
  have t: "4 \<le> t" "4 + 4 * ?n \<le> t" using table_size_bounds(1) [of ?n] by (simp_all add: t_def)
  obtain r1 s1 b1 where r1: "read_all sys s buf 0 4 = Some (r1, s1, b1)" "length b1 = length buf"
    "r1 = int 4 \<Longrightarrow> 4 \<le> length ?data \<and> inbox s1 = drop 4 ?data \<and> b1 = take 4 ?data @ drop 4 buf"
    using read_all_result [OF sys, of 0 4 buf s] buf by auto
  have rd1: "rd b1 0 4 = Some (take 4 ?data)" if "r1 = 4" using r1(3) that by (simp add: rd_def)
  show ?thesis
  proof (cases "r1 = 4 \<and> ?n \<le> 64")
    case False
    then have "read_frame sys s buf cap = Some (- 1, s1, b1)" by (intro read_frame_refused [OF r1(1)]) (use rd1 in auto)
    then show ?thesis using r1(2) by simp
  next
    case True
    then have d4: "inbox s1 = drop 4 ?data" "b1 = take 4 ?data @ drop 4 buf" "4 \<le> length ?data" and n: "?n \<le> 64"
      and r4: "read_all sys s buf 0 4 = Some (4, s1, b1)" using r1 by simp_all
    note f = read_frame_table [OF r4 rd1 n t_def]
    show ?thesis
    proof (cases "t \<le> cap")
      case False
      then show ?thesis using f(1) True r1(2) by simp
    next
      case tcap: True
      obtain r2 s2 b2 where r2: "read_all sys s1 b1 4 (t - 4) = Some (r2, s2, b2)" "length b2 = length buf"
        "r2 = int (t - 4) \<Longrightarrow> t - 4 \<le> length (inbox s1) \<and> inbox s2 = drop (t - 4) (inbox s1) \<and>
          b2 = take 4 b1 @ take (t - 4) (inbox s1) @ drop (4 + (t - 4)) b1"
        using read_all_result [OF sys, of 4 "t - 4" b1 s1] t(1) tcap buf r1(2) by auto
      show ?thesis
      proof (cases "r2 = int (t - 4)")
        case False
        then show ?thesis using f(2) [OF _ tcap r2(1)] True r2(2) by simp
      next
        case full: True
        have "t \<le> length ?data" using r2(3) [OF full] d4 t(1) by auto
        then have d: "t \<le> length ?data" "inbox s2 = drop t ?data" "b2 = take t ?data @ drop t buf"
          using r2(3) [OF full] d4 table_read(1) [OF t_def, of ?data buf] table_read(2) [OF t_def, of ?data] by simp_all
        have "sum_sizes b2 0 ?n 0 = Some (word_of_nat ?m)"
          unfolding d(3) by (rule sum_sizes_stream) (use t d(1) in simp_all)
        then have "read_frame sys s buf cap = frame_rest sys s2 b2 cap t ?m"
          using f(3) [OF _ tcap r2(1) [unfolded full]] True total wrap by (simp add: t_def)
        then show ?thesis using frame_rest_result [OF sys d(2,3,1) r2(2) buf(1), of ?m] total by (simp add: t_def)
      qed
    qed
  qed
qed

theorem read_frame_safe_witness:
  "\<exists>s' buf'. read_frame trickle (socket0 [0, 0, 0, 0, 1, 0, 0, 0, 9]) (replicate 64 0) 64 = Some (- 1, s', buf') \<and> length buf' = 64"
proof -
  let ?data = "[0, 0, 0, 0, 1, 0, 0, 0, 9] :: byte list"
  have n: "stream_count ?data = 1" "stream_sizes ?data = [1]" "inbox (socket0 ?data) = ?data"
    by (simp_all add: stream_count_def stream_sizes_def capnp_load_le32_def socket0_def)
  have t: "16 = table_size (stream_count (inbox (socket0 ?data))) + sum_list (stream_sizes (inbox (socket0 ?data))) * 8"
    by (simp add: n table_size_def)
  show ?thesis
    using read_frame_safe [OF _ _ _ _ t, of trickle 64 "replicate 64 0"] trickle_reliable n(3) by (auto simp: reliable_def)
qed

text \<open>
  C40 The size check of \<open>read_frame\<close> wraps around. A peer that announces one segment of \<open>0x1FFFFFFF\<close> words
  makes \<open>table_bytes + total_words * 8\<close> zero in 32 bits, which passes the check against the buffer; the
  client then reads up to \<open>0xFFFFFFF8\<close> bytes into it, and as soon as the peer sends more than fits, it
  writes behind the buffer, however the socket cuts the stream.
\<close>

theorem read_frame_overflows:
  assumes sys: "os_ok sys" "no_failures sys" and buf: "8 \<le> length buf" "length buf < 2 ^ 31"
    and peer: "inbox s = [0, 0, 0, 0, 0xff, 0xff, 0xff, 0x1f] @ rest" "length buf - 8 < length rest"
  shows "read_frame sys s buf (length buf) = None"
proof -
  let ?data = "inbox s"
  have d: "take 4 ?data = [0, 0, 0, 0]" "take 4 (drop 4 ?data) = [0xff, 0xff, 0xff, 0x1f]" "8 \<le> length ?data" "take 8 ?data = [0, 0, 0, 0, 0xff, 0xff, 0xff, 0x1f]"
    by (simp_all add: peer(1))
  have n: "stream_count ?data = 1" unfolding stream_count_def d(1) by (simp add: capnp_load_le32_def)
  have t: "8 = table_size (stream_count ?data)" by (simp add: n table_size_def)
  obtain k1 where r1: "read_all sys s buf 0 4 = Some (4, s\<lparr>inbox := drop 4 ?data, nreads := k1\<rparr>, take 4 ?data @ drop 4 buf)"
    using read_all_exact [OF sys, of 4 s 0 buf] d(3) buf by auto
  let ?s1 = "s\<lparr>inbox := drop 4 ?data, nreads := k1\<rparr>" and ?b1 = "take 4 ?data @ drop 4 buf"
  have rd1: "rd ?b1 0 4 = Some (take 4 ?data)" using d(3) buf by (simp add: rd_def)
  have "4 \<le> length (inbox ?s1)" "4 + 4 \<le> length ?b1" using d(3) buf by simp_all
  from read_all_exact [OF sys this] obtain k2 where r2: "read_all sys ?s1 ?b1 4 4 = Some (4,
      ?s1\<lparr>inbox := drop 4 (inbox ?s1), nreads := k2\<rparr>, take 4 ?b1 @ take 4 (inbox ?s1) @ drop (4 + 4) ?b1)" by auto
  have b2: "take 4 ?b1 @ take 4 (inbox ?s1) @ drop (4 + 4) ?b1 = [0, 0, 0, 0, 0xff, 0xff, 0xff, 0x1f] @ drop 8 buf"
    using d(1,2) by simp
  have sum: "sum_sizes ([0, 0, 0, 0, 0xff, 0xff, 0xff, 0x1f] @ drop 8 buf) 0 1 0 = Some 0x1FFFFFFF"
    by (simp add: One_nat_def rd_def capnp_load_le32_def)
  have wrap: "word_of_nat 8 + 0x1FFFFFFF * 8 = (0 :: u32)" "unat (0x1FFFFFFF * 8 :: u32) = 0xFFFFFFF8" by simp_all
  have "read_all sys (?s1\<lparr>inbox := drop 4 (inbox ?s1), nreads := k2\<rparr>) ([0, 0, 0, 0, 0xff, 0xff, 0xff, 0x1f] @ drop 8 buf) 8 0xFFFFFFF8 = None"
    unfolding read_all_def by (rule read_loop_overruns [OF sys]) (use buf peer in simp_all)
  moreover have "stream_count ?data \<le> 64" "(8 > length buf) = False" "8 - 4 = (4 :: nat)" "int 4 = 4" "((4 :: int) \<noteq> 4) = False"
    "(unat (0 :: u32) > length buf) = False" using n buf(1) by simp_all
  ultimately show ?thesis
    using read_frame_eq [OF r1 rd1 _ t, of "length buf"]
    by (simp only: r2 [unfolded b2] n sum wrap Option.bind.bind_lunit Option.bind.bind_lzero prod.case if_False)
qed

theorem read_frame_overflows_witness:
  "read_frame trickle (socket0 ([0, 0, 0, 0, 0xff, 0xff, 0xff, 0x1f] @ replicate 16377 1)) (replicate 16384 0) (length (replicate 16384 (0 :: byte))) = None"
  by (rule read_frame_overflows [where rest = "replicate 16377 1"])
    (use trickle_reliable in \<open>simp_all add: reliable_def socket0_def\<close>)

section \<open>The program\<close>

lemma take_reply_frame:
  assumes sys: "reliable sys" and d: "whole d" and s: "inbox s = frame [d] @ rest" "length buf = 16384"
    and h: "capnp_rpc_handle A c (frame [d]) = Some (0, c')"
  obtains s' buf' where "take_reply A sys c s buf = Some (True, c', s', buf')" "inbox s' = rest" "length buf' = 16384"
proof -
  have len: "length (frame [d]) = 8 + length d" "length d \<le> 8192" using d by (simp_all add: length_frame1 whole_def)
  have bodies: "frame_bodies [d]" using d by (auto simp: frame_bodies_def whole_def MAX_SEGMENTS_def)
  have fits: "length [d] \<le> 64" "length (frame [d]) \<le> 16384" "16384 \<le> length buf" "(16384 :: nat) < 2 ^ 32"
    using len s(2) by simp_all
  obtain k where r: "read_frame sys s buf 16384 = Some (int (length (frame [d])), s\<lparr>inbox := rest, nreads := k\<rparr>,
      frame [d] @ drop (length (frame [d])) buf)"
    using read_frame_frame [OF sys bodies fits s(1)] by blast
  have "rd (frame [d] @ drop (length (frame [d])) buf) 0 (length (frame [d])) = Some (frame [d])"
    using len s(2) by (simp add: rd_def)
  then have "take_reply A sys c s buf = Some (True, c', s\<lparr>inbox := rest, nreads := k\<rparr>, frame [d] @ drop (length (frame [d])) buf)"
    using r h len nat_int [of "8 + length d"] by (simp add: take_reply_def)
  then show thesis by (rule that) (use len s(2) in simp_all)
qed

text \<open>The questions of the client: slot 0 for the bootstrap, slot 1 for the call.\<close>

lemma client_claims:
  fixes f :: "byte list list \<Rightarrow> byte list \<Rightarrow> int"
  defines "c \<equiv> capnp_rpc_init f"
  obtains c1 where "question_claim c = (Some (0, 0), c1)" "question_find c 0 = None" "sent c = []" "send c = f"
    "\<forall>l r. \<exists>c4. question_claim (answered (c1\<lparr>sent := l\<rparr>) 0 False r) = (Some (1, 1), c4)"
    "\<forall>l r. question_find (answered (c1\<lparr>sent := l\<rparr>) 0 False r) 1 = None"
    "\<forall>l r. send (answered (c1\<lparr>sent := l\<rparr>) 0 False r) = f" "\<forall>l r. sent (answered (c1\<lparr>sent := l\<rparr>) 0 False r) = l"
proof -
  define c1 where "c1 = snd (question_claim c)"
  have c: "questions c = question0 # replicate 63 question0" "next_question_id c = 0" "sent c = []" "send c = f"
    by (simp_all add: c_def capnp_rpc_init_def MAX_QUESTIONS_def flip: replicate_Suc)
  have c1: "question_claim c = (Some (0, 0), c1)" "questions c1 = question0\<lparr>qu_used := True, qu_question_id := 0\<rparr> # replicate 63 question0"
    "next_question_id c1 = 1" "send c1 = f"
    using c by (simp_all add: c1_def question_claim_def find_slot_replicate question0_def Let_def)
  show thesis
  proof (rule that [OF c1(1) _ c(3,4)])
    show "question_find c 0 = None" using c by (simp add: question_find_def find_slot_replicate question0_def)
    show "\<forall>l r. \<exists>c4. question_claim (answered (c1\<lparr>sent := l\<rparr>) 0 False r) = (Some (1, 1), c4)"
      using c1 by (simp add: question_claim_def answered_def find_slot_replicate question0_def Let_def)
    show "\<forall>l r. question_find (answered (c1\<lparr>sent := l\<rparr>) 0 False r) 1 = None"
      using c1 by (simp add: question_find_def answered_def find_slot_replicate question0_def)
    show "\<forall>l r. send (answered (c1\<lparr>sent := l\<rparr>) 0 False r) = f" "\<forall>l r. sent (answered (c1\<lparr>sent := l\<rparr>) 0 False r) = l"
      using c1 by (simp_all add: answered_def)
  qed
qed

text \<open>The two halves of a session: the vat that hosts an object that adds, and the client.\<close>

lemma adder_session:
  assumes A: "roomy A" and s: "conn_inv s" "bootstrap s \<noteq> 0" "bootstrap_dispatch s = Some adder"
      "capnp_rpc_export s (bootstrap s) (Some adder) = Some (0, s1)" "ex_dispatch (exports s1 ! 0) = Some adder"
    and send: "\<And>l f. send s l f = 0"
  obtains s2 s3 where "capnp_rpc_handle A s (frame [bootstrap_body 0]) = Some (0, s2)"
    "sent s2 = sent s @ [frame [return_cap_body 0 0]]"
    "capnp_rpc_handle A s2 (frame [add_body 0 x y 1]) = Some (0, s3)" "sent s3 = sent s2 @ [frame [sum_body 1 (x + y)]]"
proof -
  let ?ans1 = "frame [return_cap_body 0 0]" and ?ans2 = "frame [sum_body 1 (x + y)]"
  note x = export_found [OF s(4) _ s(1), simplified] and inv1 = capnp_rpc_export_inv [OF s(4,1)]
  define s2 where "s2 = (keep_answer s1 0 ?ans1)\<lparr>sent := sent s @ [?ans1]\<rparr>"
  have h1: "capnp_rpc_handle A s (frame [bootstrap_body 0]) = Some (0, s2)"
    using s(2-4) send x(4,5) unfolding handle_bootstrap_frame [OF A]
    by (simp add: emit_answer_roomy [OF A] c_send_def s2_def)
  have e2: "0 < length (exports s2)" "ex_used (exports s2 ! 0)" "ex_dispatch (exports s2 ! 0) = Some adder"
    using conn_inv_tables(1) [OF inv1] x(2) s(5) by (simp_all add: s2_def MAX_EXPORTS_def)
  define s3 where "s3 = (keep_answer s2 1 ?ans2)\<lparr>sent := sent s2 @ [?ans2]\<rparr>"
  have h2: "capnp_rpc_handle A s2 (frame [add_body 0 x y 1]) = Some (0, s3)"
    using handle_add [OF A, of 0 s2 x y 1] e2 send x(5) by (simp add: s3_def MAX_EXPORTS_def) (simp add: s2_def)
  show thesis by (rule that [OF h1 _ h2]) (simp_all add: s2_def s3_def)
qed

lemma client_session:
  assumes A: "roomy A" and sys: "reliable sys" "connects sys i" "i < 100" and stack: "length stack = 16384"
  obtains c where "client_main A sys stack (frame [return_cap_body 0 0] @ frame [sum_body 1 42]) = Some (0, c)"
    "sent c = [frame [bootstrap_body 0], frame [add_body 0 20 22 1]]"
proof -
  have os: "os_ok sys" "no_failures sys" using sys(1) by (simp_all add: reliable_def)
  let ?f = "send_callback sys" and ?ask1 = "frame [bootstrap_body 0]" and ?ask2 = "frame [add_body 0 20 22 1]"
    and ?ans1 = "frame [return_cap_body 0 0]" and ?ans2 = "frame [sum_body 1 42]"
  define c where "c = capnp_rpc_init ?f"
  obtain c1 where q: "question_claim c = (Some (0, 0), c1)" "question_find c 0 = None" "sent c = []" "send c = ?f"
    and q': "\<forall>l r. \<exists>c4. question_claim (answered (c1\<lparr>sent := l\<rparr>) 0 False r) = (Some (1, 1), c4)"
    "\<forall>l r. question_find (answered (c1\<lparr>sent := l\<rparr>) 0 False r) 1 = None"
    "\<forall>l r. send (answered (c1\<lparr>sent := l\<rparr>) 0 False r) = ?f" "\<forall>l r. sent (answered (c1\<lparr>sent := l\<rparr>) 0 False r) = l"
    unfolding c_def by (rule client_claims [of ?f])
  define c2 where "c2 = c1\<lparr>sent := [?ask1]\<rparr>"
  have b1: "capnp_rpc_send_bootstrap A c = Some (0, c2)"
    using ask_with_sent [OF A q(1,2), of bootstrap_body] send_bootstrap_ask [OF roomyD(1) [OF A]] q(3,4) sends_all [OF os]
    by (simp add: c2_def bootstrap_body_def)
  note f1 = question_claim_found [OF q(1,2)]
  have f2: "question_find c2 0 = Some 0" using f1(1) by (simp add: c2_def question_find_def)
  define c3 where "c3 = answered c2 0 False ?ans1"
  have h3: "capnp_rpc_handle A c2 ?ans1 = Some (0, c3)" "question_find c3 0 = Some 0"
    using handle_return_cap_frame [OF A, of c2 0 0] f2 question_find_answered [OF f2] by (simp_all add: c3_def)
  have ok3: "capnp_rpc_is_answered c3 0" "\<not> capnp_rpc_is_failed c3 0"
    using h3(2) f1(2) by (simp_all add: capnp_rpc_is_answered_def capnp_rpc_is_failed_def c3_def c2_def answered_def)
  obtain c4 where q3: "question_claim c3 = (Some (1, 1), c4)" using q'(1) unfolding c3_def c2_def by blast
  have c3: "question_find c3 1 = None" "send c3 = ?f" "sent c3 = [?ask1]" using q'(2-4) by (simp_all add: c3_def c2_def)
  define c5 where "c5 = c4\<lparr>sent := [?ask1, ?ask2]\<rparr>"
  have b2: "capnp_rpc_send_call A c3 0 ADDER_IFACE 0 2 0 (Some (fill_add 20 22)) = Some (1, c5)"
    using ask_with_sent [OF A q3 c3(1), of "add_body 0 20 22"] send_add_ask [OF roomyD(1) [OF A]] c3(2,3) sends_all [OF os]
    by (simp add: c5_def)
  note f4 = question_claim_found [OF q3 c3(1)]
  have f5: "question_find c5 1 = Some 1" using f4(1) by (simp add: c5_def question_find_def)
  define c6 where "c6 = answered c5 1 False ?ans2"
  have h6: "capnp_rpc_handle A c5 ?ans2 = Some (0, c6)" "question_find c6 1 = Some 1"
    using handle_sum [OF A f5, of 42] question_find_answered [OF f5] by (simp_all add: c6_def)
  have q6: "qu_answered (questions c6 ! 1)" "\<not> qu_failed (questions c6 ! 1)" "qu_reply (questions c6 ! 1) = ?ans2"
    using f4(2) by (simp_all add: c6_def c5_def answered_def)
  have ok6: "capnp_rpc_is_answered c6 1" "\<not> capnp_rpc_is_failed c6 1"
    using h6(2) q6 by (simp_all add: capnp_rpc_is_answered_def capnp_rpc_is_failed_def)
  obtain m content where r6: "capnp_rpc_answer_content A c6 1 = Some (CAPNP_OK, m, content)" "capnp_get_u64 m content 0 0 = Some 42"
    by (rule answer_content_sum [OF A h6(2) q6])
  have w: "whole (return_cap_body 0 0)" "whole (sum_body 1 42)" by (simp_all add: whole_def)
  have in0: "inbox (socket0 (?ans1 @ ?ans2)) = ?ans1 @ ?ans2" by (simp add: socket0_def)
  obtain t1 buf1 where t1: "take_reply A sys c2 (socket0 (?ans1 @ ?ans2)) stack = Some (True, c3, t1, buf1)"
    "inbox t1 = ?ans2" "length buf1 = 16384" by (rule take_reply_frame [OF sys(1) w(1) in0 stack h3(1)])
  have in1: "inbox t1 = ?ans2 @ []" using t1(2) by simp
  obtain t2 buf2 where t2: "take_reply A sys c5 t1 buf1 = Some (True, c6, t2, buf2)"
    by (rule take_reply_frame [OF sys(1) w(2) in1 t1(3) h6(1)])
  have "list_ex (connects sys) [0..<100]" using sys(2,3) by (auto simp: list_ex_iff)
  then have "client_main A sys stack (?ans1 @ ?ans2) = Some (0, c6)"
    using b1 t1(1) ok3 b2 t2 ok6 r6 by (simp add: client_main_def Let_def c_def [symmetric])
  then show thesis by (rule that) (simp add: c6_def c5_def answered_def)
qed

text \<open>
  C11 The program, end to end. Against a vat of this library that hosts an object that adds, and over any
  socket that connects and does not fail, whatever pieces it moves the bytes in, the client exits
  with status 0: it sends a Bootstrap and a Call and nothing else, the vat answers each of them, and
  the answer to the call is 42.
\<close>

theorem client_succeeds:
  assumes A: "roomy A" and sys: "reliable sys" "connects sys i" "i < 100" and stack: "length stack = 16384"
    and s: "conn_inv s" "bootstrap s \<noteq> 0" "bootstrap_dispatch s = Some adder"
      "capnp_rpc_export s (bootstrap s) (Some adder) = Some (0, s1)" "ex_dispatch (exports s1 ! 0) = Some adder"
    and send: "\<And>l f. send s l f = 0"
  shows "\<exists>ask1 s2 ans1 ask2 s3 ans2 c.
    capnp_rpc_handle A s ask1 = Some (0, s2) \<and> sent s2 = sent s @ [ans1] \<and>
    capnp_rpc_handle A s2 ask2 = Some (0, s3) \<and> sent s3 = sent s2 @ [ans2] \<and>
    client_main A sys stack (ans1 @ ans2) = Some (0, c) \<and> sent c = [ask1, ask2] \<and>
    outbox (after_sends sys (sent c)) = ask1 @ ask2"
proof -
  have os: "os_ok sys" "no_failures sys" using sys(1) by (simp_all add: reliable_def)
  obtain s2 s3 where v: "capnp_rpc_handle A s (frame [bootstrap_body 0]) = Some (0, s2)"
    "sent s2 = sent s @ [frame [return_cap_body 0 0]]"
    "capnp_rpc_handle A s2 (frame [add_body 0 20 22 1]) = Some (0, s3)" "sent s3 = sent s2 @ [frame [sum_body 1 (20 + 22)]]"
    by (rule adder_session [OF A s send])
  obtain c where c: "client_main A sys stack (frame [return_cap_body 0 0] @ frame [sum_body 1 42]) = Some (0, c)"
    "sent c = [frame [bootstrap_body 0], frame [add_body 0 20 22 1]]"
    by (rule client_session [OF A sys stack])
  show ?thesis
    by (rule exI [of _ "frame [bootstrap_body 0]"], rule exI [of _ s2], rule exI [of _ "frame [return_cap_body 0 0]"],
        rule exI [of _ "frame [add_body 0 20 22 1]"], rule exI [of _ s3], rule exI [of _ "frame [sum_body 1 42]"], rule exI [of _ c])
      (use v c sends_all(2) [OF os, of "sent c"] in simp)
qed

text \<open>The vat of the library with an object that adds, over a socket that moves one byte at a time.\<close>

definition serving :: conn where
  "serving = capnp_rpc_set_bootstrap quiet 7 (Some adder)"

lemma serving_vat: "conn_inv serving" "bootstrap serving = 7" "bootstrap_dispatch serving = Some adder"
  "send serving l f = 0" "sent serving = []"
  "capnp_rpc_export serving 7 (Some adder) = Some (0, set_export 0 \<lparr>ex_used = True, ex_refcount = 1, ex_server = 7, ex_dispatch = Some adder\<rparr> serving)"
  using conn_inv_boot [OF quiet_inv(1)]
  by (simp_all add: serving_def capnp_rpc_set_bootstrap_def quiet_def capnp_rpc_init_def capnp_rpc_export_def
      find_slot_replicate export0_def MAX_EXPORTS_def)

theorem client_succeeds_witness:
  "\<exists>ask1 s2 ans1 ask2 s3 ans2 c.
    capnp_rpc_handle plentiful serving ask1 = Some (0, s2) \<and> sent s2 = [ans1] \<and>
    capnp_rpc_handle plentiful s2 ask2 = Some (0, s3) \<and> sent s3 = [ans1, ans2] \<and>
    client_main plentiful trickle (replicate 16384 0) (ans1 @ ans2) = Some (0, c) \<and> sent c = [ask1, ask2] \<and>
    outbox (after_sends trickle (sent c)) = ask1 @ ask2"
proof -
  have c: "connects trickle 0" "(0 :: nat) < 100" "length (replicate 16384 (0 :: byte)) = 16384" by (simp_all add: trickle_def)
  show ?thesis
    using client_succeeds [OF roomy_plentiful trickle_reliable c serving_vat(1) _ serving_vat(3)] serving_vat
    by (fastforce simp: set_export_def serving_def capnp_rpc_set_bootstrap_def quiet_def capnp_rpc_init_def MAX_EXPORTS_def)
qed

end
