(* ===== verification/ModBuild.thy ===== *)
theory ModBuild
  imports ModCalls
begin

text \<open>
  \<open>capnp/build-message\<close>, which has no receiver: it builds a message in an arena of its own. Its offsets
  are not compared with the struct, but every setter compares them with the segment, so no call leaves
  the arena; what is undefined are the casts of its numbers and of the length of its result.
\<close>

section \<open>The arena of the call\<close>

definition arena_kept :: "builder \<Rightarrow> builder \<Rightarrow> bool" where
  "arena_kept b b' \<longleftrightarrow> builder_inv b' \<and> (\<forall>s a n. in_range (segs_of b) s a n \<longrightarrow> in_range (segs_of b') s a n)"

lemma kept_refl: "builder_inv b \<Longrightarrow> arena_kept b b"
  by (simp add: arena_kept_def)

lemma kept_trans: "arena_kept b b1 \<Longrightarrow> arena_kept b1 b2 \<Longrightarrow> arena_kept b b2"
  by (simp add: arena_kept_def)

lemma kept_only: "builder_inv b' \<Longrightarrow> only_range (segs_of b) s a n (segs_of b') \<Longrightarrow> arena_kept b b'"
  by (auto simp: arena_kept_def dest: only_rangeD(1))

lemma kept_body: "arena_kept b b' \<Longrightarrow> in_range (segs_of b) s a n \<Longrightarrow> in_range (segs_of b') s a n"
  by (simp add: arena_kept_def)

lemma set_bytes_kept:
  assumes "builder_inv b" "in_range (segs_of b) (bp_seg body) (bp_word body * 8) n" "off < 2 ^ 32" "length bs < 2 ^ 32"
  shows "\<exists>r b'. set_bytes b body off bs = Some (r, b') \<and> arena_kept b b'"
proof -
  have a: "bp_word body * 8 < 2 ^ 63" using range_bound(1) [OF assms(1,2)] by simp
  have w: "sz (bp_word body * WORD_BYTES + off) + length bs < 2 ^ 64"
    using a assms(3,4) by (simp add: WORD_BYTES_def)
  have l: "length bs < 2 ^ 60" using assms(4) by simp
  show ?thesis
  proof (cases rule: set_bytes_cases [OF assms(1) l, of body off])
    case (2 b' a)
    have "only_range (segs_of b) (bp_seg body) a (length bs) (segs_of b')"
      unfolding 2(5) by (rule only_range_put [OF 2(4)])
    then show ?thesis using 2(1,2) kept_only by blast
  qed (use w assms(1) kept_refl in auto)
qed

lemma set_bool_kept:
  assumes "builder_inv b" "in_range (segs_of b) (bp_seg body) (bp_word body * 8) n" "off < 2 ^ 32"
  shows "\<exists>r b'. capnp_builder_set_bool b body off v = Some (r, b') \<and> arena_kept b b'"
proof -
  note s = range_bound [OF assms(1,2)]
  let ?len = "length (segs_of b ! bp_seg body)"
  have "off div 8 < 2 ^ 32" using assms(3) by linarith
  then have a: "sz (bp_word body * WORD_BYTES + off div 8) = bp_word body * 8 + off div 8"
    "sz (bp_word body * 8 + off div 8 + 1) = bp_word body * 8 + off div 8 + 1"
    using s(1) by (simp_all add: WORD_BYTES_def)
  show ?thesis
  proof (cases "bp_word body * 8 + off div 8 + 1 \<le> ?len")
    case True
    have r: "in_range (segs_of b) (bp_seg body) (bp_word body * 8) (?len - bp_word body * 8)" "off div 8 < ?len - bp_word body * 8"
      using True s(2) by (auto simp: in_range_def)
    obtain x where x: "capnp_builder_set_bool b body off v = set_bytes b body (off div 8) [x]"
      using set_bool_bytes [OF assms(1) r] by blast
    show ?thesis unfolding x
      by (rule set_bytes_kept [OF assms(1,2)]) (use \<open>off div 8 < 2 ^ 32\<close> in simp_all)
  next
    case False
    then have "body_ok b body (sz (bp_word body * 8 + off div 8 + 1)) \<noteq> CAPNP_OK"
      using s(2) seg_words_sz [OF assms(1) s(2)] unfolding a by (simp add: body_ok_def)
    then have "capnp_builder_set_bool b body off v = Some (CAPNP_ERR_BOUNDS, b)"
      using a by (simp add: capnp_builder_set_bool_def Let_def)
    then show ?thesis using assms(1) kept_refl by simp
  qed
qed

section \<open>Fields\<close>

text \<open>The numbers of a field that are cast to \<open>int32_t\<close> are in its range.\<close>

definition field_casts :: "'v api \<Rightarrow> 'v \<Rightarrow> bool" where
  "field_casts J field \<longleftrightarrow>
     (\<forall>tup kind. getindexed J field = Some tup \<longrightarrow> 3 \<le> length tup \<longrightarrow> keyword_of J (tup ! 0) = Some kind \<longrightarrow>
       is_number J (tup ! 1) \<longrightarrow> unwrap_integer J (tup ! 1) \<noteq> None \<and>
         (takeWhile (\<lambda>c. c \<noteq> 0) kind \<in> {c_str ''u16'', c_str ''u32''} \<longrightarrow> unwrap_integer J (tup ! 2) \<noteq> None))"

text \<open>A step of the call: it returns, and the arena is kept unless it panics.\<close>

definition step_kept :: "builder \<Rightarrow> (panic + builder) option \<Rightarrow> bool" where
  "step_kept b R \<longleftrightarrow> (\<exists>r. R = Some r \<and> (case r of Inl _ \<Rightarrow> True | Inr b' \<Rightarrow> arena_kept b b'))"

lemma step_kept_simps [simp]: "step_kept b (Some (Inl e))" "step_kept b (Some (Inr b')) = arena_kept b b'"
  by (simp_all add: step_kept_def)

lemma step_kept_set:
  "\<exists>r b'. R = Some (r, b') \<and> arena_kept b b' \<Longrightarrow>
   step_kept b (do { (r, b) \<leftarrow> R; Some (if r \<noteq> CAPNP_OK then Inl (Panic ''capnp/build-message'' e) else Inr b) })"
  by (auto simp: step_kept_def)

lemma step_kept_if:
  "(c \<Longrightarrow> step_kept b R) \<Longrightarrow> (\<not> c \<Longrightarrow> step_kept b R') \<Longrightarrow> step_kept b (if c then R else R')"
  by simp

lemma step_kept_cast: "v \<noteq> None \<Longrightarrow> (\<And>x. step_kept b (f x)) \<Longrightarrow> step_kept b (v \<bind> f)" for v :: "u32 option"
  by auto

lemma setter_kept: "setter_safe b body dw i R \<Longrightarrow> \<exists>r b'. R = Some (r, b') \<and> arena_kept b b'"
  by (auto simp: setter_safe_def intro: kept_only)

lemma u32_bound: "unat (x :: u32) < 2 ^ 32"
  using unsigned_less [of x] by simp

lemma build_value_kept:
  assumes A: "address_space A" and inv: "builder_inv b" and body: "in_range (segs_of b) (bp_seg body) (bp_word body * 8) n"
    and cast: "kind \<in> {c_str ''u16'', c_str ''u32''} \<Longrightarrow> unwrap_integer J v \<noteq> None"
  shows "step_kept b (build_value A J b body dw kind off v)"
proof -
  have bytes: "length bs < 2 ^ 32 \<Longrightarrow> \<exists>r b'. set_bytes b body (unat off) bs = Some (r, b') \<and> arena_kept b b'" for bs
    by (rule set_bytes_kept [OF inv body u32_bound])
  have texts: "\<exists>r b'. capnp_builder_set_text A b body dw i s = Some (r, b') \<and> arena_kept b b'" for i s
    by (rule setter_kept [OF set_text_safe [OF A inv range_bound(2) [OF inv body]]])
  have scalars: "\<exists>r b'. capnp_builder_set_u16 b body (unat off) x = Some (r, b') \<and> arena_kept b b'"
    "\<exists>r b'. capnp_builder_set_u32 b body (unat off) y = Some (r, b') \<and> arena_kept b b'"
    "\<exists>r b'. capnp_builder_set_u64 b body (unat off) z = Some (r, b') \<and> arena_kept b b'"
    "\<exists>r b'. capnp_builder_set_f64 b body (unat off) z = Some (r, b') \<and> arena_kept b b'"
    "\<exists>r b'. capnp_builder_set_bool b body (unat off) v = Some (r, b') \<and> arena_kept b b'" for x y z v
    by (simp_all add: capnp_builder_set_u16_def capnp_builder_set_u32_def capnp_builder_set_u64_def capnp_builder_set_f64_def
        bytes set_bool_kept [OF inv body u32_bound])
  have text_step: "step_kept b (case u of None \<Rightarrow> Some (Inl e) | Some s \<Rightarrow> F s)" if "\<And>s. step_kept b (F s)" for u e F
    using that by (cases u) simp_all
  have sum_step: "step_kept b (case r of Inl e \<Rightarrow> Some (Inl e) | Inr s \<Rightarrow> F s)" if "\<And>s. step_kept b (F s)" for r F
    using that by (cases r) simp_all
  show ?thesis
    unfolding build_value_def Let_def
    by (intro step_kept_if step_kept_cast cast text_step sum_step step_kept_set scalars texts) simp_all
qed

lemma build_field_kept:
  assumes "address_space A" "builder_inv b" "in_range (segs_of b) (bp_seg body) (bp_word body * 8) n" "field_casts J field"
  shows "step_kept b (build_field A J b body dw field)"
proof -
  note valued = build_value_kept [OF assms(1-3)]
  show ?thesis
    using assms(4) unfolding build_field_def Let_def field_casts_def
    by (auto split: option.split intro!: valued)
qed

lemma build_fields_kept:
  "\<lbrakk>address_space A; builder_inv b; in_range (segs_of b) (bp_seg body) (bp_word body * 8) n; list_all (field_casts J) fs\<rbrakk> \<Longrightarrow>
   step_kept b (build_fields A J b body dw fs)"
proof (induction fs arbitrary: b)
  case (Cons f fs)
  obtain r where r: "build_field A J b body dw f = Some r" "case r of Inl _ \<Rightarrow> True | Inr b' \<Rightarrow> arena_kept b b'"
    using build_field_kept [OF Cons.prems(1-3), of J f dw] Cons.prems(4) by (auto simp: step_kept_def)
  show ?case
  proof (cases r)
    case (Inr b1)
    then have k: "arena_kept b b1" using r(2) by simp
    have "step_kept b1 (build_fields A J b1 body dw fs)"
      using k kept_body [OF k Cons.prems(3)] Cons.prems(1,4) by (intro Cons.IH) (auto simp: arena_kept_def)
    then show ?thesis using r(1) Inr kept_trans [OF k] by (auto simp: step_kept_def split: sum.splits)
  qed (use r in simp)
qed (simp add: kept_refl)

section \<open>The whole call\<close>

definition message_arena :: "allocator \<Rightarrow> 'v api \<Rightarrow> nat \<Rightarrow> nat \<Rightarrow> 'v list \<Rightarrow> (panic + builder) option" where
  "message_arena A J dwords pwords fs =
     (let fail = Some (Inl (Panic ''capnp/build-message'' ''struct alloc failed'')) in do {
        (r, b, root) \<leftarrow> capnp_builder_root A (capnp_builder_init A);
        if r \<noteq> CAPNP_OK then fail else do {
        (r, b, body) \<leftarrow> capnp_builder_struct A b root dwords pwords;
        if r \<noteq> CAPNP_OK then fail else build_fields A J b body dwords fs } })"

text \<open>The arguments of a call whose casts are defined and whose result Janet can hold.\<close>

definition build_casts :: "allocator \<Rightarrow> 'v api \<Rightarrow> 'v \<Rightarrow> 'v \<Rightarrow> 'v \<Rightarrow> bool" where
  "build_casts A J dwords pwords field_list \<longleftrightarrow>
     (\<forall>dw pw fs. getinteger J dwords = Some dw \<longrightarrow> getinteger J pwords = Some pw \<longrightarrow> getindexed J field_list = Some fs \<longrightarrow>
        list_all (field_casts J) fs \<and>
        (\<forall>b flat. message_arena A J (unat dw) (unat pw) fs = Some (Inr b) \<longrightarrow>
           capnp_builder_serialize A b = Some (CAPNP_OK, flat) \<longrightarrow> length flat \<le> 2147483647))"

lemma init_inv: "address_space A \<Longrightarrow> builder_inv (capnp_builder_init A)"
proof -
  assume A: "address_space A"
  have b: "builder_inv builder0" by (simp add: builder_inv_def builder0_def)
  have "r = CAPNP_OK \<longrightarrow> builder_inv b'" if "append_segment A builder0 k = (r, b')" for k r b'
    by (rule append_segment_cases [OF b A, of k]) (use that in auto)
  then have "builder_inv (capnp_builder_init_sized A k)" for k
    using b by (simp add: capnp_builder_init_sized_def Let_def split: prod.split)
  then show ?thesis by (simp add: capnp_builder_init_def)
qed

lemma message_arena_ok:
  assumes A: "address_space A" and fs: "list_all (field_casts J) fs"
  shows "\<exists>r. message_arena A J dw pw fs = Some r \<and>
    (case r of Inl _ \<Rightarrow> True | Inr b \<Rightarrow> builder_inv b \<and> bsegs b \<noteq> [] \<and> has_word (segs_of b) 0 0)"
proof (cases "bsegs (capnp_builder_init A) = []")
  case True
  then have "capnp_builder_root A (capnp_builder_init A) = Some (CAPNP_ERR_ARG, capnp_builder_init A, bptr0)"
    by (simp add: capnp_builder_root_def)
  then show ?thesis by (simp add: message_arena_def)
next
  case False
  obtain r b where r: "capnp_builder_root A (capnp_builder_init A) = Some (r, b, bptr0)" "builder_inv b"
    "r = CAPNP_OK \<longrightarrow> has_word (segs_of b) 0 0"
    using builder_root_within [OF A init_inv [OF A] False] by auto
  show ?thesis
  proof (cases "r = CAPNP_OK")
    case True
    have w: "has_word (segs_of b) (bp_seg bptr0) (bp_word bptr0)" using r(3) True by (simp add: bptr0_def)
    obtain r2 b2 body where s: "capnp_builder_struct A b bptr0 dw pw = Some (r2, b2, body)" "builder_inv b2"
      "only_range (segs_of b) (bp_seg bptr0) (bp_word bptr0 * 8) 8 (segs_of b2)"
      "r2 = CAPNP_OK \<longrightarrow> in_range (segs_of b2) (bp_seg body) (bp_word body * 8) ((dw + pw) * 8)"
      using builder_struct_within [OF A r(2) w, of dw pw] by blast
    have w2: "has_word (segs_of b2) 0 0" using only_rangeD(1) [OF s(3)] w by (simp add: has_word_def bptr0_def)
    show ?thesis
    proof (cases "r2 = CAPNP_OK")
      case ok: True
      obtain x where x: "build_fields A J b2 body dw fs = Some x" "case x of Inl _ \<Rightarrow> True | Inr b' \<Rightarrow> arena_kept b2 b'"
        using build_fields_kept [OF A s(2) s(4) [rule_format, OF ok] fs, of dw] by (auto simp: step_kept_def)
      have "builder_inv b' \<and> bsegs b' \<noteq> [] \<and> has_word (segs_of b') 0 0" if "arena_kept b2 b'" for b'
      proof -
        have "has_word (segs_of b') 0 0" using kept_body [OF that] w2 by (simp add: has_word_def)
        then show ?thesis using that has_word_nonempty by (auto simp: arena_kept_def)
      qed
      then show ?thesis using True ok r(1) s(1) x by (auto simp: message_arena_def split: sum.splits)
    qed (use True r(1) s(1) in \<open>simp add: message_arena_def\<close>)
  qed (use r(1) in \<open>simp add: message_arena_def\<close>)
qed

lemma build_message_eq:
  "cfun_build_message A J dwords pwords field_list =
     arg () (get (getinteger J) dwords) (\<lambda>dw. arg () (get (getinteger J) pwords) (\<lambda>pw.
       if sint dw < 0 \<or> sint dw > 65535 \<or> sint pw < 0 \<or> sint pw > 65535
       then Some (Inl (Panic ''capnp/build-message'' ''bad dwords/pwords''), ())
       else arg () (get (getindexed J) field_list) (\<lambda>fs. do {
         res \<leftarrow> message_arena A J (unat dw) (unat pw) fs;
         case res of Inl e \<Rightarrow> Some (Inl e, ())
         | Inr b \<Rightarrow> do {
             (r, flat) \<leftarrow> capnp_builder_serialize A b;
             if r \<noteq> CAPNP_OK then Some (Inl (Panic ''capnp/build-message'' ''serialize failed''), ())
             else if length flat > 2147483647 then None else Some (Inr flat, ()) } })))"
  unfolding cfun_build_message_def message_arena_def Let_def
  by (intro arg_cong3 [where f = arg] refl ext if_cong) (auto split: option.splits intro!: Option.bind_cong)

text \<open>The call returns, and Janet can hold its result.\<close>

lemma build_message_ok:
  assumes A: "address_space A" and casts: "build_casts A J dwords pwords field_list"
  shows "\<exists>r. cfun_build_message A J dwords pwords field_list = Some (r, ()) \<and>
    (case r of Inl _ \<Rightarrow> True | Inr flat \<Rightarrow> length flat < 2 ^ 31)"
proof -
  let ?ok = "\<lambda>R. \<exists>r. R = Some (r, ()) \<and> (case r of Inl _ \<Rightarrow> True | Inr flat \<Rightarrow> length flat < 2 ^ 31)"
  have ok_arg: "?ok (arg () x k)" if "\<And>y. x = Inr y \<Longrightarrow> ?ok (k y)" for x :: "panic + 'b" and k
    using that by (cases x) auto
  have fields: "?ok (do { res \<leftarrow> message_arena A J (unat dw) (unat pw) fs;
      case res of Inl e \<Rightarrow> Some (Inl e, ())
      | Inr b \<Rightarrow> do { (r, flat) \<leftarrow> capnp_builder_serialize A b;
          if r \<noteq> CAPNP_OK then Some (Inl (Panic ''capnp/build-message'' ''serialize failed''), ())
          else if length flat > 2147483647 then None else Some (Inr flat, ()) } })"
    if g: "get (getinteger J) dwords = Inr dw" "get (getinteger J) pwords = Inr pw" "get (getindexed J) field_list = Inr fs" for dw pw fs
  proof -
    note c = casts [unfolded build_casts_def, rule_format, of dw pw fs]
    have g': "getinteger J dwords = Some dw" "getinteger J pwords = Some pw" "getindexed J field_list = Some fs"
      using g by (auto simp: get_def split: option.splits)
    then have fs: "list_all (field_casts J) fs"
      and fit: "\<And>b flat. message_arena A J (unat dw) (unat pw) fs = Some (Inr b) \<Longrightarrow>
        capnp_builder_serialize A b = Some (CAPNP_OK, flat) \<Longrightarrow> length flat \<le> 2147483647"
      using casts unfolding build_casts_def by blast+
    obtain r where r: "message_arena A J (unat dw) (unat pw) fs = Some r"
      "case r of Inl _ \<Rightarrow> True | Inr b \<Rightarrow> builder_inv b \<and> bsegs b \<noteq> [] \<and> has_word (segs_of b) 0 0"
      using message_arena_ok [OF A fs, of "unat dw" "unat pw"] by blast
    show ?thesis
    proof (cases r)
      case (Inr b)
      then obtain rc flat where s: "capnp_builder_serialize A b = Some (rc, flat)"
        using serialize_total [of b A] r(2) by auto
      then show ?thesis using r(1) Inr fit [of b flat] by fastforce
    qed (use r(1) in simp)
  qed
  show ?thesis unfolding build_message_eq
    by (intro ok_arg) (auto intro!: ok_arg fields)
qed

end
