(* ===== verification/ModHeap.thy ===== *)
theory ModHeap
  imports ModBuild ModViews Framing
begin

text \<open>
  The objects of \<open>src/janet_mod.c\<close> under the garbage collector of Janet. A program holds references to
  messages, pointers, builders and handles; a pointer keeps its message alive, a handle its builder
  and a view its buffer, because the \<open>gcmark\<close> callbacks name them. A collection may run between any two
  calls; it frees what the program and the marks do not reach, and an address may be used again.
  \<open>None\<close> is the use of an object that was freed, or any other undefined behaviour.
\<close>

section \<open>Objects\<close>

text \<open>A buffer of the machine with its bytes and the allocation that holds them; and the five abstract
  types. A message that views a buffer points into the allocation the buffer had then.\<close>

datatype obj = Buffer "byte list" nat | Msg_wrap message "(nat \<times> nat) option" | Ptr_wrap ptr nat
  | Builder_wrap bwrap | Builder_ptr_wrap builder_ptr nat | Builder_list_wrap builder_list nat

definition msg_gcmark :: "(nat \<times> nat) option \<Rightarrow> nat list" where
  "msg_gcmark view = (case view of None \<Rightarrow> [] | Some (view_buf, _) \<Rightarrow> [view_buf])"

definition ptr_gcmark :: "nat \<Rightarrow> nat list" where
  "ptr_gcmark message_abs = [message_abs]"

definition builder_ptr_gcmark :: "nat \<Rightarrow> nat list" where
  "builder_ptr_gcmark builder_abs = [builder_abs]"

definition builder_list_gcmark :: "nat \<Rightarrow> nat list" where
  "builder_list_gcmark builder_abs = [builder_abs]"

text \<open>The \<open>gcmark\<close> entries of the five types.\<close>

fun gcmark :: "obj \<Rightarrow> nat list" where
  "gcmark (Buffer _ _) = []"
| "gcmark (Msg_wrap _ view) = msg_gcmark view"
| "gcmark (Ptr_wrap _ message_abs) = ptr_gcmark message_abs"
| "gcmark (Builder_wrap _) = []"
| "gcmark (Builder_ptr_wrap _ builder_abs) = builder_ptr_gcmark builder_abs"
| "gcmark (Builder_list_wrap _ builder_abs) = builder_list_gcmark builder_abs"

text \<open>The machine: its objects by address, and the references of the program.\<close>

record mach =
  heap :: "nat \<Rightarrow> obj option"
  refs :: "nat set"

definition mach0 :: mach where
  "mach0 = \<lparr>heap = (\<lambda>_. None), refs = {}\<rparr>"

definition put :: "nat \<Rightarrow> obj \<Rightarrow> mach \<Rightarrow> mach" where
  "put a x s = s\<lparr>heap := (heap s)(a \<mapsto> x)\<rparr>"

text \<open>A new object, returned to the program.\<close>

definition hold :: "nat \<Rightarrow> obj \<Rightarrow> mach \<Rightarrow> mach" where
  "hold a x s = \<lparr>heap = (heap s)(a \<mapsto> x), refs = insert a (refs s)\<rparr>"

section \<open>Calls\<close>

text \<open>\<open>w->message_abs\<close> and \<open>w->builder_abs\<close>, followed.\<close>

definition get_msg :: "mach \<Rightarrow> nat \<Rightarrow> (message \<times> (nat \<times> nat) option) option" where
  "get_msg s a =
     (case heap s a of
        Some (Msg_wrap m None) \<Rightarrow> Some (m, None)
      | Some (Msg_wrap m (Some (b, k))) \<Rightarrow>
          (case heap s b of Some (Buffer _ k') \<Rightarrow> if k' = k then Some (m, Some (b, k)) else None | _ \<Rightarrow> None)
      | _ \<Rightarrow> None)"

definition get_builder :: "mach \<Rightarrow> nat \<Rightarrow> bwrap option" where
  "get_builder s a = (case heap s a of Some (Builder_wrap w) \<Rightarrow> Some w | _ \<Rightarrow> None)"

text \<open>A function that reads, on the message at \<open>a\<close> and the pointers \<open>ps\<close>; a pointer in the result becomes
  an object at \<open>new\<close> that refers to the message (\<open>make_ptr\<close>).\<close>

definition make_ptr :: "nat \<Rightarrow> nat \<Rightarrow> ptr \<Rightarrow> mach \<Rightarrow> mach" where
  "make_ptr new msg_abs p s = hold new (Ptr_wrap p msg_abs) s"

definition read_call :: "'v api \<Rightarrow> nat \<Rightarrow> mach \<Rightarrow> nat \<Rightarrow> ptr list \<Rightarrow> 'v read \<Rightarrow> mach option" where
  "read_call J new s a ps r = do {
     (m, view) \<leftarrow> get_msg s a;
     t \<leftarrow> read_one J \<lparr>message_of = m, views = ps\<rparr> r;
     let s = put a (Msg_wrap (message_of t) view) s;
     Some (case drop (length ps) (views t) of [] \<Rightarrow> s | p # _ \<Rightarrow> make_ptr new a p s) }"

text \<open>A function that builds, on the builder at \<open>a\<close> and its handles.\<close>

definition build_call ::
    "allocator \<Rightarrow> 'v api \<Rightarrow> nat \<Rightarrow> mach \<Rightarrow> nat \<Rightarrow> builder_ptr list \<Rightarrow> builder_list list \<Rightarrow> 'v action \<Rightarrow> mach option" where
  "build_call A J new s a ps ls act = do {
     w \<leftarrow> get_builder s a;
     t \<leftarrow> exec A J \<lparr>arena_of = w, ptrs = ps, struct_lists = ls\<rparr> act;
     let s = put a (Builder_wrap (arena_of t)) s;
     Some (case drop (length ps) (ptrs t) of p # _ \<Rightarrow> hold new (Builder_ptr_wrap p a) s
       | [] \<Rightarrow> (case drop (length ls) (struct_lists t) of l # _ \<Rightarrow> hold new (Builder_list_wrap l a) s | [] \<Rightarrow> s)) }"

text \<open>\<open>finish-builder\<close> and \<open>build-message\<close> return a new buffer with the message.\<close>

definition finish_call :: "allocator \<Rightarrow> nat \<Rightarrow> mach \<Rightarrow> nat \<Rightarrow> mach option" where
  "finish_call A new s a = do {
     w \<leftarrow> get_builder s a;
     (r, w) \<leftarrow> cfun_finish_builder A w;
     let s = put a (Builder_wrap w) s;
     Some (case r of Inl _ \<Rightarrow> s | Inr flat \<Rightarrow> hold new (Buffer flat 0) s) }"

definition build_message_call :: "allocator \<Rightarrow> 'v api \<Rightarrow> nat \<Rightarrow> mach \<Rightarrow> 'v \<Rightarrow> 'v \<Rightarrow> 'v \<Rightarrow> mach option" where
  "build_message_call A J new s dwords pwords field_list = do {
     (r, _) \<leftarrow> cfun_build_message A J dwords pwords field_list;
     Some (case r of Inl _ \<Rightarrow> s | Inr flat \<Rightarrow> hold new (Buffer flat 0) s) }"

text \<open>The functions by their receiver; on another type the machine panics and nothing changes.\<close>

datatype 'v op = From_buffer | View_buffer | Read "'v read" | Build "'v action"

fun on_message :: "'v read \<Rightarrow> bool" where
  "on_message Read_root = True"
| "on_message _ = False"

fun on_builder :: "'v action \<Rightarrow> bool" where
  "on_builder (Init_root _ _) = True"
| "on_builder Finish = True"
| "on_builder _ = False"

definition from_buffer :: "allocator \<Rightarrow> nat \<Rightarrow> mach \<Rightarrow> byte list \<Rightarrow> mach option" where
  "from_buffer A new s bytes = do {
     r \<leftarrow> cfun_message_from_buffer A bytes;
     Some (case r of Inl _ \<Rightarrow> s | Inr m \<Rightarrow> hold new (Msg_wrap m None) s) }"

definition view_buffer :: "allocator \<Rightarrow> nat \<Rightarrow> mach \<Rightarrow> nat \<Rightarrow> byte list \<Rightarrow> nat \<Rightarrow> mach option" where
  "view_buffer A new s b bytes k = do {
     r \<leftarrow> cfun_message_view_buffer A bytes;
     Some (case r of Inl _ \<Rightarrow> s | Inr m \<Rightarrow> hold new (Msg_wrap m (Some (b, k))) s) }"

definition mcall :: "allocator \<Rightarrow> 'v api \<Rightarrow> nat \<Rightarrow> mach \<Rightarrow> nat \<Rightarrow> 'v op \<Rightarrow> mach option" where
  "mcall A J new s a op =
     (case heap s a of
        None \<Rightarrow> None
      | Some x \<Rightarrow>
          (case (x, op) of
             (Buffer bytes k, From_buffer) \<Rightarrow> from_buffer A new s bytes
           | (Buffer bytes k, View_buffer) \<Rightarrow> view_buffer A new s a bytes k
           | (Msg_wrap m view, Read r) \<Rightarrow> if on_message r then read_call J new s a [] r else Some s
           | (Ptr_wrap p b, Read r) \<Rightarrow> if on_message r then Some s else read_call J new s b [p] r
           | (Builder_wrap w, Build Finish) \<Rightarrow> finish_call A new s a
           | (Builder_wrap w, Build act) \<Rightarrow> if on_builder act then build_call A J new s a [] [] act else Some s
           | (Builder_ptr_wrap p b, Build act) \<Rightarrow> if on_builder act then Some s else build_call A J new s b [p] [] act
           | (Builder_list_wrap l b, Build act) \<Rightarrow> if on_builder act then Some s else build_call A J new s b [] [l] act
           | _ \<Rightarrow> Some s))"

section \<open>Steps\<close>

text \<open>
  The calls that may be made on the object at \<open>a\<close>. A buffer is opened only when the message in it leads,
  from the root on, to objects inside their segments; a number that indexes a pointer is an \<open>int32_t\<close>;
  every building call may be made.
\<close>

definition may_call :: "allocator \<Rightarrow> 'v api \<Rightarrow> mach \<Rightarrow> nat \<Rightarrow> 'v op \<Rightarrow> bool" where
  "may_call A J s a op =
     (case op of
        From_buffer \<Rightarrow> \<forall>bytes k m. heap s a = Some (Buffer bytes k) \<longrightarrow> cfun_message_from_buffer A bytes = Some (Inr m) \<longrightarrow> placed m
      | View_buffer \<Rightarrow> \<forall>bytes k m. heap s a = Some (Buffer bytes k) \<longrightarrow> cfun_message_view_buffer A bytes = Some (Inr m) \<longrightarrow> placed m
      | Read r \<Rightarrow> key_ok J r
      | Build act \<Rightarrow> True)"

text \<open>No message views the buffer at \<open>b\<close>.\<close>

definition unviewed :: "mach \<Rightarrow> nat \<Rightarrow> bool" where
  "unviewed s b \<longleftrightarrow> (\<forall>a m k. heap s a \<noteq> Some (Msg_wrap m (Some (b, k))))"

text \<open>
  A step of the machine: a new buffer with any bytes, a change to a buffer, which may move its bytes,
  references that the program drops, a collection, a new builder, a message built in one call, and a
  call on an object. A buffer is not changed while a message views it. A collection keeps a set of
  objects that holds the references of the program and is closed under the marks. New objects
  may be at any free address.
\<close>

inductive mstep :: "allocator \<Rightarrow> 'v api \<Rightarrow> mach \<Rightarrow> mach option \<Rightarrow> bool" for A :: allocator and J :: "'v api" where
  new_buffer: "heap s a = None \<Longrightarrow> length bytes < 2 ^ 31 \<Longrightarrow> mstep A J s (Some (hold a (Buffer bytes k) s))"
| write_buffer: "heap s a = Some (Buffer old k) \<Longrightarrow> unviewed s a \<Longrightarrow> length bytes < 2 ^ 31 \<Longrightarrow>
    mstep A J s (Some (put a (Buffer bytes k') s))"
| forget: "kept \<subseteq> refs s \<Longrightarrow> mstep A J s (Some (s\<lparr>refs := kept\<rparr>))"
| collect: "refs s \<subseteq> kept \<Longrightarrow> (\<And>a x. a \<in> kept \<Longrightarrow> heap s a = Some x \<Longrightarrow> set (gcmark x) \<subseteq> kept) \<Longrightarrow>
    mstep A J s (Some (s\<lparr>heap := heap s |` kept\<rparr>))"
| new_builder: "heap s a = None \<Longrightarrow> cfun_new_builder A J words = Inr w \<Longrightarrow> mstep A J s (Some (hold a (Builder_wrap w) s))"
| build_message: "heap s new = None \<Longrightarrow> build_casts A J dwords pwords field_list \<Longrightarrow>
    mstep A J s (build_message_call A J new s dwords pwords field_list)"
| call: "a \<in> refs s \<Longrightarrow> heap s new = None \<Longrightarrow> may_call A J s a op \<Longrightarrow> mstep A J s (mcall A J new s a op)"

inductive mreach :: "allocator \<Rightarrow> 'v api \<Rightarrow> mach \<Rightarrow> bool" for A :: allocator and J :: "'v api" where
  start: "mreach A J mach0"
| more: "mreach A J s \<Longrightarrow> mstep A J s (Some s') \<Longrightarrow> mreach A J s'"

end
