(* ===== verification/ModKeep.thy ===== *)
theory ModKeep
  imports ModHeap ModClaims
begin

text \<open>
  No use after free. Every object of the machine is valid and what it refers to is there; every step
  keeps this, a collection because the \<open>gcmark\<close> callbacks name every reference. So no call in a reachable
  state is undefined.
\<close>

section \<open>The invariant\<close>

fun obj_ok :: "allocator \<Rightarrow> (nat \<Rightarrow> obj option) \<Rightarrow> obj \<Rightarrow> bool" where
  "obj_ok A h (Buffer bytes k) = (length bytes < 2 ^ 31)"
| "obj_ok A h (Msg_wrap m view) = (placed m \<and> (case view of None \<Rightarrow> True | Some (b, k) \<Rightarrow> \<exists>bytes. h b = Some (Buffer bytes k)))"
| "obj_ok A h (Ptr_wrap p a) = (\<exists>m view. h a = Some (Msg_wrap m view) \<and> tracked m p)"
| "obj_ok A h (Builder_wrap w) = wrap_ok w"
| "obj_ok A h (Builder_ptr_wrap p a) = (\<exists>w. h a = Some (Builder_wrap w) \<and> ptr_ok w p)"
| "obj_ok A h (Builder_list_wrap l a) = (\<exists>w. h a = Some (Builder_wrap w) \<and> list_ok w l)"

definition heap_ok :: "allocator \<Rightarrow> (nat \<Rightarrow> obj option) \<Rightarrow> bool" where
  "heap_ok A h \<longleftrightarrow> (\<forall>a x. h a = Some x \<longrightarrow> obj_ok A h x)"

definition mach_ok :: "allocator \<Rightarrow> mach \<Rightarrow> bool" where
  "mach_ok A s \<longleftrightarrow> heap_ok A (heap s) \<and> (\<forall>a \<in> refs s. heap s a \<noteq> None)"

lemma heap_okD: "heap_ok A h \<Longrightarrow> h a = Some x \<Longrightarrow> obj_ok A h x"
  by (simp add: heap_ok_def)

lemma heap_okI: "(\<And>a x. h a = Some x \<Longrightarrow> obj_ok A h x) \<Longrightarrow> heap_ok A h"
  by (simp add: heap_ok_def)

text \<open>What may replace an object: a message after reads, a builder after a call, a buffer nobody views.\<close>

definition succeeds :: "obj \<Rightarrow> obj \<Rightarrow> bool" where
  "succeeds x y \<longleftrightarrow> (case (x, y) of
     (Msg_wrap m view, Msg_wrap m' view') \<Rightarrow> seen m m' \<and> view' = view
   | (Builder_wrap w, Builder_wrap w') \<Rightarrow> \<exists>g. changes w g w'
   | _ \<Rightarrow> False)"

lemma obj_ok_put:
  assumes "obj_ok A h y" "h a = Some x" "succeeds x x'"
  shows "obj_ok A (h(a \<mapsto> x')) y"
  using assms
  by (cases y) (auto simp: succeeds_def seen_keeps(2) split: obj.splits option.splits intro: changes_keep)

lemma obj_ok_new: "obj_ok A h y \<Longrightarrow> h a = None \<Longrightarrow> obj_ok A (h(a \<mapsto> x)) y"
  by (cases y) (auto split: option.splits)

lemma heap_ok_new: "heap_ok A h \<Longrightarrow> h a = None \<Longrightarrow> obj_ok A h x \<Longrightarrow> heap_ok A (h(a \<mapsto> x))"
  by (intro heap_okI obj_ok_new) (auto split: if_splits dest: heap_okD)

lemma heap_ok_put: "heap_ok A h \<Longrightarrow> h a = Some x \<Longrightarrow> succeeds x x' \<Longrightarrow> obj_ok A h x' \<Longrightarrow> heap_ok A (h(a \<mapsto> x'))"
  by (intro heap_okI obj_ok_put [of A h _ a x]) (auto split: if_splits dest: heap_okD)

lemma mach_okD: "mach_ok A s \<Longrightarrow> heap s a = Some x \<Longrightarrow> obj_ok A (heap s) x"
  by (auto simp: mach_ok_def dest: heap_okD)

lemma mach_ok_hold: "mach_ok A s \<Longrightarrow> heap s a = None \<Longrightarrow> obj_ok A (heap s) x \<Longrightarrow> mach_ok A (hold a x s)"
  by (auto simp: mach_ok_def hold_def heap_ok_new)

lemma mach_ok_put: "mach_ok A s \<Longrightarrow> heap s a = Some x \<Longrightarrow> succeeds x x' \<Longrightarrow> obj_ok A (heap s) x' \<Longrightarrow> mach_ok A (put a x' s)"
  by (auto simp: mach_ok_def put_def heap_ok_put)

section \<open>Calls\<close>

definition fine :: "allocator \<Rightarrow> mach option \<Rightarrow> bool" where
  "fine A R \<longleftrightarrow> (\<exists>s. R = Some s \<and> mach_ok A s)"

lemma fine_Some [simp]: "fine A (Some s) = mach_ok A s" "\<not> fine A None"
  by (simp_all add: fine_def)

lemma from_buffer_fine:
  assumes "mach_ok A s" "heap s new = None" "\<And>m. cfun_message_from_buffer A bytes = Some (Inr m) \<Longrightarrow> placed m"
  shows "fine A (from_buffer A new s bytes)"
proof -
  obtain r where "cfun_message_from_buffer A bytes = Some r"
    by (cases "stream_fits bytes"; cases "mem_ok A (body_size bytes)") (auto simp: cfun_message_from_buffer_def from_flat_eq)
  then show ?thesis using assms
    by (cases r) (auto simp: from_buffer_def intro!: mach_ok_hold)
qed

lemma view_buffer_fine:
  assumes "mach_ok A s" "heap s new = None" "heap s b = Some (Buffer bytes k)"
    and "\<And>m. cfun_message_view_buffer A bytes = Some (Inr m) \<Longrightarrow> placed m"
  shows "fine A (view_buffer A new s b bytes k)"
proof -
  obtain r where "cfun_message_view_buffer A bytes = Some r"
    by (cases "stream_fits bytes") (auto simp: cfun_message_view_buffer_def view_flat_eq)
  then show ?thesis using assms
    by (cases r) (auto simp: view_buffer_def intro!: mach_ok_hold)
qed

text \<open>A message or builder that an object refers to can be used.\<close>

lemma get_msg_ok:
  assumes "mach_ok A s" "heap s a = Some (Msg_wrap m view)"
  shows "get_msg s a = Some (m, view)" "placed m"
proof -
  have "obj_ok A (heap s) (Msg_wrap m view)" by (rule mach_okD [OF assms])
  then show "get_msg s a = Some (m, view)" "placed m"
    using assms(2) by (auto simp: get_msg_def split: option.splits)
qed

lemma read_call_fine:
  assumes s: "mach_ok A s" "heap s new = None" and m: "heap s a = Some (Msg_wrap m view)" "list_all (tracked m) ps" and J: "methods_ok J" "key_ok J r"
  shows "fine A (read_call J new s a ps r)"
proof -
  note g = get_msg_ok [OF s(1) m(1)]
  have "viewing_ok \<lparr>message_of = m, views = ps\<rparr>" using g(2) m(2) by (simp add: viewing_ok_def)
  from read_one_ok [OF this J] obtain t where t: "read_one J \<lparr>message_of = m, views = ps\<rparr> r = Some t"
    "viewing_ok t" "seen m (message_of t)" by auto
  let ?s = "put a (Msg_wrap (message_of t) view) s"
  have new: "new \<noteq> a" using s(2) m(1) by auto
  have ok: "mach_ok A ?s"
  proof (rule mach_ok_put [OF s(1) m(1)])
    show "succeeds (Msg_wrap m view) (Msg_wrap (message_of t) view)" using t(3) by (simp add: succeeds_def)
    show "obj_ok A (heap s) (Msg_wrap (message_of t) view)"
      using mach_okD [OF s(1) m(1)] t(2) by (simp add: viewing_ok_def)
  qed
  have "mach_ok A (make_ptr new a p ?s)" if "drop (length ps) (views t) = p # qs" for p qs
    unfolding make_ptr_def
  proof (rule mach_ok_hold [OF ok])
    have "p \<in> set (views t)" using that by (metis in_set_dropD list.set_intros(1))
    then show "obj_ok A (heap ?s) (Ptr_wrap p a)" using t(2) by (simp add: put_def viewing_ok_def list_all_iff)
    show "heap ?s new = None" using s(2) new by (simp add: put_def)
  qed
  then show ?thesis using g(1) t(1) ok by (simp add: read_call_def Let_def split: list.split)
qed

lemma build_call_fine:
  assumes A: "address_space A" and J: "api_ok J" and s: "mach_ok A s" "heap s new = None"
    and w: "heap s a = Some (Builder_wrap w)" "list_all (ptr_ok w) ps" "list_all (list_ok w) ls"
  shows "fine A (build_call A J new s a ps ls act)"
proof -
  let ?h = "\<lparr>arena_of = w, ptrs = ps, struct_lists = ls\<rparr>"
  have "wrap_ok w" using mach_okD [OF s(1) w(1)] by simp
  then have "held_ok ?h" using w(2,3) by (simp add: held_ok_def)
  from exec_ok [OF A J this, of act] obtain t where t: "exec A J ?h act = Some t" "held_ok t"
    "changes w (reach ?h act) (arena_of t)" by (auto simp: step_ok_def)
  let ?s = "put a (Builder_wrap (arena_of t)) s"
  have new: "heap ?s new = None" "heap ?s a = Some (Builder_wrap (arena_of t))" using s(2) w(1) by (auto simp: put_def)
  have ok: "mach_ok A ?s"
  proof (rule mach_ok_put [OF s(1) w(1)])
    show "succeeds (Builder_wrap w) (Builder_wrap (arena_of t))"
      using t(3) unfolding succeeds_def by (simp del: split_paired_Ex) blast
    show "obj_ok A (heap s) (Builder_wrap (arena_of t))" using t(2) by (simp add: held_ok_def)
  qed
  have p: "mach_ok A (hold new (Builder_ptr_wrap p a) ?s)" if "drop (length ps) (ptrs t) = p # qs" for p qs
  proof (rule mach_ok_hold [OF ok new(1)])
    have "p \<in> set (ptrs t)" using that by (metis in_set_dropD list.set_intros(1))
    then show "obj_ok A (heap ?s) (Builder_ptr_wrap p a)" using t(2) new(2) by (simp add: held_ok_def list_all_iff)
  qed
  have l: "mach_ok A (hold new (Builder_list_wrap l a) ?s)" if "drop (length ls) (struct_lists t) = l # qs" for l qs
  proof (rule mach_ok_hold [OF ok new(1)])
    have "l \<in> set (struct_lists t)" using that by (metis in_set_dropD list.set_intros(1))
    then show "obj_ok A (heap ?s) (Builder_list_wrap l a)" using t(2) new(2) by (simp add: held_ok_def list_all_iff)
  qed
  have "get_builder s a = Some w" using w(1) by (simp add: get_builder_def)
  then show ?thesis using t(1) ok p l by (simp add: build_call_def Let_def split: list.split)
qed

lemma finish_call_fine:
  assumes s: "mach_ok A s" "heap s new = None" and w: "heap s a = Some (Builder_wrap w)"
  shows "fine A (finish_call A new s a)"
proof -
  have "wrap_ok w" using mach_okD [OF s(1) w] by simp
  from finish_ok [OF this, of "(0, 0, 0)" A] obtain r w' where r: "cfun_finish_builder A w = Some (r, w')" "wrap_ok w'"
    "changes w (0, 0, 0) w'" by (auto simp: call_ok_def)
  have len: "length flat < 2 ^ 31" if "r = Inr flat" for flat
    using r(1) that by (auto simp: cfun_finish_builder_def arg_def split: sum.splits bind_splits if_splits)
  let ?s = "put a (Builder_wrap w') s"
  have ok: "mach_ok A ?s"
    by (rule mach_ok_put [OF s(1) w]) (use r in \<open>auto simp: succeeds_def simp del: split_paired_Ex\<close>)
  have new: "heap ?s new = None" using s(2) w by (auto simp: put_def)
  have "get_builder s a = Some w" using w by (simp add: get_builder_def)
  then show ?thesis using r(1) ok new len by (cases r) (simp_all add: finish_call_def Let_def mach_ok_hold)
qed

lemma build_message_fine:
  assumes "address_space A" "mach_ok A s" "heap s new = None" "build_casts A J dwords pwords field_list"
  shows "fine A (build_message_call A J new s dwords pwords field_list)"
proof -
  obtain r where "cfun_build_message A J dwords pwords field_list = Some (r, ())"
    "case r of Inl _ \<Rightarrow> True | Inr flat \<Rightarrow> length flat < 2 ^ 31"
    using build_message_ok [OF assms(1,4)] by blast
  then show ?thesis using assms(2,3) by (cases r) (simp_all add: build_message_call_def mach_ok_hold)
qed

lemma mcall_fine:
  assumes A: "address_space A" "api_ok J" "methods_ok J" and s: "mach_ok A s" "heap s new = None" and a: "a \<in> refs s"
    and may: "may_call A J s a op"
  shows "fine A (mcall A J new s a op)"
proof -
  obtain x where x: "heap s a = Some x" using s(1) a by (auto simp: mach_ok_def)
  have ok: "obj_ok A (heap s) x" by (rule mach_okD [OF s(1) x])
  have key: "key_ok J r" if "op = Read r" for r using may that by (simp add: may_call_def)
  show ?thesis
  proof (cases x)
    case (Buffer bytes k)
    have "op = From_buffer \<Longrightarrow> cfun_message_from_buffer A bytes = Some (Inr m) \<Longrightarrow> placed m"
      "op = View_buffer \<Longrightarrow> cfun_message_view_buffer A bytes = Some (Inr m) \<Longrightarrow> placed m" for m
      using may x Buffer by (auto simp: may_call_def)
    then show ?thesis using s x Buffer from_buffer_fine [OF s] view_buffer_fine [OF s]
      by (cases op) (simp_all add: mcall_def)
  next
    case (Msg_wrap m view)
    then show ?thesis using s x key read_call_fine [OF s, of a m view "[]" J] A(3) by (cases op) (simp_all add: mcall_def)
  next
    case (Ptr_wrap p b)
    then show ?thesis using s x ok key read_call_fine [OF s, of b _ _ "[p]" J] A(3) by (cases op) (auto simp: mcall_def)
  next
    case (Builder_wrap w)
    have "fine A (mcall A J new s a (Build act))" for act
      using s x Builder_wrap build_call_fine [OF A(1,2) s, of a w "[]" "[]" act] finish_call_fine [OF s, of a w]
      by (cases act) (simp_all add: mcall_def)
    then show ?thesis using s x Builder_wrap by (cases op) (simp_all add: mcall_def)
  next
    case (Builder_ptr_wrap p b)
    then show ?thesis using s x ok build_call_fine [OF A(1,2) s, of b _ "[p]" "[]"] by (cases op) (auto simp: mcall_def)
  next
    case (Builder_list_wrap l b)
    then show ?thesis using s x ok build_call_fine [OF A(1,2) s, of b _ "[]" "[l]"] by (cases op) (auto simp: mcall_def)
  qed
qed

section \<open>Steps\<close>

text \<open>A collection: the marks of an object name everything its validity rests on.\<close>

lemma obj_ok_marked:
  assumes "obj_ok A h x" "set (gcmark x) \<subseteq> kept"
  shows "obj_ok A (h |` kept) x"
  using assms
  by (cases x) (auto simp: msg_gcmark_def ptr_gcmark_def builder_ptr_gcmark_def builder_list_gcmark_def split: option.splits)

lemma mach_ok_collect:
  assumes "mach_ok A s" "refs s \<subseteq> kept" "\<And>a x. a \<in> kept \<Longrightarrow> heap s a = Some x \<Longrightarrow> set (gcmark x) \<subseteq> kept"
  shows "mach_ok A (s\<lparr>heap := heap s |` kept\<rparr>)"
proof -
  have "heap_ok A (heap s |` kept)"
    by (intro heap_okI obj_ok_marked) (use assms in \<open>auto simp: mach_ok_def restrict_map_def split: if_splits dest: heap_okD\<close>)
  then show ?thesis using assms(1,2) by (auto simp: mach_ok_def restrict_map_def)
qed

lemma mach_ok_write:
  assumes "mach_ok A s" "heap s b = Some (Buffer old k)" "unviewed s b" "length bytes < 2 ^ 31"
  shows "mach_ok A (put b (Buffer bytes k') s)"
proof -
  have "obj_ok A ((heap s)(b \<mapsto> Buffer bytes k')) x" if "heap s a = Some x" for a x
  proof -
    have "obj_ok A (heap s) x" by (rule mach_okD [OF assms(1) that])
    then show ?thesis using assms(2,3) that
      by (cases x) (auto simp: unviewed_def split: option.splits)
  qed
  then have "heap_ok A ((heap s)(b \<mapsto> Buffer bytes k'))"
    by (intro heap_okI) (use assms(4) in \<open>auto split: if_splits\<close>)
  then show ?thesis using assms(1) by (auto simp: mach_ok_def put_def)
qed

lemma mstep_fine:
  assumes A: "address_space A" "api_ok J" "methods_ok J" and step: "mstep A J s R" "mach_ok A s"
  shows "fine A R"
  using step
proof cases
  case (new_buffer a bytes k)
  then show ?thesis using step(2) by (simp add: mach_ok_hold)
next
  case (write_buffer a old k bytes k')
  then show ?thesis using step(2) by (simp add: mach_ok_write)
next
  case (forget kept)
  then show ?thesis using step(2) by (auto simp: mach_ok_def)
next
  case (collect kept)
  then show ?thesis using step(2) by (simp add: mach_ok_collect)
next
  case (new_builder a words w)
  have "wrap_ok w" using new_builder_ok [OF A(1) new_builder(3)] by (simp add: held_ok_def)
  then show ?thesis using new_builder(1,2) step(2) by (simp add: mach_ok_hold)
next
  case (build_message new dwords pwords field_list)
  then show ?thesis using build_message_fine [OF A(1) step(2)] by simp
next
  case (call a new op)
  then show ?thesis using mcall_fine [OF A step(2)] by simp
qed

lemma mreach_ok:
  assumes A: "address_space A" "api_ok J" "methods_ok J" and reach: "mreach A J s"
  shows "mach_ok A s"
  using reach
proof induction
  case start
  then show ?case by (simp add: mach_ok_def heap_ok_def mach0_def)
next
  case (more s s')
  then show ?case using mstep_fine [OF A more(2,3)] by simp
qed

text \<open>
  C4 No use after free. In every state a Janet program reaches by calls of the module on any number of
  buffers, messages, pointers, builders and handles, with collections at any time, the next step is
  never undefined: what a held object refers to has not been freed, every pointer lies inside the
  message it reads and every handle inside the builder it writes. Three things are assumed of the
  program, and each is a premise of a step: it opens only buffers whose message leads, from the root
  on, to objects inside their segments (\<open>may_call\<close>; the reader does not check two forms of pointers),
  it does not change a buffer while a message views it (\<open>unviewed\<close>), and the numbers that the module
  casts to \<open>int32_t\<close> are in its range (\<open>key_ok\<close>, \<open>build_casts\<close>). Without each of them the module is not
  safe.
\<close>

theorem no_use_after_free:
  assumes "address_space A" "api_ok J" "methods_ok J" "mreach A J s"
  shows "\<not> mstep A J s None \<and> mach_ok A s \<and> (\<forall>a \<in> refs s. \<forall>x. heap s a = Some x \<longrightarrow> (\<forall>b \<in> set (gcmark x). heap s b \<noteq> None))"
proof -
  note ok = mreach_ok [OF assms]
  have "heap s b \<noteq> None" if "heap s a = Some x" "b \<in> set (gcmark x)" for a x b
  proof -
    have "obj_ok A (heap s) x" by (rule mach_okD [OF ok that(1)])
    then show ?thesis using that(2)
      by (cases x) (auto simp: msg_gcmark_def ptr_gcmark_def builder_ptr_gcmark_def builder_list_gcmark_def split: option.splits)
  qed
  then show ?thesis using mstep_fine [OF assms(1-3) _ ok, of None] ok by auto
qed

text \<open>
  A message that views a buffer, and its root: when the program keeps only the root pointer, a
  collection frees another buffer, but neither the message nor the viewed one.
\<close>

definition demo_flat :: "byte list" where
  "demo_flat = [0, 0, 0, 0, 3, 0, 0, 0, 0, 0, 0, 0, 1, 0, 1, 0, 6, 0, 0, 0, 0, 0, 0, 0, 0, 0, 0, 0, 0, 0, 0, 0]"

lemma demo_view: "cfun_message_view_buffer A demo_flat = Some (Inr canon_demo)"
  by (simp add: cfun_message_view_buffer_def capnp_message_view_flat_def parse_flat_def demo_flat_def rd_def Let_def
      capnp_load_le32_def MAX_SEGMENTS_def table_size_def WORD_BYTES_def canon_demo_def capnp_message_init_def)
    (simp add: numeral_eq_Suc)

theorem no_use_after_free_witness:
  "\<exists>s m. mreach machine demo_api s \<and> refs s = {2} \<and> heap s 2 = Some (Ptr_wrap canon_root 1) \<and>
    heap s 1 = Some (Msg_wrap m (Some (0, 0))) \<and> heap s 0 = Some (Buffer demo_flat 0) \<and> heap s 3 = None \<and>
    mach_ok machine s \<and> \<not> mstep machine demo_api s None"
proof -
  let ?b = "Buffer demo_flat 0" and ?m = "at canon_demo 8388605"
  let ?s1 = "hold 0 ?b mach0" and ?s5 = "\<lambda>h. \<lparr>heap = h, refs = {2}\<rparr>"
  let ?s2 = "hold 1 (Msg_wrap canon_demo (Some (0, 0))) ?s1"
  let ?s3 = "make_ptr 2 1 canon_root (put 1 (Msg_wrap ?m (Some (0, 0))) ?s2)"
  let ?s4 = "hold 3 (Buffer [] 0) ?s3"
  have 1: "mreach machine demo_api ?s1"
    by (rule mreach.more [OF mreach.start mstep.new_buffer]) (simp_all add: mach0_def demo_flat_def)
  have "mstep machine demo_api ?s1 (mcall machine demo_api 1 ?s1 0 View_buffer)"
    by (rule mstep.call) (auto simp: may_call_def hold_def mach0_def demo_view canon_demo_placed(1))
  moreover have "mcall machine demo_api 1 ?s1 0 View_buffer = Some ?s2"
    by (simp add: mcall_def hold_def view_buffer_def demo_view)
  ultimately have 2: "mreach machine demo_api ?s2" using mreach.more [OF 1] by simp
  have "mstep machine demo_api ?s2 (mcall machine demo_api 2 ?s2 1 (Read Read_root))"
    by (rule mstep.call) (simp_all add: may_call_def hold_def mach0_def)
  moreover have "mcall machine demo_api 2 ?s2 1 (Read Read_root) = Some ?s3"
    by (simp add: mcall_def hold_def read_call_def get_msg_def show_result_def cfun_root_def canon_root_eq)
  ultimately have 3: "mreach machine demo_api ?s3" using mreach.more [OF 2] by simp
  have 4: "mreach machine demo_api ?s4"
    by (rule mreach.more [OF 3 mstep.new_buffer]) (simp_all add: mach0_def hold_def put_def make_ptr_def)
  have 5: "mreach machine demo_api (?s5 (heap ?s4))"
    using mreach.more [OF 4 mstep.forget [of "{2}"]] by (simp add: hold_def make_ptr_def)
  have marks: "set (gcmark x) \<subseteq> {0, 1, 2}" if "a \<in> {0, 1, 2}" "heap (?s5 (heap ?s4)) a = Some x" for a x
    using that by (auto simp: hold_def mach0_def put_def make_ptr_def msg_gcmark_def ptr_gcmark_def split: if_splits)
  have "mstep machine demo_api (?s5 (heap ?s4)) (Some (?s5 (heap ?s4)\<lparr>heap := heap (?s5 (heap ?s4)) |` {0, 1, 2}\<rparr>))"
    by (rule mstep.collect [OF _ marks]) simp
  then have 6: "mreach machine demo_api (?s5 (heap ?s4 |` {0, 1, 2}))" using mreach.more [OF 5] by simp
  note safe = no_use_after_free [OF machine(1) demo_api demo_methods 6]
  show ?thesis
    by (rule exI [of _ "?s5 (heap ?s4 |` {0, 1, 2})"], rule exI [of _ ?m])
      (use 6 safe in \<open>simp add: hold_def mach0_def put_def make_ptr_def\<close>)
qed

text \<open>
  A buffer that is changed while a message views it. \<open>message-view-buffer\<close> keeps the address of the
  bytes; when the program pushes onto the buffer and the machine moves them, the message points into
  freed memory although its \<open>gcmark\<close> callback keeps the buffer alive: reading the root is undefined,
  and so is a read through any pointer of the message.
\<close>

lemma view_dangles:
  assumes "heap s a = Some (Msg_wrap m (Some (b, k)))" "k' \<noteq> k" "a \<noteq> b"
    and "heap s c = Some (Ptr_wrap p a)" "c \<noteq> b" "\<not> on_message r"
  shows "mcall A J new (put b (Buffer bytes k') s) a (Read Read_root) = None \<and>
    mcall A J new (put b (Buffer bytes k') s) c (Read r) = None"
  using assms by (simp add: mcall_def put_def read_call_def get_msg_def)

lemma view_dangles_example:
  "mcall machine demo_api 3 (put 0 (Buffer [1] 1) \<lparr>heap = [0 \<mapsto> Buffer [] 0, 1 \<mapsto> Msg_wrap canon_demo (Some (0, 0)), 2 \<mapsto> Ptr_wrap ptr0 1],
      refs = {0, 1, 2}\<rparr>) 1 (Read Read_root) = None \<and>
    mcall machine demo_api 3 (put 0 (Buffer [1] 1) \<lparr>heap = [0 \<mapsto> Buffer [] 0, 1 \<mapsto> Msg_wrap canon_demo (Some (0, 0)), 2 \<mapsto> Ptr_wrap ptr0 1],
      refs = {0, 1, 2}\<rparr>) 2 (Read (Read_ptr 0 (I 0))) = None"
  by (rule view_dangles [of _ 1 canon_demo 0 0 _ 2 ptr0]) simp_all

end
