(* ===== verification/ModReg.thy ===== *)
theory ModReg
  imports ModWrite
begin

text \<open>
  The table of \<open>src/janet_mod.c\<close> by which the machine finds the functions of the module: the name under
  the prefix \<open>capnp\<close>, the C function and its documentation. The two macros for lists define one
  function per kind of item.
\<close>

section \<open>List functions\<close>

text \<open>The uses of \<open>DEFINE_LIST_SETTER\<close> and \<open>DEFINE_LIST_GETTER\<close>, the same names and kinds in both.\<close>

definition list_kinds :: "(string \<times> janet_list_kind) list" where
  "list_kinds = [(''bool'', LIST_BOOL), (''i8'', LIST_I8), (''u8'', LIST_U8), (''i16'', LIST_I16), (''u16'', LIST_U16),
     (''i32'', LIST_I32), (''u32'', LIST_U32), (''i64'', LIST_I64), (''u64'', LIST_U64), (''f32'', LIST_F32), (''f64'', LIST_F64)]"

definition cfun_set_list ::
    "allocator \<Rightarrow> 'v api \<Rightarrow> string \<Rightarrow> bwrap \<Rightarrow> builder_ptr \<Rightarrow> 'v \<Rightarrow> 'v \<Rightarrow> ((unit, bwrap) call) option" where
  "cfun_set_list A J name w p idx values =
     map_option (\<lambda>kind. cfun_set_list_values A J w p idx values kind (''capnp/set-list-'' @ name)) (map_of list_kinds name)"

definition cfun_list_get :: "'v api \<Rightarrow> string \<Rightarrow> message \<Rightarrow> ptr \<Rightarrow> 'v \<Rightarrow> 'v option \<Rightarrow> ((jvalue, message) call) option" where
  "cfun_list_get J name m list idx dflt = map_option (cfun_list_get_value J m list idx dflt) (map_of list_kinds name)"

section \<open>Registration\<close>

abbreviation nl :: string where "nl \<equiv> [CHR 0x0A]"

definition capnp_cfuns :: "(string \<times> string \<times> string) list" where
  "capnp_cfuns =
    [(''message-from-buffer'', ''cfun_message_from_buffer'', ''(capnp/message-from-buffer buf)'' @ nl @ nl @ ''Deserialize a stream-framed Cap'n message (copy).''),
     (''message-view-buffer'', ''cfun_message_view_buffer'', ''(capnp/message-view-buffer buf)'' @ nl @ nl @ ''Zero-copy view of a stream-framed Cap'n message; buf must stay live.''),
     (''root'', ''cfun_root'', ''(capnp/root msg)'' @ nl @ nl @ ''Root pointer of the message.''),
     (''kind'', ''cfun_kind'', ''(capnp/kind ptr)'' @ nl @ nl @ '':null | :struct | :list | :cap''),
     (''getp'', ''cfun_getp'', ''(capnp/getp struct-ptr index)'' @ nl @ nl @ ''Pointer slot.''),
     (''get-u8'', ''cfun_get_u8'', ''(capnp/get-u8 struct-ptr byte-offset &opt schema-default)''),
     (''get-i8'', ''cfun_get_i8'', ''(capnp/get-i8 struct-ptr byte-offset &opt schema-default)''),
     (''get-u16'', ''cfun_get_u16'', ''(capnp/get-u16 struct-ptr byte-offset &opt schema-default)''),
     (''get-i16'', ''cfun_get_i16'', ''(capnp/get-i16 struct-ptr byte-offset &opt schema-default)''),
     (''get-u32'', ''cfun_get_u32'', ''(capnp/get-u32 struct-ptr byte-offset &opt schema-default)''),
     (''get-i32'', ''cfun_get_i32'', ''(capnp/get-i32 struct-ptr byte-offset &opt schema-default)''),
     (''get-u64'', ''cfun_get_u64'', ''(capnp/get-u64 struct-ptr byte-offset &opt schema-default)''),
     (''get-i64'', ''cfun_get_i64'', ''(capnp/get-i64 struct-ptr byte-offset &opt schema-default)''),
     (''get-f32'', ''cfun_get_f32'', ''(capnp/get-f32 struct-ptr byte-offset &opt schema-default)''),
     (''get-f64'', ''cfun_get_f64'', ''(capnp/get-f64 struct-ptr byte-offset &opt schema-default)''),
     (''get-bool'', ''cfun_get_bool'', ''(capnp/get-bool struct-ptr bit-offset &opt schema-default)''),
     (''get-text'', ''cfun_get_text'', ''(capnp/get-text struct-ptr ptr-index)'' @ nl @ nl @ ''Text at pointer slot.''),
     (''get-data'', ''cfun_get_data'', ''(capnp/get-data struct-ptr ptr-index)'' @ nl @ nl @ ''Data at pointer slot.''),
     (''list-len'', ''cfun_list_len'', ''(capnp/list-len list-ptr)''),
     (''list-getp'', ''cfun_list_getp'', ''(capnp/list-getp list-ptr index)''),
     (''list-get-text'', ''cfun_list_get_text'', ''(capnp/list-get-text list-ptr index)'' @ nl @ nl @ ''Element of List(Text).''),
     (''list-get-bool'', ''cfun_list_get_bool'', ''(capnp/list-get-bool list index &opt default)''),
     (''list-get-i8'', ''cfun_list_get_i8'', ''(capnp/list-get-i8 list index &opt default)''),
     (''list-get-u8'', ''cfun_list_get_u8'', ''(capnp/list-get-u8 list index &opt default)''),
     (''list-get-i16'', ''cfun_list_get_i16'', ''(capnp/list-get-i16 list index &opt default)''),
     (''list-get-u16'', ''cfun_list_get_u16'', ''(capnp/list-get-u16 list index &opt default)''),
     (''list-get-i32'', ''cfun_list_get_i32'', ''(capnp/list-get-i32 list index &opt default)''),
     (''list-get-u32'', ''cfun_list_get_u32'', ''(capnp/list-get-u32 list index &opt default)''),
     (''list-get-i64'', ''cfun_list_get_i64'', ''(capnp/list-get-i64 list index &opt default)''),
     (''list-get-u64'', ''cfun_list_get_u64'', ''(capnp/list-get-u64 list index &opt default)''),
     (''list-get-f32'', ''cfun_list_get_f32'', ''(capnp/list-get-f32 list index &opt default)''),
     (''list-get-f64'', ''cfun_list_get_f64'', ''(capnp/list-get-f64 list index &opt default)''),
     (''new-builder'', ''cfun_new_builder'', ''(capnp/new-builder &opt first-segment-words)'' @ nl @ nl @ ''Create a growable message arena.''),
     (''init-root'', ''cfun_init_root'', ''(capnp/init-root builder data-words pointer-words)'' @ nl @ nl @ ''Initialize and return the root struct body.''),
     (''init-struct'', ''cfun_init_struct'', ''(capnp/init-struct body pointer-index data-words pointer-words)'' @ nl @ nl @ ''Initialize and return a nested struct body.''),
     (''init-struct-list'', ''cfun_init_struct_list'', ''(capnp/init-struct-list body pointer-index count data-words pointer-words)'' @ nl @ nl @ ''Initialize a List(Struct) in the same arena.''),
     (''struct-list-at'', ''cfun_struct_list_at'', ''(capnp/struct-list-at list index)'' @ nl @ nl @ ''Mutable struct-list element.''),
     (''finish-builder'', ''cfun_finish_builder'', ''(capnp/finish-builder builder)'' @ nl @ nl @ ''Serialize as a stream-framed buffer.''),
     (''set-u8'', ''cfun_set_u8'', ''(capnp/set-u8 body byte-offset value &opt schema-default)''),
     (''set-i8'', ''cfun_set_i8'', ''(capnp/set-i8 body byte-offset value &opt schema-default)''),
     (''set-u16'', ''cfun_set_u16'', ''(capnp/set-u16 body byte-offset value &opt schema-default)''),
     (''set-i16'', ''cfun_set_i16'', ''(capnp/set-i16 body byte-offset value &opt schema-default)''),
     (''set-u32'', ''cfun_set_u32'', ''(capnp/set-u32 body byte-offset value &opt schema-default)''),
     (''set-i32'', ''cfun_set_i32'', ''(capnp/set-i32 body byte-offset value &opt schema-default)''),
     (''set-u64'', ''cfun_set_u64'', ''(capnp/set-u64 body byte-offset value &opt schema-default)''),
     (''set-i64'', ''cfun_set_i64'', ''(capnp/set-i64 body byte-offset value &opt schema-default)''),
     (''set-f32'', ''cfun_set_f32'', ''(capnp/set-f32 body byte-offset value &opt schema-default)''),
     (''set-f64'', ''cfun_set_f64'', ''(capnp/set-f64 body byte-offset value &opt schema-default)''),
     (''set-bool'', ''cfun_set_bool'', ''(capnp/set-bool body bit-offset value &opt schema-default)''),
     (''set-text'', ''cfun_set_text'', ''(capnp/set-text body pointer-index value)''),
     (''set-data'', ''cfun_set_data'', ''(capnp/set-data body pointer-index value)''),
     (''clear-pointer'', ''cfun_clear_pointer'', ''(capnp/clear-pointer body pointer-index)'' @ nl @ nl @ ''Set a pointer slot to null.''),
     (''set-list-bool'', ''cfun_set_list_bool'', ''(capnp/set-list-bool body pointer-index values)''),
     (''set-list-i8'', ''cfun_set_list_i8'', ''(capnp/set-list-i8 body pointer-index values)''),
     (''set-list-u8'', ''cfun_set_list_u8'', ''(capnp/set-list-u8 body pointer-index values)''),
     (''set-list-i16'', ''cfun_set_list_i16'', ''(capnp/set-list-i16 body pointer-index values)''),
     (''set-list-u16'', ''cfun_set_list_u16'', ''(capnp/set-list-u16 body pointer-index values)''),
     (''set-list-i32'', ''cfun_set_list_i32'', ''(capnp/set-list-i32 body pointer-index values)''),
     (''set-list-u32'', ''cfun_set_list_u32'', ''(capnp/set-list-u32 body pointer-index values)''),
     (''set-list-i64'', ''cfun_set_list_i64'', ''(capnp/set-list-i64 body pointer-index values)''),
     (''set-list-u64'', ''cfun_set_list_u64'', ''(capnp/set-list-u64 body pointer-index values)''),
     (''set-list-f32'', ''cfun_set_list_f32'', ''(capnp/set-list-f32 body pointer-index values)''),
     (''set-list-f64'', ''cfun_set_list_f64'', ''(capnp/set-list-f64 body pointer-index values)''),
     (''set-list-text'', ''cfun_set_list_text'', ''(capnp/set-list-text body pointer-index values)''),
     (''set-list-void'', ''cfun_set_list_void'', ''(capnp/set-list-void body pointer-index count)''),
     (''build-message'', ''cfun_build_message'', ''(capnp/build-message dwords pwords fields)'' @ nl @ nl @ ''Build a framed root struct. fields: array of [:u16|:u32|:u64|:f64|:bool|:text off val].'')]"

text \<open>\<open>capnp_janet_register\<close>: the functions a program can call, with the prefix.\<close>

definition capnp_janet_register :: "(string \<times> string) list" where
  "capnp_janet_register = map (\<lambda>(name, f, _). (''capnp/'' @ name, f)) capnp_cfuns"

text \<open>The entry of the module: bare names, to which \<open>(import capnp)\<close> adds the prefix.\<close>

definition module_entry :: "(string \<times> string) list" where
  "module_entry = map (\<lambda>(name, f, _). (name, f)) capnp_cfuns"

lemma cfun_names: "map fst capnp_cfuns =
  [''message-from-buffer'', ''message-view-buffer'', ''root'', ''kind'', ''getp'', ''get-u8'', ''get-i8'', ''get-u16'',
   ''get-i16'', ''get-u32'', ''get-i32'', ''get-u64'', ''get-i64'', ''get-f32'', ''get-f64'', ''get-bool'',
   ''get-text'', ''get-data'', ''list-len'', ''list-getp'', ''list-get-text'', ''list-get-bool'', ''list-get-i8'', ''list-get-u8'',
   ''list-get-i16'', ''list-get-u16'', ''list-get-i32'', ''list-get-u32'', ''list-get-i64'', ''list-get-u64'', ''list-get-f32'', ''list-get-f64'',
   ''new-builder'', ''init-root'', ''init-struct'', ''init-struct-list'', ''struct-list-at'', ''finish-builder'', ''set-u8'', ''set-i8'',
   ''set-u16'', ''set-i16'', ''set-u32'', ''set-i32'', ''set-u64'', ''set-i64'', ''set-f32'', ''set-f64'',
   ''set-bool'', ''set-text'', ''set-data'', ''clear-pointer'', ''set-list-bool'', ''set-list-i8'', ''set-list-u8'', ''set-list-i16'',
   ''set-list-u16'', ''set-list-i32'', ''set-list-u32'', ''set-list-i64'', ''set-list-u64'', ''set-list-f32'', ''set-list-f64'', ''set-list-text'',
   ''set-list-void'', ''build-message'']"
  by (simp add: capnp_cfuns_def)

lemma cfun_names_distinct: "distinct (map fst capnp_cfuns)"
  unfolding cfun_names by simp

end
