(* ===== verification/GenCalls.thy ===== *)
theory GenCalls
  imports GenClaims ModReg
begin

text \<open>
  The generator and the Janet module together: every function \<open>capnp/..\<close> that the code generated for a
  struct calls is one the module registers.
\<close>

section \<open>Calls in Janet source\<close>

text \<open>The symbols after \<open>(capnp/\<close> in a text, in order.\<close>

fun calls :: "byte list \<Rightarrow> byte list list" where
  "calls [] = []"
| "calls (c # cs) = (if c = 40 \<and> take 6 cs = c_str ''capnp/'' then takeWhile symbol_byte (drop 6 cs) # calls cs else calls cs)"

definition registered :: "byte list set" where
  "registered = set (map (\<lambda>(name, _). c_str name) module_entry)"

text \<open>A piece of text that calls registered functions only, whatever comes after it.\<close>

definition talks :: "byte list \<Rightarrow> bool" where
  "talks xs \<longleftrightarrow> (\<exists>ns. set ns \<subseteq> registered \<and> (\<forall>ys. calls (xs @ ys) = ns @ calls ys))"

lemma talks_calls: "talks xs \<Longrightarrow> set (calls xs) \<subseteq> registered"
  unfolding talks_def by (metis append.right_neutral calls.simps(1))

lemma talks_Nil [simp]: "talks []"
  by (auto simp: talks_def intro: exI [of _ "[]"])

lemma talks_Cons: "c \<noteq> 40 \<Longrightarrow> talks xs \<Longrightarrow> talks (c # xs)"
  by (auto simp: talks_def)

lemma talks_append: "talks xs \<Longrightarrow> talks ys \<Longrightarrow> talks (xs @ ys)"
  unfolding talks_def
proof (elim exE conjE)
  fix ns ms
  assume "set ns \<subseteq> registered" "\<forall>zs. calls (xs @ zs) = ns @ calls zs" "set ms \<subseteq> registered" "\<forall>zs. calls (ys @ zs) = ms @ calls zs"
  then show "\<exists>ns. set ns \<subseteq> registered \<and> (\<forall>zs. calls ((xs @ ys) @ zs) = ns @ calls zs)"
    by (intro exI [of _ "ns @ ms"]) simp
qed

lemma talks_concat: "list_all talks parts \<Longrightarrow> talks (concat parts)"
  by (induction parts) (auto intro: talks_append)

text \<open>Text without a call: each parenthesis is followed by something else than \<open>c\<close>.\<close>

fun tame :: "byte list \<Rightarrow> bool" where
  "tame [] = True"
| "tame [c] = (c \<noteq> 40)"
| "tame (c # d # cs) = ((c = 40 \<longrightarrow> d \<noteq> 99) \<and> tame (d # cs))"

lemma tame_calls: "tame xs \<Longrightarrow> calls (xs @ ys) = calls ys"
  by (induction xs rule: tame.induct) (auto simp: c_str_def)

lemma talks_tame: "tame xs \<Longrightarrow> talks xs"
  by (auto simp: talks_def tame_calls intro: exI [of _ "[]"])

lemma tame_plain: "40 \<notin> set xs \<Longrightarrow> tame xs"
  by (induction xs rule: tame.induct) auto

lemmas talks_plain = talks_tame [OF tame_plain]

text \<open>A call: the opening, the name of a registered function, a byte that ends it.\<close>

lemma symbol_facts: "symbol_byte c \<Longrightarrow> c \<noteq> 40" "\<not> symbol_byte 32" "\<not> symbol_byte 40"
  by (auto simp: symbol_byte_def isalnum_def isupper_def)

definition exported :: "string \<Rightarrow> bool" where
  "exported name \<longleftrightarrow> name \<in> set (map fst capnp_cfuns)"

lemmas exported_names = exported_def [unfolded cfun_names]

lemma exported_name:
  assumes "exported name"
  shows "c_str name \<in> registered" "list_all symbol_byte (c_str name)"
proof -
  have "list_all (\<lambda>n. list_all symbol_byte (c_str n)) (map fst capnp_cfuns)"
    unfolding cfun_names by (simp add: c_str_def symbol_byte_def isalnum_def isupper_def)
  then show "list_all symbol_byte (c_str name)" using assms unfolding list_all_iff exported_def by blast
  show "c_str name \<in> registered" using assms by (force simp: exported_def registered_def module_entry_def)
qed

lemma talks_call:
  assumes "exported name" "tame (32 # rest)"
  shows "talks (c_str ''(capnp/'' @ c_str name @ 32 # rest)"
proof -
  note name = exported_name [OF assms(1)]
  have n: "40 \<notin> set (c_str name)" using name(2) symbol_facts(1) by (auto simp: list_all_iff)
  have "calls (c_str ''(capnp/'' @ c_str name @ 32 # rest @ ys) = c_str name # calls ys" for ys
  proof -
    have "takeWhile symbol_byte (c_str name @ 32 # rest @ ys) = c_str name"
      using name(2) symbol_facts(2) by (simp add: takeWhile_append list_all_iff)
    moreover have "tame (c_str ''capnp/'')" by (simp add: c_str_def)
    moreover note tame_calls [of "c_str ''capnp/''" "c_str name @ 32 # rest @ ys"]
      tame_calls [OF tame_plain [OF n], of "32 # rest @ ys"] tame_calls [OF assms(2), of ys]
    ultimately show ?thesis by (simp add: c_str_def)
  qed
  then show ?thesis using name(1) unfolding talks_def by (intro exI [of _ "[c_str name]"]) simp
qed

text \<open>The same as the parts of a line: the name as an argument of the format, or inside the format.\<close>

lemma c_str_append: "c_str (s @ t) = c_str s @ c_str t" "c_str (CHR '' '' # s) = 32 # c_str s"
  by (simp_all add: c_str_def)

lemma talks_format:
  assumes "exported name" "tame (c_str pre)" "tame (32 # c_str rest)"
  shows "talks (c_str (pre @ ''(capnp/'' @ name @ CHR '' '' # rest))"
  using talks_append [OF talks_tame [OF assms(2)] talks_call [OF assms(1,3)]] by (simp only: c_str_append append_assoc)

lemma talks_args:
  assumes "exported name" "tame (32 # c_str rest)" "list_all talks parts"
  shows "talks (concat (c_str ''(capnp/'' # c_str name # c_str (CHR '' '' # rest) # parts))"
  using talks_append [OF talks_call [OF assms(1,2)] talks_concat [OF assms(3)]] by (simp add: c_str_append)

section \<open>Numbers, literals and names\<close>

abbreviation plain :: "byte list \<Rightarrow> bool" where "plain xs \<equiv> 40 \<notin> set xs"

lemma plain_dec [simp]: "plain (dec n)" "plain (sdec i)"
proof -
  show d: "plain (dec n)" for n using dec_digits [of n] by (auto simp: list_all_iff)
  show "plain (sdec i)" using d by (simp add: sdec_def)
qed

lemma plain_drop_zeros: "plain xs \<Longrightarrow> plain (drop_zeros xs)"
  by (induction xs rule: drop_zeros.induct) auto

lemma plain_strip: "plain xs \<Longrightarrow> plain (strip_zeros xs)"
  using plain_drop_zeros [of "rev xs"] by (simp add: strip_zeros_def)

lemma plain_point: "plain xs \<Longrightarrow> plain ys \<Longrightarrow> plain (with_point xs ys)"
  using plain_strip by (simp add: with_point_def)

lemma plain_take_drop: "plain xs \<Longrightarrow> plain (take n xs)" "plain xs \<Longrightarrow> plain (drop n xs)"
  by (auto dest: in_set_takeD in_set_dropD)

lemma plain_float [simp]: "plain (fmt_float p eb mb bits)"
proof -
  have e: "plain (exp_suffix e)" for e by (simp add: exp_suffix_def Let_def)
  have "plain (fmt_g p n d)" for n d
    using e by (auto simp: fmt_g_def Let_def split: prod.splits
        dest: plain_point [THEN notE, rotated 2] in_set_takeD in_set_dropD intro!: plain_point plain_take_drop)
  then show ?thesis by (simp add: fmt_float_def Let_def c_str_def)
qed

lemma tame_open: "plain xs \<Longrightarrow> tame (40 # 105 # xs)"
  using tame_plain [of "105 # xs"] by simp

lemma talks_ctor:
  assumes "plain (c_str ctor)" "plain n"
  shows "talks (snprintf 96 (int_ctor (CHR ''('' # CHR ''i'' # ctor) n))"
proof -
  have "int_ctor (CHR ''('' # CHR ''i'' # ctor) n = 40 # 105 # c_str ctor @ [32, 34] @ n @ [34, 41]"
    by (simp add: int_ctor_def c_str_def)
  then have "snprintf 96 (int_ctor (CHR ''('' # CHR ''i'' # ctor) n) = 40 # 105 # take 93 (c_str ctor @ [32, 34] @ n @ [34, 41])"
    by (simp add: snprintf_def)
  moreover have "plain (take 93 (c_str ctor @ [32, 34] @ n @ [34, 41]))"
    using assms by (auto dest!: in_set_takeD)
  ultimately show ?thesis using talks_tame [OF tame_open] by metis
qed

lemma talks_short: "plain n \<Longrightarrow> talks (snprintf k n)"
  by (rule talks_plain) (auto simp: snprintf_def dest: in_set_takeD)

lemma plain_words [simp]: "plain (c_str ''nt/s64'')" "plain (c_str ''nt/u64'')" "plain (c_str ''true'')" "plain (c_str ''false'')"
  "plain (c_str ''-0.0'')" "plain (c_str ''0'')"
  by (simp_all add: c_str_def)

lemma talks_literal:
  assumes "value_literal m v type = Some lit"
  shows "talks (snprintf 96 lit)"
proof -
  have "plain lit \<or> (\<exists>i. lit = int_ctor ''(int/s64'' (sdec i)) \<or> (\<exists>n. lit = int_ctor ''(int/u64'' (dec n))"
    using assms unfolding value_literal_def by (auto split: if_splits)
  then show ?thesis by (auto intro: talks_short talks_ctor)
qed

lemma talks_default: "scalar_default_literal m f type 96 = Some (m', lit) \<Longrightarrow> talks lit"
  using talks_short [of "c_str ''0''"] by (auto simp: scalar_default_literal_def dest: talks_literal split: bind_splits if_splits)

lemma janet_name_plain: "janet_name n (Some out) \<Longrightarrow> plain out"
  using symbol_facts(1) by (auto simp: janet_name_def list_all_iff)

lemma names_plain: "field_name m f = Some (m', fname) \<Longrightarrow> plain fname" "type_short_name t 256 = Some sname \<Longrightarrow> plain sname"
  "janet_ident t 128 = Some en \<Longrightarrow> plain en"
proof -
  have janet_field: "janet_name 128 (Some out)" if "janet_field_ident inp 128 = Some out" for inp out
    using janet_field_name(1) [of 128 inp] that by simp
  have janet_id: "janet_name 256 (Some out)" if "janet_ident inp 256 = Some out" for inp out
    using janet_ident_name [of 256 inp] that by simp
  show "plain fname" if "field_name m f = Some (m', fname)"
    using that by (auto simp: field_name_def split: bind_splits dest!: janet_field janet_name_plain)
  show "plain en" if "janet_ident t 128 = Some en" using janet_ident_name [of 128 t] that janet_name_plain [of 128 en] by simp
  show "plain sname" if "type_short_name t 256 = Some sname"
    using that by (auto simp: type_short_name_def Let_def dest!: janet_id janet_name_plain)
qed

section \<open>The texts of the generator\<close>

lemma talks_bytes [simp]: "talks [10]" "talks [32]" "talks [45]" "plain (dec n) \<Longrightarrow> talks (dec n)"
  by (simp_all add: talks_plain)

lemma talks_words [simp]:
  "talks (c_str ''(def '')" "talks (c_str ''-tag '')" "talks (c_str '')'')" "talks (c_str ''    :'')" 
  "talks (c_str '' @'')" "talks (c_str ''{:type :group}'')" "talks (c_str ''{:offset '')" 
  "talks (c_str '' :type :'')" "talks (c_str ''}'')" "talks (c_str ''-discriminant-byte '')" 
  "talks (c_str ''-tag)'')" "talks (c_str ''(defn '')" "talks (c_str ''  '')" "talks (c_str '' ptr '')" 
  "talks (c_str '' value '')" "talks (c_str ''))'')" "talks (c_str '' count '')" "talks (c_str '' count))'')" 
  "talks (c_str '' values))'')" "talks (c_str ''ptr)'')" "talks (c_str ''-init-'')" "talks (c_str '' [ptr]'')" 
  "talks (c_str ''  ptr)'')" "talks (c_str ''-get-'')" "talks (c_str ''-at [list index]'')" 
  "talks (c_str '' list index))'')" "talks (c_str ''# struct '')" "talks (c_str ''-data-words '')" 
  "talks (c_str ''-pointer-words '')" "talks (c_str ''-which [ptr]'')" "talks (c_str ''-init-root [builder]'')" 
  "talks (c_str ''-pointer-words))'')" "talks (c_str ''-fields'')" "talks (c_str ''  @'')" "talks (c_str ''{'')" 
  "talks (c_str ''})'')" "talks (c_str ''-set-'')" "talks (c_str '' [ptr count]'')" "talks (c_str '' [ptr value]'')" 
  "talks (c_str '' [ptr values]'')" "talks (c_str '' value))'')" 
  by (intro talks_tame; simp add: c_str_def)+

lemma talks_heads [simp]:
  "talks (c_str ''  (capnp/set-u16 ptr '')" "talks (c_str ''(capnp/init-struct-list ptr '')" 
  "talks (c_str ''(capnp/set-list-void ptr '')" "talks (c_str ''(capnp/set-text ptr '')" 
  "talks (c_str ''(capnp/set-data ptr '')" "talks (c_str ''(capnp/init-struct ptr '')" 
  "talks (c_str ''(capnp/getp ptr '')" "talks (c_str ''(capnp/get-text ptr '')" 
  "talks (c_str ''(capnp/get-data ptr '')" "talks (c_str ''  (capnp/get-u16 ptr '')" 
  "talks (c_str ''  (capnp/init-root builder '')" "talks (c_str ''  (capnp/clear-pointer ptr '')" 
proof -
  have ex: "exported name" if "name \<in> {''set-u16'', ''init-struct-list'', ''set-list-void'', ''set-text'', ''set-data'', ''init-struct'', ''getp'',
      ''get-text'', ''get-data'', ''get-u16'', ''init-root'', ''clear-pointer''}" for name
    using that by (auto simp: exported_names)
  note call = talks_call [OF ex]
  show "talks (c_str ''  (capnp/set-u16 ptr '')"
    using talks_append [OF talks_words(13) call [of "''set-u16''" "c_str ''ptr ''"]] by (simp add: c_str_def)
  show "talks (c_str ''(capnp/init-struct-list ptr '')"
    using call [of "''init-struct-list''" "c_str ''ptr ''"] by (simp add: c_str_def)
  show "talks (c_str ''(capnp/set-list-void ptr '')"
    using call [of "''set-list-void''" "c_str ''ptr ''"] by (simp add: c_str_def)
  show "talks (c_str ''(capnp/set-text ptr '')"
    using call [of "''set-text''" "c_str ''ptr ''"] by (simp add: c_str_def)
  show "talks (c_str ''(capnp/set-data ptr '')"
    using call [of "''set-data''" "c_str ''ptr ''"] by (simp add: c_str_def)
  show "talks (c_str ''(capnp/init-struct ptr '')"
    using call [of "''init-struct''" "c_str ''ptr ''"] by (simp add: c_str_def)
  show "talks (c_str ''(capnp/getp ptr '')"
    using call [of "''getp''" "c_str ''ptr ''"] by (simp add: c_str_def)
  show "talks (c_str ''(capnp/get-text ptr '')"
    using call [of "''get-text''" "c_str ''ptr ''"] by (simp add: c_str_def)
  show "talks (c_str ''(capnp/get-data ptr '')"
    using call [of "''get-data''" "c_str ''ptr ''"] by (simp add: c_str_def)
  show "talks (c_str ''  (capnp/get-u16 ptr '')"
    using talks_append [OF talks_words(13) call [of "''get-u16''" "c_str ''ptr ''"]] by (simp add: c_str_def)
  show "talks (c_str ''  (capnp/init-root builder '')"
    using talks_append [OF talks_words(13) call [of "''init-root''" "c_str ''builder ''"]] by (simp add: c_str_def)
  show "talks (c_str ''  (capnp/clear-pointer ptr '')"
    using talks_append [OF talks_words(13) call [of "''clear-pointer''" "c_str ''ptr ''"]] by (simp add: c_str_def)
qed

lemma talks_ln: "list_all talks parts \<Longrightarrow> talks (ln parts)"
  by (simp add: ln_def talks_append talks_concat)

lemma talks_parts: "talks xs \<Longrightarrow> list_all talks parts \<Longrightarrow> list_all talks (xs # parts)" "list_all talks []"
  by simp_all

section \<open>Printing steps\<close>

lemma talks_set_line:
  assumes "exported acc" "plain (c_str val)"
  shows "talks (set_line acc offset val)"
proof -
  have "tame (32 # c_str ''ptr '')" by (simp add: c_str_def)
  note call = talks_call [OF assms(1) this]
  have rest: "talks (dec (unat offset) @ [32] @ c_str val @ c_str '')'' @ [10])"
    using assms(2) by (intro talks_append) (simp_all add: talks_plain)
  show ?thesis
    using talks_append [OF talks_words(13) talks_append [OF call rest]] by (simp add: set_line_def ln_def c_str_def)
qed

lemma setters_exported: "setter_name tw = Some setter \<Longrightarrow> exported setter"
  "list_accessor_suffix tw = Some suf \<Longrightarrow> exported (''set-list-'' @ suf)"
  "list_accessor_suffix tw = Some suf \<Longrightarrow> tw \<noteq> TYPE_VOID \<Longrightarrow> exported (''list-get-'' @ suf)"
  by (auto simp: exported_names setter_name_def list_accessor_suffix_def split: if_splits)

lemma talks_clear_line: "talks (clear_line tw offset)"
proof -
  have "exported name" if "name \<in> {''set-bool'', ''set-i8'', ''set-u8'', ''set-i16'', ''set-u16'', ''set-i32'', ''set-u32'', ''set-i64'',
    ''set-u64'', ''set-f32'', ''set-f64''}" for name
    using that by (auto simp: exported_names)
  moreover have "plain (c_str ''0'')" "plain (c_str ''false'')" by (simp_all add: c_str_def)
  ultimately show ?thesis by (simp add: clear_line_def talks_set_line talks_ln)
qed

lemma talks_union: "plain sname \<Longrightarrow> plain fname \<Longrightarrow> talks (emit_union_select sname fname b)"
  by (simp add: emit_union_select_def talks_ln talks_plain)

lemma talks_defn:
  assumes "plain sname" "plain fname" "talks (c_str verb)" "talks (c_str args)" "list_all talks body \<or> talks (concat body)"
  shows "talks (defn sname verb fname args b body)"
  using assms talks_union [of sname fname b] talks_concat [of body]
  by (auto simp: defn_def ln_def intro!: talks_append talks_Cons talks_plain [of sname] talks_plain [of fname])

lemma talks_getter: "plain sname \<Longrightarrow> plain fname \<Longrightarrow> list_all talks body \<or> talks (concat body) \<Longrightarrow> talks (getter sname fname body)"
  using talks_concat [of body]
  by (auto simp: getter_def ln_def intro!: talks_append talks_Cons talks_plain [of sname] talks_plain [of fname])

lemma tame_ptr: "tame (32 # c_str ''ptr '')" "tame (32 # c_str ''list index))'')"
  by (simp_all add: c_str_def)

lemma talks_scalar_setter:
  assumes "scalar_setter sname fname b tw offset dflt = Some t" "plain sname" "plain fname" "talks dflt"
  shows "talks t"
proof -
  obtain setter where setter: "setter_name tw = Some setter" using assms(1) by (auto simp: scalar_setter_def)
  show ?thesis
    using assms talks_args [OF setters_exported(1) [OF setter] tame_ptr(1)]
    by (auto simp: scalar_setter_def setter Let_def intro!: talks_defn disjI2 simp del: concat.simps)
qed

lemma talks_scalar_call: "exported acc \<Longrightarrow> talks dflt \<Longrightarrow> talks (concat (scalar_call acc offset dflt))"
  unfolding scalar_call_def by (rule talks_args) (simp_all add: tame_ptr)

lemma talks_scalar_getter:
  assumes "scalar_getter sname fname tw offset dflt = Some t" "plain sname" "plain fname" "talks dflt"
  shows "talks t"
proof -
  have "exported name" if "name \<in> {''get-bool'', ''get-i8'', ''get-u8'', ''get-i16'', ''get-u16'', ''get-i32'', ''get-u32'', ''get-i64'',
    ''get-u64'', ''get-f32'', ''get-f64''}" for name
    using that by (auto simp: exported_names)
  note call = talks_scalar_call [OF this assms(4)]
  let ?body = "if tw = TYPE_BOOL then Some (scalar_call ''get-bool'' offset dflt)
       else if tw = TYPE_INT8 then Some (scalar_call ''get-i8'' offset dflt)
       else if tw = TYPE_UINT8 then Some (scalar_call ''get-u8'' offset dflt)
       else if tw = TYPE_INT16 then Some (scalar_call ''get-i16'' (offset * 2) dflt)
       else if tw = TYPE_UINT16 \<or> tw = TYPE_ENUM then Some (scalar_call ''get-u16'' (offset * 2) dflt)
       else if tw = TYPE_INT32 then Some (scalar_call ''get-i32'' (offset * 4) dflt)
       else if tw = TYPE_UINT32 then Some (scalar_call ''get-u32'' (offset * 4) dflt)
       else if tw = TYPE_INT64 then Some (scalar_call ''get-i64'' (offset * 8) dflt)
       else if tw = TYPE_UINT64 then Some (scalar_call ''get-u64'' (offset * 8) dflt)
       else if tw = TYPE_FLOAT32 then Some (scalar_call ''get-f32'' (offset * 4) dflt)
       else if tw = TYPE_FLOAT64 then Some (scalar_call ''get-f64'' (offset * 8) dflt)
       else None"
  have "pred_option (\<lambda>body. talks (concat body)) ?body" by (simp add: call)
  moreover obtain body where "?body = Some body" "t = getter sname fname body"
    using assms(1) unfolding scalar_getter_def by (auto simp only: map_option_eq_Some)
  ultimately have "talks (concat body)" by (simp only: option.pred_inject)
  then have "talks (getter sname fname body)" by (intro talks_getter [OF assms(2,3) disjI2])
  then show ?thesis using \<open>t = getter sname fname body\<close> by simp
qed

text \<open>What a step prints calls registered functions only.\<close>

definition says :: "(byte list \<times> message) option \<Rightarrow> bool" where
  "says R \<longleftrightarrow> (\<forall>t m. R = Some (t, m) \<longrightarrow> talks t)"

lemma says_simps [simp]: "says None" "says (Some (t, m)) = talks t"
  by (simp_all add: says_def)

lemma says_bind: "(\<And>v. V = Some v \<Longrightarrow> says (G v)) \<Longrightarrow> says (V \<bind> G)"
  by (cases V) simp_all

lemma says_binds: "says (V \<bind> G) \<longleftrightarrow> (\<forall>v. V = Some v \<longrightarrow> says (G v))"
  by (cases V) simp_all

lemma says_then: "says R \<Longrightarrow> (\<And>t m. talks t \<Longrightarrow> says (G (t, m))) \<Longrightarrow> says (R \<bind> G)"
  by (cases R) (auto simp: says_def [of R] dest: meta_spec)

lemma says_emit_each: "(\<And>m i. says (f m i)) \<Longrightarrow> says (emit_each f m is)"
  by (induction "is" arbitrary: m) (auto intro!: says_then [of "f _ _"] says_then [of "emit_each f _ _"] talks_append)

lemma says_each_item: "(\<And>m x. says (f m x)) \<Longrightarrow> says (each_item f l m i)"
  by (auto simp: each_item_def intro!: says_bind)

lemmas says_each = says_emit_each [OF says_each_item]

lemma says_clear_group: "says (clear_group no_group n nodes m gid)"
proof (induction n arbitrary: m gid)
  case (Suc n)
  have "says (clear_field (clear_group no_group n nodes) m f)" for m f
    using Suc by (auto simp: clear_field_def talks_clear_line intro!: says_bind split: option.splits)
  then show ?case by (auto simp: clear_step_def clear_fields_def intro!: says_bind says_each split: option.splits)
qed simp

lemma says_list_setter:
  assumes "plain sname" "plain fname"
  shows "says (list_setter nodes m typ sname fname b offset)"
proof -
  have list: "talks (concat [c_str ''(capnp/set-list-'', c_str suf, c_str '' ptr '', dec n, c_str '' values))''])"
    if "list_accessor_suffix tw = Some suf" for tw suf n
    using talks_args [OF setters_exported(2) [OF that] tame_ptr(1), of "[dec n, c_str '' values))'']"] talks_words
    by (simp add: c_str_def)
  show ?thesis
    unfolding list_setter_def
    by (auto intro!: says_bind talks_defn [OF assms] split: option.split simp del: concat.simps simp: list)
qed

lemma says_slot_setter:
  assumes "plain sname" "plain fname" "talks dflt"
  shows "says (slot_setter nodes m typ sname fname b tw offset dflt)"
proof (cases "scalar_setter sname fname b tw offset dflt")
  case None
  then show ?thesis
    by (simp add: slot_setter_def talks_defn [OF assms(1,2)] says_list_setter [OF assms(1,2)] says_binds split: prod.split)
qed (simp add: slot_setter_def talks_scalar_setter [OF _ assms])

lemma says_group_clear: "says (emit_group_clear m nodes gid)"
  unfolding emit_group_clear_def by (rule says_clear_group)

lemma says_emit_setter: "plain sname \<Longrightarrow> says (emit_setter nodes sname n m f)"
  unfolding emit_setter_def Let_def
  by (auto intro!: says_bind says_slot_setter says_then [OF says_group_clear] talks_append talks_ln talks_union
      dest!: names_plain talks_default simp: talks_plain split: option.split)

lemma says_list_getter:
  assumes "plain sname" "plain fname"
  shows "says (list_getter m typ sname fname offset)"
proof -
  have call: "talks (ln [c_str ''  (capnp/list-get-'', c_str suf, c_str '' list index))''])"
    if "list_accessor_suffix tw = Some suf" "tw \<noteq> TYPE_VOID" for tw suf
    using talks_append [OF talks_append [OF talks_words(13) talks_call [OF setters_exported(3) [OF that] tame_ptr(2)]] talks_bytes(1)]
    by (simp add: ln_def c_str_def)
  show ?thesis
    unfolding list_getter_def
    by (auto intro!: says_bind talks_append talks_getter [OF assms] simp: call talks_ln talks_plain assms split: option.split)
qed

lemma says_slot_getter:
  assumes "plain sname" "plain fname" "talks dflt"
  shows "says (slot_getter m typ sname fname tw offset dflt)"
proof (cases "scalar_getter sname fname tw offset dflt")
  case None
  then show ?thesis by (simp add: slot_getter_def talks_getter [OF assms(1,2)] says_list_getter [OF assms(1,2)])
qed (simp add: slot_getter_def talks_scalar_getter [OF _ assms])

lemma says_emit_getter: "plain sname \<Longrightarrow> says (emit_getter nodes sname m f)"
  unfolding emit_getter_def Let_def
  by (auto intro!: says_bind says_slot_getter talks_append dest!: names_plain talks_default simp: talks_ln talks_plain split: option.split)

lemma says_emit_tag: "plain sname \<Longrightarrow> says (emit_tag sname m f)"
  unfolding emit_tag_def by (auto intro!: says_bind dest!: names_plain simp: talks_ln talks_plain)

lemma says_emit_entry: "says (emit_entry m f)"
proof -
  have "plain (c_str (type_kw tw))" for tw by (simp add: type_kw_def c_str_def)
  then show ?thesis
    unfolding emit_entry_def Let_def
    by (auto intro!: says_bind talks_append talks_Cons dest!: names_plain(1) simp: talks_plain split: option.split)
qed

lemma says_if: "(c \<Longrightarrow> says R) \<Longrightarrow> (\<not> c \<Longrightarrow> says S) \<Longrightarrow> says (if c then R else S)"
  and says_prod: "(\<And>a b. v = (a, b) \<Longrightarrow> says (F a b)) \<Longrightarrow> says (case v of (a, b) \<Rightarrow> F a b)"
  and says_printed: "(\<And>t m. talks t \<Longrightarrow> says (G t m)) \<Longrightarrow> talks u \<Longrightarrow> says (case (u, n) of (t, m) \<Rightarrow> G t m)"
  by (simp_all split: prod.split)

lemma says_emit_struct: "says (emit_struct m node nodes)"
proof -
  note step = says_printed says_then [OF says_each] says_then says_bind says_if says_prod
  show ?thesis
    unfolding emit_struct_def Let_def
    by (rule says_emit_entry says_each | rule says_emit_tag says_emit_setter says_emit_getter, erule names_plain | rule step
      | (auto dest!: names_plain(2) simp: talks_ln talks_plain intro!: talks_append talks_Cons; fail))+
qed

section \<open>Every generated call is registered\<close>

text \<open>A struct with a union and no fields.\<close>

definition union_message :: message where
  "union_message = capnp_message_init\<lparr>msegs :=
     [\<lparr>seg_data = Some [0, 0, 0, 0, 0, 0, 0, 0, 0, 0, 0, 0, 1, 0, 1, 0, 0, 0, 0, 0, 0, 0, 0, 0, 0, 0, 0, 0, 0, 0, 1, 0,
        0, 0, 0, 0, 0, 0, 0, 0, 0, 0, 0, 0, 0, 0, 0, 0, 0, 0, 0, 0, 0, 0, 0, 0, 0, 0, 0, 0, 0, 0, 0, 0, 1, 0, 0, 0, 0, 0, 0, 0],
        seg_words = 9\<rparr>], nsegs := 1\<rparr>"

lemma union_struct_calls:
  defines "node \<equiv> ptr0\<lparr>p_kind := PK_STRUCT, p_dwords := 5, p_pwords := 4\<rparr>"
  shows "map_option (calls \<circ> fst) (emit_struct union_message node ptr0) = Some [c_str ''get-u16'', c_str ''init-root'']"
proof -
  define M where "M n = union_message\<lparr>traversal_left := n\<rparr>" for n
  note read = data_has_bytes_def data_bytes_def data_bit_count_def capnp_get_u16_def capnp_get_u32_def capnp_get_bool_def
    capnp_load_le16_def capnp_load_le32_def node_def M_def union_message_def capnp_message_init_def ptr0_def run
  have m: "union_message = M 8388608"
    by (simp add: M_def union_message_def capnp_message_init_def DEFAULT_TRAVERSAL_WORDS_def)
  have u16: "capnp_get_u16 (M n) node 12 d = Some NODE_STRUCT" "capnp_get_u16 (M n) node 14 d = Some 1"
    "capnp_get_u16 (M n) node 24 d = Some 0" "capnp_get_u16 (M n) node 30 d = Some 1" for n d
    by (simp_all add: read NODE_STRUCT_def)
  have rest: "capnp_get_u32 (M n) node 32 0 = Some 0" "capnp_get_bool (M n) node 224 0 = Some 0" for n
    by (simp_all add: read)
  have fields: "capnp_getp (M 8388607) node 3 ptr0 = Some (CAPNP_OK, M 8388606, ptr0\<lparr>p_kind := PK_LIST, p_word := 9\<rparr>)"
    by (simp add: capnp_getp_def read DEFAULT_DEPTH_LIMIT_def)
  have name: "get_text (M 8388608) node 0 = Some (M 8388607, [])"
    by (simp add: get_text_def capnp_get_text_def capnp_getp_def read DEFAULT_DEPTH_LIMIT_def)
  have short: "type_short_name [] 256 = Some (c_str ''anon'')"
    by (simp add: type_short_name_def janet_ident_def end_ident_def snprintf_def c_str_def)
  have none: "capnp_list_len (ptr0\<lparr>p_kind := PK_LIST, p_word := 9\<rparr>) = 0" by (simp add: capnp_list_len_def ptr0_def)
  have one: "dec (Suc 0) = [49]" "dec 0 = [48]" by (simp_all add: dec_def digit_def digits.simps [of 10])
  have fsym: "symbol_byte 103" "symbol_byte 101" "symbol_byte 116" "symbol_byte 45" "symbol_byte 117" "symbol_byte 49" "symbol_byte 54"
    "symbol_byte 105" "symbol_byte 110" "symbol_byte 114" "symbol_byte 111" "\<not> symbol_byte 32"
    by (simp_all add: symbol_byte_def isalnum_def isupper_def)
  show ?thesis
    unfolding m
    by (simp add: emit_struct_def Let_def u16 rest fields name short none ln_def one)
      (simp add: c_str_def fsym)
qed
text \<open>C35 Every \<open>capnp/..\<close> function that the code generated for a struct calls is one the module registers: whatever
  the schema says (names, types, defaults, nested groups), each name after \<open>(capnp/\<close> in the output of
  \<open>emit_struct\<close> is in the table the module hands to the machine, so a generated module does not call a
  function that does not exist, and no name or default of a schema can smuggle another call into the code.\<close>

theorem generated_calls_registered: "emit_struct m node nodes = Some (t, m') \<Longrightarrow> set (calls t) \<subseteq> registered"
  using says_emit_struct [of m node nodes] talks_calls by (simp add: says_def)

theorem generated_calls_registered_witness:
  "\<exists>t m'. emit_struct union_message (ptr0\<lparr>p_kind := PK_STRUCT, p_dwords := 5, p_pwords := 4\<rparr>) ptr0 = Some (t, m') \<and>
     calls t = [c_str ''get-u16'', c_str ''init-root''] \<and> {c_str ''get-u16'', c_str ''init-root''} \<subseteq> registered"
proof -
  obtain t m' where t: "emit_struct union_message (ptr0\<lparr>p_kind := PK_STRUCT, p_dwords := 5, p_pwords := 4\<rparr>) ptr0 = Some (t, m')"
    "calls t = [c_str ''get-u16'', c_str ''init-root'']"
    using union_struct_calls by auto
  then show ?thesis using generated_calls_registered [OF t(1)] by auto
qed

end
