(* ===== verification/Spec2Isabelle.thy ===== *)
theory Spec2Isabelle
  imports Packed Framing Limits CanonClaims RpcThree RpcStream GenClaims ModClaims ClientClaims ModKeep GenCalls
begin

text \<open>
  Verification library for capnp-janet, a C implementation of the Cap'n Proto serialization and RPC
  protocols with bindings for Janet. Paths are relative to \<open>src/\<close>.

  \<^bold>\<open>The program.\<close> A message is a list of segments of 64-bit words; objects are reached by pointer
  words. \<open>src/capnp_message.c\<close> parses untrusted messages and reads them in place,
  \<open>src/capnp_packed.c\<close> compresses a stream of words, \<open>src/capnp_builder.c\<close> writes messages into an
  arena of segments, \<open>src/capnp_canonical.c\<close> copies objects and computes the canonical form.
  \<open>src/capnp_rpc.c\<close> is a vat on top of them: it parses the frames of a peer with the reader, keeps
  its tables, calls the application, and answers with frames of the builder. \<open>app/capnpc_janet.c\<close>
  reads a schema with the reader and prints a Janet module. \<open>src/janet_mod.c\<close> gives Janet programs the
  reader and the builder as functions on handles it checks. \<open>interop/rpc_client.c\<close> is a client program:
  a vat whose frames travel over a socket.

  \<^bold>\<open>Conventions.\<close> An access outside an object, a signed overflow or a call of \<open>NULL\<close> is the value
  \<open>None\<close>; a return code is \<open>rc\<close> (\<open>CAPNP_OK\<close>, ..). So \<open>f x = Some (r, ..)\<close> says that the C call is
  free of undefined behaviour, returns, and returns \<open>r\<close>. Words are \<open>u8\<close> to \<open>u64\<close>; sizes are \<open>nat\<close>
  with the wrap-around of \<open>size_t\<close> written out (\<open>sz\<close>). Floating point values are their bits. The
  memory allocator is a parameter \<open>allocator\<close>: which requests succeed and what fresh memory
  holds. The callbacks of the RPC layer (\<open>dispatch\<close>, \<open>send\<close>, \<open>fill\<close>) belong to the application and
  are parameters: functions of the message and the builder they are given. \<open>can_open\<close> says which files the generator can open for writing. The Janet
  virtual machine is a parameter \<open>api\<close> with what it documents as \<open>api_ok\<close>, the sockets of the client are a
  parameter \<open>os\<close> with \<open>os_ok\<close>.

  \<^bold>\<open>Messages that may be followed.\<close> The reader accepts two forms of pointers whose object is not in the
  message (\<open>Limits\<close>). Everything that follows pointers blindly is therefore stated for messages in
  which the pointers it can reach name objects inside their segments: \<open>placed m\<close> (from the root) and
  \<open>tracked m p\<close> (from a pointer), a coinductive condition on pointer words only. Data, text and words
  that no pointer leads to are arbitrary.

  \<^bold>\<open>Theories.\<close>
  \<^item> \<open>Prelude\<close>: machine types, return codes, checked byte memory, the allocator, the interface
    \<open>le_codec\<close>. \<open>Pointer\<close>: \<open>include/capnp-janet/capnp_pointer.h\<close>, loads and stores (three
    interpretations of \<open>le_codec\<close>) and the fields of pointer words.
  \<^item> Reader. \<open>Message\<close>: \<open>parse_flat\<close>, \<open>charge\<close>, \<open>resolve_word\<close> and \<open>resolve_ptr\<close>. The depth limit is the
    termination measure of \<open>resolve_word\<close>. \<open>Reader\<close>: the public accessors and
    \<open>capnp_message_copy_flat\<close>. \<open>Views\<close>: resolution is memory safe, what it returns is inside its
    segment and paid for, so all accessors are memory safe. \<open>Framing\<close>: the stream format \<open>frame\<close> and
    its round trips. \<open>Limits\<close>: cyclic far pointers end at the depth limit; two pointer forms whose
    target is not checked. \<open>Covered\<close>: \<open>placed\<close> and \<open>tracked\<close>, kept by every read. \<open>Budget\<close>: reads never
    raise the traversal budget, and what they return does not depend on it.
  \<^item> \<open>Packed\<close>: \<open>capnp_pack\<close> and \<open>capnp_unpack\<close> with their growing buffers, their specifications as
    functions of the input, and the round trip.
  \<^item> Builder. \<open>Arena\<close> and \<open>Builder\<close>: the code. \<open>ArenaSpec\<close>: the abstract state \<open>segs_of\<close>, the
    invariant \<open>builder_inv\<close> and the interface \<open>arena\<close>, interpreted on the three allocators.
    \<open>Linking\<close>: pointer writers against the resolver (near, far, double-far). \<open>BuilderSpec\<close>,
    \<open>BuilderProps\<close>, \<open>BuilderClaims\<close>: every setter is safe and changes only its slot, and what is set is
    what the readers return.
  \<^item> Deep copy. \<open>Canonical\<close>: the code. \<open>CanonSpec\<close>: the relation \<open>copied\<close> between an object and its
    canonical words; the sizes of sections (\<open>struct_size\<close>, \<open>elem_size\<close>) are defined by what the readers
    return, not by the trimming functions of the code. \<open>CanonProps\<close>: the interface \<open>deep_copy\<close>, kept by every function of the recursion
    and interpreted on \<open>copy_ptr\<close>. \<open>CanonClaims\<close>: the properties, and the
    safety of every setter together with that of \<open>capnp_builder_copy_ptr\<close>.
  \<^item> RPC. \<open>Rpc\<close>, \<open>RpcBuild\<close>, \<open>RpcHandle\<close>, \<open>RpcServe\<close>: the tables, the messages, the handlers and
    \<open>capnp_rpc_handle\<close>. \<open>RpcTables\<close>: the interface \<open>slot_table\<close>, interpreted on the four tables, and
    \<open>conn_inv\<close>. \<open>RpcInv\<close>, \<open>RpcReach\<close>: every operation keeps \<open>conn_inv\<close>; \<open>vat_step\<close> and \<open>reachable\<close>.
    \<open>RpcWire\<close>, \<open>RpcBodies\<close>, \<open>RpcRead\<close>, \<open>RpcEnd\<close>, \<open>RpcHandoff\<close>: the exact frames, and what a peer does
    with them. \<open>fills\<close> says what a \<open>fill\<close> callback leaves in the parameters of a call: any cells, with
    whatever they point to, up to 1000 words. \<open>RpcClaims\<close>, \<open>RpcThree\<close>, \<open>RpcStream\<close>: exchanges of two and three vats, embargoes and
    streams. A stream never waits: the connection cannot receive, so a call without an answer is failed
    when it is retired. A handler whose \<open>dispatch\<close> fails sends nothing.
  \<^item> Code generator. \<open>GenText\<close>: names, literals and the formats of \<open>printf\<close>. \<open>GenEmit\<close>, \<open>GenModule\<close>:
    what every \<open>emit\<close> function prints, the module of a file, and \<open>main\<close>. \<open>GenBudget\<close>: the
    recursion of \<open>emit_group_clear\<close> ends and prints. \<open>GenClaims\<close>: the properties. \<open>GenCalls\<close>: the generated code calls
    only functions that the table of \<open>ModReg\<close> registers.
  \<^item> Janet module. \<open>ModApi\<close>: the functions of the virtual machine the module calls, its results (a
    value or a panic) and its argument checks. \<open>ModRead\<close>, \<open>ModWrite\<close>: every \<open>cfun_\<close> function and the
    protocol hooks. \<open>ModProps\<close>: allocations and stores change one range of bytes. \<open>ModSafe\<close>, \<open>ModCalls\<close>:
    a call keeps the arena and all handles valid and stays inside the struct of its handle; \<open>exec\<close>
    and \<open>run_calls\<close> are programs that build. \<open>ModBuild\<close>: \<open>cfun_build_message\<close> is safe for numbers in
    range. \<open>ModViews\<close>: programs that read, index and iterate. \<open>ModClaims\<close>: the
    properties, and the round trip of the eleven scalar types. \<open>ModReg\<close>: the functions defined by the two
    list macros and the table of all functions. \<open>ModHeap\<close>: the objects under the garbage collector, the
    \<open>gcmark\<close> callbacks, and a step relation \<open>mstep\<close> of calls, collections and changes to buffers;
    \<open>ModKeep\<close>: no step of a reachable machine uses an object that was freed. The steps cover every call
    that makes or uses an object, with three premises: an opened message is \<open>placed\<close> (\<open>may_call\<close>), a viewed
    buffer is not changed (\<open>unviewed\<close>), a number cast to \<open>int32_t\<close> is in range (\<open>key_ok\<close>, \<open>build_casts\<close>).
  \<^item> Client. \<open>Client\<close>: \<open>send_fd\<close>, \<open>read_all\<close>, \<open>read_frame\<close> and \<open>main\<close>. \<open>ClientProps\<close>: a socket may cut the
    stream anywhere; the loops move exactly their bytes. \<open>ClientCall\<close>: a call with parameters and its
    results on the wire. \<open>ClientClaims\<close>: the transport, the overflow of its size check, and the
    program against a vat that adds.

  \<^bold>\<open>Bounds.\<close>
  \<^item> \<open>copy_ptr\<close> takes the number of levels left; the code tests \<open>depth > 64\<close>, so 65 levels are the
    recursion of the code.
  \<^item> \<open>emit_group_clear\<close> has more levels than words of budget left; \<open>group_clear_returns\<close> shows that the
    result does not depend on what a call without a level left would give.
  \<^item> \<open>exponent10\<close> scales at most 400 times: the smallest double is above \<open>10 ^ -324\<close>.
  \<^item> \<open>desk\<close> in \<open>RpcWire\<close> is a builder whose first segment has 1024 words, the size \<open>capnp_builder_init\<close>
    gives it; every message the vat builds by itself fits.
  \<^item> All other loops run over a counted range or shorten a list.

  \<^bold>\<open>Not modelled.\<close>
  \<^item> Callbacks that change the connection. In C a \<open>dispatch\<close>, \<open>send\<close> or \<open>fill\<close> function may call the vat
    again, or send on the connection it serves, through a pointer of its own; here a callback computes
    its result from its arguments and leaves the tables alone. Nothing is claimed of reentrant callbacks.
  \<^item> Of \<open>src/janet_mod.c\<close>: the finalisers \<open>msg_gc\<close> and \<open>builder_gc\<close>, which only free memory (a collected
    object is gone from the heap of \<open>mach\<close>), and \<open>capnp_janet_lookup_into\<close>. Memory that a panic leaves
    allocated is not tracked. Steps that change a buffer while a message views it are not part of
    \<open>mstep\<close>: \<open>view_dangles\<close> shows that the next read is then undefined.
  \<^item> Of \<open>interop/rpc_client.c\<close>: the texts on standard error. \<open>include/capnp_janet.h\<close> only includes the
    other headers.
  \<^item> The generator prints the path of each module on standard output and messages on standard
    error; neither is part of the model's result. A write that fails after the file was opened is
    not modelled.
\<close>

end
